(* ===== verification/Chd_Prelude.thy ===== *)
theory Chd_Prelude
  imports Main "HOL-Library.Word" "HOL-Library.Monad_Syntax"
begin

text \<open>
  Shared vocabulary of the development: the machine integers of the driver, its two kinds of
  result code (negative kernel error numbers and \<^verbatim>\<open>BC_STATUS\<close>), flag tests on registers and
  bit masks, and array accesses whose out-of-range case is a value of its own, so that a model
  that would read or write outside a C array returns \<^const>\<open>None\<close> instead of a made-up value.
\<close>

unbundle bit_operations_syntax

type_synonym u8 = "8 word"
type_synonym u16 = "16 word"
type_synonym u32 = "32 word"
type_synonym u64 = "64 word"

named_theorems chd_defs \<open>definitions that the component proofs unfold together\<close>
named_theorems chd_inv \<open>preservation lemmas of component invariants\<close>

section \<open>Result codes\<close>

text \<open>
  Kernel error numbers. A C function returning \<^verbatim>\<open>int\<close> with 0 for success and \<^verbatim>\<open>-E...\<close> for
  failure is modelled with result \<open>errno option\<close>, \<^const>\<open>None\<close> being 0.
\<close>

datatype errno =
    EINVAL | ENOMEM | EBUSY | EOVERFLOW | ENOENT | ESTALE | EALREADY | ERANGE
  | ENODEV | EPIPE | EAGAIN | EIO | E2BIG | ENOSPC | EOPNOTSUPP | EPROTO
  | ENODATA | EILSEQ | EPERM | EACCES | ETIMEDOUT | ERESTARTSYS | EKEYREJECTED | EINTR | EFAULT | EMSGSIZE | ECANCELED

type_synonym rc = "errno option"

abbreviation rc_ok :: rc where
  "rc_ok \<equiv> None"

datatype bc_status =
    BC_STS_SUCCESS | BC_STS_INV_ARG | BC_STS_BUSY | BC_STS_NOT_IMPL | BC_STS_PGM_QUIT
  | BC_STS_NO_ACCESS | BC_STS_INSUFF_RES | BC_STS_IO_ERROR | BC_STS_NO_DATA
  | BC_STS_VER_MISMATCH | BC_STS_TIMEOUT | BC_STS_FW_CMD_ERR | BC_STS_DEC_NOT_OPEN
  | BC_STS_ERR_USAGE | BC_STS_IO_USER_ABORT | BC_STS_IO_XFR_ERROR | BC_STS_DEC_NOT_STARTED
  | BC_STS_FWHEX_NOT_FOUND | BC_STS_FMT_CHANGE | BC_STS_HIF_ACCESS | BC_STS_CMD_CANCELLED
  | BC_STS_FW_AUTH_FAILED | BC_STS_BOOTLOADER_FAILED | BC_STS_CERT_VERIFY_ERROR
  | BC_STS_DEC_EXIST_OPEN | BC_STS_PENDING | BC_STS_PWR_MGMT | BC_STS_ERROR

text \<open>The driver's translation of a core status into a system-call error.\<close>

fun crystalhd_status_to_errno :: "bc_status \<Rightarrow> rc" where
  "crystalhd_status_to_errno BC_STS_SUCCESS = rc_ok"
| "crystalhd_status_to_errno BC_STS_INV_ARG = Some EINVAL"
| "crystalhd_status_to_errno BC_STS_BUSY = Some EBUSY"
| "crystalhd_status_to_errno BC_STS_INSUFF_RES = Some ENOMEM"
| "crystalhd_status_to_errno BC_STS_NO_ACCESS = Some EACCES"
| "crystalhd_status_to_errno BC_STS_TIMEOUT = Some ETIMEDOUT"
| "crystalhd_status_to_errno BC_STS_IO_USER_ABORT = Some ERESTARTSYS"
| "crystalhd_status_to_errno BC_STS_FW_AUTH_FAILED = Some EKEYREJECTED"
| "crystalhd_status_to_errno BC_STS_CERT_VERIFY_ERROR = Some EKEYREJECTED"
| "crystalhd_status_to_errno BC_STS_PWR_MGMT = Some EAGAIN"
| "crystalhd_status_to_errno _ = Some EIO"

lemma status_to_errno_ok_iff [simp]:
  "crystalhd_status_to_errno sts = None \<longleftrightarrow> sts = BC_STS_SUCCESS"
  by (cases sts) simp_all

section \<open>Flag words\<close>

definition has_flag :: "'a::len word \<Rightarrow> 'a word \<Rightarrow> bool" where
  "has_flag x m \<longleftrightarrow> x AND m \<noteq> 0"

lemma has_flag_or: "has_flag (x OR y) m \<longleftrightarrow> has_flag x m \<or> has_flag y m"
  by (auto simp: has_flag_def bit_eq_iff bit_simps)

lemma has_flag_or_self [simp]: "m \<noteq> 0 \<Longrightarrow> has_flag (x OR m) m"
  by (simp add: has_flag_or) (simp add: has_flag_def)

lemma has_flag_zero [simp]: "\<not> has_flag 0 m"
  by (simp add: has_flag_def)

section \<open>Array cells\<close>

text \<open>
  \<open>cell_upd xs i f\<close> is the write \<^verbatim>\<open>xs[i] = f(xs[i])\<close>; an index outside the allocation, which
  is undefined behaviour in C, is \<^const>\<open>None\<close>.
\<close>

definition cell_upd :: "'a list \<Rightarrow> nat \<Rightarrow> ('a \<Rightarrow> 'a) \<Rightarrow> 'a list option" where
  "cell_upd xs i f = (if i < length xs then Some (xs[i := f (xs ! i)]) else None)"

lemma cell_upd_in [simp]: "i < length xs \<Longrightarrow> cell_upd xs i f = Some (xs[i := f (xs ! i)])"
  by (simp add: cell_upd_def)

lemma cell_upd_SomeE:
  assumes "cell_upd xs i f = Some ys"
  obtains "i < length xs" "ys = xs[i := f (xs ! i)]"
  using assms by (auto simp: cell_upd_def split: if_splits)

lemma cell_upd_length: "cell_upd xs i f = Some ys \<Longrightarrow> length ys = length xs"
  by (auto elim: cell_upd_SomeE)

lemma less_2_cases_nat: "(i::nat) < 2 \<longleftrightarrow> i = 0 \<or> i = 1"
  by auto

section \<open>Words as indices\<close>

lemma unat_pred: "x \<noteq> 0 \<Longrightarrow> unat (x - 1) = unat x - 1" for x :: "'a::len word"
  by (simp add: unat_minus_one)

lemma unat_pos: "x \<noteq> 0 \<longleftrightarrow> 0 < unat x" for x :: "'a::len word"
  by (simp add: unat_gt_0)

lemma unat_Suc_less: "x < y \<Longrightarrow> unat (x + 1) = Suc (unat x)" for x y :: "'a::len word"
proof -
  assume "x < y"
  then have "unat x < unat y" by (simp add: word_less_nat_alt)
  moreover have "unat y < 2 ^ LENGTH('a)" by (rule unsigned_less)
  ultimately have "unat x + 1 < 2 ^ LENGTH('a)" by linarith
  then show ?thesis by (simp add: unat_word_ariths)
qed

lemma word_le_plus_one: "x \<noteq> - 1 \<Longrightarrow> x \<le> x + 1" for x :: "'a::len word"
proof -
  assume "x \<noteq> - 1"
  then have "x < - 1" using word_n1_ge [of x] by (simp add: order.strict_iff_order)
  then show ?thesis using unat_Suc_less [of x "- 1"] by (simp add: word_le_nat_alt)
qed

lemma word_plus_one_nz: "x \<noteq> - 1 \<Longrightarrow> x + 1 \<noteq> 0" for x :: "'a::len word"
  by (metis add_eq_0_iff add.commute)

lemma unat_u32_less: "unat x < 2 ^ 32" for x :: u32
proof -
  have "unat x < 2 ^ LENGTH(32)" by (rule unsigned_less)
  then show ?thesis by simp
qed

lemma unat_ucast_u32_u64 [simp]: "unat (ucast x :: u64) = unat x" for x :: u32
proof -
  have "unat x < 2 ^ 64" using unat_u32_less [of x] by simp
  then show ?thesis by (simp add: unsigned_ucast_eq take_bit_nat_eq_self)
qed

lemma unat_word_of_nat_u32: "n < 2 ^ 32 \<Longrightarrow> unat (word_of_nat n :: u32) = n"
  by (simp add: unsigned_of_nat take_bit_nat_eq_self)

section \<open>Byte arrays\<close>

text \<open>\<open>mem_write m off bs\<close> is a \<^verbatim>\<open>memcpy\<close> or \<^verbatim>\<open>memset\<close> into \<open>m\<close>; a range outside \<open>m\<close> is \<^const>\<open>None\<close>.\<close>

definition mem_write :: "'a list \<Rightarrow> nat \<Rightarrow> 'a list \<Rightarrow> 'a list option" where
  "mem_write m off bs =
    (if off + length bs \<le> length m then Some (take off m @ bs @ drop (off + length bs) m) else None)"

lemma mem_write_length: "mem_write m off bs = Some m' \<Longrightarrow> length m' = length m"
  by (auto simp: mem_write_def split: if_splits)

lemma mem_write_prefix:
  assumes "mem_write m off bs = Some m'"
  shows "take (off + length bs) m' = take off m @ bs"
  using assms by (auto simp: mem_write_def split: if_splits)

text \<open>\<open>mem_read m off n\<close> is the range a \<^verbatim>\<open>memcpy\<close> reads from \<open>m\<close>.\<close>

definition mem_read :: "'a list \<Rightarrow> nat \<Rightarrow> nat \<Rightarrow> 'a list option" where
  "mem_read m off n = (if off + n \<le> length m then Some (take n (drop off m)) else None)"

section \<open>Reference counts\<close>

text \<open>The kernel's saturating \<^verbatim>\<open>refcount_t\<close>.\<close>

abbreviation (input) REFCOUNT_SATURATED :: u32 where "REFCOUNT_SATURATED \<equiv> 0xC0000000"

definition refcount_inc :: "u32 \<Rightarrow> u32" where
  "refcount_inc r = (if r = 0 \<or> r \<ge> 0x7FFFFFFF then REFCOUNT_SATURATED else r + 1)"

definition refcount_dec_and_test :: "u32 \<Rightarrow> bool \<times> u32" where
  "refcount_dec_and_test r =
    (if r = 1 then (True, 0) else if r = 0 \<or> r \<ge> 0x80000000 then (False, REFCOUNT_SATURATED)
     else (False, r - 1))"

section \<open>Histories of calls\<close>

text \<open>
  A component driven by calls: \<open>run_ops\<close> executes a history of them, collecting the results. The
  contract every stateful component of the driver is shown to meet: calls that respect the
  environment's promises return, and keep the invariant.
\<close>

fun run_ops :: "('op \<Rightarrow> 's \<Rightarrow> ('r \<times> 's) option) \<Rightarrow> 'op list \<Rightarrow> 's \<Rightarrow> ('r list \<times> 's) option" where
  "run_ops step [] s = Some ([], s)"
| "run_ops step (op # ops) s = do { (r, s1) \<leftarrow> step op s; (rs, s2) \<leftarrow> run_ops step ops s1; Some (r # rs, s2) }"

locale call_history =
  fixes step :: "'op \<Rightarrow> 's \<Rightarrow> ('r \<times> 's) option"
    and admissible :: "'op \<Rightarrow> bool"
    and inv :: "'s \<Rightarrow> bool"
  assumes step_total: "inv s \<Longrightarrow> admissible op \<Longrightarrow> \<exists>r s'. step op s = Some (r, s') \<and> inv s'"
begin

lemma run_total:
  "inv s \<Longrightarrow> \<forall>op\<in>set ops. admissible op \<Longrightarrow> \<exists>rs s'. run_ops step ops s = Some (rs, s') \<and> inv s' \<and> length rs = length ops"
proof (induction ops arbitrary: s)
  case (Cons op ops)
  obtain r s1 where s1: "step op s = Some (r, s1)" "inv s1" using step_total Cons.prems by fastforce
  moreover obtain rs s2 where "run_ops step ops s1 = Some (rs, s2)" "inv s2" "length rs = length ops"
    using Cons.IH [OF s1(2)] Cons.prems by auto
  ultimately show ?case by simp
qed simp

end

text \<open>A component with states that only a releasing call leaves.\<close>

locale frozen_history = call_history +
  fixes frozen :: "'s \<Rightarrow> bool"
    and releases :: "'op \<Rightarrow> bool"
  assumes frozen_step: "inv s \<Longrightarrow> frozen s \<Longrightarrow> admissible op \<Longrightarrow> \<not> releases op \<Longrightarrow> \<exists>r. step op s = Some (r, s)"
begin

lemma run_frozen:
  "inv s \<Longrightarrow> frozen s \<Longrightarrow> \<forall>op\<in>set ops. admissible op \<and> \<not> releases op \<Longrightarrow> \<exists>rs. run_ops step ops s = Some (rs, s)"
proof (induction ops)
  case (Cons op ops)
  obtain r where "step op s = Some (r, s)" using frozen_step Cons.prems by fastforce
  then show ?case using Cons by auto
qed simp

end

end
