(* ===== verification/Rx_Receipt.thy ===== *)
theory Rx_Receipt
  imports Chd_Prelude
begin

text \<open>
  The RX lifecycle observer (\<^verbatim>\<open>driver/linux/crystalhd_rx_receipt.c\<close>): a bounded store of
  records, armed by one ioctl, filled by the capture path while DMA lists are posted, completed,
  parsed and disposed of, sealed by a second ioctl and read back in pages by a third.
  The store the adapter publishes through RCU is the field \<open>adp_rx_receipts\<close>; every section the
  code runs under the store's spinlock is one state transformation. The kernel's allocator and
  clock are arguments (\<open>store_ok\<close>, \<open>records_ok\<close>, \<open>now\<close>). A write outside the record array
  would be the result \<^const>\<open>None\<close>.
\<close>

section \<open>Data\<close>

abbreviation (input) DMA_ENGINE_CNT :: nat where "DMA_ENGINE_CNT \<equiv> 2"
abbreviation (input) RX_RECEIPT_READ_RECORDS :: u32 where "RX_RECEIPT_READ_RECORDS \<equiv> 32"
abbreviation (input) RX_RECEIPT_MAX_RECORDS :: u32 where "RX_RECEIPT_MAX_RECORDS \<equiv> 65536"
abbreviation (input) RX_RECEIPT_SEAL_CURRENT :: u32 where "RX_RECEIPT_SEAL_CURRENT \<equiv> 1"
abbreviation (input) STAGE_RESERVED :: u32 where "STAGE_RESERVED \<equiv> 1"
abbreviation (input) STAGE_FIRE_RETURN :: u32 where "STAGE_FIRE_RETURN \<equiv> 2"
abbreviation (input) STAGE_IRQ_ENTRY :: u32 where "STAGE_IRQ_ENTRY \<equiv> 4"
abbreviation (input) STAGE_COMPLETE :: u32 where "STAGE_COMPLETE \<equiv> 8"
abbreviation (input) STAGE_PARSED :: u32 where "STAGE_PARSED \<equiv> 16"
abbreviation (input) STAGE_PARSE_FAILED :: u32 where "STAGE_PARSE_FAILED \<equiv> 32"
abbreviation (input) STAGE_DISPOSITION :: u32 where "STAGE_DISPOSITION \<equiv> 64"
abbreviation (input) STAGE_CLOCK_INVERTED :: u32 where "STAGE_CLOCK_INVERTED \<equiv> 128"
abbreviation (input) STAGE_LIST_REPLACED :: u32 where "STAGE_LIST_REPLACED \<equiv> 256"
abbreviation (input) COMP_FLAG_PIB_VALID :: u32 where "COMP_FLAG_PIB_VALID \<equiv> 2"

record rx_receipt =
  rr_ordinal :: u64
  rr_capture_epoch :: u64
  rr_fire_return_ns :: u64
  rr_irq_entry_ns :: u64
  rr_completion_ns :: u64
  rr_parse_ns :: u64
  rr_disposition_ns :: u64
  rr_firmware_timestamp :: u64
  rr_rx_sequence :: u32
  rr_list_index :: u32
  rr_packet_tag :: u32
  rr_channel_id :: u32
  rr_completion_status :: bc_status
  rr_y_done_words :: u32
  rr_uv_done_words :: u32
  rr_y_descriptor_count :: u32
  rr_uv_descriptor_count :: u32
  rr_picture_number :: u32
  rr_picture_flags :: u32
  rr_picture_width :: u32
  rr_picture_height :: u32
  rr_row_width :: u32
  rr_pib_line :: u32
  rr_session_number :: u32
  rr_packet_flags :: u32
  rr_stage_flags :: u32
  rr_disposition :: u32
  rr_eos_trailer :: bool

text \<open>The contents of a record fresh from \<^verbatim>\<open>kvcalloc\<close> (status 0 is \<open>BC_STS_SUCCESS\<close>).\<close>

definition zero_receipt :: rx_receipt where
  "zero_receipt =
    \<lparr>rr_ordinal = 0, rr_capture_epoch = 0, rr_fire_return_ns = 0, rr_irq_entry_ns = 0,
     rr_completion_ns = 0, rr_parse_ns = 0, rr_disposition_ns = 0, rr_firmware_timestamp = 0,
     rr_rx_sequence = 0, rr_list_index = 0, rr_packet_tag = 0, rr_channel_id = 0,
     rr_completion_status = BC_STS_SUCCESS, rr_y_done_words = 0, rr_uv_done_words = 0,
     rr_y_descriptor_count = 0, rr_uv_descriptor_count = 0, rr_picture_number = 0,
     rr_picture_flags = 0, rr_picture_width = 0, rr_picture_height = 0, rr_row_width = 0,
     rr_pib_line = 0, rr_session_number = 0, rr_packet_flags = 0, rr_stage_flags = 0,
     rr_disposition = 0, rr_eos_trailer = False\<rparr>"

record receipt_store =
  st_records :: "rx_receipt list"
  st_run_id :: u64
  st_capacity :: u32
  st_count :: u32
  st_overflow :: u32
  st_active :: "u32 list"
  st_armed :: bool
  st_sealed :: bool

text \<open>The adapter fields the observer uses, and a DMA packet as far as the observer reads it.\<close>

record receipt_adp =
  adp_rx_receipts :: "receipt_store option"
  adp_rx_receipt_last_run_id :: u64
  adp_generation :: u64

record rx_metadata =
  md_firmware_timestamp :: u64
  md_picture_number :: u32
  md_picture_flags :: u32
  md_picture_width :: u32
  md_picture_height :: u32
  md_row_width :: u32
  md_pib_line :: u32
  md_session_number :: u32
  md_valid :: bool
  md_eos_trailer :: bool

record rx_pib =
  pib_picture_number :: u32
  pib_flags :: u32
  pib_width :: u32
  pib_height :: u32
  pib_sess_num :: u32

text \<open>
  \<open>pkt_descriptors\<close> is the descriptor array of \<^verbatim>\<open>desc_mem\<close> as the list of its
  \<^verbatim>\<open>last_rec_indicator\<close> bits; its length is \<^verbatim>\<open>sz / sizeof(*descriptor)\<close>, and the empty list
  also stands for a missing array.
\<close>

record rx_dma_pkt =
  pkt_capture_epoch :: u64
  pkt_pkt_tag :: u32
  pkt_flags :: u32
  pkt_y_done_sz :: u32
  pkt_uv_done_sz :: u32
  pkt_pib :: rx_pib
  pkt_metadata :: rx_metadata
  pkt_descriptors :: "bool list"
  pkt_receipt_run_id :: u64
  pkt_receipt_index_plus_one :: u32
  pkt_receipt_y_descriptor_count :: u32
  pkt_receipt_uv_descriptor_count :: u32

record receipt_key =
  key_run_id :: u64
  key_index_plus_one :: u32

record arm_request =
  arm_capacity :: u32
  arm_generation :: u64
  arm_run_id :: u64

record seal_request =
  seal_flags :: u32
  seal_sealed :: u32
  seal_generation :: u64
  seal_run_id :: u64
  seal_record_count :: u32
  seal_overflow_count :: u32

record read_request =
  read_start :: u32
  read_generation :: u64
  read_run_id :: u64
  read_returned :: u32
  read_record_count :: u32
  read_overflow_count :: u32
  read_sealed :: u32
  read_records :: "rx_receipt list"

text \<open>\<open>hw\<close> as the observer sees it: a nullable pointer to a context with a nullable adapter.\<close>

record receipt_hw =
  hw_adp :: "receipt_adp option"

section \<open>Lookups\<close>

definition crystalhd_rx_receipt_store :: "receipt_hw option \<Rightarrow> receipt_store option" where
  "crystalhd_rx_receipt_store hw =
    (case hw of None \<Rightarrow> None
     | Some h \<Rightarrow> (case hw_adp h of None \<Rightarrow> None | Some a \<Rightarrow> adp_rx_receipts a))"

text \<open>The index of the record a packet or a key refers to, if it is one of this run.\<close>

definition receipt_index :: "receipt_store \<Rightarrow> u64 \<Rightarrow> u32 \<Rightarrow> u32 option" where
  "receipt_index s run index_plus_one =
    (if run \<noteq> st_run_id s \<or> index_plus_one = 0 then None
     else let index = index_plus_one - 1
          in if index \<ge> st_count s \<or> index \<ge> st_capacity s then None else Some index)"

definition crystalhd_rx_receipt_record_locked ::
  "receipt_store \<Rightarrow> rx_dma_pkt option \<Rightarrow> u32 option" where
  "crystalhd_rx_receipt_record_locked s pkt =
    (case pkt of None \<Rightarrow> None
     | Some p \<Rightarrow> receipt_index s (pkt_receipt_run_id p) (pkt_receipt_index_plus_one p))"

definition crystalhd_rx_receipt_key_locked ::
  "receipt_store \<Rightarrow> receipt_key option \<Rightarrow> u32 option" where
  "crystalhd_rx_receipt_key_locked s key =
    (case key of None \<Rightarrow> None
     | Some k \<Rightarrow> receipt_index s (key_run_id k) (key_index_plus_one k))"

text \<open>Writing one record of the store; \<^const>\<open>None\<close> is an access outside the array.\<close>

definition record_upd ::
  "receipt_store \<Rightarrow> u32 \<Rightarrow> (rx_receipt \<Rightarrow> rx_receipt) \<Rightarrow> receipt_store option" where
  "record_upd s i f =
    map_option (\<lambda>rs. s\<lparr>st_records := rs\<rparr>) (cell_upd (st_records s) (unat i) f)"

definition stage_or :: "u32 \<Rightarrow> rx_receipt \<Rightarrow> rx_receipt" where
  "stage_or m r = r\<lparr>rr_stage_flags := rr_stage_flags r OR m\<rparr>"

text \<open>
  Running a spinlocked section on the store \<open>hw\<close> leads to: no store, no effect.
\<close>

definition with_store ::
  "receipt_hw option \<Rightarrow> (receipt_store \<Rightarrow> receipt_store option) \<Rightarrow> receipt_hw option option" where
  "with_store hw f =
    (case hw of None \<Rightarrow> Some hw
     | Some h \<Rightarrow> (case hw_adp h of None \<Rightarrow> Some hw
       | Some a \<Rightarrow> (case adp_rx_receipts a of None \<Rightarrow> Some hw
         | Some s \<Rightarrow>
           map_option (\<lambda>s'. Some (h\<lparr>hw_adp := Some (a\<lparr>adp_rx_receipts := Some s'\<rparr>)\<rparr>)) (f s))))"

section \<open>The ioctls: arm, cancel, seal, read, cleanup\<close>

definition crystalhd_rx_receipt_arm ::
  "bool \<Rightarrow> bool \<Rightarrow> receipt_adp option \<Rightarrow> arm_request option
    \<Rightarrow> rc \<times> receipt_adp option \<times> arm_request option" where
  "crystalhd_rx_receipt_arm store_ok records_ok adp req =
    (case (adp, req) of
       (Some a, Some r) \<Rightarrow>
         (if arm_capacity r = 0 \<or> arm_capacity r > RX_RECEIPT_MAX_RECORDS
          then (Some EINVAL, adp, req)
          else if \<not> store_ok then (Some ENOMEM, adp, req)
          else if \<not> records_ok then (Some ENOMEM, adp, req)
          else if (case adp_rx_receipts a of Some old \<Rightarrow> \<not> st_sealed old | None \<Rightarrow> False)
          then (Some EBUSY, adp, req)
          else if adp_rx_receipt_last_run_id a = - 1 then (Some EOVERFLOW, adp, req)
          else
            let run_id = adp_rx_receipt_last_run_id a + 1;
                store = \<lparr>st_records = replicate (unat (arm_capacity r)) zero_receipt,
                         st_run_id = run_id, st_capacity = arm_capacity r, st_count = 0,
                         st_overflow = 0, st_active = replicate DMA_ENGINE_CNT 0,
                         st_armed = True, st_sealed = False\<rparr>
            in (rc_ok,
                Some (a\<lparr>adp_rx_receipt_last_run_id := run_id,
                        adp_rx_receipts := Some store\<rparr>),
                Some (r\<lparr>arm_generation := adp_generation a, arm_run_id := run_id\<rparr>)))
     | _ \<Rightarrow> (Some EINVAL, adp, req))"

definition crystalhd_rx_receipt_cancel_empty_arm ::
  "receipt_adp option \<Rightarrow> u64 \<Rightarrow> u64 \<Rightarrow> rc \<times> receipt_adp option" where
  "crystalhd_rx_receipt_cancel_empty_arm adp generation run_id =
    (case adp of None \<Rightarrow> (Some EINVAL, adp)
     | Some a \<Rightarrow>
       if generation = 0 \<or> run_id = 0 then (Some EINVAL, adp)
       else (case adp_rx_receipts a of None \<Rightarrow> (Some ENOENT, adp)
         | Some s \<Rightarrow>
           if adp_generation a \<noteq> generation \<or> st_run_id s \<noteq> run_id then (Some ESTALE, adp)
           else if \<not> st_armed s \<or> st_sealed s \<or> st_count s \<noteq> 0 \<or> st_overflow s \<noteq> 0
           then (Some EBUSY, adp)
           else if (\<exists>x \<in> set (st_active s). x \<noteq> 0) then (Some EBUSY, adp)
           else (rc_ok, Some (a\<lparr>adp_rx_receipts := None\<rparr>))))"

definition crystalhd_rx_receipt_seal ::
  "receipt_adp option \<Rightarrow> seal_request option \<Rightarrow> rc \<times> receipt_adp option \<times> seal_request option" where
  "crystalhd_rx_receipt_seal adp req =
    (case (adp, req) of
       (Some a, Some r) \<Rightarrow>
         let recover_current = (seal_flags r = RX_RECEIPT_SEAL_CURRENT)
         in if (\<not> recover_current \<and> (seal_flags r \<noteq> 0 \<or> seal_run_id r = 0)) \<or>
               (recover_current \<and> seal_run_id r \<noteq> 0)
            then (Some EINVAL, adp, req)
            else (case adp_rx_receipts a of None \<Rightarrow> (Some ENOENT, adp, req)
              | Some s \<Rightarrow>
                let (rc, s') =
                      (if st_sealed s then (if recover_current then rc_ok else Some EALREADY, s)
                       else if \<not> st_armed s then (Some EALREADY, s)
                       else if \<not> recover_current \<and> seal_run_id r \<noteq> st_run_id s
                       then (Some ESTALE, s)
                       else (rc_ok, s\<lparr>st_armed := False, st_sealed := True\<rparr>));
                    r' = (if rc = rc_ok
                          then r\<lparr>seal_sealed := 1, seal_generation := adp_generation a,
                                 seal_run_id := st_run_id s', seal_record_count := st_count s',
                                 seal_overflow_count := st_overflow s'\<rparr>
                          else r)
                in (rc, Some (a\<lparr>adp_rx_receipts := Some s'\<rparr>), Some r'))
     | _ \<Rightarrow> (Some EINVAL, adp, req))"

text \<open>
  The page copy \<^verbatim>\<open>memcpy(request->records, &store->records[start], available)\<close> overwrites the
  first \<open>available\<close> cells of the request's record array and leaves the others.
\<close>

definition crystalhd_rx_receipt_read ::
  "receipt_adp option \<Rightarrow> read_request option \<Rightarrow> rc \<times> read_request option" where
  "crystalhd_rx_receipt_read adp req =
    (case (adp, req) of
       (Some a, Some r) \<Rightarrow>
         if read_run_id r = 0 then (Some EINVAL, req)
         else (case adp_rx_receipts a of None \<Rightarrow> (Some ENOENT, req)
           | Some s \<Rightarrow>
             if \<not> st_sealed s then (Some EBUSY, req)
             else if read_run_id r \<noteq> st_run_id s then (Some ESTALE, req)
             else if read_start r > st_count s then (Some ERANGE, req)
             else
               let available = min (st_count s - read_start r) RX_RECEIPT_READ_RECORDS
               in (rc_ok,
                   Some (r\<lparr>read_generation := adp_generation a, read_run_id := st_run_id s,
                           read_returned := available, read_record_count := st_count s,
                           read_overflow_count := st_overflow s, read_sealed := 1,
                           read_records :=
                             take (unat available) (drop (unat (read_start r)) (st_records s)) @
                             drop (unat available) (read_records r)\<rparr>)))
     | _ \<Rightarrow> (Some EINVAL, req))"

definition crystalhd_rx_receipt_cleanup :: "receipt_adp option \<Rightarrow> receipt_adp option" where
  "crystalhd_rx_receipt_cleanup adp = map_option (\<lambda>a. a\<lparr>adp_rx_receipts := None\<rparr>) adp"

section \<open>The capture path\<close>

text \<open>
  The scan \<^verbatim>\<open>for (count = start; count < limit; count++) if (last) { count++; break; }\<close>: the
  value of \<open>count\<close> after the loop.
\<close>

function scan_last :: "bool list \<Rightarrow> nat \<Rightarrow> nat" where
  "scan_last ds count =
    (if count < length ds then (if ds ! count then count + 1 else scan_last ds (count + 1))
     else count)"
  by pat_completeness auto
termination
  by (relation "measure (\<lambda>(ds, count). length ds - count)") auto

declare scan_last.simps [simp del]

definition crystalhd_rx_receipt_descriptors ::
  "rx_dma_pkt option \<Rightarrow> u32 \<Rightarrow> rx_dma_pkt option" where
  "crystalhd_rx_receipt_descriptors pkt uv_descriptor_index =
    (case pkt of None \<Rightarrow> None
     | Some p \<Rightarrow>
       let p0 = p\<lparr>pkt_receipt_y_descriptor_count := 0, pkt_receipt_uv_descriptor_count := 0\<rparr>;
           limit = length (pkt_descriptors p); start = unat uv_descriptor_index;
           count = scan_last (pkt_descriptors p) start
       in if limit = 0 then Some p0
          else if start \<ge> limit then Some p0
          else if count \<le> start \<or> count > limit then Some p0
          else if uv_descriptor_index \<noteq> 0
          then Some (p0\<lparr>pkt_receipt_y_descriptor_count := uv_descriptor_index,
                        pkt_receipt_uv_descriptor_count :=
                          word_of_nat count - uv_descriptor_index\<rparr>)
          else Some (p0\<lparr>pkt_receipt_y_descriptor_count := word_of_nat count\<rparr>))"

text \<open>
  The locked part of \<open>reserve\<close>: mark and drop a list still owned, then take the next record. The
  second component is the index plus one stamped into packet and key (0: none).
\<close>

definition reserve_locked ::
  "rx_dma_pkt \<Rightarrow> u32 \<Rightarrow> u32 \<Rightarrow> u32 \<Rightarrow> receipt_store \<Rightarrow> (receipt_store \<times> u32) option" where
  "reserve_locked p list_index rx_sequence channel_id s =
    (if \<not> st_armed s \<or> st_sealed s then Some (s, 0)
     else do {
       s1 \<leftarrow> (let a = st_active s ! unat list_index
              in if a \<noteq> 0 then do {
                   s' \<leftarrow> (if a - 1 < st_count s then record_upd s (a - 1) (stage_or STAGE_LIST_REPLACED)
                         else Some s);
                   Some (s'\<lparr>st_active := (st_active s')[unat list_index := 0],
                            st_overflow := st_overflow s' + 1\<rparr>) }
                 else Some s);
       if st_count s1 \<ge> st_capacity s1 then Some (s1\<lparr>st_overflow := st_overflow s1 + 1\<rparr>, 0)
       else do {
         let index = st_count s1;
         s2 \<leftarrow> record_upd (s1\<lparr>st_count := st_count s1 + 1\<rparr>) index
                (\<lambda>r. r\<lparr>rr_ordinal := ucast index, rr_capture_epoch := pkt_capture_epoch p,
                       rr_rx_sequence := rx_sequence, rr_list_index := list_index,
                       rr_packet_tag := pkt_pkt_tag p, rr_channel_id := channel_id,
                       rr_y_descriptor_count := pkt_receipt_y_descriptor_count p,
                       rr_uv_descriptor_count := pkt_receipt_uv_descriptor_count p,
                       rr_stage_flags := STAGE_RESERVED\<rparr>);
         Some (s2\<lparr>st_active := (st_active s2)[unat list_index := index + 1]\<rparr>, index + 1) } })"

definition crystalhd_rx_receipt_reserve ::
  "receipt_hw option \<Rightarrow> rx_dma_pkt option \<Rightarrow> u32 \<Rightarrow> u32 \<Rightarrow> u32 \<Rightarrow> receipt_key option
    \<Rightarrow> (receipt_hw option \<times> rx_dma_pkt option \<times> receipt_key option) option" where
  "crystalhd_rx_receipt_reserve hw pkt list_index rx_sequence channel_id key =
    (case pkt of None \<Rightarrow> Some (hw, pkt, key)
     | Some p \<Rightarrow>
       if unat list_index \<ge> DMA_ENGINE_CNT then Some (hw, pkt, key)
       else
         let key0 = map_option (\<lambda>k. k\<lparr>key_run_id := 0, key_index_plus_one := 0\<rparr>) key;
             p0 = p\<lparr>pkt_receipt_run_id := 0, pkt_receipt_index_plus_one := 0\<rparr>
         in (case crystalhd_rx_receipt_store hw of
              None \<Rightarrow> Some (hw, Some p0, key0)
            | Some s \<Rightarrow> do {
                (s', taken) \<leftarrow> reserve_locked p0 list_index rx_sequence channel_id s;
                hw' \<leftarrow> with_store hw (\<lambda>_. Some s');
                if taken = 0 then Some (hw', Some p0, key0)
                else Some (hw',
                  Some (p0\<lparr>pkt_receipt_run_id := st_run_id s, pkt_receipt_index_plus_one := taken\<rparr>),
                  map_option (\<lambda>k. k\<lparr>key_run_id := st_run_id s, key_index_plus_one := taken\<rparr>) key0) }))"

text \<open>
  The remaining operations, each with its spinlocked section as a definition of its own.
\<close>

definition fire_return_locked ::
  "u64 \<Rightarrow> receipt_key option \<Rightarrow> receipt_store \<Rightarrow> receipt_store option" where
  "fire_return_locked now key s =
    (case crystalhd_rx_receipt_key_locked s key of None \<Rightarrow> Some s
     | Some i \<Rightarrow> record_upd s i (\<lambda>r.
         let r' = stage_or STAGE_FIRE_RETURN (r\<lparr>rr_fire_return_ns := now\<rparr>)
         in if rr_irq_entry_ns r' \<noteq> 0 \<and> rr_irq_entry_ns r' < now
            then stage_or STAGE_CLOCK_INVERTED r' else r'))"

definition crystalhd_rx_receipt_fire_return ::
  "u64 \<Rightarrow> receipt_hw option \<Rightarrow> receipt_key option \<Rightarrow> receipt_hw option option" where
  "crystalhd_rx_receipt_fire_return now hw key =
    (if key = None then Some hw else with_store hw (fire_return_locked now key))"

definition crystalhd_rx_receipt_irq_entry :: "u64 \<Rightarrow> receipt_hw option \<Rightarrow> u64" where
  "crystalhd_rx_receipt_irq_entry now hw =
    (case crystalhd_rx_receipt_store hw of Some s \<Rightarrow> if st_armed s then now else 0 | None \<Rightarrow> 0)"

definition irq_locked ::
  "u32 \<Rightarrow> u64 \<Rightarrow> bc_status \<Rightarrow> receipt_store \<Rightarrow> receipt_store option" where
  "irq_locked list_index irq_entry_ns completion_status s =
    (let a = st_active s ! unat list_index
     in if \<not> st_armed s \<or> st_sealed s \<or> a = 0 then Some s
        else
          let s' = s\<lparr>st_active := (st_active s)[unat list_index := 0]\<rparr>
          in if a - 1 \<ge> st_count s' then Some s'
             else record_upd s' (a - 1) (\<lambda>r.
               let r' = stage_or STAGE_IRQ_ENTRY
                     (r\<lparr>rr_irq_entry_ns := irq_entry_ns, rr_completion_status := completion_status\<rparr>)
               in if rr_fire_return_ns r' \<noteq> 0 \<and> irq_entry_ns < rr_fire_return_ns r'
                  then stage_or STAGE_CLOCK_INVERTED r' else r'))"

definition crystalhd_rx_receipt_irq ::
  "receipt_hw option \<Rightarrow> u32 \<Rightarrow> u64 \<Rightarrow> bc_status \<Rightarrow> receipt_hw option option" where
  "crystalhd_rx_receipt_irq hw list_index irq_entry_ns completion_status =
    (if irq_entry_ns = 0 \<or> unat list_index \<ge> DMA_ENGINE_CNT then Some hw
     else with_store hw (irq_locked list_index irq_entry_ns completion_status))"

definition complete_locked ::
  "u64 \<Rightarrow> rx_dma_pkt \<Rightarrow> bc_status \<Rightarrow> receipt_store \<Rightarrow> receipt_store option" where
  "complete_locked now p completion_status s =
    (case crystalhd_rx_receipt_record_locked s (Some p) of None \<Rightarrow> Some s
     | Some i \<Rightarrow> record_upd s i (\<lambda>r.
         let r1 = r\<lparr>rr_completion_ns := now, rr_completion_status := completion_status\<rparr>;
             r2 = (if completion_status = BC_STS_SUCCESS
                   then r1\<lparr>rr_y_done_words := pkt_y_done_sz p,
                           rr_uv_done_words := pkt_uv_done_sz p,
                           rr_packet_flags := pkt_flags p\<rparr>
                   else r1)
         in stage_or STAGE_COMPLETE r2))"

definition crystalhd_rx_receipt_complete ::
  "u64 \<Rightarrow> receipt_hw option \<Rightarrow> rx_dma_pkt option \<Rightarrow> bc_status \<Rightarrow> receipt_hw option option" where
  "crystalhd_rx_receipt_complete now hw pkt completion_status =
    (case pkt of None \<Rightarrow> Some hw
     | Some p \<Rightarrow> with_store hw (complete_locked now p completion_status))"

definition parse_locked ::
  "u64 \<Rightarrow> rx_dma_pkt \<Rightarrow> bool \<Rightarrow> receipt_store \<Rightarrow> receipt_store option" where
  "parse_locked now p parsed s =
    (case crystalhd_rx_receipt_record_locked s (Some p) of None \<Rightarrow> Some s
     | Some i \<Rightarrow>
       if unat i < length (st_records s) \<and>
          has_flag (rr_stage_flags (st_records s ! unat i)) (STAGE_PARSED OR STAGE_PARSE_FAILED)
       then Some s
       else record_upd s i (\<lambda>r.
         let r1 = r\<lparr>rr_parse_ns := now, rr_packet_flags := pkt_flags p\<rparr>;
             m = pkt_metadata p; b = pkt_pib p;
             r2 = (if md_valid m
                   then r1\<lparr>rr_firmware_timestamp := md_firmware_timestamp m,
                           rr_picture_number := md_picture_number m,
                           rr_picture_flags := md_picture_flags m,
                           rr_picture_width := md_picture_width m,
                           rr_picture_height := md_picture_height m,
                           rr_row_width := md_row_width m,
                           rr_pib_line := md_pib_line m,
                           rr_session_number := md_session_number m,
                           rr_eos_trailer := md_eos_trailer m\<rparr>
                   else if has_flag (pkt_flags p) COMP_FLAG_PIB_VALID
                   then r1\<lparr>rr_picture_number := pib_picture_number b,
                           rr_picture_flags := pib_flags b,
                           rr_picture_width := pib_width b,
                           rr_picture_height := pib_height b,
                           rr_session_number := pib_sess_num b\<rparr>
                   else r1)
         in if parsed \<or> has_flag (pkt_flags p) COMP_FLAG_PIB_VALID
            then stage_or STAGE_PARSED r2 else stage_or STAGE_PARSE_FAILED r2))"

definition crystalhd_rx_receipt_parse ::
  "u64 \<Rightarrow> receipt_hw option \<Rightarrow> rx_dma_pkt option \<Rightarrow> bool \<Rightarrow> receipt_hw option option" where
  "crystalhd_rx_receipt_parse now hw pkt parsed =
    (case pkt of None \<Rightarrow> Some hw | Some p \<Rightarrow> with_store hw (parse_locked now p parsed))"

definition disposition_locked ::
  "u64 \<Rightarrow> rx_dma_pkt \<Rightarrow> u32 \<Rightarrow> receipt_store \<Rightarrow> receipt_store option" where
  "disposition_locked now p disposition s =
    (case crystalhd_rx_receipt_record_locked s (Some p) of None \<Rightarrow> Some s
     | Some i \<Rightarrow>
       if unat i < length (st_records s) \<and>
          has_flag (rr_stage_flags (st_records s ! unat i)) STAGE_DISPOSITION
       then Some s
       else record_upd s i (\<lambda>r.
         stage_or STAGE_DISPOSITION (r\<lparr>rr_disposition_ns := now, rr_disposition := disposition\<rparr>)))"

definition crystalhd_rx_receipt_disposition ::
  "u64 \<Rightarrow> receipt_hw option \<Rightarrow> rx_dma_pkt option \<Rightarrow> u32 \<Rightarrow> receipt_hw option option" where
  "crystalhd_rx_receipt_disposition now hw pkt disposition =
    (case pkt of None \<Rightarrow> Some hw
     | Some p \<Rightarrow> with_store hw (disposition_locked now p disposition))"

section \<open>Event sequences\<close>

text \<open>
  Any caller may invoke the operations in any order, on any packet or key, with any allocator
  outcome and any clock reading: an event is one call. \<^const>\<open>None\<close> is an out-of-range write.
\<close>

datatype receipt_event =
    Ev_Arm bool bool arm_request
  | Ev_Cancel u64 u64
  | Ev_Seal seal_request
  | Ev_Cleanup
  | Ev_Reserve rx_dma_pkt u32 u32 u32 "receipt_key option"
  | Ev_Fire_Return u64 receipt_key
  | Ev_Irq u32 u64 bc_status
  | Ev_Complete u64 rx_dma_pkt bc_status
  | Ev_Parse u64 rx_dma_pkt bool
  | Ev_Disposition u64 rx_dma_pkt u32

definition hw_of :: "receipt_adp \<Rightarrow> receipt_hw option" where
  "hw_of a = Some \<lparr>hw_adp = Some a\<rparr>"

definition adp_of :: "receipt_hw option \<Rightarrow> receipt_adp option" where
  "adp_of hw = Option.bind hw hw_adp"

fun receipt_exec :: "receipt_event \<Rightarrow> receipt_adp \<Rightarrow> receipt_adp option" where
  "receipt_exec (Ev_Arm so ro r) a = fst (snd (crystalhd_rx_receipt_arm so ro (Some a) (Some r)))"
| "receipt_exec (Ev_Cancel g run) a = snd (crystalhd_rx_receipt_cancel_empty_arm (Some a) g run)"
| "receipt_exec (Ev_Seal r) a = fst (snd (crystalhd_rx_receipt_seal (Some a) (Some r)))"
| "receipt_exec Ev_Cleanup a = crystalhd_rx_receipt_cleanup (Some a)"
| "receipt_exec (Ev_Reserve p li sq ch k) a =
     Option.bind (crystalhd_rx_receipt_reserve (hw_of a) (Some p) li sq ch k) (\<lambda>(hw, _). adp_of hw)"
| "receipt_exec (Ev_Fire_Return now k) a =
     Option.bind (crystalhd_rx_receipt_fire_return now (hw_of a) (Some k)) adp_of"
| "receipt_exec (Ev_Irq li ns cs) a =
     Option.bind (crystalhd_rx_receipt_irq (hw_of a) li ns cs) adp_of"
| "receipt_exec (Ev_Complete now p cs) a =
     Option.bind (crystalhd_rx_receipt_complete now (hw_of a) (Some p) cs) adp_of"
| "receipt_exec (Ev_Parse now p b) a =
     Option.bind (crystalhd_rx_receipt_parse now (hw_of a) (Some p) b) adp_of"
| "receipt_exec (Ev_Disposition now p d) a =
     Option.bind (crystalhd_rx_receipt_disposition now (hw_of a) (Some p) d) adp_of"

fun receipt_run :: "receipt_event list \<Rightarrow> receipt_adp \<Rightarrow> receipt_adp option" where
  "receipt_run [] a = Some a"
| "receipt_run (e # es) a = Option.bind (receipt_exec e a) (receipt_run es)"

definition receipt_init :: "u64 \<Rightarrow> receipt_adp" where
  "receipt_init g = \<lparr>adp_rx_receipts = None, adp_rx_receipt_last_run_id = 0, adp_generation = g\<rparr>"

section \<open>The store invariant\<close>

definition record_ok :: "nat \<Rightarrow> rx_receipt \<Rightarrow> bool" where
  "record_ok i r \<longleftrightarrow> rr_ordinal r = word_of_nat i \<and> has_flag (rr_stage_flags r) STAGE_RESERVED \<and>
     unat (rr_list_index r) < DMA_ENGINE_CNT"

definition active_ok :: "receipt_store \<Rightarrow> nat \<Rightarrow> bool" where
  "active_ok s i \<longleftrightarrow>
    (let a = st_active s ! i
     in a \<noteq> 0 \<longrightarrow> a \<le> st_count s \<and> unat (rr_list_index (st_records s ! unat (a - 1))) = i \<and>
        \<not> has_flag (rr_stage_flags (st_records s ! unat (a - 1))) STAGE_IRQ_ENTRY)"

definition store_inv :: "receipt_store \<Rightarrow> bool" where
  "store_inv s \<longleftrightarrow>
     length (st_records s) = unat (st_capacity s) \<and> 0 < st_capacity s \<and>
     st_capacity s \<le> RX_RECEIPT_MAX_RECORDS \<and> st_count s \<le> st_capacity s \<and>
     length (st_active s) = DMA_ENGINE_CNT \<and>
     (\<forall>i < unat (st_count s). record_ok i (st_records s ! i)) \<and>
     (\<forall>i. unat (st_count s) \<le> i \<and> i < unat (st_capacity s) \<longrightarrow> st_records s ! i = zero_receipt) \<and>
     (\<forall>i < DMA_ENGINE_CNT. active_ok s i) \<and>
     \<not> (st_armed s \<and> st_sealed s)"

definition adp_inv :: "receipt_adp \<Rightarrow> bool" where
  "adp_inv a \<longleftrightarrow>
    (case adp_rx_receipts a of None \<Rightarrow> True
     | Some s \<Rightarrow> store_inv s \<and> st_run_id s = adp_rx_receipt_last_run_id a \<and> st_run_id s \<noteq> 0)"

text \<open>A record update that touches neither the identity fields nor the reservation and IRQ bits.\<close>

definition stable_upd :: "(rx_receipt \<Rightarrow> rx_receipt) \<Rightarrow> bool" where
  "stable_upd f \<longleftrightarrow> (\<forall>r. rr_ordinal (f r) = rr_ordinal r \<and> rr_list_index (f r) = rr_list_index r \<and>
     (has_flag (rr_stage_flags r) STAGE_RESERVED \<longrightarrow> has_flag (rr_stage_flags (f r)) STAGE_RESERVED) \<and>
     (has_flag (rr_stage_flags (f r)) STAGE_IRQ_ENTRY \<longrightarrow> has_flag (rr_stage_flags r) STAGE_IRQ_ENTRY))"

lemma flag_consts [simp]:
  "has_flag (2::u32) 1 = False" "has_flag (8::u32) 1 = False" "has_flag (16::u32) 1 = False"
  "has_flag (32::u32) 1 = False" "has_flag (64::u32) 1 = False" "has_flag (128::u32) 1 = False"
  "has_flag (256::u32) 1 = False" "has_flag (4::u32) 1 = False" "has_flag (1::u32) 1"
  "has_flag (1::u32) 4 = False" "has_flag (2::u32) 4 = False" "has_flag (8::u32) 4 = False"
  "has_flag (16::u32) 4 = False" "has_flag (32::u32) 4 = False" "has_flag (64::u32) 4 = False"
  "has_flag (128::u32) 4 = False" "has_flag (256::u32) 4 = False"
  by (simp_all add: has_flag_def)

lemma record_ok_stable: "stable_upd f \<Longrightarrow> record_ok i r \<Longrightarrow> record_ok i (f r)"
  by (simp add: stable_upd_def record_ok_def)

lemma store_inv_in_range:
  assumes "store_inv s" "i < st_count s"
  shows "unat i < length (st_records s)"
proof -
  have "unat i < unat (st_count s)" "unat (st_count s) \<le> unat (st_capacity s)"
    using assms by (simp_all add: store_inv_def word_less_nat_alt word_le_nat_alt)
  then show ?thesis using assms(1) by (simp add: store_inv_def)
qed

lemma store_inv_record_upd:
  assumes inv: "store_inv s" and i: "i < st_count s" and f: "stable_upd f"
  shows "\<exists>s'. record_upd s i f = Some s' \<and> store_inv s' \<and> st_run_id s' = st_run_id s"
proof -
  let ?s' = "s\<lparr>st_records := (st_records s)[unat i := f (st_records s ! unat i)]\<rparr>"
  have len: "unat i < length (st_records s)" using inv i by (rule store_inv_in_range)
  have i': "unat i < unat (st_count s)" using i by (simp add: word_less_nat_alt)
  have "active_ok ?s' j" if "active_ok s j" for j
    using that f len unfolding active_ok_def stable_upd_def
    by (auto simp: Let_def nth_list_update)
  moreover have "record_ok j (st_records ?s' ! j)" if "record_ok j (st_records s ! j)" for j
    using that f len by (auto simp: nth_list_update intro: record_ok_stable)
  ultimately have "store_inv ?s'"
    using inv i' unfolding store_inv_def by auto
  then show ?thesis using len by (simp add: record_upd_def)
qed

text \<open>The store transformations of the capture path, each total and invariant-preserving.\<close>

definition store_safe :: "(receipt_store \<Rightarrow> receipt_store option) \<Rightarrow> bool" where
  "store_safe f \<longleftrightarrow>
    (\<forall>s. store_inv s \<longrightarrow> (\<exists>s'. f s = Some s' \<and> store_inv s' \<and> st_run_id s' = st_run_id s))"

lemma store_safeI:
  "(\<And>s. store_inv s \<Longrightarrow> \<exists>s'. f s = Some s' \<and> store_inv s' \<and> st_run_id s' = st_run_id s)
    \<Longrightarrow> store_safe f"
  by (simp add: store_safe_def)

lemma with_store_safe:
  assumes "adp_inv a" "store_safe f"
  shows "\<exists>a'. with_store (hw_of a) f = Some (hw_of a') \<and> adp_inv a'"
proof (cases "adp_rx_receipts a")
  case None
  then show ?thesis using assms(1) by (auto simp: with_store_def hw_of_def)
next
  case (Some s)
  with assms obtain s' where "f s = Some s'" "store_inv s'" "st_run_id s' = st_run_id s"
    by (auto simp: adp_inv_def store_safe_def)
  with Some assms(1) show ?thesis
    by (auto simp: with_store_def hw_of_def adp_inv_def
        intro!: exI [of _ "a\<lparr>adp_rx_receipts := Some s'\<rparr>"])
qed

lemma adp_of_hw_of [simp]: "adp_of (hw_of a) = Some a"
  by (simp add: adp_of_def hw_of_def)

lemma receipt_index_in_range: "receipt_index s run k = Some i \<Longrightarrow> i < st_count s"
  by (auto simp: receipt_index_def Let_def split: if_splits)

lemma record_locked_in_range: "crystalhd_rx_receipt_record_locked s p = Some i \<Longrightarrow> i < st_count s"
  by (auto simp: crystalhd_rx_receipt_record_locked_def split: option.splits dest: receipt_index_in_range)

lemma key_locked_in_range: "crystalhd_rx_receipt_key_locked s k = Some i \<Longrightarrow> i < st_count s"
  by (auto simp: crystalhd_rx_receipt_key_locked_def split: option.splits dest: receipt_index_in_range)

lemmas stable_simps = stable_upd_def stage_or_def has_flag_or Let_def

lemma fire_return_locked_safe: "store_safe (fire_return_locked now key)"
  by (rule store_safeI)
    (auto simp: fire_return_locked_def stable_simps split: option.splits
      intro!: store_inv_record_upd dest: key_locked_in_range)

lemma complete_locked_safe: "store_safe (complete_locked now p cs)"
  by (rule store_safeI)
    (auto simp: complete_locked_def stable_simps split: option.splits
      intro!: store_inv_record_upd dest: record_locked_in_range)

lemma parse_locked_safe: "store_safe (parse_locked now p b)"
  by (rule store_safeI)
    (auto simp: parse_locked_def stable_simps split: option.splits
      intro!: store_inv_record_upd dest: record_locked_in_range)

lemma disposition_locked_safe: "store_safe (disposition_locked now p d)"
  by (rule store_safeI)
    (auto simp: disposition_locked_def stable_simps split: option.splits
      intro!: store_inv_record_upd dest: record_locked_in_range)

text \<open>Retiring a list: its record may then be marked with the IRQ bit.\<close>

lemma active_ok_clear:
  assumes "active_ok s i" "i < length (st_active s)"
  shows "active_ok (s\<lparr>st_active := (st_active s)[j := 0], st_overflow := n\<rparr>) i"
  using assms by (cases "i = j") (simp_all add: active_ok_def Let_def)

lemma store_inv_clear_active:
  assumes "store_inv s"
  shows "store_inv (s\<lparr>st_active := (st_active s)[j := 0], st_overflow := n\<rparr>)"
proof -
  have "active_ok (s\<lparr>st_active := (st_active s)[j := 0], st_overflow := n\<rparr>) i" if "i < 2" for i
    using assms that by (intro active_ok_clear) (simp_all add: store_inv_def)
  with assms show ?thesis by (simp add: store_inv_def)
qed

lemma active_pred_less:
  assumes "active_ok s i" "st_active s ! i \<noteq> 0"
  shows "st_active s ! i - 1 < st_count s"
proof -
  have "unat (st_active s ! i) \<le> unat (st_count s)" "0 < unat (st_active s ! i)"
    using assms by (simp_all add: active_ok_def Let_def word_le_nat_alt unat_gt_0)
  then show ?thesis using assms(2) by (simp add: word_less_nat_alt unat_pred)
qed

lemma irq_locked_safe:
  assumes "unat li < DMA_ENGINE_CNT"
  shows "store_safe (irq_locked li ns cs)"
proof (rule store_safeI)
  fix s assume inv: "store_inv s"
  let ?a = "st_active s ! unat li"
  let ?s1 = "s\<lparr>st_active := (st_active s)[unat li := 0]\<rparr>"
  let ?f = "\<lambda>r. let r' = stage_or STAGE_IRQ_ENTRY
                     (r\<lparr>rr_irq_entry_ns := ns, rr_completion_status := cs\<rparr>)
               in if rr_fire_return_ns r' \<noteq> 0 \<and> ns < rr_fire_return_ns r'
                  then stage_or STAGE_CLOCK_INVERTED r' else r'"
  show "\<exists>s'. irq_locked li ns cs s = Some s' \<and> store_inv s' \<and> st_run_id s' = st_run_id s"
  proof (cases "\<not> st_armed s \<or> st_sealed s \<or> ?a = 0")
    case True
    then show ?thesis using inv by (auto simp: irq_locked_def Let_def)
  next
    case False
    then have a0: "?a \<noteq> 0" by simp
    have act: "active_ok s (unat li)" using inv assms by (simp add: store_inv_def)
    then have lt: "?a - 1 < st_count s" using a0 by (rule active_pred_less)
    have len: "unat (?a - 1) < length (st_records s)" using inv lt by (rule store_inv_in_range)
    let ?s' = "?s1\<lparr>st_records := (st_records s)[unat (?a - 1) := ?f (st_records s ! unat (?a - 1))]\<rparr>"
    have eq: "irq_locked li ns cs s = Some ?s'"
      using False lt len by (simp add: irq_locked_def record_upd_def Let_def)
    have "active_ok ?s' j" if "j < DMA_ENGINE_CNT" for j
    proof (cases "j = unat li")
      case True
      then show ?thesis using inv that by (simp add: active_ok_def Let_def store_inv_def)
    next
      case False
      have "active_ok s j" using inv that by (simp add: store_inv_def)
      moreover have "unat (st_active s ! j - 1) \<noteq> unat (?a - 1)" if "st_active s ! j \<noteq> 0"
        using act \<open>active_ok s j\<close> a0 that False by (auto simp: active_ok_def Let_def)
      ultimately show ?thesis using False by (auto simp: active_ok_def Let_def)
    qed
    moreover have "record_ok j (st_records ?s' ! j)" if "record_ok j (st_records s ! j)" for j
      using that len by (auto simp: nth_list_update record_ok_def stage_or_def has_flag_or Let_def)
    moreover have "unat (?a - 1) < unat (st_count s)" using lt by (simp add: word_less_nat_alt)
    ultimately have "store_inv ?s'" using inv unfolding store_inv_def by auto
    then show ?thesis using eq by simp
  qed
qed


text \<open>Taking the next record of the store for one list.\<close>

definition reserve_take :: "rx_dma_pkt \<Rightarrow> u32 \<Rightarrow> u32 \<Rightarrow> u32 \<Rightarrow> u32 \<Rightarrow> rx_receipt \<Rightarrow> rx_receipt" where
  "reserve_take p list_index rx_sequence channel_id index r =
     r\<lparr>rr_ordinal := ucast index, rr_capture_epoch := pkt_capture_epoch p,
       rr_rx_sequence := rx_sequence, rr_list_index := list_index,
       rr_packet_tag := pkt_pkt_tag p, rr_channel_id := channel_id,
       rr_y_descriptor_count := pkt_receipt_y_descriptor_count p,
       rr_uv_descriptor_count := pkt_receipt_uv_descriptor_count p,
       rr_stage_flags := STAGE_RESERVED\<rparr>"

definition reserve_new :: "rx_dma_pkt \<Rightarrow> u32 \<Rightarrow> u32 \<Rightarrow> u32 \<Rightarrow> receipt_store \<Rightarrow> receipt_store" where
  "reserve_new p li sq ch s =
     s\<lparr>st_count := st_count s + 1,
       st_records := (st_records s)[unat (st_count s) :=
         reserve_take p li sq ch (st_count s) (st_records s ! unat (st_count s))],
       st_active := (st_active s)[unat li := st_count s + 1]\<rparr>"

lemma store_inv_count_less:
  assumes "store_inv s" "st_count s < st_capacity s"
  shows "unat (st_count s) < length (st_records s)" "unat (st_count s + 1) = Suc (unat (st_count s))"
  using assms by (simp_all add: store_inv_def word_less_nat_alt unat_Suc_less [OF assms(2)])

lemma store_inv_reserve_new:
  assumes inv: "store_inv s" and lt: "st_count s < st_capacity s"
    and li: "unat li < DMA_ENGINE_CNT"
  shows "store_inv (reserve_new p li sq ch s)"
proof -
  let ?s' = "reserve_new p li sq ch s" and ?n = "unat (st_count s)"
  note len = store_inv_count_less [OF inv lt]
  have act: "active_ok ?s' j" if "j < DMA_ENGINE_CNT" for j
  proof (cases "j = unat li")
    case True
    then show ?thesis using inv len li
      by (simp add: active_ok_def reserve_new_def reserve_take_def store_inv_def)
  next
    case False
    have *: "active_ok s j" using inv that by (simp add: store_inv_def)
    have "unat (st_active s ! j - 1) \<noteq> ?n \<and> st_active s ! j \<le> st_count s + 1"
      if "st_active s ! j \<noteq> 0"
      using active_pred_less [OF * that] * that len(2)
      by (auto simp: word_less_nat_alt active_ok_def Let_def word_le_nat_alt)
    with * False show ?thesis by (auto simp: active_ok_def Let_def reserve_new_def)
  qed
  have rec: "record_ok j (st_records ?s' ! j)" if "j < Suc ?n" for j
    using that inv len li
    by (cases "j = ?n") (simp_all add: record_ok_def reserve_new_def reserve_take_def store_inv_def)
  have rest: "st_records ?s' ! j = zero_receipt" if "Suc ?n \<le> j" "j < unat (st_capacity s)" for j
    using that inv by (simp add: reserve_new_def store_inv_def)
  have "st_count s + 1 \<le> st_capacity s"
    using lt len(2) by (simp add: word_less_nat_alt word_le_nat_alt)
  then show ?thesis using inv act rec rest len(2)
    by (simp add: store_inv_def reserve_new_def)
qed


text \<open>Dropping a list that is still owned by an earlier record.\<close>

definition reserve_drop :: "u32 \<Rightarrow> receipt_store \<Rightarrow> receipt_store" where
  "reserve_drop li s =
    (let a = st_active s ! unat li
     in if a = 0 then s
        else s\<lparr>st_records := (st_records s)[unat (a - 1) :=
                 stage_or STAGE_LIST_REPLACED (st_records s ! unat (a - 1))],
               st_active := (st_active s)[unat li := 0], st_overflow := st_overflow s + 1\<rparr>)"

lemma stable_list_replaced [simp]: "stable_upd (stage_or STAGE_LIST_REPLACED)"
  by (simp add: stable_simps)

lemma reserve_drop_inv:
  assumes inv: "store_inv s" and li: "unat li < DMA_ENGINE_CNT"
  shows "store_inv (reserve_drop li s)"
proof (cases "st_active s ! unat li = 0")
  case False
  have "active_ok s (unat li)" using inv li by (simp add: store_inv_def)
  then have lt: "st_active s ! unat li - 1 < st_count s" using False by (rule active_pred_less)
  from store_inv_record_upd [OF inv lt stable_list_replaced] obtain s' where
    s': "record_upd s (st_active s ! unat li - 1) (stage_or STAGE_LIST_REPLACED) = Some s'" "store_inv s'"
    by blast
  from store_inv_clear_active [OF s'(2), where j = "unat li" and n = "st_overflow s + 1"] s'(1) False
    store_inv_in_range [OF inv lt]
  show ?thesis by (auto simp: reserve_drop_def record_upd_def Let_def)
qed (simp add: reserve_drop_def inv)

lemma reserve_drop_frame [simp]:
  "st_count (reserve_drop li s) = st_count s" "st_capacity (reserve_drop li s) = st_capacity s"
  "st_run_id (reserve_drop li s) = st_run_id s" "st_armed (reserve_drop li s) = st_armed s"
  "st_sealed (reserve_drop li s) = st_sealed s"
  by (simp_all add: reserve_drop_def Let_def)

lemma reserve_locked_eq:
  assumes inv: "store_inv s" and li: "unat li < DMA_ENGINE_CNT" and arm: "st_armed s"
  shows "reserve_locked p li sq ch s =
    Some (let s1 = reserve_drop li s
          in if st_count s < st_capacity s then (reserve_new p li sq ch s1, st_count s + 1)
             else (s1\<lparr>st_overflow := st_overflow s1 + 1\<rparr>, 0))"
proof -
  have sealed: "\<not> st_sealed s" using inv arm by (simp add: store_inv_def)
  have act: "active_ok s (unat li)" using inv li by (simp add: store_inv_def)
  have drop: "(let a = st_active s ! unat li
              in if a \<noteq> 0 then do {
                   s' \<leftarrow> (if a - 1 < st_count s then record_upd s (a - 1) (stage_or STAGE_LIST_REPLACED)
                         else Some s);
                   Some (s'\<lparr>st_active := (st_active s')[unat li := 0],
                            st_overflow := st_overflow s' + 1\<rparr>) }
                 else Some s) = Some (reserve_drop li s)"
    using active_pred_less [OF act] store_inv_in_range [OF inv, of "st_active s ! unat li - 1"]
    by (auto simp: reserve_drop_def record_upd_def Let_def)
  have len: "unat (st_count s) < length (st_records (reserve_drop li s))"
    if "st_count s < st_capacity s"
    using store_inv_count_less [OF reserve_drop_inv [OF inv li]] that by simp
  show ?thesis
    unfolding reserve_locked_def drop using arm sealed len
    by (cases "st_count s < st_capacity s")
      (simp_all add: Let_def record_upd_def reserve_new_def reserve_take_def not_less
        not_le [symmetric])
qed

lemma store_inv_overflow: "store_inv (s\<lparr>st_overflow := n\<rparr>) = store_inv s"
  by (simp add: store_inv_def active_ok_def)

lemma reserve_locked_safe:
  assumes inv: "store_inv s" and li: "unat li < DMA_ENGINE_CNT"
  shows "\<exists>s' n. reserve_locked p li sq ch s = Some (s', n) \<and> store_inv s' \<and>
    st_run_id s' = st_run_id s \<and> n \<le> st_count s'"
proof (cases "st_armed s")
  case True
  note eq = reserve_locked_eq [OF inv li True] and inv1 = reserve_drop_inv [OF inv li]
  from inv1 show ?thesis
    using store_inv_reserve_new [OF inv1 _ li]
    by (auto simp: eq Let_def store_inv_overflow reserve_new_def)
qed (simp add: reserve_locked_def inv)


lemma reserve_safe:
  assumes inv: "adp_inv a"
  shows "\<exists>a' p' k'. crystalhd_rx_receipt_reserve (hw_of a) (Some p) li sq ch k =
           Some (hw_of a', p', k') \<and> adp_inv a'"
proof (cases "unat li < DMA_ENGINE_CNT \<and> adp_rx_receipts a \<noteq> None")
  case False
  then show ?thesis using inv
    by (auto simp: crystalhd_rx_receipt_reserve_def crystalhd_rx_receipt_store_def hw_of_def)
next
  case True
  then obtain s where s: "adp_rx_receipts a = Some s" and li: "unat li < DMA_ENGINE_CNT" by auto
  let ?p0 = "p\<lparr>pkt_receipt_run_id := 0, pkt_receipt_index_plus_one := 0\<rparr>"
  from inv s have "store_inv s" by (simp add: adp_inv_def)
  from reserve_locked_safe [OF this li] obtain s' n where
    *: "reserve_locked ?p0 li sq ch s = Some (s', n)" "store_inv s'" "st_run_id s' = st_run_id s"
    by blast
  then have "adp_inv (a\<lparr>adp_rx_receipts := Some s'\<rparr>)"
    using inv s by (auto simp: adp_inv_def)
  with * s li show ?thesis
    by (auto simp: crystalhd_rx_receipt_reserve_def crystalhd_rx_receipt_store_def hw_of_def
        with_store_def Let_def intro!: exI [of _ "a\<lparr>adp_rx_receipts := Some s'\<rparr>"])
qed

lemma store_inv_fresh:
  assumes "cap \<noteq> 0" "cap \<le> RX_RECEIPT_MAX_RECORDS"
  shows "store_inv \<lparr>st_records = replicate (unat cap) zero_receipt, st_run_id = run,
    st_capacity = cap, st_count = 0, st_overflow = 0, st_active = replicate DMA_ENGINE_CNT 0,
    st_armed = True, st_sealed = False\<rparr>"
  using assms by (simp add: store_inv_def active_ok_def less_2_cases_nat word_gt_0 Let_def)

lemma arm_safe:
  assumes "adp_inv a"
  shows "\<exists>a'. fst (snd (crystalhd_rx_receipt_arm so ro (Some a) (Some r))) = Some a' \<and> adp_inv a'"
  using assms store_inv_fresh [of "arm_capacity r" "adp_rx_receipt_last_run_id a + 1"]
    word_plus_one_nz [of "adp_rx_receipt_last_run_id a"]
  by (simp add: crystalhd_rx_receipt_arm_def Let_def adp_inv_def not_less)

lemma cancel_safe:
  assumes "adp_inv a"
  shows "\<exists>a'. snd (crystalhd_rx_receipt_cancel_empty_arm (Some a) g run) = Some a' \<and> adp_inv a'"
  using assms by (auto simp: crystalhd_rx_receipt_cancel_empty_arm_def adp_inv_def split: option.splits)

lemma seal_safe:
  assumes "adp_inv a"
  shows "\<exists>a'. fst (snd (crystalhd_rx_receipt_seal (Some a) (Some r))) = Some a' \<and> adp_inv a'"
proof -
  have "store_inv (s\<lparr>st_armed := False, st_sealed := True\<rparr>)" if "store_inv s" for s
    using that by (simp add: store_inv_def active_ok_def)
  then show ?thesis using assms
    by (auto simp: crystalhd_rx_receipt_seal_def Let_def adp_inv_def split: option.splits)
qed

lemma receipt_exec_safe:
  assumes "adp_inv a"
  shows "\<exists>a'. receipt_exec e a = Some a' \<and> adp_inv a'"
proof (cases e)
  case (Ev_Reserve p li sq ch k)
  then show ?thesis using reserve_safe [OF assms, of p li sq ch k] by auto
next
  case (Ev_Fire_Return now k)
  then show ?thesis using with_store_safe [OF assms fire_return_locked_safe, of now "Some k"]
    by (auto simp: crystalhd_rx_receipt_fire_return_def)
next
  case (Ev_Irq li ns cs)
  then show ?thesis using assms with_store_safe [OF assms irq_locked_safe, of li ns cs]
    by (cases "ns = 0 \<or> unat li \<ge> 2") (auto simp: crystalhd_rx_receipt_irq_def)
next
  case (Ev_Complete now p cs)
  then show ?thesis using with_store_safe [OF assms complete_locked_safe, of now p cs]
    by (auto simp: crystalhd_rx_receipt_complete_def)
next
  case (Ev_Parse now p b)
  then show ?thesis using with_store_safe [OF assms parse_locked_safe, of now p b]
    by (auto simp: crystalhd_rx_receipt_parse_def)
next
  case (Ev_Disposition now p d)
  then show ?thesis using with_store_safe [OF assms disposition_locked_safe, of now p d]
    by (auto simp: crystalhd_rx_receipt_disposition_def)
qed (use assms arm_safe cancel_safe seal_safe in
    \<open>auto simp: crystalhd_rx_receipt_cleanup_def adp_inv_def\<close>)

lemma receipt_run_inv:
  "adp_inv a \<Longrightarrow> \<exists>a'. receipt_run es a = Some a' \<and> adp_inv a'"
proof (induction es arbitrary: a)
  case (Cons e es)
  from receipt_exec_safe [OF Cons.prems, of e] Cons.IH show ?case by auto
qed simp


section \<open>Run identities\<close>

lemma with_store_run_ids:
  assumes "with_store (hw_of a) f = Some hw" "adp_of hw = Some a'"
  shows "adp_rx_receipt_last_run_id a' = adp_rx_receipt_last_run_id a"
  using assms by (auto simp: with_store_def hw_of_def adp_of_def split: option.splits)

lemma reserve_run_ids:
  assumes "crystalhd_rx_receipt_reserve (hw_of a) (Some p) li sq ch k = Some (hw, r)"
    "adp_of hw = Some a'"
  shows "adp_rx_receipt_last_run_id a' = adp_rx_receipt_last_run_id a"
  using assms by (auto simp: crystalhd_rx_receipt_reserve_def Let_def bind_eq_Some_conv
      dest!: with_store_run_ids split: if_splits option.splits)

lemma receipt_exec_run_ids:
  assumes "receipt_exec e a = Some a'"
  shows "adp_rx_receipt_last_run_id a \<le> adp_rx_receipt_last_run_id a'"
proof (cases e)
  case (Ev_Arm so ro r)
  then show ?thesis using assms word_le_plus_one [of "adp_rx_receipt_last_run_id a"]
    by (auto simp: crystalhd_rx_receipt_arm_def Let_def split: if_splits option.splits)
qed (use assms in \<open>auto simp: crystalhd_rx_receipt_cancel_empty_arm_def Let_def
    crystalhd_rx_receipt_seal_def crystalhd_rx_receipt_cleanup_def bind_eq_Some_conv
    crystalhd_rx_receipt_fire_return_def crystalhd_rx_receipt_irq_def
    crystalhd_rx_receipt_complete_def crystalhd_rx_receipt_parse_def
    crystalhd_rx_receipt_disposition_def dest: with_store_run_ids reserve_run_ids
    split: if_splits option.splits\<close>)

lemma receipt_run_run_ids:
  "receipt_run es a = Some a' \<Longrightarrow> adp_rx_receipt_last_run_id a \<le> adp_rx_receipt_last_run_id a'"
proof (induction es arbitrary: a)
  case (Cons e es)
  then obtain b where "receipt_exec e a = Some b" "receipt_run es b = Some a'"
    by (auto simp: bind_eq_Some_conv)
  then show ?case using Cons.IH receipt_exec_run_ids order_trans by blast
qed simp


section \<open>Properties\<close>

text \<open>
  C1: No sequence of ioctls and capture-path calls, with any packets, keys, list indices, clock
  readings and allocator outcomes, makes the observer touch a record outside its array: from a
  fresh adapter every call returns, and the store that is then published satisfies the store
  invariant (array of the armed capacity, count within it, dense ordinals on the reserved prefix,
  zeroed records behind it, each active list pointing at a reserved record of that list whose
  interrupt has not been seen, never armed and sealed at once) and carries the newest run
  identity.
\<close>

theorem receipt_run_safe:
  "\<exists>a. receipt_run es (receipt_init g) = Some a \<and> adp_inv a"
  by (rule receipt_run_inv) (simp add: adp_inv_def receipt_init_def)

lemma receipt_run_reachable_inv: "receipt_run es (receipt_init g) = Some a \<Longrightarrow> adp_inv a"
  using receipt_run_inv [of "receipt_init g" es] by (simp add: adp_inv_def receipt_init_def)

text \<open>The paged reader: read from \<open>start\<close> until a page comes back empty.\<close>

definition read_page :: "u64 \<Rightarrow> u32 \<Rightarrow> read_request" where
  "read_page run start =
    \<lparr>read_start = start, read_generation = 0, read_run_id = run, read_returned = 0,
     read_record_count = 0, read_overflow_count = 0, read_sealed = 0,
     read_records = replicate (unat RX_RECEIPT_READ_RECORDS) zero_receipt\<rparr>"

fun read_pages :: "nat \<Rightarrow> receipt_adp \<Rightarrow> u64 \<Rightarrow> u32 \<Rightarrow> rx_receipt list option" where
  "read_pages 0 a run start = None"
| "read_pages (Suc fuel) a run start =
    (case crystalhd_rx_receipt_read (Some a) (Some (read_page run start)) of
       (None, Some r) \<Rightarrow>
         if read_returned r = 0 then Some []
         else map_option (\<lambda>rs. take (unat (read_returned r)) (read_records r) @ rs)
                (read_pages fuel a run (start + read_returned r))
     | _ \<Rightarrow> None)"

lemma read_page_ok:
  assumes "adp_rx_receipts a = Some s" "st_sealed s" "st_run_id s \<noteq> 0" "start \<le> st_count s"
  shows "\<exists>r. crystalhd_rx_receipt_read (Some a) (Some (read_page (st_run_id s) start)) =
      (rc_ok, Some r) \<and> read_returned r = min (st_count s - start) RX_RECEIPT_READ_RECORDS \<and>
      read_records r = take (unat (read_returned r)) (drop (unat start) (st_records s)) @
        drop (unat (read_returned r)) (replicate 32 zero_receipt)"
  using assms
  by (simp add: crystalhd_rx_receipt_read_def read_page_def Let_def not_less)

lemma read_pages_from:
  assumes s: "adp_rx_receipts a = Some s" "st_sealed s" "st_run_id s \<noteq> 0"
    and len: "unat (st_count s) \<le> length (st_records s)"
    and start: "start \<le> st_count s" and fuel: "unat (st_count s) - unat start < fuel"
  shows "read_pages fuel a (st_run_id s) start =
    Some (drop (unat start) (take (unat (st_count s)) (st_records s)))"
  using start fuel
proof (induction fuel arbitrary: start)
  case (Suc fuel)
  from read_page_ok [OF s Suc.prems(1)] obtain r where r:
    "crystalhd_rx_receipt_read (Some a) (Some (read_page (st_run_id s) start)) = (rc_ok, Some r)"
    "read_returned r = min (st_count s - start) RX_RECEIPT_READ_RECORDS"
    "read_records r = take (unat (read_returned r)) (drop (unat start) (st_records s)) @
        drop (unat (read_returned r)) (replicate 32 zero_receipt)"
    by blast
  let ?n = "unat (read_returned r)" and ?c = "unat (st_count s)" and ?b = "unat start"
  have sub: "unat (st_count s - start) = ?c - ?b" using Suc.prems(1) by (rule unat_sub)
  then have n: "?n = min (?c - ?b) 32"
    by (simp add: r(2) min_def word_le_nat_alt)
  have b: "?b \<le> ?c" using Suc.prems(1) by (simp add: word_le_nat_alt)
  have add: "unat (start + read_returned r) = ?b + ?n"
  proof -
    have "?b + ?n \<le> ?c" using n b by simp
    moreover have "?c < 2 ^ 32" using unsigned_less [of "st_count s"] by simp
    ultimately show ?thesis by (simp add: unat_word_ariths)
  qed
  show ?case
  proof (cases "read_returned r = 0")
    case True
    then have "?c - ?b = 0" using n by simp
    then show ?thesis using True r(1) by simp
  next
    case False
    then have "0 < ?n" by (simp add: unat_gt_0)
    then have "start + read_returned r \<le> st_count s" "?c - unat (start + read_returned r) < fuel"
      using n b add Suc.prems(2) by (simp_all add: word_le_nat_alt)
    from Suc.IH [OF this] add have IH: "read_pages fuel a (st_run_id s) (start + read_returned r) =
      Some (drop ?n (drop ?b (take ?c (st_records s))))" by (simp add: add.commute)
    have "take ?n (read_records r) = take ?n (drop ?b (take ?c (st_records s)))"
      using n b len by (simp add: r(3) drop_take)
    then show ?thesis using False r(1) IH by (simp del: drop_drop)
  qed
qed simp


text \<open>A short run used by the witnesses: arm two records, reserve one, take its interrupt, seal.\<close>

definition wit_pkt :: rx_dma_pkt where
  "wit_pkt = \<lparr>pkt_capture_epoch = 5, pkt_pkt_tag = 9, pkt_flags = 6, pkt_y_done_sz = 100,
     pkt_uv_done_sz = 0, pkt_pib = \<lparr>pib_picture_number = 3, pib_flags = 0, pib_width = 1280,
     pib_height = 720, pib_sess_num = 1\<rparr>, pkt_metadata = \<lparr>md_firmware_timestamp = 0,
     md_picture_number = 0, md_picture_flags = 0, md_picture_width = 0, md_picture_height = 0,
     md_row_width = 0, md_pib_line = 0, md_session_number = 0, md_valid = False,
     md_eos_trailer = False\<rparr>, pkt_descriptors = [False, True], pkt_receipt_run_id = 0,
     pkt_receipt_index_plus_one = 0, pkt_receipt_y_descriptor_count = 0,
     pkt_receipt_uv_descriptor_count = 0\<rparr>"

definition wit_arm :: receipt_event where
  "wit_arm = Ev_Arm True True \<lparr>arm_capacity = 2, arm_generation = 0, arm_run_id = 0\<rparr>"

definition wit_seal :: receipt_event where
  "wit_seal = Ev_Seal \<lparr>seal_flags = 1, seal_sealed = 0, seal_generation = 0, seal_run_id = 0,
     seal_record_count = 0, seal_overflow_count = 0\<rparr>"

definition wit_run :: "receipt_event list" where
  "wit_run = [wit_arm, Ev_Reserve wit_pkt 1 40 2 None, Ev_Irq 1 77 BC_STS_SUCCESS, wit_seal]"

text \<open>
  C39: Paging is lossless. On any sealed store the observer can reach, reading pages of at most 32
  records from the start until a page comes back empty ends after at most one page per record and
  yields exactly the reserved records, in order.
\<close>

theorem receipt_read_pages:
  assumes "receipt_run es (receipt_init g) = Some a" "adp_rx_receipts a = Some s" "st_sealed s"
    "unat (st_count s) < fuel"
  shows "read_pages fuel a (st_run_id s) 0 = Some (take (unat (st_count s)) (st_records s))"
proof -
  have "store_inv s" "st_run_id s \<noteq> 0"
    using receipt_run_reachable_inv [OF assms(1)] assms(2) by (auto simp: adp_inv_def)
  moreover from this have "unat (st_count s) \<le> length (st_records s)"
    by (simp add: store_inv_def word_le_nat_alt)
  ultimately show ?thesis using read_pages_from [of a s 0 fuel] assms(2-) by simp
qed

theorem receipt_read_pages_witness:
  "\<exists>a s. receipt_run wit_run (receipt_init 7) = Some a \<and> adp_rx_receipts a = Some s \<and>
     st_count s = 1 \<and> read_pages 2 a (st_run_id s) 0 = Some (take 1 (st_records s))"
proof -
  have "case receipt_run wit_run (receipt_init 7) of None \<Rightarrow> False
      | Some a \<Rightarrow> (case adp_rx_receipts a of None \<Rightarrow> False | Some s \<Rightarrow> st_sealed s \<and> st_count s = 1)"
    by code_simp
  then obtain a s where *: "receipt_run wit_run (receipt_init 7) = Some a"
    "adp_rx_receipts a = Some s" "st_sealed s" "st_count s = 1"
    by (auto split: option.splits)
  with receipt_read_pages [OF *(1-3), of 2] show ?thesis by auto
qed


text \<open>What a reservation stamps into its packet and key.\<close>

lemma reserve_stamps:
  assumes "crystalhd_rx_receipt_reserve (hw_of a) (Some p) li sq ch (Some k) =
      Some (hw, Some p', Some k')" "unat li < DMA_ENGINE_CNT" "adp_inv a"
  shows "pkt_receipt_run_id p' \<in> {0, adp_rx_receipt_last_run_id a} \<and>
    key_run_id k' \<in> {0, adp_rx_receipt_last_run_id a}"
  using assms
  by (auto simp: crystalhd_rx_receipt_reserve_def crystalhd_rx_receipt_store_def Let_def hw_of_def
      bind_eq_Some_conv adp_inv_def split: option.splits if_splits)

lemma foreign_run_inert:
  assumes "adp_rx_receipts c = Some t" "st_run_id t \<noteq> pkt_receipt_run_id p" "st_run_id t \<noteq> key_run_id k"
  shows "crystalhd_rx_receipt_complete now (hw_of c) (Some p) cs = Some (hw_of c) \<and>
    crystalhd_rx_receipt_parse now (hw_of c) (Some p) ok = Some (hw_of c) \<and>
    crystalhd_rx_receipt_disposition now (hw_of c) (Some p) d = Some (hw_of c) \<and>
    crystalhd_rx_receipt_fire_return now (hw_of c) (Some k) = Some (hw_of c)"
  using assms
  by (simp add: crystalhd_rx_receipt_complete_def crystalhd_rx_receipt_parse_def
      crystalhd_rx_receipt_disposition_def crystalhd_rx_receipt_fire_return_def with_store_def hw_of_def
      complete_locked_def parse_locked_def disposition_locked_def fire_return_locked_def
      crystalhd_rx_receipt_record_locked_def crystalhd_rx_receipt_key_locked_def receipt_index_def)

text \<open>
  C38: Packets and keys stamped in one run are inert in every later run. Whatever happens after a
  reservation, once a newer run identity has been handed out, completing, parsing or disposing of
  the old packet, or reporting the return of its fire call, changes nothing in the store that is
  then published; identities only grow, so an old stamp can never name a newer run.
\<close>

theorem receipt_stale_run_inert:
  assumes "receipt_run es (receipt_init g) = Some a"
    and "crystalhd_rx_receipt_reserve (hw_of a) (Some p) li sq ch (Some k) =
      Some (hw, Some p', Some k')" and "unat li < DMA_ENGINE_CNT"
    and "adp_of hw = Some b" and "receipt_run es' b = Some c" and "adp_rx_receipts c = Some t"
    and "adp_rx_receipt_last_run_id b \<noteq> adp_rx_receipt_last_run_id c"
  shows "adp_rx_receipt_last_run_id b < adp_rx_receipt_last_run_id c \<and>
    crystalhd_rx_receipt_complete now (hw_of c) (Some p') cs = Some (hw_of c) \<and>
    crystalhd_rx_receipt_parse now (hw_of c) (Some p') ok = Some (hw_of c) \<and>
    crystalhd_rx_receipt_disposition now (hw_of c) (Some p') d = Some (hw_of c) \<and>
    crystalhd_rx_receipt_fire_return now (hw_of c) (Some k') = Some (hw_of c)"
proof -
  have inv: "adp_inv a" using assms(1) by (rule receipt_run_reachable_inv)
  obtain b' where b': "hw = hw_of b'" "adp_inv b'"
    using reserve_safe [OF inv, of p li sq ch "Some k"] assms(2) by auto
  then have "adp_inv b" using assms(4) by simp
  then have "adp_inv c" using receipt_run_inv [of b es'] assms(5) by auto
  then have t: "st_run_id t = adp_rx_receipt_last_run_id c" "st_run_id t \<noteq> 0"
    using assms(6) by (auto simp: adp_inv_def)
  have same: "adp_rx_receipt_last_run_id b = adp_rx_receipt_last_run_id a"
    using reserve_run_ids [OF assms(2,4)] .
  have "st_run_id t \<noteq> pkt_receipt_run_id p'" "st_run_id t \<noteq> key_run_id k'"
    using reserve_stamps [OF assms(2,3) inv] t same assms(7) by auto
  with foreign_run_inert [OF assms(6)] receipt_run_run_ids [OF assms(5)] assms(7)
  show ?thesis by auto
qed

definition wit_key :: receipt_key where
  "wit_key = \<lparr>key_run_id = 0, key_index_plus_one = 0\<rparr>"

theorem receipt_stale_run_inert_witness:
  "\<exists>a hw p' k' b c. receipt_run [wit_arm] (receipt_init 7) = Some a \<and>
     crystalhd_rx_receipt_reserve (hw_of a) (Some wit_pkt) 1 40 2 (Some wit_key) =
       Some (hw, Some p', Some k') \<and> pkt_receipt_run_id p' = 1 \<and> adp_of hw = Some b \<and>
     receipt_run [wit_seal, wit_arm] b = Some c \<and>
     crystalhd_rx_receipt_complete 99 (hw_of c) (Some p') BC_STS_SUCCESS = Some (hw_of c)"
proof -
  have "do { a \<leftarrow> receipt_run [wit_arm] (receipt_init 7);
      (hw, p, k) \<leftarrow> crystalhd_rx_receipt_reserve (hw_of a) (Some wit_pkt) 1 40 2 (Some wit_key);
      p' \<leftarrow> p; k' \<leftarrow> k; b \<leftarrow> adp_of hw; c \<leftarrow> receipt_run [wit_seal, wit_arm] b;
      t \<leftarrow> adp_rx_receipts c;
      Some (pkt_receipt_run_id p', adp_rx_receipt_last_run_id b, adp_rx_receipt_last_run_id c) }
    = Some (1, 1, 2)"
    by code_simp
  then obtain a hw p' k' b c t where
    *: "receipt_run [wit_arm] (receipt_init 7) = Some a"
      "crystalhd_rx_receipt_reserve (hw_of a) (Some wit_pkt) 1 40 2 (Some wit_key) =
       Some (hw, Some p', Some k')" and p': "pkt_receipt_run_id p' = 1" and
    b: "adp_of hw = Some b" "receipt_run [wit_seal, wit_arm] b = Some c" "adp_rx_receipts c = Some t"
    and ids: "adp_rx_receipt_last_run_id b = 1" "adp_rx_receipt_last_run_id c = 2"
    by (auto simp: bind_eq_Some_conv simp del: receipt_run.simps)
  have "unat (1::u32) < 2" "adp_rx_receipt_last_run_id b \<noteq> adp_rx_receipt_last_run_id c"
    using ids by simp_all
  from receipt_stale_run_inert [OF * this(1) b this(2)] * b p' show ?thesis by blast
qed

text \<open>
  An interrupt is credited to the list that was posted. On an armed store with room, posting
  list \<open>li\<close> and then taking its interrupt adds exactly one record, the next in order; that record
  carries the posted list, sequence number and channel and the interrupt's time and status, the
  list is idle again, and every earlier record is untouched, except that the one still owning the
  list is marked as replaced.
\<close>

theorem receipt_irq_attribution:
  assumes "receipt_run es (receipt_init g) = Some a" and s: "adp_rx_receipts a = Some s"
    and "st_armed s" and room: "st_count s < st_capacity s" and li: "unat li < DMA_ENGINE_CNT"
    and ns: "ns \<noteq> 0"
  shows "\<exists>b c t r. receipt_exec (Ev_Reserve p li sq ch k) a = Some b \<and>
    receipt_exec (Ev_Irq li ns cs) b = Some c \<and> adp_rx_receipts c = Some t \<and>
    unat (st_count t) = Suc (unat (st_count s)) \<and> r = st_records t ! unat (st_count s) \<and>
    rr_list_index r = li \<and> rr_rx_sequence r = sq \<and> rr_channel_id r = ch \<and>
    rr_irq_entry_ns r = ns \<and> rr_completion_status r = cs \<and>
    rr_stage_flags r = STAGE_RESERVED OR STAGE_IRQ_ENTRY \<and> st_active t ! unat li = 0 \<and>
    (\<forall>j < unat (st_count s). st_records t ! j =
       (if unat (st_active s ! unat li) = Suc j then stage_or STAGE_LIST_REPLACED (st_records s ! j)
        else st_records s ! j))"
proof -
  let ?p0 = "p\<lparr>pkt_receipt_run_id := 0, pkt_receipt_index_plus_one := 0\<rparr>"
  let ?d = "reserve_drop li s" and ?n = "unat (st_count s)"
  let ?s1 = "reserve_new ?p0 li sq ch ?d"
  have inv: "store_inv s" using receipt_run_reachable_inv [OF assms(1)] s by (auto simp: adp_inv_def)
  note invd = reserve_drop_inv [OF inv li]
  note len = store_inv_count_less [OF invd, simplified, OF room]
  have zero: "st_records ?d ! ?n = zero_receipt"
    using invd room by (simp add: store_inv_def word_less_nat_alt)
  have n0: "st_count s + 1 \<noteq> 0" using len(2) by auto
  have la: "length (st_active ?d) = 2" using invd by (simp add: store_inv_def)
  have eq: "reserve_locked ?p0 li sq ch s = Some (?s1, st_count s + 1)"
    using reserve_locked_eq [OF inv li assms(3)] room by (simp add: Let_def)
  let ?b = "a\<lparr>adp_rx_receipts := Some ?s1\<rparr>"
  have b: "receipt_exec (Ev_Reserve p li sq ch k) a = Some ?b"
    using eq s li n0 by (simp add: crystalhd_rx_receipt_reserve_def crystalhd_rx_receipt_store_def
        hw_of_def with_store_def adp_of_def Let_def)
  let ?r = "stage_or STAGE_IRQ_ENTRY ((reserve_take ?p0 li sq ch (st_count s) zero_receipt)
      \<lparr>rr_irq_entry_ns := ns, rr_completion_status := cs\<rparr>)"
  let ?t = "?s1\<lparr>st_active := (st_active ?s1)[unat li := 0], st_records := (st_records ?d)[?n := ?r]\<rparr>"
  have "\<not> st_count s + 1 \<le> st_count s" using len(2) by (simp add: word_le_nat_alt)
  then have "irq_locked li ns cs ?s1 = Some ?t"
    using len la li n0 assms(3) inv zero
    by (simp add: irq_locked_def reserve_new_def record_upd_def Let_def stage_or_def
        reserve_take_def zero_receipt_def store_inv_def)
  then have c: "receipt_exec (Ev_Irq li ns cs) ?b = Some (?b\<lparr>adp_rx_receipts := Some ?t\<rparr>)"
    using ns li by (simp add: crystalhd_rx_receipt_irq_def with_store_def hw_of_def adp_of_def)
  have old: "st_records ?t ! j = (if unat (st_active s ! unat li) = Suc j
      then stage_or STAGE_LIST_REPLACED (st_records s ! j) else st_records s ! j)" if "j < ?n" for j
  proof -
    have act: "active_ok s (unat li)" using inv li by (simp add: store_inv_def)
    have "unat (st_active s ! unat li - 1) < length (st_records s)" if "st_active s ! unat li \<noteq> 0"
      using store_inv_in_range [OF inv active_pred_less [OF act that]] .
    then show ?thesis using \<open>j < ?n\<close>
      by (auto simp: reserve_new_def reserve_drop_def Let_def unat_pred nth_list_update unat_pos)
  qed
  show ?thesis
    using b c old len la li by (auto simp: reserve_new_def reserve_take_def stage_or_def)
qed


theorem receipt_irq_attribution_witness:
  "\<exists>a b c t. receipt_run [wit_arm] (receipt_init 7) = Some a \<and>
     receipt_exec (Ev_Reserve wit_pkt 1 40 2 None) a = Some b \<and>
     receipt_exec (Ev_Irq 1 77 BC_STS_SUCCESS) b = Some c \<and> adp_rx_receipts c = Some t \<and>
     rr_irq_entry_ns (st_records t ! 0) = 77 \<and> rr_list_index (st_records t ! 0) = 1"
proof -
  have "case receipt_run [wit_arm] (receipt_init 7) of None \<Rightarrow> False
      | Some a \<Rightarrow> (case adp_rx_receipts a of None \<Rightarrow> False
        | Some s \<Rightarrow> st_armed s \<and> st_count s = 0 \<and> st_capacity s = 2)"
    by code_simp
  then obtain a s where *: "receipt_run [wit_arm] (receipt_init 7) = Some a"
    "adp_rx_receipts a = Some s" "st_armed s" and c: "st_count s = 0" "st_capacity s = 2"
    by (auto split: option.split_asm simp del: receipt_run.simps)
  have "st_count s < st_capacity s" "unat (1::u32) < 2" "(77::u64) \<noteq> 0" using c by simp_all
  from receipt_irq_attribution [OF * this, of wit_pkt 40 2 None BC_STS_SUCCESS] * c
  show ?thesis by (auto simp del: receipt_run.simps receipt_exec.simps)
qed

end
