(* ===== verification/Dioq.thy ===== *)
theory Dioq
  imports Chd_Prelude
begin

text \<open>
  The generic queues of the driver (\<^verbatim>\<open>driver/linux/crystalhd_misc.c\<close>): a pool of list elements
  threaded through \<^verbatim>\<open>flink\<close>, and doubly linked circular queues that borrow elements from it.
  The model keeps the C data structure: an explicit heap of elements and queue headers, the
  \<^verbatim>\<open>&dioq->head\<close> pseudo element as a reference of its own, every pointer store in the order of the
  code. Following a null or dangling pointer is the result \<^const>\<open>None\<close>. Sections under a
  spinlock are one transformation. Data pointers are non-zero numbers behind an option, null being
  \<^const>\<open>None\<close>. Wake-ups are recorded in a log.
\<close>

section \<open>Heap\<close>

text \<open>
  \<open>Sent q\<close> is the pointer \<^verbatim>\<open>(struct crystalhd_elem *)&dioq->head\<close> of queue \<open>q\<close>: its \<^verbatim>\<open>flink\<close> is
  the header's \<^verbatim>\<open>head\<close> and its \<^verbatim>\<open>blink\<close> the header's \<^verbatim>\<open>tail\<close>.
\<close>

datatype ref = Elem nat | Sent nat

record crystalhd_elem =
  el_flink :: "ref option"
  el_blink :: "ref option"
  el_data :: "nat option"
  el_tag :: u32

abbreviation (input) BC_LINK_DIOQ_SIG :: u32 where "BC_LINK_DIOQ_SIG \<equiv> 0x09223280"

record crystalhd_dioq =
  q_sig :: u32
  q_head :: "ref option"
  q_tail :: "ref option"
  q_count :: u32
  q_is_rx_ready :: bool
  q_has_release_cb :: bool

datatype dioq_event =
    Wake_Queue nat
  | Wake_Rx_Poll
  | Release_Cb nat nat

record dioq_heap =
  h_elems :: "nat \<Rightarrow> crystalhd_elem option"
  h_queues :: "nat \<Rightarrow> crystalhd_dioq option"
  h_pool :: "ref option"
  h_rx_poll_ready :: u32
  h_log :: "dioq_event list"

definition zero_elem :: crystalhd_elem where
  "zero_elem = \<lparr>el_flink = None, el_blink = None, el_data = None, el_tag = 0\<rparr>"

definition get_flink :: "dioq_heap \<Rightarrow> ref \<Rightarrow> ref option" where
  "get_flink h r = (case r of
      Elem a \<Rightarrow> Option.bind (h_elems h a) el_flink
    | Sent q \<Rightarrow> Option.bind (h_queues h q) q_head)"

definition get_blink :: "dioq_heap \<Rightarrow> ref \<Rightarrow> ref option" where
  "get_blink h r = (case r of
      Elem a \<Rightarrow> Option.bind (h_elems h a) el_blink
    | Sent q \<Rightarrow> Option.bind (h_queues h q) q_tail)"

definition upd_elem ::
  "nat \<Rightarrow> (crystalhd_elem \<Rightarrow> crystalhd_elem) \<Rightarrow> dioq_heap \<Rightarrow> dioq_heap option" where
  "upd_elem a f h = map_option (\<lambda>e. h\<lparr>h_elems := (h_elems h)(a := Some (f e))\<rparr>) (h_elems h a)"

definition upd_queue ::
  "nat \<Rightarrow> (crystalhd_dioq \<Rightarrow> crystalhd_dioq) \<Rightarrow> dioq_heap \<Rightarrow> dioq_heap option" where
  "upd_queue q f h = map_option (\<lambda>d. h\<lparr>h_queues := (h_queues h)(q := Some (f d))\<rparr>) (h_queues h q)"

text \<open>The stores \<^verbatim>\<open>p->flink = v\<close> and \<^verbatim>\<open>p->blink = v\<close>; \<open>p\<close> null or dangling is \<^const>\<open>None\<close>.\<close>

definition set_flink :: "ref option \<Rightarrow> ref option \<Rightarrow> dioq_heap \<Rightarrow> dioq_heap option" where
  "set_flink p v h = (case p of None \<Rightarrow> None
    | Some (Elem a) \<Rightarrow> upd_elem a (\<lambda>e. e\<lparr>el_flink := v\<rparr>) h
    | Some (Sent q) \<Rightarrow> upd_queue q (\<lambda>d. d\<lparr>q_head := v\<rparr>) h)"

definition set_blink :: "ref option \<Rightarrow> ref option \<Rightarrow> dioq_heap \<Rightarrow> dioq_heap option" where
  "set_blink p v h = (case p of None \<Rightarrow> None
    | Some (Elem a) \<Rightarrow> upd_elem a (\<lambda>e. e\<lparr>el_blink := v\<rparr>) h
    | Some (Sent q) \<Rightarrow> upd_queue q (\<lambda>d. d\<lparr>q_tail := v\<rparr>) h)"

text \<open>A handle is usable when it is not null and carries the queue signature.\<close>

definition queue_of :: "dioq_heap \<Rightarrow> nat option \<Rightarrow> (nat \<times> crystalhd_dioq) option" where
  "queue_of h ioq = do {
     q \<leftarrow> ioq; d \<leftarrow> h_queues h q;
     (if q_sig d \<noteq> BC_LINK_DIOQ_SIG then None else Some (q, d)) }"

section \<open>Element pool\<close>

definition crystalhd_alloc_elem :: "dioq_heap \<Rightarrow> (dioq_heap \<times> nat option) option" where
  "crystalhd_alloc_elem h = (case h_pool h of
      None \<Rightarrow> Some (h, None)
    | Some (Elem a) \<Rightarrow> do {
        e \<leftarrow> h_elems h a;
        h1 \<leftarrow> upd_elem a (\<lambda>_. zero_elem) (h\<lparr>h_pool := el_flink e\<rparr>);
        Some (h1, Some a) }
    | Some (Sent q) \<Rightarrow> None)"

definition crystalhd_free_elem :: "nat option \<Rightarrow> dioq_heap \<Rightarrow> dioq_heap option" where
  "crystalhd_free_elem elem h = (case elem of None \<Rightarrow> Some h
    | Some a \<Rightarrow> do {
        h1 \<leftarrow> set_flink (Some (Elem a)) (h_pool h) h;
        Some (h1\<lparr>h_pool := Some (Elem a)\<rparr>) })"

text \<open>
  The pool constructor calls \<^verbatim>\<open>kzalloc\<close> once per element; \<open>kzalloc i\<close> is the outcome of the i-th
  call, the address of a fresh zeroed element or null.
\<close>

definition kzalloc_elem :: "nat \<Rightarrow> dioq_heap \<Rightarrow> dioq_heap" where
  "kzalloc_elem a h = h\<lparr>h_elems := (h_elems h)(a := Some zero_elem)\<rparr>"

fun create_elems :: "(nat \<Rightarrow> nat option) \<Rightarrow> nat \<Rightarrow> nat \<Rightarrow> dioq_heap \<Rightarrow> (rc \<times> dioq_heap) option" where
  "create_elems kzalloc i 0 h = Some (rc_ok, h)"
| "create_elems kzalloc i (Suc n) h =
    (case kzalloc i of None \<Rightarrow> Some (Some ENOMEM, h)
     | Some a \<Rightarrow> do {
         h1 \<leftarrow> crystalhd_free_elem (Some a) (kzalloc_elem a h);
         create_elems kzalloc (Suc i) n h1 })"

definition crystalhd_create_elem_pool ::
  "(nat \<Rightarrow> nat option) \<Rightarrow> u32 \<Rightarrow> dioq_heap \<Rightarrow> (rc \<times> dioq_heap) option" where
  "crystalhd_create_elem_pool kzalloc pool_size h =
    (if pool_size = 0 then Some (Some EINVAL, h)
     else create_elems kzalloc 0 (unat pool_size) h)"

text \<open>The destructor's \<^verbatim>\<open>do ... while (temp)\<close> loop; not returning is \<^const>\<open>None\<close>.\<close>

partial_function (option) crystalhd_delete_elem_pool :: "dioq_heap \<Rightarrow> dioq_heap option" where
  "crystalhd_delete_elem_pool h = do {
     (h1, temp) \<leftarrow> crystalhd_alloc_elem h;
     (case temp of None \<Rightarrow> Some h1
      | Some a \<Rightarrow> crystalhd_delete_elem_pool (h1\<lparr>h_elems := (h_elems h1)(a := None)\<rparr>)) }"

section \<open>Queues\<close>

text \<open>\<open>kz\<close> is the outcome of \<^verbatim>\<open>kzalloc\<close>: the address of a new queue header or null.\<close>

definition crystalhd_create_dioq ::
  "nat option \<Rightarrow> bool \<Rightarrow> dioq_heap \<Rightarrow> bc_status \<times> nat option \<times> dioq_heap" where
  "crystalhd_create_dioq kz has_cb h = (case kz of
      None \<Rightarrow> (BC_STS_INSUFF_RES, None, h)
    | Some q \<Rightarrow> (BC_STS_SUCCESS, Some q,
        h\<lparr>h_queues := (h_queues h)(q := Some
          \<lparr>q_sig = BC_LINK_DIOQ_SIG, q_head = Some (Sent q), q_tail = Some (Sent q), q_count = 0,
           q_is_rx_ready = False, q_has_release_cb = has_cb\<rparr>)\<rparr>))"

definition log_event :: "dioq_event \<Rightarrow> dioq_heap \<Rightarrow> dioq_heap" where
  "log_event ev h = h\<lparr>h_log := h_log h @ [ev]\<rparr>"

text \<open>
  \<^verbatim>\<open>ioq->count += delta\<close> and the poll counter kept for the ready queue, as the queue operations do
  it under the lock.
\<close>

definition bump_count :: "nat \<Rightarrow> u32 \<Rightarrow> dioq_heap \<Rightarrow> dioq_heap option" where
  "bump_count q delta h = do {
     h1 \<leftarrow> upd_queue q (\<lambda>d. d\<lparr>q_count := q_count d + delta\<rparr>) h;
     d \<leftarrow> h_queues h1 q;
     Some (if q_is_rx_ready d then h1\<lparr>h_rx_poll_ready := q_count d\<rparr> else h1) }"

definition crystalhd_dioq_add_elem ::
  "nat \<Rightarrow> nat \<Rightarrow> bool \<Rightarrow> u32 \<Rightarrow> dioq_heap \<Rightarrow> dioq_heap option" where
  "crystalhd_dioq_add_elem q elem wake tag h = do {
     h1 \<leftarrow> upd_elem elem (\<lambda>e. e\<lparr>el_tag := tag\<rparr>) h;
     h2 \<leftarrow> set_flink (Some (Elem elem)) (Some (Sent q)) h1;
     h3 \<leftarrow> set_blink (Some (Elem elem)) (get_blink h2 (Sent q)) h2;
     h4 \<leftarrow> set_blink (get_flink h3 (Elem elem)) (Some (Elem elem)) h3;
     h5 \<leftarrow> set_flink (get_blink h4 (Elem elem)) (Some (Elem elem)) h4;
     d \<leftarrow> h_queues h5 q;
     let rx_poll_transition = (q_is_rx_ready d \<and> q_count d = 0);
     h6 \<leftarrow> bump_count q 1 h5;
     let h7 = (if wake then log_event (Wake_Queue q) h6 else h6);
     Some (if rx_poll_transition then log_event Wake_Rx_Poll h7 else h7) }"

definition crystalhd_dioq_add ::
  "nat option \<Rightarrow> nat option \<Rightarrow> bool \<Rightarrow> u32 \<Rightarrow> dioq_heap \<Rightarrow> (bc_status \<times> dioq_heap) option" where
  "crystalhd_dioq_add ioq data wake tag h =
    (case (queue_of h ioq, data) of
       (Some (q, _), Some v) \<Rightarrow> do {
         (h1, tmp) \<leftarrow> crystalhd_alloc_elem h;
         (case tmp of None \<Rightarrow> Some (BC_STS_INSUFF_RES, h1)
          | Some a \<Rightarrow> do {
              h2 \<leftarrow> upd_elem a (\<lambda>e. e\<lparr>el_data := Some v\<rparr>) h1;
              h3 \<leftarrow> crystalhd_dioq_add_elem q a wake tag h2;
              Some (BC_STS_SUCCESS, h3) }) }
     | _ \<Rightarrow> Some (BC_STS_INV_ARG, h))"

text \<open>
  The unlinking both fetch operations share:
  \<^verbatim>\<open>tmp->flink->blink = tmp->blink; tmp->blink->flink = tmp->flink; ioq->count--\<close>.
\<close>

definition unlink_elem :: "nat \<Rightarrow> nat \<Rightarrow> dioq_heap \<Rightarrow> dioq_heap option" where
  "unlink_elem q a h = do {
     h1 \<leftarrow> set_blink (get_flink h (Elem a)) (get_blink h (Elem a)) h;
     h2 \<leftarrow> set_flink (get_blink h1 (Elem a)) (get_flink h1 (Elem a)) h1;
     bump_count q (- 1) h2 }"

definition crystalhd_dioq_fetch_elem ::
  "nat option \<Rightarrow> dioq_heap \<Rightarrow> (dioq_heap \<times> nat option) option" where
  "crystalhd_dioq_fetch_elem ioq h = (case queue_of h ioq of
      None \<Rightarrow> Some (h, None)
    | Some (q, d) \<Rightarrow>
      if q_head d = Some (Sent q) then Some (h, None)
      else (case q_head d of
        Some (Elem a) \<Rightarrow> do {
          h1 \<leftarrow> unlink_elem q a h;
          h2 \<leftarrow> set_flink (Some (Elem a)) None h1;
          h3 \<leftarrow> set_blink (Some (Elem a)) None h2;
          Some (h3, Some a) }
      | _ \<Rightarrow> None))"

text \<open>The end of both fetch operations: read the data pointer and give the element back.\<close>

definition retire_elem :: "nat option \<Rightarrow> dioq_heap \<Rightarrow> (dioq_heap \<times> nat option) option" where
  "retire_elem ret h = (case ret of None \<Rightarrow> Some (h, None)
    | Some a \<Rightarrow> do {
        e \<leftarrow> h_elems h a;
        h1 \<leftarrow> crystalhd_free_elem (Some a) h;
        Some (h1, el_data e) })"

definition crystalhd_dioq_fetch ::
  "nat option \<Rightarrow> dioq_heap \<Rightarrow> (dioq_heap \<times> nat option) option" where
  "crystalhd_dioq_fetch ioq h = do {
     (h1, ret) \<leftarrow> crystalhd_dioq_fetch_elem ioq h;
     retire_elem ret h1 }"

text \<open>The element a pointer leads to; a header or null is not one.\<close>

definition elem_addr :: "ref option \<Rightarrow> nat option" where
  "elem_addr p = (case p of Some (Elem a) \<Rightarrow> Some a | _ \<Rightarrow> None)"

text \<open>
  The search loop of \<open>find_and_fetch\<close>: \<open>Some (Some a)\<close> when it stops at element \<open>a\<close>,
  \<open>Some None\<close> when it is back at the header, \<^const>\<open>None\<close> when it follows a bad pointer or
  never ends.
\<close>

partial_function (option) find_tag ::
  "dioq_heap \<Rightarrow> nat \<Rightarrow> u32 \<Rightarrow> ref option \<Rightarrow> nat option option" where
  "find_tag h q tag tmp =
    (if tmp = Some (Sent q) then Some None
     else do {
       a \<leftarrow> elem_addr tmp;
       e \<leftarrow> h_elems h a;
       (if el_tag e = tag then Some (Some a) else find_tag h q tag (el_flink e)) })"

definition crystalhd_dioq_find_and_fetch ::
  "nat option \<Rightarrow> u32 \<Rightarrow> dioq_heap \<Rightarrow> (dioq_heap \<times> nat option) option" where
  "crystalhd_dioq_find_and_fetch ioq tag h = (case queue_of h ioq of
      None \<Rightarrow> Some (h, None)
    | Some (q, d) \<Rightarrow> do {
        found \<leftarrow> find_tag h q tag (q_head d);
        h1 \<leftarrow> (case found of None \<Rightarrow> Some h | Some a \<Rightarrow> unlink_elem q a h);
        retire_elem found h1 })"

text \<open>The draining loop of the destructor.\<close>

partial_function (option) drain_dioq :: "nat \<Rightarrow> bool \<Rightarrow> dioq_heap \<Rightarrow> dioq_heap option" where
  "drain_dioq q has_cb h = do {
     (h1, temp) \<leftarrow> crystalhd_dioq_fetch (Some q) h;
     (case temp of None \<Rightarrow> Some h1
      | Some v \<Rightarrow> drain_dioq q has_cb (if has_cb then log_event (Release_Cb q v) h1 else h1)) }"

definition crystalhd_delete_dioq :: "nat option \<Rightarrow> dioq_heap \<Rightarrow> dioq_heap option" where
  "crystalhd_delete_dioq dioq h = (case queue_of h dioq of
      None \<Rightarrow> Some h
    | Some (q, d) \<Rightarrow> do {
        h1 \<leftarrow> drain_dioq q (q_has_release_cb d) h;
        d1 \<leftarrow> h_queues h1 q;
        let h2 = (if q_is_rx_ready d1 then h1\<lparr>h_rx_poll_ready := 0\<rparr> else h1);
        Some (h2\<lparr>h_queues := (h_queues h2)(q := None)\<rparr>) })"

section \<open>Views\<close>

text \<open>
  What the proofs see of a heap: the two link functions on elements and headers alike, and the
  remaining contents.
\<close>

record hview =
  v_fl :: "ref \<Rightarrow> ref option"
  v_bl :: "ref \<Rightarrow> ref option"
  v_dt :: "nat \<Rightarrow> (nat option \<times> u32) option"
  v_q :: "nat \<Rightarrow> (u32 \<times> u32 \<times> bool \<times> bool) option"
  v_pool :: "ref option"
  v_poll :: u32
  v_log :: "dioq_event list"

definition view :: "dioq_heap \<Rightarrow> hview" where
  "view h =
    \<lparr>v_fl = get_flink h, v_bl = get_blink h,
     v_dt = (\<lambda>a. map_option (\<lambda>e. (el_data e, el_tag e)) (h_elems h a)),
     v_q = (\<lambda>q. map_option (\<lambda>d. (q_sig d, q_count d, q_is_rx_ready d, q_has_release_cb d)) (h_queues h q)),
     v_pool = h_pool h, v_poll = h_rx_poll_ready h, v_log = h_log h\<rparr>"

definition node_ok :: "hview \<Rightarrow> ref \<Rightarrow> bool" where
  "node_ok v r = (case r of Elem a \<Rightarrow> v_dt v a \<noteq> None | Sent q \<Rightarrow> v_q v q \<noteq> None)"

lemma node_ok_simps [simp]:
  "node_ok v (Elem a) \<longleftrightarrow> v_dt v a \<noteq> None" "node_ok v (Sent q) \<longleftrightarrow> v_q v q \<noteq> None"
  by (simp_all add: node_ok_def)

lemma view_sel [simp]:
  "v_fl (view h) = get_flink h" "v_bl (view h) = get_blink h" "v_pool (view h) = h_pool h"
  "v_poll (view h) = h_rx_poll_ready h" "v_log (view h) = h_log h"
  by (simp_all add: view_def)

lemma set_flink_view:
  assumes "node_ok (view h) r"
  obtains h' where "set_flink (Some r) v h = Some h'" "view h' = (view h)\<lparr>v_fl := (get_flink h)(r := v)\<rparr>"
proof (cases r)
  case (Elem a)
  with assms obtain e where "h_elems h a = Some e" by (auto simp: view_def)
  with Elem show ?thesis by (intro that) (auto simp: set_flink_def upd_elem_def view_def get_flink_def
      get_blink_def fun_eq_iff split: ref.splits)
next
  case (Sent q)
  with assms obtain d where "h_queues h q = Some d" by (auto simp: view_def)
  with Sent show ?thesis by (intro that) (auto simp: set_flink_def upd_queue_def view_def get_flink_def
      get_blink_def fun_eq_iff split: ref.splits)
qed

lemma set_blink_view:
  assumes "node_ok (view h) r"
  obtains h' where "set_blink (Some r) v h = Some h'" "view h' = (view h)\<lparr>v_bl := (get_blink h)(r := v)\<rparr>"
proof (cases r)
  case (Elem a)
  with assms obtain e where "h_elems h a = Some e" by (auto simp: view_def)
  with Elem show ?thesis by (intro that) (auto simp: set_blink_def upd_elem_def view_def get_flink_def
      get_blink_def fun_eq_iff split: ref.splits)
next
  case (Sent q)
  with assms obtain d where "h_queues h q = Some d" by (auto simp: view_def)
  with Sent show ?thesis by (intro that) (auto simp: set_blink_def upd_queue_def view_def get_flink_def
      get_blink_def fun_eq_iff split: ref.splits)
qed

lemma bump_count_view:
  assumes "v_q (view h) q = Some (s, c, r, b)"
  obtains h' where "bump_count q k h = Some h'"
    "view h' = (view h)\<lparr>v_q := (v_q (view h))(q \<mapsto> (s, c + k, r, b)),
                        v_poll := (if r then c + k else h_rx_poll_ready h)\<rparr>"
proof -
  from assms obtain d where d: "h_queues h q = Some d" "q_sig d = s" "q_count d = c"
    "q_is_rx_ready d = r" "q_has_release_cb d = b" by (auto simp: view_def)
  then show ?thesis
    by (intro that) (auto simp: bump_count_def upd_queue_def view_def get_flink_def get_blink_def
        fun_eq_iff split: ref.splits)
qed

lemma queue_of_view:
  "queue_of h (Some q) \<noteq> None \<longleftrightarrow> (\<exists>c r b. v_q (view h) q = Some (BC_LINK_DIOQ_SIG, c, r, b))"
  by (auto simp: queue_of_def view_def bind_eq_Some_conv)

lemma queue_of_head:
  assumes "queue_of h ioq = Some (q, d)"
  shows "ioq = Some q" "q_head d = get_flink h (Sent q)" "h_queues h q = Some d"
    "v_q (view h) q = Some (BC_LINK_DIOQ_SIG, q_count d, q_is_rx_ready d, q_has_release_cb d)"
  using assms by (auto simp: queue_of_def bind_eq_Some_conv get_flink_def view_def split: if_splits)

section \<open>Rings\<close>

text \<open>
  \<open>seg fl bl p xs e\<close>: following \<open>fl\<close> from \<open>p\<close> visits the elements \<open>xs\<close> and ends at \<open>e\<close>, and \<open>bl\<close>
  leads back the same way.
\<close>

fun seg :: "(ref \<Rightarrow> ref option) \<Rightarrow> (ref \<Rightarrow> ref option) \<Rightarrow> ref \<Rightarrow> nat list \<Rightarrow> ref \<Rightarrow> bool" where
  "seg fl bl p [] e \<longleftrightarrow> fl p = Some e \<and> bl e = Some p"
| "seg fl bl p (x # xs) e \<longleftrightarrow>
     fl p = Some (Elem x) \<and> bl (Elem x) = Some p \<and> seg fl bl (Elem x) xs e"

lemma seg_append:
  "seg fl bl p (xs @ y # ys) e \<longleftrightarrow> seg fl bl p xs (Elem y) \<and> seg fl bl (Elem y) ys e"
  by (induction xs arbitrary: p) auto

definition last_of :: "ref \<Rightarrow> nat list \<Rightarrow> ref" where
  "last_of p xs = (if xs = [] then p else Elem (last xs))"

definition first_of :: "nat list \<Rightarrow> ref \<Rightarrow> ref" where
  "first_of xs e = (case xs of [] \<Rightarrow> e | x # _ \<Rightarrow> Elem x)"

lemma seg_ends: "seg fl bl p xs e \<Longrightarrow>
    fl p = Some (first_of xs e) \<and> bl e = Some (last_of p xs) \<and>
    fl (last_of p xs) = Some e \<and> bl (first_of xs e) = Some p"
proof (induction xs arbitrary: p)
  case (Cons x xs)
  then show ?case by (cases xs) (auto simp: last_of_def first_of_def)
qed (simp add: last_of_def first_of_def)

lemma seg_cong:
  assumes "seg fl bl p xs e" "\<And>r. r \<in> insert p (Elem ` set xs) \<Longrightarrow> fl' r = fl r"
    "\<And>r. r \<in> insert e (Elem ` set xs) \<Longrightarrow> bl' r = bl r"
  shows "seg fl' bl' p xs e"
  using assms by (induction xs arbitrary: p) auto

text \<open>Replacing the end of a segment.\<close>

lemma seg_retarget:
  assumes "seg fl bl p xs e" "distinct xs" "p \<notin> Elem ` set xs" "e \<notin> Elem ` set xs" "e' \<notin> Elem ` set xs"
  shows "seg (fl(last_of p xs := Some e')) (bl(e' := Some (last_of p xs))) p xs e'"
  using assms
proof (induction xs arbitrary: p)
  case (Cons x xs)
  have "seg fl bl (Elem x) xs e" "fl p = Some (Elem x)" "bl (Elem x) = Some p"
    using Cons.prems by auto
  moreover have "last_of p (x # xs) = last_of (Elem x) xs" by (simp add: last_of_def)
  moreover have "p \<noteq> last_of (Elem x) xs" using Cons.prems by (auto simp: last_of_def)
  ultimately show ?case using Cons.IH [of "Elem x"] Cons.prems by auto
qed (simp add: last_of_def)

text \<open>Appending one element at the end of a ring, and removing one.\<close>

lemma ring_append:
  assumes "seg fl bl (Sent q) xs (Sent q)" "distinct xs" "a \<notin> set xs"
    and "fl' = (fl(Elem a := Some (Sent q)))(last_of (Sent q) xs := Some (Elem a))"
    and "bl' = (bl(Elem a := Some (last_of (Sent q) xs)))(Sent q := Some (Elem a))"
  shows "seg fl' bl' (Sent q) (xs @ [a]) (Sent q)"
proof -
  let ?l = "last_of (Sent q) xs"
  have "seg (fl(?l := Some (Elem a))) (bl(Elem a := Some ?l)) (Sent q) xs (Elem a)"
    using assms by (intro seg_retarget) auto
  then have "seg fl' bl' (Sent q) xs (Elem a)"
    by (rule seg_cong) (use assms in \<open>auto simp: last_of_def\<close>)
  then show ?thesis using assms by (auto simp: seg_append last_of_def split: if_splits)
qed

lemma ring_remove:
  assumes "seg fl bl p (xs @ y # ys) e" "distinct (xs @ y # ys)"
    "p \<notin> Elem ` set (xs @ y # ys)" "e \<notin> Elem ` set (xs @ y # ys)"
  shows "seg (fl(last_of p xs := Some (first_of ys e))) (bl(first_of ys e := Some (last_of p xs)))
    p (xs @ ys) e"
proof -
  let ?l = "last_of p xs" and ?f = "first_of ys e"
  have s: "seg fl bl p xs (Elem y)" "seg fl bl (Elem y) ys e" using assms(1) by (simp_all add: seg_append)
  have "seg (fl(?l := Some ?f)) (bl(?f := Some ?l)) p xs ?f"
    by (rule seg_retarget [OF s(1)]) (use assms in \<open>auto simp: first_of_def split: list.splits\<close>)
  then show ?thesis
  proof (cases ys)
    case (Cons z zs)
    have l: "?l \<notin> insert (Elem z) (Elem ` set zs)"
      using assms Cons by (cases xs rule: rev_cases) (auto simp: last_of_def)
    have "seg fl bl (Elem z) zs e" using s(2) Cons by simp
    then have "seg (fl(?l := Some ?f)) (bl(?f := Some ?l)) (Elem z) zs e"
      by (rule seg_cong) (use assms Cons l in \<open>auto simp: first_of_def\<close>)
    with \<open>seg _ _ p xs ?f\<close> Cons show ?thesis by (simp add: seg_append first_of_def)
  qed (simp add: first_of_def)
qed


section \<open>The heap invariant\<close>

fun pool_seg :: "(ref \<Rightarrow> ref option) \<Rightarrow> ref option \<Rightarrow> nat list \<Rightarrow> bool" where
  "pool_seg fl r [] \<longleftrightarrow> r = None"
| "pool_seg fl r (x # xs) \<longleftrightarrow> r = Some (Elem x) \<and> pool_seg fl (fl (Elem x)) xs"

lemma pool_seg_cong:
  "pool_seg fl r xs \<Longrightarrow> (\<And>x. x \<in> set xs \<Longrightarrow> fl' (Elem x) = fl (Elem x)) \<Longrightarrow> pool_seg fl' r xs"
  by (induction xs arbitrary: r) auto

abbreviation q_valid :: "hview \<Rightarrow> nat \<Rightarrow> bool" where
  "q_valid v q \<equiv> (\<exists>c r b. v_q v q = Some (BC_LINK_DIOQ_SIG, c, r, b))"

text \<open>
  \<open>owners P Q\<close>: every element belongs to at most one list, the pool \<open>P\<close> or one queue \<open>Q q\<close>.
\<close>

definition owners :: "nat list \<Rightarrow> (nat \<Rightarrow> nat list) \<Rightarrow> bool" where
  "owners P Q \<longleftrightarrow> distinct P \<and> (\<forall>q. distinct (Q q)) \<and> (\<forall>q. set P \<inter> set (Q q) = {}) \<and>
     (\<forall>q q'. q \<noteq> q' \<longrightarrow> set (Q q) \<inter> set (Q q') = {})"

definition ring_ok :: "hview \<Rightarrow> nat \<Rightarrow> nat list \<Rightarrow> bool" where
  "ring_ok v q xs \<longleftrightarrow> seg (v_fl v) (v_bl v) (Sent q) xs (Sent q) \<and>
     (\<exists>r b. v_q v q = Some (BC_LINK_DIOQ_SIG, word_of_nat (length xs), r, b))"

definition dioq_inv :: "hview \<Rightarrow> nat list \<Rightarrow> (nat \<Rightarrow> nat list) \<Rightarrow> bool" where
  "dioq_inv v P Q \<longleftrightarrow> owners P Q \<and> pool_seg (v_fl v) (v_pool v) P \<and>
     (\<forall>a \<in> set P. v_dt v a \<noteq> None) \<and>
     (\<forall>q. q_valid v q \<longrightarrow> ring_ok v q (Q q)) \<and> (\<forall>q. \<not> q_valid v q \<longrightarrow> Q q = []) \<and>
     (\<forall>q. \<forall>a \<in> set (Q q). \<exists>d t. v_dt v a = Some (Some d, t))"

definition entry :: "hview \<Rightarrow> nat \<Rightarrow> u32 \<times> nat" where
  "entry v a = (case v_dt v a of Some (Some d, t) \<Rightarrow> (t, d) | _ \<Rightarrow> (0, 0))"

definition dioq_rep :: "dioq_heap \<Rightarrow> (nat \<Rightarrow> (u32 \<times> nat) list) \<Rightarrow> nat \<Rightarrow> bool" where
  "dioq_rep h A n \<longleftrightarrow> (\<exists>P Q. dioq_inv (view h) P Q \<and> n = length P \<and>
     (\<forall>q. A q = map (entry (view h)) (Q q)))"

section \<open>Views of the operations\<close>

lemma view_eqD:
  assumes "view h = v"
  shows "get_flink h = v_fl v" "get_blink h = v_bl v" "h_pool h = v_pool v"
    "h_rx_poll_ready h = v_poll v" "h_log h = v_log v"
  using assms by auto

lemma upd_elem_data_view:
  assumes "v_dt (view h) a = Some (d0, t0)"
    and f: "\<And>e. el_flink (f e) = el_flink e" "\<And>e. el_blink (f e) = el_blink e"
      "\<And>e. el_data (f e) = fd (el_data e)" "\<And>e. el_tag (f e) = ft (el_tag e)"
  obtains h' where "upd_elem a f h = Some h'"
    "view h' = (view h)\<lparr>v_dt := (v_dt (view h))(a \<mapsto> (fd d0, ft t0))\<rparr>"
proof -
  from assms obtain e where "h_elems h a = Some e" "el_data e = d0" "el_tag e = t0"
    by (auto simp: view_def)
  then show ?thesis using f
    by (intro that) (auto simp: upd_elem_def view_def get_flink_def get_blink_def fun_eq_iff
        split: ref.splits)
qed

lemma unlink_elem_view:
  assumes v: "v_q (view h) q = Some (s, c, r, b)" and fl: "get_flink h (Elem a) = Some n"
    and bl: "get_blink h (Elem a) = Some p" and ok: "node_ok (view h) n" "node_ok (view h) p"
    and na: "n \<noteq> Elem a"
  obtains h' where "unlink_elem q a h = Some h'"
    "view h' = (view h)\<lparr>v_bl := (get_blink h)(n := Some p), v_fl := (get_flink h)(p := Some n),
       v_q := (v_q (view h))(q \<mapsto> (s, c - 1, r, b)),
       v_poll := (if r then c - 1 else h_rx_poll_ready h)\<rparr>"
proof -
  obtain h1 where h1: "set_blink (Some n) (Some p) h = Some h1"
    "view h1 = (view h)\<lparr>v_bl := (get_blink h)(n := Some p)\<rparr>"
    using ok(1) by (rule set_blink_view)
  have l1: "get_blink h1 (Elem a) = Some p" "get_flink h1 = get_flink h"
    using view_eqD [OF h1(2)] bl na by simp_all
  have "node_ok (view h1) p" using ok(2) h1(2) by (cases p) simp_all
  then obtain h2 where h2: "set_flink (Some p) (Some n) h1 = Some h2"
    "view h2 = (view h1)\<lparr>v_fl := (get_flink h1)(p := Some n)\<rparr>"
    by (rule set_flink_view)
  have "v_q (view h2) q = Some (s, c, r, b)" using v h1(2) h2(2) by simp
  then obtain h3 where h3: "bump_count q (- 1) h2 = Some h3"
    "view h3 = (view h2)\<lparr>v_q := (v_q (view h2))(q \<mapsto> (s, c + - 1, r, b)),
                        v_poll := (if r then c + - 1 else h_rx_poll_ready h2)\<rparr>"
    by (rule bump_count_view)
  have poll: "h_rx_poll_ready h2 = h_rx_poll_ready h"
    using view_eqD(4) [OF h2(2)] h1(2) by simp
  show ?thesis
  proof (rule that)
    show "unlink_elem q a h = Some h3"
      using h1 h2 h3 l1 fl bl by (simp add: unlink_elem_def)
    show "view h3 = (view h)\<lparr>v_bl := (get_blink h)(n := Some p), v_fl := (get_flink h)(p := Some n),
       v_q := (v_q (view h))(q \<mapsto> (s, c - 1, r, b)), v_poll := (if r then c - 1 else h_rx_poll_ready h)\<rparr>"
      using h1(2) h2(2) h3(2) l1 poll by simp
  qed
qed


lemma view_log_event [simp]:
  "view (log_event ev h) = (view h)\<lparr>v_log := h_log h @ [ev]\<rparr>" "h_log (log_event ev h) = h_log h @ [ev]"
  by (auto simp: log_event_def view_def get_flink_def get_blink_def fun_eq_iff split: ref.splits)

text \<open>Link updates as the proofs state them, and the projections of a view that they leave alone.\<close>

lemma add_elem_view:
  assumes v: "v_q (view h) q = Some (s, c, r, b)" and a: "v_dt (view h) a = Some (d, t0)"
    and tl: "get_blink h (Sent q) = Some l" and ok: "node_ok (view h) l"
  obtains h' where "crystalhd_dioq_add_elem q a wake tag h = Some h'"
    "view h' = (view h)\<lparr>v_dt := (v_dt (view h))(a \<mapsto> (d, tag)),
       v_fl := (get_flink h)(Elem a := Some (Sent q), l := Some (Elem a)),
       v_bl := (get_blink h)(Elem a := Some l, Sent q := Some (Elem a)),
       v_q := (v_q (view h))(q \<mapsto> (s, c + 1, r, b)),
       v_poll := (if r then c + 1 else h_rx_poll_ready h),
       v_log := h_log h @ (if wake then [Wake_Queue q] else []) @
                (if r \<and> c = 0 then [Wake_Rx_Poll] else [])\<rparr>"
proof -
  obtain h1 where h1: "upd_elem a (\<lambda>e. e\<lparr>el_tag := tag\<rparr>) h = Some h1"
    "view h1 = (view h)\<lparr>v_dt := (v_dt (view h))(a \<mapsto> (d, tag))\<rparr>"
    by (rule upd_elem_data_view [OF a, where f = "\<lambda>e. e\<lparr>el_tag := tag\<rparr>" and fd = id and ft = "\<lambda>_. tag"])
      simp_all
  have "node_ok (view h1) (Elem a)" using h1(2) by simp
  then obtain h2 where h2: "set_flink (Some (Elem a)) (Some (Sent q)) h1 = Some h2"
    "view h2 = (view h1)\<lparr>v_fl := (get_flink h1)(Elem a := Some (Sent q))\<rparr>"
    by (rule set_flink_view)
  have b2: "get_blink h2 = get_blink h"
    using view_eqD(2) [OF h2(2)] view_eqD(2) [OF h1(2)] by simp
  have "node_ok (view h2) (Elem a)" using h1(2) h2(2) by simp
  then obtain h3 where h3: "set_blink (Some (Elem a)) (Some l) h2 = Some h3"
    "view h3 = (view h2)\<lparr>v_bl := (get_blink h2)(Elem a := Some l)\<rparr>"
    by (rule set_blink_view)
  have f3: "get_flink h3 (Elem a) = Some (Sent q)" "get_blink h3 = (get_blink h)(Elem a := Some l)"
    using view_eqD(1,2) [OF h3(2)] view_eqD(1) [OF h2(2)] b2 by simp_all
  have "node_ok (view h3) (Sent q)" using h1(2) h2(2) h3(2) v by simp
  then obtain h4 where h4: "set_blink (Some (Sent q)) (Some (Elem a)) h3 = Some h4"
    "view h4 = (view h3)\<lparr>v_bl := (get_blink h3)(Sent q := Some (Elem a))\<rparr>"
    by (rule set_blink_view)
  have b4: "get_blink h4 (Elem a) = Some l"
    "get_flink h4 = (get_flink h)(Elem a := Some (Sent q))"
    using view_eqD(1,2) [OF h4(2)] f3 view_eqD(1) [OF h3(2)] view_eqD(1) [OF h2(2)]
      view_eqD(1) [OF h1(2)] by simp_all
  have "node_ok (view h4) l" using ok h1(2) h2(2) h3(2) h4(2) by (cases l) auto
  then obtain h5 where h5: "set_flink (Some l) (Some (Elem a)) h4 = Some h5"
    "view h5 = (view h4)\<lparr>v_fl := (get_flink h4)(l := Some (Elem a))\<rparr>"
    by (rule set_flink_view)
  have v5: "view h5 = (view h)\<lparr>v_dt := (v_dt (view h))(a \<mapsto> (d, tag)),
       v_fl := (get_flink h)(Elem a := Some (Sent q), l := Some (Elem a)),
       v_bl := (get_blink h)(Elem a := Some l, Sent q := Some (Elem a))\<rparr>"
    using h1(2) h2(2) h3(2) h4(2) h5(2) b4 f3 by simp
  then have q5: "v_q (view h5) q = Some (s, c, r, b)" using v by simp
  then obtain dq where dq: "h_queues h5 q = Some dq" "q_is_rx_ready dq = r" "q_count dq = c"
    by (auto simp: view_def)
  from q5 obtain h6 where h6: "bump_count q 1 h5 = Some h6"
    "view h6 = (view h5)\<lparr>v_q := (v_q (view h5))(q \<mapsto> (s, c + 1, r, b)),
                        v_poll := (if r then c + 1 else h_rx_poll_ready h5)\<rparr>"
    by (rule bump_count_view)
  have eqs: "h_rx_poll_ready h5 = h_rx_poll_ready h" "h_log h6 = h_log h"
    using view_eqD(4) [OF v5] view_eqD(5) [OF h6(2)] view_eqD(5) [OF v5] by simp_all
  show ?thesis
    by (rule that [of "let h7 = (if wake then log_event (Wake_Queue q) h6 else h6)
          in if r \<and> c = 0 then log_event Wake_Rx_Poll h7 else h7"])
      (use h1 h2 h3 h4 h5 h6 f3 b4 b2 tl dq v5 eqs in
        \<open>simp_all add: crystalhd_dioq_add_elem_def Let_def\<close>)
qed


lemma alloc_elem_view:
  assumes "v_pool (view h) = Some (Elem a)" "v_dt (view h) a \<noteq> None"
  obtains h' where "crystalhd_alloc_elem h = Some (h', Some a)"
    "view h' = (view h)\<lparr>v_pool := get_flink h (Elem a), v_dt := (v_dt (view h))(a \<mapsto> (None, 0)),
       v_fl := (get_flink h)(Elem a := None), v_bl := (get_blink h)(Elem a := None)\<rparr>"
proof -
  from assms obtain e where "h_elems h a = Some e" "h_pool h = Some (Elem a)" by (auto simp: view_def)
  then show ?thesis
    by (intro that) (auto simp: crystalhd_alloc_elem_def upd_elem_def view_def get_flink_def
        get_blink_def zero_elem_def fun_eq_iff split: ref.splits)
qed

lemma free_elem_view:
  assumes "v_dt (view h) a \<noteq> None"
  obtains h' where "crystalhd_free_elem (Some a) h = Some h'"
    "view h' = (view h)\<lparr>v_fl := (get_flink h)(Elem a := h_pool h), v_pool := Some (Elem a)\<rparr>"
proof -
  have "node_ok (view h) (Elem a)" using assms by simp
  then obtain h1 where h1: "set_flink (Some (Elem a)) (h_pool h) h = Some h1"
    "view h1 = (view h)\<lparr>v_fl := (get_flink h)(Elem a := h_pool h)\<rparr>"
    by (rule set_flink_view)
  have "view (h1\<lparr>h_pool := p\<rparr>) = (view h1)\<lparr>v_pool := p\<rparr>" for p
    by (auto simp: view_def get_flink_def get_blink_def fun_eq_iff split: ref.splits)
  with h1 show ?thesis by (intro that) (simp_all add: crystalhd_free_elem_def)
qed

lemma retire_elem_view:
  assumes "v_dt (view h) a = Some (d, t)"
  obtains h' where "retire_elem (Some a) h = Some (h', d)"
    "view h' = (view h)\<lparr>v_fl := (get_flink h)(Elem a := h_pool h), v_pool := Some (Elem a)\<rparr>"
proof -
  have ne: "v_dt (view h) a \<noteq> None" using assms by simp
  obtain h' where "crystalhd_free_elem (Some a) h = Some h'"
    "view h' = (view h)\<lparr>v_fl := (get_flink h)(Elem a := h_pool h), v_pool := Some (Elem a)\<rparr>"
    using ne by (rule free_elem_view)
  moreover obtain e where "h_elems h a = Some e" "el_data e = d" using assms by (auto simp: view_def)
  ultimately show ?thesis by (intro that) (simp_all add: retire_elem_def)
qed

section \<open>Preservation\<close>

lemma dioq_invD:
  assumes "dioq_inv v P Q"
  shows "owners P Q" "pool_seg (v_fl v) (v_pool v) P" "\<And>a. a \<in> set P \<Longrightarrow> v_dt v a \<noteq> None"
    "\<And>q. q_valid v q \<Longrightarrow> ring_ok v q (Q q)" "\<And>q. \<not> q_valid v q \<Longrightarrow> Q q = []"
    "\<And>q a. a \<in> set (Q q) \<Longrightarrow> \<exists>d t. v_dt v a = Some (Some d, t)"
  using assms unfolding dioq_inv_def by blast+

lemma ring_last_ok:
  assumes "dioq_inv v P Q" "q_valid v q"
  shows "node_ok v (last_of (Sent q) (Q q))" "v_bl v (Sent q) = Some (last_of (Sent q) (Q q))"
    "v_fl v (Sent q) = Some (first_of (Q q) (Sent q))"
proof -
  have r: "seg (v_fl v) (v_bl v) (Sent q) (Q q) (Sent q)"
    using dioq_invD(4) [OF assms] by (simp add: ring_ok_def)
  from seg_ends [OF r] show "v_bl v (Sent q) = Some (last_of (Sent q) (Q q))"
    "v_fl v (Sent q) = Some (first_of (Q q) (Sent q))" by simp_all
  show "node_ok v (last_of (Sent q) (Q q))"
  proof (cases "Q q = []")
    case False
    then have "last (Q q) \<in> set (Q q)" by simp
    from dioq_invD(6) [OF assms(1) this] False show ?thesis by (auto simp: last_of_def)
  qed (use assms(2) in \<open>auto simp: last_of_def\<close>)
qed

text \<open>A ring is insensitive to changes outside its elements and its header.\<close>

lemma ring_ok_cong:
  assumes "ring_ok v q xs" "v_q v' q = v_q v q"
    "\<And>r. r \<in> insert (Sent q) (Elem ` set xs) \<Longrightarrow> v_fl v' r = v_fl v r \<and> v_bl v' r = v_bl v r"
  shows "ring_ok v' q xs"
  using assms seg_cong [of "v_fl v" "v_bl v" "Sent q" xs "Sent q" "v_fl v'" "v_bl v'"]
  by (auto simp: ring_ok_def)


lemma ownersD:
  assumes "owners P Q"
  shows "distinct P" "distinct (Q q)" "a \<in> set P \<Longrightarrow> a \<notin> set (Q q)"
    "a \<in> set (Q q) \<Longrightarrow> a \<in> set (Q q') \<Longrightarrow> q = q'"
  using assms unfolding owners_def by blast+

text \<open>Moving the first pool element to the end of queue \<open>q\<close>.\<close>

lemma owners_add: "owners (a # P) Q \<Longrightarrow> owners P (Q(q := Q q @ [a]))"
  unfolding owners_def by (auto simp: disjoint_iff)

lemma owners_remove: "owners P Q \<Longrightarrow> Q q = xs @ a # ys \<Longrightarrow> owners (a # P) (Q(q := xs @ ys))"
proof -
  assume o: "owners P Q" and eq: "Q q = xs @ a # ys"
  have "distinct (xs @ a # ys)" using ownersD(2) [OF o, of q] eq by simp
  moreover have "set (xs @ ys) \<subseteq> set (Q q)" "a \<in> set (Q q)" using eq by auto
  ultimately show ?thesis using o unfolding owners_def by (auto simp: disjoint_iff)
qed

lemma entry_cong: "v_dt v' a = v_dt v a \<Longrightarrow> entry v' a = entry v a"
  by (simp add: entry_def)

lemma dioq_inv_add:
  assumes inv: "dioq_inv v (a # P) Q" and q: "v_q v q = Some (BC_LINK_DIOQ_SIG, c, r, b)"
    and v': "v_dt v' = (v_dt v)(a \<mapsto> (Some d, t))"
      "v_fl v' = (v_fl v)(Elem a := Some (Sent q), last_of (Sent q) (Q q) := Some (Elem a))"
      "v_bl v' = (v_bl v)(Elem a := Some (last_of (Sent q) (Q q)), Sent q := Some (Elem a))"
      "v_q v' = (v_q v)(q \<mapsto> (BC_LINK_DIOQ_SIG, c + 1, r, b))" "v_pool v' = v_fl v (Elem a)"
  shows "dioq_inv v' P (Q(q := Q q @ [a]))"
    "map (entry v') ((Q(q := Q q @ [a])) p) = ((\<lambda>x. map (entry v) (Q x))(q := map (entry v) (Q q) @ [(t, d)])) p"
proof -
  note D = dioq_invD [OF inv] and O = ownersD [OF dioq_invD(1) [OF inv]]
  have val: "q_valid v q" using q by blast
  let ?l = "last_of (Sent q) (Q q)"
  have ring: "ring_ok v q (Q q)" using D(4) [OF val] .
  then have c: "c = word_of_nat (length (Q q))" and s: "seg (v_fl v) (v_bl v) (Sent q) (Q q) (Sent q)"
    using q by (auto simp: ring_ok_def)
  have aq: "a \<notin> set (Q p)" for p using O(3) [of a p] by simp
  have l_not_other: "?l \<noteq> Elem x" if "x \<in> set (Q p)" "p \<noteq> q" for x p
    using O(4) [OF that(1), of q] that by (auto simp: last_of_def)
  have l_not_pool: "Elem x \<noteq> ?l" if "x \<in> set P" for x
    using O(3) [of x q] that by (auto simp: last_of_def)
  have new: "ring_ok v' q (Q q @ [a])"
    using ring_append [OF s O(2) aq v'(2,3)] v'(4) c by (simp add: ring_ok_def)
  have other: "ring_ok v' p (Q p)" if "q_valid v p" "p \<noteq> q" for p
    using D(4) [OF that(1)]
    by (rule ring_ok_cong)
      (use v' aq l_not_other [OF _ that(2)] that(2) in \<open>auto simp: last_of_def split: if_splits\<close>)
  have pool: "pool_seg (v_fl v') (v_pool v') P"
    using D(2) unfolding v'(5) pool_seg.simps
    by (auto elim!: pool_seg_cong) (use O(1) v'(2) l_not_pool in auto)
  have dt: "\<exists>d t. v_dt v' x = Some (Some d, t)" if "x \<in> set ((Q(q := Q q @ [a])) p)" for x p
    using that D(6) [of x p] D(6) [of x q] v'(1) by (auto split: if_splits)
  have valid': "q_valid v' p \<longleftrightarrow> q_valid v p" for p using v'(4) val by auto
  show "dioq_inv v' P (Q(q := Q q @ [a]))"
    unfolding dioq_inv_def valid'
    using owners_add [OF D(1)] pool new other dt D(3,5) v'(1) val by auto
  show "map (entry v') ((Q(q := Q q @ [a])) p) = ((\<lambda>x. map (entry v) (Q x))(q := map (entry v) (Q q) @ [(t, d)])) p"
    using v'(1) aq by (auto simp: entry_def split: if_splits)
qed


lemma dioq_inv_remove:
  assumes inv: "dioq_inv v P Q" and q: "v_q v q = Some (BC_LINK_DIOQ_SIG, c, r, b)"
    and eq: "Q q = xs @ a # ys"
    and v': "v_dt v' = v_dt v"
      "v_fl v' = (v_fl v)(last_of (Sent q) xs := Some (first_of ys (Sent q)), Elem a := v_pool v)"
      "\<And>x. x \<noteq> Elem a \<Longrightarrow> v_bl v' x = ((v_bl v)(first_of ys (Sent q) := Some (last_of (Sent q) xs))) x"
      "v_q v' = (v_q v)(q \<mapsto> (BC_LINK_DIOQ_SIG, c - 1, r, b))" "v_pool v' = Some (Elem a)"
  shows "dioq_inv v' (a # P) (Q(q := xs @ ys))"
    "map (entry v') ((Q(q := xs @ ys)) p) = ((\<lambda>x. map (entry v) (Q x))(q := map (entry v) (xs @ ys))) p"
proof -
  note D = dioq_invD [OF inv] and O = ownersD [OF dioq_invD(1) [OF inv]]
  have val: "q_valid v q" using q by blast
  let ?l = "last_of (Sent q) xs" and ?f = "first_of ys (Sent q)"
  have ring: "ring_ok v q (xs @ a # ys)" using D(4) [OF val] eq by simp
  then have c: "c = word_of_nat (length xs + length ys + 1)"
    and s: "seg (v_fl v) (v_bl v) (Sent q) (xs @ a # ys) (Sent q)"
    using q by (auto simp: ring_ok_def)
  have dist: "distinct (xs @ a # ys)" using O(2) [of q] eq by simp
  have lq: "?l \<in> insert (Sent q) (Elem ` set (Q q))" "?f \<in> insert (Sent q) (Elem ` set (Q q))"
    using eq by (auto simp: last_of_def first_of_def split: list.splits)
  have sq: "seg ((v_fl v)(?l := Some ?f)) ((v_bl v)(?f := Some ?l)) (Sent q) (xs @ ys) (Sent q)"
    using s dist by (rule ring_remove) auto
  have a_out: "a \<notin> set (xs @ ys)" using dist by simp
  have "seg (v_fl v') (v_bl v') (Sent q) (xs @ ys) (Sent q)"
  proof (rule seg_cong [OF sq])
    fix x assume "x \<in> insert (Sent q) (Elem ` set (xs @ ys))"
    then have "x \<noteq> Elem a" using a_out by auto
    then show "v_fl v' x = ((v_fl v)(?l := Some ?f)) x" "v_bl v' x = ((v_bl v)(?f := Some ?l)) x"
      using v'(2,3) by simp_all
  qed
  then have new: "ring_ok v' q (xs @ ys)" using v'(4) c by (simp add: ring_ok_def)
  have other: "ring_ok v' p (Q p)" if "q_valid v p" "p \<noteq> q" for p
  proof (rule ring_ok_cong [OF D(4) [OF that(1)]])
    show "v_q v' p = v_q v p" using v'(4) that(2) by simp
    fix x assume x: "x \<in> insert (Sent p) (Elem ` set (Q p))"
    then have "x \<notin> insert (Sent q) (Elem ` set (Q q))" using O(4) that(2) by auto
    moreover have "x \<noteq> Elem a" using x O(4) [of a q p] eq that(2) by auto
    ultimately have "x \<noteq> ?l" "x \<noteq> ?f" "x \<noteq> Elem a" using lq by metis+
    then show "v_fl v' x = v_fl v x \<and> v_bl v' x = v_bl v x" using v'(2,3) by simp
  qed
  have "Elem x \<noteq> ?l \<and> x \<noteq> a" if "x \<in> set P" for x
    using O(3) [OF that, of q] lq eq by auto
  then have pool: "pool_seg (v_fl v') (v_pool v') (a # P)"
    using pool_seg_cong [OF D(2), of "v_fl v'"] v'(2,5) by auto
  have valid': "q_valid v' p \<longleftrightarrow> q_valid v p" for p using v'(4) val by auto
  have sub: "set ((Q(q := xs @ ys)) p) \<subseteq> set (Q p)" for p using eq by auto
  have adt: "v_dt v a \<noteq> None" using D(6) [of a q] eq by auto
  show "dioq_inv v' (a # P) (Q(q := xs @ ys))"
    unfolding dioq_inv_def valid' v'(1)
  proof (intro conjI allI impI ballI)
    show "owners (a # P) (Q(q := xs @ ys))" using owners_remove [OF D(1) eq] .
    show "v_dt v x \<noteq> None" if "x \<in> set (a # P)" for x using that D(3) adt by auto
    show "\<exists>d t. v_dt v x = Some (Some d, t)" if "x \<in> set ((Q(q := xs @ ys)) p)" for x p
      using D(6) sub that by blast
  qed (use pool new other D(5) val in auto)
  show "map (entry v') ((Q(q := xs @ ys)) p) = ((\<lambda>x. map (entry v) (Q x))(q := map (entry v) (xs @ ys))) p"
    using v'(1) by (simp add: entry_def)
qed


section \<open>Refinement of the operations\<close>

text \<open>
  The abstract state gives every queue its list of (tag, data) entries and counts the free
  elements. The four operations on a valid queue implement: append if an element is free, take the
  head, take the first entry with a tag.
\<close>

definition dioq_valid :: "dioq_heap \<Rightarrow> nat \<Rightarrow> bool" where
  "dioq_valid h q \<longleftrightarrow> queue_of h (Some q) \<noteq> None"

lemma dioq_valid_view: "dioq_valid h q \<longleftrightarrow> q_valid (view h) q"
  using queue_of_view [of h q] unfolding dioq_valid_def .

lemma dioq_repE:
  assumes "dioq_rep h A n"
  obtains P Q where "dioq_inv (view h) P Q" "n = length P" "\<And>q. A q = map (entry (view h)) (Q q)"
  using assms unfolding dioq_rep_def by blast

lemma dioq_repI:
  "dioq_inv (view h) P Q \<Longrightarrow> n = length P \<Longrightarrow> (\<And>q. A q = map (entry (view h)) (Q q)) \<Longrightarrow> dioq_rep h A n"
  unfolding dioq_rep_def by blast

lemma dioq_add_ok:
  assumes rep: "dioq_rep h A (Suc n)" and val: "dioq_valid h q"
  shows "\<exists>h'. crystalhd_dioq_add (Some q) (Some d) wake tag h = Some (BC_STS_SUCCESS, h') \<and>
    dioq_rep h' (A(q := A q @ [(tag, d)])) n \<and> (\<forall>p. dioq_valid h' p = dioq_valid h p)"
proof -
  from rep obtain P Q a where inv: "dioq_inv (view h) (a # P) Q" and n: "n = length P"
    and A: "\<And>q. A q = map (entry (view h)) (Q q)"
    by (elim dioq_repE) (metis length_Suc_conv)
  obtain c r b where q: "v_q (view h) q = Some (BC_LINK_DIOQ_SIG, c, r, b)"
    using val by (auto simp: dioq_valid_view)
  then have qv: "q_valid (view h) q" by blast
  have pool: "v_pool (view h) = Some (Elem a)" "v_dt (view h) a \<noteq> None"
    using dioq_invD(2,3) [OF inv] by simp_all
  then obtain h1 where h1: "crystalhd_alloc_elem h = Some (h1, Some a)"
    "view h1 = (view h)\<lparr>v_pool := get_flink h (Elem a), v_dt := (v_dt (view h))(a \<mapsto> (None, 0)),
       v_fl := (get_flink h)(Elem a := None), v_bl := (get_blink h)(Elem a := None)\<rparr>"
    by (rule alloc_elem_view)
  have a1: "v_dt (view h1) a = Some (None, 0)" using h1(2) by simp
  obtain h2 where h2: "upd_elem a (\<lambda>e. e\<lparr>el_data := Some d\<rparr>) h1 = Some h2"
    "view h2 = (view h1)\<lparr>v_dt := (v_dt (view h1))(a \<mapsto> (Some d, 0))\<rparr>"
    by (rule upd_elem_data_view [OF a1, where f = "\<lambda>e. e\<lparr>el_data := Some d\<rparr>" and fd = "\<lambda>_. Some d" and ft = id])
      simp_all
  let ?l = "last_of (Sent q) (Q q)"
  have la: "?l \<noteq> Elem a" using ownersD(3) [OF dioq_invD(1) [OF inv], of a q] by (auto simp: last_of_def)
  note R = ring_last_ok [OF inv qv]
  have q2: "v_q (view h2) q = Some (BC_LINK_DIOQ_SIG, c, r, b)" using q h1(2) h2(2) by simp
  have a2: "v_dt (view h2) a = Some (Some d, 0)" using h2(2) by simp
  have b2: "get_blink h2 = (get_blink h)(Elem a := None)" "get_flink h2 = (get_flink h)(Elem a := None)"
    using view_eqD(1,2) [OF h2(2)] view_eqD(1,2) [OF h1(2)] by simp_all
  have t2: "get_blink h2 (Sent q) = Some ?l" using R(2) b2 by simp
  have l2: "node_ok (view h2) ?l" using R(1) la h1(2) h2(2) by (cases ?l) auto
  obtain h3 where h3: "crystalhd_dioq_add_elem q a wake tag h2 = Some h3"
    "view h3 = (view h2)\<lparr>v_dt := (v_dt (view h2))(a \<mapsto> (Some d, tag)),
       v_fl := (get_flink h2)(Elem a := Some (Sent q), ?l := Some (Elem a)),
       v_bl := (get_blink h2)(Elem a := Some ?l, Sent q := Some (Elem a)),
       v_q := (v_q (view h2))(q \<mapsto> (BC_LINK_DIOQ_SIG, c + 1, r, b)),
       v_poll := (if r then c + 1 else h_rx_poll_ready h2),
       v_log := h_log h2 @ (if wake then [Wake_Queue q] else []) @
                (if r \<and> c = 0 then [Wake_Rx_Poll] else [])\<rparr>"
    using q2 a2 t2 l2 by (rule add_elem_view)
  have v3: "v_dt (view h3) = (v_dt (view h))(a \<mapsto> (Some d, tag))"
    "v_fl (view h3) = (v_fl (view h))(Elem a := Some (Sent q), ?l := Some (Elem a))"
    "v_bl (view h3) = (v_bl (view h))(Elem a := Some ?l, Sent q := Some (Elem a))"
    "v_q (view h3) = (v_q (view h))(q \<mapsto> (BC_LINK_DIOQ_SIG, c + 1, r, b))"
    "v_pool (view h3) = v_fl (view h) (Elem a)"
    unfolding h3(2) h2(2) h1(2) b2 by (simp_all add: view_eqD(3) [OF h3(2)] del: view_sel) simp_all
  have "queue_of h (Some q) \<noteq> None" using val by (simp add: dioq_valid_def)
  then obtain dq where "queue_of h (Some q) = Some (q, dq)" by (auto dest: queue_of_head(1))
  then have "crystalhd_dioq_add (Some q) (Some d) wake tag h = Some (BC_STS_SUCCESS, h3)"
    using h1(1) h2(1) h3(1) by (simp add: crystalhd_dioq_add_def)
  moreover have "dioq_rep h3 (A(q := A q @ [(tag, d)])) n"
    by (rule dioq_repI [OF dioq_inv_add(1) [OF inv q v3] n])
      (use dioq_inv_add(2) [OF inv q v3] A in \<open>simp add: fun_upd_def\<close>)
  moreover have "dioq_valid h3 p = dioq_valid h p" for p
    using v3(4) qv by (auto simp: dioq_valid_view)
  ultimately show ?thesis by blast
qed


lemma dioq_valid_queue_of:
  assumes "dioq_valid h q"
  obtains d where "queue_of h (Some q) = Some (q, d)"
  using assms unfolding dioq_valid_def by (auto dest: queue_of_head(1))

lemma dioq_add_full:
  assumes "dioq_rep h A 0" "dioq_valid h q"
  shows "crystalhd_dioq_add (Some q) (Some d) wake tag h = Some (BC_STS_INSUFF_RES, h)"
proof -
  have "h_pool h = None" using assms(1) by (auto elim!: dioq_repE dest: dioq_invD(2))
  with assms(2) show ?thesis
    by (elim dioq_valid_queue_of) (simp add: crystalhd_dioq_add_def crystalhd_alloc_elem_def)
qed

text \<open>Unlinking an element of a valid ring and giving it back, with any detaching in between.\<close>

lemma dioq_unlink_retire:
  assumes inv: "dioq_inv (view h) P Q" and q: "v_q (view h) q = Some (BC_LINK_DIOQ_SIG, c, r, b)"
    and eq: "Q q = xs @ a # ys"
  obtains h1 d t where "unlink_elem q a h = Some h1" "v_dt (view h) a = Some (Some d, t)"
    "v_dt (view h1) = v_dt (view h)" "v_pool (view h1) = v_pool (view h)"
    "v_fl (view h1) = (v_fl (view h))(last_of (Sent q) xs := Some (first_of ys (Sent q)))"
    "v_bl (view h1) = (v_bl (view h))(first_of ys (Sent q) := Some (last_of (Sent q) xs))"
    "v_q (view h1) = (v_q (view h))(q \<mapsto> (BC_LINK_DIOQ_SIG, c - 1, r, b))"
proof -
  note D = dioq_invD [OF inv] and O = ownersD [OF dioq_invD(1) [OF inv]]
  let ?l = "last_of (Sent q) xs" and ?f = "first_of ys (Sent q)"
  have qv: "q_valid (view h) q" using q by blast
  have s: "seg (v_fl (view h)) (v_bl (view h)) (Sent q) xs (Elem a)"
    "seg (v_fl (view h)) (v_bl (view h)) (Elem a) ys (Sent q)"
    using D(4) [OF qv] eq by (simp_all add: ring_ok_def seg_append)
  have links: "get_flink h (Elem a) = Some ?f" "get_blink h (Elem a) = Some ?l"
    using seg_ends [OF s(1)] seg_ends [OF s(2)] by simp_all
  have dt: "\<exists>d t. v_dt (view h) x = Some (Some d, t)" if "x \<in> set xs \<or> x = a \<or> x \<in> set ys" for x
    using D(6) [of x q] eq that by auto
  have f: "node_ok (view h) ?f" using qv dt [of "hd ys"] by (cases ys) (auto simp: first_of_def)
  have l: "node_ok (view h) ?l"
    using qv dt [of "last xs"] by (cases "xs = []") (auto simp: last_of_def)
  have fa: "?f \<noteq> Elem a" using O(2) [of q] eq by (auto simp: first_of_def split: list.splits)
  obtain h1 where h1: "unlink_elem q a h = Some h1"
    "view h1 = (view h)\<lparr>v_bl := (get_blink h)(?f := Some ?l), v_fl := (get_flink h)(?l := Some ?f),
       v_q := (v_q (view h))(q \<mapsto> (BC_LINK_DIOQ_SIG, c - 1, r, b)),
       v_poll := (if r then c - 1 else h_rx_poll_ready h)\<rparr>"
    using q links f l fa by (rule unlink_elem_view)
  obtain d t where "v_dt (view h) a = Some (Some d, t)" using dt by blast
  with h1(1) show ?thesis
    by (rule that) (simp_all add: h1(2) view_eqD(1,2) [of h, OF refl] del: view_sel)
qed

lemma dioq_rep_remove:
  assumes inv: "dioq_inv (view h) P Q" and q: "v_q (view h) q = Some (BC_LINK_DIOQ_SIG, c, r, b)"
    and eq: "Q q = xs @ a # ys" and A: "\<And>q. A q = map (entry (view h)) (Q q)"
    and v': "v_dt (view h') = v_dt (view h)"
      "v_fl (view h') = (v_fl (view h))(last_of (Sent q) xs := Some (first_of ys (Sent q)), Elem a := v_pool (view h))"
      "\<And>x. x \<noteq> Elem a \<Longrightarrow> v_bl (view h') x =
        ((v_bl (view h))(first_of ys (Sent q) := Some (last_of (Sent q) xs))) x"
      "v_q (view h') = (v_q (view h))(q \<mapsto> (BC_LINK_DIOQ_SIG, c - 1, r, b))"
      "v_pool (view h') = Some (Elem a)"
  shows "dioq_rep h' (A(q := map (entry (view h)) (xs @ ys))) (Suc (length P)) \<and>
    (\<forall>p. dioq_valid h' p = dioq_valid h p)"
proof
  show "dioq_rep h' (A(q := map (entry (view h)) (xs @ ys))) (Suc (length P))"
    by (rule dioq_repI [OF dioq_inv_remove(1) [OF inv q eq v']])
      (use dioq_inv_remove(2) [OF inv q eq v'] A in \<open>simp_all add: fun_upd_def\<close>)
  show "\<forall>p. dioq_valid h' p = dioq_valid h p"
    using v'(4) q by (auto simp: dioq_valid_view)
qed

lemma dioq_fetch_empty:
  assumes "dioq_rep h A n" "dioq_valid h q" "A q = []"
  shows "crystalhd_dioq_fetch (Some q) h = Some (h, None)"
proof -
  from assms obtain P Q where inv: "dioq_inv (view h) P Q" and e: "Q q = []"
    by (auto elim: dioq_repE)
  obtain d where d: "queue_of h (Some q) = Some (q, d)" using assms(2) by (rule dioq_valid_queue_of)
  have "q_valid (view h) q" using assms(2) by (simp add: dioq_valid_view)
  from ring_last_ok(3) [OF inv this] e have "get_flink h (Sent q) = Some (Sent q)"
    by (simp add: first_of_def)
  with d show ?thesis
    by (simp add: crystalhd_dioq_fetch_def crystalhd_dioq_fetch_elem_def queue_of_head(2) [OF d]
        retire_elem_def)
qed

lemma dioq_fetch_cons:
  assumes rep: "dioq_rep h A n" and val: "dioq_valid h q" and Aq: "A q = (t, d) # es"
  shows "\<exists>h'. crystalhd_dioq_fetch (Some q) h = Some (h', Some d) \<and>
    dioq_rep h' (A(q := es)) (Suc n) \<and> (\<forall>p. dioq_valid h' p = dioq_valid h p)"
proof -
  from rep obtain P Q where inv: "dioq_inv (view h) P Q" and n: "n = length P"
    and A: "\<And>q. A q = map (entry (view h)) (Q q)" by (auto elim: dioq_repE)
  from Aq A [of q] obtain a ys where eq: "Q q = [] @ a # ys" and ea: "entry (view h) a = (t, d)"
    and es: "map (entry (view h)) ys = es" by auto
  obtain dq where dq: "queue_of h (Some q) = Some (q, dq)" using val by (rule dioq_valid_queue_of)
  obtain c r b where q: "v_q (view h) q = Some (BC_LINK_DIOQ_SIG, c, r, b)"
    using val by (auto simp: dioq_valid_view)
  have qv: "q_valid (view h) q" using q by blast
  have hd: "q_head dq = Some (Elem a)"
    using ring_last_ok(3) [OF inv qv] eq queue_of_head(2) [OF dq] by (simp add: first_of_def)
  obtain h1 d1 t1 where h1: "unlink_elem q a h = Some h1" "v_dt (view h) a = Some (Some d1, t1)"
    "v_dt (view h1) = v_dt (view h)" "v_pool (view h1) = v_pool (view h)"
    "v_fl (view h1) = (v_fl (view h))(last_of (Sent q) [] := Some (first_of ys (Sent q)))"
    "v_bl (view h1) = (v_bl (view h))(first_of ys (Sent q) := Some (last_of (Sent q) []))"
    "v_q (view h1) = (v_q (view h))(q \<mapsto> (BC_LINK_DIOQ_SIG, c - 1, r, b))"
    using inv q eq by (rule dioq_unlink_retire)
  have d1: "d1 = d" using ea h1(2) by (simp add: entry_def)
  have "node_ok (view h1) (Elem a)" using h1(2,3) by simp
  then obtain h2 where h2: "set_flink (Some (Elem a)) None h1 = Some h2"
    "view h2 = (view h1)\<lparr>v_fl := (get_flink h1)(Elem a := None)\<rparr>" by (rule set_flink_view)
  have "node_ok (view h2) (Elem a)" using h1(2,3) h2(2) by simp
  then obtain h3 where h3: "set_blink (Some (Elem a)) None h2 = Some h3"
    "view h3 = (view h2)\<lparr>v_bl := (get_blink h2)(Elem a := None)\<rparr>" by (rule set_blink_view)
  have "v_dt (view h3) a = Some (Some d, t1)" using h1(2,3) h2(2) h3(2) d1 by simp
  then obtain h4 where h4: "retire_elem (Some a) h3 = Some (h4, Some d)"
    "view h4 = (view h3)\<lparr>v_fl := (get_flink h3)(Elem a := h_pool h3), v_pool := Some (Elem a)\<rparr>"
    by (rule retire_elem_view)
  have "crystalhd_dioq_fetch (Some q) h = Some (h4, Some d)"
    using dq hd h1(1) h2(1) h3(1) h4(1)
    by (simp add: crystalhd_dioq_fetch_def crystalhd_dioq_fetch_elem_def)
  moreover have "dioq_rep h4 (A(q := map (entry (view h)) ([] @ ys))) (Suc (length P)) \<and>
      (\<forall>p. dioq_valid h4 p = dioq_valid h p)"
    by (rule dioq_rep_remove [OF inv q eq A])
      (use h1(3-7) view_eqD [OF h3(2)] view_eqD [OF h2(2)]
        view_eqD(1) [of h1, OF refl] in \<open>auto simp: h4(2) h3(2) h2(2) simp del: view_sel\<close>)
  ultimately show ?thesis using es n by auto
qed


text \<open>The search stops at the first element of the ring that carries the tag.\<close>

lemma find_tag_seg:
  assumes "seg (v_fl (view h)) (v_bl (view h)) p xs (Sent q)"
    "\<And>x. x \<in> set xs \<Longrightarrow> \<exists>d t. v_dt (view h) x = Some (Some d, t)"
  shows "find_tag h q tag (v_fl (view h) p) = Some (find (\<lambda>x. fst (entry (view h) x) = tag) xs)"
  using assms
proof (induction xs arbitrary: p)
  case Nil
  then show ?case by (simp add: find_tag.simps)
next
  case (Cons x xs)
  from Cons.prems(2) [of x] obtain d t e where e: "v_dt (view h) x = Some (Some d, t)"
    "h_elems h x = Some e" "el_tag e = t" by (auto simp: view_def)
  have "v_fl (view h) (Elem x) = el_flink e" using e(2) by (simp add: get_flink_def)
  moreover have "find_tag h q tag (v_fl (view h) (Elem x)) =
      Some (find (\<lambda>x. fst (entry (view h) x) = tag) xs)"
    using Cons by simp
  moreover have "v_fl (view h) p = Some (Elem x)" using Cons.prems(1) by simp
  ultimately show ?case using e
    by (subst find_tag.simps) (simp add: elem_addr_def entry_def del: view_sel)
qed

lemma find_Some_split: "find p xs = Some x \<Longrightarrow> \<exists>ys zs. xs = ys @ x # zs \<and> p x \<and> (\<forall>y \<in> set ys. \<not> p y)"
proof (induction xs)
  case (Cons a xs)
  show ?case
  proof (cases "p a")
    case True
    then show ?thesis using Cons.prems by (intro exI [of _ "[]"] exI [of _ xs]) auto
  next
    case False
    then obtain ys zs where "xs = ys @ x # zs" "p x" "\<forall>y \<in> set ys. \<not> p y" using Cons by auto
    with False show ?thesis by (intro exI [of _ "a # ys"] exI [of _ zs]) auto
  qed
qed simp

definition take_tag :: "u32 \<Rightarrow> (u32 \<times> nat) list \<Rightarrow> (nat \<times> (u32 \<times> nat) list) option" where
  "take_tag tag es = (case find (\<lambda>e. fst e = tag) es of None \<Rightarrow> None
     | Some e \<Rightarrow> Some (snd e, remove1 e es))"

lemma find_map_entry:
  "find (\<lambda>e. fst e = tag) (map f xs) = map_option f (find (\<lambda>x. fst (f x) = tag) xs)"
  by (induction xs) auto

lemma dioq_find_none:
  assumes rep: "dioq_rep h A n" and val: "dioq_valid h q" and none: "take_tag tag (A q) = None"
  shows "crystalhd_dioq_find_and_fetch (Some q) tag h = Some (h, None)"
proof -
  from rep obtain P Q where inv: "dioq_inv (view h) P Q" and A: "A q = map (entry (view h)) (Q q)"
    by (auto elim: dioq_repE)
  obtain d where d: "queue_of h (Some q) = Some (q, d)" using val by (rule dioq_valid_queue_of)
  have qv: "q_valid (view h) q" using val by (simp add: dioq_valid_view)
  have s: "seg (v_fl (view h)) (v_bl (view h)) (Sent q) (Q q) (Sent q)"
    using dioq_invD(4) [OF inv qv] by (simp add: ring_ok_def)
  have "find (\<lambda>x. fst (entry (view h) x) = tag) (Q q) = None"
    using none A by (simp add: take_tag_def find_map_entry split: option.splits)
  then have "find_tag h q tag (get_flink h (Sent q)) = Some None"
    using find_tag_seg [OF s dioq_invD(6) [OF inv], where tag = tag] by simp
  with d show ?thesis
    by (simp add: crystalhd_dioq_find_and_fetch_def queue_of_head(2) [OF d] retire_elem_def)
qed

lemma dioq_find_some:
  assumes rep: "dioq_rep h A n" and val: "dioq_valid h q" and some: "take_tag tag (A q) = Some (d, es)"
  shows "\<exists>h'. crystalhd_dioq_find_and_fetch (Some q) tag h = Some (h', Some d) \<and>
    dioq_rep h' (A(q := es)) (Suc n) \<and> (\<forall>p. dioq_valid h' p = dioq_valid h p)"
proof -
  from rep obtain P Q where inv: "dioq_inv (view h) P Q" and n: "n = length P"
    and A: "\<And>q. A q = map (entry (view h)) (Q q)" by (auto elim: dioq_repE)
  obtain dq where dq: "queue_of h (Some q) = Some (q, dq)" using val by (rule dioq_valid_queue_of)
  obtain c r b where q: "v_q (view h) q = Some (BC_LINK_DIOQ_SIG, c, r, b)"
    using val by (auto simp: dioq_valid_view)
  have qv: "q_valid (view h) q" using q by blast
  have s: "seg (v_fl (view h)) (v_bl (view h)) (Sent q) (Q q) (Sent q)"
    using dioq_invD(4) [OF inv qv] by (simp add: ring_ok_def)
  from some A [of q] obtain a where f: "find (\<lambda>x. fst (entry (view h) x) = tag) (Q q) = Some a"
    and d: "d = snd (entry (view h) a)" and es0: "es = remove1 (entry (view h) a) (A q)"
    by (auto simp: take_tag_def find_map_entry split: option.splits)
  obtain xs ys where eq: "Q q = xs @ a # ys" and tg: "fst (entry (view h) a) = tag"
    and no: "\<forall>x \<in> set xs. fst (entry (view h) x) \<noteq> tag"
    using find_Some_split [OF f] by blast
  have "entry (view h) a \<notin> set (map (entry (view h)) xs)" using tg no by auto
  then have es: "es = map (entry (view h)) (xs @ ys)"
    using es0 A [of q] eq by (simp add: remove1_append)
  have ft: "find_tag h q tag (get_flink h (Sent q)) = Some (Some a)"
    using find_tag_seg [OF s dioq_invD(6) [OF inv], where tag = tag] f by simp
  obtain h1 d1 t1 where h1: "unlink_elem q a h = Some h1" "v_dt (view h) a = Some (Some d1, t1)"
    "v_dt (view h1) = v_dt (view h)" "v_pool (view h1) = v_pool (view h)"
    "v_fl (view h1) = (v_fl (view h))(last_of (Sent q) xs := Some (first_of ys (Sent q)))"
    "v_bl (view h1) = (v_bl (view h))(first_of ys (Sent q) := Some (last_of (Sent q) xs))"
    "v_q (view h1) = (v_q (view h))(q \<mapsto> (BC_LINK_DIOQ_SIG, c - 1, r, b))"
    using inv q eq by (rule dioq_unlink_retire)
  have "v_dt (view h1) a = Some (Some d, t1)" using h1(2,3) d by (simp add: entry_def)
  then obtain h4 where h4: "retire_elem (Some a) h1 = Some (h4, Some d)"
    "view h4 = (view h1)\<lparr>v_fl := (get_flink h1)(Elem a := h_pool h1), v_pool := Some (Elem a)\<rparr>"
    by (rule retire_elem_view)
  have "crystalhd_dioq_find_and_fetch (Some q) tag h = Some (h4, Some d)"
    using dq ft h1(1) h4(1) by (simp add: crystalhd_dioq_find_and_fetch_def queue_of_head(2) [OF dq])
  moreover have "dioq_rep h4 (A(q := map (entry (view h)) (xs @ ys))) (Suc (length P)) \<and>
      (\<forall>p. dioq_valid h4 p = dioq_valid h p)"
    by (rule dioq_rep_remove [OF inv q eq A])
      (use h1(3-7) view_eqD(1,3) [of h1, OF refl] in \<open>auto simp: h4(2) simp del: view_sel\<close>)
  ultimately show ?thesis using es n by auto
qed


section \<open>The queue contract\<close>

text \<open>
  What the rest of the driver relies on: a family of FIFO queues that draw from one supply of free
  elements. \<open>rep s A n\<close> says that state \<open>s\<close> holds the queues \<open>A\<close> with \<open>n\<close> elements free.
\<close>

locale dio_queues =
  fixes rep :: "'s \<Rightarrow> (nat \<Rightarrow> (u32 \<times> nat) list) \<Rightarrow> nat \<Rightarrow> bool"
    and valid :: "'s \<Rightarrow> nat \<Rightarrow> bool"
    and add :: "nat option \<Rightarrow> nat option \<Rightarrow> bool \<Rightarrow> u32 \<Rightarrow> 's \<Rightarrow> (bc_status \<times> 's) option"
    and fetch :: "nat option \<Rightarrow> 's \<Rightarrow> ('s \<times> nat option) option"
    and find_fetch :: "nat option \<Rightarrow> u32 \<Rightarrow> 's \<Rightarrow> ('s \<times> nat option) option"
  assumes add_ok: "rep s A (Suc n) \<Longrightarrow> valid s q \<Longrightarrow>
      \<exists>s'. add (Some q) (Some d) wake tag s = Some (BC_STS_SUCCESS, s') \<and>
        rep s' (A(q := A q @ [(tag, d)])) n \<and> (\<forall>p. valid s' p = valid s p)"
    and add_full: "rep s A 0 \<Longrightarrow> valid s q \<Longrightarrow>
      add (Some q) (Some d) wake tag s = Some (BC_STS_INSUFF_RES, s)"
    and fetch_empty: "rep s A n \<Longrightarrow> valid s q \<Longrightarrow> A q = [] \<Longrightarrow> fetch (Some q) s = Some (s, None)"
    and fetch_cons: "rep s A n \<Longrightarrow> valid s q \<Longrightarrow> A q = (t, d) # es \<Longrightarrow>
      \<exists>s'. fetch (Some q) s = Some (s', Some d) \<and> rep s' (A(q := es)) (Suc n) \<and>
        (\<forall>p. valid s' p = valid s p)"
    and find_none: "rep s A n \<Longrightarrow> valid s q \<Longrightarrow> take_tag tag (A q) = None \<Longrightarrow>
      find_fetch (Some q) tag s = Some (s, None)"
    and find_some: "rep s A n \<Longrightarrow> valid s q \<Longrightarrow> take_tag tag (A q) = Some (d, es) \<Longrightarrow>
      \<exists>s'. find_fetch (Some q) tag s = Some (s', Some d) \<and> rep s' (A(q := es)) (Suc n) \<and>
        (\<forall>p. valid s' p = valid s p)"

text \<open>Two clients of the contract: add a list of entries, fetch a number of times.\<close>

fun add_entries ::
  "(nat option \<Rightarrow> nat option \<Rightarrow> bool \<Rightarrow> u32 \<Rightarrow> 's \<Rightarrow> (bc_status \<times> 's) option) \<Rightarrow> nat \<Rightarrow>
    (u32 \<times> nat) list \<Rightarrow> 's \<Rightarrow> (bc_status list \<times> 's) option" where
  "add_entries add q [] s = Some ([], s)"
| "add_entries add q ((t, d) # es) s = do {
     (st, s1) \<leftarrow> add (Some q) (Some d) True t s;
     (sts, s2) \<leftarrow> add_entries add q es s1;
     Some (st # sts, s2) }"

fun fetch_times ::
  "(nat option \<Rightarrow> 's \<Rightarrow> ('s \<times> nat option) option) \<Rightarrow> nat \<Rightarrow> nat \<Rightarrow> 's \<Rightarrow> (nat option list \<times> 's) option" where
  "fetch_times fetch q 0 s = Some ([], s)"
| "fetch_times fetch q (Suc k) s = do {
     (s1, v) \<leftarrow> fetch (Some q) s;
     (vs, s2) \<leftarrow> fetch_times fetch q k s1;
     Some (v # vs, s2) }"

context dio_queues
begin

lemma add_entries_ok:
  "rep s A (n + length es) \<Longrightarrow> valid s q \<Longrightarrow>
    \<exists>s'. add_entries add q es s = Some (replicate (length es) BC_STS_SUCCESS, s') \<and>
      rep s' (A(q := A q @ es)) n \<and> (\<forall>p. valid s' p = valid s p)"
proof (induction es arbitrary: s A)
  case (Cons e es)
  obtain t d where e: "e = (t, d)" by (cases e)
  from Cons.prems have "rep s A (Suc (n + length es))" by simp
  from add_ok [OF this Cons.prems(2), of d True t] obtain s1 where
    s1: "add (Some q) (Some d) True t s = Some (BC_STS_SUCCESS, s1)"
      "rep s1 (A(q := A q @ [(t, d)])) (n + length es)" "\<And>p. valid s1 p = valid s p" by blast
  from Cons.IH [OF s1(2), unfolded fun_upd_upd fun_upd_same append.assoc append_Cons append_Nil]
    s1(3) Cons.prems(2) obtain s2 where
    "add_entries add q es s1 = Some (replicate (length es) BC_STS_SUCCESS, s2)"
    "rep s2 (A(q := A q @ (t, d) # es)) n" "\<And>p. valid s2 p = valid s1 p" by blast
  with s1 e show ?case by (auto simp del: fun_upd_apply)
qed (auto simp: fun_upd_idem)

lemma fetch_times_ok:
  "rep s A n \<Longrightarrow> valid s q \<Longrightarrow> A q = es @ rest \<Longrightarrow>
    \<exists>s'. fetch_times fetch q (length es) s = Some (map (Some \<circ> snd) es, s') \<and>
      rep s' (A(q := rest)) (n + length es) \<and> (\<forall>p. valid s' p = valid s p)"
proof (induction es arbitrary: s A n)
  case (Cons e es)
  obtain t d where e: "e = (t, d)" by (cases e)
  with Cons.prems have "A q = (t, d) # (es @ rest)" by simp
  from fetch_cons [OF Cons.prems(1,2) this] obtain s1 where
    s1: "fetch (Some q) s = Some (s1, Some d)" "rep s1 (A(q := es @ rest)) (Suc n)"
      "\<And>p. valid s1 p = valid s p" by blast
  from Cons.IH [OF s1(2), unfolded fun_upd_upd fun_upd_same append.assoc append_Cons append_Nil]
    s1(3) Cons.prems(2) obtain s2 where
    "fetch_times fetch q (length es) s1 = Some (map (Some \<circ> snd) es, s2)"
    "rep s2 (A(q := rest)) (Suc n + length es)" "\<And>p. valid s2 p = valid s1 p" by blast
  with s1 e show ?case by (auto simp del: fun_upd_apply)
qed (auto simp: fun_upd_idem)

lemma fifo:
  assumes "rep s A (n + length es)" "valid s q" "A q = old"
  shows "\<exists>s1 s2. add_entries add q es s = Some (replicate (length es) BC_STS_SUCCESS, s1) \<and>
    fetch_times fetch q (length old + length es) s1 = Some (map (Some \<circ> snd) (old @ es), s2) \<and>
    rep s2 (A(q := [])) (n + length old + length es)"
proof -
  from add_entries_ok [OF assms(1,2)] obtain s1 where
    s1: "add_entries add q es s = Some (replicate (length es) BC_STS_SUCCESS, s1)"
      "rep s1 (A(q := A q @ es)) n" "\<And>p. valid s1 p = valid s p" by blast
  from fetch_times_ok [OF s1(2), of q "old @ es" "[]"] s1(3) assms(2,3)
  show ?thesis using s1(1) by (auto simp: add.assoc)
qed

end

interpretation dioq: dio_queues dioq_rep dioq_valid crystalhd_dioq_add crystalhd_dioq_fetch
  crystalhd_dioq_find_and_fetch
  by unfold_locales
    (blast intro: dioq_add_ok dioq_add_full dioq_fetch_empty dioq_fetch_cons dioq_find_none dioq_find_some)+


section \<open>Draining and the pool\<close>

lemma dioq_rep_log [simp]: "dioq_rep (log_event ev h) A n = dioq_rep h A n"
  "dioq_valid (log_event ev h) q = dioq_valid h q"
proof -
  have "ring_ok (v\<lparr>v_log := l\<rparr>) q xs = ring_ok v q xs" for v l q xs by (simp add: ring_ok_def)
  then have "dioq_inv (v\<lparr>v_log := l\<rparr>) P Q = dioq_inv v P Q" for v l P Q by (simp add: dioq_inv_def)
  moreover have "entry (v\<lparr>v_log := l\<rparr>) = entry v" for v l by (simp add: entry_def fun_eq_iff)
  ultimately show "dioq_rep (log_event ev h) A n = dioq_rep h A n" by (simp add: dioq_rep_def)
  show "dioq_valid (log_event ev h) q = dioq_valid h q" by (simp add: dioq_valid_view)
qed

lemma set_link_log:
  "set_flink p v h = Some h' \<Longrightarrow> h_log h' = h_log h" "set_blink p v h = Some h' \<Longrightarrow> h_log h' = h_log h"
  "bump_count q k h = Some h' \<Longrightarrow> h_log h' = h_log h"
  by (auto simp: set_flink_def set_blink_def bump_count_def upd_elem_def upd_queue_def
      bind_eq_Some_conv split: option.splits ref.splits if_splits)

lemma unlink_log: "unlink_elem q a h = Some h' \<Longrightarrow> h_log h' = h_log h"
  by (auto simp: unlink_elem_def bind_eq_Some_conv dest!: set_link_log)

lemma retire_log: "retire_elem r h = Some (h', v) \<Longrightarrow> h_log h' = h_log h"
  by (cases r) (auto simp: retire_elem_def crystalhd_free_elem_def bind_eq_Some_conv dest!: set_link_log)

lemma fetch_elem_log:
  assumes "crystalhd_dioq_fetch_elem ioq h = Some (h', r)"
  shows "h_log h' = h_log h"
proof (cases "queue_of h ioq")
  case (Some qd)
  obtain q d where qd: "qd = (q, d)" by (cases qd)
  show ?thesis
  proof (cases "q_head d = Some (Sent q)")
    case False
    with assms Some qd obtain a h1 h2 where "unlink_elem q a h = Some h1"
      "set_flink (Some (Elem a)) None h1 = Some h2" "set_blink (Some (Elem a)) None h2 = Some h'"
      by (auto simp: crystalhd_dioq_fetch_elem_def bind_eq_Some_conv split: option.splits ref.splits)
    then show ?thesis using unlink_log set_link_log by metis
  qed (use assms Some qd in \<open>simp add: crystalhd_dioq_fetch_elem_def\<close>)
qed (use assms in \<open>simp add: crystalhd_dioq_fetch_elem_def\<close>)

lemma fetch_log:
  assumes "crystalhd_dioq_fetch ioq h = Some (h', v)"
  shows "h_log h' = h_log h"
  using assms
  by (auto simp: crystalhd_dioq_fetch_def bind_eq_Some_conv dest!: fetch_elem_log retire_log)

lemma drain_ok:
  assumes "dioq_rep h A n" "dioq_valid h q"
  shows "\<exists>h'. drain_dioq q cb h = Some h' \<and> dioq_rep h' (A(q := [])) (n + length (A q)) \<and>
    (\<forall>p. dioq_valid h' p = dioq_valid h p) \<and>
    h_log h' = h_log h @ (if cb then map (\<lambda>e. Release_Cb q (snd e)) (A q) else [])"
  using assms
proof (induction "A q" arbitrary: h A n)
  case Nil
  from dioq.fetch_empty [OF Nil(2,3)] Nil show ?case
    by (subst drain_dioq.simps) (simp add: fun_upd_idem)
next
  case (Cons e es)
  obtain t d where e: "e = (t, d)" by (cases e)
  with Cons have Aq: "A q = (t, d) # es" by simp
  from dioq.fetch_cons [OF Cons(3,4) Aq] obtain h1 where
    h1: "crystalhd_dioq_fetch (Some q) h = Some (h1, Some d)" "dioq_rep h1 (A(q := es)) (Suc n)"
      "\<And>p. dioq_valid h1 p = dioq_valid h p" by blast
  let ?h2 = "if cb then log_event (Release_Cb q d) h1 else h1"
  have "dioq_rep ?h2 (A(q := es)) (Suc n)" "dioq_valid ?h2 q"
    using h1 Cons(4) by simp_all
  from Cons(1) [OF _ this] obtain h' where
    h': "drain_dioq q cb ?h2 = Some h'" "dioq_rep h' (A(q := [])) (Suc n + length es)"
      "\<And>p. dioq_valid h' p = dioq_valid ?h2 p"
      "h_log h' = h_log ?h2 @ (if cb then map (\<lambda>e. Release_Cb q (snd e)) es else [])"
    by (auto simp del: fun_upd_apply simp: fun_upd_same)
  have "drain_dioq q cb h = Some h'"
    by (subst drain_dioq.simps) (simp add: h1(1) h'(1))
  moreover have "h_log h' = h_log h @ (if cb then map (\<lambda>e. Release_Cb q (snd e)) (A q) else [])"
    using h'(4) fetch_log [OF h1(1)] Aq by simp
  moreover have "\<forall>p. dioq_valid h' p = dioq_valid h p" using h'(3) h1(3) by simp
  ultimately show ?case using h'(2) Aq by auto
qed


text \<open>Removing an empty queue's header, and the poll counter, do not concern the other queues.\<close>

lemma dioq_inv_drop_queue:
  assumes inv: "dioq_inv v P Q" and "Q q = []"
    and v': "v_fl v' = (v_fl v)(Sent q := None)" "v_bl v' = (v_bl v)(Sent q := None)"
      "v_dt v' = v_dt v" "v_q v' = (v_q v)(q := None)" "v_pool v' = v_pool v"
  shows "dioq_inv v' P Q"
proof -
  note D = dioq_invD [OF inv]
  have ring: "ring_ok v' p (Q p)" if "q_valid v' p" for p
  proof (rule ring_ok_cong)
    have "p \<noteq> q" using that v'(4) by auto
    then show "v_q v' p = v_q v p" using v'(4) by simp
    then have "q_valid v p" using that by metis
    then show "ring_ok v p (Q p)" by (rule D(4))
    show "v_fl v' r = v_fl v r \<and> v_bl v' r = v_bl v r" if "r \<in> insert (Sent p) (Elem ` set (Q p))" for r
      using that v'(1,2) \<open>p \<noteq> q\<close> by auto
  qed
  have none: "Q p = []" if "\<not> q_valid v' p" for p
    using that v'(4) D(5) [of p] assms(2) by (cases "p = q") auto
  have pool: "pool_seg (v_fl v') (v_pool v') P"
    using pool_seg_cong [OF D(2), of "v_fl v'"] v'(1,5) by simp
  show ?thesis unfolding dioq_inv_def v'(3)
  proof (intro conjI allI impI ballI)
    show "v_dt v a \<noteq> None" if "a \<in> set P" for a using D(3) [OF that] .
    show "\<exists>d t. v_dt v a = Some (Some d, t)" if "a \<in> set (Q p)" for a p using D(6) [OF that] .
  qed (use D(1) pool ring none in auto)
qed

lemma delete_dioq_ok:
  assumes "dioq_rep h A n" "dioq_valid h q" "h_queues h q = Some d"
  shows "\<exists>h'. crystalhd_delete_dioq (Some q) h = Some h' \<and> dioq_rep h' (A(q := [])) (n + length (A q)) \<and>
    (\<forall>p. dioq_valid h' p = (p \<noteq> q \<and> dioq_valid h p)) \<and>
    h_log h' = h_log h @ (if q_has_release_cb d then map (\<lambda>e. Release_Cb q (snd e)) (A q) else [])"
proof -
  from drain_ok [OF assms(1,2), of "q_has_release_cb d"] obtain h1 where
    h1: "drain_dioq q (q_has_release_cb d) h = Some h1" "dioq_rep h1 (A(q := [])) (n + length (A q))"
      "\<And>p. dioq_valid h1 p = dioq_valid h p"
      "h_log h1 = h_log h @ (if q_has_release_cb d then map (\<lambda>e. Release_Cb q (snd e)) (A q) else [])"
    by blast
  obtain d1 where d1: "queue_of h1 (Some q) = Some (q, d1)"
    using h1(3) [of q] assms(2) by (auto elim: dioq_valid_queue_of)
  obtain d0 where d0: "queue_of h (Some q) = Some (q, d0)" using assms(2) by (rule dioq_valid_queue_of)
  let ?h2 = "if q_is_rx_ready d1 then h1\<lparr>h_rx_poll_ready := 0\<rparr> else h1"
  let ?h3 = "?h2\<lparr>h_queues := (h_queues ?h2)(q := None)\<rparr>"
  have eq: "crystalhd_delete_dioq (Some q) h = Some ?h3"
    using d0 h1(1) queue_of_head(3) [OF d0] assms(3) queue_of_head(3) [OF d1]
    by (simp add: crystalhd_delete_dioq_def)
  have v3: "v_fl (view ?h3) = (v_fl (view h1))(Sent q := None)"
    "v_bl (view ?h3) = (v_bl (view h1))(Sent q := None)" "v_dt (view ?h3) = v_dt (view h1)"
    "v_q (view ?h3) = (v_q (view h1))(q := None)" "v_pool (view ?h3) = v_pool (view h1)"
    by (auto simp: view_def get_flink_def get_blink_def fun_eq_iff split: ref.splits)
  from h1(2) obtain P Q where inv: "dioq_inv (view h1) P Q" "n + length (A q) = length P"
    and A: "\<And>p. (A(q := [])) p = map (entry (view h1)) (Q p)" by (elim dioq_repE) blast
  have "Q q = []" using A [of q] by simp
  note inv3 = dioq_inv_drop_queue [OF inv(1) this v3]
  have "entry (view ?h3) = entry (view h1)" unfolding entry_def v3(3) ..
  then have "dioq_rep ?h3 (A(q := [])) (n + length (A q))"
    using A by (intro dioq_repI [OF inv3 inv(2)]) metis
  moreover have "dioq_valid ?h3 p = (p \<noteq> q \<and> dioq_valid h p)" for p
    using v3(4) h1(3) [of p] by (auto simp: dioq_valid_view simp del: view_sel)
  ultimately show ?thesis using eq h1(4) by auto
qed

text \<open>Filling and emptying the pool.\<close>

lemma free_fresh_rep:
  assumes rep: "dioq_rep h A n" and fresh: "h_elems h a = None"
  shows "\<exists>h'. crystalhd_free_elem (Some a) (kzalloc_elem a h) = Some h' \<and> dioq_rep h' A (Suc n) \<and>
    (\<forall>b. b \<noteq> a \<longrightarrow> h_elems h' b = h_elems h b) \<and> h_queues h' = h_queues h"
proof -
  from rep obtain P Q where inv: "dioq_inv (view h) P Q" and n: "n = length P"
    and A: "\<And>q. A q = map (entry (view h)) (Q q)" by (auto elim: dioq_repE)
  note D = dioq_invD [OF inv]
  have dt: "v_dt (view h) a = None" using fresh by (simp add: view_def)
  have out: "a \<notin> set P" "a \<notin> set (Q q)" for q
    using D(3) [of a] D(6) [of a q] dt by auto
  let ?h' = "h\<lparr>h_elems := (h_elems h)(a := Some (zero_elem\<lparr>el_flink := h_pool h\<rparr>)), h_pool := Some (Elem a)\<rparr>"
  have eq: "crystalhd_free_elem (Some a) (kzalloc_elem a h) = Some ?h'"
    by (simp add: crystalhd_free_elem_def kzalloc_elem_def set_flink_def upd_elem_def)
  have v: "v_fl (view ?h') = (v_fl (view h))(Elem a := v_pool (view h))"
    "v_bl (view ?h') = (v_bl (view h))(Elem a := None)"
    "v_dt (view ?h') = (v_dt (view h))(a := Some (None, 0))" "v_q (view ?h') = v_q (view h)"
    "v_pool (view ?h') = Some (Elem a)"
    by (auto simp: view_def get_flink_def get_blink_def zero_elem_def fun_eq_iff split: ref.splits)
  have ring: "ring_ok (view ?h') q (Q q)" if "q_valid (view ?h') q" for q
  proof (rule ring_ok_cong [OF D(4)])
    show "q_valid (view h) q" using that v(4) by simp
    show "v_q (view ?h') q = v_q (view h) q" using v(4) by simp
    show "v_fl (view ?h') r = v_fl (view h) r \<and> v_bl (view ?h') r = v_bl (view h) r"
      if "r \<in> insert (Sent q) (Elem ` set (Q q))" for r
      using that out(2) [of q] unfolding v(1,2) by auto
  qed
  have "pool_seg (v_fl (view ?h')) (v_pool (view h)) P"
    using D(2) by (rule pool_seg_cong) (use out(1) v(1) in auto)
  then have "pool_seg (v_fl (view ?h')) (v_pool (view ?h')) (a # P)"
    unfolding v(5) pool_seg.simps using v(1) by (metis fun_upd_same)
  moreover have "owners (a # P) Q" using D(1) out by (simp add: owners_def)
  moreover have "\<exists>d t. v_dt (view ?h') x = Some (Some d, t)" if "x \<in> set (Q q)" for x q
    using D(6) [OF that] out(2) [of q] that unfolding v(3) by auto
  ultimately have "dioq_inv (view ?h') (a # P) Q"
    unfolding dioq_inv_def using ring D(3,5) by (auto simp: v(3,4) simp del: view_sel)
  moreover have "A q = map (entry (view ?h')) (Q q)" for q
    using A [of q] out(2) [of q] unfolding entry_def v(3) by auto
  ultimately have "dioq_rep ?h' A (Suc n)" using n by (intro dioq_repI) auto
  with eq show ?thesis by auto
qed


lemma create_elems_ok:
  assumes "dioq_rep h A n" "\<And>j. j < k \<Longrightarrow> \<exists>a. kz (i + j) = Some a \<and> h_elems h a = None"
    "\<And>j j'. j < k \<Longrightarrow> j' < k \<Longrightarrow> kz (i + j) = kz (i + j') \<Longrightarrow> j = j'"
  shows "\<exists>h'. create_elems kz i k h = Some (rc_ok, h') \<and> dioq_rep h' A (n + k) \<and> h_queues h' = h_queues h"
  using assms
proof (induction k arbitrary: i h n)
  case (Suc k)
  from Suc.prems(2) [of 0] obtain a where a: "kz i = Some a" "h_elems h a = None" by auto
  from free_fresh_rep [OF Suc.prems(1) a(2)] obtain h1 where
    h1: "crystalhd_free_elem (Some a) (kzalloc_elem a h) = Some h1" "dioq_rep h1 A (Suc n)"
      "\<And>b. b \<noteq> a \<Longrightarrow> h_elems h1 b = h_elems h b" "h_queues h1 = h_queues h" by blast
  have "\<exists>h'. create_elems kz (Suc i) k h1 = Some (rc_ok, h') \<and> dioq_rep h' A (Suc n + k) \<and>
      h_queues h' = h_queues h1"
  proof (rule Suc.IH [OF h1(2)])
    fix j assume j: "j < k"
    obtain b where b: "kz (i + Suc j) = Some b" "h_elems h b = None"
      using Suc.prems(2) [of "Suc j"] j by auto
    have "b \<noteq> a" using Suc.prems(3) [of "Suc j" 0] j b a by auto
    then show "\<exists>b. kz (Suc i + j) = Some b \<and> h_elems h1 b = None" using b h1(3) by auto
  next
    show "j = j'" if "j < k" "j' < k" "kz (Suc i + j) = kz (Suc i + j')" for j j'
      using Suc.prems(3) [of "Suc j" "Suc j'"] that by simp
  qed
  with a h1 show ?case by auto
qed simp

lemma pool_delete_step:
  assumes rep: "dioq_rep h A (Suc n)"
  shows "\<exists>h1 a. crystalhd_alloc_elem h = Some (h1, Some a) \<and>
    dioq_rep (h1\<lparr>h_elems := (h_elems h1)(a := None)\<rparr>) A n \<and>
    (\<forall>p. dioq_valid (h1\<lparr>h_elems := (h_elems h1)(a := None)\<rparr>) p = dioq_valid h p)"
proof -
  from rep obtain P Q a where inv: "dioq_inv (view h) (a # P) Q" and n: "n = length P"
    and A: "\<And>q. A q = map (entry (view h)) (Q q)"
    by (elim dioq_repE) (metis length_Suc_conv)
  note D = dioq_invD [OF inv] and O = ownersD [OF dioq_invD(1) [OF inv]]
  have "v_pool (view h) = Some (Elem a)" "v_dt (view h) a \<noteq> None" using D(2,3) by simp_all
  then obtain e where e: "h_pool h = Some (Elem a)" "h_elems h a = Some e" by (auto simp: view_def)
  let ?h1 = "h\<lparr>h_pool := el_flink e, h_elems := (h_elems h)(a := Some zero_elem)\<rparr>"
  let ?h2 = "?h1\<lparr>h_elems := (h_elems ?h1)(a := None)\<rparr>"
  have al: "crystalhd_alloc_elem h = Some (?h1, Some a)"
    using e by (simp add: crystalhd_alloc_elem_def upd_elem_def)
  have v: "v_fl (view ?h2) = (v_fl (view h))(Elem a := None)"
    "v_bl (view ?h2) = (v_bl (view h))(Elem a := None)"
    "v_dt (view ?h2) = (v_dt (view h))(a := None)" "v_q (view ?h2) = v_q (view h)"
    "v_pool (view ?h2) = v_fl (view h) (Elem a)"
    using e by (auto simp: view_def get_flink_def get_blink_def fun_eq_iff split: ref.splits)
  have out: "a \<notin> set P" "a \<notin> set (Q q)" for q using O(1) O(3) [of a q] by simp_all
  have "pool_seg (v_fl (view h)) (v_fl (view h) (Elem a)) P" using D(2) by simp
  then have pool: "pool_seg (v_fl (view ?h2)) (v_pool (view ?h2)) P"
    unfolding v(5) by (rule pool_seg_cong) (use out(1) v(1) in auto)
  have ring: "ring_ok (view ?h2) q (Q q)" if "q_valid (view ?h2) q" for q
  proof (rule ring_ok_cong [OF D(4)])
    show "q_valid (view h) q" using that v(4) by simp
    show "v_q (view ?h2) q = v_q (view h) q" using v(4) by simp
    show "v_fl (view ?h2) r = v_fl (view h) r \<and> v_bl (view ?h2) r = v_bl (view h) r"
      if "r \<in> insert (Sent q) (Elem ` set (Q q))" for r
      using that out(2) [of q] unfolding v(1,2) by auto
  qed
  have "owners P Q" using D(1) unfolding owners_def by auto
  moreover have "\<exists>d t. v_dt (view ?h2) x = Some (Some d, t)" if "x \<in> set (Q q)" for x q
    using D(6) [OF that] out(2) [of q] that unfolding v(3) by auto
  moreover have "v_dt (view ?h2) x \<noteq> None" if "x \<in> set P" for x
    using D(3) [of x] out(1) that unfolding v(3) by auto
  moreover have "Q q = []" if "\<not> q_valid (view ?h2) q" for q using D(5) that unfolding v(4) by blast
  ultimately have "dioq_inv (view ?h2) P Q" unfolding dioq_inv_def using ring pool by blast
  moreover have "A q = map (entry (view ?h2)) (Q q)" for q
    using A [of q] out(2) [of q] unfolding entry_def v(3) by auto
  ultimately have "dioq_rep ?h2 A n" using n by (intro dioq_repI)
  moreover have "dioq_valid ?h2 p = dioq_valid h p" for p using v(4) by (simp add: dioq_valid_view)
  ultimately show ?thesis using al by blast
qed

lemma delete_elem_pool_ok:
  "dioq_rep h A n \<Longrightarrow> \<exists>h'. crystalhd_delete_elem_pool h = Some h' \<and> dioq_rep h' A 0 \<and>
     (\<forall>p. dioq_valid h' p = dioq_valid h p)"
proof (induction n arbitrary: h)
  case 0
  then have "h_pool h = None" by (auto elim!: dioq_repE dest: dioq_invD(2))
  then have "crystalhd_delete_elem_pool h = Some h"
    by (subst crystalhd_delete_elem_pool.simps) (simp add: crystalhd_alloc_elem_def)
  with 0 show ?case by auto
next
  case (Suc n)
  from pool_delete_step [OF Suc.prems] obtain h1 a where
    h1: "crystalhd_alloc_elem h = Some (h1, Some a)"
      "dioq_rep (h1\<lparr>h_elems := (h_elems h1)(a := None)\<rparr>) A n"
      "\<And>p. dioq_valid (h1\<lparr>h_elems := (h_elems h1)(a := None)\<rparr>) p = dioq_valid h p" by blast
  from Suc.IH [OF h1(2)] h1 show ?case
    by (subst crystalhd_delete_elem_pool.simps) auto
qed


text \<open>Creating a queue under a fresh header address.\<close>

lemma create_dioq_ok:
  assumes rep: "dioq_rep h A n" and fresh: "h_queues h q = None"
  shows "\<exists>h'. crystalhd_create_dioq (Some q) cb h = (BC_STS_SUCCESS, Some q, h') \<and>
    dioq_rep h' A n \<and> A q = [] \<and> (\<forall>p. dioq_valid h' p = (p = q \<or> dioq_valid h p))"
proof -
  from rep obtain P Q where inv: "dioq_inv (view h) P Q" and n: "n = length P"
    and A: "\<And>q. A q = map (entry (view h)) (Q q)" by (auto elim: dioq_repE)
  note D = dioq_invD [OF inv]
  have "\<not> q_valid (view h) q" using fresh by (simp add: view_def)
  then have Qq: "Q q = []" by (rule D(5))
  let ?d = "\<lparr>q_sig = BC_LINK_DIOQ_SIG, q_head = Some (Sent q), q_tail = Some (Sent q), q_count = 0,
           q_is_rx_ready = False, q_has_release_cb = cb\<rparr>"
  let ?h = "h\<lparr>h_queues := (h_queues h)(q := Some ?d)\<rparr>"
  have v: "v_fl (view ?h) = (v_fl (view h))(Sent q := Some (Sent q))"
    "v_bl (view ?h) = (v_bl (view h))(Sent q := Some (Sent q))"
    "v_dt (view ?h) = v_dt (view h)"
    "v_q (view ?h) = (v_q (view h))(q := Some (BC_LINK_DIOQ_SIG, 0, False, cb))"
    "v_pool (view ?h) = v_pool (view h)"
    by (auto simp: view_def get_flink_def get_blink_def fun_eq_iff split: ref.splits)
  have new: "ring_ok (view ?h) q (Q q)" using Qq v by (auto simp: ring_ok_def simp del: view_sel)
  have ring: "ring_ok (view ?h) p (Q p)" if "q_valid (view ?h) p" for p
  proof (cases "p = q")
    case False
    show ?thesis
    proof (rule ring_ok_cong [OF D(4)])
      show same: "v_q (view ?h) p = v_q (view h) p" using v(4) False by simp
      then show "q_valid (view h) p" using that by metis
      show "v_fl (view ?h) r = v_fl (view h) r \<and> v_bl (view ?h) r = v_bl (view h) r"
        if "r \<in> insert (Sent p) (Elem ` set (Q p))" for r
        using that False unfolding v(1,2) by auto
    qed
  qed (use new in simp)
  have none: "Q p = []" if "\<not> q_valid (view ?h) p" for p
    using that D(5) [of p] Qq unfolding v(4) by (cases "p = q") auto
  have pool: "pool_seg (v_fl (view ?h)) (v_pool (view ?h)) P"
    using pool_seg_cong [OF D(2), of "v_fl (view ?h)"] unfolding v(1,5) by simp
  have inv': "dioq_inv (view ?h) P Q" unfolding dioq_inv_def v(3)
    using D(1,3,6) ring none pool by blast
  have "entry (view ?h) = entry (view h)" unfolding entry_def v(3) ..
  then have "dioq_rep ?h A n" using A by (intro dioq_repI [OF inv' n]) metis
  moreover have "dioq_valid ?h p = (p = q \<or> dioq_valid h p)" for p
    unfolding dioq_valid_view v(4) by auto
  ultimately show ?thesis using A [of q] Qq by (auto simp: crystalhd_create_dioq_def)
qed

definition empty_heap :: dioq_heap where
  "empty_heap = \<lparr>h_elems = (\<lambda>_. None), h_queues = (\<lambda>_. None), h_pool = None, h_rx_poll_ready = 0,
     h_log = []\<rparr>"

lemma empty_heap_rep: "dioq_rep empty_heap (\<lambda>_. []) 0"
  by (rule dioq_repI [where P = "[]" and Q = "\<lambda>_. []"])
    (simp_all add: dioq_inv_def owners_def empty_heap_def view_def)

text \<open>A heap with a pool of \<open>k\<close> elements and one queue, built by the constructors.\<close>

lemma pool_and_queue:
  assumes "k < 2 ^ 32" "0 < k"
  shows "\<exists>h1 h2. crystalhd_create_elem_pool Some (word_of_nat k) empty_heap = Some (rc_ok, h1) \<and>
    crystalhd_create_dioq (Some q) cb h1 = (BC_STS_SUCCESS, Some q, h2) \<and>
    dioq_rep h2 (\<lambda>_. []) k \<and> dioq_valid h2 q"
proof -
  have k: "unat (word_of_nat k :: u32) = k" using assms(1) by (simp add: unat_of_nat)
  then have nz: "(word_of_nat k :: u32) \<noteq> 0" using assms(2) by auto
  from create_elems_ok [OF empty_heap_rep, of k Some 0] obtain h1 where
    h1: "create_elems Some 0 k empty_heap = Some (rc_ok, h1)" "dioq_rep h1 (\<lambda>_. []) k"
      "h_queues h1 = h_queues empty_heap" by (auto simp: empty_heap_def)
  from create_dioq_ok [OF h1(2), of q cb] h1(3) obtain h2 where
    "crystalhd_create_dioq (Some q) cb h1 = (BC_STS_SUCCESS, Some q, h2)"
    "dioq_rep h2 (\<lambda>_. []) k" "dioq_valid h2 q" by (auto simp: empty_heap_def)
  with h1 k nz show ?thesis by (auto simp: crystalhd_create_elem_pool_def)
qed

section \<open>Properties\<close>

text \<open>
  C3: The pointer queues are first-in first-out and lose nothing. On a valid queue, with enough
  elements in the pool, adding a list of entries succeeds each time; fetching as often as there are
  entries then returns the data of the older entries followed by the new ones, in order; the queue
  is empty afterwards, every other queue is as before, and all borrowed elements are back in the
  pool. No step follows a null or dangling pointer.
\<close>

theorem dioq_fifo_order:
  assumes "dioq_rep h A (n + length es)" "dioq_valid h q"
  shows "\<exists>h1 h2. add_entries crystalhd_dioq_add q es h = Some (replicate (length es) BC_STS_SUCCESS, h1) \<and>
    fetch_times crystalhd_dioq_fetch q (length (A q) + length es) h1 =
      Some (map (Some \<circ> snd) (A q @ es), h2) \<and>
    dioq_rep h2 (A(q := [])) (n + length (A q) + length es)"
  using dioq.fifo [OF assms refl] .

theorem dioq_fifo_order_witness:
  "\<exists>h h1 h2. dioq_rep h (\<lambda>_. []) 3 \<and>
     add_entries crystalhd_dioq_add 5 [(1, 10), (2, 20)] h = Some ([BC_STS_SUCCESS, BC_STS_SUCCESS], h1) \<and>
     fetch_times crystalhd_dioq_fetch 5 2 h1 = Some ([Some 10, Some 20], h2)"
proof -
  obtain h where h: "dioq_rep h (\<lambda>_. []) 3" "dioq_valid h 5"
    using pool_and_queue [of 3 5 True] by auto
  have "dioq_rep h (\<lambda>_. []) (1 + length [(1::u32, 10::nat), (2, 20)])" using h(1) by (simp add: numeral_3_eq_3)
  from dioq_fifo_order [OF this h(2)] h(1) show ?thesis
    by (auto simp: numeral_2_eq_2 simp del: add_entries.simps fetch_times.simps)
qed

text \<open>
  C20: Searching by tag always ends and takes the oldest match. On a valid queue, \<open>find_and_fetch\<close>
  returns null and changes nothing when no entry carries the tag; otherwise it returns the data of
  the first entry with that tag, removes exactly that entry, keeps the order of the others and the
  other queues, and returns the element to the pool.
\<close>

theorem dioq_find_first_tag:
  assumes "dioq_rep h A n" "dioq_valid h q"
  shows "\<exists>h' r. crystalhd_dioq_find_and_fetch (Some q) tag h = Some (h', r) \<and>
    (case find (\<lambda>e. fst e = tag) (A q) of
       None \<Rightarrow> r = None \<and> h' = h
     | Some e \<Rightarrow> r = Some (snd e) \<and> dioq_rep h' (A(q := remove1 e (A q))) (Suc n))"
proof (cases "take_tag tag (A q)")
  case None
  then have "find (\<lambda>e. fst e = tag) (A q) = None" by (simp add: take_tag_def split: option.splits)
  with dioq.find_none [OF assms None] show ?thesis by simp
next
  case (Some de)
  obtain d es where de: "de = (d, es)" by (cases de)
  from Some de obtain e where e: "find (\<lambda>e. fst e = tag) (A q) = Some e" "d = snd e" "es = remove1 e (A q)"
    by (auto simp: take_tag_def split: option.splits)
  from dioq.find_some [OF assms Some [unfolded de]] e show ?thesis by auto
qed

theorem dioq_find_first_tag_witness:
  "\<exists>h h1 h2. dioq_rep h (\<lambda>_. []) 3 \<and> dioq_valid h 5 \<and>
     add_entries crystalhd_dioq_add 5 [(1, 10), (2, 20), (2, 30)] h = Some (replicate 3 BC_STS_SUCCESS, h1) \<and>
     crystalhd_dioq_find_and_fetch (Some 5) 2 h1 = Some (h2, Some 20) \<and>
     dioq_rep h2 ((\<lambda>_. [])(5 := [(1, 10), (2, 30)])) 1"
proof -
  obtain h where h: "dioq_rep h (\<lambda>_. []) 3" "dioq_valid h 5"
    using pool_and_queue [of 3 5 True] by auto
  have "dioq_rep h (\<lambda>_. []) (0 + length [(1::u32, 10::nat), (2, 20), (2, 30)])"
    using h(1) by (simp add: numeral_3_eq_3)
  from dioq.add_entries_ok [OF this h(2)] obtain h1 where
    h1: "add_entries crystalhd_dioq_add 5 [(1, 10), (2, 20), (2, 30)] h = Some (replicate 3 BC_STS_SUCCESS, h1)"
      "dioq_rep h1 ((\<lambda>_. [])(5 := [(1, 10), (2, 20), (2, 30)])) 0" "dioq_valid h1 5"
    using h(2) by (auto simp: numeral_3_eq_3 simp del: add_entries.simps)
  from dioq_find_first_tag [OF h1(2,3), of 2] h h1 show ?thesis by auto
qed


text \<open>
  C23: Deleting a queue ends, releases every queued item exactly once through the callback, oldest
  first, returns every element to the pool, invalidates the handle and leaves the other queues as
  they were.
\<close>

theorem dioq_delete_releases_all:
  assumes "dioq_rep h A n" "dioq_valid h q" "h_queues h q = Some d" "q_has_release_cb d"
  shows "\<exists>h'. crystalhd_delete_dioq (Some q) h = Some h' \<and>
    h_log h' = h_log h @ map (\<lambda>e. Release_Cb q (snd e)) (A q) \<and>
    dioq_rep h' (A(q := [])) (n + length (A q)) \<and>
    (\<forall>p. dioq_valid h' p = (p \<noteq> q \<and> dioq_valid h p))"
  using delete_dioq_ok [OF assms(1-3)] assms(4) by simp blast

theorem dioq_delete_releases_all_witness:
  "\<exists>h h'. dioq_rep h ((\<lambda>_. [])(5 := [(1, 10), (2, 20)])) 1 \<and>
     crystalhd_delete_dioq (Some 5) h = Some h' \<and>
     drop (length (h_log h)) (h_log h') = [Release_Cb 5 10, Release_Cb 5 20] \<and> \<not> dioq_valid h' 5"
proof -
  have "do { (_, h1) \<leftarrow> crystalhd_create_elem_pool Some 3 empty_heap;
      let (_, _, h2) = crystalhd_create_dioq (Some 5) True h1;
      (_, h3) \<leftarrow> add_entries crystalhd_dioq_add 5 [(1, 10), (2, 20)] h2;
      map_option q_has_release_cb (h_queues h3 5) } = Some True" by code_simp
  then obtain h1 h2 st h3 d where run: "crystalhd_create_elem_pool Some 3 empty_heap = Some (rc_ok, h1)"
    "crystalhd_create_dioq (Some 5) True h1 = (BC_STS_SUCCESS, Some 5, h2)"
    "add_entries crystalhd_dioq_add 5 [(1, 10), (2, 20)] h2 = Some (st, h3)"
    and d: "h_queues h3 5 = Some d" "q_has_release_cb d"
    using pool_and_queue [of 3 5 True]
    by (auto simp: bind_eq_Some_conv simp del: add_entries.simps)
  have h2: "dioq_rep h2 (\<lambda>_. []) (1 + length [(1::u32, 10::nat), (2, 20)])" "dioq_valid h2 5"
    using pool_and_queue [of 3 5 True] run by (auto simp: numeral_3_eq_3)
  from dioq.add_entries_ok [OF h2] run(3) h2(2) have
    "dioq_rep h3 ((\<lambda>_. [])(5 := [(1, 10), (2, 20)])) 1" "dioq_valid h3 5" by auto
  from dioq_delete_releases_all [OF this d] this show ?thesis by auto
qed

text \<open>
  The element pool bounds what the queues can hold. After creating a pool of \<open>k\<close> elements on
  an empty heap and one queue, exactly \<open>k\<close> additions succeed; the next one reports insufficient
  resources and changes nothing; and deleting the pool of elements that are free then ends.
\<close>

theorem elem_pool_capacity:
  assumes "k < 2 ^ 32" "0 < k" "length es = k"
  shows "\<exists>h1 h2 h3. crystalhd_create_elem_pool Some (word_of_nat k) empty_heap = Some (rc_ok, h1) \<and>
    crystalhd_create_dioq (Some q) cb h1 = (BC_STS_SUCCESS, Some q, h2) \<and>
    add_entries crystalhd_dioq_add q es h2 = Some (replicate k BC_STS_SUCCESS, h3) \<and>
    crystalhd_dioq_add (Some q) (Some d) wake tag h3 = Some (BC_STS_INSUFF_RES, h3) \<and>
    (\<exists>h4. crystalhd_delete_elem_pool h2 = Some h4 \<and> h_pool h4 = None)"
proof -
  from pool_and_queue [OF assms(1,2), of q cb] obtain h1 h2 where
    *: "crystalhd_create_elem_pool Some (word_of_nat k) empty_heap = Some (rc_ok, h1)"
      "crystalhd_create_dioq (Some q) cb h1 = (BC_STS_SUCCESS, Some q, h2)"
      "dioq_rep h2 (\<lambda>_. []) (0 + length es)" "dioq_valid h2 q" using assms(3) by auto
  from dioq.add_entries_ok [OF *(3,4)] obtain h3 A where
    h3: "add_entries crystalhd_dioq_add q es h2 = Some (replicate k BC_STS_SUCCESS, h3)"
      "dioq_rep h3 A 0" "dioq_valid h3 q" using *(4) assms(3) by auto
  obtain h4 where h4: "crystalhd_delete_elem_pool h2 = Some h4" "dioq_rep h4 (\<lambda>_. []) 0"
    using delete_elem_pool_ok [OF *(3)] by blast
  then have "h_pool h4 = None" by (auto elim!: dioq_repE dest: dioq_invD(2))
  with * h3(1) dioq.add_full [OF h3(2,3)] h4(1) show ?thesis by blast
qed

theorem elem_pool_capacity_witness:
  "\<exists>h1 h2 h3. crystalhd_create_elem_pool Some (word_of_nat 2) empty_heap = Some (rc_ok, h1) \<and>
    crystalhd_create_dioq (Some 0) False h1 = (BC_STS_SUCCESS, Some 0, h2) \<and>
    add_entries crystalhd_dioq_add 0 [(7, 1), (8, 2)] h2 = Some (replicate 2 BC_STS_SUCCESS, h3) \<and>
    crystalhd_dioq_add (Some 0) (Some 3) True 9 h3 = Some (BC_STS_INSUFF_RES, h3)"
  using elem_pool_capacity [of 2 "[(7, 1), (8, 2)]" 0 False 3 True 9] by auto

end
