(* ===== verification/H264_Bits.thy ===== *)
theory H264_Bits
  imports Chd_Prelude "HOL-Library.Log_Nat"
begin

text \<open>
  The allocation-free SPS prefix reader (\<^verbatim>\<open>include/crystalhd_h264_sps_range.h\<close>): a bit reader that
  removes the emulation prevention bytes of a NAL unit while it reads, the Exp-Golomb codes, and
  the sequence parameter set prefix up to the video range flag. A pointer with its byte count is
  a list. Offsets and bit counts, all below 4096 or 8, are natural numbers; decoded values are
  32-bit words, signed codes integers.
\<close>

section \<open>Bit reader\<close>

record chd_h264_range_bits =
  bb_nal :: "u8 list"
  bb_offset :: nat
  bb_zeros :: nat
  bb_left :: nat
  bb_byte :: u8
  bb_failed :: bool

definition bits_init :: "u8 list \<Rightarrow> chd_h264_range_bits" where
  "bits_init nal = \<lparr>bb_nal = nal, bb_offset = 1, bb_zeros = 0, bb_left = 0, bb_byte = 0, bb_failed = False\<rparr>"

text \<open>Fetching the next byte when the current one is used up.\<close>

definition range_fill :: "chd_h264_range_bits \<Rightarrow> chd_h264_range_bits" where
  "range_fill b =
    (if bb_left b \<noteq> 0 then b
     else if bb_offset b \<ge> length (bb_nal b) then b\<lparr>bb_failed := True\<rparr>
     else
       let b1 = b\<lparr>bb_byte := bb_nal b ! bb_offset b, bb_offset := bb_offset b + 1\<rparr>;
           close = (\<lambda>b. b\<lparr>bb_zeros := (if bb_byte b \<noteq> 0 then 0 else bb_zeros b + 1), bb_left := 8\<rparr>)
       in if bb_zeros b1 = 2 \<and> bb_byte b1 < 3 then b1\<lparr>bb_failed := True\<rparr>
          else if bb_zeros b1 = 2 \<and> bb_byte b1 = 3 then
            (if bb_offset b1 \<ge> length (bb_nal b1) \<or> bb_nal b1 ! bb_offset b1 > 3 then b1\<lparr>bb_failed := True\<rparr>
             else close (b1\<lparr>bb_byte := bb_nal b1 ! bb_offset b1, bb_offset := bb_offset b1 + 1, bb_zeros := 0\<rparr>))
          else close b1)"

fun range_get_loop :: "nat \<Rightarrow> chd_h264_range_bits \<Rightarrow> u32 \<Rightarrow> u32 \<times> chd_h264_range_bits" where
  "range_get_loop 0 b value = (value, b)"
| "range_get_loop (Suc count) b value =
    (if bb_failed b then (value, b)
     else
       let b1 = range_fill b
       in if bb_failed b1 then (value, b1)
          else range_get_loop count (b1\<lparr>bb_left := bb_left b1 - 1\<rparr>)
                 (push_bit 1 value OR (ucast (drop_bit (bb_left b1 - 1) (bb_byte b1)) AND 1)))"

definition chd_h264_range_get :: "chd_h264_range_bits \<Rightarrow> nat \<Rightarrow> u32 \<times> chd_h264_range_bits" where
  "chd_h264_range_get b count = range_get_loop count b 0"

text \<open>The leading zeros of a code; \<^const>\<open>None\<close> is the early return on more than 31.\<close>

function range_ue_zeros :: "chd_h264_range_bits \<Rightarrow> nat \<Rightarrow> nat option \<times> chd_h264_range_bits" where
  "range_ue_zeros b zeros =
    (if bb_failed b then (Some zeros, b)
     else
       let (bit, b1) = chd_h264_range_get b 1
       in if bit \<noteq> 0 then (Some zeros, b1)
          else if zeros + 1 > 31 then (None, b1\<lparr>bb_failed := True\<rparr>)
          else range_ue_zeros b1 (zeros + 1))"
  by pat_completeness auto
termination
  by (relation "measure (\<lambda>(b, zeros). 31 - zeros)") auto

declare range_ue_zeros.simps [simp del]

definition chd_h264_range_ue :: "chd_h264_range_bits \<Rightarrow> u32 \<times> chd_h264_range_bits" where
  "chd_h264_range_ue b =
    (case range_ue_zeros b 0 of
       (None, b1) \<Rightarrow> (0, b1)
     | (Some zeros, b1) \<Rightarrow>
       if bb_failed b1 then (0, b1)
       else let (suffix, b2) = chd_h264_range_get b1 zeros
            in ((push_bit zeros 1 - 1) + suffix, b2))"

definition chd_h264_range_se :: "chd_h264_range_bits \<Rightarrow> int \<times> chd_h264_range_bits" where
  "chd_h264_range_se b =
    (let (code, b1) = chd_h264_range_ue b
     in (if code AND 1 \<noteq> 0 then uint (drop_bit 1 code) + 1 else - uint (drop_bit 1 code), b1))"

text \<open>The loop over the NAL bytes from \<open>i\<close> on.\<close>

function range_ebsp_loop :: "u8 list \<Rightarrow> nat \<Rightarrow> nat \<Rightarrow> bool" where
  "range_ebsp_loop nal i zeros =
    (if i < length nal then
       let value = nal ! i
       in if zeros = 2 \<and> value < 3 then False
          else if zeros = 2 \<and> value = 3 then
            (if i + 1 = length nal \<or> nal ! (i + 1) > 3 then False else range_ebsp_loop nal (i + 1) 0)
          else range_ebsp_loop nal (i + 1) (if value \<noteq> 0 then 0 else zeros + 1)
     else True)"
  by pat_completeness auto
termination
  by (relation "measure (\<lambda>(nal, i, zeros). length nal - i)") auto

declare range_ebsp_loop.simps [simp del]

definition chd_h264_range_ebsp :: "u8 list \<Rightarrow> bool" where
  "chd_h264_range_ebsp nal = range_ebsp_loop nal 1 0"

section \<open>Reference: the raw byte sequence payload and its codes\<close>

text \<open>
  The payload bytes up to the first malformed sequence: after two zero bytes, a 3 that is followed
  by a byte of at most 3 is dropped, and a byte below 3 is not allowed (ITU-T H.264, 7.4.1).
\<close>

fun unesc :: "nat \<Rightarrow> u8 list \<Rightarrow> u8 list" where
  "unesc z [] = []"
| "unesc z (x # xs) =
    (if z = 2 \<and> x < 3 then []
     else if z = 2 \<and> x = 3 then
       (case xs of [] \<Rightarrow> [] | y # ys \<Rightarrow> if y > 3 then [] else y # unesc (if y = 0 then 1 else 0) ys)
     else x # unesc (if x = 0 then z + 1 else 0) xs)"

definition byte_bits :: "u8 \<Rightarrow> bool list" where
  "byte_bits x = map (bit x) (rev [0..<8])"

definition bits_of_bytes :: "u8 list \<Rightarrow> bool list" where
  "bits_of_bytes xs = concat (map byte_bits xs)"

fun bits_val :: "bool list \<Rightarrow> nat \<Rightarrow> nat" where
  "bits_val [] v = v"
| "bits_val (x # xs) v = bits_val xs (2 * v + of_bool x)"

text \<open>Exp-Golomb codes (ITU-T H.264, 9.1) of at most 63 bits.\<close>

definition ue_spec :: "bool list \<Rightarrow> (nat \<times> bool list) option" where
  "ue_spec bs =
    (let z = length (takeWhile Not bs)
     in if z > 31 \<or> length bs < 2 * z + 1 then None
        else Some (2 ^ z - 1 + bits_val (take z (drop (z + 1) bs)) 0, drop (2 * z + 1) bs))"

text \<open>The bits still to be read.\<close>

definition bits_left :: "chd_h264_range_bits \<Rightarrow> bool list" where
  "bits_left b =
    (if bb_failed b then []
     else drop (8 - bb_left b) (byte_bits (bb_byte b)) @
          bits_of_bytes (unesc (bb_zeros b) (drop (bb_offset b) (bb_nal b))))"

definition bits_wf :: "chd_h264_range_bits \<Rightarrow> bool" where
  "bits_wf b \<longleftrightarrow> bb_left b \<le> 8"

lemma length_byte_bits [simp]: "length (byte_bits x) = 8"
  by (simp add: byte_bits_def)

lemma byte_bits_ne [simp]: "byte_bits x \<noteq> []"
  using length_byte_bits [of x] by force

lemma drop_byte_bits:
  assumes "0 < l" "l \<le> 8"
  shows "drop (8 - l) (byte_bits x) = bit x (l - 1) # drop (8 - (l - 1)) (byte_bits x)"
proof -
  have "drop (8 - l) (byte_bits x) = byte_bits x ! (8 - l) # drop (Suc (8 - l)) (byte_bits x)"
    using assms by (intro Cons_nth_drop_Suc [symmetric]) simp
  moreover have "byte_bits x ! (8 - l) = bit x (l - 1)"
    using assms by (simp add: byte_bits_def rev_nth del: upt_Suc)
  moreover have "Suc (8 - l) = 8 - (l - 1)" using assms by simp
  ultimately show ?thesis by simp
qed

lemma range_fill_spec:
  assumes "\<not> bb_failed b" "bits_wf b"
  shows "bits_left b = [] \<and> bb_failed (range_fill b) \<or>
    \<not> bb_failed (range_fill b) \<and> bits_left (range_fill b) = bits_left b \<and>
    0 < bb_left (range_fill b) \<and> bits_wf (range_fill b)"
proof (cases "bb_left b = 0 \<and> bb_offset b < length (bb_nal b)")
  case False
  then show ?thesis using assms by (auto simp: range_fill_def bits_left_def bits_of_bytes_def)
next
  case True
  define x where "x = bb_nal b ! bb_offset b"
  define xs where "xs = drop (Suc (bb_offset b)) (bb_nal b)"
  have d: "drop (bb_offset b) (bb_nal b) = x # xs"
    using True by (simp add: Cons_nth_drop_Suc x_def xs_def)
  have xl: "bb_nal b ! bb_offset b = x" by (simp add: x_def)
  consider "bb_zeros b = 2" "x < 3" | "bb_zeros b = 2" "x = 3" "xs = []"
    | y ys where "bb_zeros b = 2" "x = 3" "xs = y # ys" | "\<not> (bb_zeros b = 2 \<and> (x < 3 \<or> x = 3))"
    by (cases xs) auto
  then show ?thesis
  proof cases
    case 1
    then show ?thesis using True assms by (simp add: range_fill_def bits_left_def d xl bits_of_bytes_def)
  next
    case 2
    then have "Suc (bb_offset b) \<ge> length (bb_nal b)" by (simp add: xs_def)
    then show ?thesis using True assms 2 by (simp add: range_fill_def bits_left_def d xl bits_of_bytes_def)
  next
    case (3 y ys)
    then have "\<not> Suc (bb_offset b) \<ge> length (bb_nal b)" by (auto simp: xs_def)
    moreover from this 3(3) have "bb_nal b ! Suc (bb_offset b) = y" "drop (Suc (Suc (bb_offset b))) (bb_nal b) = ys"
      by (simp_all add: xs_def Cons_nth_drop_Suc [symmetric])
    ultimately show ?thesis using True assms 3
      by (simp add: range_fill_def bits_left_def d xl bits_of_bytes_def bits_wf_def)
  next
    case 4
    then show ?thesis using True assms
      by (auto simp: range_fill_def bits_left_def d xl bits_of_bytes_def bits_wf_def xs_def)
  qed
qed

lemma bit_step: "push_bit 1 (word_of_nat v) OR (ucast (drop_bit k x) AND 1) = (word_of_nat (2 * v + of_bool (bit x k)) :: u32)"
  for x :: u8
proof -
  have "(ucast (drop_bit k x) :: u32) AND 1 = of_bool (bit x k)"
    by (rule bit_word_eqI) (auto simp: bit_simps)
  moreover have "push_bit 1 y OR of_bool c = 2 * y + of_bool c" for y :: u32 and c
    by (cases c) (simp_all add: or_one_eq)
  ultimately show ?thesis by simp
qed

lemma range_get_loop_spec:
  assumes "bits_wf b"
  shows "case range_get_loop n b (word_of_nat v) of (r, b') \<Rightarrow> bits_wf b' \<and>
    (if n \<le> length (bits_left b)
     then (n = 0 \<or> \<not> bb_failed b') \<and> (\<not> bb_failed b \<longrightarrow> \<not> bb_failed b') \<and> bits_left b' = drop n (bits_left b) \<and>
          r = word_of_nat (bits_val (take n (bits_left b)) v)
     else bb_failed b')"
  using assms
proof (induction n arbitrary: b v)
  case (Suc n)
  show ?case
  proof (cases "bb_failed b")
    case True
    then show ?thesis using Suc.prems by (simp add: bits_left_def)
  next
    case nf: False
    from range_fill_spec [OF nf Suc.prems] consider
        "bits_left b = []" "bb_failed (range_fill b)"
      | "\<not> bb_failed (range_fill b)" "bits_left (range_fill b) = bits_left b"
        "0 < bb_left (range_fill b)" "bits_wf (range_fill b)" by metis
    then show ?thesis
    proof cases
      case 1
      have "bits_wf (range_fill b)" using Suc.prems by (auto simp: range_fill_def bits_wf_def Let_def)
      with 1 nf show ?thesis by simp
    next
      case 2
      define c where "c = range_fill b"
      define k where "k = bb_left c - 1"
      define b1 where "b1 = c\<lparr>bb_left := k\<rparr>"
      have c: "bits_left c = bits_left b" "0 < bb_left c" "bb_left c \<le> 8" "\<not> bb_failed c"
        using 2 by (simp_all add: c_def bits_wf_def)
      have "bits_left c = bit (bb_byte c) k # bits_left b1"
        using c drop_byte_bits [OF c(2,3), of "bb_byte c"] by (simp add: bits_left_def b1_def k_def)
      then have bl: "bits_left b = bit (bb_byte c) k # bits_left b1" using c by simp
      have wf1: "bits_wf b1" using c by (simp add: bits_wf_def b1_def k_def)
      have nf1: "\<not> bb_failed b1" using c by (simp add: b1_def)
      have step: "range_get_loop (Suc n) b (word_of_nat v) =
          range_get_loop n b1 (word_of_nat (2 * v + of_bool (bit (bb_byte c) k)))"
        using nf c by (simp add: Let_def bit_step c_def [symmetric] k_def [symmetric] b1_def del: One_nat_def)
      obtain r b' where e: "range_get_loop n b1 (word_of_nat (2 * v + of_bool (bit (bb_byte c) k))) = (r, b')"
        by force
      show ?thesis unfolding step e prod.case
        using Suc.IH [OF wf1, of "2 * v + of_bool (bit (bb_byte c) k)", unfolded e prod.case] nf1
        by (cases "n \<le> length (bits_left b1)") (simp_all add: bl nf)
    qed
  qed
qed simp

lemma range_get_ok:
  assumes "bits_wf b" "\<not> bb_failed b" "n \<le> length (bits_left b)"
  obtains b' where "chd_h264_range_get b n = (word_of_nat (bits_val (take n (bits_left b)) 0), b')"
    "bits_wf b'" "\<not> bb_failed b'" "bits_left b' = drop n (bits_left b)"
proof -
  obtain r b' where e: "range_get_loop n b (word_of_nat 0) = (r, b')" by force
  show ?thesis
    using range_get_loop_spec [OF assms(1), of n 0, unfolded e prod.case] assms e
    by (intro that [of b']) (simp_all add: chd_h264_range_get_def)
qed

lemma range_get_short:
  assumes "bits_wf b" "length (bits_left b) < n"
  obtains v b' where "chd_h264_range_get b n = (v, b')" "bits_wf b'" "bb_failed b'"
proof -
  obtain r b' where e: "range_get_loop n b (word_of_nat 0) = (r, b')" by force
  show ?thesis
    using range_get_loop_spec [OF assms(1), of n 0, unfolded e prod.case] assms e
    by (intro that [of r b']) (simp_all add: chd_h264_range_get_def)
qed

lemma bits_left_failed [simp]: "bb_failed b \<Longrightarrow> bits_left b = []"
  by (simp add: bits_left_def)

lemma range_get_failed: "bb_failed b \<Longrightarrow> chd_h264_range_get b n = (0, b)"
  by (cases n) (simp_all add: chd_h264_range_get_def)

lemma range_ue_zeros_spec:
  assumes "bits_wf b" "\<not> bb_failed b" "z \<le> 31"
  shows "let k = length (takeWhile Not (bits_left b)); (r, b') = range_ue_zeros b z in bits_wf b' \<and>
    (if k < length (bits_left b) \<and> z + k \<le> 31
     then r = Some (z + k) \<and> \<not> bb_failed b' \<and> bits_left b' = drop (Suc k) (bits_left b)
     else bb_failed b')"
  using assms
proof (induction "31 - z" arbitrary: b z)
  case 0
  then have z: "z = 31" by simp
  show ?case
  proof (cases "bits_left b")
    case Nil
    then obtain v b' where g: "chd_h264_range_get b 1 = (v, b')" "bits_wf b'" "bb_failed b'"
      using range_get_short [OF 0(2), of 1] by auto
    show ?thesis using 0 Nil g by (subst range_ue_zeros.simps) (simp add: z bits_wf_def)
  next
    case (Cons x xs)
    then obtain b' where g: "chd_h264_range_get b 1 = (word_of_nat (of_bool x), b')" "bits_wf b'"
      "\<not> bb_failed b'" "bits_left b' = xs"
      using range_get_ok [OF 0(2,3), of 1] by auto
    show ?thesis using 0 Cons g by (subst range_ue_zeros.simps) (simp add: z bits_wf_def)
  qed
next
  case (Suc m)
  then have z: "z + 1 \<le> 31" "m = 31 - (z + 1)" by simp_all
  show ?case
  proof (cases "bits_left b")
    case Nil
    then obtain v b' where g: "chd_h264_range_get b 1 = (v, b')" "bits_wf b'" "bb_failed b'"
      using range_get_short [OF Suc(3), of 1] by auto
    have "range_ue_zeros b' (z + 1) = (Some (z + 1), b')" using g by (subst range_ue_zeros.simps) simp
    then show ?thesis using Suc Nil g z by (subst range_ue_zeros.simps) (simp add: bits_wf_def)
  next
    case (Cons x xs)
    then obtain b' where g: "chd_h264_range_get b 1 = (word_of_nat (of_bool x), b')" "bits_wf b'"
      "\<not> bb_failed b'" "bits_left b' = xs"
      using range_get_ok [OF Suc(3,4), of 1] by auto
    show ?thesis
    proof (cases x)
      case True
      then show ?thesis using Suc Cons g z by (subst range_ue_zeros.simps) simp
    next
      case False
      have step: "range_ue_zeros b z = range_ue_zeros b' (z + 1)"
        using Suc Cons g z False by (subst range_ue_zeros.simps) simp
      show ?thesis using Suc(1) [OF z(2) g(2,3) z(1)] False g(4) Cons unfolding step by (auto simp: Let_def split: prod.splits)
    qed
  qed
qed

lemma range_ue_spec:
  assumes "bits_wf b"
  obtains v b' where "chd_h264_range_ue b = (v, b')" "bits_wf b'"
    "case ue_spec (bits_left b) of None \<Rightarrow> bb_failed b'
     | Some (n, rest) \<Rightarrow> \<not> bb_failed b' \<and> v = word_of_nat n \<and> bits_left b' = rest"
proof (cases "bb_failed b")
  case True
  then have "chd_h264_range_ue b = (0, b)"
    by (simp add: chd_h264_range_ue_def range_ue_zeros.simps [of b])
  then show ?thesis using that assms True by (simp add: ue_spec_def)
next
  case nf: False
  define k where "k = length (takeWhile Not (bits_left b))"
  obtain r b1 where e: "range_ue_zeros b 0 = (r, b1)" by force
  have s: "bits_wf b1" "if k < length (bits_left b) \<and> k \<le> 31
     then r = Some k \<and> \<not> bb_failed b1 \<and> bits_left b1 = drop (Suc k) (bits_left b) else bb_failed b1"
    using range_ue_zeros_spec [OF assms nf, of 0] by (simp_all add: e k_def Let_def)
  show ?thesis
  proof (cases "k < length (bits_left b) \<and> k \<le> 31")
    case False
    then have f: "bb_failed b1" using s by (simp only: if_False)
    have "ue_spec (bits_left b) = None" using False by (auto simp: ue_spec_def k_def Let_def)
    moreover have "chd_h264_range_ue b = (0, b1)" using f e by (simp add: chd_h264_range_ue_def split: option.splits)
    ultimately show ?thesis using that s f by simp
  next
    case kk: True
    then have s1: "r = Some k" "\<not> bb_failed b1" "bits_left b1 = drop (Suc k) (bits_left b)" using s by simp_all
    show ?thesis
    proof (cases "length (bits_left b) < 2 * k + 1")
      case True
      then have "length (bits_left b1) < k" using s1(3) kk by auto
      then obtain v b2 where "chd_h264_range_get b1 k = (v, b2)" "bits_wf b2" "bb_failed b2"
        by (rule range_get_short [OF s(1)])
      then show ?thesis using that s1 e True by (simp add: chd_h264_range_ue_def ue_spec_def k_def)
    next
      case len: False
      then have "k \<le> length (bits_left b1)" using s1(3) by simp
      then obtain b2 where g: "chd_h264_range_get b1 k = (word_of_nat (bits_val (take k (bits_left b1)) 0), b2)"
        "bits_wf b2" "\<not> bb_failed b2" "bits_left b2 = drop k (bits_left b1)"
        by (rule range_get_ok [OF s(1) s1(2)])
      have "chd_h264_range_ue b = (word_of_nat (2 ^ k - 1 + bits_val (take k (drop (Suc k) (bits_left b))) 0), b2)"
      proof -
        have "(word_of_nat (2 ^ k - 1) :: u32) = push_bit k 1 - 1" by (simp add: push_bit_eq_mult of_nat_diff)
        then show ?thesis using g s1 e by (simp add: chd_h264_range_ue_def del: add_diff_assoc2 Nat.add_diff_assoc2)
      qed
      moreover have "ue_spec (bits_left b) = Some (2 ^ k - 1 + bits_val (take k (drop (Suc k) (bits_left b))) 0, drop (2 * k + 1) (bits_left b))"
        using kk len by (simp add: ue_spec_def k_def [symmetric] Let_def)
      moreover have "bits_left b2 = drop (2 * k + 1) (bits_left b)" using g s1 by (simp add: mult_2)
      ultimately show ?thesis using that g by simp
    qed
  qed
qed

section \<open>Codes\<close>

definition nat_bits :: "nat \<Rightarrow> nat \<Rightarrow> bool list" where
  "nat_bits k m = map (bit m) (rev [0..<k])"

definition ue_code :: "nat \<Rightarrow> bool list" where
  "ue_code n = (let z = floorlog 2 (n + 1) - 1 in replicate z False @ nat_bits (z + 1) (n + 1))"

lemma length_nat_bits [simp]: "length (nat_bits k m) = k" by (simp add: nat_bits_def)

lemma nat_bits_Suc: "nat_bits (Suc k) m = bit m k # nat_bits k m" by (simp add: nat_bits_def)

lemma bits_val_nat_bits: "bits_val (nat_bits k m) v = v * 2 ^ k + m mod 2 ^ k"
proof (induction k arbitrary: v)
  case (Suc k)
  have "m mod 2 ^ Suc k = of_bool (bit m k) * 2 ^ k + m mod 2 ^ k"
    using take_bit_Suc_from_most [of k m] by (simp only: take_bit_eq_mod) (simp add: mult.commute)
  then show ?case using Suc by (simp add: nat_bits_Suc algebra_simps)
qed (simp add: nat_bits_def)

lemma ue_spec_code:
  assumes "n < 2 ^ 32 - 1"
  shows "ue_spec (ue_code n @ rest) = Some (n, rest)"
proof -
  define z where "z = floorlog 2 (n + 1) - 1"
  have fl: "floorlog 2 (n + 1) = Suc z" by (simp add: z_def floorlog_def)
  have lo: "2 ^ z \<le> n + 1" and hi: "n + 1 < 2 ^ Suc z"
    using floorlog_bounds [of "n + 1" 2] fl by simp_all
  have z31: "z \<le> 31"
  proof (rule ccontr)
    assume "\<not> z \<le> 31"
    then have "(2::nat) ^ 32 \<le> 2 ^ z" by (intro power_increasing) simp_all
    then show False using lo assms by simp
  qed
  have code: "ue_code n = replicate z False @ True # nat_bits z (n + 1)"
  proof -
    have "(n + 1) div 2 ^ z = 1" using lo hi by (intro div_nat_eqI) simp_all
    then have "bit (n + 1) z" by (simp add: bit_iff_odd)
    then show ?thesis by (simp add: ue_code_def Let_def fl [simplified] nat_bits_Suc)
  qed
  have tw: "takeWhile Not (ue_code n @ rest) = replicate z False"
    by (simp add: code takeWhile_append takeWhile_replicate)
  have v: "bits_val (nat_bits z (n + 1)) 0 = n + 1 - 2 ^ z"
    using lo hi by (simp add: bits_val_nat_bits mod_if [of "n + 1"] del: mod_if) (simp add: le_mod_geq)
  have "drop (z + 1) (ue_code n @ rest) = nat_bits z (n + 1) @ rest" by (simp add: code)
  moreover have "drop (2 * z + 1) (ue_code n @ rest) = rest" by (simp add: code mult_2)
  moreover have "\<not> length (ue_code n @ rest) < 2 * z + 1" by (simp add: code)
  ultimately show ?thesis using z31 lo unfolding ue_spec_def tw by (simp add: Let_def v [simplified])
qed

lemma bits_val_bound: "bits_val xs v < (v + 1) * 2 ^ length xs"
proof (induction xs arbitrary: v)
  case (Cons x xs)
  have "bits_val xs (2 * v + of_bool x) < (2 * v + of_bool x + 1) * 2 ^ length xs" by (rule Cons)
  also have "\<dots> \<le> (2 * v + 2) * 2 ^ length xs" by (intro mult_right_mono) simp_all
  finally show ?case by (simp add: algebra_simps)
qed simp

lemma ue_spec_bound: "ue_spec bs = Some (n, rest) \<Longrightarrow> n < 2 ^ 32 - 1"
proof -
  assume a: "ue_spec bs = Some (n, rest)"
  define z where "z = length (takeWhile Not bs)"
  have z: "z \<le> 31" and n: "n = 2 ^ z - 1 + bits_val (take z (drop (z + 1) bs)) 0" and len: "2 * z + 1 \<le> length bs"
    using a by (auto simp: ue_spec_def z_def Let_def split: if_splits)
  have "bits_val (take z (drop (z + 1) bs)) 0 < 2 ^ z"
    using bits_val_bound [of "take z (drop (z + 1) bs)" 0] len by (simp add: min_absorb2)
  moreover have "(2::nat) ^ z \<le> 2 ^ 31" using z by (intro power_increasing) simp_all
  ultimately show ?thesis using n by simp
qed

definition se_val :: "nat \<Rightarrow> int" where
  "se_val n = (if odd n then int (n div 2) + 1 else - int (n div 2))"

definition se_num :: "int \<Rightarrow> nat" where
  "se_num v = (if v > 0 then nat (2 * v - 1) else nat (- 2 * v))"

lemma se_val_num [simp]: "se_val (se_num v) = v"
  by (cases "v > 0") (auto simp: se_val_def se_num_def even_nat_iff nat_div_distrib)

lemma se_word:
  assumes "n < 2 ^ 32"
  shows "(if (word_of_nat n :: u32) AND 1 \<noteq> 0 then uint (drop_bit 1 (word_of_nat n :: u32)) + 1
          else - uint (drop_bit 1 (word_of_nat n :: u32))) = se_val n"
proof -
  have u: "uint (word_of_nat n :: u32) = int n"
    using assms by (simp add: unsigned_of_nat take_bit_nat_eq_self)
  have "(word_of_nat n :: u32) AND 1 \<noteq> 0 \<longleftrightarrow> odd n"
  proof -
    have "(word_of_nat n :: u32) AND 1 = of_bool (bit n 0)"
      by (rule bit_word_eqI) (auto simp: bit_simps)
    then show ?thesis by (simp add: bit_0)
  qed
  moreover have "uint (drop_bit 1 (word_of_nat n :: u32)) = int (n div 2)"
    using assms unfolding unsigned_drop_bit_eq u
    by (simp add: drop_bit_eq_div zdiv_int take_bit_int_eq_self)
  ultimately show ?thesis by (simp add: se_val_def)
qed

text \<open>\<open>at b bs\<close>: the reader has not failed and \<open>bs\<close> is what is left.\<close>

definition at_bits :: "chd_h264_range_bits \<Rightarrow> bool list \<Rightarrow> bool" where
  "at_bits b bs \<longleftrightarrow> bits_wf b \<and> \<not> bb_failed b \<and> bits_left b = bs"

lemma read_ue:
  assumes "at_bits b (ue_code n @ rest)" "n < 2 ^ 32 - 1"
  obtains b' where "chd_h264_range_ue b = (word_of_nat n, b')" "at_bits b' rest"
proof -
  obtain v b' where "chd_h264_range_ue b = (v, b')" "bits_wf b'"
    "case ue_spec (bits_left b) of None \<Rightarrow> bb_failed b'
     | Some (n, rest) \<Rightarrow> \<not> bb_failed b' \<and> v = word_of_nat n \<and> bits_left b' = rest"
    using range_ue_spec assms(1) by (metis at_bits_def)
  then show ?thesis using that assms by (simp add: at_bits_def ue_spec_code)
qed

lemma read_se:
  assumes "at_bits b (ue_code (se_num v) @ rest)" "\<bar>v\<bar> < 2 ^ 31"
  obtains b' where "chd_h264_range_se b = (v, b')" "at_bits b' rest"
proof -
  have n: "se_num v < 2 ^ 32 - 1" using assms(2) by (auto simp: se_num_def)
  then obtain b' where b': "chd_h264_range_ue b = (word_of_nat (se_num v), b')" "at_bits b' rest"
    using read_ue [OF assms(1)] by blast
  have n2: "se_num v < 2 ^ 32" using n by simp
  show ?thesis by (rule that [OF _ b'(2)]) (simp add: chd_h264_range_se_def b' se_word [OF n2, simplified])
qed

lemma read_bits:
  assumes "at_bits b (nat_bits k m @ rest)" "m < 2 ^ k"
  obtains b' where "chd_h264_range_get b k = (word_of_nat m, b')" "at_bits b' rest"
proof -
  have a: "bits_wf b" "\<not> bb_failed b" "bits_left b = nat_bits k m @ rest" using assms by (simp_all add: at_bits_def)
  then have "k \<le> length (bits_left b)" by simp
  then obtain b' where "chd_h264_range_get b k = (word_of_nat (bits_val (take k (bits_left b)) 0), b')"
    "bits_wf b'" "\<not> bb_failed b'" "bits_left b' = drop k (bits_left b)"
    using range_get_ok [OF a(1,2)] by blast
  then show ?thesis using that assms a by (simp add: at_bits_def bits_val_nat_bits)
qed

lemma read_flag:
  assumes "at_bits b (x # rest)"
  obtains b' where "chd_h264_range_get b 1 = (of_bool x, b')" "at_bits b' rest"
proof -
  have "at_bits b (nat_bits 1 (of_bool x) @ rest)" using assms by (cases x) (simp_all add: nat_bits_def bit_0)
  then show ?thesis using that read_bits [of b 1 "of_bool x" rest] by (cases x) auto
qed

section \<open>Emulation prevention\<close>

fun esc :: "nat \<Rightarrow> u8 list \<Rightarrow> u8 list" where
  "esc z [] = []"
| "esc z (x # xs) =
    (if z = 2 \<and> x \<le> 3 then 3 # x # esc (if x = 0 then 1 else 0) xs
     else x # esc (if x = 0 then z + 1 else 0) xs)"

fun esc_ok :: "nat \<Rightarrow> u8 list \<Rightarrow> bool" where
  "esc_ok z [] = True"
| "esc_ok z (x # xs) =
    (if z = 2 \<and> x < 3 then False
     else if z = 2 \<and> x = 3 then (case xs of [] \<Rightarrow> False | y # ys \<Rightarrow> y \<le> 3 \<and> esc_ok (if y = 0 then 1 else 0) ys)
     else esc_ok (if x = 0 then z + 1 else 0) xs)"

lemma unesc_esc: "z \<le> 2 \<Longrightarrow> unesc z (esc z bs) = bs \<and> esc_ok z (esc z bs)"
proof (induction z bs rule: esc.induct)
  case (2 z x xs)
  have "\<not> x \<le> 3 \<Longrightarrow> \<not> x < 3 \<and> x \<noteq> 3" by auto
  with 2 show ?case by (cases "z = 2 \<and> x \<le> 3") (auto simp: not_less)
qed simp

lemma range_ebsp_loop_esc:
  "zeros \<le> 2 \<Longrightarrow> range_ebsp_loop nal i zeros \<longleftrightarrow> esc_ok zeros (drop i nal)"
proof (induction nal i zeros rule: range_ebsp_loop.induct)
  case (1 nal i zeros)
  show ?case
  proof (cases "i < length nal")
    case False
    then show ?thesis by (subst range_ebsp_loop.simps) simp
  next
    case True
    then have d: "drop i nal = nal ! i # drop (i + 1) nal" by (simp add: Cons_nth_drop_Suc)
    show ?thesis
    proof (cases "zeros = 2 \<and> nal ! i = 3")
      case esc: True
      show ?thesis
      proof (cases "i + 1 < length nal")
        case False
        then show ?thesis using esc True by (subst range_ebsp_loop.simps) (simp add: d Let_def)
      next
        case more: True
        then have "drop (i + 1) nal = nal ! (i + 1) # drop (i + 2) nal"
          using Cons_nth_drop_Suc [of "i + 1" nal] by simp
        then show ?thesis using esc True more 1(1) [OF True refl] unfolding d
          by (subst range_ebsp_loop.simps) (auto simp: Let_def not_less)
      qed
    next
      case False
      then show ?thesis using True 1(2) [OF True refl] 1(3) unfolding d
        by (subst range_ebsp_loop.simps) (auto simp: Let_def)
    qed
  qed
qed

section \<open>Sequence parameter sets\<close>

datatype chd_h264_range_status = CHD_H264_RANGE_OK | CHD_H264_RANGE_INVALID | CHD_H264_RANGE_UNSUPPORTED

record chd_h264_sps_range =
  sr_sps_id :: u32
  sr_vui_present :: bool
  sr_video_signal_present :: bool
  sr_range_present :: bool
  sr_full_range :: bool
  sr_frame_num_bits :: u32
  sr_poc_type :: u32
  sr_poc_lsb_bits :: u32
  sr_pic_size_in_map_units :: u32
  sr_frame_mbs_only :: bool
  sr_delta_pic_order_always_zero :: bool

definition sps_zero :: chd_h264_sps_range where
  "sps_zero = \<lparr>sr_sps_id = 0, sr_vui_present = False, sr_video_signal_present = False,
     sr_range_present = False, sr_full_range = False, sr_frame_num_bits = 0, sr_poc_type = 0,
     sr_poc_lsb_bits = 0, sr_pic_size_in_map_units = 0, sr_frame_mbs_only = False,
     sr_delta_pic_order_always_zero = False\<rparr>"

abbreviation (input) CHD_H264_SPS_MAX_BYTES :: nat where "CHD_H264_SPS_MAX_BYTES \<equiv> 4096"

type_synonym 'a sps_result = "chd_h264_range_status + 'a"

text \<open>One explicit scaling list of \<open>n\<close> more entries.\<close>

fun scaling_list_loop :: "nat \<Rightarrow> u32 \<Rightarrow> u32 \<Rightarrow> chd_h264_range_bits \<Rightarrow> chd_h264_range_bits" where
  "scaling_list_loop 0 lst nxt b = b"
| "scaling_list_loop (Suc n) lst nxt b =
    (if bb_failed b then b
     else
       let (nxt1, b2) =
             (if nxt \<noteq> 0 then
                let (delta, b1) = chd_h264_range_se b
                in ((lst + word_of_int delta + 256) AND 255,
                    if delta < -128 \<or> delta > 127 then b1\<lparr>bb_failed := True\<rparr> else b1)
              else (nxt, b))
       in scaling_list_loop n (if nxt1 \<noteq> 0 then nxt1 else lst) nxt1 b2)"

text \<open>The eight lists, from list \<open>i\<close> on.\<close>

fun scaling_lists_loop :: "nat list \<Rightarrow> chd_h264_range_bits \<Rightarrow> chd_h264_range_bits" where
  "scaling_lists_loop [] b = b"
| "scaling_lists_loop (i # is) b =
    (if bb_failed b then b
     else
       let (present, b1) = chd_h264_range_get b 1
       in scaling_lists_loop is
            (if present \<noteq> 0 then scaling_list_loop (if i < 6 then 16 else 64) 8 8 b1 else b1))"

text \<open>The fields of the high profile: 8-bit 4:2:0 only.\<close>

definition sps_high_profile :: "chd_h264_range_bits \<Rightarrow> chd_h264_range_bits sps_result" where
  "sps_high_profile b =
    (let reject = (\<lambda>b. Inl (if bb_failed b then CHD_H264_RANGE_INVALID else CHD_H264_RANGE_UNSUPPORTED));
         (chroma_format, b) = chd_h264_range_ue b
     in if chroma_format \<noteq> 1 then reject b
        else let (luma_depth, b) = chd_h264_range_ue b
        in if luma_depth \<noteq> 0 then reject b
           else let (chroma_depth, b) = chd_h264_range_ue b
           in if chroma_depth \<noteq> 0 then reject b
              else let (_, b) = chd_h264_range_get b 1; (matrix, b) = chd_h264_range_get b 1
              in Inr (if matrix \<noteq> 0 then scaling_lists_loop [0..<8] b else b))"

fun skip_se :: "nat \<Rightarrow> chd_h264_range_bits \<Rightarrow> chd_h264_range_bits" where
  "skip_se 0 b = b"
| "skip_se (Suc n) b = (if bb_failed b then b else skip_se n (snd (chd_h264_range_se b)))"

text \<open>Frame number and picture order count.\<close>

definition sps_poc ::
  "chd_h264_range_bits \<Rightarrow> chd_h264_sps_range \<Rightarrow> (chd_h264_sps_range \<times> chd_h264_range_bits) sps_result" where
  "sps_poc b out =
    (let (value, b) = chd_h264_range_ue b
     in if value > 12 then Inl CHD_H264_RANGE_INVALID
        else
          let out = out\<lparr>sr_frame_num_bits := value + 4\<rparr>;
              (value, b) = chd_h264_range_ue b
          in if value > 2 then Inl CHD_H264_RANGE_INVALID
             else
               let out = out\<lparr>sr_poc_type := value\<rparr>
               in if value = 0 then
                    let (value, b) = chd_h264_range_ue b
                    in if value > 12 then Inl CHD_H264_RANGE_INVALID
                       else Inr (out\<lparr>sr_poc_lsb_bits := value + 4\<rparr>, b)
                  else if value = 1 then
                    let (zero, b) = chd_h264_range_get b 1;
                        out = out\<lparr>sr_delta_pic_order_always_zero := zero \<noteq> 0\<rparr>;
                        (_, b) = chd_h264_range_se b; (_, b) = chd_h264_range_se b;
                        (value, b) = chd_h264_range_ue b
                    in if value > 255 then Inl CHD_H264_RANGE_INVALID else Inr (out, skip_se (unat value) b)
                  else Inr (out, b))"

text \<open>Reference frames, size, frame or field coding, cropping.\<close>

definition sps_geometry ::
  "chd_h264_range_bits \<Rightarrow> chd_h264_sps_range \<Rightarrow> (chd_h264_sps_range \<times> chd_h264_range_bits) sps_result" where
  "sps_geometry b out =
    (let (refs, b) = chd_h264_range_ue b
     in if refs > 16 then Inl CHD_H264_RANGE_INVALID
        else
          let (_, b) = chd_h264_range_get b 1;
              (width, b) = chd_h264_range_ue b;
              (height, b) = chd_h264_range_ue b;
              map_units = (ucast width + 1) * (ucast height + 1) :: u64;
              out = (if map_units \<le> 0xFFFFFFFF then out\<lparr>sr_pic_size_in_map_units := ucast map_units\<rparr> else out);
              (frame, b) = chd_h264_range_get b 1;
              out = out\<lparr>sr_frame_mbs_only := frame \<noteq> 0\<rparr>;
              b = (if frame = 0 then snd (chd_h264_range_get b 1) else b);
              (_, b) = chd_h264_range_get b 1;
              (crop, b) = chd_h264_range_get b 1;
              b = (if crop \<noteq> 0 then ((snd \<circ> chd_h264_range_ue) ^^ 4) b else b)
          in Inr (out, b))"

text \<open>The usability information up to the range flag.\<close>

definition sps_vui ::
  "chd_h264_range_bits \<Rightarrow> chd_h264_sps_range \<Rightarrow> (chd_h264_sps_range \<times> chd_h264_range_bits) sps_result" where
  "sps_vui b out =
    (let (aspect, b) = chd_h264_range_get b 1;
         sar = (if aspect \<noteq> 0 then
             let (value, b) = chd_h264_range_get b 8
             in if value = 255 then
                  let (width, b) = chd_h264_range_get b 16; (height, b) = chd_h264_range_get b 16
                  in if width = 0 \<or> height = 0 then Inl CHD_H264_RANGE_INVALID else Inr b
                else if value > 16 then Inl CHD_H264_RANGE_INVALID else Inr b
           else Inr b)
     in case sar of Inl sts \<Rightarrow> Inl sts
        | Inr b \<Rightarrow>
          let (overscan, b) = chd_h264_range_get b 1;
              b = (if overscan \<noteq> 0 then snd (chd_h264_range_get b 1) else b);
              (signal, b) = chd_h264_range_get b 1;
              out = out\<lparr>sr_video_signal_present := signal \<noteq> 0\<rparr>
          in if signal = 0 then Inr (out, b)
             else
               let (format, b) = chd_h264_range_get b 3
               in if format > 5 then Inl CHD_H264_RANGE_INVALID
                  else
                    let (full, b) = chd_h264_range_get b 1;
                        out = out\<lparr>sr_range_present := True, sr_full_range := full \<noteq> 0\<rparr>;
                        (colour, b) = chd_h264_range_get b 1;
                        b = (if colour \<noteq> 0 then snd (chd_h264_range_get b 24) else b)
                    in Inr (out, b))"

text \<open>Everything after the profile-specific part.\<close>

definition sps_body :: "chd_h264_range_bits \<Rightarrow> chd_h264_sps_range \<Rightarrow> chd_h264_sps_range sps_result" where
  "sps_body b out =
    (case sps_poc b out of Inl sts \<Rightarrow> Inl sts
     | Inr (out, b) \<Rightarrow> (case sps_geometry b out of Inl sts \<Rightarrow> Inl sts
     | Inr (out, b) \<Rightarrow>
       let (vui, b) = chd_h264_range_get b 1;
           out = out\<lparr>sr_vui_present := vui \<noteq> 0\<rparr>
       in case (if vui \<noteq> 0 \<and> \<not> bb_failed b then sps_vui b out else Inr (out, b)) of
            Inl sts \<Rightarrow> Inl sts
          | Inr (out, b) \<Rightarrow> if bb_failed b then Inl CHD_H264_RANGE_INVALID else Inr out))"

definition chd_h264_read_sps_range :: "u8 list option \<Rightarrow> chd_h264_sps_range sps_result" where
  "chd_h264_read_sps_range nal =
    (case nal of None \<Rightarrow> Inl CHD_H264_RANGE_INVALID
     | Some nal \<Rightarrow>
       if length nal < 4 \<or> length nal > CHD_H264_SPS_MAX_BYTES \<or> nal ! 0 AND 0x80 \<noteq> 0 \<or>
          nal ! 0 AND 0x60 = 0 \<or> nal ! 0 AND 31 \<noteq> 7 \<or> \<not> chd_h264_range_ebsp nal
       then Inl CHD_H264_RANGE_INVALID
       else
         let b = bits_init nal;
             (profile, b) = chd_h264_range_get b 8;
             (constraints, b) = chd_h264_range_get b 8
         in if constraints AND 3 \<noteq> 0 then Inl CHD_H264_RANGE_INVALID
            else
              let (_, b) = chd_h264_range_get b 8;
                  (sps_id, b) = chd_h264_range_ue b;
                  out = sps_zero\<lparr>sr_sps_id := sps_id\<rparr>
              in if bb_failed b \<or> sps_id > 31 then Inl CHD_H264_RANGE_INVALID
                 else if profile \<noteq> 66 \<and> profile \<noteq> 77 \<and> profile \<noteq> 100 then Inl CHD_H264_RANGE_UNSUPPORTED
                 else case (if profile = 100 then sps_high_profile b else Inr b) of
                        Inl sts \<Rightarrow> Inl sts | Inr b \<Rightarrow> sps_body b out)"

section \<open>What a successful read guarantees\<close>

definition sps_ok :: "chd_h264_sps_range \<Rightarrow> bool" where
  "sps_ok s \<longleftrightarrow> sr_sps_id s \<le> 31 \<and> 4 \<le> sr_frame_num_bits s \<and> sr_frame_num_bits s \<le> 16 \<and> sr_poc_type s \<le> 2 \<and>
     (if sr_poc_type s = 0 then 4 \<le> sr_poc_lsb_bits s \<and> sr_poc_lsb_bits s \<le> 16 else sr_poc_lsb_bits s = 0) \<and>
     (sr_full_range s \<longrightarrow> sr_range_present s) \<and> (sr_range_present s \<longrightarrow> sr_video_signal_present s) \<and>
     (sr_video_signal_present s \<longrightarrow> sr_vui_present s)"

lemma value_plus_4: "\<not> v > 12 \<Longrightarrow> 4 \<le> v + 4 \<and> v + 4 \<le> 16" for v :: u32
proof -
  assume "\<not> v > 12"
  then have "unat v \<le> 12" by (simp add: word_le_nat_alt not_less)
  then have "unat (v + 4) = unat v + 4" by (simp add: unat_word_ariths)
  with \<open>unat v \<le> 12\<close> show ?thesis by (simp add: word_le_nat_alt)
qed

lemma sps_poc_fields:
  assumes "sps_poc b out = Inr (out', b')"
  shows "4 \<le> sr_frame_num_bits out' \<and> sr_frame_num_bits out' \<le> 16" "sr_poc_type out' \<le> 2"
    "if sr_poc_type out' = 0 then 4 \<le> sr_poc_lsb_bits out' \<and> sr_poc_lsb_bits out' \<le> 16
     else sr_poc_lsb_bits out' = sr_poc_lsb_bits out"
    "sr_sps_id out' = sr_sps_id out" "sr_vui_present out' = sr_vui_present out"
    "sr_video_signal_present out' = sr_video_signal_present out" "sr_range_present out' = sr_range_present out"
    "sr_full_range out' = sr_full_range out"
  using assms by (auto simp: sps_poc_def Let_def value_plus_4 split: prod.splits if_splits)

lemma sps_geometry_fields:
  assumes "sps_geometry b out = Inr (out', b')"
  shows "sr_frame_num_bits out' = sr_frame_num_bits out" "sr_poc_type out' = sr_poc_type out"
    "sr_poc_lsb_bits out' = sr_poc_lsb_bits out"
    "sr_sps_id out' = sr_sps_id out" "sr_vui_present out' = sr_vui_present out"
    "sr_video_signal_present out' = sr_video_signal_present out" "sr_range_present out' = sr_range_present out"
    "sr_full_range out' = sr_full_range out"
  using assms by (auto simp: sps_geometry_def Let_def split: prod.splits if_splits)

lemma sps_vui_fields:
  assumes "sps_vui b out = Inr (out', b')" "\<not> sr_range_present out" "\<not> sr_full_range out"
  shows "sr_frame_num_bits out' = sr_frame_num_bits out" "sr_poc_type out' = sr_poc_type out"
    "sr_poc_lsb_bits out' = sr_poc_lsb_bits out"
    "sr_sps_id out' = sr_sps_id out" "sr_vui_present out' = sr_vui_present out"
    "sr_range_present out' \<longrightarrow> sr_video_signal_present out'" "sr_full_range out' \<longrightarrow> sr_range_present out'"
  using assms by (auto simp: sps_vui_def Let_def split: prod.splits if_splits sum.splits)

lemma sps_bodyE:
  assumes "sps_body b out = Inr s"
  obtains out1 b1 out2 b2 where "sps_poc b out = Inr (out1, b1)" "sps_geometry b1 out1 = Inr (out2, b2)"
    "(\<exists>b3 b4. sps_vui b3 (out2\<lparr>sr_vui_present := True\<rparr>) = Inr (s, b4)) \<or> (\<exists>v. s = out2\<lparr>sr_vui_present := v\<rparr>)"
proof -
  obtain out1 b1 where 1: "sps_poc b out = Inr (out1, b1)"
    using assms by (auto simp: sps_body_def split: sum.splits)
  obtain out2 b2 where 2: "sps_geometry b1 out1 = Inr (out2, b2)"
    using assms by (auto simp: sps_body_def 1 split: sum.splits)
  obtain vui b3 where g: "chd_h264_range_get b2 1 = (vui, b3)" by force
  have "(\<exists>b3 b4. sps_vui b3 (out2\<lparr>sr_vui_present := True\<rparr>) = Inr (s, b4)) \<or> (\<exists>v. s = out2\<lparr>sr_vui_present := v\<rparr>)"
    using assms by (cases "vui \<noteq> 0 \<and> \<not> bb_failed b3")
      (auto simp: sps_body_def 1 2 g [simplified] Let_def split: sum.splits if_splits)
  with 1 2 show ?thesis by (rule that)
qed

lemma read_sps_rangeE:
  assumes "chd_h264_read_sps_range nal = Inr s"
  obtains sid b where "\<not> sid > 31" "sps_body b (sps_zero\<lparr>sr_sps_id := sid\<rparr>) = Inr s"
  using assms by (auto simp: chd_h264_read_sps_range_def Let_def split: option.splits prod.splits if_splits sum.splits)

lemma read_sps_range_ok:
  assumes "chd_h264_read_sps_range nal = Inr s"
  shows "sps_ok s"
proof -
  obtain sid b where sid: "\<not> sid > 31" and body: "sps_body b (sps_zero\<lparr>sr_sps_id := sid\<rparr>) = Inr s"
    using assms by (rule read_sps_rangeE)
  from body obtain out1 b1 out2 b2 where r: "sps_poc b (sps_zero\<lparr>sr_sps_id := sid\<rparr>) = Inr (out1, b1)"
    "sps_geometry b1 out1 = Inr (out2, b2)"
    and v: "(\<exists>b3 b4. sps_vui b3 (out2\<lparr>sr_vui_present := True\<rparr>) = Inr (s, b4)) \<or> (\<exists>v. s = out2\<lparr>sr_vui_present := v\<rparr>)"
    by (rule sps_bodyE)
  note p = sps_poc_fields [OF r(1)] and g = sps_geometry_fields [OF r(2)]
  have z: "\<not> sr_range_present out2" "\<not> sr_full_range out2" "\<not> sr_video_signal_present out2"
    using p g by (simp_all add: sps_zero_def)
  have pg: "sr_sps_id out2 = sid" "4 \<le> sr_frame_num_bits out2" "sr_frame_num_bits out2 \<le> 16" "sr_poc_type out2 \<le> 2"
    "if sr_poc_type out2 = 0 then 4 \<le> sr_poc_lsb_bits out2 \<and> sr_poc_lsb_bits out2 \<le> 16 else sr_poc_lsb_bits out2 = 0"
    using p g by (simp_all add: sps_zero_def)
  from v show ?thesis
  proof (elim disjE exE)
    fix b3 b4 assume v: "sps_vui b3 (out2\<lparr>sr_vui_present := True\<rparr>) = Inr (s, b4)"
    show ?thesis using sps_vui_fields [OF v] z pg sid by (simp add: sps_ok_def not_less)
  next
    fix v assume "s = out2\<lparr>sr_vui_present := v\<rparr>"
    then show ?thesis using z pg sid by (simp add: sps_ok_def not_less)
  qed
qed

section \<open>Writing a sequence parameter set\<close>

text \<open>
  The syntax elements of a set in the scope of the reader. A scaling list is given by its values: a list
  shorter than its matrix repeats its last value to the end, and the empty list stands for the default matrix.
\<close>

datatype poc_syntax = Poc0 nat | Poc1 bool int int "int list" | Poc2
datatype aspect_syntax = Aspect_Idc nat | Aspect_Extended nat nat

record vui_syntax =
  vx_aspect :: "aspect_syntax option"
  vx_overscan :: "bool option"
  vx_signal :: "(nat \<times> bool \<times> nat option) option"

record sps_syntax =
  sx_profile :: nat
  sx_constraints :: nat
  sx_level :: nat
  sx_id :: nat
  sx_bypass :: bool
  sx_scaling :: "nat list option list option"
  sx_frame_num :: nat
  sx_poc :: poc_syntax
  sx_refs :: nat
  sx_gaps :: bool
  sx_width :: nat
  sx_height :: nat
  sx_frame_mbs :: bool
  sx_mbaff :: bool
  sx_direct :: bool
  sx_crop :: "(nat \<times> nat \<times> nat \<times> nat) option"
  sx_vui :: "vui_syntax option"

definition se_code :: "int \<Rightarrow> bool list" where "se_code v = ue_code (se_num v)"

text \<open>
  The standard codes each value as the difference to the one before, modulo 256 and in the range of a signed
  byte; the value zero ends a list early.
\<close>

definition scale_delta :: "nat \<Rightarrow> nat \<Rightarrow> int" where
  "scale_delta lst v = (int v - int lst + 128) mod 256 - 128"

fun scaling_list_bits :: "nat \<Rightarrow> nat \<Rightarrow> nat list \<Rightarrow> bool list" where
  "scaling_list_bits lst n [] = (if n = 0 then [] else se_code (scale_delta lst 0))"
| "scaling_list_bits lst n (v # vs) = se_code (scale_delta lst v) @ scaling_list_bits v (n - 1) vs"

definition scaling_size :: "nat \<Rightarrow> nat" where "scaling_size i = (if i < 6 then 16 else 64)"

fun scaling_lists_bits :: "nat list \<Rightarrow> nat list option list \<Rightarrow> bool list" where
  "scaling_lists_bits (i # is) (None # ls) = False # scaling_lists_bits is ls"
| "scaling_lists_bits (i # is) (Some vs # ls) = True # scaling_list_bits 8 (scaling_size i) vs @ scaling_lists_bits is ls"
| "scaling_lists_bits is ls = []"

fun poc_bits :: "poc_syntax \<Rightarrow> bool list" where
  "poc_bits (Poc0 n) = ue_code 0 @ ue_code n"
| "poc_bits (Poc1 z a c ds) = ue_code 1 @ [z] @ se_code a @ se_code c @ ue_code (length ds) @ concat (map se_code ds)"
| "poc_bits Poc2 = ue_code 2"

fun aspect_bits :: "aspect_syntax option \<Rightarrow> bool list" where
  "aspect_bits None = [False]"
| "aspect_bits (Some (Aspect_Idc n)) = True # nat_bits 8 n"
| "aspect_bits (Some (Aspect_Extended w h)) = True # nat_bits 8 255 @ nat_bits 16 w @ nat_bits 16 h"

definition opt_bits :: "('a \<Rightarrow> bool list) \<Rightarrow> 'a option \<Rightarrow> bool list" where
  "opt_bits f x = (case x of None \<Rightarrow> [False] | Some v \<Rightarrow> True # f v)"

definition vui_bits :: "vui_syntax \<Rightarrow> bool list" where
  "vui_bits v = aspect_bits (vx_aspect v) @ opt_bits (\<lambda>x. [x]) (vx_overscan v) @
     opt_bits (\<lambda>(f, full, c). nat_bits 3 f @ [full] @ opt_bits (nat_bits 24) c) (vx_signal v)"

definition geometry_bits :: "sps_syntax \<Rightarrow> bool list" where
  "geometry_bits s = ue_code (sx_refs s) @ [sx_gaps s] @ ue_code (sx_width s) @ ue_code (sx_height s) @
     (if sx_frame_mbs s then [True] else [False, sx_mbaff s]) @ [sx_direct s] @
     opt_bits (\<lambda>(l, r, t, b). ue_code l @ ue_code r @ ue_code t @ ue_code b) (sx_crop s)"

definition high_bits :: "sps_syntax \<Rightarrow> bool list" where
  "high_bits s = ue_code 1 @ ue_code 0 @ ue_code 0 @ [sx_bypass s] @ opt_bits (scaling_lists_bits [0..<8]) (sx_scaling s)"

definition sps_bits :: "sps_syntax \<Rightarrow> bool list" where
  "sps_bits s = nat_bits 8 (sx_profile s) @ nat_bits 8 (sx_constraints s) @ nat_bits 8 (sx_level s) @
     ue_code (sx_id s) @
     (if sx_profile s = 100 then high_bits s else []) @
     ue_code (sx_frame_num s) @ poc_bits (sx_poc s) @ geometry_bits s @ opt_bits vui_bits (sx_vui s)"

definition scaling_list_ok :: "nat \<Rightarrow> nat list option \<Rightarrow> bool" where
  "scaling_list_ok i l \<longleftrightarrow> (case l of None \<Rightarrow> True | Some vs \<Rightarrow> length vs \<le> scaling_size i \<and> (\<forall>v\<in>set vs. 0 < v \<and> v < 256))"

definition scaling_ok :: "nat list option list \<Rightarrow> bool" where
  "scaling_ok ls \<longleftrightarrow> list_all2 scaling_list_ok [0..<8] ls"

fun poc_ok :: "poc_syntax \<Rightarrow> bool" where
  "poc_ok (Poc0 n) \<longleftrightarrow> n \<le> 12"
| "poc_ok (Poc1 z a c ds) \<longleftrightarrow> \<bar>a\<bar> < 2 ^ 31 \<and> \<bar>c\<bar> < 2 ^ 31 \<and> length ds \<le> 255 \<and> (\<forall>d\<in>set ds. \<bar>d\<bar> < 2 ^ 31)"
| "poc_ok Poc2 \<longleftrightarrow> True"

fun aspect_ok :: "aspect_syntax option \<Rightarrow> bool" where
  "aspect_ok None \<longleftrightarrow> True"
| "aspect_ok (Some (Aspect_Idc n)) \<longleftrightarrow> n \<le> 16"
| "aspect_ok (Some (Aspect_Extended w h)) \<longleftrightarrow> 0 < w \<and> w < 2 ^ 16 \<and> 0 < h \<and> h < 2 ^ 16"

definition vui_ok :: "vui_syntax \<Rightarrow> bool" where
  "vui_ok v \<longleftrightarrow> aspect_ok (vx_aspect v) \<and>
     (case vx_signal v of None \<Rightarrow> True | Some (f, full, c) \<Rightarrow> f \<le> 5 \<and> (case c of None \<Rightarrow> True | Some x \<Rightarrow> x < 2 ^ 24))"

definition geometry_ok :: "sps_syntax \<Rightarrow> bool" where
  "geometry_ok s \<longleftrightarrow> sx_refs s \<le> 16 \<and> sx_width s < 2 ^ 32 - 1 \<and> sx_height s < 2 ^ 32 - 1 \<and>
     (case sx_crop s of None \<Rightarrow> True
      | Some (l, r, t, b) \<Rightarrow> l < 2 ^ 32 - 1 \<and> r < 2 ^ 32 - 1 \<and> t < 2 ^ 32 - 1 \<and> b < 2 ^ 32 - 1)"

definition syntax_ok :: "sps_syntax \<Rightarrow> bool" where
  "syntax_ok s \<longleftrightarrow> sx_profile s \<in> {66, 77, 100} \<and> sx_constraints s < 256 \<and> sx_constraints s mod 4 = 0 \<and>
     sx_level s < 256 \<and> sx_id s \<le> 31 \<and> sx_frame_num s \<le> 12 \<and> poc_ok (sx_poc s) \<and> geometry_ok s \<and>
     (case sx_scaling s of None \<Rightarrow> True | Some ls \<Rightarrow> scaling_ok ls) \<and>
     (case sx_vui s of None \<Rightarrow> True | Some v \<Rightarrow> vui_ok v)"

text \<open>What the reader is to report.\<close>

definition sps_expected :: "sps_syntax \<Rightarrow> chd_h264_sps_range" where
  "sps_expected s =
    (let units = (sx_width s + 1) * (sx_height s + 1);
         signal = Option.bind (sx_vui s) vx_signal
     in \<lparr>sr_sps_id = word_of_nat (sx_id s), sr_vui_present = sx_vui s \<noteq> None,
         sr_video_signal_present = signal \<noteq> None, sr_range_present = signal \<noteq> None,
         sr_full_range = (case signal of None \<Rightarrow> False | Some (f, full, c) \<Rightarrow> full),
         sr_frame_num_bits = word_of_nat (sx_frame_num s + 4),
         sr_poc_type = (case sx_poc s of Poc0 n \<Rightarrow> 0 | Poc1 z a c ds \<Rightarrow> 1 | Poc2 \<Rightarrow> 2),
         sr_poc_lsb_bits = (case sx_poc s of Poc0 n \<Rightarrow> word_of_nat (n + 4) | _ \<Rightarrow> 0),
         sr_pic_size_in_map_units = (if units < 2 ^ 32 then word_of_nat units else 0),
         sr_frame_mbs_only = sx_frame_mbs s,
         sr_delta_pic_order_always_zero = (case sx_poc s of Poc1 z a c ds \<Rightarrow> z | _ \<Rightarrow> False)\<rparr>)"

lemma word_nat_gt_num:
  "n < 2 ^ 32 \<Longrightarrow> numeral k < (word_of_nat n :: u32) \<longleftrightarrow> unat (numeral k :: u32) < n"
  by (simp add: word_less_nat_alt unsigned_of_nat take_bit_nat_eq_self)

lemma word_nat_eq_0: "n < 2 ^ 32 \<Longrightarrow> (word_of_nat n :: u32) = 0 \<longleftrightarrow> n = 0"
  using unat_word_of_nat_u32 [of n] by (auto simp: unat_eq_zero [symmetric] simp del: unat_eq_zero)

lemmas read_se_code = read_se [folded se_code_def]

lemma skip_se_codes:
  assumes "at_bits b (concat (map se_code ds) @ rest)" "\<forall>d\<in>set ds. \<bar>d\<bar> < 2 ^ 31"
  shows "at_bits (skip_se (length ds) b) rest"
  using assms
proof (induction ds arbitrary: b)
  case (Cons d ds)
  then have "at_bits b (se_code d @ concat (map se_code ds) @ rest)" "\<bar>d\<bar> < 2 ^ 31" by simp_all
  then obtain b' where b': "chd_h264_range_se b = (d, b')" "at_bits b' (concat (map se_code ds) @ rest)" by (rule read_se_code)
  have "\<not> bb_failed b" using Cons.prems by (simp add: at_bits_def)
  then show ?case using Cons.IH [OF b'(2)] Cons.prems b' by simp
qed simp

lemma read_poc:
  assumes "at_bits b (ue_code n @ poc_bits p @ rest)" "n \<le> 12" "poc_ok p"
  obtains b' where "at_bits b' rest" "sps_poc b out = Inr (out\<lparr>sr_frame_num_bits := word_of_nat (n + 4),
      sr_poc_type := (case p of Poc0 n \<Rightarrow> 0 | Poc1 z a c ds \<Rightarrow> 1 | Poc2 \<Rightarrow> 2),
      sr_poc_lsb_bits := (case p of Poc0 n \<Rightarrow> word_of_nat (n + 4) | _ \<Rightarrow> sr_poc_lsb_bits out),
      sr_delta_pic_order_always_zero := (case p of Poc1 z a c ds \<Rightarrow> z | _ \<Rightarrow> sr_delta_pic_order_always_zero out)\<rparr>, b')"
proof -
  obtain b1 where b1: "chd_h264_range_ue b = (word_of_nat n, b1)" "at_bits b1 (poc_bits p @ rest)"
    using read_ue [OF assms(1)] assms(2) by auto
  have n12: "\<not> (12::u32) < word_of_nat n" using assms(2) by (simp add: word_nat_gt_num)
  show ?thesis
  proof (cases p)
    case (Poc0 m)
    then have m: "m \<le> 12" using assms(3) by simp
    then have m12: "\<not> (12::u32) < word_of_nat m" by (simp add: word_nat_gt_num)
    obtain b2 where b2: "chd_h264_range_ue b1 = (word_of_nat 0, b2)" "at_bits b2 (ue_code m @ rest)"
      using b1(2) Poc0 read_ue [of b1 0] by auto
    obtain b3 where b3: "chd_h264_range_ue b2 = (word_of_nat m, b3)" "at_bits b3 rest"
      using m read_ue [OF b2(2)] by auto
    show ?thesis by (rule that [OF b3(2)]) (simp add: sps_poc_def b1 b2 b3 n12 m12 Poc0)
  next
    case (Poc1 z a c ds)
    then have ok: "\<bar>a\<bar> < 2 ^ 31" "\<bar>c\<bar> < 2 ^ 31" "length ds \<le> 255" "\<forall>d\<in>set ds. \<bar>d\<bar> < 2 ^ 31" using assms(3) by simp_all
    obtain b2 where b2: "chd_h264_range_ue b1 = (word_of_nat 1, b2)"
      "at_bits b2 (z # se_code a @ se_code c @ ue_code (length ds) @ concat (map se_code ds) @ rest)"
      using b1(2) Poc1 read_ue [of b1 1] by auto
    obtain b3 where b3: "chd_h264_range_get b2 1 = (of_bool z, b3)"
      "at_bits b3 (se_code a @ se_code c @ ue_code (length ds) @ concat (map se_code ds) @ rest)"
      using b2(2) by (rule read_flag)
    obtain b4 where b4: "chd_h264_range_se b3 = (a, b4)"
      "at_bits b4 (se_code c @ ue_code (length ds) @ concat (map se_code ds) @ rest)"
      using b3(2) ok(1) by (rule read_se_code)
    obtain b5 where b5: "chd_h264_range_se b4 = (c, b5)" "at_bits b5 (ue_code (length ds) @ concat (map se_code ds) @ rest)"
      using b4(2) ok(2) by (rule read_se_code)
    obtain b6 where b6: "chd_h264_range_ue b5 = (word_of_nat (length ds), b6)" "at_bits b6 (concat (map se_code ds) @ rest)"
      using ok(3) read_ue [OF b5(2)] by auto
    have l255: "\<not> (255::u32) < word_of_nat (length ds)" "unat (word_of_nat (length ds) :: u32) = length ds"
      using ok(3) by (simp_all add: word_nat_gt_num unat_word_of_nat_u32)
    show ?thesis by (rule that [OF skip_se_codes [OF b6(2) ok(4)]])
      (simp add: sps_poc_def b1 b2 b3 [simplified] b4 b5 b6 n12 l255 Poc1)
  next
    case Poc2
    obtain b2 where b2: "chd_h264_range_ue b1 = (word_of_nat 2, b2)" "at_bits b2 rest"
      using b1(2) Poc2 read_ue [of b1 2] by auto
    show ?thesis by (rule that [OF b2(2)]) (simp add: sps_poc_def b1 b2 n12 Poc2)
  qed
qed

lemma map_units_word:
  assumes "w < 2 ^ 32 - 1" "h < 2 ^ 32 - 1"
  defines "u \<equiv> (ucast (word_of_nat w :: u32) + 1) * (ucast (word_of_nat h :: u32) + 1) :: u64"
  shows "unat u = (w + 1) * (h + 1)" "u \<le> 0xFFFFFFFF \<longleftrightarrow> (w + 1) * (h + 1) < 2 ^ 32"
    "(ucast u :: u32) = word_of_nat ((w + 1) * (h + 1))"
proof -
  have e: "unat (ucast (word_of_nat n :: u32) + 1 :: u64) = n + 1" if "n < 2 ^ 32 - 1" for n
    using that by (subst unat_word_ariths) (simp add: unat_word_of_nat_u32)
  have "(w + 1) * (h + 1) \<le> (2 ^ 32 - 1) * (2 ^ 32 - 1)"
    by (rule mult_le_mono) (use assms(1,2) in simp_all)
  then have "(w + 1) * (h + 1) < 2 ^ 64" by simp
  then show un: "unat u = (w + 1) * (h + 1)"
    unfolding u_def by (subst unat_word_ariths(2)) (simp add: e [OF assms(1), simplified] e [OF assms(2), simplified])
  then show "u \<le> 0xFFFFFFFF \<longleftrightarrow> (w + 1) * (h + 1) < 2 ^ 32"
    unfolding word_le_nat_alt by auto
  have "(ucast u :: u32) = word_of_nat (unat u)" by (rule bit_word_eqI) (auto simp: bit_simps)
  then show "(ucast u :: u32) = word_of_nat ((w + 1) * (h + 1))" unfolding un .
qed

lemma read_crop:
  assumes "at_bits b (opt_bits (\<lambda>(l, r, t, b). ue_code l @ ue_code r @ ue_code t @ ue_code b) crop @ rest)"
    "case crop of None \<Rightarrow> True
      | Some (l, r, t, b) \<Rightarrow> l < 2 ^ 32 - 1 \<and> r < 2 ^ 32 - 1 \<and> t < 2 ^ 32 - 1 \<and> b < 2 ^ 32 - 1"
  obtains b' b'' where "chd_h264_range_get b (Suc 0) = (of_bool (crop \<noteq> None), b')"
    "(if of_bool (crop \<noteq> None) \<noteq> (0::u32) then ((snd \<circ> chd_h264_range_ue) ^^ 4) b' else b') = b''" "at_bits b'' rest"
proof (cases crop)
  case None
  then show ?thesis using assms that by (auto simp: opt_bits_def elim!: read_flag)
next
  case (Some x)
  obtain l r t d where x: "x = (l, r, t, d)" by (cases x)
  have ok: "l < 2 ^ 32 - 1" "r < 2 ^ 32 - 1" "t < 2 ^ 32 - 1" "d < 2 ^ 32 - 1" using assms(2) Some x by simp_all
  have "at_bits b (True # ue_code l @ ue_code r @ ue_code t @ ue_code d @ rest)"
    using assms(1) Some x by (simp add: opt_bits_def)
  then obtain b0 where b0: "chd_h264_range_get b 1 = (of_bool True, b0)" "at_bits b0 (ue_code l @ ue_code r @ ue_code t @ ue_code d @ rest)"
    by (rule read_flag)
  obtain b1 where b1: "chd_h264_range_ue b0 = (word_of_nat l, b1)" "at_bits b1 (ue_code r @ ue_code t @ ue_code d @ rest)"
    using b0(2) ok(1) by (rule read_ue)
  obtain b2 where b2: "chd_h264_range_ue b1 = (word_of_nat r, b2)" "at_bits b2 (ue_code t @ ue_code d @ rest)"
    using b1(2) ok(2) by (rule read_ue)
  obtain b3 where b3: "chd_h264_range_ue b2 = (word_of_nat t, b3)" "at_bits b3 (ue_code d @ rest)"
    using b2(2) ok(3) by (rule read_ue)
  obtain b4 where b4: "chd_h264_range_ue b3 = (word_of_nat d, b4)" "at_bits b4 rest"
    using b3(2) ok(4) by (rule read_ue)
  show ?thesis using b0(1) b1(1) b2(1) b3(1) b4 Some
    by (intro that [of b0 b4]) (simp_all add: numeral_eq_Suc)
qed

lemma read_geometry:
  assumes "at_bits b (geometry_bits s @ rest)" "geometry_ok s"
  defines "u \<equiv> (sx_width s + 1) * (sx_height s + 1)"
  obtains b' where "at_bits b' rest"
    "sps_geometry b out = Inr (out\<lparr>sr_pic_size_in_map_units := (if u < 2 ^ 32 then word_of_nat u else sr_pic_size_in_map_units out),
       sr_frame_mbs_only := sx_frame_mbs s\<rparr>, b')"
proof -
  have ok: "sx_refs s \<le> 16" "sx_refs s < 2 ^ 32 - 1" "sx_width s < 2 ^ 32 - 1" "sx_height s < 2 ^ 32 - 1"
    and crop: "case sx_crop s of None \<Rightarrow> True
      | Some (l, r, t, b) \<Rightarrow> l < 2 ^ 32 - 1 \<and> r < 2 ^ 32 - 1 \<and> t < 2 ^ 32 - 1 \<and> b < 2 ^ 32 - 1"
    using assms(2) by (auto simp: geometry_ok_def)
  let ?crop = "opt_bits (\<lambda>(l, r, t, b). ue_code l @ ue_code r @ ue_code t @ ue_code b) (sx_crop s)"
  let ?mb = "if sx_frame_mbs s then [True] else [False, sx_mbaff s]"
  have "at_bits b (ue_code (sx_refs s) @ sx_gaps s # ue_code (sx_width s) @ ue_code (sx_height s) @ ?mb @ sx_direct s # ?crop @ rest)"
    using assms(1) by (simp add: geometry_bits_def)
  then obtain b1 where b1: "chd_h264_range_ue b = (word_of_nat (sx_refs s), b1)"
    "at_bits b1 (sx_gaps s # ue_code (sx_width s) @ ue_code (sx_height s) @ ?mb @ sx_direct s # ?crop @ rest)"
    using ok(2) by (rule read_ue)
  obtain b2 where b2: "chd_h264_range_get b1 1 = (of_bool (sx_gaps s), b2)"
    "at_bits b2 (ue_code (sx_width s) @ ue_code (sx_height s) @ ?mb @ sx_direct s # ?crop @ rest)"
    using b1(2) by (rule read_flag)
  obtain b3 where b3: "chd_h264_range_ue b2 = (word_of_nat (sx_width s), b3)"
    "at_bits b3 (ue_code (sx_height s) @ ?mb @ sx_direct s # ?crop @ rest)"
    using b2(2) ok(3) by (rule read_ue)
  obtain b4 where b4: "chd_h264_range_ue b3 = (word_of_nat (sx_height s), b4)" "at_bits b4 (?mb @ sx_direct s # ?crop @ rest)"
    using b3(2) ok(4) by (rule read_ue)
  obtain b5 b6 where b5: "chd_h264_range_get b4 1 = (of_bool (sx_frame_mbs s), b5)"
    "(if of_bool (sx_frame_mbs s) = (0::u32) then snd (chd_h264_range_get b5 1) else b5) = b6"
    "at_bits b6 (sx_direct s # ?crop @ rest)"
  proof (cases "sx_frame_mbs s")
    case True
    then have "at_bits b4 (True # sx_direct s # ?crop @ rest)" using b4(2) by simp
    then obtain c where c: "chd_h264_range_get b4 1 = (of_bool True, c)" "at_bits c (sx_direct s # ?crop @ rest)"
      by (rule read_flag)
    show ?thesis using True that c by auto
  next
    case False
    then have "at_bits b4 (False # sx_mbaff s # sx_direct s # ?crop @ rest)" using b4(2) by simp
    then obtain c where c: "chd_h264_range_get b4 1 = (of_bool False, c)" "at_bits c (sx_mbaff s # sx_direct s # ?crop @ rest)"
      by (rule read_flag)
    obtain d where d: "chd_h264_range_get c 1 = (of_bool (sx_mbaff s), d)" "at_bits d (sx_direct s # ?crop @ rest)"
      using c(2) by (rule read_flag)
    show ?thesis using False that c(1) d by auto
  qed
  obtain b7 where b7: "chd_h264_range_get b6 1 = (of_bool (sx_direct s), b7)" "at_bits b7 (?crop @ rest)"
    using b5(3) by (rule read_flag)
  obtain b8 b9 where b8: "chd_h264_range_get b7 (Suc 0) = (of_bool (sx_crop s \<noteq> None), b8)"
    "(if of_bool (sx_crop s \<noteq> None) \<noteq> (0::u32) then ((snd \<circ> chd_h264_range_ue) ^^ 4) b8 else b8) = b9" "at_bits b9 rest"
    using b7(2) crop by (rule read_crop)
  have refs: "\<not> (16::u32) < word_of_nat (sx_refs s)" using ok by (simp add: word_nat_gt_num)
  note mu = map_units_word [OF ok(3,4), folded u_def]
  have "sps_geometry b out = Inr (out\<lparr>sr_pic_size_in_map_units := (if u < 2 ^ 32 then word_of_nat u else sr_pic_size_in_map_units out),
       sr_frame_mbs_only := sx_frame_mbs s\<rparr>, b9)"
    unfolding sps_geometry_def b1(1) Let_def prod.case b2(1) b3(1) b4(1) b5(1,2) b7(1) b8(1) [folded One_nat_def] b8(2) mu(2,3)
    using refs by (simp del: One_nat_def)
  with b8(3) show ?thesis by (rule that)
qed


lemma read_aspect:
  assumes "at_bits b (aspect_bits a @ rest)" "aspect_ok a"
  obtains x b' b'' where "chd_h264_range_get b 1 = (x, b')" "at_bits b'' rest"
    "(if x \<noteq> 0 then
        let (value, b) = chd_h264_range_get b' 8
        in if value = 255 then
             let (width, b) = chd_h264_range_get b 16; (height, b) = chd_h264_range_get b 16
             in if width = 0 \<or> height = 0 then Inl CHD_H264_RANGE_INVALID else Inr b
           else if value > 16 then Inl CHD_H264_RANGE_INVALID else Inr b
      else Inr b') = (Inr b'' :: chd_h264_range_bits sps_result)"
proof (cases a rule: aspect_ok.cases)
  case 1
  then have "at_bits b (False # rest)" using assms(1) by simp
  then obtain b1 where "chd_h264_range_get b 1 = (of_bool False, b1)" "at_bits b1 rest" by (rule read_flag)
  then show ?thesis by (intro that [of 0 b1 b1]) simp_all
next
  case (2 n)
  then have n: "n \<le> 16" "n < 2 ^ 8" using assms(2) by simp_all
  have "at_bits b (True # nat_bits 8 n @ rest)" using assms(1) 2 by simp
  then obtain b1 where b1: "chd_h264_range_get b 1 = (of_bool True, b1)" "at_bits b1 (nat_bits 8 n @ rest)" by (rule read_flag)
  obtain b2 where b2: "chd_h264_range_get b1 8 = (word_of_nat n, b2)" "at_bits b2 rest"
    using b1(2) n(2) by (rule read_bits)
  have "(word_of_nat n :: u32) \<noteq> 255" "\<not> (16::u32) < word_of_nat n"
    using n unat_word_of_nat_u32 [of n] by (auto simp: word_nat_gt_num)
  then show ?thesis using b1(1) b2 by (intro that [of 1 b1 b2]) simp_all
next
  case (3 w h)
  then have n: "w < 2 ^ 16" "h < 2 ^ 16" "0 < w" "0 < h" using assms(2) by simp_all
  have "at_bits b (True # nat_bits 8 255 @ nat_bits 16 w @ nat_bits 16 h @ rest)" using assms(1) 3 by simp
  then obtain b1 where b1: "chd_h264_range_get b 1 = (of_bool True, b1)"
    "at_bits b1 (nat_bits 8 255 @ nat_bits 16 w @ nat_bits 16 h @ rest)" by (rule read_flag)
  obtain b2 where b2: "chd_h264_range_get b1 8 = (word_of_nat 255, b2)" "at_bits b2 (nat_bits 16 w @ nat_bits 16 h @ rest)"
    using b1(2) by (rule read_bits) simp
  obtain b3 where b3: "chd_h264_range_get b2 16 = (word_of_nat w, b3)" "at_bits b3 (nat_bits 16 h @ rest)"
    using b2(2) n(1) by (rule read_bits)
  obtain b4 where b4: "chd_h264_range_get b3 16 = (word_of_nat h, b4)" "at_bits b4 rest"
    using b3(2) n(2) by (rule read_bits)
  have "(word_of_nat w :: u32) \<noteq> 0" "(word_of_nat h :: u32) \<noteq> 0" using n by (auto simp: word_nat_eq_0)
  then show ?thesis using b1(1) b2(1) b3(1) b4 by (intro that [of 1 b1 b4]) simp_all
qed

lemma read_vui:
  assumes "at_bits b (vui_bits v @ rest)" "vui_ok v" "\<not> sr_range_present out" "\<not> sr_full_range out"
  obtains b' where "at_bits b' rest"
    "sps_vui b out = Inr (out\<lparr>sr_video_signal_present := vx_signal v \<noteq> None, sr_range_present := vx_signal v \<noteq> None,
       sr_full_range := (case vx_signal v of None \<Rightarrow> False | Some (f, full, c) \<Rightarrow> full)\<rparr>, b')"
proof -
  let ?sig = "opt_bits (\<lambda>(f, full, c). nat_bits 3 f @ [full] @ opt_bits (nat_bits 24) c) (vx_signal v)"
  let ?ov = "opt_bits (\<lambda>x. [x]) (vx_overscan v)"
  have "at_bits b (aspect_bits (vx_aspect v) @ ?ov @ ?sig @ rest)" "aspect_ok (vx_aspect v)"
    using assms(1,2) by (simp_all add: vui_bits_def vui_ok_def)
  from read_aspect [OF this] obtain x b1 b2 where a: "chd_h264_range_get b 1 = (x, b1)" "at_bits b2 (?ov @ ?sig @ rest)"
    "(if x \<noteq> 0 then
        let (value, b) = chd_h264_range_get b1 8
        in if value = 255 then
             let (width, b) = chd_h264_range_get b 16; (height, b) = chd_h264_range_get b 16
             in if width = 0 \<or> height = 0 then Inl CHD_H264_RANGE_INVALID else Inr b
           else if value > 16 then Inl CHD_H264_RANGE_INVALID else Inr b
      else Inr b1) = (Inr b2 :: chd_h264_range_bits sps_result)" .
  obtain y b3 b4 where o: "chd_h264_range_get b2 1 = (y, b3)" "(if y \<noteq> 0 then snd (chd_h264_range_get b3 1) else b3) = b4"
    "at_bits b4 (?sig @ rest)"
  proof (cases "vx_overscan v")
    case None
    then have "at_bits b2 (False # ?sig @ rest)" using a(2) by (simp add: opt_bits_def)
    then obtain c where "chd_h264_range_get b2 1 = (of_bool False, c)" "at_bits c (?sig @ rest)" by (rule read_flag)
    then show ?thesis by (intro that [of 0 c c]) simp_all
  next
    case (Some z)
    then have "at_bits b2 (True # z # ?sig @ rest)" using a(2) by (simp add: opt_bits_def)
    then obtain c where c: "chd_h264_range_get b2 1 = (of_bool True, c)" "at_bits c (z # ?sig @ rest)" by (rule read_flag)
    obtain d where "chd_h264_range_get c 1 = (of_bool z, d)" "at_bits d (?sig @ rest)" using c(2) by (rule read_flag)
    then show ?thesis using c(1) by (intro that [of 1 c d]) simp_all
  qed
  note head = a(1) o(1) Let_def prod.case
  show ?thesis
  proof (cases "vx_signal v")
    case None
    then have "at_bits b4 (False # rest)" using o(3) by (simp add: opt_bits_def)
    then obtain b5 where b5: "chd_h264_range_get b4 1 = (of_bool False, b5)" "at_bits b5 rest" by (rule read_flag)
    have "sps_vui b out = Inr (out\<lparr>sr_video_signal_present := False\<rparr>, b5)"
      unfolding sps_vui_def head a(3) [unfolded Let_def] sum.case o(2) b5(1) by simp
    then show ?thesis using that b5(2) None assms(3,4) by simp
  next
    case (Some sg)
    obtain f full c where sg: "sg = (f, full, c)" by (cases sg)
    have ok: "f \<le> 5" "f < 2 ^ 3" and cok: "case c of None \<Rightarrow> True | Some x \<Rightarrow> x < 2 ^ 24"
      using assms(2) Some sg by (auto simp: vui_ok_def split: option.splits)
    have "at_bits b4 (True # nat_bits 3 f @ full # opt_bits (nat_bits 24) c @ rest)"
      using o(3) Some sg by (simp add: opt_bits_def)
    then obtain b5 where b5: "chd_h264_range_get b4 1 = (of_bool True, b5)"
      "at_bits b5 (nat_bits 3 f @ full # opt_bits (nat_bits 24) c @ rest)" by (rule read_flag)
    obtain b6 where b6: "chd_h264_range_get b5 3 = (word_of_nat f, b6)" "at_bits b6 (full # opt_bits (nat_bits 24) c @ rest)"
      using b5(2) ok(2) by (rule read_bits)
    obtain b7 where b7: "chd_h264_range_get b6 1 = (of_bool full, b7)" "at_bits b7 (opt_bits (nat_bits 24) c @ rest)"
      using b6(2) by (rule read_flag)
    obtain y2 b8 b9 where b8: "chd_h264_range_get b7 1 = (y2, b8)"
      "(if y2 \<noteq> 0 then snd (chd_h264_range_get b8 24) else b8) = b9" "at_bits b9 rest"
    proof (cases c)
      case None
      then have "at_bits b7 (False # rest)" using b7(2) by (simp add: opt_bits_def)
      then obtain d where "chd_h264_range_get b7 1 = (of_bool False, d)" "at_bits d rest" by (rule read_flag)
      then show ?thesis by (intro that [of 0 d d]) simp_all
    next
      case (Some z)
      then have "at_bits b7 (True # nat_bits 24 z @ rest)" using b7(2) by (simp add: opt_bits_def)
      then obtain d where d: "chd_h264_range_get b7 1 = (of_bool True, d)" "at_bits d (nat_bits 24 z @ rest)" by (rule read_flag)
      have "z < 2 ^ 24" using cok Some by simp
      then obtain e where "chd_h264_range_get d 24 = (word_of_nat z, e)" "at_bits e rest" by (rule read_bits [OF d(2)])
      then show ?thesis using d(1) by (intro that [of 1 d e]) simp_all
    qed
    have f5: "\<not> (5::u32) < word_of_nat f" using ok by (simp add: word_nat_gt_num)
    have "sps_vui b out = Inr (out\<lparr>sr_video_signal_present := True, sr_range_present := True, sr_full_range := full\<rparr>, b9)"
      unfolding sps_vui_def head a(3) [unfolded Let_def] sum.case o(2) b5(1) b6(1) b7(1) b8(1,2) using f5 by simp
    then show ?thesis using that b8(3) Some sg by simp
  qed
qed


lemma read_body:
  assumes "at_bits b (ue_code (sx_frame_num s) @ poc_bits (sx_poc s) @ geometry_bits s @ opt_bits vui_bits (sx_vui s) @ rest)"
    "syntax_ok s"
  shows "sps_body b (sps_zero\<lparr>sr_sps_id := word_of_nat (sx_id s)\<rparr>) = Inr (sps_expected s)"
proof -
  have ok: "sx_frame_num s \<le> 12" "poc_ok (sx_poc s)" "geometry_ok s" using assms(2) by (simp_all add: syntax_ok_def)
  let ?out0 = "sps_zero\<lparr>sr_sps_id := word_of_nat (sx_id s)\<rparr>"
  define out1 where "out1 = ?out0\<lparr>sr_frame_num_bits := word_of_nat (sx_frame_num s + 4),
      sr_poc_type := (case sx_poc s of Poc0 n \<Rightarrow> 0 | Poc1 z a c ds \<Rightarrow> 1 | Poc2 \<Rightarrow> 2),
      sr_poc_lsb_bits := (case sx_poc s of Poc0 n \<Rightarrow> word_of_nat (n + 4) | _ \<Rightarrow> sr_poc_lsb_bits ?out0),
      sr_delta_pic_order_always_zero := (case sx_poc s of Poc1 z a c ds \<Rightarrow> z | _ \<Rightarrow> sr_delta_pic_order_always_zero ?out0)\<rparr>"
  obtain b1 where p: "at_bits b1 (geometry_bits s @ opt_bits vui_bits (sx_vui s) @ rest)" "sps_poc b ?out0 = Inr (out1, b1)"
    unfolding out1_def using assms(1) ok(1,2) by (rule read_poc)
  define u where "u = (sx_width s + 1) * (sx_height s + 1)"
  define out2 where "out2 = out1\<lparr>sr_pic_size_in_map_units := (if u < 2 ^ 32 then word_of_nat u else sr_pic_size_in_map_units out1),
       sr_frame_mbs_only := sx_frame_mbs s\<rparr>"
  obtain b2 where g: "at_bits b2 (opt_bits vui_bits (sx_vui s) @ rest)" "sps_geometry b1 out1 = Inr (out2, b2)"
    unfolding out2_def u_def using p(1) ok(3) by (rule read_geometry)
  note outs = out2_def out1_def sps_zero_def sps_expected_def
  have z: "\<not> sr_range_present out2" "\<not> sr_full_range out2" by (simp_all add: out2_def out1_def sps_zero_def)
  show ?thesis
  proof (cases "sx_vui s")
    case None
    then have "at_bits b2 (False # rest)" using g(1) by (simp add: opt_bits_def)
    then obtain b3 where b3: "chd_h264_range_get b2 1 = (of_bool False, b3)" "at_bits b3 rest" by (rule read_flag)
    then have "sps_body b (sps_zero\<lparr>sr_sps_id := word_of_nat (sx_id s)\<rparr>) = Inr (out2\<lparr>sr_vui_present := False\<rparr>)"
      unfolding sps_body_def p(2) g(2) sum.case prod.case b3(1) Let_def by (simp add: at_bits_def)
    moreover have "out2\<lparr>sr_vui_present := False\<rparr> = sps_expected s"
      by (cases "sx_poc s") (simp_all add: outs None u_def Let_def)
    ultimately show ?thesis by simp
  next
    case (Some v)
    then have "at_bits b2 (True # vui_bits v @ rest)" using g(1) by (simp add: opt_bits_def)
    then obtain b3 where b3: "chd_h264_range_get b2 1 = (of_bool True, b3)" "at_bits b3 (vui_bits v @ rest)" by (rule read_flag)
    have v: "vui_ok v" using assms(2) Some by (simp add: syntax_ok_def)
    obtain b4 where b4: "at_bits b4 rest" "sps_vui b3 (out2\<lparr>sr_vui_present := True\<rparr>) =
        Inr (out2\<lparr>sr_vui_present := True, sr_video_signal_present := vx_signal v \<noteq> None, sr_range_present := vx_signal v \<noteq> None,
       sr_full_range := (case vx_signal v of None \<Rightarrow> False | Some (f, full, c) \<Rightarrow> full)\<rparr>, b4)"
      using read_vui [OF b3(2) v, of "out2\<lparr>sr_vui_present := True\<rparr>"] z by auto
    then have "sps_body b (sps_zero\<lparr>sr_sps_id := word_of_nat (sx_id s)\<rparr>) =
        Inr (out2\<lparr>sr_vui_present := True, sr_video_signal_present := vx_signal v \<noteq> None, sr_range_present := vx_signal v \<noteq> None,
       sr_full_range := (case vx_signal v of None \<Rightarrow> False | Some (f, full, c) \<Rightarrow> full)\<rparr>)"
      unfolding sps_body_def p(2) g(2) sum.case prod.case b3(1) Let_def using b3(2) by (simp add: at_bits_def)
    moreover have "out2\<lparr>sr_vui_present := True, sr_video_signal_present := vx_signal v \<noteq> None, sr_range_present := vx_signal v \<noteq> None,
       sr_full_range := (case vx_signal v of None \<Rightarrow> False | Some (f, full, c) \<Rightarrow> full)\<rparr> = sps_expected s"
      by (cases "sx_poc s") (simp_all add: outs Some u_def Let_def)
    ultimately show ?thesis by (simp only:)
  qed
qed

lemma bits_init_at: "at_bits (bits_init (h # xs)) (bits_of_bytes (unesc 0 xs))"
  by (simp add: at_bits_def bits_init_def bits_wf_def bits_left_def byte_bits_def)

lemma length_esc: "length xs \<le> length (esc z xs)"
  by (induction z xs rule: esc.induct) auto

lemma length_bits_of_bytes: "length (bits_of_bytes xs) = 8 * length xs"
  by (induction xs) (simp_all add: bits_of_bytes_def)

lemma and_3_nat: "n < 2 ^ 32 \<Longrightarrow> n mod 4 = 0 \<Longrightarrow> (word_of_nat n :: u32) AND 3 = 0"
proof -
  assume "n mod 4 = 0"
  moreover have "(word_of_nat n :: u32) AND 3 = word_of_nat (take_bit 2 n)"
  proof -
    have m: "(3::u32) = mask 2" by (simp add: mask_eq_exp_minus_1)
    show ?thesis unfolding m by (rule bit_word_eqI) (auto simp: bit_simps)
  qed
  ultimately show ?thesis by (simp add: take_bit_eq_mod)
qed

lemma scale_delta_range: "- 128 \<le> scale_delta lst v" "scale_delta lst v \<le> 127" "\<bar>scale_delta lst v\<bar> < 2 ^ 31"
proof -
  have "0 \<le> (int v - int lst + 128) mod 256" "(int v - int lst + 128) mod 256 < 256" by simp_all
  then show "- 128 \<le> scale_delta lst v" "scale_delta lst v \<le> 127" "\<bar>scale_delta lst v\<bar> < 2 ^ 31"
    unfolding scale_delta_def by simp_all
qed

lemma scale_next:
  assumes "v < 256"
  shows "((word_of_nat lst :: u32) + word_of_int (scale_delta lst v) + 256) AND 255 = word_of_nat v"
proof -
  let ?k = "int lst + scale_delta lst v + 256"
  have m: "(255::u32) = mask 8" by (simp add: mask_eq_exp_minus_1)
  have "?k mod 256 = ((int v - int lst + 128) mod 256 + (int lst + 128)) mod 256" by (simp add: scale_delta_def algebra_simps)
  also have "\<dots> = (int v - int lst + 128 + (int lst + 128)) mod 256" by (rule mod_add_left_eq)
  also have "\<dots> = (int v + 256) mod 256" by (simp add: algebra_simps)
  also have "\<dots> = int v" using assms by simp
  finally have "?k mod 256 = int v" .
  then have k: "take_bit 8 ?k = int v" by (simp add: take_bit_eq_mod)
  have "(word_of_nat lst :: u32) + word_of_int (scale_delta lst v) + 256 = word_of_int ?k" by simp
  moreover have "(word_of_int x :: u32) AND mask 8 = word_of_int (take_bit 8 x)" for x
    by (rule bit_word_eqI) (auto simp: bit_simps)
  ultimately show ?thesis unfolding m by (simp only: k of_int_of_nat_eq)
qed

lemma scaling_list_rest: "scaling_list_loop n lst 0 b = b"
  by (induction n) auto

lemma read_scaling_list:
  assumes "at_bits b (scaling_list_bits lst n vs @ rest)" "length vs \<le> n" "\<forall>v\<in>set vs. 0 < v \<and> v < 256" "nxt \<noteq> 0"
  shows "at_bits (scaling_list_loop n (word_of_nat lst) nxt b) rest"
  using assms
proof (induction vs arbitrary: b lst n nxt)
  case Nil
  show ?case
  proof (cases n)
    case (Suc m)
    then have "at_bits b (se_code (scale_delta lst 0) @ rest)" using Nil by simp
    then obtain b' where b': "chd_h264_range_se b = (scale_delta lst 0, b')" "at_bits b' rest"
      using scale_delta_range(3) by (rule read_se_code)
    have "\<not> bb_failed b" using Nil by (simp add: at_bits_def)
    then show ?thesis using Suc Nil(4) b' scale_next [of 0 lst] scale_delta_range(1,2) [of lst 0]
      by (simp add: scaling_list_rest)
  qed (use Nil in simp)
next
  case (Cons v vs)
  then obtain m where m: "n = Suc m" by (cases n) auto
  have v: "v < 256" "0 < v" using Cons.prems(3) by simp_all
  have "at_bits b (se_code (scale_delta lst v) @ scaling_list_bits v m vs @ rest)" using Cons.prems(1) m by simp
  then obtain b' where b': "chd_h264_range_se b = (scale_delta lst v, b')" "at_bits b' (scaling_list_bits v m vs @ rest)"
    using scale_delta_range(3) by (rule read_se_code)
  have nz: "(word_of_nat v :: u32) \<noteq> 0" using v by (simp add: word_nat_eq_0)
  have "\<not> bb_failed b" using Cons.prems(1) by (simp add: at_bits_def)
  then show ?case using m Cons.prems(4) b'(1) scale_next [OF v(1), of lst] scale_delta_range(1,2) [of lst v] nz
      Cons.IH [OF b'(2) _ _ nz] Cons.prems(2,3) by simp
qed

lemma read_scaling_lists:
  assumes "at_bits b (scaling_lists_bits is ls @ rest)" "list_all2 scaling_list_ok is ls"
  shows "at_bits (scaling_lists_loop is b) rest"
  using assms
proof (induction "is" ls arbitrary: b rule: scaling_lists_bits.induct)
  case (1 i "is" ls)
  then have "at_bits b (False # scaling_lists_bits is ls @ rest)" by simp
  then obtain b' where b': "chd_h264_range_get b 1 = (of_bool False, b')" "at_bits b' (scaling_lists_bits is ls @ rest)" by (rule read_flag)
  have "\<not> bb_failed b" using 1(2) by (simp add: at_bits_def)
  then show ?case using 1(1) [OF b'(2)] 1(3) b'(1) by simp
next
  case (2 i "is" vs ls)
  then have "at_bits b (True # scaling_list_bits 8 (scaling_size i) vs @ scaling_lists_bits is ls @ rest)" by simp
  then obtain b' where b': "chd_h264_range_get b 1 = (of_bool True, b')"
    "at_bits b' (scaling_list_bits 8 (scaling_size i) vs @ scaling_lists_bits is ls @ rest)" by (rule read_flag)
  have v: "length vs \<le> scaling_size i" "\<forall>v\<in>set vs. 0 < v \<and> v < 256" using 2(3) by (simp_all add: scaling_list_ok_def)
  have l: "at_bits (scaling_list_loop (scaling_size i) (word_of_nat 8) 8 b') (scaling_lists_bits is ls @ rest)"
    by (rule read_scaling_list [OF b'(2) v]) simp
  have "\<not> bb_failed b" using 2(2) by (simp add: at_bits_def)
  then show ?case using 2(1) [OF l] 2(3) b'(1) by (simp add: scaling_size_def)
qed (auto simp: at_bits_def)

lemma read_scaling_matrix:
  assumes "at_bits b (opt_bits (scaling_lists_bits [0..<8]) sc @ rest)" "case sc of None \<Rightarrow> True | Some ls \<Rightarrow> scaling_ok ls"
  obtains x b1 where "chd_h264_range_get b 1 = (x, b1)" "at_bits (if x \<noteq> 0 then scaling_lists_loop [0..<8] b1 else b1) rest"
proof (cases sc)
  case None
  then have "at_bits b (False # rest)" using assms(1) by (simp add: opt_bits_def)
  then obtain b1 where "chd_h264_range_get b 1 = (of_bool False, b1)" "at_bits b1 rest" by (rule read_flag)
  then show ?thesis by (intro that [of 0 b1]) simp_all
next
  case (Some ls)
  then have "at_bits b (True # scaling_lists_bits [0..<8] ls @ rest)" using assms(1) by (simp add: opt_bits_def)
  then obtain b1 where b1: "chd_h264_range_get b 1 = (of_bool True, b1)" "at_bits b1 (scaling_lists_bits [0..<8] ls @ rest)" by (rule read_flag)
  have "at_bits (scaling_lists_loop [0..<8] b1) rest"
    using assms(2) Some by (intro read_scaling_lists [OF b1(2)]) (simp add: scaling_ok_def)
  then show ?thesis using b1(1) by (intro that [of 1 b1]) simp_all
qed

lemma read_high:
  assumes "at_bits b (high_bits s @ rest)" "case sx_scaling s of None \<Rightarrow> True | Some ls \<Rightarrow> scaling_ok ls"
  obtains b' where "sps_high_profile b = Inr b'" "at_bits b' rest"
proof -
  let ?sc = "opt_bits (scaling_lists_bits [0..<8]) (sx_scaling s)"
  have "at_bits b (ue_code 1 @ ue_code 0 @ ue_code 0 @ sx_bypass s # ?sc @ rest)" using assms(1) by (simp add: high_bits_def)
  then obtain b1 where b1: "chd_h264_range_ue b = (word_of_nat 1, b1)" "at_bits b1 (ue_code 0 @ ue_code 0 @ sx_bypass s # ?sc @ rest)"
    by (rule read_ue) simp
  obtain b2 where b2: "chd_h264_range_ue b1 = (word_of_nat 0, b2)" "at_bits b2 (ue_code 0 @ sx_bypass s # ?sc @ rest)"
    using b1(2) by (rule read_ue) simp
  obtain b3 where b3: "chd_h264_range_ue b2 = (word_of_nat 0, b3)" "at_bits b3 (sx_bypass s # ?sc @ rest)"
    using b2(2) by (rule read_ue) simp
  obtain b4 where b4: "chd_h264_range_get b3 1 = (of_bool (sx_bypass s), b4)" "at_bits b4 (?sc @ rest)"
    using b3(2) by (rule read_flag)
  obtain x b5 where b5: "chd_h264_range_get b4 1 = (x, b5)" "at_bits (if x \<noteq> 0 then scaling_lists_loop [0..<8] b5 else b5) rest"
    using b4(2) assms(2) by (rule read_scaling_matrix)
  have "sps_high_profile b = Inr (if x \<noteq> 0 then scaling_lists_loop [0..<8] b5 else b5)"
    unfolding sps_high_profile_def Let_def b1(1) prod.case b2(1) b3(1) b4(1) b5(1) by simp
  then show ?thesis using b5(2) by (rule that)
qed

section \<open>Properties\<close>

lemma read_sps_bits:
  assumes s: "syntax_ok s" and hdr: "hdr AND 0x80 = 0" "hdr AND 0x60 \<noteq> 0" "hdr AND 31 = 7"
    and rb: "bits_of_bytes rb = sps_bits s @ tail" and len: "length (esc 0 rb) < CHD_H264_SPS_MAX_BYTES"
  shows "chd_h264_read_sps_range (Some (hdr # esc 0 rb)) = Inr (sps_expected s)"
proof -
  let ?nal = "hdr # esc 0 rb"
  let ?high = "if sx_profile s = 100 then high_bits s else []"
  let ?body = "ue_code (sx_frame_num s) @ poc_bits (sx_poc s) @ geometry_bits s @ opt_bits vui_bits (sx_vui s) @ tail"
  have ok: "sx_profile s < 2 ^ 8" "sx_constraints s < 2 ^ 8" "sx_constraints s mod 4 = 0" "sx_level s < 2 ^ 8"
    "sx_id s < 2 ^ 32 - 1" "sx_id s \<le> 31" "sx_profile s \<in> {66, 77, 100}"
    using s by (auto simp: syntax_ok_def)
  have "24 \<le> length (bits_of_bytes rb)" by (simp add: rb sps_bits_def)
  then have l: "\<not> length ?nal < 4" "\<not> CHD_H264_SPS_MAX_BYTES < length ?nal"
    using length_esc [of rb 0] len by (simp_all add: length_bits_of_bytes)
  have e: "chd_h264_range_ebsp ?nal"
    using unesc_esc [of 0 rb] range_ebsp_loop_esc [of 0 ?nal 1] by (simp add: chd_h264_range_ebsp_def)
  have "at_bits (bits_init ?nal) (nat_bits 8 (sx_profile s) @ nat_bits 8 (sx_constraints s) @ nat_bits 8 (sx_level s) @
      ue_code (sx_id s) @ ?high @ ?body)"
    using bits_init_at [of hdr "esc 0 rb"] unesc_esc [of 0 rb] rb by (simp add: sps_bits_def)
  then obtain b1 where b1: "chd_h264_range_get (bits_init ?nal) 8 = (word_of_nat (sx_profile s), b1)"
    "at_bits b1 (nat_bits 8 (sx_constraints s) @ nat_bits 8 (sx_level s) @ ue_code (sx_id s) @ ?high @ ?body)"
    using ok(1) by (rule read_bits)
  obtain b2 where b2: "chd_h264_range_get b1 8 = (word_of_nat (sx_constraints s), b2)"
    "at_bits b2 (nat_bits 8 (sx_level s) @ ue_code (sx_id s) @ ?high @ ?body)"
    using b1(2) ok(2) by (rule read_bits)
  obtain b3 where b3: "chd_h264_range_get b2 8 = (word_of_nat (sx_level s), b3)" "at_bits b3 (ue_code (sx_id s) @ ?high @ ?body)"
    using b2(2) ok(4) by (rule read_bits)
  obtain b4 where b4: "chd_h264_range_ue b3 = (word_of_nat (sx_id s), b4)" "at_bits b4 (?high @ ?body)"
    using b3(2) ok(5) by (rule read_ue)
  have p100: "(word_of_nat (sx_profile s) :: u32) = 100 \<longleftrightarrow> sx_profile s = 100"
    "\<not> ((word_of_nat (sx_profile s) :: u32) \<noteq> 66 \<and> (word_of_nat (sx_profile s) :: u32) \<noteq> 77 \<and> (word_of_nat (sx_profile s) :: u32) \<noteq> 100)"
    using ok(7) by auto
  obtain b5 where b5: "(if (word_of_nat (sx_profile s) :: u32) = 100 then sps_high_profile b4 else Inr b4) = Inr b5" "at_bits b5 ?body"
  proof (cases "sx_profile s = 100")
    case True
    then have "at_bits b4 (high_bits s @ ?body)" using b4(2) by simp
    moreover have "case sx_scaling s of None \<Rightarrow> True | Some ls \<Rightarrow> scaling_ok ls" using s by (simp add: syntax_ok_def)
    ultimately obtain b5 where "sps_high_profile b4 = Inr b5" "at_bits b5 ?body" by (rule read_high)
    then show ?thesis using that True by simp
  qed (use that b4 p100 in simp)
  have c: "\<not> (word_of_nat (sx_constraints s) AND 3 \<noteq> (0::u32))" using ok by (simp add: and_3_nat)
  have i: "\<not> (bb_failed b4 \<or> (31::u32) < word_of_nat (sx_id s))"
    using ok b4(2) by (simp add: word_nat_gt_num at_bits_def)
  have g: "\<not> (length ?nal < 4 \<or> length ?nal > CHD_H264_SPS_MAX_BYTES \<or> ?nal ! 0 AND 0x80 \<noteq> 0 \<or>
          ?nal ! 0 AND 0x60 = 0 \<or> ?nal ! 0 AND 31 \<noteq> 7 \<or> \<not> chd_h264_range_ebsp ?nal)"
    using l hdr e by simp
  show ?thesis
    unfolding chd_h264_read_sps_range_def option.case if_not_P [OF g] Let_def b1(1) prod.case b2(1) if_not_P [OF c]
      b3(1) b4(1) if_not_P [OF i] if_not_P [OF p100(2)] b5(1) sum.case
    by (rule read_body [OF b5(2) s])
qed

text \<open>
  C17: The bit reader is a refinement of reading the raw byte sequence payload. On a fresh reader the
  bits to come are those of the NAL unit after its header with the emulation prevention bytes removed,
  up to the first malformed sequence; a read of \<open>n\<close> bits returns the next \<open>n\<close> of them, most
  significant first, and moves past them, or fails when there are fewer.
\<close>

theorem bit_reader_refines_rbsp:
  assumes "bits_wf b" "\<not> bb_failed b" "chd_h264_range_get b n = (v, b')"
  shows "bits_left (bits_init (hdr # ebsp)) = bits_of_bytes (unesc 0 ebsp) \<and> bits_wf (bits_init (hdr # ebsp)) \<and> bits_wf b' \<and>
    (if n \<le> length (bits_left b)
     then \<not> bb_failed b' \<and> v = word_of_nat (bits_val (take n (bits_left b)) 0) \<and> bits_left b' = drop n (bits_left b)
     else bb_failed b')"
proof (cases "n \<le> length (bits_left b)")
  case True
  then show ?thesis using range_get_ok [OF assms(1,2) True] assms(3) bits_init_at [of hdr ebsp]
    by (auto simp: at_bits_def)
next
  case False
  then show ?thesis using range_get_short [OF assms(1), of n] assms(3) bits_init_at [of hdr ebsp]
    by (auto simp: at_bits_def)
qed

theorem bit_reader_refines_rbsp_witness:
  "\<exists>v b'. chd_h264_range_get (bits_init [0x67, 0, 0, 3, 1, 0x42]) 24 = (v, b') \<and>
    v = word_of_nat (bits_val (take 24 (bits_of_bytes [0, 0, 1, 0x42])) 0) \<and> unat v = 1"
proof -
  let ?b = "bits_init [0x67, 0, 0, 3, 1, 0x42]"
  obtain v b' where g: "chd_h264_range_get ?b 24 = (v, b')" by force
  have u: "unesc 0 [0, 0, 3, 1, 0x42] = [0, 0, 1, 0x42]" by simp
  have w: "bits_wf ?b" "\<not> bb_failed ?b" by (simp_all add: bits_init_def bits_wf_def)
  have "v = word_of_nat (bits_val (take 24 (bits_of_bytes [0, 0, 1, 0x42])) 0)"
    using bit_reader_refines_rbsp [OF w g, where hdr = "0x67" and ebsp = "[0, 0, 3, 1, 0x42]"] by (simp add: u length_bits_of_bytes)
  moreover have "bits_val (take 24 (bits_of_bytes [0, 0, 1, 0x42])) 0 = 1" by code_simp
  ultimately show ?thesis using g by (intro exI [of _ v] exI [of _ b']) simp
qed

text \<open>
  C33: Exp-Golomb codes. Reading a code succeeds exactly when the bits to come start with a code of
  at most 31 leading zeros, and then returns its value and moves past it; on failure the reader is
  failed. Every number below \<^verbatim>\<open>2^32 - 1\<close> is read back from its code.
\<close>

theorem exp_golomb_reader:
  assumes "bits_wf b"
  shows "\<exists>v b'. chd_h264_range_ue b = (v, b') \<and> bits_wf b' \<and>
    (case ue_spec (bits_left b) of None \<Rightarrow> bb_failed b'
     | Some (n, rest) \<Rightarrow> \<not> bb_failed b' \<and> unat v = n \<and> bits_left b' = rest) \<and>
    (\<forall>n rest. n < 2 ^ 32 - 1 \<and> bits_left b = ue_code n @ rest \<longrightarrow> unat v = n \<and> bits_left b' = rest)"
proof -
  obtain v b' where r: "chd_h264_range_ue b = (v, b')" "bits_wf b'"
    "case ue_spec (bits_left b) of None \<Rightarrow> bb_failed b'
     | Some (n, rest) \<Rightarrow> \<not> bb_failed b' \<and> v = word_of_nat n \<and> bits_left b' = rest"
    using range_ue_spec [OF assms] .
  have c: "case ue_spec (bits_left b) of None \<Rightarrow> bb_failed b'
     | Some (n, rest) \<Rightarrow> \<not> bb_failed b' \<and> unat v = n \<and> bits_left b' = rest"
  proof (cases "ue_spec (bits_left b)")
    case (Some nr)
    obtain n rest where nr: "nr = (n, rest)" by (cases nr)
    have "n < 2 ^ 32 - 1" using ue_spec_bound Some nr by simp
    then have "n < 2 ^ 32" by simp
    then have "unat (word_of_nat n :: u32) = n" by (rule unat_word_of_nat_u32)
    then show ?thesis using r(3) Some nr by simp
  qed (use r(3) in simp)
  moreover have "unat v = n \<and> bits_left b' = rest" if "n < 2 ^ 32 - 1 \<and> bits_left b = ue_code n @ rest" for n rest
    using c that ue_spec_code [of n rest] by simp
  ultimately show ?thesis using r(1,2) by blast
qed

theorem exp_golomb_reader_witness:
  "\<exists>v b'. chd_h264_range_ue (bits_init [0x67, 0x28]) = (v, b') \<and> unat v = 4"
proof -
  have w: "bits_wf (bits_init [0x67, 0x28])" by (simp add: bits_init_def bits_wf_def)
  have "ue_spec (bits_left (bits_init [0x67, 0x28])) = Some (4, [False, False, False])" by code_simp
  then show ?thesis using exp_golomb_reader [OF w] by auto
qed

text \<open>
  C5: Round trip of sequence parameter sets. Take the syntax elements of any set in the reader's scope,
  explicit scaling lists of any values and lengths included, write them as the standard prescribes,
  followed by any bits that complete the bytes, insert the emulation prevention bytes and put a valid NAL
  header in front: the reader reports exactly the elements it promises, among them the presence and the
  value of the full-range flag.
\<close>

theorem sps_round_trip:
  assumes "syntax_ok s" "hdr AND 0x80 = 0" "hdr AND 0x60 \<noteq> 0" "hdr AND 31 = 7"
    and "bits_of_bytes rb = sps_bits s @ tail" "length (esc 0 rb) < CHD_H264_SPS_MAX_BYTES"
  shows "chd_h264_read_sps_range (Some (hdr # esc 0 rb)) = Inr (sps_expected s)"
  using assms by (rule read_sps_bits)

definition demo_sps :: sps_syntax where
  "demo_sps = \<lparr>sx_profile = 100, sx_constraints = 0, sx_level = 40, sx_id = 3, sx_bypass = False,
     sx_scaling = Some [Some [16, 200, 72], None, Some [], None, None, None, Some (replicate 64 8), None],
     sx_frame_num = 0, sx_poc = Poc1 False (-2) 1 [3], sx_refs = 4, sx_gaps = False, sx_width = 119,
     sx_height = 67, sx_frame_mbs = True, sx_mbaff = False, sx_direct = True, sx_crop = Some (0, 0, 0, 4),
     sx_vui = Some \<lparr>vx_aspect = Some (Aspect_Idc 1), vx_overscan = None, vx_signal = Some (5, True, None)\<rparr>\<rparr>"

definition demo_sps_payload :: "u8 list" where
  "demo_sps_payload = [100, 0, 40, 34, 216, 64, 4, 136, 4, 4, 4, 138, 17, 31, 255, 255, 255, 255,
     255, 255, 255, 245, 10, 145, 138, 3, 192, 17, 63, 46, 2, 219]"

lemma demo_sps_facts:
  "syntax_ok demo_sps" "bits_of_bytes demo_sps_payload = sps_bits demo_sps @ [True, True]"
  "length (esc 0 demo_sps_payload) < CHD_H264_SPS_MAX_BYTES"
proof -
  show "syntax_ok demo_sps"
    by (simp add: syntax_ok_def demo_sps_def geometry_ok_def vui_ok_def scaling_ok_def scaling_list_ok_def scaling_size_def upt_conv_Cons)
  show "bits_of_bytes demo_sps_payload = sps_bits demo_sps @ [True, True]" by code_simp
  show "length (esc 0 demo_sps_payload) < CHD_H264_SPS_MAX_BYTES"
    by (simp add: demo_sps_payload_def)
qed


theorem sps_round_trip_witness:
  "chd_h264_read_sps_range (Some (0x67 # esc 0 demo_sps_payload)) = Inr (sps_expected demo_sps) \<and>
   sr_full_range (sps_expected demo_sps) \<and> sr_poc_type (sps_expected demo_sps) = 1"
proof -
  have "chd_h264_read_sps_range (Some (0x67 # esc 0 demo_sps_payload)) = Inr (sps_expected demo_sps)"
    by (intro sps_round_trip [OF demo_sps_facts(1) _ _ _ demo_sps_facts(2,3)]) simp_all
  then show ?thesis by (simp add: sps_expected_def demo_sps_def)
qed

text \<open>
  C40: Whatever bytes it is given, a successful read of a parameter set reports fields within the ranges
  its users index and count with: the identifier is below 32, the field widths are between 4 and 16
  bits, the range flag is only reported within video signal information, and that only within
  usability information; and the bytes were a well-formed SPS NAL unit of at most 4096 bytes.
\<close>

theorem sps_fields_bounded:
  assumes "chd_h264_read_sps_range (Some nal) = Inr s"
  shows "unat (sr_sps_id s) < 32 \<and> 4 \<le> unat (sr_frame_num_bits s) \<and> unat (sr_frame_num_bits s) \<le> 16 \<and>
    (sr_poc_type s = 0 \<longrightarrow> 4 \<le> unat (sr_poc_lsb_bits s) \<and> unat (sr_poc_lsb_bits s) \<le> 16) \<and>
    (sr_full_range s \<longrightarrow> sr_range_present s) \<and> (sr_range_present s \<longrightarrow> sr_video_signal_present s \<and> sr_vui_present s) \<and>
    4 \<le> length nal \<and> length nal \<le> CHD_H264_SPS_MAX_BYTES \<and> nal ! 0 AND 31 = 7 \<and> esc_ok 0 (tl nal)"
proof -
  have "sps_ok s" using assms by (rule read_sps_range_ok)
  then have "unat (sr_sps_id s) < 32 \<and> 4 \<le> unat (sr_frame_num_bits s) \<and> unat (sr_frame_num_bits s) \<le> 16 \<and>
    (sr_poc_type s = 0 \<longrightarrow> 4 \<le> unat (sr_poc_lsb_bits s) \<and> unat (sr_poc_lsb_bits s) \<le> 16) \<and>
    (sr_full_range s \<longrightarrow> sr_range_present s) \<and> (sr_range_present s \<longrightarrow> sr_video_signal_present s \<and> sr_vui_present s)"
    by (auto simp: sps_ok_def word_le_nat_alt)
  moreover have "4 \<le> length nal" "length nal \<le> CHD_H264_SPS_MAX_BYTES" "nal ! 0 AND 31 = 7" "chd_h264_range_ebsp nal"
    using assms by (auto simp: chd_h264_read_sps_range_def split: if_splits)
  moreover have "esc_ok 0 (tl nal)"
    using calculation(5) range_ebsp_loop_esc [of 0 nal 1] by (simp add: chd_h264_range_ebsp_def drop_Suc)
  ultimately show ?thesis by blast
qed

theorem sps_fields_bounded_witness:
  "\<exists>s. chd_h264_read_sps_range (Some (0x67 # esc 0 demo_sps_payload)) = Inr s \<and> unat (sr_sps_id s) < 32"
proof -
  have r: "chd_h264_read_sps_range (Some (0x67 # esc 0 demo_sps_payload)) = Inr (sps_expected demo_sps)"
    by (intro read_sps_bits [OF demo_sps_facts(1) _ _ _ demo_sps_facts(2,3)]) simp_all
  show ?thesis using r sps_fields_bounded [OF r] by blast
qed

end
