(* ===== verification/H264_Range.thy ===== *)
theory H264_Range
  imports H264_Bits
begin

text \<open>
  Observation of the video range of an access unit (\<^verbatim>\<open>include/crystalhd_h264_range_binding.h\<close>): the
  Annex-B byte stream is split into NAL units, accepted parameter sets are kept with a generation
  number, and the first slice binds the picture to a picture and a sequence parameter set. A
  pointer with its byte count is a list; an array access outside its bounds is \<^const>\<open>None\<close>.
\<close>

section \<open>Data\<close>

record chd_h264_range_snapshot =
  rs_sps_generation :: u64
  rs_sps_id :: u32
  rs_pps_id :: u32
  rs_associated :: bool
  rs_range_present :: bool
  rs_full_range :: bool

definition snapshot_zero :: chd_h264_range_snapshot where
  "snapshot_zero = \<lparr>rs_sps_generation = 0, rs_sps_id = 0, rs_pps_id = 0, rs_associated = False,
     rs_range_present = False, rs_full_range = False\<rparr>"

record sps_slot =
  sl_value :: chd_h264_sps_range
  sl_generation :: u64
  sl_valid :: bool

record pps_slot =
  pl_sps_id :: u32
  pl_valid :: bool
  pl_picture_qualified :: bool
  pl_bottom_field_poc_present :: bool

record chd_h264_range_state =
  rst_sps :: "sps_slot list"
  rst_pps :: "pps_slot list"
  rst_generation :: u64
  rst_exhausted :: bool

definition range_state_zero :: chd_h264_range_state where
  "range_state_zero = \<lparr>rst_sps = replicate 32 \<lparr>sl_value = sps_zero, sl_generation = 0, sl_valid = False\<rparr>,
     rst_pps = replicate 256 \<lparr>pl_sps_id = 0, pl_valid = False, pl_picture_qualified = False,
       pl_bottom_field_poc_present = False\<rparr>,
     rst_generation = 0, rst_exhausted = False\<rparr>"

record chd_h264_range_picture =
  pi_first_mb :: u32
  pi_pps_id :: u32
  pi_frame_num :: u32
  pi_idr_pic_id :: u32
  pi_pic_order_cnt_lsb :: u32
  pi_delta_pic_order_cnt_bottom :: int
  pi_delta_pic_order_cnt0 :: int
  pi_delta_pic_order_cnt1 :: int
  pi_idr :: bool
  pi_reference :: bool

definition picture_zero :: chd_h264_range_picture where
  "picture_zero = \<lparr>pi_first_mb = 0, pi_pps_id = 0, pi_frame_num = 0, pi_idr_pic_id = 0,
     pi_pic_order_cnt_lsb = 0, pi_delta_pic_order_cnt_bottom = 0, pi_delta_pic_order_cnt0 = 0,
     pi_delta_pic_order_cnt1 = 0, pi_idr = False, pi_reference = False\<rparr>"

abbreviation (input) CHD_H264_RANGE_MAX_AU :: nat where "CHD_H264_RANGE_MAX_AU \<equiv> 8388608"
abbreviation (input) CHD_H264_RANGE_MAX_NALS :: nat where "CHD_H264_RANGE_MAX_NALS \<equiv> 128"

definition cell :: "'a list \<Rightarrow> u32 \<Rightarrow> 'a option" where
  "cell xs i = (if unat i < length xs then Some (xs ! unat i) else None)"

definition pps_forget :: "chd_h264_range_state \<Rightarrow> chd_h264_range_state" where
  "pps_forget s = s\<lparr>rst_pps := map (\<lambda>p. p\<lparr>pl_valid := False\<rparr>) (rst_pps s)\<rparr>"

definition chd_h264_range_forget :: "chd_h264_range_state \<Rightarrow> chd_h264_range_state" where
  "chd_h264_range_forget s =
    pps_forget (s\<lparr>rst_sps := map (\<lambda>p. p\<lparr>sl_valid := False\<rparr>) (rst_sps s)\<rparr>)"

section \<open>Prefixes of picture parameter sets and slices\<close>

text \<open>Result: picture and sequence parameter set identifiers.\<close>

definition chd_h264_pps_prefix :: "u8 list \<Rightarrow> (u32 \<times> u32) option" where
  "chd_h264_pps_prefix nal =
    (if length nal < 2 \<or> length nal > CHD_H264_SPS_MAX_BYTES \<or> nal ! 0 AND 0x80 \<noteq> 0 \<or>
        nal ! 0 AND 0x60 = 0 \<or> nal ! 0 AND 31 \<noteq> 8 \<or> \<not> chd_h264_range_ebsp nal
     then None
     else
       let (p, b) = chd_h264_range_ue (bits_init nal);
           (q, b) = chd_h264_range_ue b
       in if bb_failed b \<or> p > 255 \<or> q > 31 then None else Some (p, q))"

definition chd_h264_slice_prefix :: "u8 list \<Rightarrow> u32 option" where
  "chd_h264_slice_prefix nal =
    (if length nal < 2 \<or> nal ! 0 AND 0x80 \<noteq> 0 \<or> (nal ! 0 AND 31 \<noteq> 1 \<and> nal ! 0 AND 31 \<noteq> 5) \<or>
        (nal ! 0 AND 31 = 5 \<and> nal ! 0 AND 0x60 = 0)
     then None
     else
       let (first, b) = chd_h264_range_ue (bits_init (take 128 nal));
           (type, b) = chd_h264_range_ue b;
           (p, b) = chd_h264_range_ue b
       in if bb_failed b \<or> first \<noteq> 0 \<or> type > 9 \<or> p > 255 then None else Some p)"

text \<open>Result: qualified or not, and the value stored through the pointer.\<close>

definition chd_h264_pps_picture_prefix :: "u8 list \<Rightarrow> bool \<times> bool" where
  "chd_h264_pps_picture_prefix nal =
    (let (_, b) = chd_h264_range_ue (bits_init nal);
         (_, b) = chd_h264_range_ue b;
         (_, b) = chd_h264_range_get b 1;
         (bottom, b) = chd_h264_range_get b 1;
         (groups, b) = chd_h264_range_ue b
     in if groups \<noteq> 0 then (False, False)
        else let (l0, b) = chd_h264_range_ue b in if l0 > 31 then (False, False)
        else let (l1, b) = chd_h264_range_ue b in if l1 > 31 then (False, False)
        else let (_, b) = chd_h264_range_get b 1; (bipred, b) = chd_h264_range_get b 2
        in if bipred > 2 then (False, False)
        else let (value, b) = chd_h264_range_se b in if value < -26 \<or> value > 25 then (False, False)
        else let (value, b) = chd_h264_range_se b in if value < -26 \<or> value > 25 then (False, False)
        else let (value, b) = chd_h264_range_se b in if value < -12 \<or> value > 12 then (False, False)
        else let (_, b) = chd_h264_range_get b 1; (_, b) = chd_h264_range_get b 1;
                 (redundant, b) = chd_h264_range_get b 1
        in if redundant \<noteq> 0 \<or> bb_failed b then (False, False) else (True, bottom \<noteq> 0))"

text \<open>The picture order count fields of a slice header.\<close>

definition picture_poc ::
  "chd_h264_sps_range \<Rightarrow> pps_slot \<Rightarrow> chd_h264_range_picture \<Rightarrow> chd_h264_range_bits
    \<Rightarrow> chd_h264_range_picture option" where
  "picture_poc sps pps p b =
    (if sr_poc_type sps = 0 \<and> (sr_poc_lsb_bits sps < 4 \<or> sr_poc_lsb_bits sps > 16) then None
     else
       let (p, b) =
         (if sr_poc_type sps = 0 then
            let (lsb, b) = chd_h264_range_get b (unat (sr_poc_lsb_bits sps));
                p = p\<lparr>pi_pic_order_cnt_lsb := lsb\<rparr>
            in if pl_bottom_field_poc_present pps
               then let (d, b) = chd_h264_range_se b in (p\<lparr>pi_delta_pic_order_cnt_bottom := d\<rparr>, b)
               else (p, b)
          else if sr_poc_type sps = 1 \<and> \<not> sr_delta_pic_order_always_zero sps then
            let (d, b) = chd_h264_range_se b;
                p = p\<lparr>pi_delta_pic_order_cnt0 := d\<rparr>
            in if pl_bottom_field_poc_present pps
               then let (d, b) = chd_h264_range_se b in (p\<lparr>pi_delta_pic_order_cnt1 := d\<rparr>, b)
               else (p, b)
          else (p, b))
       in if bb_failed b then None else Some p)"

text \<open>The outer \<^const>\<open>None\<close> is an access outside an array, the inner one the result false.\<close>

definition chd_h264_range_picture_prefix ::
  "chd_h264_range_state \<Rightarrow> u8 list \<Rightarrow> chd_h264_range_picture option option" where
  "chd_h264_range_picture_prefix s nal =
    (if length nal < 2 \<or> nal ! 0 AND 0x80 \<noteq> 0 then Some None
     else
       let type = nal ! 0 AND 31
       in if (type \<noteq> 1 \<and> type \<noteq> 5) \<or> (type = 5 \<and> nal ! 0 AND 0x60 = 0) then Some None
          else
            let (first, b) = chd_h264_range_ue (bits_init (take 128 nal));
                (slice_type, b) = chd_h264_range_ue b;
                (pps_id, b) = chd_h264_range_ue b
            in if bb_failed b \<or> pps_id > 255 \<or> slice_type > 9 \<or> slice_type mod 5 > 2 then Some None
               else do {
                 pps \<leftarrow> cell (rst_pps s) pps_id;
                 (if \<not> pl_valid pps \<or> \<not> pl_picture_qualified pps then Some None
                  else do {
                    slot \<leftarrow> cell (rst_sps s) (pl_sps_id pps);
                    (if \<not> sl_valid slot then Some None
                     else
                       let sps = sl_value slot
                       in if \<not> sr_frame_mbs_only sps \<or> sr_poc_type sps > 2 \<or> sr_frame_num_bits sps < 4 \<or>
                             sr_frame_num_bits sps > 16 \<or> sr_pic_size_in_map_units sps = 0 \<or>
                             first \<ge> sr_pic_size_in_map_units sps
                          then Some None
                          else
                            let (frame_num, b) = chd_h264_range_get b (unat (sr_frame_num_bits sps));
                                p = picture_zero\<lparr>pi_first_mb := first, pi_pps_id := pps_id, pi_frame_num := frame_num,
                                      pi_idr := (type = 5), pi_reference := (nal ! 0 AND 0x60 \<noteq> 0)\<rparr>;
                                (idr_pic_id, b) = (if type = 5 then chd_h264_range_ue b else (0, b))
                            in if type = 5 \<and> (frame_num \<noteq> 0 \<or> slice_type mod 5 \<noteq> 2 \<or> idr_pic_id > 65535)
                               then Some None
                               else Some (picture_poc sps pps (p\<lparr>pi_idr_pic_id := idr_pic_id\<rparr>) b)) }) })"

definition chd_h264_range_same_picture :: "chd_h264_range_picture \<Rightarrow> chd_h264_range_picture \<Rightarrow> bool" where
  "chd_h264_range_same_picture a b \<longleftrightarrow> pi_pps_id a = pi_pps_id b \<and> pi_frame_num a = pi_frame_num b \<and>
     pi_idr a = pi_idr b \<and> pi_idr_pic_id a = pi_idr_pic_id b \<and> pi_reference a = pi_reference b \<and>
     pi_pic_order_cnt_lsb a = pi_pic_order_cnt_lsb b \<and>
     pi_delta_pic_order_cnt_bottom a = pi_delta_pic_order_cnt_bottom b \<and>
     pi_delta_pic_order_cnt0 a = pi_delta_pic_order_cnt0 b \<and>
     pi_delta_pic_order_cnt1 a = pi_delta_pic_order_cnt1 b"

section \<open>Annex-B scan\<close>

text \<open>Result: the position after the start code and the position where its zeros begin.\<close>

function range_start_loop :: "u8 list \<Rightarrow> nat \<Rightarrow> nat \<Rightarrow> nat \<times> nat" where
  "range_start_loop data i zeros =
    (if i < length data then
       if data ! i = 0 then range_start_loop data (i + 1) (zeros + 1)
       else if data ! i = 1 \<and> zeros \<ge> 2 then (i + 1, i - zeros)
       else range_start_loop data (i + 1) 0
     else (length data, length data))"
  by pat_completeness auto
termination
  by (relation "measure (\<lambda>(data, i, zeros). length data - i)") auto

declare range_start_loop.simps [simp del]

definition chd_h264_range_start :: "u8 list \<Rightarrow> nat \<Rightarrow> nat \<times> nat" where
  "chd_h264_range_start data from_ix = range_start_loop data from_ix 0"

fun trim_zeros :: "u8 list \<Rightarrow> nat \<Rightarrow> nat \<Rightarrow> nat" where
  "trim_zeros data pos 0 = 0"
| "trim_zeros data pos (Suc e) = (if Suc e > pos \<and> data ! e = 0 then trim_zeros data pos e else Suc e)"

text \<open>The local variables of the observation.\<close>

record observation =
  ob_state :: chd_h264_range_state
  ob_observed :: chd_h264_range_snapshot
  ob_picture :: chd_h264_range_picture
  ob_nals :: nat
  ob_slices :: nat
  ob_auds :: nat
  ob_ambiguous :: bool
  ob_qualified :: bool

definition ob_ambig :: "bool \<Rightarrow> observation \<Rightarrow> observation" where
  "ob_ambig c ob = (if c then ob\<lparr>ob_ambiguous := True\<rparr> else ob)"

text \<open>
  One NAL unit. \<^const>\<open>None\<close> is an access outside an array; \<^const>\<open>Inl\<close> the early return on an
  exhausted generation counter, with the state then.
\<close>

definition observe_sps :: "u8 list \<Rightarrow> observation \<Rightarrow> (chd_h264_range_state + observation) option" where
  "observe_sps nal ob =
    (let ob = ob_ambig (ob_slices ob > 0) ob; s = ob_state ob
     in case chd_h264_read_sps_range (Some nal) of
          Inl _ \<Rightarrow> Some (Inr (ob\<lparr>ob_state := chd_h264_range_forget s, ob_ambiguous := True\<rparr>))
        | Inr value \<Rightarrow>
          if rst_generation s = - 1 then Some (Inl (chd_h264_range_forget (s\<lparr>rst_exhausted := True\<rparr>)))
          else do {
            sps \<leftarrow> cell_upd (rst_sps s) (unat (sr_sps_id value))
                     (\<lambda>_. \<lparr>sl_value = value, sl_generation = rst_generation s + 1, sl_valid = True\<rparr>);
            Some (Inr (ob\<lparr>ob_state := s\<lparr>rst_sps := sps, rst_generation := rst_generation s + 1\<rparr>\<rparr>)) })"

definition observe_pps :: "u8 list \<Rightarrow> observation \<Rightarrow> observation option" where
  "observe_pps nal ob =
    (let ob = ob_ambig (ob_slices ob > 0) ob; s = ob_state ob
     in case chd_h264_pps_prefix nal of
          None \<Rightarrow> Some (ob\<lparr>ob_state := pps_forget s, ob_ambiguous := True\<rparr>)
        | Some (p, q) \<Rightarrow> do {
            let (qualified, bottom) = chd_h264_pps_picture_prefix nal;
            pps \<leftarrow> cell_upd (rst_pps s) (unat p) (\<lambda>_. \<lparr>pl_sps_id = q, pl_valid = True,
                     pl_picture_qualified = qualified, pl_bottom_field_poc_present = bottom\<rparr>);
            Some (ob\<lparr>ob_state := s\<lparr>rst_pps := pps\<rparr>\<rparr>) })"

definition observe_slice :: "u8 list \<Rightarrow> observation \<Rightarrow> observation option" where
  "observe_slice nal ob0 =
    (let ob = ob0\<lparr>ob_slices := ob_slices ob0 + 1\<rparr>; s = ob_state ob
     in if ob_slices ob > 1 then
          if \<not> ob_qualified ob then Some (ob\<lparr>ob_ambiguous := True\<rparr>)
          else do {
            r \<leftarrow> chd_h264_range_picture_prefix s nal;
            Some (case r of None \<Rightarrow> ob\<lparr>ob_ambiguous := True\<rparr>
              | Some next_picture \<Rightarrow>
                if pi_first_mb next_picture \<le> pi_first_mb (ob_picture ob) \<or>
                   \<not> chd_h264_range_same_picture (ob_picture ob) next_picture
                then ob\<lparr>ob_ambiguous := True\<rparr> else ob\<lparr>ob_picture := next_picture\<rparr>) }
        else (case chd_h264_slice_prefix nal of
            None \<Rightarrow> Some (ob\<lparr>ob_ambiguous := True\<rparr>)
          | Some p \<Rightarrow> do {
              pps \<leftarrow> cell (rst_pps s) p;
              (if \<not> pl_valid pps then Some ob
               else do {
                 slot \<leftarrow> cell (rst_sps s) (pl_sps_id pps);
                 (if \<not> sl_valid slot then Some ob
                  else do {
                    r \<leftarrow> chd_h264_range_picture_prefix s nal;
                    Some (ob\<lparr>ob_observed := \<lparr>rs_sps_generation = sl_generation slot, rs_sps_id = pl_sps_id pps,
                               rs_pps_id = p, rs_associated = True,
                               rs_range_present = sr_range_present (sl_value slot),
                               rs_full_range = sr_full_range (sl_value slot)\<rparr>,
                             ob_qualified := (r \<noteq> None),
                             ob_picture := (case r of None \<Rightarrow> ob_picture ob | Some q \<Rightarrow> q)\<rparr>) }) }) }))"

definition observe_nal :: "u8 list \<Rightarrow> observation \<Rightarrow> (chd_h264_range_state + observation) option" where
  "observe_nal nal ob =
    (let type = nal ! 0 AND 31; s = ob_state ob
     in if type = 7 then observe_sps nal ob
        else map_option Inr
          (if type = 8 then observe_pps nal ob
           else if type = 1 \<or> type = 5 then observe_slice nal ob
           else if type = 9 then
             Some (ob_ambig (ob_auds ob + 1 > 1 \<or> ob_slices ob > 0) (ob\<lparr>ob_auds := ob_auds ob + 1\<rparr>))
           else if type = 6 then Some (ob_ambig (ob_slices ob > 0) ob)
           else if type = 10 \<or> type = 11 then Some (ob\<lparr>ob_state := chd_h264_range_forget s\<rparr>)
           else if type \<noteq> 12 then Some (ob\<lparr>ob_state := chd_h264_range_forget s, ob_ambiguous := True\<rparr>)
           else Some ob))"

lemma range_start_loop_bounds:
  "range_start_loop data i zeros = (nxt, start) \<Longrightarrow> zeros \<le> i \<Longrightarrow> i \<le> length data \<Longrightarrow>
    i - zeros \<le> start \<and> start \<le> length data \<and> nxt \<le> length data \<and> (nxt \<noteq> length data \<longrightarrow> i < nxt)"
proof (induction data i zeros rule: range_start_loop.induct)
  case (1 data i zeros)
  show ?case
    using 1(3) [unfolded range_start_loop.simps [of data i zeros]] 1(1,2,4,5) by (auto split: if_splits)
qed

text \<open>The loop over the NAL units; \<^const>\<open>Inl\<close> is a return with the state and nothing observed.\<close>

function observe_loop :: "u8 list \<Rightarrow> nat \<Rightarrow> observation \<Rightarrow> (chd_h264_range_state + observation) option" where
  "observe_loop data pos ob =
    (if pos < length data then
       let (nxt, end0) = chd_h264_range_start data pos;
           boundary = end0 < length data;
           end1 = trim_zeros data pos end0;
           ob1 = ob\<lparr>ob_nals := ob_nals ob + 1\<rparr>
       in if ob_nals ob1 > CHD_H264_RANGE_MAX_NALS \<or> end1 = pos \<or> data ! pos AND 0x80 \<noteq> 0
          then Some (Inl (chd_h264_range_forget (ob_state ob1)))
          else (case observe_nal (take (end1 - pos) (drop pos data)) ob1 of
              None \<Rightarrow> None
            | Some (Inl s) \<Rightarrow> Some (Inl s)
            | Some (Inr ob2) \<Rightarrow>
              if nxt = length data then
                (if boundary then Some (Inl (chd_h264_range_forget (ob_state ob2))) else Some (Inr ob2))
              else observe_loop data nxt ob2)
     else Some (Inr ob))"
  by pat_completeness auto
termination
proof (relation "measure (\<lambda>(data, pos, ob). length data - pos)")
  fix data :: "u8 list" and pos ob x xa y xb xc xd x2 b x2a
  assume "pos < length data" "x = chd_h264_range_start data pos" "(xa, y) = x" "xa \<noteq> length data"
  then show "((data, xa, b), (data, pos, ob)) \<in> measure (\<lambda>(data, pos, ob). length data - pos)"
    using range_start_loop_bounds [of data pos 0 xa y] by (auto simp: chd_h264_range_start_def)
qed auto

declare observe_loop.simps [simp del]

definition chd_h264_observe_range ::
  "chd_h264_range_state \<Rightarrow> u8 list option \<Rightarrow> (chd_h264_range_state \<times> chd_h264_range_snapshot) option" where
  "chd_h264_observe_range s data =
    (case data of None \<Rightarrow> Some (chd_h264_range_forget s, snapshot_zero)
     | Some data \<Rightarrow>
       if data = [] \<or> length data > CHD_H264_RANGE_MAX_AU \<or> rst_exhausted s
       then Some (chd_h264_range_forget s, snapshot_zero)
       else
         let (pos, start) = chd_h264_range_start data 0;
             ambiguous = (\<exists>i < start. data ! i \<noteq> 0)
         in if pos = length data \<or> ambiguous then Some (chd_h264_range_forget s, snapshot_zero)
            else
              let ob = \<lparr>ob_state = s, ob_observed = snapshot_zero, ob_picture = picture_zero, ob_nals = 0,
                        ob_slices = 0, ob_auds = 0, ob_ambiguous = False, ob_qualified = False\<rparr>
              in map_option (\<lambda>r. case r of Inl s' \<Rightarrow> (s', snapshot_zero)
                   | Inr ob' \<Rightarrow> (ob_state ob', if \<not> ob_ambiguous ob' \<and> ob_slices ob' > 0
                                               then ob_observed ob' else snapshot_zero))
                 (observe_loop data pos ob))"

section \<open>Invariant\<close>

definition range_wf :: "chd_h264_range_state \<Rightarrow> bool" where
  "range_wf s \<longleftrightarrow> length (rst_sps s) = 32 \<and> length (rst_pps s) = 256 \<and>
     (\<forall>i<256. unat (pl_sps_id (rst_pps s ! i)) < 32) \<and>
     (\<forall>i<32. sl_valid (rst_sps s ! i) \<longrightarrow> sps_ok (sl_value (rst_sps s ! i)) \<and> unat (sr_sps_id (sl_value (rst_sps s ! i))) = i) \<and>
     (\<forall>i<32. sl_generation (rst_sps s ! i) \<le> rst_generation s) \<and>
     (\<forall>i<32. \<forall>j<32. sl_valid (rst_sps s ! i) \<and> sl_valid (rst_sps s ! j) \<and> i \<noteq> j \<longrightarrow>
        sl_generation (rst_sps s ! i) \<noteq> sl_generation (rst_sps s ! j))"

text \<open>A snapshot that names the parameter sets it was taken from: the slots still hold them.\<close>

definition bound_to :: "chd_h264_range_state \<Rightarrow> chd_h264_range_snapshot \<Rightarrow> bool" where
  "bound_to s out \<longleftrightarrow> unat (rs_sps_id out) < 32 \<and> unat (rs_pps_id out) < 256 \<and>
     pl_sps_id (rst_pps s ! unat (rs_pps_id out)) = rs_sps_id out \<and>
     sl_generation (rst_sps s ! unat (rs_sps_id out)) = rs_sps_generation out \<and>
     sr_range_present (sl_value (rst_sps s ! unat (rs_sps_id out))) = rs_range_present out \<and>
     sr_full_range (sl_value (rst_sps s ! unat (rs_sps_id out))) = rs_full_range out"

definition ob_wf :: "observation \<Rightarrow> bool" where
  "ob_wf ob \<longleftrightarrow> range_wf (ob_state ob) \<and> (ob_slices ob = 0 \<longrightarrow> ob_observed ob = snapshot_zero) \<and>
     (\<not> rs_associated (ob_observed ob) \<longrightarrow> ob_observed ob = snapshot_zero) \<and>
     (\<not> ob_ambiguous ob \<and> rs_associated (ob_observed ob) \<longrightarrow> bound_to (ob_state ob) (ob_observed ob))"

lemma range_wf_zero: "range_wf range_state_zero"
  by (simp add: range_wf_def range_state_zero_def)

lemma range_wf_pps_forget [simp]: "range_wf s \<Longrightarrow> range_wf (pps_forget s)"
  by (simp add: range_wf_def pps_forget_def)

lemma range_wf_forget [simp]: "range_wf s \<Longrightarrow> range_wf (chd_h264_range_forget s)"
  by (simp add: range_wf_def pps_forget_def chd_h264_range_forget_def)

lemma range_wf_exhausted [simp]: "range_wf (s\<lparr>rst_exhausted := e\<rparr>) = range_wf s"
  by (simp add: range_wf_def)

lemma generation_forget [simp]:
  "rst_generation (chd_h264_range_forget s) = rst_generation s" "rst_generation (pps_forget s) = rst_generation s"
  by (simp_all add: pps_forget_def chd_h264_range_forget_def)

lemma bound_to_forget:
  assumes "range_wf s" "bound_to s out"
  shows "bound_to (chd_h264_range_forget s) out"
  using assms by (simp add: bound_to_def range_wf_def pps_forget_def chd_h264_range_forget_def)

lemma bound_generation:
  assumes "range_wf s" "bound_to s out"
  shows "rs_sps_generation out \<le> rst_generation s"
  using assms unfolding range_wf_def bound_to_def by metis

lemma snapshot_zero_unassociated [simp]: "\<not> rs_associated snapshot_zero"
  by (simp add: snapshot_zero_def)

lemma cell_in: "unat i < length xs \<Longrightarrow> cell xs i = Some (xs ! unat i)"
  by (simp add: cell_def)

lemma unat_le_255: "\<not> p > (255::u32) \<Longrightarrow> unat p < 256"
  by (simp add: word_less_nat_alt)

lemma picture_prefix_total:
  assumes "range_wf s"
  shows "chd_h264_range_picture_prefix s nal \<noteq> None"
proof -
  have c: "\<not> p > 255 \<Longrightarrow> cell (rst_pps s) p = Some (rst_pps s ! unat p)"
    "\<not> p > 255 \<Longrightarrow> cell (rst_sps s) (pl_sps_id (rst_pps s ! unat p)) = Some (rst_sps s ! unat (pl_sps_id (rst_pps s ! unat p)))" for p
    using assms unat_le_255 [of p] by (auto simp: range_wf_def cell_def)
  show ?thesis
    unfolding chd_h264_range_picture_prefix_def Let_def
    by (auto simp: c split: prod.splits if_splits)
qed

lemma slice_prefix_bound: "chd_h264_slice_prefix nal = Some p \<Longrightarrow> unat p < 256"
  by (rule unat_le_255) (auto simp: chd_h264_slice_prefix_def Let_def split: prod.splits if_splits)

lemma pps_prefix_bound:
  assumes "chd_h264_pps_prefix nal = Some (p, q)"
  shows "unat p < 256" "unat q < 32"
proof -
  have "\<not> p > 255" "\<not> q > 31" using assms by (auto simp: chd_h264_pps_prefix_def Let_def split: prod.splits if_splits)
  then show "unat p < 256" "unat q < 32" by (simp_all add: word_less_nat_alt)
qed

lemma range_wf_new_sps:
  assumes s: "range_wf s" and v: "sps_ok v" and g: "rst_generation s \<noteq> - 1"
  shows "range_wf (s\<lparr>rst_sps := (rst_sps s)[unat (sr_sps_id v) :=
      \<lparr>sl_value = v, sl_generation = rst_generation s + 1, sl_valid = True\<rparr>], rst_generation := rst_generation s + 1\<rparr>)"
proof -
  have lt: "rst_generation s < rst_generation s + 1"
    using word_le_plus_one [OF g] by (simp add: order.strict_iff_order)
  then have le: "x \<le> rst_generation s \<Longrightarrow> x \<le> rst_generation s + 1 \<and> x \<noteq> rst_generation s + 1" for x by auto
  have "unat (sr_sps_id v) < 32" using v by (auto simp: sps_ok_def word_le_nat_alt)
  moreover have "\<forall>i<32. sl_generation (rst_sps s ! i) \<le> rst_generation s + 1 \<and>
      rst_generation s + 1 \<noteq> sl_generation (rst_sps s ! i)"
  proof (intro allI impI)
    fix i :: nat assume "i < 32"
    then have "sl_generation (rst_sps s ! i) \<le> rst_generation s" using s by (simp add: range_wf_def)
    from le [OF this] show "sl_generation (rst_sps s ! i) \<le> rst_generation s + 1 \<and>
      rst_generation s + 1 \<noteq> sl_generation (rst_sps s ! i)" by auto
  qed
  ultimately show ?thesis using s v unfolding range_wf_def
    by (auto simp: nth_list_update)
qed

lemma range_wf_new_pps:
  assumes "range_wf s" "unat q < 32"
  shows "range_wf (s\<lparr>rst_pps := (rst_pps s)[i := \<lparr>pl_sps_id = q, pl_valid = v, pl_picture_qualified = a, pl_bottom_field_poc_present = c\<rparr>]\<rparr>)"
proof -
  have "unat (pl_sps_id ((rst_pps s)[i := \<lparr>pl_sps_id = q, pl_valid = v, pl_picture_qualified = a, pl_bottom_field_poc_present = c\<rparr>] ! j)) < 32"
    if "j < 256" for j
    using assms that by (cases "i = j") (auto simp: range_wf_def nth_list_update)
  then show ?thesis using assms by (simp add: range_wf_def)
qed

lemma ob_wf_ambig: "ob_wf ob \<Longrightarrow> ob_wf (ob_ambig c ob)"
  by (simp add: ob_wf_def ob_ambig_def)

lemma ob_ambig_sel [simp]:
  "ob_state (ob_ambig c ob) = ob_state ob" "ob_observed (ob_ambig c ob) = ob_observed ob"
  "ob_slices (ob_ambig c ob) = ob_slices ob" "ob_ambiguous (ob_ambig c ob) \<longleftrightarrow> c \<or> ob_ambiguous ob"
  "ob_auds (ob_ambig c ob) = ob_auds ob" "ob_nals (ob_ambig c ob) = ob_nals ob"
  by (auto simp: ob_ambig_def)

text \<open>A step keeps the invariant and does not lose generations.\<close>

definition step_ok :: "observation \<Rightarrow> (chd_h264_range_state + observation) option \<Rightarrow> bool" where
  "step_ok ob r \<longleftrightarrow> (case r of None \<Rightarrow> False
     | Some (Inl s) \<Rightarrow> range_wf s \<and> rst_generation (ob_state ob) \<le> rst_generation s
     | Some (Inr ob') \<Rightarrow> ob_wf ob' \<and> rst_generation (ob_state ob) \<le> rst_generation (ob_state ob'))"

lemma ob_wf_params:
  assumes "ob_wf ob" "range_wf s'"
  shows "ob_wf ((ob_ambig (ob_slices ob > 0) ob)\<lparr>ob_state := s'\<rparr>)"
  using assms by (cases "ob_slices ob = 0") (simp_all add: ob_wf_def ob_ambig_def)

lemma observe_sps_step: assumes "ob_wf ob" shows "step_ok ob (observe_sps nal ob)"
proof (cases "chd_h264_read_sps_range (Some nal)")
  case (Inl e)
  then show ?thesis using assms by (simp add: observe_sps_def step_ok_def ob_wf_def Let_def)
next
  case (Inr v)
  have v: "sps_ok v" using Inr by (rule read_sps_range_ok)
  then have u: "unat (sr_sps_id v) < 32" by (auto simp: sps_ok_def word_le_nat_alt)
  have s: "range_wf (ob_state ob)" "length (rst_sps (ob_state ob)) = 32" using assms by (simp_all add: ob_wf_def range_wf_def)
  show ?thesis
  proof (cases "rst_generation (ob_state ob) = - 1")
    case True
    then show ?thesis using Inr s by (simp add: observe_sps_def step_ok_def Let_def)
  next
    case False
    then show ?thesis
      using Inr s u ob_wf_params [OF assms range_wf_new_sps [OF s(1) v False]] word_le_plus_one [OF False]
      by (simp add: observe_sps_def step_ok_def Let_def)
  qed
qed

lemma observe_pps_step: assumes "ob_wf ob" shows "step_ok ob (map_option Inr (observe_pps nal ob))"
proof (cases "chd_h264_pps_prefix nal")
  case None
  then show ?thesis using assms by (simp add: observe_pps_def step_ok_def ob_wf_def Let_def)
next
  case (Some pq)
  obtain p q where pq: "pq = (p, q)" by (cases pq)
  obtain a c where ac: "chd_h264_pps_picture_prefix nal = (a, c)" by force
  have b: "unat p < 256" "unat q < 32" using pps_prefix_bound Some pq by blast+
  have s: "range_wf (ob_state ob)" "length (rst_pps (ob_state ob)) = 256" using assms by (simp_all add: ob_wf_def range_wf_def)
  show ?thesis
    using ob_wf_params [OF assms range_wf_new_pps [OF s(1) b(2), of "unat p" True a c]] Some pq b s
    by (simp add: observe_pps_def step_ok_def Let_def ac)
qed

lemma observe_slice_step: assumes "ob_wf ob" shows "step_ok ob (map_option Inr (observe_slice nal ob))"
proof -
  let ?s = "ob_state ob" and ?ob = "ob\<lparr>ob_slices := ob_slices ob + 1\<rparr>"
  have s: "range_wf ?s" using assms by (simp add: ob_wf_def)
  obtain r where r: "chd_h264_range_picture_prefix ?s nal = Some r" using picture_prefix_total [OF s] by auto
  have wf1: "ob_wf ?ob" using assms by (simp add: ob_wf_def)
  show ?thesis
  proof (cases "ob_slices ob = 0")
    case False
    then show ?thesis using assms r
      by (auto simp: observe_slice_def step_ok_def ob_wf_def Let_def split: option.splits)
  next
    case True
    show ?thesis
    proof (cases "chd_h264_slice_prefix nal")
      case None
      then show ?thesis using True assms by (simp add: observe_slice_def step_ok_def ob_wf_def Let_def)
    next
      case (Some p)
      have p: "unat p < 256" using Some by (rule slice_prefix_bound)
      let ?pps = "rst_pps ?s ! unat p"
      have q: "unat (pl_sps_id ?pps) < 32" using s p by (simp add: range_wf_def)
      have c: "cell (rst_pps ?s) p = Some ?pps" "cell (rst_sps ?s) (pl_sps_id ?pps) = Some (rst_sps ?s ! unat (pl_sps_id ?pps))"
        using s p q by (simp_all add: range_wf_def cell_def)
      show ?thesis using True Some c r wf1 s p q
        by (simp add: observe_slice_def step_ok_def Let_def) (simp add: ob_wf_def bound_to_def)
    qed
  qed
qed

lemma observe_nal_step:
  assumes "ob_wf ob"
  shows "step_ok ob (observe_nal nal ob)"
proof -
  have f: "ob_wf (ob\<lparr>ob_state := chd_h264_range_forget (ob_state ob)\<rparr>)"
    using assms by (auto simp: ob_wf_def bound_to_forget)
  show ?thesis
    using observe_sps_step [OF assms, of nal] observe_pps_step [OF assms, of nal] observe_slice_step [OF assms, of nal] f
      assms ob_wf_ambig [OF assms] ob_wf_ambig [of "ob\<lparr>ob_auds := ob_auds ob + 1\<rparr>"]
    by (auto simp: observe_nal_def Let_def step_ok_def ob_wf_def)
qed


lemma observe_loop_ok:
  assumes "ob_wf ob"
  shows "step_ok ob (observe_loop data pos ob)"
  using assms
proof (induction data pos ob rule: observe_loop.induct)
  case (1 data pos ob)
  show ?case
  proof (cases "pos < length data")
    case False
    then show ?thesis using 1(2) by (subst observe_loop.simps) (simp add: step_ok_def)
  next
    case True
    obtain nxt end0 where st: "chd_h264_range_start data pos = (nxt, end0)" by force
    let ?ob1 = "ob\<lparr>ob_nals := ob_nals ob + 1\<rparr>" and ?e = "trim_zeros data pos end0"
    have wf1: "ob_wf ?ob1" using 1(2) by (simp add: ob_wf_def)
    let ?nal = "take (?e - pos) (drop pos data)"
    let ?bad = "ob_nals ?ob1 > CHD_H264_RANGE_MAX_NALS \<or> ?e = pos \<or> data ! pos AND 0x80 \<noteq> 0"
    have step: "step_ok ?ob1 (observe_nal ?nal ?ob1)" using wf1 by (rule observe_nal_step)
    show ?thesis
    proof (cases ?bad)
      case bad: True
      have "observe_loop data pos ob = Some (Inl (chd_h264_range_forget (ob_state ?ob1)))"
        using True bad by (subst observe_loop.simps) (simp only: if_P st Let_def prod.case)
      then show ?thesis using 1(2) by (simp add: step_ok_def ob_wf_def)
    next
      case good: False
      have eq: "observe_loop data pos ob = (case observe_nal ?nal ?ob1 of None \<Rightarrow> None
            | Some (Inl s) \<Rightarrow> Some (Inl s)
            | Some (Inr ob2) \<Rightarrow>
              if nxt = length data then
                (if end0 < length data then Some (Inl (chd_h264_range_forget (ob_state ob2))) else Some (Inr ob2))
              else observe_loop data nxt ob2)"
        using True by (subst observe_loop.simps) (simp only: if_P st Let_def prod.case if_not_P [OF good])
      obtain r where r: "observe_nal ?nal ?ob1 = Some r" using step by (cases "observe_nal ?nal ?ob1") (auto simp: step_ok_def)
      show ?thesis
      proof (cases r)
        case (Inl s)
        then show ?thesis using step r unfolding eq by (simp add: step_ok_def)
      next
        case (Inr ob2)
        have wf2: "ob_wf ob2" "rst_generation (ob_state ob) \<le> rst_generation (ob_state ob2)"
          using step r Inr by (simp_all add: step_ok_def)
        show ?thesis
        proof (cases "nxt = length data")
          case last: True
          then show ?thesis using wf2 r Inr unfolding eq by (auto simp: step_ok_def ob_wf_def)
        next
          case more: False
          have "step_ok ob2 (observe_loop data nxt ob2)"
            using 1(1) [OF True st [symmetric] refl refl refl refl good r Inr more wf2(1)] .
          then show ?thesis using wf2 r Inr more unfolding eq
            by (auto simp: step_ok_def split: option.splits sum.splits)
        qed
      qed
    qed
  qed
qed

lemma observe_total:
  assumes "range_wf s"
  shows "\<exists>s' out. chd_h264_observe_range s data = Some (s', out) \<and> range_wf s' \<and>
    rst_generation s \<le> rst_generation s' \<and> (if rs_associated out then bound_to s' out else out = snapshot_zero)"
proof (cases data)
  case None
  then show ?thesis using assms by (simp add: chd_h264_observe_range_def)
next
  case (Some d)
  obtain pos start where st: "chd_h264_range_start d 0 = (pos, start)" by force
  define ob where "ob = \<lparr>ob_state = s, ob_observed = snapshot_zero, ob_picture = picture_zero, ob_nals = 0,
                      ob_slices = 0, ob_auds = 0, ob_ambiguous = False, ob_qualified = False\<rparr>"
  have wf: "ob_wf ob" using assms by (simp add: ob_def ob_wf_def)
  have "step_ok ob (observe_loop d pos ob)" using wf by (rule observe_loop_ok)
  then obtain r where r: "observe_loop d pos ob = Some r"
    "case r of Inl s' \<Rightarrow> range_wf s' \<and> rst_generation s \<le> rst_generation s'
     | Inr ob' \<Rightarrow> ob_wf ob' \<and> rst_generation s \<le> rst_generation (ob_state ob')"
    by (auto simp: step_ok_def ob_def split: option.splits sum.splits)
  show ?thesis
  proof (cases "d = [] \<or> length d > CHD_H264_RANGE_MAX_AU \<or> rst_exhausted s \<or> pos = length d \<or> (\<exists>i < start. d ! i \<noteq> 0)")
    case True
    then have "chd_h264_observe_range s data = Some (chd_h264_range_forget s, snapshot_zero)"
      unfolding chd_h264_observe_range_def Some option.case st Let_def prod.case by auto
    then show ?thesis using assms by simp
  next
    case False
    then have res: "chd_h264_observe_range s data = Some (case r of Inl s' \<Rightarrow> (s', snapshot_zero)
                 | Inr ob' \<Rightarrow> (ob_state ob', if \<not> ob_ambiguous ob' \<and> ob_slices ob' > 0
                                             then ob_observed ob' else snapshot_zero))"
      unfolding chd_h264_observe_range_def Some option.case st Let_def prod.case ob_def [symmetric] r(1) by auto
    show ?thesis
    proof (cases r)
      case (Inl s')
      then show ?thesis using r(2) res by (intro exI [of _ s'] exI [of _ snapshot_zero]) simp
    next
      case (Inr ob')
      let ?out = "if \<not> ob_ambiguous ob' \<and> ob_slices ob' > 0 then ob_observed ob' else snapshot_zero"
      show ?thesis using r(2) res Inr by (intro exI [of _ "ob_state ob'"] exI [of _ ?out]) (auto simp: ob_wf_def)
    qed
  qed
qed

section \<open>Properties\<close>

text \<open>
  C19: Observing any byte string as an access unit never indexes outside the parameter set tables, keeps
  them consistent (every valid slot holds a checked set with the identifier of the slot, no two the
  same generation, no picture set refers outside the table), and never lowers the generation counter.
  What it reports is either nothing or a binding of the picture to slots that hold exactly the
  reported generation and range flags when the call returns.
\<close>

theorem observe_range_sound:
  assumes "range_wf s"
  shows "range_wf range_state_zero \<and> (\<exists>s' out. chd_h264_observe_range s data = Some (s', out) \<and> range_wf s' \<and>
    rst_generation s \<le> rst_generation s' \<and>
    (if rs_associated out then bound_to s' out \<and> rs_sps_generation out \<le> rst_generation s' else out = snapshot_zero))"
proof -
  obtain s' out where r: "chd_h264_observe_range s data = Some (s', out)" "range_wf s'"
    "rst_generation s \<le> rst_generation s'" "if rs_associated out then bound_to s' out else out = snapshot_zero"
    using observe_total [OF assms] by blast
  then have "rs_associated out \<longrightarrow> rs_sps_generation out \<le> rst_generation s'"
    using bound_generation [OF r(2)] by simp
  then show ?thesis using r range_wf_zero by (intro conjI exI [of _ s'] exI [of _ out]) simp_all
qed


theorem observe_range_sound_witness:
  "\<exists>s' out. chd_h264_observe_range range_state_zero (Some ([0, 0, 1, 0x67] @ demo_sps_payload @ [0, 0, 1, 0x68, 0x92, 0x40, 0, 0, 1, 0x65, 0xB8])) = Some (s', out) \<and>
    (rs_associated out \<longrightarrow> bound_to s' out)"
  using observe_range_sound [OF range_wf_zero, of "Some ([0, 0, 1, 0x67] @ demo_sps_payload @ [0, 0, 1, 0x68, 0x92, 0x40, 0, 0, 1, 0x65, 0xB8])"]
  by auto

section \<open>Access units as lists of NAL units\<close>

fun no_start :: "nat \<Rightarrow> u8 list \<Rightarrow> bool" where
  "no_start z [] = True"
| "no_start z (x # xs) = (if x = 0 then no_start (z + 1) xs else \<not> (x = 1 \<and> z \<ge> 2) \<and> no_start 0 xs)"

text \<open>A NAL unit as a stream may carry it: not empty, no start code inside, no trailing zero.\<close>

definition nal_ok :: "u8 list \<Rightarrow> bool" where
  "nal_ok n \<longleftrightarrow> n \<noteq> [] \<and> last n \<noteq> 0 \<and> no_start 0 n"

text \<open>Every unit behind a start code, with any number of further zero bytes in front of it.\<close>

fun annexb :: "(nat \<times> u8 list) list \<Rightarrow> u8 list" where
  "annexb [] = []"
| "annexb ((k, n) # ns) = replicate k 0 @ [0, 0, 1] @ n @ annexb ns"

fun observe_nals :: "u8 list list \<Rightarrow> observation \<Rightarrow> (chd_h264_range_state + observation) option" where
  "observe_nals [] ob = Some (Inr ob)"
| "observe_nals (n # ns) ob =
    (let ob1 = ob\<lparr>ob_nals := ob_nals ob + 1\<rparr>
     in if ob_nals ob1 > CHD_H264_RANGE_MAX_NALS \<or> n ! 0 AND 0x80 \<noteq> 0
        then Some (Inl (chd_h264_range_forget (ob_state ob1)))
        else (case observe_nal n ob1 of None \<Rightarrow> None | Some (Inl s) \<Rightarrow> Some (Inl s)
          | Some (Inr ob2) \<Rightarrow> observe_nals ns ob2))"

lemma range_start_zeros:
  "range_start_loop (pre @ replicate k 0 @ rest) (length pre) z = range_start_loop (pre @ replicate k 0 @ rest) (length pre + k) (z + k)"
proof (induction k arbitrary: pre z)
  case (Suc k)
  have "range_start_loop (pre @ replicate (Suc k) 0 @ rest) (length pre) z =
      range_start_loop ((pre @ [0]) @ replicate k 0 @ rest) (length (pre @ [0])) (z + 1)"
    by (subst range_start_loop.simps) (simp add: nth_append)
  also have "\<dots> = range_start_loop (pre @ replicate (Suc k) 0 @ rest) (length pre + Suc k) (z + Suc k)"
    by (subst Suc) simp
  finally show ?case .
qed simp

lemma range_start_code:
  "range_start_loop (pre @ replicate k 0 @ [0, 0, 1] @ rest) (length pre) 0 = (length pre + k + 3, length pre)"
proof -
  have e: "replicate k 0 @ [0, 0, 1] @ rest = replicate (k + 2) (0::u8) @ 1 # rest"
    by (induction k) (simp_all add: numeral_2_eq_2)
  have "range_start_loop (pre @ replicate (k + 2) 0 @ 1 # rest) (length pre + (k + 2)) (0 + (k + 2)) = (length pre + k + 3, length pre)"
    by (subst range_start_loop.simps) (simp add: nth_append)
  then show ?thesis unfolding e range_start_zeros [of pre "k + 2" "1 # rest" 0] .
qed

lemma range_start_skip:
  assumes "no_start z n" "n \<noteq> []" "last n \<noteq> 0"
  shows "range_start_loop (pre @ n @ rest) (length pre) z = range_start_loop (pre @ n @ rest) (length pre + length n) 0"
  using assms
proof (induction n arbitrary: pre z)
  case (Cons x xs)
  have step: "range_start_loop (pre @ (x # xs) @ rest) (length pre) z =
      range_start_loop ((pre @ [x]) @ xs @ rest) (length (pre @ [x])) (if x = 0 then z + 1 else 0)"
    using Cons.prems by (subst range_start_loop.simps) (auto simp: nth_append)
  show ?case
  proof (cases "xs = []")
    case True
    then show ?thesis using step Cons.prems by simp
  next
    case False
    have "range_start_loop ((pre @ [x]) @ xs @ rest) (length (pre @ [x])) (if x = 0 then z + 1 else 0) =
        range_start_loop ((pre @ [x]) @ xs @ rest) (length (pre @ [x]) + length xs) 0"
      using Cons.prems False by (intro Cons.IH) (auto split: if_splits)
    then show ?thesis using step by simp
  qed
qed simp

lemma observe_loop_nals:
  assumes "nal_ok n" "\<forall>(k, m)\<in>set ns. nal_ok m"
  shows "observe_loop (pre @ n @ annexb ns) (length pre) ob = observe_nals (n # map snd ns) ob"
  using assms
proof (induction ns arbitrary: pre n ob)
  case Nil
  let ?d = "pre @ n" and ?ob1 = "ob\<lparr>ob_nals := ob_nals ob + 1\<rparr>"
  have n: "n \<noteq> []" "last n \<noteq> 0" "no_start 0 n" using Nil by (simp_all add: nal_ok_def)
  have st: "chd_h264_range_start ?d (length pre) = (length ?d, length ?d)"
    using range_start_skip [OF n(3,1,2), of pre "[]"]
    by (simp add: chd_h264_range_start_def) (subst range_start_loop.simps, simp)
  have tr: "trim_zeros ?d (length pre) (length ?d) = length ?d"
    using n by (cases n rule: rev_cases) (simp_all add: nth_append)
  have c: "(length ?d = length pre) = False" using n by simp
  show ?case
    using n by (subst observe_loop.simps)
      (simp add: st [simplified] tr [simplified] Let_def nth_append split: option.split sum.split)
next
  case (Cons km ns)
  obtain k m where km: "km = (k, m)" by (cases km)
  have n: "n \<noteq> []" "last n \<noteq> 0" "no_start 0 n" using Cons.prems by (simp_all add: nal_ok_def)
  have m: "nal_ok m" "\<forall>(k, m)\<in>set ns. nal_ok m" using Cons.prems km by auto
  let ?rest = "m @ annexb ns"
  let ?d = "pre @ n @ replicate k 0 @ [0, 0, 1] @ ?rest"
  let ?pre = "pre @ n @ replicate k 0 @ [0, 0, 1]"
  have st: "chd_h264_range_start ?d (length pre) = (length ?pre, length pre + length n)"
    using range_start_skip [OF n(3,1,2), of pre "replicate k 0 @ [0, 0, 1] @ ?rest"]
      range_start_code [of "pre @ n" k ?rest] by (simp add: chd_h264_range_start_def)
  have tr: "trim_zeros ?d (length pre) (length pre + length n) = length pre + length n"
    using n by (cases n rule: rev_cases) (simp_all add: nth_append)
  have nx: "length ?pre \<noteq> length ?d" using m(1) by (simp add: nal_ok_def)
  have IH: "observe_loop (?pre @ m @ annexb ns) (length ?pre) ob' = observe_nals (m # map snd ns) ob'" for ob'
    by (rule Cons.IH [OF m])
  have hd: "?d ! length pre = n ! 0" and tk: "take (length pre + length n - length pre) (drop (length pre) ?d) = n"
    using n by (simp_all add: nth_append)
  have g: "length pre < length ?d" "(length pre + length n = length pre) = False" using n by simp_all
  show ?case
    unfolding km annexb.simps list.map snd_conv observe_nals.simps(2) [of n]
    apply (subst observe_loop.simps)
    unfolding if_P [OF g(1)] st prod.case Let_def tr g(2) hd tk if_not_P [OF nx]
    using IH by (simp split: option.split sum.split)
qed

definition observe_finish :: "chd_h264_range_state + observation \<Rightarrow> chd_h264_range_state \<times> chd_h264_range_snapshot" where
  "observe_finish r = (case r of Inl s' \<Rightarrow> (s', snapshot_zero)
     | Inr ob' \<Rightarrow> (ob_state ob', if \<not> ob_ambiguous ob' \<and> ob_slices ob' > 0 then ob_observed ob' else snapshot_zero))"

definition observe_init :: "chd_h264_range_state \<Rightarrow> observation" where
  "observe_init s = \<lparr>ob_state = s, ob_observed = snapshot_zero, ob_picture = picture_zero, ob_nals = 0,
                        ob_slices = 0, ob_auds = 0, ob_ambiguous = False, ob_qualified = False\<rparr>"

text \<open>
  C35: The Annex-B scan agrees with the reference splitting. For an access unit assembled from NAL units
  that contain no start code and end in a nonzero byte, each behind a start code of three or more
  bytes, observing the bytes is observing exactly these units in order.
\<close>

theorem observe_annexb_units:
  assumes "\<forall>(k, n)\<in>set ns. nal_ok n" "ns \<noteq> []" "length (annexb ns) \<le> CHD_H264_RANGE_MAX_AU" "\<not> rst_exhausted s"
  shows "chd_h264_observe_range s (Some (annexb ns)) = map_option observe_finish (observe_nals (map snd ns) (observe_init s))"
proof -
  obtain k n ms where ns: "ns = (k, n) # ms" using assms(2) by (cases ns) auto
  have n: "nal_ok n" "\<forall>(k, n)\<in>set ms. nal_ok n" using assms(1) ns by auto
  let ?d = "annexb ns" and ?pre = "replicate k 0 @ [0, 0, 1] :: u8 list"
  have d: "?d = ?pre @ n @ annexb ms" by (simp add: ns)
  have st: "chd_h264_range_start ?d 0 = (length ?pre, 0)"
    using range_start_code [of "[]" k "n @ annexb ms"] by (simp add: chd_h264_range_start_def ns)
  have ne: "\<not> (?d = [] \<or> length ?d > CHD_H264_RANGE_MAX_AU \<or> rst_exhausted s)"
    using assms(3,4) by (simp add: ns)
  have nx: "\<not> (length ?pre = length ?d \<or> (\<exists>i < 0. ?d ! i \<noteq> 0))" using n(1) by (simp add: d nal_ok_def)
  have "observe_loop ?d (length ?pre) (observe_init s) = observe_nals (map snd ns) (observe_init s)"
    unfolding d using observe_loop_nals [OF n, of ?pre] by (simp add: ns)
  then show ?thesis
    unfolding chd_h264_observe_range_def option.case if_not_P [OF ne] st Let_def prod.case if_not_P [OF nx]
      observe_init_def [symmetric]
    by (simp add: observe_finish_def [abs_def])
qed

theorem observe_annexb_units_witness:
  "chd_h264_observe_range range_state_zero (Some [0, 0, 0, 1, 0x09, 0x10, 0, 0, 1, 0x0C, 0xFF]) =
    Some (range_state_zero, snapshot_zero)"
proof -
  let ?ns = "[(1, [0x09, 0x10]), (0, [0x0C, 0xFF])] :: (nat \<times> u8 list) list"
  have "\<forall>(k, n)\<in>set ?ns. nal_ok n" "?ns \<noteq> []" "length (annexb ?ns) \<le> CHD_H264_RANGE_MAX_AU" "\<not> rst_exhausted range_state_zero"
    by (simp_all add: nal_ok_def range_state_zero_def)
  from observe_annexb_units [OF this] show ?thesis
    by (simp add: observe_nal_def observe_init_def observe_finish_def ob_ambig_def Let_def)
qed

end
