(* ===== verification/Dma_Desc.thy ===== *)
theory Dma_Desc
  imports Chd_Prelude
begin

text \<open>
  DMA descriptor construction (\<^verbatim>\<open>driver/linux/crystalhd_hw.c\<close>): a mapped scatter list, given as
  (address, length) pairs, is translated into the device's chained descriptors, with the TX tail
  bytes in a descriptor of their own and the RX chroma plane in a second chain. Bit fields keep
  their width. The descriptor memory is a list; a write outside it is \<^const>\<open>None\<close>. The host is
  little endian, so \<^verbatim>\<open>cpu_to_le32\<close> and \<^verbatim>\<open>cpu_to_le64\<close> are the identity.
\<close>

section \<open>Data\<close>

abbreviation (input) CRYSTALHD_DMA_DESC_MAX_XFER_BYTES :: u32 where
  "CRYSTALHD_DMA_DESC_MAX_XFER_BYTES \<equiv> 0x1FFFFFC"

abbreviation (input) DESC_SIZE :: nat where "DESC_SIZE \<equiv> 32"

type_synonym sg_entry = "u64 \<times> u32"

record dma_descriptor =
  d_sdram_buff_addr :: "28 word"
  d_buff_addr_low :: u32
  d_buff_addr_high :: u32
  d_xfer_size :: "23 word"
  d_intr_enable :: bool
  d_fill_bytes :: "2 word"
  d_dma_dir :: bool
  d_last_rec_indicator :: bool
  d_next_desc_addr_low :: u32
  d_next_desc_addr_high :: u32

definition zero_desc :: dma_descriptor where
  "zero_desc = \<lparr>d_sdram_buff_addr = 0, d_buff_addr_low = 0, d_buff_addr_high = 0, d_xfer_size = 0,
     d_intr_enable = False, d_fill_bytes = 0, d_dma_dir = False, d_last_rec_indicator = False,
     d_next_desc_addr_low = 0, d_next_desc_addr_high = 0\<rparr>"

text \<open>\<open>ds_sgl\<close> is the list from \<^verbatim>\<open>source->sgl\<close> on, as \<^verbatim>\<open>sg_next\<close> walks it; empty for null.\<close>

record crystalhd_dma_desc_source =
  ds_sgl :: "sg_entry list"
  ds_dma_nents :: u32
  ds_dir_tx :: bool
  ds_fill_addr :: u64
  ds_fill_size :: u32

text \<open>\<open>dm_start\<close> is \<^verbatim>\<open>pdma_desc_start\<close>, null or an array of descriptors; \<open>dm_sz\<close> is in bytes.\<close>

record dma_desc_mem =
  dm_start :: "dma_descriptor list option"
  dm_sz :: u32
  dm_phy_addr :: u64

record crystalhd_tx_buffer =
  tb_sgl :: "sg_entry list"
  tb_dma_nents :: u32
  tb_bytes :: u32
  tb_tail_addr :: u64
  tb_tail_size :: u32
  tb_has_cookie :: bool

record crystalhd_rx_buffer =
  rb_sgl :: "sg_entry list"
  rb_dma_nents :: u32
  rb_capacity :: u32
  rb_uv_offset :: u32
  rb_uv_sg_ix :: u32
  rb_uv_sg_off :: u32

definition low_part :: "u64 \<Rightarrow> u32" where "low_part a = ucast a"
definition high_part :: "u64 \<Rightarrow> u32" where "high_part a = ucast (drop_bit 32 a)"

definition bool_u32 :: "bool \<Rightarrow> u32" where "bool_u32 b = (if b then 1 else 0)"

definition unaligned :: "u64 \<Rightarrow> u32 \<Rightarrow> bool" where
  "unaligned a l \<longleftrightarrow> a AND 3 \<noteq> 0 \<or> l AND 3 \<noteq> 0"

section \<open>Filling one chain\<close>

text \<open>
  The loop over the scatter entries: \<open>n\<close> entries are left, \<open>ix\<close> are done, descriptor \<open>ix\<close> is
  cell \<open>d0 + ix\<close> of the array. Result: status, entries done, bytes described, next SDRAM address,
  descriptors.
\<close>

type_synonym fill_result = "bc_status \<times> nat \<times> u32 \<times> u32 \<times> dma_descriptor list"

fun fill_loop ::
  "bool \<Rightarrow> nat \<Rightarrow> u32 \<Rightarrow> u32 \<Rightarrow> u32 \<Rightarrow> nat \<Rightarrow> nat \<Rightarrow> sg_entry list \<Rightarrow> u32 \<Rightarrow> u32 \<Rightarrow> u64
    \<Rightarrow> dma_descriptor list \<Rightarrow> fill_result option" where
  "fill_loop tx d0 dest sz st_off 0 ix sgs count cur phy ds = Some (BC_STS_SUCCESS, ix, count, cur, ds)"
| "fill_loop tx d0 dest sz st_off (Suc n) ix [] count cur phy ds =
     Some (BC_STS_INV_ARG, ix, count, cur, ds)"
| "fill_loop tx d0 dest sz st_off (Suc n) ix ((a, available) # sgs) count cur phy ds =
    (if unaligned a available then Some (BC_STS_NOT_IMPL, ix, count, cur, ds)
     else if ix = 0 \<and> (st_off \<ge> available \<or> st_off AND 3 \<noteq> 0)
     then Some (BC_STS_INV_ARG, ix, count, cur, ds)
     else
       let addr = (if ix = 0 then a + ucast st_off else a);
           len0 = (if ix = 0 then available - st_off else available);
           nxt = phy + word_of_nat DESC_SIZE
       in do {
         ds1 \<leftarrow> cell_upd ds (d0 + ix) (\<lambda>_. zero_desc\<lparr>d_buff_addr_low := low_part addr,
                  d_buff_addr_high := high_part addr, d_dma_dir := tx,
                  d_next_desc_addr_low := low_part nxt, d_next_desc_addr_high := high_part nxt\<rparr>);
         (if count \<ge> sz then Some (BC_STS_ERROR, ix, count, cur, ds1)
          else
            let len = (if len0 > sz - count then sz - count else len0)
            in if len > CRYSTALHD_DMA_DESC_MAX_XFER_BYTES
               then Some (BC_STS_NOT_IMPL, ix, count, cur, ds1)
               else if len = 0 \<or> len > available then Some (BC_STS_ERROR, ix, count, cur, ds1)
               else do {
                 ds2 \<leftarrow> cell_upd ds1 (d0 + ix) (\<lambda>d. d\<lparr>d_xfer_size := ucast (len div 4),
                          d_sdram_buff_addr := (if tx then ucast cur else 0)\<rparr>);
                 fill_loop tx d0 dest sz st_off n (Suc ix) sgs (count + len)
                   (if tx then dest + (count + len) else cur) nxt ds2 }) })"

definition crystalhd_hw_fill_desc ::
  "crystalhd_dma_desc_source \<Rightarrow> nat \<Rightarrow> u64 \<Rightarrow> u32 \<Rightarrow> u32 \<Rightarrow> u32 \<Rightarrow> u32 \<Rightarrow> u32
    \<Rightarrow> dma_descriptor list \<Rightarrow> (bc_status \<times> dma_descriptor list) option" where
  "crystalhd_hw_fill_desc source d0 desc_paddr_base sg_cnt sg_st_ix sg_st_off xfr_sz destDRAMaddr ds =
    (if desc_paddr_base = 0 \<or> xfr_sz = 0 \<or> (sg_cnt = 0 \<and> ds_fill_size source = 0) \<or>
        xfr_sz < ds_fill_size source \<or> ((sg_cnt \<noteq> 0) \<noteq> (xfr_sz - ds_fill_size source \<noteq> 0)) \<or>
        sg_st_ix > ds_dma_nents source \<or> sg_cnt > ds_dma_nents source - sg_st_ix \<or>
        (ds_fill_size source \<noteq> 0 \<and>
          (\<not> ds_dir_tx source \<or> ds_fill_size source > 3 \<or> ds_fill_addr source = 0 \<or>
           ds_fill_addr source AND 3 \<noteq> 0))
     then Some (BC_STS_INV_ARG, ds)
     else
       let tx = ds_dir_tx source; fs = ds_fill_size source;
           sg_xfr_sz = xfr_sz - fs; sgs = drop (unat sg_st_ix) (ds_sgl source)
       in if sg_cnt \<noteq> 0 \<and> sgs = [] then Some (BC_STS_INV_ARG, ds)
          else do {
            (sts, ix, count, cur, ds1) \<leftarrow>
              fill_loop tx d0 destDRAMaddr sg_xfr_sz sg_st_off (unat sg_cnt) 0 sgs 0 destDRAMaddr
                desc_paddr_base ds;
            if sts \<noteq> BC_STS_SUCCESS then Some (sts, ds1)
            else if count \<noteq> sg_xfr_sz then Some (BC_STS_ERROR, ds1)
            else do {
              ds2 \<leftarrow> (if fs = 0 then Some ds1
                     else cell_upd ds1 (d0 + ix) (\<lambda>_. zero_desc\<lparr>
                       d_buff_addr_low := low_part (ds_fill_addr source),
                       d_buff_addr_high := high_part (ds_fill_addr source),
                       d_dma_dir := tx, d_xfer_size := 1, d_fill_bytes := ucast (4 - fs),
                       d_sdram_buff_addr := (if tx then ucast cur else 0)\<rparr>));
              let last_desc_ix = (if fs \<noteq> 0 then ix else if ix \<noteq> 0 then ix - 1 else 0);
              ds3 \<leftarrow> cell_upd ds2 (d0 + last_desc_ix) (\<lambda>d. d\<lparr>d_last_rec_indicator := True,
                       d_next_desc_addr_low := 0, d_next_desc_addr_high := 0, d_intr_enable := True\<rparr>);
              (if count + fs \<noteq> xfr_sz then Some (BC_STS_ERROR, ds3) else Some (BC_STS_SUCCESS, ds3)) } })"

section \<open>Translation of a mapped buffer\<close>

text \<open>
  The pass over all mapped entries: bytes available, first prefix that covers the required bytes
  (0: none), backing offset of the chroma location once seen.
\<close>

record scan_state =
  sc_available :: u64
  sc_mapped :: u32
  sc_uv_backing :: u64
  sc_uv_seen :: bool

fun scan_sgs ::
  "u32 \<Rightarrow> u32 \<Rightarrow> u32 \<Rightarrow> u64 \<Rightarrow> nat \<Rightarrow> u32 \<Rightarrow> sg_entry list \<Rightarrow> scan_state \<Rightarrow> bc_status + scan_state" where
  "scan_sgs uv_offset uv_ix uv_off required 0 i sgs st = Inr st"
| "scan_sgs uv_offset uv_ix uv_off required (Suc n) i [] st = Inl BC_STS_INV_ARG"
| "scan_sgs uv_offset uv_ix uv_off required (Suc n) i ((a, len) # sgs) st =
    (if len = 0 \<or> unaligned a len then Inl BC_STS_NOT_IMPL
     else if uv_offset \<noteq> 0 \<and> i = uv_ix \<and> uv_off \<ge> len then Inl BC_STS_INV_ARG
     else
       let st1 = (if uv_offset \<noteq> 0 \<and> i = uv_ix
                  then st\<lparr>sc_uv_backing := sc_available st + ucast uv_off, sc_uv_seen := True\<rparr> else st);
           st2 = st1\<lparr>sc_available := sc_available st1 + ucast len\<rparr>;
           st3 = (if sc_mapped st2 = 0 \<and> sc_available st2 \<ge> required
                  then st2\<lparr>sc_mapped := i + 1\<rparr> else st2)
       in scan_sgs uv_offset uv_ix uv_off required n (i + 1) sgs st3)"

definition scan_init :: scan_state where
  "scan_init = \<lparr>sc_available = 0, sc_mapped = 0, sc_uv_backing = 0, sc_uv_seen = False\<rparr>"

text \<open>Result: status, chroma descriptor index if it was stored, descriptors.\<close>

definition crystalhd_xlat_dma_to_desc ::
  "crystalhd_dma_desc_source \<Rightarrow> u32 \<Rightarrow> u32 \<Rightarrow> u32 \<Rightarrow> u32 \<Rightarrow> dma_desc_mem \<Rightarrow> u32
    \<Rightarrow> (bc_status \<times> u32 option \<times> dma_desc_mem) option" where
  "crystalhd_xlat_dma_to_desc source capacity uv_offset uv_sg_ix uv_sg_off mem destDRAMaddr =
    (case dm_start mem of
       None \<Rightarrow> Some (BC_STS_INV_ARG, None, mem)
     | Some ds \<Rightarrow>
       let fs = ds_fill_size source; nents = ds_dma_nents source
       in if dm_sz mem = 0 \<or> capacity = 0 \<or> (ds_sgl source = [] \<and> nents \<noteq> 0) \<or>
             (nents = 0 \<and> fs = 0) \<or> fs > capacity \<or>
             (fs \<noteq> 0 \<and> (\<not> ds_dir_tx source \<or> fs > 3 \<or> fs \<noteq> capacity AND 3 \<or>
                         ds_fill_addr source = 0 \<or> ds_fill_addr source AND 3 \<noteq> 0)) \<or>
             (fs = 0 \<and> capacity AND 3 \<noteq> 0) \<or>
             (uv_offset \<noteq> 0 \<and> (ds_dir_tx source \<or> uv_offset \<ge> capacity \<or> uv_sg_ix \<ge> nents \<or>
                                (uv_offset OR uv_sg_off) AND 3 \<noteq> 0)) \<or>
             (uv_offset = 0 \<and> (uv_sg_ix \<noteq> 0 \<or> uv_sg_off \<noteq> 0))
          then Some (BC_STS_INV_ARG, None, mem)
          else
            let required = ucast (capacity - fs)
            in (case scan_sgs uv_offset uv_sg_ix uv_sg_off required (unat nents) 0 (ds_sgl source) scan_init of
                 Inl sts \<Rightarrow> Some (sts, None, mem)
               | Inr st \<Rightarrow>
                 let mapped = sc_mapped st
                 in if sc_available st < required \<or> (required \<noteq> 0 \<and> mapped = 0) \<or>
                       (uv_offset \<noteq> 0 \<and> (\<not> sc_uv_seen st \<or> sc_uv_backing st \<noteq> ucast uv_offset))
                    then Some (BC_STS_INV_ARG, None, mem)
                    else
                      let desc_count = (if uv_offset \<noteq> 0
                            then uv_sg_ix + bool_u32 (uv_sg_off \<noteq> 0) + mapped - uv_sg_ix
                            else mapped + bool_u32 (fs \<noteq> 0))
                      in if desc_count > dm_sz mem div word_of_nat DESC_SIZE
                         then Some (BC_STS_INSUFF_RES, Some 0, mem)
                         else
                           let (sg_cnt, xfr_sz) =
                                 (if ds_dir_tx source \<or> uv_offset = 0 then (mapped, capacity)
                                  else (uv_sg_ix + bool_u32 (uv_sg_off \<noteq> 0), uv_offset))
                           in do {
                             (sts, ds1) \<leftarrow> crystalhd_hw_fill_desc source 0 (dm_phy_addr mem) sg_cnt 0 0
                                xfr_sz destDRAMaddr ds;
                             (if sts \<noteq> BC_STS_SUCCESS \<or> uv_offset = 0
                              then Some (sts, Some 0, mem\<lparr>dm_start := Some ds1\<rparr>)
                              else do {
                                (sts2, ds2) \<leftarrow> crystalhd_hw_fill_desc source (unat sg_cnt)
                                   (dm_phy_addr mem + ucast sg_cnt * word_of_nat DESC_SIZE)
                                   (mapped - uv_sg_ix) uv_sg_ix uv_sg_off (capacity - uv_offset)
                                   destDRAMaddr ds1;
                                Some (sts2, Some sg_cnt, mem\<lparr>dm_start := Some ds2\<rparr>) }) }))"

section \<open>Frontends\<close>

fun preflight_loop ::
  "u32 \<Rightarrow> nat \<Rightarrow> u32 \<Rightarrow> sg_entry list \<Rightarrow> u64 \<Rightarrow> u32 \<Rightarrow> bc_status + (u64 \<times> u32)" where
  "preflight_loop required 0 i sgs available mapped = Inr (available, mapped)"
| "preflight_loop required (Suc n) i [] available mapped = Inl BC_STS_INV_ARG"
| "preflight_loop required (Suc n) i ((a, len) # sgs) available mapped =
    (if len = 0 \<or> unaligned a len then Inl BC_STS_NOT_IMPL
     else if available < ucast required \<and> len > CRYSTALHD_DMA_DESC_MAX_XFER_BYTES \<and>
             ucast required - available > ucast CRYSTALHD_DMA_DESC_MAX_XFER_BYTES
     then Inl BC_STS_NOT_IMPL
     else
       let available' = available + ucast len
       in preflight_loop required n (i + 1) sgs available'
            (if mapped = 0 \<and> available' \<ge> ucast required then i + 1 else mapped))"

definition crystalhd_tx_buffer_preflight :: "crystalhd_tx_buffer option \<Rightarrow> u32 \<Rightarrow> bc_status" where
  "crystalhd_tx_buffer_preflight buffer max_descriptors = (case buffer of None \<Rightarrow> BC_STS_INV_ARG
    | Some b \<Rightarrow>
      if tb_bytes b = 0 \<or> \<not> tb_has_cookie b \<or> tb_tail_size b > 3 \<or>
         tb_tail_size b \<noteq> tb_bytes b AND 3 \<or>
         (tb_tail_size b \<noteq> 0 \<and> (tb_tail_addr b = 0 \<or> tb_tail_addr b AND 3 \<noteq> 0))
      then BC_STS_INV_ARG
      else
        let required = tb_bytes b - tb_tail_size b
        in if (required \<noteq> 0) \<noteq> (tb_dma_nents b \<noteq> 0) \<or> (required \<noteq> 0 \<and> tb_sgl b = [])
           then BC_STS_INV_ARG
           else (case preflight_loop required (unat (tb_dma_nents b)) 0 (tb_sgl b) 0 0 of
               Inl sts \<Rightarrow> sts
             | Inr (available, mapped) \<Rightarrow>
               if available < ucast required \<or> (required \<noteq> 0 \<and> mapped = 0) then BC_STS_INV_ARG
               else if mapped + bool_u32 (tb_tail_size b \<noteq> 0) > max_descriptors
               then BC_STS_INSUFF_RES
               else BC_STS_SUCCESS))"

definition crystalhd_xlat_tx_buffer_to_dma_desc ::
  "crystalhd_tx_buffer option \<Rightarrow> dma_desc_mem option \<Rightarrow> u32
    \<Rightarrow> (bc_status \<times> u32 option \<times> dma_desc_mem option) option" where
  "crystalhd_xlat_tx_buffer_to_dma_desc buffer mem destDRAMaddr =
    (case mem of None \<Rightarrow> Some (BC_STS_INV_ARG, None, mem)
     | Some m \<Rightarrow>
       let sts = crystalhd_tx_buffer_preflight buffer (dm_sz m div word_of_nat DESC_SIZE)
       in (case buffer of None \<Rightarrow> Some (sts, None, mem)
         | Some b \<Rightarrow>
           if sts \<noteq> BC_STS_SUCCESS then Some (sts, None, mem)
           else map_option (\<lambda>(sts, uv, m'). (sts, uv, Some m'))
             (crystalhd_xlat_dma_to_desc
               \<lparr>ds_sgl = tb_sgl b, ds_dma_nents = tb_dma_nents b, ds_dir_tx = True,
                ds_fill_addr = tb_tail_addr b, ds_fill_size = tb_tail_size b\<rparr>
               (tb_bytes b) 0 0 0 m destDRAMaddr)))"

definition crystalhd_xlat_rx_buffer_to_dma_desc ::
  "crystalhd_rx_buffer option \<Rightarrow> dma_desc_mem \<Rightarrow> (bc_status \<times> u32 option \<times> dma_desc_mem) option" where
  "crystalhd_xlat_rx_buffer_to_dma_desc buffer mem =
    (case buffer of None \<Rightarrow> Some (BC_STS_INV_ARG, None, mem)
     | Some b \<Rightarrow>
       crystalhd_xlat_dma_to_desc
         \<lparr>ds_sgl = rb_sgl b, ds_dma_nents = rb_dma_nents b, ds_dir_tx = False,
          ds_fill_addr = 0, ds_fill_size = 0\<rparr>
         (rb_capacity b) (rb_uv_offset b) (rb_uv_sg_ix b) (rb_uv_sg_off b) mem 0)"

section \<open>What a chain describes\<close>

definition span :: "u64 \<Rightarrow> nat \<Rightarrow> u64 list" where
  "span a n = map (\<lambda>k. a + word_of_nat k) [0..<n]"

definition sg_bytes :: "sg_entry list \<Rightarrow> u64 list" where
  "sg_bytes sgs = concat (map (\<lambda>(a, l). span a (unat l)) sgs)"

definition join_addr :: "u32 \<Rightarrow> u32 \<Rightarrow> u64" where
  "join_addr lo hi = push_bit 32 (ucast hi) OR ucast lo"

definition desc_addr :: "dma_descriptor \<Rightarrow> u64" where
  "desc_addr d = join_addr (d_buff_addr_low d) (d_buff_addr_high d)"

definition desc_next :: "dma_descriptor \<Rightarrow> u64" where
  "desc_next d = join_addr (d_next_desc_addr_low d) (d_next_desc_addr_high d)"

text \<open>The bus addresses of the bytes one descriptor transfers, fill bytes excluded.\<close>

definition desc_bytes :: "dma_descriptor \<Rightarrow> u64 list" where
  "desc_bytes d = span (desc_addr d) (4 * unat (d_xfer_size d) - unat (d_fill_bytes d))"

lemma join_split [simp]: "join_addr (low_part a) (high_part a) = a"
  by (rule bit_word_eqI) (auto simp: join_addr_def low_part_def high_part_def bit_simps)

lemma length_span [simp]: "length (span a n) = n"
  by (simp add: span_def)

lemma span_take: "take k (span a n) = span a (min k n)"
  by (simp add: span_def take_map min_def)

lemma span_drop: "k \<le> n \<Longrightarrow> drop k (span a n) = span (a + word_of_nat k) (n - k)"
  by (rule nth_equalityI) (simp_all add: span_def)

lemma span_0 [simp]: "span a 0 = []" by (simp add: span_def)

section \<open>The filling loop in closed form\<close>

text \<open>The pieces a chain describes: each entry cut to what is still wanted.\<close>

fun pieces :: "u32 \<Rightarrow> u32 \<Rightarrow> sg_entry list \<Rightarrow> sg_entry list" where
  "pieces sz count [] = []"
| "pieces sz count ((a, l) # sgs) =
    (let len = (if l > sz - count then sz - count else l)
     in (a, len) # pieces sz (count + len) sgs)"

fun piece_sum :: "sg_entry list \<Rightarrow> u32" where
  "piece_sum [] = 0"
| "piece_sum ((a, l) # ps) = l + piece_sum ps"

definition mk_desc :: "bool \<Rightarrow> u32 \<Rightarrow> u64 \<Rightarrow> u32 \<Rightarrow> sg_entry \<Rightarrow> dma_descriptor" where
  "mk_desc tx dest phy count p =
    zero_desc\<lparr>d_buff_addr_low := low_part (fst p), d_buff_addr_high := high_part (fst p),
      d_dma_dir := tx, d_next_desc_addr_low := low_part (phy + word_of_nat DESC_SIZE),
      d_next_desc_addr_high := high_part (phy + word_of_nat DESC_SIZE),
      d_xfer_size := ucast (snd p div 4),
      d_sdram_buff_addr := (if tx then ucast (dest + count) else 0)\<rparr>"

fun mk_descs :: "bool \<Rightarrow> u32 \<Rightarrow> u64 \<Rightarrow> u32 \<Rightarrow> sg_entry list \<Rightarrow> dma_descriptor list" where
  "mk_descs tx dest phy count [] = []"
| "mk_descs tx dest phy count (p # ps) =
    mk_desc tx dest phy count p # mk_descs tx dest (phy + word_of_nat DESC_SIZE) (count + snd p) ps"

text \<open>The entries the loop works on: the first one, when the chain starts, from the start offset on.\<close>

definition from_offset :: "u32 \<Rightarrow> nat \<Rightarrow> sg_entry list \<Rightarrow> sg_entry list" where
  "from_offset st_off ix sgs = (case sgs of (a, l) # rest \<Rightarrow>
      (if ix = 0 then (a + ucast st_off, l - st_off) # rest else sgs) | [] \<Rightarrow> [])"

definition piece_ok :: "u32 \<Rightarrow> bool" where
  "piece_ok len \<longleftrightarrow> 0 < len \<and> len \<le> CRYSTALHD_DMA_DESC_MAX_XFER_BYTES"

lemma length_pieces [simp]: "length (pieces sz c sgs) = length sgs"
  by (induction sz c sgs rule: pieces.induct) (auto simp: Let_def)

lemma length_mk_descs [simp]: "length (mk_descs tx dest phy c ps) = length ps"
  by (induction tx dest phy c ps rule: mk_descs.induct) auto

lemma length_from_offset [simp]: "length (from_offset off ix sgs) = length sgs"
  by (auto simp: from_offset_def split: list.splits)

lemma from_offset_Suc [simp]: "from_offset off (Suc ix) sgs = sgs"
  by (auto simp: from_offset_def split: list.splits)

lemma fill_loop_stepE:
  assumes "fill_loop tx d0 dest sz st_off (Suc n) ix sgs count cur phy ds = Some (BC_STS_SUCCESS, r)"
    "tx \<Longrightarrow> cur = dest + count"
  obtains a l rest addr len0 len where "sgs = (a, l) # rest" "\<not> unaligned a l"
    "ix = 0 \<longrightarrow> st_off < l \<and> st_off AND 3 = 0" "from_offset st_off ix sgs = (addr, len0) # rest"
    "count < sz" "len = (if len0 > sz - count then sz - count else len0)" "piece_ok len"
    "d0 + ix < length ds"
    "fill_loop tx d0 dest sz st_off n (Suc ix) rest (count + len)
       (if tx then dest + (count + len) else cur) (phy + word_of_nat DESC_SIZE)
       (ds[d0 + ix := mk_desc tx dest phy count (addr, len)]) = Some (BC_STS_SUCCESS, r)"
proof -
  from assms(1) obtain a l rest where sgs: "sgs = (a, l) # rest" by (cases sgs) auto
  define addr where "addr = (if ix = 0 then a + ucast st_off else a)"
  define len0 where "len0 = (if ix = 0 then l - st_off else l)"
  define len where "len = (if len0 > sz - count then sz - count else len0)"
  have al: "\<not> unaligned a l" and off: "\<not> (ix = 0 \<and> (st_off \<ge> l \<or> st_off AND 3 \<noteq> 0))"
    using assms(1) unfolding sgs by (auto split: if_splits)
  have body: "do {
         ds1 \<leftarrow> cell_upd ds (d0 + ix) (\<lambda>_. zero_desc\<lparr>d_buff_addr_low := low_part addr,
                  d_buff_addr_high := high_part addr, d_dma_dir := tx,
                  d_next_desc_addr_low := low_part (phy + word_of_nat DESC_SIZE),
                  d_next_desc_addr_high := high_part (phy + word_of_nat DESC_SIZE)\<rparr>);
         (if count \<ge> sz then Some (BC_STS_ERROR, ix, count, cur, ds1)
          else if len > CRYSTALHD_DMA_DESC_MAX_XFER_BYTES
               then Some (BC_STS_NOT_IMPL, ix, count, cur, ds1)
               else if len = 0 \<or> len > l then Some (BC_STS_ERROR, ix, count, cur, ds1)
               else do {
                 ds2 \<leftarrow> cell_upd ds1 (d0 + ix) (\<lambda>d. d\<lparr>d_xfer_size := ucast (len div 4),
                          d_sdram_buff_addr := (if tx then ucast cur else 0)\<rparr>);
                 fill_loop tx d0 dest sz st_off n (Suc ix) rest (count + len)
                   (if tx then dest + (count + len) else cur) (phy + word_of_nat DESC_SIZE) ds2 }) }
      = Some (BC_STS_SUCCESS, r)"
    using assms(1)
    unfolding sgs fill_loop.simps if_not_P [OF al] if_not_P [OF off] Let_def
      addr_def [symmetric] len0_def [symmetric] len_def [symmetric] .
  then obtain ds1 where ds1: "cell_upd ds (d0 + ix) (\<lambda>_. zero_desc\<lparr>d_buff_addr_low := low_part addr,
                  d_buff_addr_high := high_part addr, d_dma_dir := tx,
                  d_next_desc_addr_low := low_part (phy + word_of_nat DESC_SIZE),
                  d_next_desc_addr_high := high_part (phy + word_of_nat DESC_SIZE)\<rparr>) = Some ds1"
    by (auto simp: bind_eq_Some_conv)
  then have i: "d0 + ix < length ds" by (rule cell_upd_SomeE)
  have cnt: "count < sz" "\<not> len > CRYSTALHD_DMA_DESC_MAX_XFER_BYTES" "len \<noteq> 0"
    using body i by (auto split: if_splits)
  show ?thesis
  proof (rule that)
    show "fill_loop tx d0 dest sz st_off n (Suc ix) rest (count + len)
       (if tx then dest + (count + len) else cur) (phy + word_of_nat DESC_SIZE)
       (ds[d0 + ix := mk_desc tx dest phy count (addr, len)]) = Some (BC_STS_SUCCESS, r)"
      using body i cnt assms(2) by (simp add: mk_desc_def split: if_splits)
    show "ix = 0 \<longrightarrow> st_off < l \<and> st_off AND 3 = 0" using off by (auto simp: not_le)
    show "from_offset st_off ix sgs = (addr, len0) # rest"
      by (simp add: from_offset_def sgs addr_def len0_def)
    show "piece_ok len" using cnt(2,3) by (simp add: piece_ok_def word_gt_0 not_less)
  qed (use sgs al cnt(1) i in \<open>simp_all add: len_def\<close>)
qed

lemma fill_loop_success:
  assumes "fill_loop tx d0 dest sz st_off n ix sgs count cur phy ds = Some (BC_STS_SUCCESS, ix', count', cur', ds')"
    "tx \<Longrightarrow> cur = dest + count" "ps = pieces sz count (take n (from_offset st_off ix sgs))"
  shows "ix' = ix + n \<and> n \<le> length sgs \<and> count' = count + piece_sum ps \<and>
    (tx \<longrightarrow> cur' = dest + count') \<and>
    (n \<noteq> 0 \<longrightarrow> d0 + ix + n \<le> length ds) \<and> (\<forall>p \<in> set ps. piece_ok (snd p)) \<and>
    ds' = take (d0 + ix) ds @ mk_descs tx dest phy count ps @ drop (d0 + ix + n) ds"
  using assms
proof (induction n arbitrary: ix sgs count cur phy ds ps)
  case (Suc n)
  from Suc.prems(1,2) obtain a l rest addr len0 len where
    st: "sgs = (a, l) # rest" "from_offset st_off ix sgs = (addr, len0) # rest"
      "len = (if len0 > sz - count then sz - count else len0)" "piece_ok len" "d0 + ix < length ds"
      "fill_loop tx d0 dest sz st_off n (Suc ix) rest (count + len)
        (if tx then dest + (count + len) else cur) (phy + word_of_nat DESC_SIZE)
        (ds[d0 + ix := mk_desc tx dest phy count (addr, len)]) = Some (BC_STS_SUCCESS, ix', count', cur', ds')"
    by (rule fill_loop_stepE)
  let ?ds = "ds[d0 + ix := mk_desc tx dest phy count (addr, len)]"
  let ?ps = "pieces sz (count + len) (take n rest)"
  have ps: "ps = (addr, len) # ?ps" using Suc.prems(3) st(2,3) by (simp add: Let_def)
  have IH: "ix' = Suc ix + n \<and> n \<le> length rest \<and> count' = count + len + piece_sum ?ps \<and>
    (tx \<longrightarrow> cur' = dest + count') \<and>
    (n \<noteq> 0 \<longrightarrow> d0 + Suc ix + n \<le> length ?ds) \<and> (\<forall>p \<in> set ?ps. piece_ok (snd p)) \<and>
    ds' = take (d0 + Suc ix) ?ds @ mk_descs tx dest (phy + word_of_nat DESC_SIZE) (count + len) ?ps @
      drop (d0 + Suc ix + n) ?ds"
    by (rule Suc.IH [OF st(6)]) simp_all
  have "take (d0 + Suc ix) ?ds = take (d0 + ix) ds @ [mk_desc tx dest phy count (addr, len)]"
    using st(5) by (simp add: take_Suc_conv_app_nth)
  with IH st(1,4,5) ps show ?case by (auto simp: add.assoc)
qed (simp add: from_offset_def)


section \<open>Bytes of a chain\<close>

definition bytes_aligned :: "u32 \<Rightarrow> bool" where "bytes_aligned l \<longleftrightarrow> 4 dvd unat l"

lemma and3_aligned: "l AND 3 = 0 \<longleftrightarrow> bytes_aligned l" for l :: u32
proof -
  have "l AND 3 = take_bit 2 l" by (simp add: take_bit_eq_mask mask_eq_decr_exp)
  also have "take_bit 2 l = 0 \<longleftrightarrow> take_bit 2 (unat l) = 0"
    by (metis unsigned_take_bit_eq unsigned_0 unsigned_eq_0_iff)
  also have "\<dots> \<longleftrightarrow> bytes_aligned l" by (simp add: bytes_aligned_def take_bit_eq_mod mod_eq_0_iff_dvd)
  finally show ?thesis .
qed

lemma aligned_diff: "bytes_aligned a \<Longrightarrow> bytes_aligned b \<Longrightarrow> b \<le> a \<Longrightarrow> bytes_aligned (a - b)"
  by (simp add: bytes_aligned_def unat_sub)

lemma mk_desc_bytes:
  assumes "bytes_aligned l" "piece_ok l"
  shows "desc_bytes (mk_desc tx dest phy c (a, l)) = span a (unat l)"
proof -
  have "unat l \<le> 33554428" using assms(2) by (simp add: piece_ok_def word_le_nat_alt)
  then have "unat l div 4 < 2 ^ 23" by simp
  moreover have "unat (ucast (l div 4) :: 23 word) = (unat l div 4) mod 2 ^ 23"
    by (simp add: unsigned_ucast_eq take_bit_eq_mod unat_div)
  ultimately have "unat (ucast (l div 4) :: 23 word) = unat l div 4" by simp
  moreover have "4 * (unat l div 4) = unat l" using assms(1) by (simp add: bytes_aligned_def)
  ultimately show ?thesis by (simp add: desc_bytes_def mk_desc_def desc_addr_def zero_desc_def)
qed


lemma sg_bytes_Cons [simp]: "sg_bytes ((a, l) # sgs) = span a (unat l) @ sg_bytes sgs"
  by (simp add: sg_bytes_def)

lemma sg_bytes_Nil [simp]: "sg_bytes [] = []"
  by (simp add: sg_bytes_def)

lemma sg_bytes_append: "sg_bytes (xs @ ys) = sg_bytes xs @ sg_bytes ys"
  by (simp add: sg_bytes_def)

lemma cut_nat:
  fixes l sz count :: u32
  assumes "count \<le> sz" "len = (if l > sz - count then sz - count else l)"
  shows "unat len = min (unat l) (unat sz - unat count)" "unat (count + len) = unat count + unat len"
    "count + len \<le> sz"
proof -
  have c: "unat (sz - count) = unat sz - unat count" "unat count \<le> unat sz"
    using assms(1) by (simp_all add: unat_sub word_le_nat_alt)
  then show l: "unat len = min (unat l) (unat sz - unat count)"
    by (auto simp: assms(2) word_less_nat_alt)
  have "unat count + unat len \<le> unat sz" using l c by linarith
  moreover have "unat sz < 2 ^ 32" using unsigned_less [of sz] by simp
  ultimately have "unat count + unat len < 2 ^ 32" by linarith
  then show a: "unat (count + len) = unat count + unat len" by (simp add: unat_word_ariths)
  show "count + len \<le> sz" using a \<open>unat count + unat len \<le> unat sz\<close> by (simp add: word_le_nat_alt)
qed

lemma pieces_bytes:
  assumes "\<And>a l. (a, l) \<in> set sgs \<Longrightarrow> bytes_aligned l" "bytes_aligned sz" "bytes_aligned count"
    "count \<le> sz" "\<And>p. p \<in> set (pieces sz count sgs) \<Longrightarrow> piece_ok (snd p)"
  shows "concat (map desc_bytes (mk_descs tx dest phy count (pieces sz count sgs))) =
      take (unat sz - unat count) (sg_bytes sgs) \<and>
    unat (count + piece_sum (pieces sz count sgs)) =
      unat count + min (unat sz - unat count) (length (sg_bytes sgs))"
  using assms
proof (induction sgs arbitrary: count phy)
  case (Cons p sgs)
  obtain a l where p: "p = (a, l)" by (cases p)
  define len where "len = (if l > sz - count then sz - count else l)"
  note cut = cut_nat [OF Cons.prems(4) len_def]
  have eq: "pieces sz count (p # sgs) = (a, len) # pieces sz (count + len) sgs"
    by (simp add: p len_def Let_def)
  have al: "bytes_aligned len"
    using Cons.prems(1) [of a l] Cons.prems(2-4) p aligned_diff [of sz count] by (simp add: len_def)
  have al2: "bytes_aligned (count + len)"
    using al Cons.prems(3) cut(2) by (simp add: bytes_aligned_def)
  have ok: "piece_ok len" using Cons.prems(5) [of "(a, len)"] eq by simp
  have IH: "concat (map desc_bytes (mk_descs tx dest (phy + word_of_nat DESC_SIZE) (count + len)
        (pieces sz (count + len) sgs))) = take (unat sz - unat (count + len)) (sg_bytes sgs) \<and>
      unat (count + len + piece_sum (pieces sz (count + len) sgs)) =
        unat (count + len) + min (unat sz - unat (count + len)) (length (sg_bytes sgs))"
    by (rule Cons.IH) (use Cons.prems al2 cut(3) eq in auto)
  have "take (unat sz - unat count) (sg_bytes (p # sgs)) =
      span a (unat len) @ take (unat sz - unat (count + len)) (sg_bytes sgs)"
    using cut by (auto simp: p span_take min_def)
  then have c1: "concat (map desc_bytes (mk_descs tx dest phy count (pieces sz count (p # sgs)))) =
      take (unat sz - unat count) (sg_bytes (p # sgs))"
    unfolding eq mk_descs.simps list.map concat.simps mk_desc_bytes [OF al ok] snd_conv
    using IH by simp
  have sum: "count + piece_sum (pieces sz count (p # sgs)) = count + len + piece_sum (pieces sz (count + len) sgs)"
    unfolding eq by simp
  have len: "length (sg_bytes (p # sgs)) = unat l + length (sg_bytes sgs)" by (simp add: p)
  have "unat (count + piece_sum (pieces sz count (p # sgs))) =
      unat count + min (unat sz - unat count) (length (sg_bytes (p # sgs)))"
    unfolding sum len using IH cut(1,2) by linarith
  with c1 show ?case by blast
qed simp

text \<open>The entries of a chain that starts inside its first entry.\<close>

lemma from_offset_bytes:
  assumes "sgs = (a, l) # rest" "off < l"
  shows "sg_bytes (from_offset off 0 sgs) = drop (unat off) (sg_bytes sgs)"
proof -
  have "unat off \<le> unat l" "unat (l - off) = unat l - unat off"
    using assms(2) by (simp_all add: word_less_nat_alt unat_sub order.strict_implies_order)
  moreover have "(ucast off :: u64) = word_of_nat (unat off)" by simp
  ultimately show ?thesis using assms(1) by (simp add: from_offset_def span_drop del: of_nat_unat)
qed


text \<open>A loop that ends in success has only seen aligned entries.\<close>

lemma unaligned_iff: "\<not> unaligned a l \<Longrightarrow> bytes_aligned l"
  using and3_aligned by (auto simp: unaligned_def)

lemma fill_loop_aligned:
  assumes "fill_loop tx d0 dest sz st_off n ix sgs count cur phy ds = Some (BC_STS_SUCCESS, r)"
    "tx \<Longrightarrow> cur = dest + count"
  shows "(\<forall>(a, l) \<in> set (take n (from_offset st_off ix sgs)). bytes_aligned l) \<and>
    (n \<noteq> 0 \<longrightarrow> ix = 0 \<longrightarrow> sgs \<noteq> [] \<and> st_off < snd (hd sgs))"
  using assms
proof (induction n arbitrary: ix sgs count cur phy ds)
  case (Suc n)
  from Suc.prems obtain a l rest addr len0 len where
    st: "sgs = (a, l) # rest" "\<not> unaligned a l" "ix = 0 \<longrightarrow> st_off < l \<and> st_off AND 3 = 0"
      "from_offset st_off ix sgs = (addr, len0) # rest"
      "fill_loop tx d0 dest sz st_off n (Suc ix) rest (count + len)
        (if tx then dest + (count + len) else cur) (phy + word_of_nat DESC_SIZE)
        (ds[d0 + ix := mk_desc tx dest phy count (addr, len)]) = Some (BC_STS_SUCCESS, r)"
    by (rule fill_loop_stepE)
  have "bytes_aligned len0"
    using st(1-4) unaligned_iff [OF st(2)] aligned_diff [of l st_off] and3_aligned [of st_off]
    by (cases "ix = 0") (auto simp: from_offset_def)
  moreover have "\<forall>(a, l) \<in> set (take n rest). bytes_aligned l"
    using Suc.IH [OF st(5)] by simp
  ultimately show ?case using st(1,3,4) by auto
qed simp

definition chain_linked :: "u64 \<Rightarrow> dma_descriptor list \<Rightarrow> bool" where
  "chain_linked phy cs \<longleftrightarrow> cs \<noteq> [] \<and>
     (\<forall>i < length cs. d_last_rec_indicator (cs ! i) = (i = length cs - 1) \<and>
        d_intr_enable (cs ! i) = (i = length cs - 1) \<and>
        desc_next (cs ! i) = (if i = length cs - 1 then 0 else phy + word_of_nat (DESC_SIZE * Suc i)))"

lemma mk_descs_nth:
  "i < length ps \<Longrightarrow>
    d_last_rec_indicator (mk_descs tx dest phy c ps ! i) = False \<and>
    d_intr_enable (mk_descs tx dest phy c ps ! i) = False \<and> d_dma_dir (mk_descs tx dest phy c ps ! i) = tx \<and>
    desc_next (mk_descs tx dest phy c ps ! i) = phy + word_of_nat (DESC_SIZE * Suc i)"
proof (induction ps arbitrary: phy c i)
  case (Cons p ps)
  then show ?case
    by (cases i) (auto simp: mk_desc_def zero_desc_def desc_next_def algebra_simps)
qed simp

definition seal_last :: "dma_descriptor \<Rightarrow> dma_descriptor" where
  "seal_last d = d\<lparr>d_last_rec_indicator := True, d_next_desc_addr_low := 0, d_next_desc_addr_high := 0,
     d_intr_enable := True\<rparr>"

lemma seal_last_simps [simp]:
  "d_last_rec_indicator (seal_last d)" "d_intr_enable (seal_last d)" "desc_next (seal_last d) = 0"
  "desc_bytes (seal_last d) = desc_bytes d" "d_dma_dir (seal_last d) = d_dma_dir d"
  by (simp_all add: seal_last_def desc_next_def join_addr_def desc_bytes_def desc_addr_def)

text \<open>Sealing the last cell of a list of plain descriptors gives a linked chain.\<close>

lemma chain_linked_seal:
  assumes "cs \<noteq> []"
    "\<And>i. i < length cs - 1 \<Longrightarrow> d_last_rec_indicator (cs ! i) = False \<and> d_intr_enable (cs ! i) = False \<and>
      desc_next (cs ! i) = phy + word_of_nat (DESC_SIZE * Suc i)"
  shows "chain_linked phy (cs[length cs - 1 := seal_last (cs ! (length cs - 1))])"
  using assms by (auto simp: chain_linked_def nth_list_update)

lemma concat_seal:
  "cs \<noteq> [] \<Longrightarrow> concat (map desc_bytes (cs[length cs - 1 := seal_last (cs ! (length cs - 1))])) =
    concat (map desc_bytes cs)"
proof -
  assume "cs \<noteq> []"
  then have "map desc_bytes (cs[length cs - 1 := seal_last (cs ! (length cs - 1))]) = map desc_bytes cs"
    by (simp add: map_update list_update_same_conv)
  then show ?thesis by simp
qed

definition tail_desc :: "bool \<Rightarrow> u64 \<Rightarrow> u32 \<Rightarrow> u32 \<Rightarrow> dma_descriptor" where
  "tail_desc tx addr fs cur = zero_desc\<lparr>d_buff_addr_low := low_part addr,
     d_buff_addr_high := high_part addr, d_dma_dir := tx, d_xfer_size := 1,
     d_fill_bytes := ucast (4 - fs), d_sdram_buff_addr := (if tx then ucast cur else 0)\<rparr>"

lemma tail_desc_bytes:
  assumes "fs \<noteq> 0" "fs \<le> 3"
  shows "desc_bytes (tail_desc tx addr fs cur) = span addr (unat fs)"
proof -
  have "unat fs \<noteq> 0" "unat fs \<le> 3" using assms by (simp_all add: unat_eq_0 word_le_nat_alt)
  then have f: "unat fs = 1 \<or> unat fs = 2 \<or> unat fs = 3" by linarith
  have "unat (4 - fs) = 4 - unat fs" using assms(2) by (subst unat_sub) (auto simp: word_le_nat_alt)
  then have "unat (ucast (4 - fs) :: 2 word) = 4 - unat fs"
    using f by (auto simp: unsigned_ucast_eq take_bit_eq_mod)
  then show ?thesis using f
    by (auto simp: desc_bytes_def tail_desc_def desc_addr_def zero_desc_def)
qed


lemma upd_mid:
  "length pre = d0 \<Longrightarrow> i < length ms \<Longrightarrow> (pre @ ms @ post)[d0 + i := x] = pre @ ms[i := x] @ post"
  by (simp add: list_update_append)

lemma upd_next:
  "length pre = d0 \<Longrightarrow> length ms = n \<Longrightarrow> post \<noteq> [] \<Longrightarrow>
    (pre @ ms @ post)[d0 + n := x] = pre @ (ms @ [x]) @ tl post"
  by (cases post) (simp_all add: list_update_append)

text \<open>Sealing the end of a run of cells in the descriptor memory.\<close>

lemma seal_in_place:
  assumes "length pre = d0" "cs \<noteq> []"
  shows "cell_upd (pre @ cs @ post) (d0 + (length cs - 1)) seal_last =
    Some (pre @ cs[length cs - 1 := seal_last (cs ! (length cs - 1))] @ post)"
proof -
  have i: "length cs - 1 < length cs" using assms(2) by simp
  have nth: "(pre @ cs @ post) ! (d0 + (length cs - 1)) = cs ! (length cs - 1)"
    using assms i by (simp add: nth_append)
  have lt: "d0 + (length cs - 1) < length (pre @ cs @ post)"
    using assms(1) trans_less_add1 [OF i] by simp
  show ?thesis unfolding cell_upd_in [OF lt] nth upd_mid [OF assms(1) i] ..
qed

lemma fill_desc_successE:
  assumes "crystalhd_hw_fill_desc src d0 base sg_cnt st_ix st_off xfr dest ds = Some (BC_STS_SUCCESS, ds')"
  obtains cur ds1 ds2 where
    "fill_loop (ds_dir_tx src) d0 dest (xfr - ds_fill_size src) st_off (unat sg_cnt) 0
       (drop (unat st_ix) (ds_sgl src)) 0 dest base ds =
      Some (BC_STS_SUCCESS, unat sg_cnt, xfr - ds_fill_size src, cur, ds1)"
    "(if ds_fill_size src = 0 then Some ds1
      else cell_upd ds1 (d0 + unat sg_cnt) (\<lambda>_. tail_desc (ds_dir_tx src) (ds_fill_addr src) (ds_fill_size src) cur))
      = Some ds2"
    "cell_upd ds2 (d0 + (unat sg_cnt + (if ds_fill_size src = 0 then 0 else 1) - 1)) seal_last = Some ds'"
    "0 < unat sg_cnt + (if ds_fill_size src = 0 then 0 else 1)"
    "ds_fill_size src \<noteq> 0 \<longrightarrow> ds_fill_size src \<le> 3" "ds_fill_size src \<le> xfr"
proof -
  let ?fs = "ds_fill_size src" and ?tx = "ds_dir_tx src"
  have guard: "\<not> (base = 0 \<or> xfr = 0 \<or> (sg_cnt = 0 \<and> ?fs = 0) \<or> xfr < ?fs \<or>
      ((sg_cnt \<noteq> 0) \<noteq> (xfr - ?fs \<noteq> 0)) \<or> st_ix > ds_dma_nents src \<or> sg_cnt > ds_dma_nents src - st_ix \<or>
      (?fs \<noteq> 0 \<and> (\<not> ?tx \<or> ?fs > 3 \<or> ds_fill_addr src = 0 \<or> ds_fill_addr src AND 3 \<noteq> 0)))"
    using assms unfolding crystalhd_hw_fill_desc_def by (auto split: if_splits)
  have nonempty: "\<not> (sg_cnt \<noteq> 0 \<and> drop (unat st_ix) (ds_sgl src) = [])"
    using assms unfolding crystalhd_hw_fill_desc_def if_not_P [OF guard] Let_def by (auto split: if_splits)
  from assms obtain sts ix count cur ds1 where
    fl: "fill_loop ?tx d0 dest (xfr - ?fs) st_off (unat sg_cnt) 0 (drop (unat st_ix) (ds_sgl src)) 0 dest base ds
        = Some (sts, ix, count, cur, ds1)"
    unfolding crystalhd_hw_fill_desc_def if_not_P [OF guard] Let_def if_not_P [OF nonempty]
    by (auto simp: bind_eq_Some_conv)
  have sts: "sts = BC_STS_SUCCESS" and count: "count = xfr - ?fs"
    using assms unfolding crystalhd_hw_fill_desc_def if_not_P [OF guard] Let_def if_not_P [OF nonempty] fl
    by (auto split: if_splits)
  have ix: "ix = unat sg_cnt" using fill_loop_success [OF fl [unfolded sts]] by simp
  have last: "(if ?fs \<noteq> 0 then unat sg_cnt else if unat sg_cnt \<noteq> 0 then unat sg_cnt - 1 else 0) =
      unat sg_cnt + (if ?fs = 0 then 0 else 1) - 1" by simp
  from assms obtain ds2 ds3 where ds2: "(if ?fs = 0 then Some ds1
      else cell_upd ds1 (d0 + unat sg_cnt) (\<lambda>_. tail_desc ?tx (ds_fill_addr src) ?fs cur)) = Some ds2"
    and ds3: "cell_upd ds2 (d0 + (unat sg_cnt + (if ?fs = 0 then 0 else 1) - 1)) seal_last = Some ds3"
    "ds' = ds3"
    unfolding crystalhd_hw_fill_desc_def if_not_P [OF guard] Let_def if_not_P [OF nonempty] fl sts count ix last
      tail_desc_def seal_last_def [abs_def]
    by (auto simp: bind_eq_Some_conv split: if_splits)
  show ?thesis
    by (rule that [OF fl [unfolded sts count ix] ds2 ds3(1) [folded ds3(2)]])
      (use guard in \<open>auto simp: not_less unat_gt_0\<close>)
qed


lemma fill_desc_success:
  assumes ok: "crystalhd_hw_fill_desc src d0 base sg_cnt st_ix st_off xfr dest ds = Some (BC_STS_SUCCESS, ds')"
    and al: "bytes_aligned (xfr - ds_fill_size src)"
    and n: "n = unat sg_cnt + (if ds_fill_size src = 0 then 0 else 1)"
  shows "\<exists>cs. length cs = n \<and> d0 + n \<le> length ds \<and> ds' = take d0 ds @ cs @ drop (d0 + n) ds \<and>
    chain_linked base cs \<and> (\<forall>c \<in> set cs. d_dma_dir c = ds_dir_tx src) \<and>
    concat (map desc_bytes cs) =
      take (unat xfr - unat (ds_fill_size src))
        (drop (unat st_off) (sg_bytes (drop (unat st_ix) (ds_sgl src)))) @
      span (ds_fill_addr src) (unat (ds_fill_size src)) \<and>
    length (concat (map desc_bytes cs)) = unat xfr"
proof -
  let ?fs = "ds_fill_size src" and ?tx = "ds_dir_tx src" and ?sz = "xfr - ds_fill_size src"
  let ?sgs = "drop (unat st_ix) (ds_sgl src)" and ?k = "unat sg_cnt"
  from ok obtain cur ds1 ds2 where
    fl: "fill_loop ?tx d0 dest ?sz st_off ?k 0 ?sgs 0 dest base ds = Some (BC_STS_SUCCESS, ?k, ?sz, cur, ds1)" and
    ds2: "(if ?fs = 0 then Some ds1
      else cell_upd ds1 (d0 + ?k) (\<lambda>_. tail_desc ?tx (ds_fill_addr src) ?fs cur)) = Some ds2" and
    ds3: "cell_upd ds2 (d0 + (?k + (if ?fs = 0 then 0 else 1) - 1)) seal_last = Some ds'" and
    pos: "0 < ?k + (if ?fs = 0 then 0 else 1)" and fs: "?fs \<noteq> 0 \<longrightarrow> ?fs \<le> 3" "?fs \<le> xfr"
    by (rule fill_desc_successE)
  have sz: "unat ?sz = unat xfr - unat ?fs" "unat ?fs \<le> unat xfr"
    using fs(2) by (simp_all add: unat_sub word_le_nat_alt)
  define es where "es = take ?k (from_offset st_off 0 ?sgs)"
  define ps where "ps = pieces ?sz 0 es"
  define M where "M = mk_descs ?tx dest base 0 ps"
  have S0: "?k = 0 + ?k \<and> ?k \<le> length ?sgs \<and> ?sz = 0 + piece_sum ps \<and>
    (?tx \<longrightarrow> cur = dest + ?sz) \<and> (?k \<noteq> 0 \<longrightarrow> d0 + 0 + ?k \<le> length ds) \<and> (\<forall>p \<in> set ps. piece_ok (snd p)) \<and>
    ds1 = take (d0 + 0) ds @ mk_descs ?tx dest base 0 ps @ drop (d0 + 0 + ?k) ds"
    by (rule fill_loop_success [OF fl _ ps_def [unfolded es_def]]) simp
  then have k: "?k \<le> length ?sgs" and sum: "piece_sum ps = ?sz" and pok: "\<And>p. p \<in> set ps \<Longrightarrow> piece_ok (snd p)"
    and room: "?k \<noteq> 0 \<Longrightarrow> d0 + ?k \<le> length ds" by auto
  note A = fill_loop_aligned [OF fl, simplified]
  have len: "length M = ?k" using k by (simp add: M_def ps_def es_def)
  have M1: "ds1 = take d0 ds @ M @ drop (d0 + ?k) ds" using S0 by (simp add: M_def)
  have PB0: "concat (map desc_bytes M) = take (unat ?sz - unat (0::u32)) (sg_bytes es) \<and>
      unat (0 + piece_sum ps) = unat (0::u32) + min (unat ?sz - unat (0::u32)) (length (sg_bytes es))"
    unfolding M_def ps_def
    by (rule pieces_bytes) (use al A pok in \<open>auto simp: es_def ps_def bytes_aligned_def\<close>)
  then have PB: "concat (map desc_bytes M) = take (unat ?sz) (sg_bytes es)"
    "unat (piece_sum ps) = min (unat ?sz) (length (sg_bytes es))" by simp_all
  have full: "unat ?sz \<le> length (sg_bytes es)" using PB(2) sum by simp
  have pre: "take (unat ?sz) (sg_bytes es) = take (unat ?sz) (drop (unat st_off) (sg_bytes ?sgs))"
  proof (cases "?k = 0")
    case True
    then show ?thesis using full by (simp add: es_def)
  next
    case False
    then obtain a l rest where c: "?sgs = (a, l) # rest" "st_off < l" using A by (cases ?sgs) auto
    have "sg_bytes (from_offset st_off 0 ?sgs) = drop (unat st_off) (sg_bytes ?sgs)"
      using c by (rule from_offset_bytes)
    moreover have "sg_bytes (from_offset st_off 0 ?sgs) = sg_bytes es @ sg_bytes (drop ?k (from_offset st_off 0 ?sgs))"
      unfolding es_def by (metis append_take_drop_id sg_bytes_append)
    ultimately show ?thesis using full by (metis take_append diff_is_0_eq take_0 append_Nil2)
  qed
  define cs0 where "cs0 = (if ?fs = 0 then M else M @ [tail_desc ?tx (ds_fill_addr src) ?fs cur])"
  have l0: "length cs0 = n" "cs0 \<noteq> []" using len n pos by (auto simp: cs0_def)
  have bound: "d0 + n \<le> length ds" and ds2': "ds2 = take d0 ds @ cs0 @ drop (d0 + n) ds"
  proof -
    show b: "d0 + n \<le> length ds"
    proof (cases "?fs = 0")
      case True
      then show ?thesis using room n pos by simp
    next
      case False
      then have "d0 + ?k < length ds1" using ds2 by (auto elim: cell_upd_SomeE)
      moreover have "length ds1 = length ds" using M1 len room by (cases "?k = 0") auto
      ultimately show ?thesis using False n by simp
    qed
    then have d0: "length (take d0 ds) = d0" by simp
    show "ds2 = take d0 ds @ cs0 @ drop (d0 + n) ds"
    proof (cases "?fs = 0")
      case False
      then have "drop (d0 + ?k) ds \<noteq> []" using b n by simp
      from upd_next [OF d0 len this] have "ds1[d0 + ?k := tail_desc ?tx (ds_fill_addr src) ?fs cur] =
          take d0 ds @ (M @ [tail_desc ?tx (ds_fill_addr src) ?fs cur]) @ tl (drop (d0 + ?k) ds)"
        by (simp add: M1)
      with False ds2 n show ?thesis by (auto simp: cs0_def cell_upd_def tl_drop drop_Suc split: if_splits)
    qed (use ds2 M1 n in \<open>simp add: cs0_def\<close>)
  qed
  define cs where "cs = cs0[length cs0 - 1 := seal_last (cs0 ! (length cs0 - 1))]"
  have "ds' = take d0 ds @ cs @ drop (d0 + n) ds"
    using ds3 seal_in_place [of "take d0 ds" d0 cs0 "drop (d0 + n) ds"] bound l0 n
    unfolding ds2' cs_def by (auto split: if_splits)
  moreover have dirs: "d_dma_dir (cs0 ! i) = ?tx" if "i < length cs0" for i
    using that len mk_descs_nth [of i ps ?tx dest base 0] n
    by (auto simp: cs0_def M_def nth_append tail_desc_def split: if_splits)
  have "chain_linked base cs"
    unfolding cs_def
  proof (rule chain_linked_seal [OF l0(2)])
    fix i assume i: "i < length cs0 - 1"
    then have "i < length ps" "cs0 ! i = M ! i"
      using len by (auto simp: cs0_def M_def nth_append split: if_splits)
    then show "d_last_rec_indicator (cs0 ! i) = False \<and> d_intr_enable (cs0 ! i) = False \<and>
        desc_next (cs0 ! i) = base + word_of_nat (DESC_SIZE * Suc i)"
      using mk_descs_nth [of i ps ?tx dest base 0] by (simp add: M_def)
  qed
  moreover have "\<forall>c \<in> set cs. d_dma_dir c = ?tx"
    using dirs l0(2) by (auto simp: cs_def in_set_conv_nth nth_list_update split: if_splits)
  moreover have bytes: "concat (map desc_bytes cs) =
      take (unat ?sz) (drop (unat st_off) (sg_bytes ?sgs)) @ span (ds_fill_addr src) (unat ?fs)"
    unfolding cs_def concat_seal [OF l0(2)] using PB pre fs tail_desc_bytes [of ?fs]
    by (simp add: cs0_def)
  moreover have "length (concat (map desc_bytes cs)) = unat xfr"
    using bytes pre full sz by (metis length_append length_span length_take min.absorb2 le_add_diff_inverse2)
  ultimately show ?thesis using l0(1) bound sz(1) unfolding cs_def by (metis length_list_update)
qed

section \<open>The pass over the scatter list\<close>

text \<open>\<open>fits n i st B\<close>: no counter of the pass can wrap while \<open>n\<close> entries are left.\<close>

definition fits :: "nat \<Rightarrow> u32 \<Rightarrow> scan_state \<Rightarrow> nat \<Rightarrow> bool" where
  "fits n i st B \<longleftrightarrow> unat i + n < 2 ^ 32 \<and> unat (sc_available st) = B \<and> B + n * 2 ^ 32 < 2 ^ 64"

definition scan_next :: "u32 \<Rightarrow> u32 \<Rightarrow> u32 \<Rightarrow> u64 \<Rightarrow> u32 \<Rightarrow> u32 \<Rightarrow> scan_state \<Rightarrow> scan_state" where
  "scan_next uv_offset uv_ix uv_off required i len st =
    (let st1 = (if uv_offset \<noteq> 0 \<and> i = uv_ix
                  then st\<lparr>sc_uv_backing := sc_available st + ucast uv_off, sc_uv_seen := True\<rparr> else st);
         st2 = st1\<lparr>sc_available := sc_available st1 + ucast len\<rparr>
     in if sc_mapped st2 = 0 \<and> sc_available st2 \<ge> required then st2\<lparr>sc_mapped := i + 1\<rparr> else st2)"

lemma scan_stepE:
  assumes "scan_sgs uvo uvi uvf required (Suc n) i sgs st = Inr st'"
  obtains a len rest where "sgs = (a, len) # rest" "len \<noteq> 0" "\<not> unaligned a len"
    "uvo \<noteq> 0 \<and> i = uvi \<longrightarrow> uvf < len"
    "scan_sgs uvo uvi uvf required n (i + 1) rest (scan_next uvo uvi uvf required i len st) = Inr st'"
proof (cases sgs)
  case (Cons p rest)
  obtain a len where p: "p = (a, len)" by (cases p)
  show ?thesis
    using assms unfolding Cons p
    by (intro that [of a len rest]) (auto simp: Cons p scan_next_def Let_def not_le split: if_splits)
qed (use assms in simp)

lemma fits_next:
  assumes "fits (Suc n) i st B"
  shows "fits n (i + 1) (scan_next uvo uvi uvf required i len st) (B + unat len)"
    "unat (i + 1) = Suc (unat i)" "unat (sc_available st + ucast len) = B + unat len"
proof -
  have l: "unat len < 2 ^ 32" using unsigned_less [of len] by simp
  show i: "unat (i + 1) = Suc (unat i)"
    using assms by (simp add: fits_def unat_word_ariths)
  have u: "unat (ucast len :: u64) = unat len" by simp
  have "B + unat len < 2 ^ 64" using assms l by (simp add: fits_def)
  then show a: "unat (sc_available st + ucast len) = B + unat len"
    using assms u by (simp add: fits_def unat_word_ariths)
  have "sc_available (scan_next uvo uvi uvf required i len st) = sc_available st + ucast len"
    by (simp add: scan_next_def Let_def)
  then show "fits n (i + 1) (scan_next uvo uvi uvf required i len st) (B + unat len)"
    using assms a i l by (simp add: fits_def)
qed

lemma scan_uv_frame:
  "scan_sgs uvo uvi uvf required n i sgs st = Inr st' \<Longrightarrow> fits n i st B \<Longrightarrow> unat uvi < unat i \<Longrightarrow>
    sc_uv_backing st' = sc_uv_backing st"
proof (induction n arbitrary: i sgs st B)
  case (Suc n)
  from Suc.prems(1) obtain a len rest where r: "sgs = (a, len) # rest"
    "scan_sgs uvo uvi uvf required n (i + 1) rest (scan_next uvo uvi uvf required i len st) = Inr st'"
    by (rule scan_stepE)
  note f = fits_next [OF Suc.prems(2)]
  have ne: "i \<noteq> uvi" using Suc.prems(3) by auto
  have "sc_uv_backing st' = sc_uv_backing (scan_next uvo uvi uvf required i len st)"
    using Suc.IH [OF r(2) f(1)] f(2) Suc.prems(3) by simp
  also have "\<dots> = sc_uv_backing st" using ne by (simp add: scan_next_def Let_def)
  finally show ?case .
qed simp

lemma scan_uv_value:
  "scan_sgs uvo uvi uvf required n i sgs st = Inr st' \<Longrightarrow> fits n i st B \<Longrightarrow> uvo \<noteq> 0 \<Longrightarrow>
    unat i \<le> unat uvi \<Longrightarrow> unat uvi < unat i + n \<Longrightarrow>
    unat (sc_uv_backing st') = B + length (sg_bytes (take (unat uvi - unat i) sgs)) + unat uvf \<and>
    uvf < snd (sgs ! (unat uvi - unat i)) \<and> unat uvi - unat i < length sgs"
proof (induction n arbitrary: i sgs st B)
  case (Suc n)
  from Suc.prems(1) obtain a len rest where r: "sgs = (a, len) # rest"
    "uvo \<noteq> 0 \<and> i = uvi \<longrightarrow> uvf < len"
    "scan_sgs uvo uvi uvf required n (i + 1) rest (scan_next uvo uvi uvf required i len st) = Inr st'"
    by (rule scan_stepE)
  note f = fits_next [OF Suc.prems(2)]
  show ?case
  proof (cases "i = uvi")
    case True
    have "sc_uv_backing st' = sc_uv_backing (scan_next uvo uvi uvf required i len st)"
      by (rule scan_uv_frame [OF r(3) f(1)]) (use f(2) True in simp)
    also have "\<dots> = sc_available st + ucast uvf" using True Suc.prems(3) by (simp add: scan_next_def Let_def)
    finally have "unat (sc_uv_backing st') = B + unat uvf"
      using fits_next(3) [OF Suc.prems(2), of uvf] by simp
    then show ?thesis using True r(1,2) Suc.prems(3) by simp
  next
    case False
    then have "unat i \<noteq> unat uvi" using word_unat_eq_iff by blast
    then have le: "unat (i + 1) \<le> unat uvi" using Suc.prems(4) f(2) by simp
    then have sub: "unat uvi - unat i = Suc (unat uvi - unat (i + 1))" using f(2) by simp
    from Suc.IH [OF r(3) f(1) Suc.prems(3) le] Suc.prems(5) f(2) show ?thesis
      by (auto simp: r(1) sub)
  qed
qed simp

lemma scan_mapped_frame:
  "scan_sgs uvo uvi uvf required n i sgs st = Inr st' \<Longrightarrow> sc_mapped st \<noteq> 0 \<Longrightarrow> sc_mapped st' = sc_mapped st"
proof (induction n arbitrary: i sgs st)
  case (Suc n)
  from Suc.prems(1) obtain a len rest where r:
    "scan_sgs uvo uvi uvf required n (i + 1) rest (scan_next uvo uvi uvf required i len st) = Inr st'"
    by (rule scan_stepE)
  have "sc_mapped (scan_next uvo uvi uvf required i len st) = sc_mapped st"
    using Suc.prems(2) by (simp add: scan_next_def Let_def)
  with Suc.IH [OF r] Suc.prems(2) show ?case by simp
qed simp

text \<open>The mapped count is the shortest non-empty prefix that covers the required bytes.\<close>

lemma scan_mapped:
  "scan_sgs uvo uvi uvf required n i sgs st = Inr st' \<Longrightarrow> fits n i st B \<Longrightarrow> sc_mapped st = 0 \<Longrightarrow>
    sc_mapped st' \<noteq> 0 \<Longrightarrow>
    \<exists>k < n. unat (sc_mapped st') = unat i + Suc k \<and> (\<forall>j. 0 < j \<and> j \<le> k \<longrightarrow>
      B + length (sg_bytes (take j sgs)) < unat required) \<and>
      unat required \<le> B + length (sg_bytes (take (Suc k) sgs))"
proof (induction n arbitrary: i sgs st B)
  case (Suc n)
  from Suc.prems(1) obtain a len rest where r: "sgs = (a, len) # rest"
    "scan_sgs uvo uvi uvf required n (i + 1) rest (scan_next uvo uvi uvf required i len st) = Inr st'"
    by (rule scan_stepE)
  note f = fits_next [OF Suc.prems(2)]
  have m: "sc_mapped (scan_next uvo uvi uvf required i len st) =
      (if sc_available st + ucast len \<ge> required then i + 1 else 0)"
    using Suc.prems(3) by (simp add: scan_next_def Let_def)
  show ?case
  proof (cases "sc_available st + ucast len \<ge> required")
    case True
    then have "unat required \<le> B + unat len" using f(3) [of len] by (simp add: word_le_nat_alt)
    moreover have "i + 1 \<noteq> 0" using f(2) by auto
    then have "sc_mapped st' = i + 1" using scan_mapped_frame [OF r(2)] m True by simp
    ultimately show ?thesis using f(2) r(1) by (intro exI [of _ 0]) simp
  next
    case False
    then have lt: "B + unat len < unat required" using f(3) [of len] by (simp add: word_le_nat_alt not_le)
    from Suc.IH [OF r(2) f(1) _ Suc.prems(4)] m False obtain k where k: "k < n"
      "unat (sc_mapped st') = unat (i + 1) + Suc k"
      "\<And>j. 0 < j \<Longrightarrow> j \<le> k \<Longrightarrow> B + unat len + length (sg_bytes (take j rest)) < unat required"
      "unat required \<le> B + unat len + length (sg_bytes (take (Suc k) rest))" by auto
    have "B + length (sg_bytes (take j sgs)) < unat required" if "0 < j" "j \<le> Suc k" for j
      using that k(3) [of "j - 1"] lt by (cases j; cases "j - 1 = 0") (auto simp: r(1) add.assoc)
    with k f(2) r(1) show ?thesis by (intro exI [of _ "Suc k"]) (auto simp: add.assoc)
  qed
qed simp

lemma scan_entries:
  "scan_sgs uvo uvi uvf required n i sgs st = Inr st' \<Longrightarrow> n \<le> length sgs \<and>
    (\<forall>j \<le> n. 4 * j \<le> length (sg_bytes (take j sgs)))"
proof (induction n arbitrary: i sgs st)
  case (Suc n)
  from Suc.prems obtain a len rest where r: "sgs = (a, len) # rest" "len \<noteq> 0" "\<not> unaligned a len"
    "scan_sgs uvo uvi uvf required n (i + 1) rest (scan_next uvo uvi uvf required i len st) = Inr st'"
    by (rule scan_stepE)
  have "unat len \<noteq> 0" "4 dvd unat len" using r(2) unaligned_iff [OF r(3)]
    by (simp_all add: unat_eq_0 bytes_aligned_def)
  then have "4 \<le> unat len" by (simp add: dvd_imp_le)
  with Suc.IH [OF r(4)] show ?case by (auto simp: r(1) take_Cons split: nat.splits)
qed simp

section \<open>The translation in stages\<close>

definition xlat_bad_args ::
  "crystalhd_dma_desc_source \<Rightarrow> u32 \<Rightarrow> u32 \<Rightarrow> u32 \<Rightarrow> u32 \<Rightarrow> dma_desc_mem \<Rightarrow> bool" where
  "xlat_bad_args source capacity uv_offset uv_sg_ix uv_sg_off mem \<longleftrightarrow>
     dm_sz mem = 0 \<or> capacity = 0 \<or> (ds_sgl source = [] \<and> ds_dma_nents source \<noteq> 0) \<or>
     (ds_dma_nents source = 0 \<and> ds_fill_size source = 0) \<or> ds_fill_size source > capacity \<or>
     (ds_fill_size source \<noteq> 0 \<and> (\<not> ds_dir_tx source \<or> ds_fill_size source > 3 \<or>
        ds_fill_size source \<noteq> capacity AND 3 \<or>
        ds_fill_addr source = 0 \<or> ds_fill_addr source AND 3 \<noteq> 0)) \<or>
     (ds_fill_size source = 0 \<and> capacity AND 3 \<noteq> 0) \<or>
     (uv_offset \<noteq> 0 \<and> (ds_dir_tx source \<or> uv_offset \<ge> capacity \<or> uv_sg_ix \<ge> ds_dma_nents source \<or>
        (uv_offset OR uv_sg_off) AND 3 \<noteq> 0)) \<or>
     (uv_offset = 0 \<and> (uv_sg_ix \<noteq> 0 \<or> uv_sg_off \<noteq> 0))"

definition xlat_bad_scan :: "u64 \<Rightarrow> u32 \<Rightarrow> scan_state \<Rightarrow> bool" where
  "xlat_bad_scan required uv_offset st \<longleftrightarrow>
     sc_available st < required \<or> (required \<noteq> 0 \<and> sc_mapped st = 0) \<or>
     (uv_offset \<noteq> 0 \<and> (\<not> sc_uv_seen st \<or> sc_uv_backing st \<noteq> ucast uv_offset))"

definition xlat_desc_count :: "crystalhd_dma_desc_source \<Rightarrow> u32 \<Rightarrow> u32 \<Rightarrow> u32 \<Rightarrow> u32 \<Rightarrow> u32" where
  "xlat_desc_count source uv_offset uv_sg_ix uv_sg_off mapped =
    (if uv_offset \<noteq> 0 then uv_sg_ix + bool_u32 (uv_sg_off \<noteq> 0) + mapped - uv_sg_ix
     else mapped + bool_u32 (ds_fill_size source \<noteq> 0))"

text \<open>What is left once all checks have passed.\<close>

definition xlat_fill ::
  "crystalhd_dma_desc_source \<Rightarrow> u32 \<Rightarrow> u32 \<Rightarrow> u32 \<Rightarrow> u32 \<Rightarrow> dma_desc_mem \<Rightarrow> u32 \<Rightarrow> u32
    \<Rightarrow> dma_descriptor list \<Rightarrow> (bc_status \<times> u32 option \<times> dma_desc_mem) option" where
  "xlat_fill source capacity uv_offset uv_sg_ix uv_sg_off mem dest mapped ds =
    (let (sg_cnt, xfr_sz) =
       (if ds_dir_tx source \<or> uv_offset = 0 then (mapped, capacity)
        else (uv_sg_ix + bool_u32 (uv_sg_off \<noteq> 0), uv_offset))
     in do {
       (sts, ds1) \<leftarrow> crystalhd_hw_fill_desc source 0 (dm_phy_addr mem) sg_cnt 0 0 xfr_sz dest ds;
       (if sts \<noteq> BC_STS_SUCCESS \<or> uv_offset = 0
        then Some (sts, Some 0, mem\<lparr>dm_start := Some ds1\<rparr>)
        else do {
          (sts2, ds2) \<leftarrow> crystalhd_hw_fill_desc source (unat sg_cnt)
             (dm_phy_addr mem + ucast sg_cnt * word_of_nat DESC_SIZE)
             (mapped - uv_sg_ix) uv_sg_ix uv_sg_off (capacity - uv_offset) dest ds1;
          Some (sts2, Some sg_cnt, mem\<lparr>dm_start := Some ds2\<rparr>) }) })"

lemma xlat_stages:
  "crystalhd_xlat_dma_to_desc src cap uvo uvi uvf mem dest =
    (case dm_start mem of None \<Rightarrow> Some (BC_STS_INV_ARG, None, mem)
     | Some ds \<Rightarrow>
       if xlat_bad_args src cap uvo uvi uvf mem then Some (BC_STS_INV_ARG, None, mem)
       else (case scan_sgs uvo uvi uvf (ucast (cap - ds_fill_size src)) (unat (ds_dma_nents src)) 0
                (ds_sgl src) scan_init of
            Inl sts \<Rightarrow> Some (sts, None, mem)
          | Inr st \<Rightarrow>
            if xlat_bad_scan (ucast (cap - ds_fill_size src)) uvo st then Some (BC_STS_INV_ARG, None, mem)
            else if xlat_desc_count src uvo uvi uvf (sc_mapped st) > dm_sz mem div word_of_nat DESC_SIZE
            then Some (BC_STS_INSUFF_RES, Some 0, mem)
            else xlat_fill src cap uvo uvi uvf mem dest (sc_mapped st) ds))"
  unfolding crystalhd_xlat_dma_to_desc_def xlat_bad_args_def xlat_bad_scan_def xlat_desc_count_def
    xlat_fill_def Let_def ..

lemma fits_init: "fits (unat n) 0 scan_init 0" for n :: u32
proof -
  have "unat n < 2 ^ 32" using unsigned_less [of n] by simp
  then show ?thesis by (simp add: fits_def scan_init_def)
qed

text \<open>The facts about the counts that a pass without error establishes.\<close>

lemma xlat_scan_facts:
  assumes ok: "\<not> xlat_bad_args src cap uvo uvi uvf mem"
    and sc: "scan_sgs uvo uvi uvf (ucast (cap - ds_fill_size src)) (unat (ds_dma_nents src)) 0
      (ds_sgl src) scan_init = Inr st"
    and ok2: "\<not> xlat_bad_scan (ucast (cap - ds_fill_size src)) uvo st"
  shows "unat (sc_mapped st) \<le> unat (ds_dma_nents src)" "unat (sc_mapped st) \<le> 2 ^ 30 + 1"
    "uvo \<noteq> 0 \<Longrightarrow> unat uvo = length (sg_bytes (take (unat uvi) (ds_sgl src))) + unat uvf"
    "uvo \<noteq> 0 \<Longrightarrow> uvf < snd (ds_sgl src ! unat uvi) \<and> unat uvi < length (ds_sgl src)"
    "uvo \<noteq> 0 \<Longrightarrow> unat uvi < unat (sc_mapped st)"
proof -
  let ?req = "ucast (cap - ds_fill_size src) :: u64" and ?n = "unat (ds_dma_nents src)"
  have req: "unat ?req = unat (cap - ds_fill_size src)" "unat ?req < 2 ^ 32"
    using unat_u32_less [of "cap - ds_fill_size src"] by simp_all
  note E = scan_entries [OF sc]
  have M: "\<exists>k < ?n. unat (sc_mapped st) = Suc k \<and> (\<forall>j. 0 < j \<and> j \<le> k \<longrightarrow>
      length (sg_bytes (take j (ds_sgl src))) < unat ?req) \<and>
      unat ?req \<le> length (sg_bytes (take (Suc k) (ds_sgl src)))" if "sc_mapped st \<noteq> 0"
    using scan_mapped [OF sc fits_init _ that] by (simp add: scan_init_def)
  show "unat (sc_mapped st) \<le> ?n" using M by (cases "sc_mapped st = 0") auto
  show "unat (sc_mapped st) \<le> 2 ^ 30 + 1"
  proof (cases "sc_mapped st = 0")
    case False
    then obtain k where k: "k < ?n" "unat (sc_mapped st) = Suc k"
      "0 < k \<Longrightarrow> length (sg_bytes (take k (ds_sgl src))) < unat ?req" using M by auto
    have "4 * k \<le> length (sg_bytes (take k (ds_sgl src)))" using E k(1) by simp
    then have "4 * k < 2 ^ 32" using k(3) req(2) by (cases "k = 0") simp_all
    then show ?thesis using k(2) by simp
  qed simp
  assume uvo: "uvo \<noteq> 0"
  have ui: "unat uvi < ?n" using ok uvo by (simp add: xlat_bad_args_def not_le word_less_nat_alt)
  have V: "unat (sc_uv_backing st) = length (sg_bytes (take (unat uvi) (ds_sgl src))) + unat uvf"
    "uvf < snd (ds_sgl src ! unat uvi)" "unat uvi < length (ds_sgl src)"
    using scan_uv_value [OF sc fits_init uvo] ui by simp_all
  have "sc_uv_backing st = ucast uvo" using ok2 uvo by (simp add: xlat_bad_scan_def)
  then show u: "unat uvo = length (sg_bytes (take (unat uvi) (ds_sgl src))) + unat uvf"
    using V(1) by simp
  show "uvf < snd (ds_sgl src ! unat uvi) \<and> unat uvi < length (ds_sgl src)" using V by simp
  have fs: "ds_fill_size src = 0" "uvo < cap" using ok uvo by (auto simp: xlat_bad_args_def)
  then have lt: "unat uvo < unat ?req" using req(1) by (simp add: word_less_nat_alt)
  then have "?req \<noteq> 0" by (metis unsigned_0 not_less0)
  then have "sc_mapped st \<noteq> 0" using ok2 by (simp add: xlat_bad_scan_def)
  then obtain k where k: "unat (sc_mapped st) = Suc k" "unat ?req \<le> length (sg_bytes (take (Suc k) (ds_sgl src)))"
    using M by auto
  show "unat uvi < unat (sc_mapped st)"
  proof (rule ccontr)
    assume "\<not> ?thesis"
    then have "Suc k \<le> unat uvi" using k(1) by simp
    then have "take (unat uvi) (ds_sgl src) = take (Suc k) (ds_sgl src) @ take (unat uvi - Suc k) (drop (Suc k) (ds_sgl src))"
      by (metis le_add_diff_inverse take_add)
    then have "length (sg_bytes (take (Suc k) (ds_sgl src))) \<le> length (sg_bytes (take (unat uvi) (ds_sgl src)))"
      by (simp add: sg_bytes_append)
    then show False using k(2) u lt by linarith
  qed
qed


section \<open>Bounds\<close>

lemma fill_loop_in_bounds:
  "d0 + ix + n \<le> length ds \<Longrightarrow>
    \<exists>sts ix' count' cur' ds'. fill_loop tx d0 dest sz st_off n ix sgs count cur phy ds =
      Some (sts, ix', count', cur', ds') \<and> length ds' = length ds \<and> ix' \<le> ix + n"
proof (induction tx d0 dest sz st_off n ix sgs count cur phy ds rule: fill_loop.induct)
  case (3 tx d0 dest sz st_off n ix a available sgs count cur phy ds)
  have i: "d0 + ix < length ds" using 3(2) by simp
  then show ?case
    using 3(1) 3(2) by (fastforce simp: Let_def)
qed auto


lemma fill_desc_in_bounds:
  assumes room: "d0 + unat sg_cnt + (if ds_fill_size src = 0 then 0 else 1) \<le> length ds"
  shows "\<exists>sts ds'. crystalhd_hw_fill_desc src d0 base sg_cnt st_ix st_off xfr dest ds = Some (sts, ds') \<and>
    length ds' = length ds"
proof -
  let ?fs = "ds_fill_size src" and ?tx = "ds_dir_tx src"
  let ?bad = "base = 0 \<or> xfr = 0 \<or> (sg_cnt = 0 \<and> ?fs = 0) \<or> xfr < ?fs \<or>
      ((sg_cnt \<noteq> 0) \<noteq> (xfr - ?fs \<noteq> 0)) \<or> st_ix > ds_dma_nents src \<or> sg_cnt > ds_dma_nents src - st_ix \<or>
      (?fs \<noteq> 0 \<and> (\<not> ?tx \<or> ?fs > 3 \<or> ds_fill_addr src = 0 \<or> ds_fill_addr src AND 3 \<noteq> 0))"
  let ?sgs = "drop (unat st_ix) (ds_sgl src)"
  have "d0 + 0 + unat sg_cnt \<le> length ds" using room by simp
  from fill_loop_in_bounds [OF this] obtain sts ix count cur ds1 where
    fl: "fill_loop ?tx d0 dest (xfr - ?fs) st_off (unat sg_cnt) 0 ?sgs 0 dest base ds =
      Some (sts, ix, count, cur, ds1)" "length ds1 = length ds" by blast
  show ?thesis
  proof (cases "?bad \<or> (sg_cnt \<noteq> 0 \<and> ?sgs = []) \<or> sts \<noteq> BC_STS_SUCCESS \<or> count \<noteq> xfr - ?fs")
    case True
    then show ?thesis unfolding crystalhd_hw_fill_desc_def Let_def fl(1) using fl(2)
      by (auto split: if_splits)
  next
    case False
    then have g: "\<not> ?bad" "\<not> (sg_cnt \<noteq> 0 \<and> ?sgs = [])" "sts = BC_STS_SUCCESS" "count = xfr - ?fs"
      by blast+
    have ix: "ix = unat sg_cnt" using fill_loop_success [OF fl(1) [unfolded g(3)]] by simp
    have pos: "?fs = 0 \<Longrightarrow> unat sg_cnt \<noteq> 0" using g(1) by (auto simp: unat_eq_0)
    show ?thesis
      unfolding crystalhd_hw_fill_desc_def if_not_P [OF g(1)] Let_def if_not_P [OF g(2)] fl(1) g(3,4) ix
      using room fl(2) pos by (cases "?fs = 0") (auto simp: Let_def)
  qed
qed

lemma xlat_fill_in_bounds:
  assumes ok: "\<not> xlat_bad_args src cap uvo uvi uvf mem"
    and sc: "scan_sgs uvo uvi uvf (ucast (cap - ds_fill_size src)) (unat (ds_dma_nents src)) 0
      (ds_sgl src) scan_init = Inr st"
    and ok2: "\<not> xlat_bad_scan (ucast (cap - ds_fill_size src)) uvo st"
    and cnt: "xlat_desc_count src uvo uvi uvf (sc_mapped st) \<le> dm_sz mem div word_of_nat DESC_SIZE"
    and len: "unat (dm_sz mem) div DESC_SIZE \<le> length ds"
  shows "\<exists>sts uv ds'. xlat_fill src cap uvo uvi uvf mem dest (sc_mapped st) ds =
    Some (sts, uv, mem\<lparr>dm_start := Some ds'\<rparr>) \<and> length ds' = length ds"
proof -
  note F = xlat_scan_facts [OF ok sc ok2]
  let ?m = "sc_mapped st" and ?fs = "ds_fill_size src"
  have lim: "unat (xlat_desc_count src uvo uvi uvf ?m) \<le> length ds"
    using cnt len by (simp add: word_le_nat_alt unat_div)
  have b: "unat (?m + bool_u32 x) = unat ?m + (if x then 1 else 0)" for x
    using F(2) by (simp add: bool_u32_def unat_word_ariths)
  show ?thesis
  proof (cases "uvo = 0")
    case True
    have "0 + unat ?m + (if ?fs = 0 then 0 else 1) \<le> length ds"
      using lim True b [of "?fs \<noteq> 0"] by (simp add: xlat_desc_count_def split: if_splits)
    from fill_desc_in_bounds [OF this] obtain sts ds' where
      "crystalhd_hw_fill_desc src 0 (dm_phy_addr mem) ?m 0 0 cap dest ds = Some (sts, ds')"
      "length ds' = length ds" by blast
    with True show ?thesis by (auto simp: xlat_fill_def)
  next
    case False
    let ?c = "uvi + bool_u32 (uvf \<noteq> 0)"
    have fs: "?fs = 0" "\<not> ds_dir_tx src" using ok False by (auto simp: xlat_bad_args_def)
    have ui: "unat uvi < unat ?m" using F(5) [OF False] .
    then have c: "unat ?c = unat uvi + (if uvf \<noteq> 0 then 1 else 0)"
      using F(2) by (simp add: bool_u32_def unat_word_ariths)
    have d: "unat (?m - uvi) = unat ?m - unat uvi" using ui by (simp add: unat_sub word_le_nat_alt)
    have tot: "unat ?m + (if uvf \<noteq> 0 then 1 else 0) \<le> length ds"
      using lim False b [of "uvf \<noteq> 0"] by (simp add: xlat_desc_count_def algebra_simps)
    have r1: "0 + unat ?c + (if ?fs = 0 then 0 else 1) \<le> length ds" using tot c fs ui by simp
    from fill_desc_in_bounds [OF r1] obtain sts ds1 where
      f1: "crystalhd_hw_fill_desc src 0 (dm_phy_addr mem) ?c 0 0 uvo dest ds = Some (sts, ds1)"
      "length ds1 = length ds" by blast
    have r2: "unat ?c + unat (?m - uvi) + (if ?fs = 0 then 0 else 1) \<le> length ds1"
      using tot c d fs ui f1(2) by simp
    from fill_desc_in_bounds [OF r2] obtain sts2 ds2 where
      "crystalhd_hw_fill_desc src (unat ?c) (dm_phy_addr mem + ucast ?c * word_of_nat DESC_SIZE)
        (?m - uvi) uvi uvf (cap - uvo) dest ds1 = Some (sts2, ds2)" "length ds2 = length ds1" by blast
    with f1 False fs show ?thesis by (auto simp: xlat_fill_def)
  qed
qed

lemma xlat_in_bounds:
  assumes "\<And>ds. dm_start mem = Some ds \<Longrightarrow> unat (dm_sz mem) div DESC_SIZE \<le> length ds"
  shows "\<exists>r. crystalhd_xlat_dma_to_desc src cap uvo uvi uvf mem dest = Some r"
proof (cases "dm_start mem")
  case (Some ds)
  show ?thesis
  proof (cases "scan_sgs uvo uvi uvf (ucast (cap - ds_fill_size src)) (unat (ds_dma_nents src)) 0
      (ds_sgl src) scan_init")
    case (Inr st)
    show ?thesis
      unfolding xlat_stages Some Inr option.case sum.case
      using xlat_fill_in_bounds [OF _ Inr _ _ assms [OF Some], where dest = dest] by (auto simp: not_less)
  qed (simp add: xlat_stages Some)
qed (simp add: xlat_stages)


section \<open>What a successful translation describes\<close>

lemma xlat_successE:
  assumes "crystalhd_xlat_dma_to_desc src cap uvo uvi uvf mem dest = Some (BC_STS_SUCCESS, uv, mem')"
  obtains ds st where "dm_start mem = Some ds" "\<not> xlat_bad_args src cap uvo uvi uvf mem"
    "scan_sgs uvo uvi uvf (ucast (cap - ds_fill_size src)) (unat (ds_dma_nents src)) 0
      (ds_sgl src) scan_init = Inr st"
    "\<not> xlat_bad_scan (ucast (cap - ds_fill_size src)) uvo st"
    "xlat_fill src cap uvo uvi uvf mem dest (sc_mapped st) ds = Some (BC_STS_SUCCESS, uv, mem')"
proof -
  from assms obtain ds where ds: "dm_start mem = Some ds"
    by (cases "dm_start mem") (auto simp: xlat_stages)
  have bad: "\<not> xlat_bad_args src cap uvo uvi uvf mem"
    using assms unfolding xlat_stages ds by (auto split: if_splits)
  have scan_err: "sts \<noteq> BC_STS_SUCCESS" if "scan_sgs a b c d n i sgs st = Inl sts" for a b c d n i sgs st sts
    using that by (induction a b c d n i sgs st rule: scan_sgs.induct) (auto simp: Let_def split: if_splits)
  obtain st where st: "scan_sgs uvo uvi uvf (ucast (cap - ds_fill_size src)) (unat (ds_dma_nents src)) 0
      (ds_sgl src) scan_init = Inr st"
    using assms scan_err unfolding xlat_stages ds option.case if_not_P [OF bad]
    by (auto split: sum.splits)
  show ?thesis
    by (rule that [OF ds bad st])
      (use assms in \<open>auto simp: xlat_stages ds bad st split: if_splits\<close>)
qed

lemma aligned_rest:
  assumes "\<not> xlat_bad_args src cap uvo uvi uvf mem"
  shows "bytes_aligned (cap - ds_fill_size src)" "ds_fill_size src \<le> cap"
proof -
  show "ds_fill_size src \<le> cap" using assms by (auto simp: xlat_bad_args_def not_less)
  show "bytes_aligned (cap - ds_fill_size src)"
  proof (cases "ds_fill_size src = 0")
    case True
    then show ?thesis using assms and3_aligned [of cap] by (auto simp: xlat_bad_args_def)
  next
    case False
    then have "ds_fill_size src = cap AND 3" using assms by (auto simp: xlat_bad_args_def)
    moreover have "cap AND 3 = take_bit 2 cap" by (simp add: take_bit_eq_mask mask_eq_decr_exp)
    ultimately have "unat (ds_fill_size src) = unat cap mod 4"
      by (simp add: unsigned_take_bit_eq take_bit_eq_mod unat_mod)
    then show ?thesis using \<open>ds_fill_size src \<le> cap\<close>
      by (simp add: bytes_aligned_def unat_sub)
  qed
qed

lemma xlat_plain:
  assumes "crystalhd_xlat_dma_to_desc src cap 0 uvi uvf mem dest = Some (BC_STS_SUCCESS, uv, mem')"
    "dm_start mem = Some ds"
  shows "uv = Some 0 \<and> (\<exists>cs. mem' = mem\<lparr>dm_start := Some (cs @ drop (length cs) ds)\<rparr> \<and>
    length cs \<le> length ds \<and> chain_linked (dm_phy_addr mem) cs \<and> (\<forall>c \<in> set cs. d_dma_dir c = ds_dir_tx src) \<and>
    concat (map desc_bytes cs) = take (unat cap - unat (ds_fill_size src)) (sg_bytes (ds_sgl src)) @
      span (ds_fill_addr src) (unat (ds_fill_size src)) \<and>
    length (concat (map desc_bytes cs)) = unat cap)"
proof -
  from assms(1) obtain ds0 and st :: scan_state where x: "dm_start mem = Some ds0" "\<not> xlat_bad_args src cap 0 uvi uvf mem"
    "xlat_fill src cap 0 uvi uvf mem dest (sc_mapped st) ds0 = Some (BC_STS_SUCCESS, uv, mem')"
    by (rule xlat_successE)
  from x(1,3) assms(2) obtain ds1 where
    f: "crystalhd_hw_fill_desc src 0 (dm_phy_addr mem) (sc_mapped st) 0 0 cap dest ds = Some (BC_STS_SUCCESS, ds1)"
    "uv = Some 0" "mem' = mem\<lparr>dm_start := Some ds1\<rparr>"
    by (auto simp: xlat_fill_def bind_eq_Some_conv)
  let ?n = "unat (sc_mapped st) + (if ds_fill_size src = 0 then 0 else 1)"
  from fill_desc_success [OF f(1) aligned_rest(1) [OF x(2)] refl] obtain cs where
    cs: "length cs = ?n" "0 + ?n \<le> length ds" "ds1 = take 0 ds @ cs @ drop (0 + ?n) ds"
      "chain_linked (dm_phy_addr mem) cs" "\<forall>c \<in> set cs. d_dma_dir c = ds_dir_tx src"
      "concat (map desc_bytes cs) = take (unat cap - unat (ds_fill_size src))
        (drop (unat (0::u32)) (sg_bytes (drop (unat (0::u32)) (ds_sgl src)))) @
        span (ds_fill_addr src) (unat (ds_fill_size src))"
      "length (concat (map desc_bytes cs)) = unat cap" by blast
  have "ds1 = cs @ drop (length cs) ds" "length cs \<le> length ds"
    unfolding cs(1) using cs(2,3) by simp_all
  with cs(4-7) f(2,3) show ?thesis unfolding unsigned_0 drop_0 by blast
qed

lemma xlat_planes:
  assumes "crystalhd_xlat_dma_to_desc src cap uvo uvi uvf mem dest = Some (BC_STS_SUCCESS, uv, mem')"
    "dm_start mem = Some ds" "uvo \<noteq> 0"
  shows "\<exists>ys us. mem' = mem\<lparr>dm_start := Some (ys @ us @ drop (length ys + length us) ds)\<rparr> \<and>
    uv = Some (word_of_nat (length ys)) \<and> length ys + length us \<le> length ds \<and>
    chain_linked (dm_phy_addr mem) ys \<and>
    chain_linked (dm_phy_addr mem + word_of_nat (DESC_SIZE * length ys)) us \<and>
    (\<forall>c \<in> set ys \<union> set us. \<not> d_dma_dir c) \<and>
    concat (map desc_bytes ys) = take (unat uvo) (sg_bytes (ds_sgl src)) \<and>
    concat (map desc_bytes us) = take (unat cap - unat uvo) (drop (unat uvo) (sg_bytes (ds_sgl src))) \<and>
    length (concat (map desc_bytes ys)) = unat uvo \<and>
    length (concat (map desc_bytes us)) = unat cap - unat uvo"
proof -
  from assms(1) obtain ds0 st where x: "dm_start mem = Some ds0" and bad: "\<not> xlat_bad_args src cap uvo uvi uvf mem"
    and sc: "scan_sgs uvo uvi uvf (ucast (cap - ds_fill_size src)) (unat (ds_dma_nents src)) 0
      (ds_sgl src) scan_init = Inr st"
    and bad2: "\<not> xlat_bad_scan (ucast (cap - ds_fill_size src)) uvo st"
    and fill: "xlat_fill src cap uvo uvi uvf mem dest (sc_mapped st) ds0 = Some (BC_STS_SUCCESS, uv, mem')"
    by (rule xlat_successE)
  note F = xlat_scan_facts [OF bad sc bad2]
  let ?m = "sc_mapped st" and ?c = "uvi + bool_u32 (uvf \<noteq> 0)"
  have g: "ds_fill_size src = 0" "\<not> ds_dir_tx src" "uvo < cap" "(uvo OR uvf) AND 3 = 0" "cap AND 3 = 0"
    using bad assms(3) by (auto simp: xlat_bad_args_def not_le)
  have "uvo AND 3 = 0" using g(4)
    by (metis (no_types, lifting) and.commute bit.conj_disj_distrib or_eq_0_iff)
  then have al: "bytes_aligned uvo" "bytes_aligned cap" "bytes_aligned (cap - uvo)"
    using g(3,5) by (auto simp: and3_aligned intro!: aligned_diff)
  from fill x assms(2,3) g obtain ds1 ds2 where
    f1: "crystalhd_hw_fill_desc src 0 (dm_phy_addr mem) ?c 0 0 uvo dest ds = Some (BC_STS_SUCCESS, ds1)" and
    f2: "crystalhd_hw_fill_desc src (unat ?c) (dm_phy_addr mem + ucast ?c * word_of_nat DESC_SIZE)
        (?m - uvi) uvi uvf (cap - uvo) dest ds1 = Some (BC_STS_SUCCESS, ds2)" and
    uv: "uv = Some ?c" "mem' = mem\<lparr>dm_start := Some ds2\<rparr>"
    by (auto simp: xlat_fill_def bind_eq_Some_conv split: if_splits)
  from fill_desc_success [OF f1 _ refl] al(1) g(1) obtain ys where
    ys: "length ys = unat ?c" "unat ?c \<le> length ds" "ds1 = ys @ drop (unat ?c) ds" "chain_linked (dm_phy_addr mem) ys"
      "\<forall>c \<in> set ys. \<not> d_dma_dir c" "concat (map desc_bytes ys) = take (unat uvo) (sg_bytes (ds_sgl src))"
      "length (concat (map desc_bytes ys)) = unat uvo" using g(2) by auto
  from fill_desc_success [OF f2 _ refl] al(3) g(1) obtain us where
    us: "length us = unat (?m - uvi)" "unat ?c + length us \<le> length ds1"
      "ds2 = take (unat ?c) ds1 @ us @ drop (unat ?c + length us) ds1"
      "chain_linked (dm_phy_addr mem + ucast ?c * word_of_nat DESC_SIZE) us"
      "\<forall>c \<in> set us. \<not> d_dma_dir c" "concat (map desc_bytes us) =
        take (unat (cap - uvo)) (drop (unat uvf) (sg_bytes (drop (unat uvi) (ds_sgl src))))"
      "length (concat (map desc_bytes us)) = unat (cap - uvo)" using g(2) by auto
  have cu: "unat (cap - uvo) = unat cap - unat uvo" using g(3) by (simp add: unat_sub order_less_imp_le)
  have "sg_bytes (ds_sgl src) = sg_bytes (take (unat uvi) (ds_sgl src)) @ sg_bytes (drop (unat uvi) (ds_sgl src))"
    by (metis append_take_drop_id sg_bytes_append)
  then have split: "drop (unat uvo) (sg_bytes (ds_sgl src)) = drop (unat uvf) (sg_bytes (drop (unat uvi) (ds_sgl src)))"
    using F(3) [OF assms(3)] by simp
  have base: "dm_phy_addr mem + ucast ?c * word_of_nat DESC_SIZE =
      dm_phy_addr mem + word_of_nat (DESC_SIZE * length ys)"
    by (simp add: ys(1) mult.commute)
  have "ds2 = ys @ us @ drop (length ys + length us) ds" using us(3) ys(1,3) by (simp add: add.commute)
  moreover have "length ys + length us \<le> length ds" using us(2) ys(1-3) by simp
  moreover have "uv = Some (word_of_nat (length ys))" using uv(1) ys(1) by simp
  moreover have "chain_linked (dm_phy_addr mem + word_of_nat (DESC_SIZE * length ys)) us"
    using us(4) unfolding base .
  moreover have "concat (map desc_bytes us) = take (unat cap - unat uvo) (drop (unat uvo) (sg_bytes (ds_sgl src)))"
    "length (concat (map desc_bytes us)) = unat cap - unat uvo"
    using us(6,7) unfolding cu split by simp_all
  moreover have "\<forall>c \<in> set ys \<union> set us. \<not> d_dma_dir c" using ys(5) us(5) by blast
  ultimately show ?thesis using uv(2) ys(4,6,7) by blast
qed

section \<open>The preflight check is complete\<close>

lemma preflight_step:
  assumes "preflight_loop required (Suc n) i sgs available mapped = Inr r"
  obtains a len rest where "sgs = (a, len) # rest" "len \<noteq> 0" "\<not> unaligned a len"
    "\<not> (available < ucast required \<and> len > CRYSTALHD_DMA_DESC_MAX_XFER_BYTES \<and>
       ucast required - available > ucast CRYSTALHD_DMA_DESC_MAX_XFER_BYTES)"
    "preflight_loop required n (i + 1) rest (available + ucast len)
       (if mapped = 0 \<and> available + ucast len \<ge> ucast required then i + 1 else mapped) = Inr r"
proof (cases sgs)
  case (Cons p rest)
  obtain a len where p: "p = (a, len)" by (cases p)
  show ?thesis
    using assms unfolding Cons p
    by (intro that [of a len rest]) (auto simp: Cons p Let_def split: if_splits)
qed (use assms in simp)

text \<open>What the preflight accepts, the translation's own pass accepts with the same result.\<close>

lemma preflight_scan:
  "preflight_loop required n i sgs (sc_available st) (sc_mapped st) = Inr (av, m) \<Longrightarrow>
    \<exists>st'. scan_sgs 0 uvi uvf (ucast required) n i sgs st = Inr st' \<and>
      sc_available st' = av \<and> sc_mapped st' = m"
proof (induction n arbitrary: i sgs st)
  case (Suc n)
  from Suc.prems obtain a len rest where p: "sgs = (a, len) # rest" "len \<noteq> 0" "\<not> unaligned a len"
    "preflight_loop required n (i + 1) rest (sc_available st + ucast len)
       (if sc_mapped st = 0 \<and> sc_available st + ucast len \<ge> ucast required then i + 1 else sc_mapped st) = Inr (av, m)"
    by (rule preflight_step)
  let ?st = "scan_next 0 uvi uvf (ucast required) i len st"
  have "sc_available ?st = sc_available st + ucast len"
    "sc_mapped ?st = (if sc_mapped st = 0 \<and> sc_available st + ucast len \<ge> ucast required then i + 1 else sc_mapped st)"
    by (simp_all add: scan_next_def Let_def)
  with Suc.IH [of "i + 1" rest ?st] p(4) obtain st' where
    "scan_sgs 0 uvi uvf (ucast required) n (i + 1) rest ?st = Inr st'" "sc_available st' = av" "sc_mapped st' = m"
    by auto
  with p(1-3) show ?case by (auto simp: scan_next_def Let_def)
qed simp

lemma preflight_pieces:
  "preflight_loop required n i sgs available mapped = Inr r \<Longrightarrow> unat available = B \<Longrightarrow>
    B + n * 2 ^ 32 < 2 ^ 64 \<Longrightarrow> j < n \<Longrightarrow> j < length sgs \<and> snd (sgs ! j) \<noteq> 0 \<and>
      \<not> unaligned (fst (sgs ! j)) (snd (sgs ! j)) \<and>
      (B + length (sg_bytes (take j sgs)) < unat required \<longrightarrow>
        min (unat (snd (sgs ! j))) (unat required - (B + length (sg_bytes (take j sgs)))) \<le> 33554428)"
proof (induction n arbitrary: i sgs available mapped B j)
  case (Suc n)
  from Suc.prems(1) obtain a len rest where p: "sgs = (a, len) # rest" "len \<noteq> 0" "\<not> unaligned a len"
    "\<not> (available < ucast required \<and> len > CRYSTALHD_DMA_DESC_MAX_XFER_BYTES \<and>
       ucast required - available > ucast CRYSTALHD_DMA_DESC_MAX_XFER_BYTES)"
    "preflight_loop required n (i + 1) rest (available + ucast len)
       (if mapped = 0 \<and> available + ucast len \<ge> ucast required then i + 1 else mapped) = Inr r"
    by (rule preflight_step)
  have l: "unat len < 2 ^ 32" by (rule unat_u32_less)
  have B: "unat (available + ucast len) = B + unat len"
    using Suc.prems(2,3) l by (simp add: unat_word_ariths)
  show ?case
  proof (cases j)
    case 0
    have "min (unat len) (unat required - B) \<le> 33554428" if "B < unat required"
    proof -
      have lt: "available < ucast required" using that Suc.prems(2) by (simp add: word_less_nat_alt)
      then have "unat ((ucast required :: u64) - available) = unat required - B"
        using Suc.prems(2) by (simp add: unat_sub order_less_imp_le)
      then show ?thesis using p(4) lt by (auto simp: word_less_nat_alt)
    qed
    then show ?thesis using 0 p(1-3) by simp
  next
    case (Suc k)
    have "B + unat len + n * 2 ^ 32 < 2 ^ 64" "k < n" using Suc.prems(3,4) l Suc by simp_all
    from Suc.IH [OF p(5) B this] Suc p(1) show ?thesis by (simp add: add.assoc)
  qed
qed simp

lemma fill_loop_step0:
  assumes al: "\<not> unaligned a l" and l: "l \<noteq> 0" and i: "d0 + ix < length ds" and nn: "\<not> count \<ge> sz"
    and len: "len = (if l > sz - count then sz - count else l)"
    and lo: "\<not> len > CRYSTALHD_DMA_DESC_MAX_XFER_BYTES" and nz: "\<not> (len = 0 \<or> len > l)"
  shows "\<exists>d. fill_loop tx d0 dest sz 0 (Suc n) ix ((a, l) # rest) count cur phy ds =
    fill_loop tx d0 dest sz 0 n (Suc ix) rest (count + len)
      (if tx then dest + (count + len) else cur) (phy + word_of_nat DESC_SIZE) (ds[d0 + ix := d])"
proof -
  have c1: "\<not> (ix = 0 \<and> (0 \<ge> l \<or> 0 AND 3 \<noteq> (0::u32)))" using l by simp
  have a: "(if ix = 0 then a + ucast (0::u32) else a) = a" "(if ix = 0 then l - 0 else l) = l" by simp_all
  show ?thesis
    unfolding fill_loop.simps if_not_P [OF al] if_not_P [OF c1] Let_def a len [symmetric] cell_upd_in [OF i]
      Option.bind.simps if_not_P [OF nn] if_not_P [OF lo] if_not_P [OF nz]
    using i by (simp add: exI)
qed

lemma fill_loop_complete:
  assumes "d0 + ix + n \<le> length ds" "n \<le> length sgs"
    "\<And>j. j < n \<Longrightarrow> snd (sgs ! j) \<noteq> 0 \<and> \<not> unaligned (fst (sgs ! j)) (snd (sgs ! j)) \<and>
      unat count + length (sg_bytes (take j sgs)) < unat sz \<and>
      min (unat (snd (sgs ! j))) (unat sz - (unat count + length (sg_bytes (take j sgs)))) \<le> 33554428"
    "unat sz \<le> unat count + length (sg_bytes (take n sgs))" "count \<le> sz"
  shows "\<exists>cur' ds'. fill_loop tx d0 dest sz 0 n ix sgs count cur phy ds =
    Some (BC_STS_SUCCESS, ix + n, sz, cur', ds')"
  using assms
proof (induction n arbitrary: ix sgs count cur phy ds)
  case 0
  then have "count = sz" by (simp add: word_le_nat_alt word_unat_eq_iff)
  then show ?case by simp
next
  case (Suc n)
  obtain a l rest where s: "sgs = (a, l) # rest" using Suc.prems(2) by (cases sgs) auto
  define len where "len = (if l > sz - count then sz - count else l)"
  note cut = cut_nat [OF Suc.prems(5) len_def]
  have e: "l \<noteq> 0" "\<not> unaligned a l" "unat count < unat sz" "unat len \<le> 33554428"
    using Suc.prems(3) [of 0] s cut(1) by simp_all
  have len: "len \<noteq> 0" "len \<le> l" "\<not> len > CRYSTALHD_DMA_DESC_MAX_XFER_BYTES"
  proof -
    have "0 < unat len" using e(1,3) cut(1) by (simp add: unat_gt_0)
    then show "len \<noteq> 0" by auto
    show "len \<le> l" using cut(1) by (simp add: word_le_nat_alt)
    show "\<not> len > CRYSTALHD_DMA_DESC_MAX_XFER_BYTES" using e(4) by (simp add: word_less_nat_alt)
  qed
  have nn: "\<not> count \<ge> sz" using e(3) by (simp add: word_le_nat_alt)
  let ?ds = "\<lambda>d. ds[d0 + ix := d]"
  have i: "d0 + ix < length ds" using Suc.prems(1) by simp
  have "\<exists>cur' ds'. fill_loop tx d0 dest sz 0 n (Suc ix) rest (count + len)
      (if tx then dest + (count + len) else cur) (phy + word_of_nat DESC_SIZE) (?ds d) =
      Some (BC_STS_SUCCESS, Suc ix + n, sz, cur', ds')" for d
  proof (rule Suc.IH)
    show "d0 + Suc ix + n \<le> length (?ds d)" "n \<le> length rest" using Suc.prems(1,2) s by simp_all
    show "count + len \<le> sz" by (rule cut(3))
    have nocut: "unat len = unat l" if "0 < n"
    proof -
      have "unat count + unat l < unat sz" using Suc.prems(3) [of 1] that s by simp
      then show ?thesis using cut(1) by simp
    qed
    show "unat sz \<le> unat (count + len) + length (sg_bytes (take n rest))"
      using Suc.prems(4) s cut nocut by (cases "n = 0") auto
    fix j assume j: "j < n"
    then show "snd (rest ! j) \<noteq> 0 \<and> \<not> unaligned (fst (rest ! j)) (snd (rest ! j)) \<and>
      unat (count + len) + length (sg_bytes (take j rest)) < unat sz \<and>
      min (unat (snd (rest ! j))) (unat sz - (unat (count + len) + length (sg_bytes (take j rest)))) \<le> 33554428"
      using Suc.prems(3) [of "Suc j"] s cut(2) nocut by (simp add: add.assoc)
  qed
  note IH = this
  have nz: "\<not> (len = 0 \<or> len > l)" using len(1,2) by simp
  obtain d where d: "fill_loop tx d0 dest sz 0 (Suc n) ix ((a, l) # rest) count cur phy ds =
    fill_loop tx d0 dest sz 0 n (Suc ix) rest (count + len)
      (if tx then dest + (count + len) else cur) (phy + word_of_nat DESC_SIZE) (?ds d)"
    using fill_loop_step0 [OF e(2,1) i nn len_def len(3) nz] by blast
  show ?case unfolding s d using IH [of d] by (simp only: add_Suc_right add_Suc)
qed


lemma fill_desc_complete:
  assumes g: "\<not> (base = 0 \<or> xfr = 0 \<or> (sg_cnt = 0 \<and> ds_fill_size src = 0) \<or> xfr < ds_fill_size src \<or>
      ((sg_cnt \<noteq> 0) \<noteq> (xfr - ds_fill_size src \<noteq> 0)) \<or> 0 > ds_dma_nents src \<or> sg_cnt > ds_dma_nents src - 0 \<or>
      (ds_fill_size src \<noteq> 0 \<and> (\<not> ds_dir_tx src \<or> ds_fill_size src > 3 \<or> ds_fill_addr src = 0 \<or>
        ds_fill_addr src AND 3 \<noteq> 0)))"
    and ne: "\<not> (sg_cnt \<noteq> 0 \<and> drop (unat (0::u32)) (ds_sgl src) = [])"
    and fl: "fill_loop (ds_dir_tx src) 0 dest (xfr - ds_fill_size src) 0 (unat sg_cnt) 0
      (drop (unat (0::u32)) (ds_sgl src)) 0 dest base ds =
      Some (BC_STS_SUCCESS, unat sg_cnt, xfr - ds_fill_size src, cur, ds1)"
    and len: "length ds1 = length ds" "unat sg_cnt + (if ds_fill_size src = 0 then 0 else 1) \<le> length ds"
  shows "\<exists>ds'. crystalhd_hw_fill_desc src 0 base sg_cnt 0 0 xfr dest ds = Some (BC_STS_SUCCESS, ds')"
proof -
  have pos: "ds_fill_size src = 0 \<Longrightarrow> unat sg_cnt \<noteq> 0" using g by (auto simp: unat_eq_0)
  show ?thesis
    unfolding crystalhd_hw_fill_desc_def if_not_P [OF g] Let_def if_not_P [OF ne] fl
    using len pos by (cases "ds_fill_size src = 0") (auto simp: Let_def)
qed

lemma preflight_successE:
  assumes "crystalhd_tx_buffer_preflight (Some b) lim = BC_STS_SUCCESS"
  obtains av m where "tb_bytes b \<noteq> 0" "tb_tail_size b \<le> 3" "tb_tail_size b = tb_bytes b AND 3"
    "tb_tail_size b \<noteq> 0 \<longrightarrow> tb_tail_addr b \<noteq> 0 \<and> tb_tail_addr b AND 3 = 0"
    "(tb_bytes b - tb_tail_size b \<noteq> 0) = (tb_dma_nents b \<noteq> 0)"
    "tb_bytes b - tb_tail_size b \<noteq> 0 \<longrightarrow> tb_sgl b \<noteq> []"
    "preflight_loop (tb_bytes b - tb_tail_size b) (unat (tb_dma_nents b)) 0 (tb_sgl b) 0 0 = Inr (av, m)"
    "\<not> av < ucast (tb_bytes b - tb_tail_size b)" "tb_bytes b - tb_tail_size b \<noteq> 0 \<longrightarrow> m \<noteq> 0"
    "m + bool_u32 (tb_tail_size b \<noteq> 0) \<le> lim"
proof -
  have e: "preflight_loop r n i sgs a m \<noteq> Inl BC_STS_SUCCESS" for r n i sgs a m
    by (induction r n i sgs a m rule: preflight_loop.induct) (auto simp: Let_def split: if_splits)
  obtain av m where "preflight_loop (tb_bytes b - tb_tail_size b) (unat (tb_dma_nents b)) 0 (tb_sgl b) 0 0 = Inr (av, m)"
    using assms e by (auto simp: crystalhd_tx_buffer_preflight_def Let_def split: if_splits sum.splits)
  then show ?thesis
    using assms by (intro that [of av m])
      (auto simp: crystalhd_tx_buffer_preflight_def Let_def not_less split: if_splits)
qed

lemma unat_and3: "unat (x AND 3) = unat x mod 4" for x :: u32
proof -
  have "x AND 3 = take_bit 2 x" by (simp add: take_bit_eq_mask mask_eq_decr_exp)
  then show ?thesis by (simp add: take_bit_eq_mod unat_mod)
qed

lemma and3_le: "x AND 3 \<le> x" for x :: u32
  by (simp add: word_le_nat_alt unat_and3)

lemma preflight_complete:
  assumes ok: "crystalhd_tx_buffer_preflight (Some b) (dm_sz m div word_of_nat DESC_SIZE) = BC_STS_SUCCESS"
    and m: "dm_start m = Some ds" "unat (dm_sz m) div DESC_SIZE \<le> length ds" "dm_phy_addr m \<noteq> 0"
  shows "\<exists>m'. crystalhd_xlat_tx_buffer_to_dma_desc (Some b) (Some m) dest =
    Some (BC_STS_SUCCESS, Some 0, Some m')"
proof -
  from ok obtain av mp where P: "tb_bytes b \<noteq> 0" "tb_tail_size b \<le> 3" "tb_tail_size b = tb_bytes b AND 3"
    "tb_tail_size b \<noteq> 0 \<longrightarrow> tb_tail_addr b \<noteq> 0 \<and> tb_tail_addr b AND 3 = 0"
    "(tb_bytes b - tb_tail_size b \<noteq> 0) = (tb_dma_nents b \<noteq> 0)"
    "tb_bytes b - tb_tail_size b \<noteq> 0 \<longrightarrow> tb_sgl b \<noteq> []" and
    pl: "preflight_loop (tb_bytes b - tb_tail_size b) (unat (tb_dma_nents b)) 0 (tb_sgl b) 0 0 = Inr (av, mp)" and
    Q: "\<not> av < ucast (tb_bytes b - tb_tail_size b)" "tb_bytes b - tb_tail_size b \<noteq> 0 \<longrightarrow> mp \<noteq> 0"
    "mp + bool_u32 (tb_tail_size b \<noteq> 0) \<le> dm_sz m div word_of_nat DESC_SIZE"
    by (rule preflight_successE)
  let ?r = "tb_bytes b - tb_tail_size b" and ?fs = "tb_tail_size b"
  let ?src = "\<lparr>ds_sgl = tb_sgl b, ds_dma_nents = tb_dma_nents b, ds_dir_tx = True,
                ds_fill_addr = tb_tail_addr b, ds_fill_size = ?fs\<rparr>"
  have fs: "?fs \<le> tb_bytes b" using P(3) and3_le by simp
  obtain st where st: "scan_sgs 0 0 0 (ucast ?r) (unat (tb_dma_nents b)) 0 (tb_sgl b) scan_init = Inr st"
    "sc_available st = av" "sc_mapped st = mp"
    using preflight_scan [of ?r "unat (tb_dma_nents b)" 0 "tb_sgl b" scan_init av mp 0 0] pl
    by (auto simp: scan_init_def)
  have r0: "?r = 0 \<Longrightarrow> mp = 0" using P(5) st(1,3) by (auto simp: scan_init_def)
  have r64: "(ucast ?r :: u64) \<noteq> 0 \<longrightarrow> mp \<noteq> 0" using Q(2) by auto
  have pos: "mp \<noteq> 0 \<or> ?fs \<noteq> 0" using Q(2) P(1) by auto
  have bad2: "\<not> xlat_bad_scan (ucast (tb_bytes b - ds_fill_size ?src)) 0 st"
    using st(2,3) Q(1) r64 by (auto simp: xlat_bad_scan_def)
  have sc: "scan_sgs 0 0 0 (ucast (tb_bytes b - ds_fill_size ?src)) (unat (ds_dma_nents ?src)) 0
      (ds_sgl ?src) scan_init = Inr st" using st(1) by simp
  let ?n = "unat (tb_dma_nents b)"
  have M: "\<exists>k < ?n. unat mp = Suc k \<and> (\<forall>j. 0 < j \<and> j \<le> k \<longrightarrow>
      length (sg_bytes (take j (tb_sgl b))) < unat ?r) \<and>
      unat ?r \<le> length (sg_bytes (take (Suc k) (tb_sgl b)))" if "mp \<noteq> 0"
    using scan_mapped [OF st(1) fits_init] that st(3) by (simp add: scan_init_def)
  have E: "?n \<le> length (tb_sgl b)" "\<And>j. j \<le> ?n \<Longrightarrow> 4 * j \<le> length (sg_bytes (take j (tb_sgl b)))"
    using scan_entries [OF st(1)] by simp_all
  have small: "unat mp \<le> 2 ^ 30 + 1"
  proof (cases "mp = 0")
    case False
    then obtain k where k: "k < ?n" "unat mp = Suc k" "0 < k \<Longrightarrow> length (sg_bytes (take k (tb_sgl b))) < unat ?r"
      using M by auto
    then have "4 * k < 2 ^ 32" using E(2) [of k] unat_u32_less [of ?r] by (cases "k = 0") simp_all
    then show ?thesis using k(2) by simp
  qed simp
  have cnt: "unat (mp + bool_u32 (?fs \<noteq> 0)) = unat mp + (if ?fs = 0 then 0 else 1)"
    using small by (simp add: bool_u32_def unat_word_ariths)
  have lim: "unat mp + (if ?fs = 0 then 0 else 1) \<le> unat (dm_sz m) div DESC_SIZE"
    using Q(3) cnt by (simp add: word_le_nat_alt unat_div)
  have "dm_sz m \<noteq> 0" using lim pos by (auto simp: unat_eq_0 split: if_splits)
  then have bad: "\<not> xlat_bad_args ?src (tb_bytes b) 0 0 0 m"
    using P fs by (auto simp: xlat_bad_args_def not_less)
  have room: "0 + 0 + unat mp \<le> length ds" "unat mp + (if ?fs = 0 then 0 else 1) \<le> length ds"
    using lim m(2) by (auto split: if_splits)
  have mn: "unat mp \<le> ?n" using M by (cases "mp = 0") auto
  have "\<exists>cur ds1. fill_loop True 0 dest ?r 0 (unat mp) 0 (tb_sgl b) 0 dest (dm_phy_addr m) ds =
      Some (BC_STS_SUCCESS, 0 + unat mp, ?r, cur, ds1)"
  proof (rule fill_loop_complete [OF room(1)])
    show "unat mp \<le> length (tb_sgl b)" using mn E(1) by simp
    show "unat ?r \<le> unat (0::u32) + length (sg_bytes (take (unat mp) (tb_sgl b)))"
      using M Q(2) by (cases "mp = 0") auto
    show "0 \<le> ?r" by simp
    fix j assume j: "j < unat mp"
    then have mp: "mp \<noteq> 0" by auto
    then have "?r \<noteq> 0" using r0 by blast
    then have "0 < unat ?r" by (simp add: unat_gt_0)
    then have lt: "length (sg_bytes (take j (tb_sgl b))) < unat ?r"
      using M [OF mp] j by (cases "j = 0") auto
    have "unat (0::u64) = 0" "0 + ?n * 2 ^ 32 < (2 ^ 64 :: nat)" "j < ?n"
      using unat_u32_less [of "tb_dma_nents b"] j mn by simp_all
    from preflight_pieces [OF pl this] lt
    show "snd (tb_sgl b ! j) \<noteq> 0 \<and> \<not> unaligned (fst (tb_sgl b ! j)) (snd (tb_sgl b ! j)) \<and>
      unat (0::u32) + length (sg_bytes (take j (tb_sgl b))) < unat ?r \<and>
      min (unat (snd (tb_sgl b ! j))) (unat ?r - (unat (0::u32) + length (sg_bytes (take j (tb_sgl b))))) \<le> 33554428"
      by simp
  qed
  then obtain cur ds1 where fl: "fill_loop True 0 dest ?r 0 (unat mp) 0 (tb_sgl b) 0 dest (dm_phy_addr m) ds =
      Some (BC_STS_SUCCESS, unat mp, ?r, cur, ds1)" by auto
  have l1: "length ds1 = length ds"
    using fill_loop_in_bounds [OF room(1), of True dest ?r 0 "tb_sgl b" 0 dest "dm_phy_addr m"] fl by simp
  have "\<exists>ds'. crystalhd_hw_fill_desc ?src 0 (dm_phy_addr m) mp 0 0 (tb_bytes b) dest ds = Some (BC_STS_SUCCESS, ds')"
  proof (rule fill_desc_complete)
    show "fill_loop (ds_dir_tx ?src) 0 dest (tb_bytes b - ds_fill_size ?src) 0 (unat mp) 0
      (drop (unat (0::u32)) (ds_sgl ?src)) 0 dest (dm_phy_addr m) ds =
      Some (BC_STS_SUCCESS, unat mp, tb_bytes b - ds_fill_size ?src, cur, ds1)" using fl by simp
  qed (use m(3) P fs Q(2) r0 pos mn l1 room(2) in \<open>auto simp: not_less word_le_nat_alt\<close>)
  then show ?thesis
    using ok bad bad2 sc m(1) Q(3) st(3)
    by (auto simp: crystalhd_xlat_tx_buffer_to_dma_desc_def xlat_stages xlat_desc_count_def xlat_fill_def not_less)
qed

section \<open>Properties\<close>

text \<open>
  C8: A translated TX buffer is transferred exactly. When the translation succeeds, the descriptor
  memory starts with one linked chain (each descriptor points at the next, only the last carries
  the last-record and interrupt bits and a null link), every descriptor is marked host-to-device,
  and the bus addresses it transfers are, in order, the first bytes of the scatter list followed by
  the tail bytes from the coherent word, as many as the buffer has. Descriptors behind the chain
  are untouched.
\<close>

theorem tx_descriptors_exact:
  assumes "crystalhd_xlat_tx_buffer_to_dma_desc (Some b) (Some m) dest = Some (BC_STS_SUCCESS, uv, Some m')"
    "dm_start m = Some ds"
  shows "\<exists>cs. m' = m\<lparr>dm_start := Some (cs @ drop (length cs) ds)\<rparr> \<and> length cs \<le> length ds \<and>
    chain_linked (dm_phy_addr m) cs \<and> (\<forall>c \<in> set cs. d_dma_dir c) \<and>
    concat (map desc_bytes cs) =
      take (unat (tb_bytes b) - unat (tb_tail_size b)) (sg_bytes (tb_sgl b)) @
      span (tb_tail_addr b) (unat (tb_tail_size b)) \<and>
    length (concat (map desc_bytes cs)) = unat (tb_bytes b)"
proof -
  let ?src = "\<lparr>ds_sgl = tb_sgl b, ds_dma_nents = tb_dma_nents b, ds_dir_tx = True,
                ds_fill_addr = tb_tail_addr b, ds_fill_size = tb_tail_size b\<rparr>"
  have "crystalhd_xlat_dma_to_desc ?src (tb_bytes b) 0 0 0 m dest = Some (BC_STS_SUCCESS, uv, m')"
    using assms(1) by (auto simp: crystalhd_xlat_tx_buffer_to_dma_desc_def Let_def split: if_splits)
  from xlat_plain [OF this assms(2)] show ?thesis by simp
qed

definition wit_tx :: crystalhd_tx_buffer where
  "wit_tx = \<lparr>tb_sgl = [(0x1000, 8), (0x3000, 4)], tb_dma_nents = 2, tb_bytes = 11,
     tb_tail_addr = 0x5000, tb_tail_size = 3, tb_has_cookie = True\<rparr>"

definition wit_mem :: dma_desc_mem where
  "wit_mem = \<lparr>dm_start = Some (replicate 4 zero_desc), dm_sz = 128, dm_phy_addr = 0x8000\<rparr>"

theorem tx_descriptors_exact_witness:
  "\<exists>uv m' cs. crystalhd_xlat_tx_buffer_to_dma_desc (Some wit_tx) (Some wit_mem) 0 =
      Some (BC_STS_SUCCESS, uv, Some m') \<and> chain_linked 0x8000 cs \<and>
      dm_start m' = Some (cs @ drop (length cs) (replicate 4 zero_desc)) \<and>
      concat (map desc_bytes cs) = span 0x1000 8 @ span 0x5000 3"
proof -
  have "do { (sts, uv, m) \<leftarrow> crystalhd_xlat_tx_buffer_to_dma_desc (Some wit_tx) (Some wit_mem) 0;
      m' \<leftarrow> m; Some sts } = Some BC_STS_SUCCESS" by code_simp
  then obtain uv m' where x: "crystalhd_xlat_tx_buffer_to_dma_desc (Some wit_tx) (Some wit_mem) 0 =
      Some (BC_STS_SUCCESS, uv, Some m')" by (auto simp: bind_eq_Some_conv)
  have s: "dm_start wit_mem = Some (replicate 4 zero_desc)" by (simp add: wit_mem_def)
  have b: "take (unat (tb_bytes wit_tx) - unat (tb_tail_size wit_tx)) (sg_bytes (tb_sgl wit_tx)) = span 0x1000 8"
    "span (tb_tail_addr wit_tx) (unat (tb_tail_size wit_tx)) = span 0x5000 3"
    "dm_phy_addr wit_mem = 0x8000"
    by (simp_all add: wit_tx_def wit_mem_def)
  from tx_descriptors_exact [OF x s] obtain cs where
    "m' = wit_mem\<lparr>dm_start := Some (cs @ drop (length cs) (replicate 4 zero_desc))\<rparr>"
    "chain_linked 0x8000 cs" "concat (map desc_bytes cs) = span 0x1000 8 @ span 0x5000 3"
    unfolding b by blast
  with x show ?thesis by auto
qed

text \<open>
  C10: A translated planar RX buffer is split exactly at the chroma offset. When the translation
  succeeds, the descriptor memory starts with two linked chains, the second right behind the first
  and found at the reported index; the first receives exactly the bytes of the buffer before the
  chroma offset, the second exactly those from it up to the capacity, all device-to-host, even when
  the offset falls inside a mapped segment.
\<close>

theorem rx_descriptors_planes:
  assumes "crystalhd_xlat_rx_buffer_to_dma_desc (Some b) m = Some (BC_STS_SUCCESS, uv, m')"
    "dm_start m = Some ds" "rb_uv_offset b \<noteq> 0"
  shows "\<exists>ys us. m' = m\<lparr>dm_start := Some (ys @ us @ drop (length ys + length us) ds)\<rparr> \<and>
    uv = Some (word_of_nat (length ys)) \<and> length ys + length us \<le> length ds \<and>
    chain_linked (dm_phy_addr m) ys \<and>
    chain_linked (dm_phy_addr m + word_of_nat (DESC_SIZE * length ys)) us \<and>
    (\<forall>c \<in> set ys \<union> set us. \<not> d_dma_dir c) \<and>
    concat (map desc_bytes ys) = take (unat (rb_uv_offset b)) (sg_bytes (rb_sgl b)) \<and>
    concat (map desc_bytes us) =
      take (unat (rb_capacity b) - unat (rb_uv_offset b)) (drop (unat (rb_uv_offset b)) (sg_bytes (rb_sgl b))) \<and>
    length (concat (map desc_bytes ys)) = unat (rb_uv_offset b) \<and>
    length (concat (map desc_bytes us)) = unat (rb_capacity b) - unat (rb_uv_offset b)"
proof -
  let ?src = "\<lparr>ds_sgl = rb_sgl b, ds_dma_nents = rb_dma_nents b, ds_dir_tx = False,
                ds_fill_addr = 0, ds_fill_size = 0\<rparr>"
  have "crystalhd_xlat_dma_to_desc ?src (rb_capacity b) (rb_uv_offset b) (rb_uv_sg_ix b)
      (rb_uv_sg_off b) m 0 = Some (BC_STS_SUCCESS, uv, m')"
    using assms(1) by (simp add: crystalhd_xlat_rx_buffer_to_dma_desc_def)
  from xlat_planes [OF this assms(2,3)] show ?thesis by simp
qed

definition wit_rx :: crystalhd_rx_buffer where
  "wit_rx = \<lparr>rb_sgl = [(0x1000, 8), (0x3000, 8)], rb_dma_nents = 2, rb_capacity = 12,
     rb_uv_offset = 4, rb_uv_sg_ix = 0, rb_uv_sg_off = 4\<rparr>"

theorem rx_descriptors_planes_witness:
  "\<exists>uv m' ys us. crystalhd_xlat_rx_buffer_to_dma_desc (Some wit_rx) wit_mem = Some (BC_STS_SUCCESS, uv, m') \<and>
     uv = Some (word_of_nat (length ys)) \<and> chain_linked 0x8000 ys \<and>
     concat (map desc_bytes ys) = span 0x1000 4 \<and> length (concat (map desc_bytes us)) = 8"
proof -
  have "do { (sts, uv, m) \<leftarrow> crystalhd_xlat_rx_buffer_to_dma_desc (Some wit_rx) wit_mem; Some sts }
      = Some BC_STS_SUCCESS" by code_simp
  then obtain uv m' where x: "crystalhd_xlat_rx_buffer_to_dma_desc (Some wit_rx) wit_mem =
      Some (BC_STS_SUCCESS, uv, m')" by (auto simp: bind_eq_Some_conv)
  have s: "dm_start wit_mem = Some (replicate 4 zero_desc)" "rb_uv_offset wit_rx \<noteq> 0"
    by (simp_all add: wit_mem_def wit_rx_def)
  have b: "take (unat (rb_uv_offset wit_rx)) (sg_bytes (rb_sgl wit_rx)) = span 0x1000 4"
    "unat (rb_capacity wit_rx) - unat (rb_uv_offset wit_rx) = 8" "dm_phy_addr wit_mem = 0x8000"
    by (simp_all add: wit_rx_def wit_mem_def span_take)
  from rx_descriptors_planes [OF x s] x show ?thesis unfolding b by blast
qed

text \<open>
  C13: Building descriptors never leaves the descriptor memory. Whatever the buffer, its scatter
  list, offsets and sizes are, if the descriptor memory holds at least as many cells as its size
  field says, both translations return a status without touching a cell outside it.
\<close>

theorem xlat_stays_in_memory:
  assumes "\<And>ds. dm_start m = Some ds \<Longrightarrow> unat (dm_sz m) div DESC_SIZE \<le> length ds"
  shows "(\<exists>r. crystalhd_xlat_tx_buffer_to_dma_desc tb (Some m) dest = Some r) \<and>
    (\<exists>r. crystalhd_xlat_rx_buffer_to_dma_desc rb m = Some r)"
proof -
  note X = xlat_in_bounds [OF assms]
  have "\<exists>r. crystalhd_xlat_tx_buffer_to_dma_desc (Some b) (Some m) dest = Some r" for b
    using X [of "\<lparr>ds_sgl = tb_sgl b, ds_dma_nents = tb_dma_nents b, ds_dir_tx = True,
      ds_fill_addr = tb_tail_addr b, ds_fill_size = tb_tail_size b\<rparr>" "tb_bytes b" 0 0 0 dest]
    by (auto simp: crystalhd_xlat_tx_buffer_to_dma_desc_def Let_def)
  then have "\<exists>r. crystalhd_xlat_tx_buffer_to_dma_desc tb (Some m) dest = Some r"
    by (cases tb) (auto simp: crystalhd_xlat_tx_buffer_to_dma_desc_def Let_def)
  moreover have "\<exists>r. crystalhd_xlat_rx_buffer_to_dma_desc rb m = Some r"
    using X by (cases rb) (auto simp: crystalhd_xlat_rx_buffer_to_dma_desc_def)
  ultimately show ?thesis by blast
qed

theorem xlat_stays_in_memory_witness:
  "\<exists>r. crystalhd_xlat_rx_buffer_to_dma_desc (Some wit_rx) (wit_mem\<lparr>dm_sz := 32\<rparr>) = Some r"
  using xlat_stays_in_memory [of "wit_mem\<lparr>dm_sz := 32\<rparr>" None 0 "Some wit_rx"]
  by (simp add: wit_mem_def)

text \<open>
  C15: The TX preflight is complete: a buffer it accepts for the size of the descriptor memory is
  always translated successfully, so that no accepted submission fails later while its descriptors
  are built.
\<close>

theorem tx_preflight_complete:
  assumes "crystalhd_tx_buffer_preflight (Some b) (dm_sz m div word_of_nat DESC_SIZE) = BC_STS_SUCCESS"
    "dm_start m = Some ds" "unat (dm_sz m) div DESC_SIZE \<le> length ds" "dm_phy_addr m \<noteq> 0"
  shows "\<exists>m'. crystalhd_xlat_tx_buffer_to_dma_desc (Some b) (Some m) dest =
    Some (BC_STS_SUCCESS, Some 0, Some m')"
  using preflight_complete [OF assms] .

theorem tx_preflight_complete_witness:
  "\<exists>m'. crystalhd_xlat_tx_buffer_to_dma_desc (Some wit_tx) (Some wit_mem) 7 =
    Some (BC_STS_SUCCESS, Some 0, Some m')"
proof (rule tx_preflight_complete [where ds = "replicate 4 zero_desc"])
  show "crystalhd_tx_buffer_preflight (Some wit_tx) (dm_sz wit_mem div word_of_nat 32) = BC_STS_SUCCESS"
    by code_simp
qed (simp_all add: wit_mem_def)

end
