(* ===== verification/H264_Stream.thy ===== *)
theory H264_Stream
  imports Dma_Desc
begin

text \<open>
  The H.264 input stream (\<^verbatim>\<open>driver/linux/crystalhd_stream.c\<close>): an access unit is cut into PES
  packets, each staged in one coherent DMA buffer and transmitted before the next is built; end
  of stream is a fixed sequence of four packets. Any transport failure, and a successful end of
  stream, closes the input until the channel is closed. A \<^verbatim>\<open>size_t\<close> is a natural number here,
  since every sum is bounded by the size of the access unit or of the stage.
\<close>

section \<open>Data\<close>

abbreviation (input) CRYSTALHD_H264_PES_MAX_LENGTH :: nat where
  "CRYSTALHD_H264_PES_MAX_LENGTH \<equiv> 0xfff0"
abbreviation (input) CRYSTALHD_H264_PES_HEADER :: nat where "CRYSTALHD_H264_PES_HEADER \<equiv> 9"
abbreviation (input) CRYSTALHD_H264_PTS_HEADER :: nat where "CRYSTALHD_H264_PTS_HEADER \<equiv> 14"
abbreviation (input) CRYSTALHD_H264_STAGE_BYTES :: nat where
  "CRYSTALHD_H264_STAGE_BYTES \<equiv> 0xfff8"
abbreviation (input) CRYSTALHD_H264_MARKER_BYTES :: nat where "CRYSTALHD_H264_MARKER_BYTES \<equiv> 184"

record crystalhd_stream =
  st_cpu :: "u8 list"
  st_dma :: u64
  st_buffer :: crystalhd_tx_buffer
  st_refs :: u32
  st_failed :: bool
  st_eos_submitted :: bool

text \<open>The parts of the adapter, the hardware context and the command context the stream reads.\<close>

record crystalhd_adp =
  adp_pdev_device :: "u16 option"
  adp_present :: bool
  adp_dma_terminal_quiesced :: bool

record hw_flags =
  hwf_dma_fault :: bool

datatype crystalhd_decoder_phase =
    CRYSTALHD_DECODER_COLD | CRYSTALHD_DECODER_BOOTSTRAPPED
  | CRYSTALHD_DECODER_CHANNEL_CONFIGURED | CRYSTALHD_DECODER_CHANNEL_STARTED
  | CRYSTALHD_DECODER_RECOVERY_REQUIRED

datatype crystalhd_decoder_codec = CRYSTALHD_DECODER_CODEC_INVALID | CRYSTALHD_DECODER_CODEC_H264

record crystalhd_cmd =
  cmd_state :: u32
  cmd_adp :: "crystalhd_adp option"
  cmd_session_owner :: "nat option"
  cmd_decoder_phase :: crystalhd_decoder_phase
  cmd_decoder_codec :: crystalhd_decoder_codec
  cmd_fw_sequence :: u32
  cmd_decoder_channel_id :: u32
  cmd_stream :: "crystalhd_stream option"
  cmd_hw_ctx :: "hw_flags option"

abbreviation (input) BC_LINK_INIT :: u32 where "BC_LINK_INIT \<equiv> 1"
abbreviation (input) BC_LINK_CAP_EN :: u32 where "BC_LINK_CAP_EN \<equiv> 2"
abbreviation (input) BC_LINK_FMT_CHG :: u32 where "BC_LINK_FMT_CHG \<equiv> 4"
abbreviation (input) BC_PCI_DEVID_FLEA :: u16 where "BC_PCI_DEVID_FLEA \<equiv> 0x1615"

section \<open>Packets\<close>

definition pes_header :: "bool \<Rightarrow> u64 \<Rightarrow> nat \<Rightarrow> u8 list" where
  "pes_header pts_valid pts payload_bytes =
    (let packet_length = (word_of_nat (payload_bytes + (if pts_valid then 8 else 3)) :: u32);
         raw_pts = pts AND mask 33
     in [0x00, 0x00, 0x01, 0xe0, ucast (drop_bit 8 packet_length), ucast packet_length, 0x81,
         if pts_valid then 0x80 else 0x00, if pts_valid then 0x05 else 0x00] @
        (if pts_valid then
           [ucast (0x21 OR push_bit 1 (drop_bit 30 raw_pts AND 0x07)),
            ucast (drop_bit 22 raw_pts),
            ucast (0x01 OR push_bit 1 (drop_bit 15 raw_pts AND 0x7f)),
            ucast (drop_bit 7 raw_pts),
            ucast (0x01 OR push_bit 1 (raw_pts AND 0x7f))]
         else []))"

text \<open>Result: error, or bytes consumed, bytes on the wire and the destination.\<close>

definition crystalhd_h264_format_pes ::
  "u8 list option \<Rightarrow> nat \<Rightarrow> u8 list option \<Rightarrow> nat \<Rightarrow> bool \<Rightarrow> u64
    \<Rightarrow> (errno + nat \<times> nat \<times> u8 list) option" where
  "crystalhd_h264_format_pes dst capacity src source_bytes pts_valid pts =
    (let header_bytes = (if pts_valid then CRYSTALHD_H264_PTS_HEADER else CRYSTALHD_H264_PES_HEADER);
         payload_limit = CRYSTALHD_H264_PES_MAX_LENGTH - (if pts_valid then 8 else 3)
     in case (dst, src) of
          (Some d, Some s) \<Rightarrow>
            if source_bytes = 0 then Some (Inl EINVAL)
            else
              let payload_bytes = min source_bytes payload_limit;
                  packet_bytes = header_bytes + payload_bytes
              in if capacity < packet_bytes then Some (Inl ENOSPC)
                 else do {
                   d1 \<leftarrow> mem_write d 0 (pes_header pts_valid pts payload_bytes);
                   bs \<leftarrow> mem_read s 0 payload_bytes;
                   d2 \<leftarrow> mem_write d1 header_bytes bs;
                   Some (Inr (payload_bytes, packet_bytes, d2)) }
        | _ \<Rightarrow> Some (Inl EINVAL))"

definition eos_packet :: "u8 list" where
  "eos_packet = [0x00, 0x00, 0x01, 0xe0, 0x00, 0x0b, 0x81, 0x00, 0x00,
                 0x00, 0x00, 0x01, 0x0a, 0x00, 0x00, 0x01, 0x0a]"

text \<open>The stores into the cleared 184-byte marker, in order; \<open>body\<close> starts at byte 29.\<close>

definition eos_marker :: "u8 list" where
  "eos_marker = (let body = 29 in
     fold (\<lambda>(i, v) m. m[i := v])
       ([(2, 0x01), (3, 0xe0), (4, 0x00), (5, 0xb2), (6, 0x81), (7, 0x01), (8, 0x14), (9, 0x80),
         (10, 0x42), (11, 0x52), (12, 0x43), (13, 0x4d), (26, 0xff), (27, 0xff), (28, 0xff),
         (body + 4, 0x0c), (body + 13, 0xff), (body + 14, 0xff), (body + 16, 0x01)] @
        map (\<lambda>i. (body + 17 + i, 0xff)) [0..<12] @ [(body + 36, 0xbc)] @
        map (\<lambda>i. (body + 37 + i, 0xff)) [0..<118])
       (replicate CRYSTALHD_H264_MARKER_BYTES 0))"

definition crystalhd_h264_format_eos ::
  "u8 list option \<Rightarrow> nat \<Rightarrow> nat \<Rightarrow> (errno + nat \<times> u8 list) option" where
  "crystalhd_h264_format_eos dst capacity packet_index =
    (case dst of None \<Rightarrow> Some (Inl EINVAL)
     | Some d \<Rightarrow>
       if packet_index \<ge> 4 then Some (Inl EINVAL)
       else
         let packet = (if packet_index \<noteq> 1 then eos_packet else eos_marker)
         in if capacity < length packet then Some (Inl ENOSPC)
            else do { d1 \<leftarrow> mem_write d 0 packet; Some (Inr (length packet, d1)) })"

section \<open>Lifetime of the stage\<close>

definition crystalhd_stream_get :: "crystalhd_stream \<Rightarrow> crystalhd_stream" where
  "crystalhd_stream_get s = s\<lparr>st_refs := refcount_inc (st_refs s)\<rparr>"

text \<open>\<^const>\<open>None\<close>: the coherent memory and the stream are freed.\<close>

definition crystalhd_stream_put :: "crystalhd_stream \<Rightarrow> crystalhd_stream option" where
  "crystalhd_stream_put s = (let (zero, r) = refcount_dec_and_test (st_refs s)
     in if zero then None else Some (s\<lparr>st_refs := r\<rparr>))"

text \<open>\<open>kz\<close>: the small allocation succeeds; \<open>coh\<close>: memory and bus address of the coherent buffer.\<close>

definition crystalhd_stream_prepare ::
  "bool \<Rightarrow> (u8 list \<times> u64) option \<Rightarrow> crystalhd_cmd option \<Rightarrow> rc \<times> crystalhd_cmd option" where
  "crystalhd_stream_prepare kz coh ctx =
    (case ctx of None \<Rightarrow> (Some ENODEV, ctx)
     | Some c \<Rightarrow>
       if cmd_adp c = None \<or> Option.bind (cmd_adp c) adp_pdev_device = None then (Some ENODEV, ctx)
       else if cmd_stream c \<noteq> None then (rc_ok, ctx)
       else if \<not> kz then (Some ENOMEM, ctx)
       else (case coh of None \<Rightarrow> (Some ENOMEM, ctx)
         | Some (cpu, dma) \<Rightarrow>
           (rc_ok, Some (c\<lparr>cmd_stream := Some
              \<lparr>st_cpu = cpu, st_dma = dma,
               st_buffer = \<lparr>tb_sgl = [(0, 0)], tb_dma_nents = 1, tb_bytes = 0, tb_tail_addr = 0,
                            tb_tail_size = 0, tb_has_cookie = True\<rparr>,
               st_refs = 1, st_failed = False, st_eos_submitted = False\<rparr>\<rparr>))))"

text \<open>Result: the context and, when the last reference was not the context's, the stream left.\<close>

definition crystalhd_stream_release ::
  "crystalhd_cmd option \<Rightarrow> crystalhd_cmd option \<times> crystalhd_stream option" where
  "crystalhd_stream_release ctx =
    (case ctx of None \<Rightarrow> (ctx, None)
     | Some c \<Rightarrow> (case cmd_stream c of None \<Rightarrow> (ctx, None)
       | Some s \<Rightarrow>
         if (case (cmd_hw_ctx c, cmd_adp c) of
               (Some hw, Some adp) \<Rightarrow> (hwf_dma_fault hw \<or> \<not> adp_present adp) \<and>
                                      \<not> adp_dma_terminal_quiesced adp
             | _ \<Rightarrow> False)
         then (ctx, None)
         else (Some (c\<lparr>cmd_stream := None\<rparr>), crystalhd_stream_put s)))"

section \<open>Submission\<close>

definition crystalhd_decoder_validate_h264_locked :: "crystalhd_cmd option \<Rightarrow> nat option \<Rightarrow> rc" where
  "crystalhd_decoder_validate_h264_locked ctx owner =
    (let allowed_state = BC_LINK_INIT OR BC_LINK_CAP_EN OR BC_LINK_FMT_CHG
     in case ctx of None \<Rightarrow> Some EINVAL
     | Some c \<Rightarrow>
       if owner = None then Some EINVAL
       else (case (cmd_adp c, Option.bind (cmd_adp c) adp_pdev_device, cmd_hw_ctx c) of
           (Some adp, Some device, Some hw) \<Rightarrow>
             if \<not> adp_present adp then Some ENODEV
             else if hwf_dma_fault hw then Some EIO
             else if cmd_session_owner c = None then Some EINVAL
             else if cmd_session_owner c \<noteq> owner then Some EBUSY
             else if device \<noteq> BC_PCI_DEVID_FLEA then Some EOPNOTSUPP
             else if cmd_state c AND BC_LINK_INIT = 0 \<or> cmd_state c AND NOT allowed_state \<noteq> 0 \<or>
                     cmd_decoder_phase c \<noteq> CRYSTALHD_DECODER_CHANNEL_STARTED \<or>
                     cmd_decoder_codec c \<noteq> CRYSTALHD_DECODER_CODEC_H264 \<or>
                     cmd_fw_sequence c = 0 \<or> cmd_decoder_channel_id c \<noteq> 0 \<or> cmd_stream c = None
             then Some EBUSY
             else (case cmd_stream c of
                 Some s \<Rightarrow> if st_failed s \<or> st_eos_submitted s then Some EPIPE else rc_ok
               | None \<Rightarrow> rc_ok)
         | _ \<Rightarrow> Some ENODEV))"

text \<open>
  Staging and sending one packet: \<open>sts\<close> is the outcome of the transfer. The state after the call
  has the buffer and the stage as the device sees them during the transfer.
\<close>

definition crystalhd_h264_send_staged ::
  "crystalhd_stream \<Rightarrow> nat \<Rightarrow> bc_status \<Rightarrow> (rc \<times> crystalhd_stream) option" where
  "crystalhd_h264_send_staged s wire_bytes sts =
    (let wire = (word_of_nat wire_bytes :: u64);
         aligned_bytes = wire AND ucast (NOT 3 :: u32)
     in do {
       cpu \<leftarrow> mem_write (st_cpu s) wire_bytes
               (replicate (4 * ((wire_bytes + 3) div 4) - wire_bytes) 0);
       let s1 = s\<lparr>st_cpu := cpu,
                 st_buffer := (st_buffer s)\<lparr>tb_bytes := ucast wire,
                   tb_tail_addr := st_dma s + aligned_bytes, tb_tail_size := ucast (wire AND 3),
                   tb_sgl := [(st_dma s, ucast aligned_bytes)]\<rparr>\<rparr>;
       Some (crystalhd_status_to_errno sts,
             if sts \<noteq> BC_STS_SUCCESS then s1\<lparr>st_failed := True\<rparr> else s1) })"

text \<open>
  The kernel's conversion of milliseconds and its tick counter are arguments.
\<close>

abbreviation (input) MAX_JIFFY_OFFSET :: u64 where "MAX_JIFFY_OFFSET \<equiv> 0x3FFFFFFFFFFFFFFE"

definition crystalhd_tx_deadline_from_ms :: "(u32 \<Rightarrow> u64) \<Rightarrow> u64 \<Rightarrow> u32 \<Rightarrow> bc_status + u64" where
  "crystalhd_tx_deadline_from_ms msecs_to_jiffies jiffies total_timeout_ms =
    (if total_timeout_ms = 0 \<or> total_timeout_ms > 0x7FFFFFFF then Inl BC_STS_INV_ARG
     else
       let timeout_jiffies = msecs_to_jiffies total_timeout_ms
       in if timeout_jiffies = MAX_JIFFY_OFFSET then Inl BC_STS_INV_ARG
          else Inr (jiffies + timeout_jiffies))"

lemma format_pes_progress:
  assumes "crystalhd_h264_format_pes dst cap src n v pts = Some (Inr (consumed, wire, d))"
  shows "0 < consumed" "consumed \<le> n"
  using assms
  by (auto simp: crystalhd_h264_format_pes_def Let_def bind_eq_Some_conv split: option.splits if_splits)

text \<open>
  The loop over an access unit of \<open>bytes\<close> bytes. \<open>xfer k deadline\<close> is the outcome of the \<open>k\<close>-th
  transfer of this call. Result: return code, stream, and the stream as it was at each transfer.
\<close>

function submit_h264_loop ::
  "(nat \<Rightarrow> u64 \<Rightarrow> bc_status) \<Rightarrow> u64 \<Rightarrow> u8 list \<Rightarrow> nat \<Rightarrow> bool \<Rightarrow> u64 \<Rightarrow> crystalhd_stream \<Rightarrow> nat
    \<Rightarrow> crystalhd_stream list \<Rightarrow> (rc \<times> crystalhd_stream \<times> crystalhd_stream list) option" where
  "submit_h264_loop xfer deadline annexb bytes pts_valid pts s offset sent =
    (if offset < bytes then
       (case crystalhd_h264_format_pes (Some (st_cpu s)) CRYSTALHD_H264_STAGE_BYTES
               (Some (drop offset annexb)) (bytes - offset) (pts_valid \<and> offset = 0) pts of
          None \<Rightarrow> None
        | Some (Inl e) \<Rightarrow> Some (Some e, s, sent)
        | Some (Inr (consumed, wire_bytes, cpu)) \<Rightarrow>
          (case crystalhd_h264_send_staged (s\<lparr>st_cpu := cpu\<rparr>) wire_bytes (xfer (length sent) deadline) of
             None \<Rightarrow> None
           | Some (rc, s1) \<Rightarrow>
             if rc \<noteq> rc_ok then Some (rc, s1, sent @ [s1])
             else submit_h264_loop xfer deadline annexb bytes pts_valid pts s1 (offset + consumed)
                    (sent @ [s1])))
     else Some (rc_ok, s, sent))"
  by pat_completeness auto
termination
  by (relation "measure (\<lambda>(xfer, deadline, annexb, bytes, v, pts, s, offset, sent). bytes - offset)")
     (auto dest!: format_pes_progress(1))

declare submit_h264_loop.simps [simp del]

definition crystalhd_decoder_submit_h264 ::
  "(u32 \<Rightarrow> u64) \<Rightarrow> u64 \<Rightarrow> (nat \<Rightarrow> u64 \<Rightarrow> bc_status) \<Rightarrow> crystalhd_cmd option \<Rightarrow> nat option
    \<Rightarrow> u8 list option \<Rightarrow> nat \<Rightarrow> bool \<Rightarrow> u64 \<Rightarrow> u32
    \<Rightarrow> (rc \<times> crystalhd_cmd option \<times> crystalhd_stream list) option" where
  "crystalhd_decoder_submit_h264 msecs_to_jiffies jiffies xfer ctx owner annexb bytes pts_valid pts
       total_timeout_ms =
    (case annexb of None \<Rightarrow> Some (Some EINVAL, ctx, [])
     | Some au \<Rightarrow>
       if bytes = 0 then Some (Some EINVAL, ctx, [])
       else (case crystalhd_decoder_validate_h264_locked ctx owner of
           Some e \<Rightarrow> Some (Some e, ctx, [])
         | None \<Rightarrow> (case crystalhd_tx_deadline_from_ms msecs_to_jiffies jiffies total_timeout_ms of
             Inl sts \<Rightarrow> Some (crystalhd_status_to_errno sts, ctx, [])
           | Inr deadline \<Rightarrow> do {
               c \<leftarrow> ctx;
               s \<leftarrow> cmd_stream c;
               (rc, s', sent) \<leftarrow> submit_h264_loop xfer deadline au bytes pts_valid pts s 0 [];
               Some (rc, Some (c\<lparr>cmd_stream := Some s'\<rparr>), sent) })))"

fun submit_eos_loop ::
  "(nat \<Rightarrow> u64 \<Rightarrow> bc_status) \<Rightarrow> u64 \<Rightarrow> crystalhd_stream \<Rightarrow> nat list \<Rightarrow> crystalhd_stream list
    \<Rightarrow> (rc \<times> crystalhd_stream \<times> crystalhd_stream list) option" where
  "submit_eos_loop xfer deadline s [] sent = Some (rc_ok, s, sent)"
| "submit_eos_loop xfer deadline s (i # is) sent =
    (case crystalhd_h264_format_eos (Some (st_cpu s)) CRYSTALHD_H264_STAGE_BYTES i of
       None \<Rightarrow> None
     | Some (Inl e) \<Rightarrow> Some (Some e, s, sent)
     | Some (Inr (wire_bytes, cpu)) \<Rightarrow>
       (case crystalhd_h264_send_staged (s\<lparr>st_cpu := cpu\<rparr>) wire_bytes (xfer (length sent) deadline) of
          None \<Rightarrow> None
        | Some (rc, s1) \<Rightarrow>
          if rc \<noteq> rc_ok then Some (rc, s1, sent @ [s1])
          else submit_eos_loop xfer deadline s1 is (sent @ [s1])))"

definition crystalhd_decoder_submit_h264_eos ::
  "(u32 \<Rightarrow> u64) \<Rightarrow> u64 \<Rightarrow> (nat \<Rightarrow> u64 \<Rightarrow> bc_status) \<Rightarrow> crystalhd_cmd option \<Rightarrow> nat option \<Rightarrow> u32
    \<Rightarrow> (rc \<times> crystalhd_cmd option \<times> crystalhd_stream list) option" where
  "crystalhd_decoder_submit_h264_eos msecs_to_jiffies jiffies xfer ctx owner total_timeout_ms =
    (case crystalhd_decoder_validate_h264_locked ctx owner of
       Some e \<Rightarrow> Some (Some e, ctx, [])
     | None \<Rightarrow> (case crystalhd_tx_deadline_from_ms msecs_to_jiffies jiffies total_timeout_ms of
         Inl sts \<Rightarrow> Some (crystalhd_status_to_errno sts, ctx, [])
       | Inr deadline \<Rightarrow> do {
           c \<leftarrow> ctx;
           s \<leftarrow> cmd_stream c;
           (rc, s', sent) \<leftarrow> submit_eos_loop xfer deadline s [0..<4] [];
           Some (rc, Some (c\<lparr>cmd_stream := Some
             (if rc = rc_ok then s'\<lparr>st_eos_submitted := True\<rparr> else s')\<rparr>), sent) }))"

section \<open>Reading a packet\<close>

definition pts_field :: "u8 list \<Rightarrow> u64" where
  "pts_field f = push_bit 30 (ucast (drop_bit 1 (f ! 0) AND 7)) OR push_bit 22 (ucast (f ! 1)) OR
     push_bit 15 (ucast (drop_bit 1 (f ! 2))) OR push_bit 7 (ucast (f ! 3)) OR
     ucast (drop_bit 1 (f ! 4))"

text \<open>
  A demultiplexer for the video PES packets of ISO/IEC 13818-1: packet length, header flags,
  header length, PTS; the rest is payload. Result: PTS and payload.
\<close>

definition parse_pes :: "u8 list \<Rightarrow> (u64 option \<times> u8 list) option" where
  "parse_pes bs =
    (if 9 \<le> length bs \<and> take 4 bs = [0, 0, 1, 0xe0] \<and>
        length bs = 6 + (256 * unat (bs ! 4) + unat (bs ! 5)) \<and> bs ! 6 AND 0xc0 = 0x80 \<and>
        9 + unat (bs ! 8) \<le> length bs
     then if bs ! 7 AND 0x80 \<noteq> 0
          then if bs ! 8 < 5 \<or> bs ! 9 AND 0xf1 \<noteq> 0x21 \<or> bs ! 11 AND 1 = 0 \<or> bs ! 13 AND 1 = 0 then None
               else Some (Some (pts_field (take 5 (drop 9 bs))), drop (9 + unat (bs ! 8)) bs)
          else Some (None, drop (9 + unat (bs ! 8)) bs)
     else None)"

lemma length_pes_header: "length (pes_header v pts n) = (if v then 14 else 9)"
  by (simp add: pes_header_def Let_def)

lemma pts_pieces:
  fixes r :: u64
  shows "bit (drop_bit 1 (ucast (0x21 OR push_bit 1 (drop_bit 30 r AND 0x07)) :: u8) AND 7) k \<longleftrightarrow> k < 3 \<and> bit r (30 + k)"
    "bit (drop_bit 1 (ucast (0x01 OR push_bit 1 (drop_bit j r AND 0x7f)) :: u8)) k \<longleftrightarrow> k < 7 \<and> bit r (j + k)"
    "bit (ucast (drop_bit j r) :: u8) k \<longleftrightarrow> k < 8 \<and> bit r (j + k)"
proof -
  have m: "0x21 = (mask 1 OR push_bit 5 1 :: u64)" "0x07 = (mask 3 :: u64)" "0x7f = (mask 7 :: u64)" "7 = (mask 3 :: u8)"
    by (simp_all add: mask_eq_exp_minus_1)
  show "bit (drop_bit 1 (ucast (0x21 OR push_bit 1 (drop_bit 30 r AND 0x07)) :: u8) AND 7) k \<longleftrightarrow> k < 3 \<and> bit r (30 + k)"
    unfolding m bit_and_iff bit_or_iff bit_drop_bit_eq bit_push_bit_iff bit_unsigned_iff bit_mask_iff o_def
    by (auto simp: bit_1_iff)
  show "bit (drop_bit 1 (ucast (0x01 OR push_bit 1 (drop_bit j r AND 0x7f)) :: u8)) k \<longleftrightarrow> k < 7 \<and> bit r (j + k)"
    unfolding m bit_and_iff bit_or_iff bit_drop_bit_eq bit_push_bit_iff bit_unsigned_iff bit_mask_iff o_def
    by (auto simp: bit_1_iff)
  show "bit (ucast (drop_bit j r) :: u8) k \<longleftrightarrow> k < 8 \<and> bit r (j + k)"
    by (auto simp: bit_simps)
qed

lemma pts_field_header:
  "pts_field [ucast (0x21 OR push_bit 1 (drop_bit 30 r AND 0x07)), ucast (drop_bit 22 r),
     ucast (0x01 OR push_bit 1 (drop_bit 15 r AND 0x7f)), ucast (drop_bit 7 r),
     ucast (0x01 OR push_bit 1 (r AND 0x7f))] = r AND mask 33" for r :: u64
proof (rule bit_word_eqI)
  fix n assume n: "n < LENGTH(64)"
  let ?A = "drop_bit 1 (ucast (0x21 OR push_bit 1 (drop_bit 30 r AND 0x07)) :: u8) AND 7"
  let ?B = "ucast (drop_bit 22 r) :: u8"
  let ?C = "drop_bit 1 (ucast (0x01 OR push_bit 1 (drop_bit 15 r AND 0x7f)) :: u8)"
  let ?D = "ucast (drop_bit 7 r) :: u8"
  let ?E = "drop_bit 1 (ucast (0x01 OR push_bit 1 (r AND 0x7f)) :: u8)"
  have E: "bit ?E k \<longleftrightarrow> k < 7 \<and> bit r k" for k
    using pts_pieces(2) [of 0 r k] by simp
  have "bit (push_bit 30 (ucast ?A) OR push_bit 22 (ucast ?B) OR push_bit 15 (ucast ?C) OR push_bit 7 (ucast ?D) OR ucast ?E :: u64) n
      \<longleftrightarrow> n \<ge> 30 \<and> bit ?A (n - 30) \<or> n \<ge> 22 \<and> bit ?B (n - 22) \<or> n \<ge> 15 \<and> bit ?C (n - 15) \<or> n \<ge> 7 \<and> bit ?D (n - 7) \<or> bit ?E n"
    using n bit_imp_le_length [of ?A "n - 30"] bit_imp_le_length [of ?E n] bit_imp_le_length [of ?C "n - 15"]
    unfolding bit_or_iff bit_push_bit_iff bit_unsigned_iff by auto
  also have "\<dots> \<longleftrightarrow> n < 33 \<and> bit r n"
    unfolding pts_pieces E by (cases "n < 7"; cases "n < 15"; cases "n < 22"; cases "n < 30") auto
  also have "\<dots> \<longleftrightarrow> bit (r AND mask 33) n" using n by (auto simp: bit_simps)
  finally show "bit (pts_field [ucast (0x21 OR push_bit 1 (drop_bit 30 r AND 0x07)), ucast (drop_bit 22 r),
     ucast (0x01 OR push_bit 1 (drop_bit 15 r AND 0x7f)), ucast (drop_bit 7 r),
     ucast (0x01 OR push_bit 1 (r AND 0x7f))]) n = bit (r AND mask 33) n"
    unfolding pts_field_def by simp
qed

lemma length_field:
  assumes "n < 2 ^ 16"
  shows "256 * unat (ucast (drop_bit 8 (word_of_nat n :: u32)) :: u8) + unat (ucast (word_of_nat n :: u32) :: u8) = n"
proof -
  have "unat (drop_bit 8 (word_of_nat n :: u32)) = n div 256"
    using assms by (subst unat_drop_bit_eq) (simp add: unsigned_of_nat take_bit_eq_mod drop_bit_eq_div)
  moreover have "n div 256 < 256" using assms by simp
  ultimately show ?thesis using assms
    by (simp only: unsigned_ucast_eq) (simp add: unsigned_of_nat take_bit_eq_mod)
qed


definition pes_limit :: "bool \<Rightarrow> nat" where
  "pes_limit v = CRYSTALHD_H264_PES_MAX_LENGTH - (if v then 8 else 3)"

lemma format_pes_ok:
  assumes "length d = CRYSTALHD_H264_STAGE_BYTES" "0 < n" "n \<le> length src"
    and k: "k = min n (pes_limit v)" and h: "h = length (pes_header v pts k)"
  shows "crystalhd_h264_format_pes (Some d) CRYSTALHD_H264_STAGE_BYTES (Some src) n v pts =
    Some (Inr (k, h + k, pes_header v pts k @ take k src @ drop (h + k) d))"
proof -
  have hv: "h = (if v then 14 else 9)" using h by (simp add: length_pes_header)
  have hk: "h + k \<le> 0xfff6" and kn: "k \<le> length src" and n: "n \<noteq> 0"
    using assms hv by (auto simp: pes_limit_def)
  have w1: "mem_write d 0 (pes_header v pts k) = Some (pes_header v pts k @ drop h d)"
    using assms hk by (simp add: mem_write_def flip: h)
  have w2: "mem_write (pes_header v pts k @ drop h d) h (take k src) =
      Some (pes_header v pts k @ take k src @ drop (h + k) d)"
    using assms(1) hk kn by (simp add: mem_write_def add.commute flip: h)
  have hv': "(if v then CRYSTALHD_H264_PTS_HEADER else CRYSTALHD_H264_PES_HEADER) = h" using hv by simp
  have kk: "min n (CRYSTALHD_H264_PES_MAX_LENGTH - (if v then 8 else 3)) = k"
    using k by (simp add: pes_limit_def)
  have cap: "\<not> CRYSTALHD_H264_STAGE_BYTES < h + k" using hk by simp
  show ?thesis
    unfolding crystalhd_h264_format_pes_def Let_def kk hv' prod.case option.case if_not_P [OF n] if_not_P [OF cap]
      w1 mem_read_def
    using kn w2 by simp
qed

lemma pts_markers:
  fixes x :: u64
  shows "ucast (0x21 OR push_bit 1 (x AND 0x07)) AND 0xf1 = (0x21 :: u8)"
    "ucast (0x01 OR push_bit 1 (x AND 0x7f)) AND 1 \<noteq> (0 :: u8)"
proof -
  have m: "0x21 = (mask 1 OR push_bit 5 1 :: u64)" "0x07 = (mask 3 :: u64)"
    "0x21 = (mask 1 OR push_bit 5 1 :: u8)" "0xf1 = (mask 1 OR push_bit 4 (mask 4) :: u8)"
    by (simp_all add: mask_eq_exp_minus_1)
  show "ucast (0x21 OR push_bit 1 (x AND 0x07)) AND 0xf1 = (0x21 :: u8)"
    unfolding m
    by (rule bit_word_eqI)
       (auto simp only: bit_and_iff bit_or_iff bit_push_bit_iff bit_unsigned_iff bit_mask_iff bit_1_iff len_num1 numeral_eq_iff
         , auto)
  have "bit (ucast (0x01 OR push_bit 1 (x AND 0x7f)) AND 1 :: u8) 0"
    unfolding bit_and_iff bit_or_iff bit_unsigned_iff by simp
  then show "ucast (0x01 OR push_bit 1 (x AND 0x7f)) AND 1 \<noteq> (0 :: u8)" by auto
qed

lemma parse_pes_header:
  assumes "k \<le> pes_limit v" "length payload = k"
  shows "parse_pes (pes_header v pts k @ payload) = Some (if v then Some (pts AND mask 33) else None, payload)"
proof (cases v)
  case True
  let ?r = "pts AND mask 33"
  have len: "256 * unat (ucast (drop_bit 8 (word_of_nat (k + 8) :: u32)) :: u8) + unat (ucast (word_of_nat (k + 8) :: u32) :: u8) = k + 8"
    using assms True by (intro length_field) (simp add: pes_limit_def)
  have f: "ucast (0x21 OR push_bit 1 (drop_bit 30 ?r AND 0x07)) AND 0xf1 = (0x21 :: u8)"
    "ucast (0x01 OR push_bit 1 (drop_bit 15 ?r AND 0x7f)) AND 1 \<noteq> (0 :: u8)"
    "ucast (0x01 OR push_bit 1 (?r AND 0x7f)) AND 1 \<noteq> (0 :: u8)"
    by (rule pts_markers)+
  have pf: "pts_field [ucast (0x21 OR push_bit 1 (drop_bit 30 ?r AND 0x07)), ucast (drop_bit 22 ?r),
     ucast (0x01 OR push_bit 1 (drop_bit 15 ?r AND 0x7f)), ucast (drop_bit 7 ?r),
     ucast (0x01 OR push_bit 1 (?r AND 0x7f))] = ?r"
    by (simp only: pts_field_header) (simp add: and.assoc)
  show ?thesis
    unfolding parse_pes_def pes_header_def Let_def if_P [OF True] 
    using len f pf assms True by (simp del: push_bit_Suc)
next
  case False
  have len: "256 * unat (ucast (drop_bit 8 (word_of_nat (k + 3) :: u32)) :: u8) + unat (ucast (word_of_nat (k + 3) :: u32) :: u8) = k + 3"
    using assms False by (intro length_field) (simp add: pes_limit_def)
  then show ?thesis using assms False by (simp add: parse_pes_def pes_header_def Let_def)
qed

section \<open>What the device reads\<close>

text \<open>The bytes at the bus addresses the staged buffer describes.\<close>

definition staged_bytes :: "crystalhd_stream \<Rightarrow> u8 list" where
  "staged_bytes s = map (\<lambda>a. st_cpu s ! unat (a - st_dma s))
     (sg_bytes (tb_sgl (st_buffer s)) @ span (tb_tail_addr (st_buffer s)) (unat (tb_tail_size (st_buffer s))))"

text \<open>
  A prepared stage: coherent memory of the full size at a nonzero word-aligned bus address that does not
  wrap around.
\<close>

definition stream_wf :: "crystalhd_stream \<Rightarrow> bool" where
  "stream_wf s \<longleftrightarrow> length (st_cpu s) = CRYSTALHD_H264_STAGE_BYTES \<and> st_dma s \<noteq> 0 \<and>
     st_dma s AND 3 = 0 \<and> unat (st_dma s) + CRYSTALHD_H264_STAGE_BYTES < 2 ^ 64 \<and>
     tb_dma_nents (st_buffer s) = 1 \<and> tb_has_cookie (st_buffer s)"

lemma aligned_part:
  assumes "w < 2 ^ 16"
  shows "(word_of_nat w :: u64) AND ucast (NOT 3 :: u32) = word_of_nat (4 * (w div 4))"
    "(word_of_nat w :: u64) AND 3 = word_of_nat (w mod 4)"
proof -
  have m3: "(3 :: u64) = mask 2" "(3 :: u32) = mask 2" by (simp_all add: mask_eq_exp_minus_1)
  have d: "4 * (w div 4) = push_bit 2 (drop_bit 2 w)" "w mod 4 = take_bit 2 w"
    by (simp_all add: push_bit_eq_mult drop_bit_eq_div take_bit_eq_mod)
  have b: "bit w n \<Longrightarrow> n < 32" for n
  proof -
    assume "bit w n"
    moreover have "take_bit 16 w = w" using assms by (simp add: take_bit_nat_eq_self)
    ultimately have "bit (take_bit 16 w) n" by simp
    then show "n < 32" by (simp add: bit_take_bit_iff)
  qed
  have e: "2 \<le> n \<Longrightarrow> Suc (Suc (n - 2)) = n" for n :: nat by simp
  show "(word_of_nat w :: u64) AND ucast (NOT 3 :: u32) = word_of_nat (4 * (w div 4))"
    unfolding m3 d
    by (rule bit_word_eqI) (auto simp: bit_simps e not_less dest: b)
  show "(word_of_nat w :: u64) AND 3 = word_of_nat (w mod 4)"
    unfolding m3 d by (rule bit_word_eqI) (auto simp: bit_simps)
qed

lemma ucast_word_of_nat: "(ucast (word_of_nat n :: u64) :: u32) = word_of_nat n"
  by (rule bit_word_eqI) (auto simp: bit_simps)

lemma span_append: "span a m @ span (a + word_of_nat m) n = span a (m + n)"
  by (rule nth_equalityI) (auto simp: span_def nth_append)

lemma map_span: "n \<le> length m \<Longrightarrow> length m < 2 ^ 64 \<Longrightarrow> map (\<lambda>a. m ! unat (a - b)) (span b n) = take n m"
  by (rule nth_equalityI) (auto simp: span_def unsigned_of_nat take_bit_nat_eq_self)

lemma send_staged_ok:
  assumes wf: "stream_wf s" and w: "0 < w" "w \<le> 0xfff6"
  obtains s' where "crystalhd_h264_send_staged s w sts = Some (crystalhd_status_to_errno sts, s')"
    "stream_wf s'" "staged_bytes s' = take w (st_cpu s)" "st_refs s' = st_refs s" "st_dma s' = st_dma s"
    "st_eos_submitted s' = st_eos_submitted s" "st_failed s' \<longleftrightarrow> st_failed s \<or> sts \<noteq> BC_STS_SUCCESS"
    "tb_bytes (st_buffer s') = word_of_nat w" 
    "tb_sgl (st_buffer s') = [(st_dma s, word_of_nat (4 * (w div 4)))]"
    "tb_tail_addr (st_buffer s') = st_dma s + word_of_nat (4 * (w div 4))"
    "tb_tail_size (st_buffer s') = word_of_nat (w mod 4)"
proof -
  have w16: "w < 2 ^ 16" using w by simp
  let ?wire = "word_of_nat w :: u64"
  define A where "A = 4 * (w div 4)"
  have AB: "A + w mod 4 = w" "A < 2 ^ 32" using w16 by (simp_all add: A_def)
  define al where "al = ?wire AND ucast (NOT 3 :: u32)"
  have al: "al = word_of_nat A" and tl: "?wire AND 3 = word_of_nat (w mod 4)"
    using aligned_part [OF w16] by (simp_all add: al_def A_def)
  have u: "(ucast ?wire :: u32) = word_of_nat w" "(ucast al :: u32) = word_of_nat A"
    "(ucast (?wire AND 3) :: u32) = word_of_nat (w mod 4)"
    unfolding al tl by (rule ucast_word_of_nat)+
  have fits: "w + (4 * ((w + 3) div 4) - w) \<le> length (st_cpu s)" and wl: "w \<le> length (st_cpu s)"
    using wf w by (auto simp: stream_wf_def)
  define pad where "pad = (replicate (4 * ((w + 3) div 4) - w) 0 :: u8 list)"
  define cpu where "cpu = take w (st_cpu s) @ pad @ drop (w + length pad) (st_cpu s)"
  have cpu: "mem_write (st_cpu s) w pad = Some cpu"
    using fits by (simp add: mem_write_def cpu_def pad_def)
  have lcpu: "length cpu = length (st_cpu s)" and tcpu: "take w cpu = take w (st_cpu s)"
    using mem_write_length [OF cpu] wl by (simp_all add: cpu_def)
  define s1 where "s1 = s\<lparr>st_cpu := cpu,
                 st_buffer := (st_buffer s)\<lparr>tb_bytes := ucast ?wire,
                   tb_tail_addr := st_dma s + al, tb_tail_size := ucast (?wire AND 3),
                   tb_sgl := [(st_dma s, ucast al)]\<rparr>\<rparr>"
  define s' where "s' = (if sts \<noteq> BC_STS_SUCCESS then s1\<lparr>st_failed := True\<rparr> else s1)"
  have "crystalhd_h264_send_staged s w sts = Some (crystalhd_status_to_errno sts, s')"
    by (simp add: crystalhd_h264_send_staged_def Let_def cpu [unfolded pad_def] s'_def s1_def al_def)
  moreover have "staged_bytes s' = take w (st_cpu s)"
  proof -
    have a: "unat (word_of_nat A :: u32) = A" "unat (word_of_nat (w mod 4) :: u32) = w mod 4"
      using AB by (auto intro!: unat_word_of_nat_u32)
    have "staged_bytes s' = map (\<lambda>a. cpu ! unat (a - st_dma s))
       (span (st_dma s) (A) @ span (st_dma s + word_of_nat A) (w mod 4))"
      unfolding staged_bytes_def s'_def s1_def u
      by (simp add: sg_bytes_def a al)
    also have "\<dots> = map (\<lambda>a. cpu ! unat (a - st_dma s)) (span (st_dma s) w)"
      by (simp only: span_append AB)
    also have "\<dots> = take w cpu" using wf w lcpu by (intro map_span) (simp_all add: stream_wf_def)
    finally show ?thesis using tcpu by simp
  qed
  moreover have "stream_wf s'" using wf lcpu by (simp add: stream_wf_def s'_def s1_def)
  ultimately show ?thesis
    by (intro that [of s']) (simp_all add: s'_def s1_def u, simp_all add: al A_def)
qed

lemma word_and_3:
  "(word_of_nat n :: u64) AND 3 = word_of_nat (n mod 4)" "(word_of_nat n :: u32) AND 3 = word_of_nat (n mod 4)"
proof -
  have m3: "(3 :: u64) = mask 2" "(3 :: u32) = mask 2" by (simp_all add: mask_eq_exp_minus_1)
  have d: "n mod 4 = take_bit 2 n" by (simp add: take_bit_eq_mod)
  show "(word_of_nat n :: u64) AND 3 = word_of_nat (n mod 4)" "(word_of_nat n :: u32) AND 3 = word_of_nat (n mod 4)"
    unfolding m3 d by (rule bit_word_eqI; auto simp: bit_simps)+
qed

lemma and_3_iff: "x AND 3 = 0 \<longleftrightarrow> unat x mod 4 = 0" for x :: u64
proof -
  have "x AND 3 = take_bit 2 x" by (simp add: take_bit_eq_mask mask_eq_exp_minus_1)
  moreover have "unat (take_bit 2 x) = unat x mod 4" by (simp add: take_bit_eq_mod unat_mod)
  ultimately show ?thesis by (metis unat_0 unsigned_word_eqI)
qed

lemma stream_wf_addr:
  assumes "stream_wf s" "w \<le> 0xfff6"
  shows "(st_dma s + word_of_nat (4 * (w div 4))) AND 3 = 0" "st_dma s + word_of_nat (4 * (w div 4)) \<noteq> 0"
proof -
  let ?a = "word_of_nat (4 * (w div 4)) :: u64"
  have u: "unat ?a = 4 * (w div 4)"
    unfolding unsigned_of_nat of_nat_id using assms by (intro take_bit_nat_eq_self) simp
  have s: "unat (st_dma s + ?a) = unat (st_dma s) + 4 * (w div 4)"
    unfolding unat_word_ariths u using assms by (auto simp: stream_wf_def)
  show "(st_dma s + ?a) AND 3 = 0"
    using assms by (simp only: and_3_iff s stream_wf_def) presburger
  have "0 < unat (st_dma s)" using assms by (simp add: stream_wf_def unat_gt_0)
  then have "unat (st_dma s + ?a) \<noteq> 0" using s by simp
  then show "st_dma s + ?a \<noteq> 0" by auto
qed

lemma staged_preflight:
  assumes wf: "stream_wf s" and w: "4 \<le> w" "w \<le> 0xfff6"
    and b: "tb_bytes b = word_of_nat w" "tb_sgl b = [(st_dma s, word_of_nat (4 * (w div 4)))]"
      "tb_tail_addr b = st_dma s + word_of_nat (4 * (w div 4))" "tb_tail_size b = word_of_nat (w mod 4)"
      "tb_dma_nents b = 1" "tb_has_cookie b"
  shows "crystalhd_tx_buffer_preflight (Some b) 2 = BC_STS_SUCCESS"
proof -
  define A where "A = (word_of_nat (4 * (w div 4)) :: u32)"
  define W where "W = (word_of_nat w :: u32)"
  define R where "R = (word_of_nat (w mod 4) :: u32)"
  have uA: "unat A = 4 * (w div 4)" and uW: "unat W = w" and uR: "unat R = w mod 4"
    unfolding A_def W_def R_def by (rule unat_word_of_nat_u32, use w in simp)+
  have WA: "W - R = A"
  proof -
    have "W = A + R" unfolding W_def A_def R_def
      by (metis mult_div_mod_eq of_nat_add)
    then show ?thesis by simp
  qed
  have RW: "W AND 3 = R" unfolding W_def R_def by (rule word_and_3)
  have A3: "A AND 3 = 0" unfolding A_def word_and_3 by simp
  have "unat A \<noteq> 0" using uA w by simp
  then have A0: "A \<noteq> 0" by auto
  have W0: "W \<noteq> 0" using uW w by auto
  have R3: "\<not> R > 3" using uR by (simp add: word_less_nat_alt not_less)
  have Amax: "\<not> A > CRYSTALHD_DMA_DESC_MAX_XFER_BYTES" using uA w by (simp add: word_less_nat_alt)
  have d: "st_dma s AND 3 = 0" using wf by (simp add: stream_wf_def)
  show ?thesis
    using stream_wf_addr [OF wf w(2)] d A3 A0 W0 R3 Amax
    unfolding crystalhd_tx_buffer_preflight_def b Let_def option.case A_def [symmetric] W_def [symmetric] R_def [symmetric] WA RW
    by (simp add: b unaligned_def bool_u32_def)
qed


section \<open>The submission loop\<close>

text \<open>The packets an access unit is cut into: the PTS, if any, goes with the first.\<close>

function pes_packets :: "bool \<Rightarrow> u64 \<Rightarrow> u8 list \<Rightarrow> (u64 option \<times> u8 list) list" where
  "pes_packets v pts bs = (if bs = [] then []
     else (if v then Some (pts AND mask 33) else None, take (pes_limit v) bs) #
          pes_packets False pts (drop (pes_limit v) bs))"
  by pat_completeness auto
termination
  by (relation "measure (\<lambda>(v, pts, bs). length bs)") (auto simp: pes_limit_def)

declare pes_packets.simps [simp del]

lemma pes_packets_Nil [simp]: "pes_packets v pts [] = []"
  by (simp add: pes_packets.simps)

lemma concat_pes_packets: "concat (map snd (pes_packets v pts bs)) = bs"
proof (induction v pts bs rule: pes_packets.induct)
  case (1 v pts bs)
  then show ?case by (subst pes_packets.simps) simp
qed

lemma pes_packets_pts:
  "i < length (pes_packets v pts bs) \<Longrightarrow>
    fst (pes_packets v pts bs ! i) = (if v \<and> i = 0 then Some (pts AND mask 33) else None)"
proof (induction v pts bs arbitrary: i rule: pes_packets.induct)
  case (1 v pts bs)
  show ?case
  proof (cases "bs = []")
    case False
    then show ?thesis using 1 by (subst pes_packets.simps) (subst (asm) (2) pes_packets.simps, cases i, auto)
  qed (use 1 in simp)
qed

text \<open>A packet as presented to the device: it passes the preflight with two descriptors.\<close>

definition presented_ok :: "crystalhd_stream \<Rightarrow> bool" where
  "presented_ok s \<longleftrightarrow> stream_wf s \<and> crystalhd_tx_buffer_preflight (Some (st_buffer s)) 2 = BC_STS_SUCCESS"

lemma send_staged_presents:
  assumes wf: "stream_wf s" and w: "4 \<le> w" "w \<le> 0xfff6"
  obtains s' where "crystalhd_h264_send_staged s w sts = Some (crystalhd_status_to_errno sts, s')"
    "presented_ok s'" "staged_bytes s' = take w (st_cpu s)" "st_refs s' = st_refs s"
    "st_eos_submitted s' = st_eos_submitted s" "st_failed s' \<longleftrightarrow> st_failed s \<or> sts \<noteq> BC_STS_SUCCESS"
proof -
  have "0 < w" using w by simp
  then obtain s' where s': "crystalhd_h264_send_staged s w sts = Some (crystalhd_status_to_errno sts, s')"
    "stream_wf s'" "staged_bytes s' = take w (st_cpu s)" "st_refs s' = st_refs s" "st_dma s' = st_dma s"
    "st_eos_submitted s' = st_eos_submitted s" "st_failed s' \<longleftrightarrow> st_failed s \<or> sts \<noteq> BC_STS_SUCCESS"
    and b: "tb_bytes (st_buffer s') = word_of_nat w"
    "tb_sgl (st_buffer s') = [(st_dma s, word_of_nat (4 * (w div 4)))]"
    "tb_tail_addr (st_buffer s') = st_dma s + word_of_nat (4 * (w div 4))"
    "tb_tail_size (st_buffer s') = word_of_nat (w mod 4)"
    using send_staged_ok [OF wf _ w(2), of sts] by blast
  have "presented_ok s'"
    unfolding presented_ok_def using staged_preflight [OF wf w b] s'(2) by (simp add: stream_wf_def)
  with s' show ?thesis by (intro that)
qed

lemma submit_h264_loop_run:
  assumes "stream_wf s" "offset \<le> bytes" "bytes \<le> length au"
    and P: "P = pes_packets (v \<and> offset = 0) pts (drop offset (take bytes au))"
  shows "\<exists>rc s' ps. submit_h264_loop xfer dl au bytes v pts s offset sent = Some (rc, s', sent @ ps) \<and>
    stream_wf s' \<and> st_eos_submitted s' = st_eos_submitted s \<and> st_refs s' = st_refs s \<and>
    map (\<lambda>p. parse_pes (staged_bytes p)) ps = map Some (take (length ps) P) \<and> (\<forall>p\<in>set ps. presented_ok p) \<and>
    (if rc = rc_ok then length ps = length P \<and> st_failed s' = st_failed s
     else ps \<noteq> [] \<and> st_failed s' \<and>
       rc = crystalhd_status_to_errno (xfer (length sent + length ps - 1) dl)) \<and>
    (\<forall>i<length ps. Suc i < length ps \<or> rc = rc_ok \<longrightarrow> xfer (length sent + i) dl = BC_STS_SUCCESS)"
  using assms
proof (induction "bytes - offset" arbitrary: s offset sent P rule: less_induct)
  case less
  show ?case
  proof (cases "offset < bytes")
    case False
    then have "P = []" using less.prems by (simp add: pes_packets.simps)
    then show ?thesis using False less.prems by (subst submit_h264_loop.simps) simp
  next
    case True
    let ?v = "v \<and> offset = 0" and ?rest = "drop offset (take bytes au)"
    define k where "k = min (bytes - offset) (pes_limit ?v)"
    define h where "h = length (pes_header ?v pts k)"
    define cpu where "cpu = pes_header ?v pts k @ take k (drop offset au) @ drop (h + k) (st_cpu s)"
    have fmt: "crystalhd_h264_format_pes (Some (st_cpu s)) CRYSTALHD_H264_STAGE_BYTES
        (Some (drop offset au)) (bytes - offset) ?v pts = Some (Inr (k, h + k, cpu))"
      unfolding cpu_def using True less.prems by (intro format_pes_ok) (auto simp: k_def h_def stream_wf_def)
    have hv: "h = (if ?v then 14 else 9)" by (simp only: h_def length_pes_header)
    have bnd: "4 \<le> h + k" "h + k \<le> 0xfff6" and k: "0 < k" "k \<le> pes_limit ?v" "k \<le> bytes - offset"
      using True by (auto simp: hv k_def pes_limit_def)
    have wf1: "stream_wf (s\<lparr>st_cpu := cpu\<rparr>)"
      using less.prems k bnd True by (auto simp: stream_wf_def cpu_def h_def)
    obtain s1 where s1: "crystalhd_h264_send_staged (s\<lparr>st_cpu := cpu\<rparr>) (h + k) (xfer (length sent) dl)
         = Some (crystalhd_status_to_errno (xfer (length sent) dl), s1)"
      "presented_ok s1" "staged_bytes s1 = take (h + k) cpu" "st_refs s1 = st_refs s"
      "st_eos_submitted s1 = st_eos_submitted s"
      "st_failed s1 \<longleftrightarrow> st_failed s \<or> xfer (length sent) dl \<noteq> BC_STS_SUCCESS"
      using send_staged_presents [OF wf1 bnd, of "xfer (length sent) dl"] by auto
    have wfs1: "stream_wf s1" using s1(2) by (simp add: presented_ok_def)
    have chunk: "take k (drop offset au) = take (pes_limit ?v) ?rest"
      using True less.prems by (simp add: k_def drop_take min.commute)
    have pkt: "staged_bytes s1 = pes_header ?v pts k @ take k (drop offset au)"
      unfolding s1(3) cpu_def using True less.prems k by (simp add: h_def)
    have parsed: "parse_pes (staged_bytes s1) = Some (if ?v then Some (pts AND mask 33) else None, take (pes_limit ?v) ?rest)"
      unfolding pkt chunk [symmetric] using True less.prems k by (intro parse_pes_header) auto
    have ne: "?rest \<noteq> []" using True less.prems by simp
    define P1 where "P1 = pes_packets False pts (drop (offset + k) (take bytes au))"
    have P1: "P = (if ?v then Some (pts AND mask 33) else None, take (pes_limit ?v) ?rest) # P1"
    proof -
      have "drop (pes_limit ?v) ?rest = drop (offset + k) (take bytes au)"
        using True less.prems by (auto simp: k_def min_def add.commute)
      then show ?thesis unfolding less.prems P1_def by (subst pes_packets.simps) (use ne True less.prems in simp)
    qed
    show ?thesis
    proof (cases "xfer (length sent) dl = BC_STS_SUCCESS")
      case False
      then have "submit_h264_loop xfer dl au bytes v pts s offset sent =
          Some (crystalhd_status_to_errno (xfer (length sent) dl), s1, sent @ [s1])"
        using True by (subst submit_h264_loop.simps) (simp add: fmt s1(1))
      then show ?thesis using False s1 wfs1 parsed
        by (intro exI [of _ "crystalhd_status_to_errno (xfer (length sent) dl)"] exI [of _ s1] exI [of _ "[s1]"])
           (simp add: P1)
    next
      case ok: True
      have step: "submit_h264_loop xfer dl au bytes v pts s offset sent =
          submit_h264_loop xfer dl au bytes v pts s1 (offset + k) (sent @ [s1])"
        using True by (subst submit_h264_loop.simps) (simp add: fmt ok s1(1) [unfolded ok])
      have P1': "P1 = pes_packets (v \<and> offset + k = 0) pts (drop (offset + k) (take bytes au))"
        using k by (simp add: P1_def)
      have dec: "bytes - (offset + k) < bytes - offset" "offset + k \<le> bytes" using True k by auto
      obtain rc s' ps where
        r: "submit_h264_loop xfer dl au bytes v pts s1 (offset + k) (sent @ [s1]) = Some (rc, s', (sent @ [s1]) @ ps)"
        "stream_wf s'" "st_eos_submitted s' = st_eos_submitted s1" "st_refs s' = st_refs s1"
        "map (\<lambda>p. parse_pes (staged_bytes p)) ps = map Some (take (length ps) P1)" "\<forall>p\<in>set ps. presented_ok p"
        "if rc = rc_ok then length ps = length P1 \<and> st_failed s' = st_failed s1
         else ps \<noteq> [] \<and> st_failed s' \<and> rc = crystalhd_status_to_errno (xfer (length (sent @ [s1]) + length ps - 1) dl)"
        "\<forall>i<length ps. Suc i < length ps \<or> rc = rc_ok \<longrightarrow> xfer (length (sent @ [s1]) + i) dl = BC_STS_SUCCESS"
        using less.hyps [OF dec(1) wfs1 dec(2) less.prems(3) P1', of "sent @ [s1]"] by (elim exE conjE) (rule that)
      have "\<forall>i<length (s1 # ps). Suc i < length (s1 # ps) \<or> rc = rc_ok \<longrightarrow> xfer (length sent + i) dl = BC_STS_SUCCESS"
        using r(8) ok by (auto simp: less_Suc_eq_0_disj)
      then show ?thesis using r(1-7) s1 ok parsed unfolding step
        by (intro exI [of _ rc] exI [of _ s'] exI [of _ "s1 # ps"]) (auto simp: P1 split: if_splits)
    qed
  qed
qed

section \<open>End of stream\<close>

definition eos_bytes :: "nat \<Rightarrow> u8 list" where
  "eos_bytes i = (if i \<noteq> 1 then eos_packet else eos_marker)"

lemma length_eos_bytes: "length (eos_bytes i) = (if i \<noteq> 1 then 17 else 184)"
proof -
  have "length eos_packet = 17" "length eos_marker = 184" by code_simp+
  then show ?thesis by (simp add: eos_bytes_def)
qed

lemma format_eos_ok:
  assumes "length d = CRYSTALHD_H264_STAGE_BYTES" "i < 4"
  shows "crystalhd_h264_format_eos (Some d) CRYSTALHD_H264_STAGE_BYTES i =
    Some (Inr (length (eos_bytes i), eos_bytes i @ drop (length (eos_bytes i)) d))"
  using assms length_eos_bytes [of i]
  by (auto simp: crystalhd_h264_format_eos_def Let_def mem_write_def eos_bytes_def)

lemma submit_eos_loop_run:
  assumes "stream_wf s" "\<forall>i\<in>set is. i < 4"
  shows "\<exists>rc s' ps. submit_eos_loop xfer dl s is sent = Some (rc, s', sent @ ps) \<and>
    stream_wf s' \<and> st_eos_submitted s' = st_eos_submitted s \<and> st_refs s' = st_refs s \<and>
    map staged_bytes ps = map eos_bytes (take (length ps) is) \<and> (\<forall>p\<in>set ps. presented_ok p) \<and>
    (if rc = rc_ok then length ps = length is \<and> st_failed s' = st_failed s
     else ps \<noteq> [] \<and> length ps \<le> length is \<and> st_failed s' \<and> rc = crystalhd_status_to_errno (xfer (length sent + length ps - 1) dl)) \<and>
    (\<forall>i<length ps. Suc i < length ps \<or> rc = rc_ok \<longrightarrow> xfer (length sent + i) dl = BC_STS_SUCCESS)"
  using assms
proof (induction "is" arbitrary: s sent)
  case (Cons i "is")
  define n where "n = length (eos_bytes i)"
  define cpu where "cpu = eos_bytes i @ drop n (st_cpu s)"
  have n: "4 \<le> n" "n \<le> 0xfff6" using length_eos_bytes [of i] by (auto simp: n_def)
  have fmt: "crystalhd_h264_format_eos (Some (st_cpu s)) CRYSTALHD_H264_STAGE_BYTES i = Some (Inr (n, cpu))"
    using Cons.prems by (simp add: format_eos_ok n_def cpu_def stream_wf_def)
  have wf1: "stream_wf (s\<lparr>st_cpu := cpu\<rparr>)" using Cons.prems n by (auto simp: stream_wf_def cpu_def n_def)
  let ?x = "xfer (length sent) dl"
  obtain s1 where s1: "crystalhd_h264_send_staged (s\<lparr>st_cpu := cpu\<rparr>) n ?x = Some (crystalhd_status_to_errno ?x, s1)"
    "presented_ok s1" "staged_bytes s1 = take n cpu" "st_refs s1 = st_refs s"
    "st_eos_submitted s1 = st_eos_submitted s" "st_failed s1 \<longleftrightarrow> st_failed s \<or> ?x \<noteq> BC_STS_SUCCESS"
    using send_staged_presents [OF wf1 n, of ?x] by auto
  have wfs1: "stream_wf s1" and by1: "staged_bytes s1 = eos_bytes i"
    using s1 by (simp_all add: presented_ok_def cpu_def n_def)
  show ?case
  proof (cases "?x = BC_STS_SUCCESS")
    case False
    then show ?thesis using s1 wfs1 by1
      by (intro exI [of _ "crystalhd_status_to_errno ?x"] exI [of _ s1] exI [of _ "[s1]"]) (simp add: fmt)
  next
    case ok: True
    have is4: "\<forall>i\<in>set is. i < 4" using Cons.prems(2) by simp
    obtain rc s' ps where
      r: "submit_eos_loop xfer dl s1 is (sent @ [s1]) = Some (rc, s', (sent @ [s1]) @ ps)"
      "stream_wf s'" "st_eos_submitted s' = st_eos_submitted s1" "st_refs s' = st_refs s1"
      "map staged_bytes ps = map eos_bytes (take (length ps) is)" "\<forall>p\<in>set ps. presented_ok p"
      "if rc = rc_ok then length ps = length is \<and> st_failed s' = st_failed s1
       else ps \<noteq> [] \<and> length ps \<le> length is \<and> st_failed s' \<and> rc = crystalhd_status_to_errno (xfer (length (sent @ [s1]) + length ps - 1) dl)"
      "\<forall>i<length ps. Suc i < length ps \<or> rc = rc_ok \<longrightarrow> xfer (length (sent @ [s1]) + i) dl = BC_STS_SUCCESS"
      using Cons.IH [OF wfs1 is4, of "sent @ [s1]"] by (elim exE conjE) (rule that, assumption+)
    have x: "\<forall>i<length (s1 # ps). Suc i < length (s1 # ps) \<or> rc = rc_ok \<longrightarrow> xfer (length sent + i) dl = BC_STS_SUCCESS"
      using r(8) ok by (auto simp: less_Suc_eq_0_disj)
    have loop: "submit_eos_loop xfer dl s (i # is) sent = Some (rc, s', sent @ s1 # ps)"
      using r(1) ok by (simp add: fmt s1(1) [unfolded ok])
    have res: "if rc = rc_ok then length (s1 # ps) = length (i # is) \<and> st_failed s' = st_failed s
        else s1 # ps \<noteq> [] \<and> length (s1 # ps) \<le> length (i # is) \<and> st_failed s' \<and>
          rc = crystalhd_status_to_errno (xfer (length sent + length (s1 # ps) - 1) dl)"
      using r(7) s1(6) ok by (cases "rc = rc_ok") simp_all
    have bs: "map staged_bytes (s1 # ps) = map eos_bytes (take (length (s1 # ps)) (i # is))" using r(5) by1 by simp
    show ?thesis
      by (intro exI [of _ rc] exI [of _ s'] exI [of _ "s1 # ps"] conjI loop r(2) res x bs) (use r(3,4,6) s1(2,4,5) in simp_all)
  qed
qed auto

section \<open>Sequences of calls\<close>

text \<open>A call on the stream, with what the kernel answers during it.\<close>

datatype h264_op =
    Op_Prepare bool "(u8 list \<times> u64) option"
  | Op_Stream_Release
  | Op_Submit "u32 \<Rightarrow> u64" u64 "nat \<Rightarrow> u64 \<Rightarrow> bc_status" "nat option" "u8 list option" nat bool u64 u32
  | Op_Eos "u32 \<Rightarrow> u64" u64 "nat \<Rightarrow> u64 \<Rightarrow> bc_status" "nat option" u32

fun h264_exec :: "h264_op \<Rightarrow> crystalhd_cmd option \<Rightarrow> (rc \<times> crystalhd_cmd option \<times> crystalhd_stream list) option" where
  "h264_exec (Op_Prepare kz coh) ctx = (let (rc, ctx') = crystalhd_stream_prepare kz coh ctx in Some (rc, ctx', []))"
| "h264_exec Op_Stream_Release ctx = Some (rc_ok, fst (crystalhd_stream_release ctx), [])"
| "h264_exec (Op_Submit tj j xfer owner au n v pts ms) ctx =
     crystalhd_decoder_submit_h264 tj j xfer ctx owner au n v pts ms"
| "h264_exec (Op_Eos tj j xfer owner ms) ctx = crystalhd_decoder_submit_h264_eos tj j xfer ctx owner ms"

fun h264_execs :: "h264_op list \<Rightarrow> crystalhd_cmd option \<Rightarrow> (rc list \<times> crystalhd_cmd option \<times> crystalhd_stream list) option" where
  "h264_execs [] ctx = Some ([], ctx, [])"
| "h264_execs (op # ops) ctx = do {
     (rc, ctx1, sent1) \<leftarrow> h264_exec op ctx;
     (rcs, ctx2, sent2) \<leftarrow> h264_execs ops ctx1;
     Some (rc # rcs, ctx2, sent1 @ sent2) }"

fun is_prepare :: "h264_op \<Rightarrow> bool" where
  "is_prepare (Op_Prepare kz coh) = True"
| "is_prepare _ = False"

fun is_release :: "h264_op \<Rightarrow> bool" where
  "is_release Op_Stream_Release = True"
| "is_release _ = False"

text \<open>The calls that send data; prepare and release manage the stream.\<close>

definition is_submission :: "h264_op \<Rightarrow> bool" where
  "is_submission op \<longleftrightarrow> \<not> is_prepare op \<and> \<not> is_release op"

fun is_eos :: "h264_op \<Rightarrow> bool" where
  "is_eos (Op_Eos tj j xfer owner ms) = True"
| "is_eos _ = False"

text \<open>The caller's buffer holds the bytes it announces.\<close>

fun op_wf :: "h264_op \<Rightarrow> bool" where
  "op_wf (Op_Submit tj j xfer owner (Some au) n v pts ms) \<longleftrightarrow> n \<le> length au"
| "op_wf _ \<longleftrightarrow> True"

definition ctx_wf :: "crystalhd_cmd option \<Rightarrow> bool" where
  "ctx_wf ctx \<longleftrightarrow> (\<forall>c s. ctx = Some c \<longrightarrow> cmd_stream c = Some s \<longrightarrow> stream_wf s)"

definition input_closed :: "crystalhd_cmd option \<Rightarrow> bool" where
  "input_closed ctx \<longleftrightarrow>
    (case Option.bind ctx cmd_stream of None \<Rightarrow> False | Some s \<Rightarrow> st_failed s \<or> st_eos_submitted s)"

lemma validate_okE:
  assumes "crystalhd_decoder_validate_h264_locked ctx owner = rc_ok"
  obtains c s where "ctx = Some c" "cmd_stream c = Some s" "\<not> st_failed s" "\<not> st_eos_submitted s"
  using assms
  by (auto simp: crystalhd_decoder_validate_h264_locked_def Let_def split: option.splits if_splits)

lemma input_closedE:
  assumes "input_closed ctx"
  obtains c s where "ctx = Some c" "cmd_stream c = Some s" "st_failed s \<or> st_eos_submitted s"
  using assms by (cases ctx) (auto simp: input_closed_def split: option.splits)

lemma closed_rejects:
  assumes "input_closed ctx"
  shows "crystalhd_decoder_validate_h264_locked ctx owner \<noteq> rc_ok"
proof
  assume "crystalhd_decoder_validate_h264_locked ctx owner = rc_ok"
  with assms show False by (elim validate_okE input_closedE) auto
qed

text \<open>The input is closed, or there is no stream to send from.\<close>

definition no_input :: "crystalhd_cmd option \<Rightarrow> bool" where
  "no_input ctx \<longleftrightarrow> input_closed ctx \<or> Option.bind ctx cmd_stream = None"

lemma no_input_rejects: "no_input ctx \<Longrightarrow> crystalhd_decoder_validate_h264_locked ctx owner \<noteq> rc_ok"
  using closed_rejects validate_okE [of ctx owner] by (fastforce simp: no_input_def)

lemma submission_refused:
  assumes "no_input ctx" "is_submission op"
  obtains e where "h264_exec op ctx = Some (Some e, ctx, [])"
proof (cases op)
  case (Op_Submit tj j xfer owner au n v pts ms)
  obtain e where "crystalhd_decoder_validate_h264_locked ctx owner = Some e" using no_input_rejects [OF assms(1)] by auto
  then show ?thesis using that
    by (cases au; cases "n = 0") (simp_all add: Op_Submit crystalhd_decoder_submit_h264_def)
next
  case (Op_Eos tj j xfer owner ms)
  obtain e where "crystalhd_decoder_validate_h264_locked ctx owner = Some e" using no_input_rejects [OF assms(1)] by auto
  then show ?thesis using that by (auto simp: Op_Eos crystalhd_decoder_submit_h264_eos_def)
qed (use assms(2) in \<open>simp_all add: is_submission_def\<close>)

lemma prepare_keeps: "input_closed ctx \<Longrightarrow> \<exists>rc. crystalhd_stream_prepare kz coh ctx = (rc, ctx)"
  by (erule input_closedE) (auto simp: crystalhd_stream_prepare_def)

lemma release_no_input: "no_input ctx \<Longrightarrow> no_input (fst (crystalhd_stream_release ctx))"
  by (auto simp: no_input_def input_closed_def crystalhd_stream_release_def split: option.splits)

text \<open>Before a release the closed stream stays; after one nothing is sent until a prepare.\<close>

lemma execs_closed:
  assumes "input_closed ctx" "\<forall>op\<in>set ops. \<not> is_release op"
  shows "\<exists>rcs. h264_execs ops ctx = Some (rcs, ctx, []) \<and> length rcs = length ops \<and>
    (\<forall>i<length ops. is_submission (ops ! i) \<longrightarrow> rcs ! i \<noteq> rc_ok)"
  using assms(2)
proof (induction ops)
  case (Cons op ops)
  have "\<exists>rc. h264_exec op ctx = Some (rc, ctx, []) \<and> (is_submission op \<longrightarrow> rc \<noteq> rc_ok)"
  proof (cases "is_submission op")
    case True
    moreover have "no_input ctx" using assms(1) by (simp add: no_input_def)
    ultimately obtain e where "h264_exec op ctx = Some (Some e, ctx, [])" using submission_refused by blast
    then show ?thesis by simp
  next
    case False
    then obtain kz coh where "op = Op_Prepare kz coh" using Cons.prems by (cases op) (auto simp: is_submission_def)
    then show ?thesis using prepare_keeps [OF assms(1), of kz coh] False by auto
  qed
  then show ?case using Cons by (auto simp: less_Suc_eq_0_disj)
qed simp

lemma execs_no_input:
  assumes "no_input ctx" "\<forall>op\<in>set ops. \<not> is_prepare op"
  shows "\<exists>rcs ctx'. h264_execs ops ctx = Some (rcs, ctx', []) \<and> length rcs = length ops \<and>
    (\<forall>i<length ops. is_submission (ops ! i) \<longrightarrow> rcs ! i \<noteq> rc_ok)"
  using assms
proof (induction ops arbitrary: ctx)
  case (Cons op ops)
  have "\<exists>rc ctx1. h264_exec op ctx = Some (rc, ctx1, []) \<and> no_input ctx1 \<and> (is_submission op \<longrightarrow> rc \<noteq> rc_ok)"
  proof (cases "is_submission op")
    case True
    with Cons.prems(1) obtain e where "h264_exec op ctx = Some (Some e, ctx, [])" by (rule submission_refused)
    then show ?thesis using Cons.prems(1) by simp
  next
    case False
    then have "op = Op_Stream_Release" using Cons.prems(2) by (cases op) (auto simp: is_submission_def)
    then show ?thesis using release_no_input [OF Cons.prems(1)] False by auto
  qed
  then obtain rc ctx1 where e: "h264_exec op ctx = Some (rc, ctx1, [])" "no_input ctx1" "is_submission op \<longrightarrow> rc \<noteq> rc_ok" by blast
  from Cons.IH [OF e(2)] Cons.prems(2) obtain rcs ctx2 where "h264_execs ops ctx1 = Some (rcs, ctx2, [])" "length rcs = length ops"
    "\<forall>i<length ops. is_submission (ops ! i) \<longrightarrow> rcs ! i \<noteq> rc_ok" by auto
  then show ?case using e by (auto simp: less_Suc_eq_0_disj)
qed simp

lemma execs_append:
  assumes "h264_execs xs ctx = Some (rs, ctx1, ss)" "h264_execs ys ctx1 = Some (rs', ctx2, ss')"
  shows "h264_execs (xs @ ys) ctx = Some (rs @ rs', ctx2, ss @ ss')"
  using assms
proof (induction xs arbitrary: ctx rs ss)
  case (Cons x xs)
  then show ?case by (auto simp: bind_eq_Some_conv)
qed simp

lemma deadline_error:
  "(\<exists>sts. crystalhd_tx_deadline_from_ms tj j ms = Inl sts) \<longleftrightarrow>
    crystalhd_tx_deadline_from_ms tj j ms = Inl BC_STS_INV_ARG"
  by (auto simp: crystalhd_tx_deadline_from_ms_def Let_def split: if_splits)

text \<open>A submission is refused before anything is staged, or it is its loop.\<close>

definition submit_refused :: "(u32 \<Rightarrow> u64) \<Rightarrow> u64 \<Rightarrow> crystalhd_cmd option \<Rightarrow> nat option \<Rightarrow> u32 \<Rightarrow> bool" where
  "submit_refused tj j ctx owner ms \<longleftrightarrow>
    crystalhd_decoder_validate_h264_locked ctx owner \<noteq> rc_ok \<or>
    (\<exists>sts. crystalhd_tx_deadline_from_ms tj j ms = Inl sts)"

lemma not_refusedE:
  assumes "\<not> submit_refused tj j ctx owner ms" "ctx_wf ctx"
  obtains c s dl where "crystalhd_decoder_validate_h264_locked ctx owner = rc_ok" "ctx = Some c"
    "cmd_stream c = Some s" "stream_wf s" "crystalhd_tx_deadline_from_ms tj j ms = Inr dl"
proof -
  have v: "crystalhd_decoder_validate_h264_locked ctx owner = rc_ok" using assms(1) by (simp add: submit_refused_def)
  then obtain c s where c: "ctx = Some c" "cmd_stream c = Some s" by (rule validate_okE)
  moreover have "stream_wf s" using c assms(2) by (simp add: ctx_wf_def)
  moreover obtain dl where "crystalhd_tx_deadline_from_ms tj j ms = Inr dl"
    using assms(1) by (cases "crystalhd_tx_deadline_from_ms tj j ms") (auto simp: submit_refused_def)
  ultimately show ?thesis using v that by blast
qed

lemma submit_h264_cases:
  assumes "ctx_wf ctx" "n \<le> length au"
  obtains (refused) e where "submit_refused tj j ctx owner ms \<or> n = 0"
      "crystalhd_decoder_submit_h264 tj j xfer ctx owner (Some au) n v pts ms = Some (Some e, ctx, [])"
  | (run) c s dl rc s' sent where "\<not> submit_refused tj j ctx owner ms" "0 < n" "ctx = Some c"
      "cmd_stream c = Some s" "stream_wf s" "crystalhd_tx_deadline_from_ms tj j ms = Inr dl"
      "submit_h264_loop xfer dl au n v pts s 0 [] = Some (rc, s', sent)"
      "crystalhd_decoder_submit_h264 tj j xfer ctx owner (Some au) n v pts ms =
         Some (rc, Some (c\<lparr>cmd_stream := Some s'\<rparr>), sent)"
proof (cases "submit_refused tj j ctx owner ms \<or> n = 0")
  case True
  then have "\<exists>e. crystalhd_decoder_submit_h264 tj j xfer ctx owner (Some au) n v pts ms = Some (Some e, ctx, [])"
    by (auto simp: crystalhd_decoder_submit_h264_def submit_refused_def deadline_error split: option.splits)
  with True show ?thesis using refused by blast
next
  case False
  then obtain c s dl where c: "crystalhd_decoder_validate_h264_locked ctx owner = rc_ok" "ctx = Some c"
    "cmd_stream c = Some s" "stream_wf s" "crystalhd_tx_deadline_from_ms tj j ms = Inr dl"
    using assms(1) not_refusedE by blast
  obtain rc s' sent where l: "submit_h264_loop xfer dl au n v pts s 0 [] = Some (rc, s', sent)"
    using submit_h264_loop_run [OF c(4) _ assms(2) refl, of 0 xfer dl v pts "[]"] by auto
  have "crystalhd_decoder_submit_h264 tj j xfer ctx owner (Some au) n v pts ms =
         Some (rc, Some (c\<lparr>cmd_stream := Some s'\<rparr>), sent)"
    using False c l by (simp add: crystalhd_decoder_submit_h264_def)
  with False c l show ?thesis by (intro run) auto
qed

lemma submit_eos_cases:
  assumes "ctx_wf ctx"
  obtains (refused) e where "submit_refused tj j ctx owner ms"
      "crystalhd_decoder_submit_h264_eos tj j xfer ctx owner ms = Some (Some e, ctx, [])"
  | (run) c s dl rc s' sent where "\<not> submit_refused tj j ctx owner ms" "ctx = Some c" "cmd_stream c = Some s" "stream_wf s"
      "submit_eos_loop xfer dl s [0..<4] [] = Some (rc, s', sent)"
      "crystalhd_decoder_submit_h264_eos tj j xfer ctx owner ms =
         Some (rc, Some (c\<lparr>cmd_stream := Some (if rc = rc_ok then s'\<lparr>st_eos_submitted := True\<rparr> else s')\<rparr>), sent)"
      "crystalhd_tx_deadline_from_ms tj j ms = Inr dl"
proof (cases "submit_refused tj j ctx owner ms")
  case True
  then have "\<exists>e. crystalhd_decoder_submit_h264_eos tj j xfer ctx owner ms = Some (Some e, ctx, [])"
    by (auto simp: crystalhd_decoder_submit_h264_eos_def submit_refused_def deadline_error split: option.splits)
  with True show ?thesis using refused by blast
next
  case False
  then obtain c s dl where c: "crystalhd_decoder_validate_h264_locked ctx owner = rc_ok" "ctx = Some c"
    "cmd_stream c = Some s" "stream_wf s" "crystalhd_tx_deadline_from_ms tj j ms = Inr dl"
    using assms(1) by (rule not_refusedE)
  obtain rc s' sent where l: "submit_eos_loop xfer dl s [0..<4] [] = Some (rc, s', sent)"
    using submit_eos_loop_run [OF c(4), of "[0..<4]" xfer dl "[]"] by auto
  have "crystalhd_decoder_submit_h264_eos tj j xfer ctx owner ms =
         Some (rc, Some (c\<lparr>cmd_stream := Some (if rc = rc_ok then s'\<lparr>st_eos_submitted := True\<rparr> else s')\<rparr>), sent)"
    using c l by (simp add: crystalhd_decoder_submit_h264_eos_def)
  with False c l show ?thesis by (intro run) auto
qed

lemma stream_wf_update [simp]:
  "stream_wf (s\<lparr>st_eos_submitted := b\<rparr>) = stream_wf s" "stream_wf (s\<lparr>st_refs := r\<rparr>) = stream_wf s"
  by (simp_all add: stream_wf_def)

text \<open>A transport failure or a completed end of stream closes the input.\<close>

lemma exec_closes:
  assumes "ctx_wf ctx" "op_wf op" "h264_exec op ctx = Some (rc, ctx', sent)"
    and "rc \<noteq> rc_ok \<and> sent \<noteq> [] \<or> is_eos op \<and> rc = rc_ok"
  shows "input_closed ctx'"
proof (cases op)
  case (Op_Prepare kz coh)
  then show ?thesis using assms by (auto split: prod.splits)
next
  case Op_Stream_Release
  then show ?thesis using assms by auto
next
  case (Op_Submit tj j xfer owner au n v pts ms)
  show ?thesis
  proof (cases au)
    case None
    then show ?thesis using assms Op_Submit by (simp add: crystalhd_decoder_submit_h264_def)
  next
    case (Some a)
    have n: "n \<le> length a" using assms(2) Op_Submit Some by simp
    show ?thesis
    proof (cases rule: submit_h264_cases [OF assms(1) n, of tj j owner ms xfer v pts, case_names refused run])
      case (run c s dl rc2 s2 sent2)
      then have "rc2 = rc" "ctx' = Some (c\<lparr>cmd_stream := Some s2\<rparr>)" "sent2 = sent"
        using assms(3) Op_Submit Some by auto
      then show ?thesis
        using submit_h264_loop_run [OF run(5) _ n refl, of 0 xfer dl v pts "[]"] run(7) assms(4) Op_Submit
        by (auto simp: input_closed_def)
    qed (use assms Op_Submit Some in auto)
  qed
next
  case (Op_Eos tj j xfer owner ms)
  show ?thesis
  proof (cases rule: submit_eos_cases [OF assms(1), of tj j owner ms xfer, case_names refused run])
    case (run c s dl rc2 s2 sent2)
    then have "rc2 = rc" "ctx' = Some (c\<lparr>cmd_stream := Some (if rc = rc_ok then s2\<lparr>st_eos_submitted := True\<rparr> else s2)\<rparr>)"
      using assms(3) Op_Eos by auto
    then show ?thesis
      using submit_eos_loop_run [OF run(4), of "[0..<4]" xfer dl "[]"] run(5) by (auto simp: input_closed_def)
  qed (use assms Op_Eos in auto)
qed

section \<open>Properties\<close>

definition demo_stream :: crystalhd_stream where
  "demo_stream = \<lparr>st_cpu = replicate 0xfff8 0, st_dma = 0x10000,
     st_buffer = \<lparr>tb_sgl = [(0, 0)], tb_dma_nents = 1, tb_bytes = 0, tb_tail_addr = 0,
                  tb_tail_size = 0, tb_has_cookie = True\<rparr>,
     st_refs = 1, st_failed = False, st_eos_submitted = False\<rparr>"

definition demo_ctx :: crystalhd_cmd where
  "demo_ctx = \<lparr>cmd_state = 1,
     cmd_adp = Some \<lparr>adp_pdev_device = Some 0x1615, adp_present = True, adp_dma_terminal_quiesced = False\<rparr>,
     cmd_session_owner = Some 7, cmd_decoder_phase = CRYSTALHD_DECODER_CHANNEL_STARTED,
     cmd_decoder_codec = CRYSTALHD_DECODER_CODEC_H264, cmd_fw_sequence = 1, cmd_decoder_channel_id = 0,
     cmd_stream = Some demo_stream, cmd_hw_ctx = Some \<lparr>hwf_dma_fault = False\<rparr>\<rparr>"

lemma demo_ctx_wf: "ctx_wf (Some demo_ctx)"
proof -
  have "(0x10000 :: u64) AND 3 = 0" "unat (0x10000 :: u64) = 0x10000" by simp_all
  then show ?thesis by (simp add: ctx_wf_def demo_ctx_def demo_stream_def stream_wf_def)
qed

text \<open>
  C2: Submitting an access unit. Whatever the transfers answer, the call returns; each packet it
  presents passes the transmit preflight with two descriptors, and the bytes the device reads at
  the described bus addresses parse as a PES packet. In order, their payloads are a prefix of the
  access unit, the whole of it when the call succeeds, and only the first packet carries the
  33-bit PTS, if there is one. A call that is not refused up front presents packets until a
  transfer fails; the status of the last transfer is its result.
\<close>

theorem h264_access_unit_packets:
  assumes "ctx_wf ctx" "bytes \<le> length au"
  shows "\<exists>rc ctx' sent pkts rest.
    crystalhd_decoder_submit_h264 tj j xfer ctx owner (Some au) bytes pts_valid pts ms = Some (rc, ctx', sent) \<and>
    (\<forall>p\<in>set sent. crystalhd_tx_buffer_preflight (Some (st_buffer p)) 2 = BC_STS_SUCCESS) \<and>
    map (\<lambda>p. parse_pes (staged_bytes p)) sent = map Some pkts \<and>
    concat (map snd pkts) @ rest = take bytes au \<and> (rc = rc_ok \<longrightarrow> rest = []) \<and>
    (\<forall>i<length pkts. fst (pkts ! i) = (if pts_valid \<and> i = 0 then Some (pts AND mask 33) else None)) \<and>
    (if submit_refused tj j ctx owner ms \<or> bytes = 0 then sent = [] \<and> rc \<noteq> rc_ok \<and> ctx' = ctx
     else \<exists>dl. crystalhd_tx_deadline_from_ms tj j ms = Inr dl \<and> sent \<noteq> [] \<and>
       (\<forall>i. Suc i < length sent \<longrightarrow> xfer i dl = BC_STS_SUCCESS) \<and>
       rc = crystalhd_status_to_errno (xfer (length sent - 1) dl))"
proof (cases rule: submit_h264_cases [OF assms, of tj j owner ms xfer pts_valid pts, case_names refused run])
  case (refused e)
  then show ?thesis by (intro exI [of _ "Some e"] exI [of _ ctx] exI [of _ "[]"] exI [of _ "take bytes au"]) auto
next
  case (run c s dl rc s' sent)
  define P where "P = pes_packets pts_valid pts (take bytes au)"
  have r: "map (\<lambda>p. parse_pes (staged_bytes p)) sent = map Some (take (length sent) P)"
    "\<forall>p\<in>set sent. presented_ok p"
    "if rc = rc_ok then length sent = length P \<and> st_failed s' = st_failed s
     else sent \<noteq> [] \<and> st_failed s' \<and> rc = crystalhd_status_to_errno (xfer (length sent - 1) dl)"
    "\<forall>i<length sent. Suc i < length sent \<or> rc = rc_ok \<longrightarrow> xfer i dl = BC_STS_SUCCESS"
    using submit_h264_loop_run [OF run(5) _ assms(2) refl, of 0 xfer dl pts_valid pts "[]"] run(7)
    by (auto simp: P_def split: if_splits)
  have "take bytes au \<noteq> []" using run(2) assms(2) by auto
  then have "P \<noteq> []" by (simp add: P_def pes_packets.simps [of pts_valid])
  then have ne: "sent \<noteq> []" using r(3) by (auto split: if_splits)
  have cc: "concat (map snd (take (length sent) P)) @ concat (map snd (drop (length sent) P)) = take bytes au"
    by (simp only: concat_append [symmetric] map_append [symmetric] append_take_drop_id)
       (simp add: P_def concat_pes_packets)
  have last: "rc = crystalhd_status_to_errno (xfer (length sent - 1) dl)"
  proof (cases "rc = rc_ok")
    case True
    then have "xfer (length sent - 1) dl = BC_STS_SUCCESS" using r(4) ne by simp
    with True show ?thesis by simp
  qed (use r(3) in \<open>auto split: if_splits\<close>)
  have pts: "\<forall>i<length (take (length sent) P). fst (take (length sent) P ! i) =
      (if pts_valid \<and> i = 0 then Some (pts AND mask 33) else None)"
    by (auto simp: P_def pes_packets_pts)
  have "rc = rc_ok \<longrightarrow> concat (map snd (drop (length sent) P)) = []" using r(3) by simp
  moreover have "\<forall>p\<in>set sent. crystalhd_tx_buffer_preflight (Some (st_buffer p)) 2 = BC_STS_SUCCESS"
    using r(2) by (simp add: presented_ok_def)
  moreover have "\<forall>i. Suc i < length sent \<longrightarrow> xfer i dl = BC_STS_SUCCESS" using r(4) by auto
  ultimately show ?thesis using run(1,2,6,8) r(1) cc last pts ne
    by (intro exI [of _ rc] exI [of _ "Some (c\<lparr>cmd_stream := Some s'\<rparr>)"] exI [of _ sent]
        exI [of _ "take (length sent) P"] exI [of _ "concat (map snd (drop (length sent) P))"]) auto
qed

theorem h264_access_unit_packets_witness:
  "\<exists>ctx' sent. crystalhd_decoder_submit_h264 (\<lambda>m. ucast m) 100 (\<lambda>_ _. BC_STS_SUCCESS) (Some demo_ctx) (Some 7)
     (Some [0, 0, 1, 0x65]) 4 True 0x1FFFFFFFF 50 = Some (rc_ok, ctx', sent) \<and>
     concat (map (\<lambda>p. snd (the (parse_pes (staged_bytes p)))) sent) = [0, 0, 1, 0x65]"
proof -
  have nr: "\<not> submit_refused (\<lambda>m. ucast m) 100 (Some demo_ctx) (Some 7) 50"
    by (simp add: submit_refused_def crystalhd_decoder_validate_h264_locked_def demo_ctx_def demo_stream_def
        crystalhd_tx_deadline_from_ms_def)
  have len: "4 \<le> length [0, 0, 1, 0x65 :: u8]" by simp
  obtain rc ctx' sent pkts rest where
    r: "crystalhd_decoder_submit_h264 (\<lambda>m. ucast m) 100 (\<lambda>_ _. BC_STS_SUCCESS) (Some demo_ctx) (Some 7)
     (Some [0, 0, 1, 0x65]) 4 True 0x1FFFFFFFF 50 = Some (rc, ctx', sent)"
    "map (\<lambda>p. parse_pes (staged_bytes p)) sent = map Some pkts"
    "concat (map snd pkts) @ rest = [0, 0, 1, 0x65]" "rc = rc_ok \<longrightarrow> rest = []" "rc = rc_ok"
    using h264_access_unit_packets [OF demo_ctx_wf len, of "\<lambda>m. ucast m" 100
        "\<lambda>_ _. BC_STS_SUCCESS" "Some 7" True "0x1FFFFFFFF" 50] nr by auto
  have "map (\<lambda>p. snd (the (parse_pes (staged_bytes p)))) sent = map snd pkts"
    using arg_cong [OF r(2), of "map (\<lambda>p. snd (the p))"] by (simp add: comp_def)
  with r show ?thesis by auto
qed

text \<open>
  C16: A transport failure, or a completed end of stream, closes the input until the stream is replaced. Take any
  later sequence of calls in which no prepare follows a release: \<open>before\<close> without a release, then \<open>after\<close>
  without a prepare. No call of it presents a packet to the device, every submission and end of stream is
  answered with an error, and up to the first release the context is unchanged: preparing again does not
  reopen a closed stream.
\<close>

theorem h264_input_closes:
  assumes "ctx_wf ctx" "op_wf op" "h264_exec op ctx = Some (rc, ctx', sent)"
    and "rc \<noteq> rc_ok \<and> sent \<noteq> [] \<or> is_eos op \<and> rc = rc_ok"
    and "\<forall>op\<in>set before. \<not> is_release op" "\<forall>op\<in>set after. \<not> is_prepare op"
  shows "\<exists>rcs rcs' ctx''. h264_execs before ctx' = Some (rcs, ctx', []) \<and>
    h264_execs (before @ after) ctx' = Some (rcs @ rcs', ctx'', []) \<and> length rcs = length before \<and> length rcs' = length after \<and>
    (\<forall>i<length before. is_submission (before ! i) \<longrightarrow> rcs ! i \<noteq> rc_ok) \<and>
    (\<forall>i<length after. is_submission (after ! i) \<longrightarrow> rcs' ! i \<noteq> rc_ok)"
proof -
  have c: "input_closed ctx'" using assms(1-4) by (rule exec_closes)
  from execs_closed [OF c assms(5)] obtain rcs where b: "h264_execs before ctx' = Some (rcs, ctx', [])" "length rcs = length before"
    "\<forall>i<length before. is_submission (before ! i) \<longrightarrow> rcs ! i \<noteq> rc_ok" by blast
  have "no_input ctx'" using c by (simp add: no_input_def)
  from execs_no_input [OF this assms(6)] obtain rcs' ctx'' where a: "h264_execs after ctx' = Some (rcs', ctx'', [])" "length rcs' = length after"
    "\<forall>i<length after. is_submission (after ! i) \<longrightarrow> rcs' ! i \<noteq> rc_ok" by blast
  show ?thesis using b a execs_append [OF b(1) a(1)] by auto
qed


theorem h264_input_closes_witness:
  "\<exists>e ctx' sent rcs. h264_exec (Op_Submit (\<lambda>m. ucast m) 100 (\<lambda>_ _. BC_STS_TIMEOUT) (Some 7) (Some [0, 0, 1, 0x65])
      4 False 0 50) (Some demo_ctx) = Some (Some e, ctx', sent) \<and>
     h264_execs [Op_Prepare True None, Op_Eos (\<lambda>m. ucast m) 200 (\<lambda>_ _. BC_STS_SUCCESS) (Some 7) 50] ctx' =
       Some (rcs, ctx', []) \<and> rcs ! 1 \<noteq> rc_ok \<and>
     (\<exists>rcs' ctx''. h264_execs ([Op_Prepare True None, Op_Eos (\<lambda>m. ucast m) 200 (\<lambda>_ _. BC_STS_SUCCESS) (Some 7) 50] @ [Op_Stream_Release]) ctx' =
       Some (rcs @ rcs', ctx'', []))"
proof -
  let ?op = "Op_Submit (\<lambda>m. ucast m) 100 (\<lambda>_ _. BC_STS_TIMEOUT) (Some 7) (Some [0, 0, 1, 0x65]) 4 False 0 50"
  let ?ops = "[Op_Prepare True None, Op_Eos (\<lambda>m. ucast m) 200 (\<lambda>_ _. BC_STS_SUCCESS) (Some 7) 50]"
  have nr: "\<not> submit_refused (\<lambda>m. ucast m) 100 (Some demo_ctx) (Some 7) 50"
    by (simp add: submit_refused_def crystalhd_decoder_validate_h264_locked_def demo_ctx_def demo_stream_def
        crystalhd_tx_deadline_from_ms_def)
  have len: "4 \<le> length [0, 0, 1, 0x65 :: u8]" by simp
  obtain c s dl rc s' sent where run: "stream_wf s" 
      "submit_h264_loop (\<lambda>_ _. BC_STS_TIMEOUT) dl [0, 0, 1, 0x65] 4 False 0 s 0 [] = Some (rc, s', sent)"
      "h264_exec ?op (Some demo_ctx) = Some (rc, Some (c\<lparr>cmd_stream := Some s'\<rparr>), sent)"
  proof (cases rule: submit_h264_cases [OF demo_ctx_wf len, of "\<lambda>m. ucast m" 100 "Some 7" 50
        "\<lambda>_ _. BC_STS_TIMEOUT" False 0, case_names refused run])
    case (run c s dl rc s' sent)
    then show ?thesis by (intro that [of s dl rc s' sent c]) simp_all
  qed (use nr in simp)
  have "rc \<noteq> rc_ok \<and> sent \<noteq> []"
  proof -
    obtain p ps where "pes_packets False 0 [0, 0, 1, 0x65] = p # ps" by (subst (asm) pes_packets.simps) simp
    then show ?thesis
      using submit_h264_loop_run [OF run(1) _ len refl, of 0 "\<lambda>_ _. BC_STS_TIMEOUT" dl False 0 "[]"] run(2)
      by (auto split: if_splits)
  qed
  with run(3) obtain e ctx' sent where
    ex: "h264_exec ?op (Some demo_ctx) = Some (Some e, ctx', sent)" "Some e \<noteq> rc_ok \<and> sent \<noteq> []" by auto
  have w: "op_wf ?op" using len by simp
  have ops: "\<forall>op\<in>set ?ops. \<not> is_release op" "\<forall>op\<in>set [Op_Stream_Release]. \<not> is_prepare op" by simp_all
  obtain rcs rcs' ctx'' where r: "h264_execs ?ops ctx' = Some (rcs, ctx', [])"
    "h264_execs (?ops @ [Op_Stream_Release]) ctx' = Some (rcs @ rcs', ctx'', [])"
    "\<forall>i<length ?ops. is_submission (?ops ! i) \<longrightarrow> rcs ! i \<noteq> rc_ok"
    using h264_input_closes [OF demo_ctx_wf w ex(1) disjI1 [OF ex(2)] ops] by blast
  have "is_submission (?ops ! 1)" "1 < length ?ops" by (simp_all add: is_submission_def)
  then have "rcs ! 1 \<noteq> rc_ok" using r(3) by blast
  then show ?thesis using ex(1) r(1,2) by blast
qed

text \<open>
  C30: End of stream. A call that is refused up front presents nothing and leaves the context alone. Any
  other call presents the packets end, marker, end, end in this order, one transfer each, and stops at the
  first transfer that fails, whose status is its result; it succeeds exactly when all four transfers do.
  Each packet the device reads is a well-formed PES packet, and each staged buffer passes the transmit
  preflight.
\<close>

theorem h264_eos_sequence:
  assumes "ctx_wf ctx"
  shows "\<exists>rc ctx' sent.
    crystalhd_decoder_submit_h264_eos tj j xfer ctx owner ms = Some (rc, ctx', sent) \<and>
    map staged_bytes sent = take (length sent) [eos_packet, eos_marker, eos_packet, eos_packet] \<and>
    (\<forall>p\<in>set sent. parse_pes (staged_bytes p) \<noteq> None \<and>
       crystalhd_tx_buffer_preflight (Some (st_buffer p)) 2 = BC_STS_SUCCESS) \<and>
    (if submit_refused tj j ctx owner ms then sent = [] \<and> rc \<noteq> rc_ok \<and> ctx' = ctx
     else \<exists>dl. crystalhd_tx_deadline_from_ms tj j ms = Inr dl \<and> sent \<noteq> [] \<and> length sent \<le> 4 \<and>
       (\<forall>i. Suc i < length sent \<longrightarrow> xfer i dl = BC_STS_SUCCESS) \<and>
       rc = crystalhd_status_to_errno (xfer (length sent - 1) dl) \<and>
       (xfer (length sent - 1) dl = BC_STS_SUCCESS \<longrightarrow> length sent = 4))"
proof (cases rule: submit_eos_cases [OF assms, of tj j owner ms xfer, case_names refused run])
  case (refused e)
  then show ?thesis by (intro exI [of _ "Some e"] exI [of _ ctx] exI [of _ "[]"]) auto
next
  case (run c s dl rc s' sent)
  have r: "map staged_bytes sent = map eos_bytes (take (length sent) [0..<4])" "\<forall>p\<in>set sent. presented_ok p"
    "if rc = rc_ok then length sent = 4 \<and> st_failed s' = st_failed s
     else sent \<noteq> [] \<and> length sent \<le> 4 \<and> st_failed s' \<and> rc = crystalhd_status_to_errno (xfer (length sent - 1) dl)"
    "\<forall>i<length sent. Suc i < length sent \<or> rc = rc_ok \<longrightarrow> xfer i dl = BC_STS_SUCCESS"
    using submit_eos_loop_run [OF run(4), of "[0..<4]" xfer dl "[]"] run(5) by (auto split: if_splits)
  have four: "map eos_bytes [0..<4] = [eos_packet, eos_marker, eos_packet, eos_packet]"
    by (simp add: eos_bytes_def upt_conv_Cons)
  have seq: "map staged_bytes sent = take (length sent) [eos_packet, eos_marker, eos_packet, eos_packet]"
    unfolding r(1) four [symmetric] by (simp add: take_map)
  have "parse_pes eos_packet \<noteq> None" "parse_pes eos_marker \<noteq> None" by code_simp+
  moreover have "set (map staged_bytes sent) \<subseteq> {eos_packet, eos_marker}"
    unfolding seq by (rule subset_trans [OF set_take_subset]) auto
  ultimately have ok: "\<forall>p\<in>set sent. parse_pes (staged_bytes p) \<noteq> None \<and> crystalhd_tx_buffer_preflight (Some (st_buffer p)) 2 = BC_STS_SUCCESS"
    using r(2) by (auto simp: presented_ok_def)
  have len: "sent \<noteq> []" "length sent \<le> 4" using r(3) by (auto split: if_splits)
  have last: "rc = crystalhd_status_to_errno (xfer (length sent - 1) dl)"
  proof (cases "rc = rc_ok")
    case True
    then have "xfer (length sent - 1) dl = BC_STS_SUCCESS" using r(4) len(1) by simp
    with True show ?thesis by simp
  qed (use r(3) in \<open>auto split: if_splits\<close>)
  moreover have "length sent = 4" if "xfer (length sent - 1) dl = BC_STS_SUCCESS" using r(3) last that by (auto split: if_splits)
  moreover have "\<forall>i. Suc i < length sent \<longrightarrow> xfer i dl = BC_STS_SUCCESS" using r(4) by auto
  ultimately show ?thesis using run(1,6,7) seq ok len
    by (intro exI [of _ rc] exI [of _ "Some (c\<lparr>cmd_stream := Some (if rc = rc_ok then s'\<lparr>st_eos_submitted := True\<rparr> else s')\<rparr>)"] exI [of _ sent]) auto
qed

theorem h264_eos_sequence_witness:
  "\<exists>rc ctx' sent. crystalhd_decoder_submit_h264_eos (\<lambda>m. ucast m) 100 (\<lambda>i _. if i = 2 then BC_STS_TIMEOUT else BC_STS_SUCCESS)
     (Some demo_ctx) (Some 7) 50 = Some (rc, ctx', sent) \<and> rc = Some ETIMEDOUT \<and>
     map staged_bytes sent = [eos_packet, eos_marker, eos_packet]"
proof -
  let ?x = "\<lambda>(i::nat) (dl::u64). if i = 2 then BC_STS_TIMEOUT else BC_STS_SUCCESS"
  have nr: "\<not> submit_refused (\<lambda>m. ucast m) 100 (Some demo_ctx) (Some 7) 50"
    by (simp add: submit_refused_def crystalhd_decoder_validate_h264_locked_def demo_ctx_def demo_stream_def
        crystalhd_tx_deadline_from_ms_def)
  from h264_eos_sequence [OF demo_ctx_wf, of "\<lambda>m. ucast m" 100 ?x "Some 7" 50] nr obtain rc ctx' sent dl where
    r: "crystalhd_decoder_submit_h264_eos (\<lambda>m. ucast m) 100 ?x (Some demo_ctx) (Some 7) 50 = Some (rc, ctx', sent)"
    "map staged_bytes sent = take (length sent) [eos_packet, eos_marker, eos_packet, eos_packet]"
    "sent \<noteq> []" "length sent \<le> 4" "\<forall>i. Suc i < length sent \<longrightarrow> ?x i dl = BC_STS_SUCCESS"
    "rc = crystalhd_status_to_errno (?x (length sent - 1) dl)" "?x (length sent - 1) dl = BC_STS_SUCCESS \<longrightarrow> length sent = 4"
    by auto
  have "length sent \<noteq> 4" using r(5) by (auto dest!: spec [of _ 2])
  then have "length sent = 3" using r(3,4,7) by (auto split: if_splits)
  then show ?thesis using r(1,2,6) by (intro exI [of _ rc] exI [of _ ctx'] exI [of _ sent]) simp
qed

end
