(* ===== verification/V4l2_Output.thy ===== *)
theory V4l2_Output
  imports H264_Stream
begin

text \<open>
  The V4L2 OUTPUT buffers (\<^verbatim>\<open>driver/linux/crystalhd_v4l2_output.c\<close>): a queued access unit of at most
  one PES packet is sent straight from its mapped plane, behind a coherent header and in front of a
  coherent copy of its last partial word; a larger one goes through the stager. The buffer is
  returned only when the core holds no lease on it. What the video buffer framework answers is an
  argument. Which side owns the plane is part of the state: the processor reading it while the
  device owns it is \<^const>\<open>None\<close>, like a write outside an array.
\<close>

section \<open>Data\<close>

abbreviation (input) CHD_OUTPUT_HEADER_BYTES :: nat where "CHD_OUTPUT_HEADER_BYTES \<equiv> 16"
abbreviation (input) CHD_OUTPUT_MAX_AU_BYTES :: u64 where "CHD_OUTPUT_MAX_AU_BYTES \<equiv> 8388608"
abbreviation (input) CHD_OUTPUT_SIDECAR_BYTES :: nat where "CHD_OUTPUT_SIDECAR_BYTES \<equiv> 20"
abbreviation (input) CHD_OUTPUT_DIRECT_LIMIT :: u32 where "CHD_OUTPUT_DIRECT_LIMIT \<equiv> 65508"
abbreviation (input) BC_LINK_MAX_SGLS :: nat where "BC_LINK_MAX_SGLS \<equiv> 1024"

record sg_table =
  sgt_sgl :: "sg_entry list"
  sgt_nents :: u32
  sgt_orig_nents :: u32

text \<open>\<open>vo_wire_sg\<close> is the array \<^verbatim>\<open>tx.sgl\<close> points to; \<open>vo_device_owned\<close> says who owns the plane.\<close>

record crystalhd_v4l2_output_buffer =
  vo_tx :: crystalhd_tx_buffer
  vo_dev :: nat
  vo_source :: "sg_table option"
  vo_wire_sg :: "sg_entry list option"
  vo_vaddr :: "u8 list option"
  vo_header :: "u8 list option"
  vo_header_dma :: u64
  vo_refs :: u32
  vo_payload :: u32
  vo_cpu_synced :: bool
  vo_prepared :: bool
  vo_failed :: bool
  vo_skip_finish :: bool
  vo_device_owned :: bool

text \<open>What the video buffer framework says of a buffer.\<close>

record vb2_queue_view =
  vq_dev :: nat
  vq_dma_sg :: bool
  vq_to_device :: bool

record vb2_view =
  vb_queue :: "vb2_queue_view option"
  vb_mmap :: bool
  vb_num_planes :: u32
  vb_payload :: u64
  vb_plane_size :: u64
  vb_sgt :: "sg_table option"
  vb_vaddr :: "u8 list option"

section \<open>Leases\<close>

definition crystalhd_output_get :: "crystalhd_v4l2_output_buffer \<Rightarrow> crystalhd_v4l2_output_buffer" where
  "crystalhd_output_get b = b\<lparr>vo_refs := refcount_inc (vo_refs b)\<rparr>"

definition crystalhd_output_put :: "crystalhd_v4l2_output_buffer \<Rightarrow> crystalhd_v4l2_output_buffer" where
  "crystalhd_output_put b =
    (if vo_refs b \<le> 1 then b
     else b\<lparr>vo_refs := (if vo_refs b \<ge> 0x80000000 then REFCOUNT_SATURATED else vo_refs b - 1)\<rparr>)"

definition crystalhd_v4l2_output_owned :: "crystalhd_v4l2_output_buffer \<Rightarrow> bool" where
  "crystalhd_v4l2_output_owned b \<longleftrightarrow> vo_refs b > 1"

definition crystalhd_output_cpu :: "crystalhd_v4l2_output_buffer \<Rightarrow> crystalhd_v4l2_output_buffer" where
  "crystalhd_output_cpu b =
    (if vo_cpu_synced b then b else b\<lparr>vo_device_owned := False, vo_cpu_synced := True\<rparr>)"

definition plane_read :: "crystalhd_v4l2_output_buffer \<Rightarrow> nat \<Rightarrow> nat \<Rightarrow> u8 list option" where
  "plane_read b off n = (if vo_device_owned b then None else do { v \<leftarrow> vo_vaddr b; mem_read v off n })"

text \<open>The pointer to the plane, lent to a routine that reads through it.\<close>

definition plane_lend :: "crystalhd_v4l2_output_buffer \<Rightarrow> u8 list option option" where
  "plane_lend b = (if vo_device_owned b then None else Some (vo_vaddr b))"

text \<open>Result: error, or data and size; and the buffer.\<close>

definition crystalhd_v4l2_output_source ::
  "crystalhd_v4l2_output_buffer option \<Rightarrow> (errno + u8 list \<times> nat) \<times> crystalhd_v4l2_output_buffer option" where
  "crystalhd_v4l2_output_source buffer =
    (case buffer of None \<Rightarrow> (Inl EINVAL, None)
     | Some b \<Rightarrow>
       (case (vo_vaddr b, vo_source b) of
          (Some v, Some src) \<Rightarrow>
            if \<not> vo_prepared b \<or> vo_payload b = 0 then (Inl EINVAL, buffer)
            else if crystalhd_v4l2_output_owned b then (Inl EBUSY, buffer)
            else if vo_failed b then (Inl EPIPE, buffer)
            else (Inr (v, unat (vo_payload b)), Some (crystalhd_output_cpu b))
        | _ \<Rightarrow> (Inl EINVAL, buffer)))"

definition crystalhd_v4l2_output_retire ::
  "crystalhd_v4l2_output_buffer \<Rightarrow> bool \<times> crystalhd_v4l2_output_buffer" where
  "crystalhd_v4l2_output_retire b =
    (if crystalhd_v4l2_output_owned b then (False, b)
     else (True, if vo_prepared b then (crystalhd_output_cpu b)\<lparr>vo_skip_finish := True\<rparr> else b))"

section \<open>Life cycle\<close>

text \<open>\<open>wire\<close>: the array allocation succeeds; \<open>coh\<close>: the coherent header and its bus address.\<close>

definition crystalhd_v4l2_output_init ::
  "bool \<Rightarrow> (u8 list \<times> u64) option \<Rightarrow> nat option \<Rightarrow> crystalhd_v4l2_output_buffer \<Rightarrow> rc \<times> crystalhd_v4l2_output_buffer" where
  "crystalhd_v4l2_output_init wire coh dev b =
    (case dev of None \<Rightarrow> (Some EINVAL, b)
     | Some d \<Rightarrow>
       let b = b\<lparr>vo_dev := d, vo_refs := 1, vo_prepared := False, vo_failed := False, vo_source := None,
                 vo_vaddr := None, vo_header := None, vo_wire_sg := None\<rparr>
       in if \<not> wire then (Some ENOMEM, b)
          else (case coh of None \<Rightarrow> (Some ENOMEM, b)
            | Some (h, dma) \<Rightarrow>
              (rc_ok, b\<lparr>vo_wire_sg := Some (replicate BC_LINK_MAX_SGLS (0, 0)), vo_header := Some h,
                 vo_header_dma := dma,
                 vo_tx := \<lparr>tb_sgl = replicate BC_LINK_MAX_SGLS (0, 0), tb_dma_nents = 0, tb_bytes = 0,
                           tb_tail_addr = 0, tb_tail_size = 0, tb_has_cookie = True\<rparr>\<rparr>)))"

text \<open>Result: the buffer and whether header and array were freed.\<close>

definition crystalhd_v4l2_output_cleanup ::
  "crystalhd_v4l2_output_buffer \<Rightarrow> bool \<times> crystalhd_v4l2_output_buffer" where
  "crystalhd_v4l2_output_cleanup b =
    (let (retired, b1) = crystalhd_v4l2_output_retire b
     in if \<not> retired then (False, b1)
        else (True, b1\<lparr>vo_header := None, vo_wire_sg := None, vo_prepared := False, vo_source := None, vo_vaddr := None\<rparr>))"

text \<open>The pass over the mapped entries: bytes available, or invalid.\<close>

fun prepare_scan :: "nat \<Rightarrow> sg_entry list \<Rightarrow> u64 \<Rightarrow> u64 option" where
  "prepare_scan 0 sgs available = Some available"
| "prepare_scan (Suc n) [] available = None"
| "prepare_scan (Suc n) ((a, len) # sgs) available =
    (if len = 0 \<or> (ucast len OR a) AND 3 \<noteq> 0 \<or> a + ucast len - 1 < a then None
     else prepare_scan n sgs (available + ucast len))"

definition crystalhd_v4l2_output_prepare ::
  "vb2_view \<Rightarrow> crystalhd_v4l2_output_buffer \<Rightarrow> rc \<times> crystalhd_v4l2_output_buffer" where
  "crystalhd_v4l2_output_prepare vb b0 =
    (if crystalhd_v4l2_output_owned b0 then (Some EBUSY, b0)
     else
       let b = b0\<lparr>vo_skip_finish := False, vo_prepared := False\<rparr>; payload = vb_payload vb
       in case vb_queue vb of None \<Rightarrow> (Some EINVAL, b)
       | Some q \<Rightarrow>
         if vq_dev q \<noteq> vo_dev b \<or> vo_header b = None \<or> vo_wire_sg b = None \<or> \<not> vq_dma_sg q \<or>
            \<not> vq_to_device q \<or> \<not> vb_mmap vb \<or> vb_num_planes vb \<noteq> 1
         then (Some EINVAL, b)
         else if payload = 0 \<or> payload > 0xFFFFFFFF \<or> payload > vb_plane_size vb then (Some EINVAL, b)
         else if payload > CHD_OUTPUT_MAX_AU_BYTES then (Some E2BIG, b)
         else (case vb_sgt vb of None \<Rightarrow> (Some EINVAL, b)
           | Some sgt \<Rightarrow>
             if sgt_sgl sgt = [] \<or> sgt_nents sgt = 0 \<or> sgt_nents sgt > sgt_orig_nents sgt then (Some EINVAL, b)
             else (case prepare_scan (unat (sgt_nents sgt)) (sgt_sgl sgt) 0 of None \<Rightarrow> (Some EINVAL, b)
               | Some available \<Rightarrow>
                 if available < payload then (Some EINVAL, b)
                 else (case vb_vaddr vb of None \<Rightarrow> (Some ENOMEM, b)
                   | Some v \<Rightarrow>
                     (rc_ok, b\<lparr>vo_source := Some sgt, vo_vaddr := Some v, vo_payload := ucast payload,
                        vo_prepared := True, vo_failed := False, vo_cpu_synced := False,
                        vo_device_owned := True\<rparr>)))))"

section \<open>One packet\<close>

definition output_header :: "u32 \<Rightarrow> u64 \<Rightarrow> u8 list" where
  "output_header payload pts =
    (let len = payload + 10
     in [0, 0, 1, 0xe0, ucast (drop_bit 8 len), ucast len, 0x81, 0x80, 7,
         ucast (0x21 OR push_bit 1 (drop_bit 30 pts AND 0x07)), ucast (drop_bit 22 pts),
         ucast (0x01 OR push_bit 1 (drop_bit 15 pts AND 0x7f)), ucast (drop_bit 7 pts),
         ucast (0x01 OR push_bit 1 (pts AND 0x7f)), 0xff, 0xff])"

text \<open>
  The payload entries: \<open>n\<close> source entries are left, \<open>remaining\<close> bytes wanted, \<open>nents\<close> wire entries
  written. Result: error, or bytes still wanted and wire entries; and the array.
\<close>

fun packet_loop ::
  "nat \<Rightarrow> nat \<Rightarrow> sg_entry list \<Rightarrow> u32 \<Rightarrow> nat \<Rightarrow> sg_entry list \<Rightarrow> ((errno + u32 \<times> nat) \<times> sg_entry list) option" where
  "packet_loop limit 0 sgs remaining nents wire = Some (Inr (remaining, nents), wire)"
| "packet_loop limit (Suc n) sgs remaining nents wire =
    (if remaining = 0 then Some (Inr (remaining, nents), wire)
     else (case sgs of [] \<Rightarrow> None
       | (a, len) # rest \<Rightarrow>
         if nents \<ge> limit then Some (Inl E2BIG, wire)
         else
           let tk = min remaining len
           in do { w \<leftarrow> cell_upd wire nents (\<lambda>_. (a, tk));
                   packet_loop limit n rest (remaining - tk) (nents + 1) w }))"

definition set_wire :: "sg_entry list \<Rightarrow> crystalhd_v4l2_output_buffer \<Rightarrow> crystalhd_v4l2_output_buffer" where
  "set_wire w b = b\<lparr>vo_wire_sg := Some w, vo_tx := (vo_tx b)\<lparr>tb_sgl := w\<rparr>\<rparr>"

definition crystalhd_output_packet ::
  "crystalhd_v4l2_output_buffer \<Rightarrow> u64 \<Rightarrow> (rc \<times> crystalhd_v4l2_output_buffer) option" where
  "crystalhd_output_packet b0 pts =
    (if crystalhd_v4l2_output_owned b0 then Some (Some EBUSY, b0)
     else
       let b = crystalhd_output_cpu b0; payload = vo_payload b; aligned = payload AND NOT 3; tail = payload AND 3
       in do {
         src \<leftarrow> vo_source b;
         h0 \<leftarrow> vo_header b;
         wire0 \<leftarrow> vo_wire_sg b;
         h1 \<leftarrow> mem_write h0 0 (output_header payload pts);
         wire1 \<leftarrow> cell_upd wire0 0 (\<lambda>_. (vo_header_dma b, 16));
         (r, wire2) \<leftarrow> packet_loop (BC_LINK_MAX_SGLS - (if tail \<noteq> 0 then 1 else 0))
                        (unat (sgt_nents src)) (sgt_sgl src) aligned 1 wire1;
         (case r of
            Inl e \<Rightarrow> Some (Some e, (set_wire wire2 b)\<lparr>vo_header := Some h1\<rparr>)
          | Inr (remaining, nents) \<Rightarrow>
            if remaining \<noteq> 0 then Some (Some EINVAL, (set_wire wire2 b)\<lparr>vo_header := Some h1\<rparr>)
            else do {
              h2 \<leftarrow> mem_write h1 CHD_OUTPUT_HEADER_BYTES [0, 0, 0, 0];
              h3 \<leftarrow> (if tail \<noteq> 0 then do { bs \<leftarrow> plane_read b (unat aligned) (unat tail);
                                         mem_write h2 CHD_OUTPUT_HEADER_BYTES bs }
                     else Some h2);
              Some (rc_ok, (set_wire wire2 b)\<lparr>vo_header := Some h3,
                vo_tx := \<lparr>tb_sgl = wire2, tb_dma_nents = word_of_nat nents, tb_bytes = 16 + payload,
                          tb_tail_addr = (if tail \<noteq> 0 then vo_header_dma b + 16 else 0), tb_tail_size = tail,
                          tb_has_cookie = tb_has_cookie (vo_tx b)\<rparr>\<rparr>) }) })"

section \<open>Submission\<close>

text \<open>What was presented to the device: the buffer itself, or packets of the stager.\<close>

datatype presented = Direct crystalhd_v4l2_output_buffer | Staged "crystalhd_stream list"

definition retire_with ::
  "rc \<Rightarrow> crystalhd_cmd option \<Rightarrow> crystalhd_v4l2_output_buffer \<Rightarrow> presented option
    \<Rightarrow> (rc \<times> crystalhd_cmd option \<times> crystalhd_v4l2_output_buffer \<times> presented option) option" where
  "retire_with rc cmd b p = Some (rc, cmd, snd (crystalhd_v4l2_output_retire b), p)"

text \<open>
  \<open>xfer\<close> answers the stager's transfers. \<open>direct\<close> answers the transfer of the buffer itself: its status
  and the reference count afterwards.
\<close>

definition crystalhd_v4l2_output_submit ::
  "(u32 \<Rightarrow> u64) \<Rightarrow> u64 \<Rightarrow> (nat \<Rightarrow> u64 \<Rightarrow> bc_status) \<Rightarrow> (u64 \<Rightarrow> bc_status \<times> u32)
    \<Rightarrow> crystalhd_cmd option \<Rightarrow> nat option \<Rightarrow> crystalhd_v4l2_output_buffer \<Rightarrow> u64 \<Rightarrow> u32
    \<Rightarrow> (rc \<times> crystalhd_cmd option \<times> crystalhd_v4l2_output_buffer \<times> presented option) option" where
  "crystalhd_v4l2_output_submit msecs_to_jiffies jiffies xfer direct cmd owner b pts timeout_ms =
    (if crystalhd_v4l2_output_owned b then Some (Some EBUSY, cmd, b, None)
     else if \<not> vo_prepared b then Some (Some EINVAL, cmd, b, None)
     else if vo_failed b then retire_with (Some EPIPE) cmd b None
     else (case crystalhd_decoder_validate_h264_locked cmd owner of
         Some e \<Rightarrow> retire_with (Some e) cmd b None
       | None \<Rightarrow>
         if drop_bit 33 pts \<noteq> 0 then retire_with (Some EINVAL) cmd b None
         else if vo_payload b > CHD_OUTPUT_DIRECT_LIMIT then do {
           let b1 = crystalhd_output_cpu b;
           data \<leftarrow> plane_lend b1;
           (rc, cmd1, sent) \<leftarrow> crystalhd_decoder_submit_h264 msecs_to_jiffies jiffies xfer cmd owner
                               data (unat (vo_payload b1)) True pts timeout_ms;
           retire_with rc cmd1 (if rc \<noteq> rc_ok then b1\<lparr>vo_failed := True\<rparr> else b1) (Some (Staged sent)) }
         else (case crystalhd_tx_deadline_from_ms msecs_to_jiffies jiffies timeout_ms of
             Inl sts \<Rightarrow> retire_with (crystalhd_status_to_errno sts) cmd b None
           | Inr deadline \<Rightarrow> do {
               (rc, b1) \<leftarrow> crystalhd_output_packet b pts;
               (if rc \<noteq> rc_ok then retire_with rc cmd (b1\<lparr>vo_failed := True\<rparr>) None
                else
                  let b2 = b1\<lparr>vo_cpu_synced := False, vo_device_owned := True\<rparr>;
                      (sts, refs) = direct deadline;
                      b3 = b2\<lparr>vo_refs := refs\<rparr>;
                      rc = crystalhd_status_to_errno sts;
                      rc = (if crystalhd_v4l2_output_owned b3 \<and> rc = rc_ok then Some EIO else rc)
                  in retire_with rc cmd (if rc \<noteq> rc_ok then b3\<lparr>vo_failed := True\<rparr> else b3) (Some (Direct b2))) })))"

section \<open>Wire entries\<close>

fun wire_takes :: "u32 \<Rightarrow> sg_entry list \<Rightarrow> sg_entry list" where
  "wire_takes rem [] = []"
| "wire_takes rem ((a, l) # sgs) = (if rem = 0 then [] else (a, min rem l) # wire_takes (rem - min rem l) sgs)"

definition sg_sum :: "sg_entry list \<Rightarrow> nat" where
  "sg_sum sgs = sum_list (map (\<lambda>(a, l). unat l) sgs)"

lemma sg_sum_simps [simp]: "sg_sum [] = 0" "sg_sum ((a, l) # sgs) = unat l + sg_sum sgs"
  by (simp_all add: sg_sum_def)

lemma unat_min: "unat (min a b) = min (unat a) (unat b)" for a b :: u32
  by (simp add: min_def word_le_nat_alt)

lemma unat_minus_min: "unat (a - min a b) = unat a - unat b" for a b :: u32
proof -
  have "min a b \<le> a" by simp
  then show ?thesis by (simp add: unat_sub unat_min)
qed

lemma wire_takes_sum: "sg_sum (wire_takes rem sgs) = min (unat rem) (sg_sum sgs)"
proof (induction rem sgs rule: wire_takes.induct)
  case (2 rem a l sgs)
  show ?case
  proof (cases "rem = 0")
    case False
    then show ?thesis using 2 by (simp add: unat_min unat_minus_min)
  qed simp
qed simp

lemma wire_takes_bytes: "sg_bytes (wire_takes rem sgs) = take (unat rem) (sg_bytes sgs)"
proof (induction rem sgs rule: wire_takes.induct)
  case (2 rem a l sgs)
  have c: "sg_bytes ((x, y) # zs) = span x (unat y) @ sg_bytes zs" for x y zs by (simp add: sg_bytes_def)
  show ?case
  proof (cases "rem = 0")
    case False
    then show ?thesis using 2 by (simp add: c span_take unat_min unat_minus_min)
  qed (simp add: sg_bytes_def)
qed (simp add: sg_bytes_def)

definition entry_ok :: "sg_entry \<Rightarrow> bool" where
  "entry_ok e \<longleftrightarrow> snd e \<noteq> 0 \<and> \<not> unaligned (fst e) (snd e)"

lemma wire_takes_ok:
  assumes "rem AND 3 = 0" "\<forall>e\<in>set sgs. entry_ok e"
  shows "\<forall>e\<in>set (wire_takes rem sgs). entry_ok e"
  using assms
proof (induction rem sgs rule: wire_takes.induct)
  case (2 rem a l sgs)
  have l: "l AND 3 = 0" "a AND 3 = 0" "l \<noteq> 0" using 2(3) by (simp_all add: entry_ok_def unaligned_def)
  have "(rem - min rem l) AND 3 = 0" 
  proof -
    have m: "x AND 3 = 0 \<longleftrightarrow> unat x mod 4 = 0" for x :: u32
    proof -
      have "x AND 3 = take_bit 2 x" by (simp add: take_bit_eq_mask mask_eq_exp_minus_1)
      moreover have "unat (take_bit 2 x) = unat x mod 4" by (simp add: take_bit_eq_mod unat_mod)
      ultimately show ?thesis by (metis unat_0 unsigned_word_eqI)
    qed
    show ?thesis using 2(2) l unfolding m unat_minus_min by presburger
  qed
  then show ?case using 2 l by (auto simp: entry_ok_def unaligned_def min_def)
qed simp

lemma packet_loop_run:
  assumes "n \<le> length sgs" "nents \<le> limit" "limit \<le> length wire"
    and ts: "ts = wire_takes rem (take n sgs)"
  shows "\<exists>w. length w = length wire \<and>
    packet_loop limit n sgs rem nents wire =
      Some (if nents + length ts \<le> limit then Inr (rem - word_of_nat (sg_sum ts), nents + length ts) else Inl E2BIG, w) \<and>
    (nents + length ts \<le> limit \<longrightarrow> take (nents + length ts) w = take nents wire @ ts)"
  using assms(1-3) unfolding ts
proof (induction limit n sgs rem nents wire rule: packet_loop.induct)
  case (2 limit n sgs rem nents wire)
  show ?case
  proof (cases "rem = 0")
    case True
    obtain a l rest where sgs: "sgs = (a, l) # rest" using 2(2) by (cases sgs) auto
    show ?thesis using True 2(3) by (simp add: sgs)
  next
    case False
    obtain a l rest where sgs: "sgs = (a, l) # rest" using 2(2) by (cases sgs) auto
    show ?thesis
    proof (cases "nents \<ge> limit")
      case True
      then show ?thesis using False by (simp add: sgs)
    next
      case lim: False
      define tk where "tk = min rem l"
      define w where "w = wire[nents := (a, tk)]"
      have cu: "cell_upd wire nents (\<lambda>_. (a, tk)) = Some w" using lim 2(4) by (simp add: w_def)
      have step: "packet_loop limit (Suc n) sgs rem nents wire = packet_loop limit n rest (rem - tk) (nents + 1) w"
        using False lim cu by (simp add: sgs Let_def tk_def [symmetric])
      have IH: "\<exists>w'. length w' = length w \<and>
          packet_loop limit n rest (rem - tk) (nents + 1) w =
            Some (if nents + 1 + length (wire_takes (rem - tk) (take n rest)) \<le> limit
                  then Inr (rem - tk - word_of_nat (sg_sum (wire_takes (rem - tk) (take n rest))), nents + 1 + length (wire_takes (rem - tk) (take n rest)))
                  else Inl E2BIG, w') \<and>
          (nents + 1 + length (wire_takes (rem - tk) (take n rest)) \<le> limit \<longrightarrow>
            take (nents + 1 + length (wire_takes (rem - tk) (take n rest))) w' = take (nents + 1) w @ wire_takes (rem - tk) (take n rest))"
        using 2(1) [OF False sgs refl lim tk_def cu] 2(2-4) lim by (simp add: sgs w_def)
      have tw: "take (nents + 1) w = take nents wire @ [(a, tk)]"
        using lim 2(4) by (simp add: w_def take_Suc_conv_app_nth)
      have ts: "wire_takes rem (take (Suc n) sgs) = (a, tk) # wire_takes (rem - tk) (take n rest)"
        using False by (simp add: sgs tk_def)
      show ?thesis unfolding step ts using IH tw
        by (auto simp: w_def diff_diff_add)
    qed
  qed
qed auto

section \<open>What the device reads\<close>

text \<open>The bus addresses a transmit buffer describes: whole words of its entries, then its tail.\<close>

definition tx_bus :: "crystalhd_tx_buffer \<Rightarrow> u64 list" where
  "tx_bus t = take (unat (tb_bytes t) - unat (tb_tail_size t)) (sg_bytes (tb_sgl t)) @
     span (tb_tail_addr t) (unat (tb_tail_size t))"

lemma parse_output_header:
  assumes "length pl = unat payload" "payload \<le> CHD_OUTPUT_DIRECT_LIMIT" "drop_bit 33 pts = 0"
  shows "parse_pes (output_header payload pts @ pl) = Some (Some pts, pl)"
proof -
  have p: "unat payload \<le> 65508" using assms(2) by (simp add: word_le_nat_alt)
  have u: "payload + 10 = word_of_nat (unat payload + 10)" by simp
  have len: "256 * unat (ucast (drop_bit 8 (payload + 10)) :: u8) + unat (ucast (payload + 10) :: u8) = unat payload + 10"
    unfolding u using p by (intro length_field) simp
  have f: "ucast (0x21 OR push_bit 1 (drop_bit 30 pts AND 0x07)) AND 0xf1 = (0x21 :: u8)"
    "ucast (0x01 OR push_bit 1 (drop_bit 15 pts AND 0x7f)) AND 1 \<noteq> (0 :: u8)"
    "ucast (0x01 OR push_bit 1 (pts AND 0x7f)) AND 1 \<noteq> (0 :: u8)"
    by (rule pts_markers)+
  have "pts AND mask 33 = pts"
  proof (rule bit_word_eqI)
    fix n
    have "\<not> bit (drop_bit 33 pts) (n - 33)" using assms(3) by simp
    then have "33 \<le> n \<Longrightarrow> \<not> bit pts n" by (simp add: bit_simps)
    then show "bit (pts AND mask 33) n = bit pts n"
      by (cases "n < 33") (auto simp: bit_simps dest: bit_imp_le_length)
  qed
  then have pf: "pts_field [ucast (0x21 OR push_bit 1 (drop_bit 30 pts AND 0x07)), ucast (drop_bit 22 pts),
     ucast (0x01 OR push_bit 1 (drop_bit 15 pts AND 0x7f)), ucast (drop_bit 7 pts),
     ucast (0x01 OR push_bit 1 (pts AND 0x7f))] = pts"
    by (simp only: pts_field_header)
  show ?thesis
    unfolding parse_pes_def output_header_def Let_def
    using len f pf assms(1) by (simp del: push_bit_Suc)
qed

lemma sg_sum_pos: "\<forall>e\<in>set es. entry_ok e \<Longrightarrow> es \<noteq> [] \<Longrightarrow> 0 < sg_sum es"
  by (cases es) (auto simp: entry_ok_def unat_gt_0)

lemma preflight_exact:
  assumes "take n sgs = es" "length es = n" "\<forall>e\<in>set es. entry_ok e"
    and "unat av + sg_sum es = unat required" "unat required \<le> 33554428"
  shows "preflight_loop required n i sgs av 0 = Inr (ucast required, if n = 0 then 0 else i + word_of_nat n)"
  using assms
proof (induction n arbitrary: i sgs es av)
  case 0
  then have "unat av = unat (ucast required :: u64)" by simp
  then have "av = ucast required" by (rule unsigned_word_eqI)
  then show ?case by simp
next
  case (Suc n)
  obtain a l es' where es: "es = (a, l) # es'" using Suc.prems(2) by (cases es) auto
  then obtain rest where sgs: "sgs = (a, l) # rest" "take n rest = es'" using Suc.prems(1) by (cases sgs) auto
  have ok: "l \<noteq> 0" "\<not> unaligned a l" using Suc.prems(3) es by (simp_all add: entry_ok_def)
  have l: "unat l \<le> 33554428" using Suc.prems(4,5) es by simp
  have av': "unat (av + ucast l) = unat av + unat l"
    using Suc.prems(4,5) es by (simp add: unat_word_ariths)
  have big: "\<not> l > CRYSTALHD_DMA_DESC_MAX_XFER_BYTES" using l by (simp add: word_less_nat_alt)
  have IH: "preflight_loop required n (i + 1) rest (av + ucast l) 0 =
      Inr (ucast required, if n = 0 then 0 else i + 1 + word_of_nat n)"
    using Suc.prems es sgs av' by (intro Suc.IH [of rest es']) auto
  show ?case
  proof (cases "n = 0")
    case True
    then have "unat (av + ucast l) = unat (ucast required :: u64)" using Suc.prems es av' by simp
    then have "av + ucast l = ucast required" by (rule unsigned_word_eqI)
    then show ?thesis using True ok big by (simp add: sgs)
  next
    case False
    then have "es' \<noteq> []" using Suc.prems es by auto
    then have "0 < sg_sum es'" using Suc.prems es by (intro sg_sum_pos) auto
    then have "\<not> av + ucast l \<ge> ucast required" using Suc.prems(4) es av' by (simp add: word_le_nat_alt)
    then show ?thesis using False ok big IH by (simp add: sgs Let_def add.assoc)
  qed
qed

text \<open>A transmit buffer whose entries are exactly its whole words passes the preflight.\<close>

lemma preflight_ok:
  assumes es: "take (unat (tb_dma_nents t)) (tb_sgl t) = es" "length es = unat (tb_dma_nents t)"
      "\<forall>e\<in>set es. entry_ok e" "es \<noteq> []"
    and sum: "sg_sum es = unat (tb_bytes t - tb_tail_size t)" "unat (tb_bytes t) \<le> 33554428"
    and tail: "tb_tail_size t = tb_bytes t AND 3" "tb_bytes t \<noteq> 0" "tb_has_cookie t"
      "tb_tail_size t \<noteq> 0 \<longrightarrow> tb_tail_addr t \<noteq> 0 \<and> tb_tail_addr t AND 3 = 0"
    and room: "tb_dma_nents t + bool_u32 (tb_tail_size t \<noteq> 0) \<le> max_descriptors"
  shows "crystalhd_tx_buffer_preflight (Some t) max_descriptors = BC_STS_SUCCESS"
proof -
  let ?r = "tb_bytes t - tb_tail_size t"
  have t3: "\<not> tb_tail_size t > 3"
    unfolding tail(1) by (simp add: word_and_le1 not_less)
  have n0: "tb_dma_nents t \<noteq> 0" using es by auto
  have s0: "tb_sgl t \<noteq> []" using es by auto
  have "0 < sg_sum es" using es by (intro sg_sum_pos)
  then have r0: "?r \<noteq> 0" using sum by auto
  have "tb_tail_size t \<le> tb_bytes t" unfolding tail(1) by (simp add: word_and_le2)
  then have "unat ?r \<le> unat (tb_bytes t)" by (simp add: unat_sub)
  then have r: "unat ?r \<le> 33554428" using sum by simp
  have pl: "preflight_loop ?r (unat (tb_dma_nents t)) 0 (tb_sgl t) 0 0 = Inr (ucast ?r, tb_dma_nents t)"
    using preflight_exact [OF es(1,2,3), of 0 ?r 0] sum(1) r n0 by (simp add: unat_gt_0)
  show ?thesis
    using t3 n0 s0 r0 tail room pl
    by (cases "tb_bytes t AND 3 = 0") (simp_all add: crystalhd_tx_buffer_preflight_def Let_def not_less)
qed

section \<open>Well-formed buffers\<close>

definition source_ok :: "sg_table \<Rightarrow> u32 \<Rightarrow> bool" where
  "source_ok src payload \<longleftrightarrow>
    (case prepare_scan (unat (sgt_nents src)) (sgt_sgl src) 0 of None \<Rightarrow> False
     | Some available \<Rightarrow> ucast payload \<le> available)"

text \<open>
  The sidecar is coherent memory at a nonzero word-aligned bus address that does not wrap around; a
  prepared buffer has a checked source and a plane that holds its payload, and is not marked synced
  while the device owns the plane.
\<close>

definition output_wf :: "crystalhd_v4l2_output_buffer \<Rightarrow> bool" where
  "output_wf b \<longleftrightarrow>
    (vo_header b = None \<longleftrightarrow> vo_wire_sg b = None) \<and>
    (\<forall>h. vo_header b = Some h \<longrightarrow> length h = CHD_OUTPUT_SIDECAR_BYTES \<and> vo_header_dma b \<noteq> 0 \<and>
       vo_header_dma b AND 3 = 0 \<and> unat (vo_header_dma b) + CHD_OUTPUT_SIDECAR_BYTES < 2 ^ 64 \<and>
       tb_has_cookie (vo_tx b)) \<and>
    (\<forall>w. vo_wire_sg b = Some w \<longrightarrow> length w = BC_LINK_MAX_SGLS \<and> tb_sgl (vo_tx b) = w) \<and>
    (vo_prepared b \<longrightarrow> vo_header b \<noteq> None \<and> vo_payload b \<noteq> 0 \<and> vo_payload b \<le> ucast CHD_OUTPUT_MAX_AU_BYTES \<and>
       (vo_cpu_synced b \<longrightarrow> \<not> vo_device_owned b) \<and>
       (\<exists>src v. vo_source b = Some src \<and> vo_vaddr b = Some v \<and> source_ok src (vo_payload b) \<and>
          unat (vo_payload b) \<le> length v))"

lemma or_and_3: "(ucast len OR a) AND 3 = 0 \<longleftrightarrow> \<not> unaligned a len" for len :: u32 and a :: u64
proof -
  have m: "(3 :: u64) = mask 2" "(3 :: u32) = mask 2" by (simp_all add: mask_eq_exp_minus_1)
  have z: "x AND mask 2 = 0 \<longleftrightarrow> \<not> bit x 0 \<and> \<not> bit x 1" for x :: "'a::len word"
  proof -
    have "x AND mask 2 = 0 \<longleftrightarrow> (\<forall>n<2. \<not> bit x n)"
      unfolding bit_eq_iff bit_and_iff bit_mask_iff by (auto dest: bit_imp_le_length)
    then show ?thesis by (simp add: less_2_cases_nat all_conj_distrib imp_disjL)
  qed
  show ?thesis unfolding unaligned_def m z by (auto simp: bit_simps)
qed

lemma prepare_scan_ok:
  assumes "prepare_scan n sgs av = Some av'" "unat av + n * 2 ^ 32 \<le> 2 ^ 64"
  shows "n \<le> length sgs \<and> (\<forall>e\<in>set (take n sgs). entry_ok e) \<and> unat av' = unat av + sg_sum (take n sgs)"
  using assms
proof (induction n sgs av rule: prepare_scan.induct)
  case (3 n a len sgs av)
  have l: "unat len < 2 ^ 32" by (rule unat_u32_less)
  have av: "unat (av + ucast len) = unat av + unat len"
    using 3(3) l by (simp add: unat_word_ariths)
  have c: "len \<noteq> 0" "\<not> unaligned a len" and r: "prepare_scan n sgs (av + ucast len) = Some av'"
    and g: "\<not> (len = 0 \<or> (ucast len OR a) AND 3 \<noteq> 0 \<or> a + ucast len - 1 < a)"
    using 3(2) by (auto simp: or_and_3 split: if_splits)
  have "unat (av + ucast len) + n * 2 ^ 32 \<le> 2 ^ 64" using 3(3) l av by simp
  from 3(1) [OF g r this] show ?case using c av by (auto simp: entry_ok_def)
qed auto

lemma source_okE:
  assumes "source_ok src payload"
  obtains sgs where "sgs = take (unat (sgt_nents src)) (sgt_sgl src)" "unat (sgt_nents src) \<le> length (sgt_sgl src)"
    "\<forall>e\<in>set sgs. entry_ok e" "unat payload \<le> sg_sum sgs"
proof -
  obtain av where av: "prepare_scan (unat (sgt_nents src)) (sgt_sgl src) 0 = Some av" "ucast payload \<le> av"
    using assms by (auto simp: source_ok_def split: option.splits)
  have "unat (0 :: u64) + unat (sgt_nents src) * 2 ^ 32 \<le> 2 ^ 64"
    using unat_u32_less [of "sgt_nents src"] by simp
  from prepare_scan_ok [OF av(1) this] av(2) that [OF refl] show ?thesis
    by (simp add: word_le_nat_alt)
qed

lemma output_wfE:
  assumes "output_wf b" "vo_prepared b"
  obtains h w src v where "vo_header b = Some h" "length h = CHD_OUTPUT_SIDECAR_BYTES" "vo_wire_sg b = Some w"
    "length w = BC_LINK_MAX_SGLS" "vo_source b = Some src" "vo_vaddr b = Some v" "source_ok src (vo_payload b)"
    "unat (vo_payload b) \<le> length v" "vo_payload b \<noteq> 0" "vo_cpu_synced b \<longrightarrow> \<not> vo_device_owned b"
    "tb_sgl (vo_tx b) = w" "tb_has_cookie (vo_tx b)" "vo_header_dma b \<noteq> 0" "vo_header_dma b AND 3 = 0"
    "unat (vo_header_dma b) + CHD_OUTPUT_SIDECAR_BYTES < 2 ^ 64"
  using assms by (auto simp: output_wf_def split: option.splits)

lemma split_and_3:
  "unat (p AND NOT 3) = 4 * (unat p div 4)" "unat (p AND 3) = unat p mod 4" "(p AND NOT 3) AND 3 = 0" for p :: u32
proof -
  have m: "(3 :: u32) = mask 2" by (simp add: mask_eq_exp_minus_1)
  have e: "2 \<le> n \<Longrightarrow> Suc (Suc (n - 2)) = n" for n :: nat by simp
  have "p AND NOT 3 = push_bit 2 (drop_bit 2 p)" unfolding m
    by (rule bit_word_eqI) (auto simp: bit_simps not_less e)
  moreover have "unat (push_bit 2 (drop_bit 2 p)) = 4 * (unat p div 4)"
    using unat_u32_less [of p] by (simp add: push_bit_eq_mult drop_bit_eq_div unat_word_ariths unat_div)
  ultimately show "unat (p AND NOT 3) = 4 * (unat p div 4)" by simp
  have "p AND 3 = take_bit 2 p" unfolding m by (simp add: take_bit_eq_mask)
  then show "unat (p AND 3) = unat p mod 4" by (simp add: take_bit_eq_mod unat_mod)
  show "(p AND NOT 3) AND 3 = 0" by (rule bit_word_eqI) (simp add: bit_simps)
qed

lemma cpu_simps [simp]:
  "vo_payload (crystalhd_output_cpu b) = vo_payload b" "vo_source (crystalhd_output_cpu b) = vo_source b"
  "vo_header (crystalhd_output_cpu b) = vo_header b" "vo_wire_sg (crystalhd_output_cpu b) = vo_wire_sg b"
  "vo_vaddr (crystalhd_output_cpu b) = vo_vaddr b" "vo_header_dma (crystalhd_output_cpu b) = vo_header_dma b"
  "vo_tx (crystalhd_output_cpu b) = vo_tx b" "vo_refs (crystalhd_output_cpu b) = vo_refs b"
  "vo_prepared (crystalhd_output_cpu b) = vo_prepared b" "vo_failed (crystalhd_output_cpu b) = vo_failed b"
  "vo_cpu_synced (crystalhd_output_cpu b)"
  by (simp_all add: crystalhd_output_cpu_def)

lemma cpu_owned: "(vo_cpu_synced b \<longrightarrow> \<not> vo_device_owned b) \<Longrightarrow> \<not> vo_device_owned (crystalhd_output_cpu b)"
  by (simp add: crystalhd_output_cpu_def)

section \<open>The packet of one buffer\<close>

text \<open>The wire entries the payload's whole words need.\<close>

definition payload_entries :: "crystalhd_v4l2_output_buffer \<Rightarrow> sg_entry list" where
  "payload_entries b = (case vo_source b of None \<Rightarrow> []
    | Some src \<Rightarrow> wire_takes (vo_payload b AND NOT 3) (take (unat (sgt_nents src)) (sgt_sgl src)))"

definition packet_fits :: "crystalhd_v4l2_output_buffer \<Rightarrow> bool" where
  "packet_fits b \<longleftrightarrow> 1 + length (payload_entries b) + (if vo_payload b AND 3 \<noteq> 0 then 1 else 0) \<le> BC_LINK_MAX_SGLS"

lemma payload_entries_ok:
  assumes "vo_source b = Some src" "source_ok src (vo_payload b)"
  shows "\<forall>e\<in>set (payload_entries b). entry_ok e" "sg_sum (payload_entries b) = unat (vo_payload b AND NOT 3)"
    "sg_bytes (payload_entries b) = take (unat (vo_payload b AND NOT 3)) (sg_bytes (take (unat (sgt_nents src)) (sgt_sgl src)))"
proof -
  obtain sgs where s: "sgs = take (unat (sgt_nents src)) (sgt_sgl src)" "\<forall>e\<in>set sgs. entry_ok e"
    "unat (vo_payload b) \<le> sg_sum sgs" using source_okE [OF assms(2)] by metis
  have pe: "payload_entries b = wire_takes (vo_payload b AND NOT 3) sgs" by (simp add: payload_entries_def assms s)
  show "\<forall>e\<in>set (payload_entries b). entry_ok e" unfolding pe using s(2) by (intro wire_takes_ok split_and_3(3))
  have "unat (vo_payload b AND NOT 3) \<le> unat (vo_payload b)" unfolding split_and_3 by simp
  then show "sg_sum (payload_entries b) = unat (vo_payload b AND NOT 3)"
    unfolding pe wire_takes_sum using s(3) by simp
  show "sg_bytes (payload_entries b) = take (unat (vo_payload b AND NOT 3)) (sg_bytes (take (unat (sgt_nents src)) (sgt_sgl src)))"
    unfolding pe wire_takes_bytes s(1) ..
qed

lemma length_output_header [simp]: "length (output_header p pts) = 16"
  by (simp add: output_header_def Let_def)

lemma output_packet_run:
  assumes wf: "output_wf b" "vo_prepared b" and free: "\<not> crystalhd_v4l2_output_owned b"
    and v: "vo_vaddr b = Some v" and tl: "r = vo_payload b AND 3"
  shows "\<exists>rc h w t. crystalhd_output_packet b pts = Some (rc, (crystalhd_output_cpu b)\<lparr>vo_header := Some h, vo_wire_sg := Some w, vo_tx := t\<rparr>) \<and>
    length h = CHD_OUTPUT_SIDECAR_BYTES \<and> length w = BC_LINK_MAX_SGLS \<and> tb_sgl t = w \<and> tb_has_cookie t \<and>
    rc = (if packet_fits b then rc_ok else Some E2BIG) \<and>
    (packet_fits b \<longrightarrow>
      take (1 + length (payload_entries b)) w = (vo_header_dma b, 16) # payload_entries b \<and>
      take (16 + unat r) h = output_header (vo_payload b) pts @ drop (unat (vo_payload b AND NOT 3)) (take (unat (vo_payload b)) v) \<and>
      t = \<lparr>tb_sgl = w, tb_dma_nents = word_of_nat (1 + length (payload_entries b)), tb_bytes = 16 + vo_payload b,
           tb_tail_addr = (if r \<noteq> 0 then vo_header_dma b + 16 else 0), tb_tail_size = r, tb_has_cookie = True\<rparr>)"
proof -
  from wf obtain h w src where h: "vo_header b = Some h" "length h = CHD_OUTPUT_SIDECAR_BYTES"
    and w: "vo_wire_sg b = Some w" "length w = BC_LINK_MAX_SGLS" and src: "vo_source b = Some src" "source_ok src (vo_payload b)"
    and p: "unat (vo_payload b) \<le> length v" and own: "vo_cpu_synced b \<longrightarrow> \<not> vo_device_owned b"
    and ck: "tb_sgl (vo_tx b) = w" "tb_has_cookie (vo_tx b)"
    using v by (auto elim: output_wfE)
  define lim where "lim = BC_LINK_MAX_SGLS - (if r \<noteq> 0 then 1 else 0)"
  define al where "al = vo_payload b AND NOT 3"
  define ts where "ts = payload_entries b"
  define h1 where "h1 = output_header (vo_payload b) pts @ drop 16 h"
  have h1: "mem_write h 0 (output_header (vo_payload b) pts) = Some h1" using h by (simp add: mem_write_def h1_def)
  have lh1: "length h1 = 20" using h by (simp add: h1_def)
  define w1 where "w1 = w[0 := (vo_header_dma b, 16)]"
  have cw: "cell_upd w 0 (\<lambda>_. (vo_header_dma b, 16)) = Some w1" using w by (simp add: w1_def)
  have w1: "length w1 = BC_LINK_MAX_SGLS" "take 1 w1 = [(vo_header_dma b, 16)]"
    using w by (simp_all add: w1_def take_Suc_conv_app_nth)
  obtain sgs where sg: "sgs = take (unat (sgt_nents src)) (sgt_sgl src)" "unat (sgt_nents src) \<le> length (sgt_sgl src)"
    "\<forall>e\<in>set sgs. entry_ok e" using source_okE [OF src(2)] by metis
  have ts: "ts = wire_takes al (take (unat (sgt_nents src)) (sgt_sgl src))" by (simp add: ts_def payload_entries_def src al_def)
  have fits: "packet_fits b \<longleftrightarrow> 1 + length ts \<le> lim" by (auto simp: packet_fits_def ts_def lim_def tl)
  have s: "sg_sum ts = unat al" "\<forall>e\<in>set ts. entry_ok e" using payload_entries_ok [OF src] by (simp_all add: ts_def al_def)
  have lm: "1 \<le> lim" "lim \<le> length w1" by (simp_all add: lim_def w1)
  obtain w2 where w2: "length w2 = length w1" "packet_loop lim (unat (sgt_nents src)) (sgt_sgl src) al 1 w1 =
      Some (if 1 + length ts \<le> lim then Inr (al - word_of_nat (sg_sum ts), 1 + length ts) else Inl E2BIG, w2)"
    "1 + length ts \<le> lim \<longrightarrow> take (1 + length ts) w2 = take 1 w1 @ ts"
    using packet_loop_run [OF sg(2) lm ts] by blast
  have a0: "al - word_of_nat (sg_sum ts) = 0" by (simp add: s)
  show ?thesis
  proof (cases "packet_fits b")
    case False
    then show ?thesis
      using free h w src h1 cw w2 w1 lh1 ck fits
      by (intro exI [of _ "Some E2BIG"] exI [of _ h1] exI [of _ w2] exI [of _ "(vo_tx b)\<lparr>tb_sgl := w2\<rparr>"])
        (simp add: crystalhd_output_packet_def Let_def set_wire_def al_def tl [symmetric] lim_def)
  next
    case True
    define bs where "bs = drop (unat al) (take (unat (vo_payload b)) v)"
    have ur: "unat r = length bs" "unat al + unat r = unat (vo_payload b)"
      using p split_and_3(1,2) [of "vo_payload b"] unfolding bs_def length_drop length_take tl [symmetric] al_def [symmetric]
      by (simp_all add: min_def) presburger+
    have rd: "plane_read (crystalhd_output_cpu b) (unat al) (unat r) = Some bs"
      using cpu_owned [OF own] v p ur by (simp add: plane_read_def mem_read_def bs_def drop_take)
    define h2 where "h2 = take 16 h1 @ [0, 0, 0, 0]"
    have h2: "mem_write h1 CHD_OUTPUT_HEADER_BYTES [0, 0, 0, 0] = Some h2"
      using lh1 by (simp add: mem_write_def h2_def)
    have r4: "unat r < 4" by (simp add: tl split_and_3)
    define h3 where "h3 = take 16 h1 @ bs @ drop (16 + unat r) h2"
    have h3: "mem_write h2 CHD_OUTPUT_HEADER_BYTES bs = Some h3" "length h3 = 20"
      using lh1 ur r4 by (simp_all add: mem_write_def h3_def h2_def)
    have t3: "take (16 + unat r) h3 = output_header (vo_payload b) pts @ bs"
      using ur lh1 by (simp add: h3_def) (simp add: h1_def)
    have e3: "r = 0 \<Longrightarrow> h3 = h2" using ur lh1 by (simp add: h3_def h2_def)
    show ?thesis
      using True free h w src h1 cw w2 w1 lh1 ck fits a0 rd h2 h3 t3 e3
      by (intro exI [of _ rc_ok] exI [of _ h3] exI [of _ w2]
          exI [of _ "\<lparr>tb_sgl = w2, tb_dma_nents = word_of_nat (1 + length (payload_entries b)), tb_bytes = 16 + vo_payload b,
           tb_tail_addr = (if r \<noteq> 0 then vo_header_dma b + 16 else 0), tb_tail_size = r, tb_has_cookie = True\<rparr>"])
        (simp add: crystalhd_output_packet_def Let_def set_wire_def ts_def [symmetric] al_def tl [symmetric] lim_def bs_def)
  qed
qed

lemma sg_bytes_take_prefix:
  assumes "take n w = es" "length es \<le> length w" "length es = n" "k = sg_sum es"
  shows "take k (sg_bytes w) = sg_bytes es"
proof -
  have l: "length (sg_bytes xs) = sg_sum xs" for xs
    by (induction xs) (auto simp: sg_bytes_def)
  have "w = es @ drop n w" using assms(1) by (metis append_take_drop_id)
  then have "sg_bytes w = sg_bytes es @ sg_bytes (drop n w)" by (metis concat_append map_append sg_bytes_def)
  then show ?thesis using assms(4) l [of es] by simp
qed

lemma output_wf_cpu: "output_wf b \<Longrightarrow> output_wf (crystalhd_output_cpu b)"
  by (auto simp: output_wf_def crystalhd_output_cpu_def)

lemma packet_sizes:
  assumes "p \<le> CHD_OUTPUT_DIRECT_LIMIT"
  shows "unat (16 + p) = 16 + unat p" "(16 + p) AND 3 = p AND 3" "16 + p \<noteq> 0"
    "unat (16 + p - (p AND 3)) = 16 + unat (p AND NOT 3)"
    "unat (16 + p) - unat (p AND 3) = 16 + unat (p AND NOT 3)"
proof -
  have p: "unat p \<le> 65508" using assms by (simp add: word_le_nat_alt)
  show u: "unat (16 + p) = 16 + unat p" using p by (simp add: unat_word_ariths)
  have "unat ((16 + p) AND 3) = unat (p AND 3)" unfolding split_and_3 u by presburger
  then show a: "(16 + p) AND 3 = p AND 3" by (rule unsigned_word_eqI)
  show "16 + p \<noteq> 0" using u by (metis add_is_0 unat_0 zero_neq_numeral)
  have "p AND 3 \<le> 16 + p" unfolding word_le_nat_alt u split_and_3 by (simp add: le_trans [OF mod_less_eq_dividend])
  then have "unat (16 + p - (p AND 3)) = unat (16 + p) - unat (p AND 3)" by (simp add: unat_sub)
  moreover show "unat (16 + p) - unat (p AND 3) = 16 + unat (p AND NOT 3)"
    unfolding u split_and_3 by presburger
  ultimately show "unat (16 + p - (p AND 3)) = 16 + unat (p AND NOT 3)" by simp
qed

text \<open>The transmit buffer a packet is sent as: the header, the aligned payload entries, and the tail in the sidecar.\<close>

definition packet_tx :: "crystalhd_v4l2_output_buffer \<Rightarrow> sg_entry list \<Rightarrow> crystalhd_tx_buffer" where
  "packet_tx b w = (let r = vo_payload b AND 3 in \<lparr>tb_sgl = w, tb_dma_nents = word_of_nat (1 + length (payload_entries b)), tb_bytes = 16 + vo_payload b,
     tb_tail_addr = (if r \<noteq> 0 then vo_header_dma b + 16 else 0), tb_tail_size = r, tb_has_cookie = True\<rparr>)"

lemma packet_wire:
  fixes b pts
  defines "r \<equiv> vo_payload b AND 3" and "al \<equiv> vo_payload b AND NOT 3" and "es \<equiv> (vo_header_dma b, 16) # payload_entries b"
  assumes lim: "vo_payload b \<le> CHD_OUTPUT_DIRECT_LIMIT" and src: "vo_source b = Some src" "source_ok src (vo_payload b)"
    and d: "vo_header_dma b \<noteq> 0" "vo_header_dma b AND 3 = 0" "unat (vo_header_dma b) + 20 < 2 ^ 64"
    and fit: "packet_fits b" and w: "length w = BC_LINK_MAX_SGLS" "take (1 + length (payload_entries b)) w = es"
  shows "crystalhd_tx_buffer_preflight (Some (packet_tx b w)) (word_of_nat BC_LINK_MAX_SGLS) = BC_STS_SUCCESS"
    "tx_bus (packet_tx b w) = span (vo_header_dma b) 16 @ sg_bytes (payload_entries b) @ span (vo_header_dma b + 16) (unat r)"
proof -
  let ?d = "vo_header_dma b" and ?t = "packet_tx b w"
  note E = payload_entries_ok [OF src, folded al_def] and t = packet_tx_def [of b w, folded r_def, unfolded Let_def, folded r_def]
  have n: "1 + length (payload_entries b) \<le> 1024" using fit by (simp add: packet_fits_def)
  then have un: "unat (word_of_nat (1 + length (payload_entries b)) :: u32) = 1 + length (payload_entries b)"
    by (intro unat_word_of_nat_u32) simp
  have d16: "unat (?d + 16) = unat ?d + 16" using d by (simp add: unat_word_ariths)
  have da: "?d + 16 \<noteq> 0" "(?d + 16) AND 3 = 0"
    using d16 d(2) unfolding and_3_iff by (metis add_is_0 unat_0 zero_neq_numeral, presburger)
  have es': "\<forall>e\<in>set es. entry_ok e" "sg_sum es = 16 + unat al"
    using E d by (auto simp: es_def entry_ok_def unaligned_def)
  show "crystalhd_tx_buffer_preflight (Some ?t) (word_of_nat BC_LINK_MAX_SGLS) = BC_STS_SUCCESS"
  proof (rule preflight_ok [where es = es])
    have "tb_dma_nents ?t + bool_u32 (tb_tail_size ?t \<noteq> 0) = word_of_nat (1 + length (payload_entries b) + (if r \<noteq> 0 then 1 else 0))"
      unfolding t by (simp add: bool_u32_def)
    moreover have "1 + length (payload_entries b) + (if r \<noteq> 0 then 1 else 0) \<le> 1024"
      using fit unfolding packet_fits_def r_def by simp
    ultimately show "tb_dma_nents ?t + bool_u32 (tb_tail_size ?t \<noteq> 0) \<le> word_of_nat BC_LINK_MAX_SGLS"
      by (simp only: word_le_nat_alt) (simp add: unat_word_of_nat_u32 del: of_nat_add of_nat_Suc)
  qed (use t w un es' da d packet_sizes [OF lim] lim in \<open>auto simp: es_def r_def al_def word_le_nat_alt\<close>)
  have "take (16 + unat al) (sg_bytes w) = sg_bytes es"
    using es'(2) w(1) n by (intro sg_bytes_take_prefix [OF w(2)]) (auto simp: es_def)
  then have "tx_bus ?t = span ?d 16 @ sg_bytes (payload_entries b) @ (if r \<noteq> 0 then span (?d + 16) (unat r) else [])"
    using packet_sizes(5) [OF lim, folded r_def al_def]
    by (simp add: tx_bus_def t) (simp add: es_def sg_bytes_def)
  then show "tx_bus ?t = span ?d 16 @ sg_bytes (payload_entries b) @ span (?d + 16) (unat r)" by (cases "r = 0") simp_all
qed

lemma packet_parse:
  fixes b pts
  defines "p \<equiv> vo_payload b" and "d \<equiv> vo_header_dma b"
  assumes lim: "p \<le> CHD_OUTPUT_DIRECT_LIMIT" "drop_bit 33 pts = 0" and src: "vo_source b = Some src" "source_ok src p" and pv: "unat p \<le> length v"
    and hd: "take (16 + unat (p AND 3)) h = output_header p pts @ drop (unat (p AND NOT 3)) (take (unat p) v)" "h = map bus (span d CHD_OUTPUT_SIDECAR_BYTES)"
    and pb: "map bus (take (unat p) (sg_bytes (take (unat (sgt_nents src)) (sgt_sgl src)))) = take (unat p) v"
  shows "parse_pes (map bus (span d 16 @ sg_bytes (payload_entries b) @ span (d + 16) (unat (p AND 3)))) = Some (Some pts, take (unat p) v)"
proof -
  have ur: "unat (p AND NOT 3) + unat (p AND 3) = unat p" "unat (p AND 3) < 4" by (simp_all only: split_and_3) presburger+
  have sp: "span d (16 + unat (p AND 3)) = span d 16 @ span (d + 16) (unat (p AND 3))" using span_append [of d 16 "unat (p AND 3)"] by simp
  have "take (16 + unat (p AND 3)) h = map bus (span d (16 + unat (p AND 3)))" unfolding hd(2) take_map span_take using ur by simp
  then have "map bus (span d 16) @ map bus (span (d + 16) (unat (p AND 3))) = output_header p pts @ drop (unat (p AND NOT 3)) (take (unat p) v)"
    unfolding sp hd(1) by simp
  then have m: "map bus (span d 16) = output_header p pts" "map bus (span (d + 16) (unat (p AND 3))) = drop (unat (p AND NOT 3)) (take (unat p) v)"
    by (simp_all add: append_eq_append_conv)
  have "map bus (sg_bytes (payload_entries b)) = take (unat (p AND NOT 3)) (take (unat p) v)"
    unfolding payload_entries_ok(3) [OF src(1) src(2) [unfolded p_def], folded p_def] pb [symmetric] using ur by (simp add: take_map min_def)
  then have "map bus (span d 16 @ sg_bytes (payload_entries b) @ span (d + 16) (unat (p AND 3))) = output_header p pts @ take (unat p) v"
    by (simp only: map_append m append_take_drop_id)
  then show ?thesis using parse_output_header [of "take (unat p) v" p pts] lim pv by simp
qed

text \<open>
  C11: A buffer of at most one packet is sent as it lies in memory. The packet builder stays inside the
  sidecar, the descriptor array and the plane, reads the plane only while the processor owns it, and
  fails only when the mapped plane is too fragmented for the descriptors. When it succeeds, the
  transmit buffer passes the preflight, and whatever the bus addresses hold, if the sidecar shows
  the header written and the mapped entries show the plane, then the bytes described, read in order,
  parse as one PES packet with the given PTS and exactly the access unit as payload.
\<close>

theorem output_packet_exact:
  assumes wf: "output_wf b" "vo_prepared b" "\<not> crystalhd_v4l2_output_owned b"
    and lim: "vo_payload b \<le> CHD_OUTPUT_DIRECT_LIMIT" "drop_bit 33 pts = 0"
    and mem: "vo_source b = Some src" "vo_vaddr b = Some v"
  shows "\<exists>b'. crystalhd_output_packet b pts = Some (if packet_fits b then rc_ok else Some E2BIG, b') \<and>
    output_wf b' \<and> \<not> vo_device_owned b' \<and>
    (packet_fits b \<longrightarrow>
      crystalhd_tx_buffer_preflight (Some (vo_tx b')) (word_of_nat BC_LINK_MAX_SGLS) = BC_STS_SUCCESS \<and>
      (\<forall>bus. vo_header b' = Some (map bus (span (vo_header_dma b) CHD_OUTPUT_SIDECAR_BYTES)) \<and>
         map bus (take (unat (vo_payload b)) (sg_bytes (take (unat (sgt_nents src)) (sgt_sgl src)))) = take (unat (vo_payload b)) v \<longrightarrow>
         parse_pes (map bus (tx_bus (vo_tx b'))) = Some (Some pts, take (unat (vo_payload b)) v)))"
proof -
  let ?p = "vo_payload b" and ?d = "vo_header_dma b"
  obtain rc h w t where R: "crystalhd_output_packet b pts = Some (rc, (crystalhd_output_cpu b)\<lparr>vo_header := Some h, vo_wire_sg := Some w, vo_tx := t\<rparr>)"
    "length h = CHD_OUTPUT_SIDECAR_BYTES" "length w = BC_LINK_MAX_SGLS" "tb_sgl t = w" "tb_has_cookie t"
    "rc = (if packet_fits b then rc_ok else Some E2BIG)"
    and F: "packet_fits b \<longrightarrow> take (1 + length (payload_entries b)) w = (?d, 16) # payload_entries b \<and>
      take (16 + unat (?p AND 3)) h = output_header ?p pts @ drop (unat (?p AND NOT 3)) (take (unat ?p) v) \<and> t = packet_tx b w"
    using output_packet_run [OF wf(1,2,3) mem(2) refl, of pts] unfolding packet_tx_def Let_def by blast
  let ?b' = "(crystalhd_output_cpu b)\<lparr>vo_header := Some h, vo_wire_sg := Some w, vo_tx := t\<rparr>"
  from wf mem obtain so: "source_ok src ?p" and pv: "unat ?p \<le> length v" and own: "vo_cpu_synced b \<longrightarrow> \<not> vo_device_owned b"
    and d: "?d \<noteq> 0" "?d AND 3 = 0" "unat ?d + 20 < 2 ^ 64"
    by (auto elim: output_wfE)
  have wf': "output_wf ?b'" using output_wf_cpu [OF wf(1)] R(2-5) wf(1,2) d by (auto simp: output_wf_def)
  note W = packet_wire [OF lim(1) mem(1) so d _ R(3)]
  have "crystalhd_tx_buffer_preflight (Some t) (word_of_nat BC_LINK_MAX_SGLS) = BC_STS_SUCCESS" if "packet_fits b"
    using W(1) [OF that] F that by blast
  moreover have "parse_pes (map bus (tx_bus t)) = Some (Some pts, take (unat ?p) v)"
    if fit: "packet_fits b" and b: "h = map bus (span ?d CHD_OUTPUT_SIDECAR_BYTES)"
      "map bus (take (unat ?p) (sg_bytes (take (unat (sgt_nents src)) (sgt_sgl src)))) = take (unat ?p) v" for bus
  proof -
    have f: "take (16 + unat (?p AND 3)) h = output_header ?p pts @ drop (unat (?p AND NOT 3)) (take (unat ?p) v)"
      "tx_bus t = span ?d 16 @ sg_bytes (payload_entries b) @ span (?d + 16) (unat (?p AND 3))"
      using F fit W(2) [OF fit] by blast+
    show ?thesis unfolding f(2) by (rule packet_parse [OF lim mem(1) so pv f(1) b])
  qed
  ultimately show ?thesis using R(1,6) wf' cpu_owned [OF own] by (intro exI [of _ ?b']) auto
qed

section \<open>Histories of a buffer\<close>

text \<open>
  What the video buffer framework promises: the kernel address of a plane covers its size. What the
  coherent allocator promises: memory of the requested size, word aligned, not at bus address zero.
\<close>

definition vb2_wf :: "vb2_view \<Rightarrow> bool" where
  "vb2_wf vb \<longleftrightarrow> (\<forall>v. vb_vaddr vb = Some v \<longrightarrow> unat (vb_plane_size vb) \<le> length v)"

definition coh_wf :: "(u8 list \<times> u64) option \<Rightarrow> bool" where
  "coh_wf coh \<longleftrightarrow> (\<forall>h d. coh = Some (h, d) \<longrightarrow> length h = CHD_OUTPUT_SIDECAR_BYTES \<and> d \<noteq> 0 \<and> d AND 3 = 0 \<and>
     unat d + CHD_OUTPUT_SIDECAR_BYTES < 2 ^ 64)"

text \<open>
  A call on a buffer, with what the kernel and the device answer; \<open>Out_Put\<close>: the core drops a lease. The caller of
  \<open>Out_Source\<close> reads the bytes it is handed.
\<close>

datatype output_op =
    Out_Prepare vb2_view
  | Out_Submit "u32 \<Rightarrow> u64" u64 "nat \<Rightarrow> u64 \<Rightarrow> bc_status" "u64 \<Rightarrow> bc_status \<times> u32" "nat option" u64 u32
  | Out_Source
  | Out_Retire
  | Out_Cleanup
  | Out_Put

text \<open>Result: the result code, the command context and the buffer.\<close>

fun output_exec ::
  "output_op \<Rightarrow> crystalhd_cmd option \<times> crystalhd_v4l2_output_buffer
    \<Rightarrow> (rc \<times> crystalhd_cmd option \<times> crystalhd_v4l2_output_buffer) option" where
  "output_exec (Out_Prepare vb) (c, b) = (let (rc, b') = crystalhd_v4l2_output_prepare vb b in Some (rc, c, b'))"
| "output_exec (Out_Submit tj j xfer direct owner pts ms) (c, b) = do {
     (rc, c', b', p) \<leftarrow> crystalhd_v4l2_output_submit tj j xfer direct c owner b pts ms; Some (rc, c', b') }"
| "output_exec Out_Source (c, b) = (case crystalhd_v4l2_output_source (Some b) of
     (Inl e, b') \<Rightarrow> Some (Some e, c, the b')
   | (Inr (v, n), b') \<Rightarrow> do { bs \<leftarrow> plane_read (the b') 0 n; Some (rc_ok, c, the b') })"
| "output_exec Out_Retire (c, b) = Some (rc_ok, c, snd (crystalhd_v4l2_output_retire b))"
| "output_exec Out_Cleanup (c, b) = Some (rc_ok, c, snd (crystalhd_v4l2_output_cleanup b))"
| "output_exec Out_Put (c, b) = Some (rc_ok, c, crystalhd_output_put b)"

fun output_op_wf :: "output_op \<Rightarrow> bool" where
  "output_op_wf (Out_Prepare vb) = vb2_wf vb"
| "output_op_wf _ = True"

text \<open>Between calls, a leased prepared buffer is marked failed.\<close>

definition output_inv :: "crystalhd_cmd option \<times> crystalhd_v4l2_output_buffer \<Rightarrow> bool" where
  "output_inv = (\<lambda>(c, b). ctx_wf c \<and> output_wf b \<and> (vo_prepared b \<and> crystalhd_v4l2_output_owned b \<longrightarrow> vo_failed b))"

lemma init_wf:
  assumes "crystalhd_v4l2_output_init wire coh dev b = (rc_ok, b')" "coh_wf coh"
  shows "output_wf b'" "\<not> crystalhd_v4l2_output_owned b'"
  using assms
  by (auto simp: crystalhd_v4l2_output_init_def coh_wf_def output_wf_def crystalhd_v4l2_output_owned_def Let_def split: option.splits if_splits prod.splits)

lemma output_wf_flags [simp]:
  "output_wf (b\<lparr>vo_skip_finish := x\<rparr>) = output_wf b" "output_wf (b\<lparr>vo_failed := x\<rparr>) = output_wf b"
  "output_wf (b\<lparr>vo_refs := n\<rparr>) = output_wf b"
  by (simp_all add: output_wf_def)

lemma retire_wf: "output_wf b \<Longrightarrow> output_wf (snd (crystalhd_v4l2_output_retire b))"
  by (simp add: crystalhd_v4l2_output_retire_def output_wf_cpu)

lemma cleanup_wf: "output_wf b \<Longrightarrow> output_wf (snd (crystalhd_v4l2_output_cleanup b))"
  by (auto simp: crystalhd_v4l2_output_cleanup_def crystalhd_v4l2_output_retire_def output_wf_def)

lemma prepare_wf:
  assumes "output_wf b" "vb2_wf vb"
  shows "output_wf (snd (crystalhd_v4l2_output_prepare vb b))"
proof -
  let ?b = "b\<lparr>vo_skip_finish := False, vo_prepared := False\<rparr>"
  have nw: "output_wf ?b" using assms(1) by (simp add: output_wf_def)
  have ok: "output_wf (b\<lparr>vo_skip_finish := False, vo_source := Some sgt, vo_vaddr := Some v, vo_payload := ucast p, vo_prepared := True,
      vo_failed := False, vo_cpu_synced := False, vo_device_owned := True\<rparr>)"
    if p: "p \<noteq> 0" "\<not> p > vb_plane_size vb" "\<not> p > CHD_OUTPUT_MAX_AU_BYTES" and v: "vb_vaddr vb = Some v" 
      and h: "vo_header b \<noteq> None"
      and sc: "prepare_scan (unat (sgt_nents sgt)) (sgt_sgl sgt) 0 = Some av" "\<not> av < p" for p v sgt av
  proof -
    have "unat p \<le> 8388608" using p(3) by (simp add: word_less_nat_alt not_less)
    then have u: "unat (ucast p :: u32) = unat p" by (simp add: unsigned_ucast_eq take_bit_nat_eq_self)
    have "unat (ucast (ucast p :: u32) :: u64) = unat p" using u by simp
    then have uu: "ucast (ucast p :: u32) = p" by (rule unsigned_word_eqI)
    have p0: "(ucast p :: u32) \<noteq> 0" using u p(1) by (metis unat_0 unat_eq_zero)
    have pm: "(ucast p :: u32) \<le> ucast CHD_OUTPUT_MAX_AU_BYTES" using \<open>unat p \<le> 8388608\<close> u by (simp add: word_le_nat_alt)
    have "source_ok sgt (ucast p)" using sc by (simp add: source_ok_def uu not_less)
    moreover have "unat (ucast p :: u32) \<le> length v"
      using assms(2) v p(2) u by (auto simp: vb2_wf_def word_less_nat_alt not_less)
    ultimately show ?thesis using assms(1) h p0 pm by (auto simp: output_wf_def)
  qed
  show ?thesis
    unfolding crystalhd_v4l2_output_prepare_def Let_def
    using assms(1) nw by (auto intro!: ok split: option.splits)
qed

lemma frozen:
  assumes "crystalhd_v4l2_output_owned b" "op \<noteq> Out_Put"
  shows "\<exists>rc. output_exec op (c, b) = Some (rc, c, b)"
  using assms
  by (cases op) (auto simp: crystalhd_v4l2_output_prepare_def crystalhd_v4l2_output_submit_def crystalhd_v4l2_output_source_def
      crystalhd_v4l2_output_retire_def crystalhd_v4l2_output_cleanup_def split: option.splits)


text \<open>What a submission leaves behind.\<close>

definition settled :: "rc \<Rightarrow> crystalhd_v4l2_output_buffer \<Rightarrow> bool" where
  "settled rc b \<longleftrightarrow>
    (if crystalhd_v4l2_output_owned b then rc \<noteq> rc_ok \<and> vo_failed b else \<not> vo_device_owned b \<and> vo_skip_finish b)"

lemma retire_settled:
  assumes "output_wf b" "vo_prepared b" "crystalhd_v4l2_output_owned b \<longrightarrow> rc \<noteq> rc_ok \<and> vo_failed b"
  shows "settled rc (snd (crystalhd_v4l2_output_retire b))" "vo_prepared (snd (crystalhd_v4l2_output_retire b))"
    "crystalhd_v4l2_output_owned (snd (crystalhd_v4l2_output_retire b)) = crystalhd_v4l2_output_owned b"
proof -
  have "\<not> vo_device_owned (crystalhd_output_cpu b)"
    using assms(1,2) by (intro cpu_owned) (simp add: output_wf_def)
  then show "settled rc (snd (crystalhd_v4l2_output_retire b))" "vo_prepared (snd (crystalhd_v4l2_output_retire b))"
    "crystalhd_v4l2_output_owned (snd (crystalhd_v4l2_output_retire b)) = crystalhd_v4l2_output_owned b"
    using assms by (auto simp: settled_def crystalhd_v4l2_output_retire_def crystalhd_v4l2_output_owned_def)
qed

lemma retire_with_settled:
  assumes "output_wf b" "vo_prepared b" "ctx_wf c" "crystalhd_v4l2_output_owned b \<longrightarrow> rc \<noteq> rc_ok \<and> vo_failed b"
  shows "\<exists>b' p'. retire_with rc c b p = Some (rc, c, b', p') \<and> ctx_wf c \<and> output_wf b' \<and> vo_prepared b' \<and> settled rc b'"
  using assms retire_settled [OF assms(1,2,4)] retire_wf by (auto simp: retire_with_def)

lemma staged_ctx_wf:
  assumes "ctx_wf c" "n \<le> length au"
  shows "\<exists>rc c' sent. crystalhd_decoder_submit_h264 tj j xfer c owner (Some au) n v pts ms = Some (rc, c', sent) \<and> ctx_wf c'"
proof (cases rule: submit_h264_cases [OF assms, of tj j owner ms xfer v pts, case_names refused run])
  case (run d s dl rc s' sent)
  then show ?thesis using submit_h264_loop_run [OF run(5) _ assms(2) refl, of 0 xfer dl v pts "[]"]
    by (auto simp: ctx_wf_def)
qed (use assms in auto)

lemma submit_settled:
  assumes wf: "ctx_wf c" "output_wf b" "vo_prepared b" and free: "\<not> crystalhd_v4l2_output_owned b"
  shows "\<exists>rc c' b' p. crystalhd_v4l2_output_submit tj j xfer direct c owner b pts ms = Some (rc, c', b', p) \<and>
    ctx_wf c' \<and> output_wf b' \<and> vo_prepared b' \<and> settled rc b'"
proof -
  note rs = retire_with_settled [OF _ _ _ impI]
  obtain v where v: "vo_vaddr b = Some v" "unat (vo_payload b) \<le> length v" using wf by (auto elim: output_wfE)
  note S = crystalhd_v4l2_output_submit_def if_not_P [OF free] if_not_P [OF not_not [THEN iffD2, OF wf(3)]]
  consider (failed) "vo_failed b" | (refused) e where "\<not> vo_failed b" "crystalhd_decoder_validate_h264_locked c owner = Some e"
    | (pts) "\<not> vo_failed b" "crystalhd_decoder_validate_h264_locked c owner = None" "drop_bit 33 pts \<noteq> 0"
    | (staged) "\<not> vo_failed b" "crystalhd_decoder_validate_h264_locked c owner = None" "drop_bit 33 pts = 0" "vo_payload b > CHD_OUTPUT_DIRECT_LIMIT"
    | (deadline) sts where "\<not> vo_failed b" "crystalhd_decoder_validate_h264_locked c owner = None" "drop_bit 33 pts = 0" "\<not> vo_payload b > CHD_OUTPUT_DIRECT_LIMIT"
        "crystalhd_tx_deadline_from_ms tj j ms = Inl sts"
    | (direct) dl where "\<not> vo_failed b" "crystalhd_decoder_validate_h264_locked c owner = None" "drop_bit 33 pts = 0" "\<not> vo_payload b > CHD_OUTPUT_DIRECT_LIMIT"
        "crystalhd_tx_deadline_from_ms tj j ms = Inr dl"
    by (cases "vo_failed b"; cases "crystalhd_decoder_validate_h264_locked c owner"; cases "drop_bit 33 pts = 0";
        cases "vo_payload b > CHD_OUTPUT_DIRECT_LIMIT"; cases "crystalhd_tx_deadline_from_ms tj j ms") blast+
  then show ?thesis
  proof cases
    case staged
    obtain rc c' sent where s: "crystalhd_decoder_submit_h264 tj j xfer c owner (Some v) (unat (vo_payload b)) True pts ms = Some (rc, c', sent)" "ctx_wf c'"
      using staged_ctx_wf [OF wf(1) v(2)] by blast
    let ?b = "if rc \<noteq> rc_ok then (crystalhd_output_cpu b)\<lparr>vo_failed := True\<rparr> else crystalhd_output_cpu b"
    have "vo_cpu_synced b \<longrightarrow> \<not> vo_device_owned b" using wf(2,3) by (simp add: output_wf_def)
    then have "plane_lend (crystalhd_output_cpu b) = Some (Some v)" using cpu_owned v(1) by (simp add: plane_lend_def)
    then have "crystalhd_v4l2_output_submit tj j xfer direct c owner b pts ms = retire_with rc c' ?b (Some (Staged sent))"
      using staged s v by (simp add: S)
    moreover have "output_wf ?b" "vo_prepared ?b" "\<not> crystalhd_v4l2_output_owned ?b"
      using wf free by (auto simp: output_wf_cpu crystalhd_v4l2_output_owned_def)
    ultimately show ?thesis using retire_with_settled [of ?b c' rc] s(2) by fastforce
  next
    case (direct dl)
    define r where "r = vo_payload b AND 3"
    obtain rc h w t where k: "crystalhd_output_packet b pts = Some (rc, (crystalhd_output_cpu b)\<lparr>vo_header := Some h, vo_wire_sg := Some w, vo_tx := t\<rparr>)"
      "length h = CHD_OUTPUT_SIDECAR_BYTES" "length w = BC_LINK_MAX_SGLS" "tb_sgl t = w" "tb_has_cookie t"
      using output_packet_run [OF wf(2,3) free v(1) r_def, of pts] by blast
    define b1 where "b1 = (crystalhd_output_cpu b)\<lparr>vo_header := Some h, vo_wire_sg := Some w, vo_tx := t\<rparr>"
    have b1: "output_wf b1" "vo_prepared b1" "\<not> crystalhd_v4l2_output_owned b1"
      using output_wf_cpu [OF wf(2)] k(2-5) wf free by (auto simp: output_wf_def b1_def crystalhd_v4l2_output_owned_def)
    show ?thesis
    proof (cases "rc = rc_ok")
      case False
      then have "crystalhd_v4l2_output_submit tj j xfer direct c owner b pts ms = retire_with rc c (b1\<lparr>vo_failed := True\<rparr>) None"
        using direct k(1) by (auto simp: S b1_def)
      then show ?thesis using retire_with_settled [of "b1\<lparr>vo_failed := True\<rparr>" c rc] b1 wf False by fastforce
    next
      case True
      obtain sts refs where d: "direct dl = (sts, refs)" by (cases "direct dl")
      define b3 where "b3 = b1\<lparr>vo_cpu_synced := False, vo_device_owned := True, vo_refs := refs\<rparr>"
      define rc' where "rc' = (if crystalhd_v4l2_output_owned b3 \<and> crystalhd_status_to_errno sts = rc_ok then Some EIO else crystalhd_status_to_errno sts)"
      define b4 where "b4 = (if rc' \<noteq> rc_ok then b3\<lparr>vo_failed := True\<rparr> else b3)"
      have "crystalhd_v4l2_output_submit tj j xfer direct c owner b pts ms = retire_with rc' c b4
          (Some (Direct (b1\<lparr>vo_cpu_synced := False, vo_device_owned := True\<rparr>)))"
        using direct(1-4) \<open>crystalhd_tx_deadline_from_ms tj j ms = Inr dl\<close> k(1) True d
        by (simp add: S b1_def [symmetric] b4_def b3_def rc'_def Let_def)
      moreover have "output_wf b4" "vo_prepared b4" using b1 by (auto simp: b4_def b3_def output_wf_def)
      moreover have "crystalhd_v4l2_output_owned b4 \<longrightarrow> rc' \<noteq> rc_ok \<and> vo_failed b4"
        by (auto simp: b4_def rc'_def crystalhd_v4l2_output_owned_def split: if_splits)
      ultimately show ?thesis using retire_with_settled [of b4 c rc'] wf by fastforce
    qed
  qed (use wf free in \<open>auto simp: S intro!: rs [simplified]\<close>)
qed

lemma owned_refs: "vo_refs b' = vo_refs b \<Longrightarrow> crystalhd_v4l2_output_owned b' = crystalhd_v4l2_output_owned b"
  by (simp add: crystalhd_v4l2_output_owned_def)

lemma keep_refs:
  "vo_refs (snd (crystalhd_v4l2_output_prepare vb b)) = vo_refs b"
  "vo_refs (snd (crystalhd_v4l2_output_retire b)) = vo_refs b"
  "vo_refs (snd (crystalhd_v4l2_output_cleanup b)) = vo_refs b"
  by (auto simp: crystalhd_v4l2_output_prepare_def crystalhd_v4l2_output_cleanup_def crystalhd_v4l2_output_retire_def Let_def
      split: option.splits)

lemma source_readable:
  assumes "output_wf b" "crystalhd_v4l2_output_source (Some b) = (Inr (v, n), Some b')"
  shows "plane_read b' 0 n = Some (take n v)" "b' = crystalhd_output_cpu b"
proof -
  have r: "b' = crystalhd_output_cpu b" "vo_vaddr b = Some v" "n = unat (vo_payload b)" "vo_prepared b"
    using assms(2) by (auto simp: crystalhd_v4l2_output_source_def split: option.splits if_splits)
  then have "\<not> vo_device_owned b'" "n \<le> length v" using assms(1) cpu_owned [of b] by (auto simp: output_wf_def)
  then show "plane_read b' 0 n = Some (take n v)" using r by (simp add: plane_read_def mem_read_def)
  show "b' = crystalhd_output_cpu b" by (rule r(1))
qed

lemma source_run:
  assumes "output_wf b"
  shows "\<exists>rc b'. output_exec Out_Source (c, b) = Some (rc, c, b') \<and> (b' = b \<or> b' = crystalhd_output_cpu b)"
proof (cases "crystalhd_v4l2_output_source (Some b)")
  case (Pair r b')
  have "b' = Some b \<or> (\<exists>x. r = Inr x) \<and> b' = Some (crystalhd_output_cpu b)" "r = Inl e \<Longrightarrow> b' = Some b" for e
    using Pair by (auto simp: crystalhd_v4l2_output_source_def split: option.splits if_splits)
  then obtain x where x: "b' = Some x" "r = Inl e \<Longrightarrow> x = b" for e by auto
  show ?thesis
  proof (cases r)
    case (Inl e)
    then show ?thesis using Pair x by simp
  next
    case (Inr vn)
    obtain v n where vn: "vn = (v, n)" by (cases vn)
    then have "crystalhd_v4l2_output_source (Some b) = (Inr (v, n), Some x)" using Pair Inr x by simp
    from source_readable [OF assms this] show ?thesis using Pair Inr x vn by simp
  qed
qed

lemma put_inv: "output_inv (c, b) \<Longrightarrow> output_inv (c, crystalhd_output_put b)"
  by (auto simp: crystalhd_output_put_def output_inv_def crystalhd_v4l2_output_owned_def)

lemma submit_inv:
  assumes "output_inv (c, b)" "\<not> crystalhd_v4l2_output_owned b"
  shows "\<exists>rc c' b'. output_exec (Out_Submit tj j xfer direct owner pts ms) (c, b) = Some (rc, c', b') \<and> output_inv (c', b')"
proof (cases "vo_prepared b")
  case True
  from assms(1) have wf: "ctx_wf c" "output_wf b" by (simp_all add: output_inv_def)
  from submit_settled [OF this True assms(2), of tj j xfer direct owner pts ms] obtain rc c' b' p where
    "crystalhd_v4l2_output_submit tj j xfer direct c owner b pts ms = Some (rc, c', b', p)" "ctx_wf c'" "output_wf b'" "settled rc b'"
    by blast
  then show ?thesis by (simp add: output_inv_def settled_def split: if_splits)
next
  case False
  then show ?thesis using assms by (simp add: crystalhd_v4l2_output_submit_def)
qed

lemma exec_inv:
  assumes "output_inv (c, b)" "output_op_wf op"
  shows "\<exists>rc c' b'. output_exec op (c, b) = Some (rc, c', b') \<and> output_inv (c', b')"
proof (cases "crystalhd_v4l2_output_owned b \<and> op \<noteq> Out_Put")
  case True
  then show ?thesis using frozen [of b op c] assms by blast
next
  case False
  have wf: "ctx_wf c" "output_wf b" using assms(1) by (simp_all add: output_inv_def)
  have free: "op \<noteq> Out_Put \<Longrightarrow> \<not> crystalhd_v4l2_output_owned b" using False by blast
  have step: "output_inv (c, b')" if "op \<noteq> Out_Put" "output_wf b'" "vo_refs b' = vo_refs b" for b'
    using free that wf owned_refs [OF that(3)] by (simp add: output_inv_def)
  show ?thesis
  proof (cases op)
    case (Out_Prepare vb)
    then have "output_inv (c, snd (crystalhd_v4l2_output_prepare vb b))"
      using wf assms(2) by (intro step prepare_wf keep_refs) simp_all
    then show ?thesis by (auto simp: Out_Prepare split: prod.splits)
  next
    case (Out_Submit tj j xfer direct owner pts ms)
    then show ?thesis using submit_inv [OF assms(1) free] by blast
  next
    case Out_Source
    then show ?thesis using source_run [OF wf(2), of c] step [OF _ output_wf_cpu [OF wf(2)]] assms(1) by auto
  next
    case Out_Retire
    then show ?thesis using step [OF _ retire_wf [OF wf(2)] keep_refs(2)] by simp
  next
    case Out_Cleanup
    then show ?thesis using step [OF _ cleanup_wf [OF wf(2)] keep_refs(3)] by simp
  next
    case Out_Put
    then show ?thesis using put_inv [OF assms(1)] by simp
  qed
qed

fun is_put :: "output_op \<Rightarrow> bool" where
  "is_put Out_Put = True"
| "is_put _ = False"

lemma exec_frozen:
  assumes "crystalhd_v4l2_output_owned (snd s)" "\<not> is_put op"
  shows "\<exists>rc. output_exec op s = Some (rc, s)"
proof -
  have "op \<noteq> Out_Put" using assms(2) by auto
  then show ?thesis using frozen [OF assms(1), of op "fst s"] by simp
qed

interpretation out_buf: frozen_history output_exec output_op_wf output_inv "\<lambda>s. crystalhd_v4l2_output_owned (snd s)" is_put
  using exec_inv exec_frozen by unfold_locales (auto split: prod.splits)

section \<open>Properties\<close>

text \<open>
  C18: The lease protocol of an OUTPUT buffer. From a successful initialisation, whatever sequence of
  calls follows and whatever the kernel and the device answer, no call reads or writes outside an
  array, or reads the plane or lends it to the stager while the device owns it, and a prepared buffer
  the core still leases is marked failed. A plane handed out as source is the processor's to read, for
  as many bytes as announced. While the core holds a lease, no sequence of calls without the core's own release
  changes buffer or context. A submission of a prepared free buffer ends in one of two ways: the core
  keeps a lease, and the call failed and marked the buffer; or the plane is back with the processor.
\<close>

theorem output_lease_protocol:
  assumes "crystalhd_v4l2_output_init wire coh dev b0 = (rc_ok, b)" "coh_wf coh" "ctx_wf c"
    and "\<forall>op\<in>set ops. output_op_wf op"
  shows "\<exists>rcs c1 b1. run_ops output_exec ops (c, b) = Some (rcs, c1, b1) \<and>
    (vo_prepared b1 \<and> crystalhd_v4l2_output_owned b1 \<longrightarrow> vo_failed b1) \<and>
    (\<forall>v n b2. crystalhd_v4l2_output_source (Some b1) = (Inr (v, n), Some b2) \<longrightarrow> plane_read b2 0 n = Some (take n v)) \<and>
    (\<forall>later. crystalhd_v4l2_output_owned b1 \<and> (\<forall>op\<in>set later. output_op_wf op \<and> \<not> is_put op) \<longrightarrow>
      (\<exists>rcs'. run_ops output_exec later (c1, b1) = Some (rcs', c1, b1))) \<and>
    (\<forall>tj j xfer direct owner pts ms. vo_prepared b1 \<and> \<not> crystalhd_v4l2_output_owned b1 \<longrightarrow>
      (\<exists>rc c2 b2 p. crystalhd_v4l2_output_submit tj j xfer direct c1 owner b1 pts ms = Some (rc, c2, b2, p) \<and>
        (if crystalhd_v4l2_output_owned b2 then rc \<noteq> rc_ok \<and> vo_failed b2
         else \<not> vo_device_owned b2 \<and> vo_skip_finish b2)))"
proof -
  have "output_inv (c, b)" using init_wf [OF assms(1,2)] assms(3) by (simp add: output_inv_def)
  from out_buf.run_total [OF this assms(4)] obtain rcs c1 b1 where
    e: "run_ops output_exec ops (c, b) = Some (rcs, c1, b1)" "output_inv (c1, b1)" by auto
  have "\<exists>rcs'. run_ops output_exec later (c1, b1) = Some (rcs', c1, b1)"
    if "crystalhd_v4l2_output_owned b1" "\<forall>op\<in>set later. output_op_wf op \<and> \<not> is_put op" for later
    using out_buf.run_frozen [OF e(2)] that by simp
  moreover have "\<exists>rc c2 b2 p. crystalhd_v4l2_output_submit tj j xfer direct c1 owner b1 pts ms = Some (rc, c2, b2, p) \<and>
        (if crystalhd_v4l2_output_owned b2 then rc \<noteq> rc_ok \<and> vo_failed b2 else \<not> vo_device_owned b2 \<and> vo_skip_finish b2)"
    if "vo_prepared b1" "\<not> crystalhd_v4l2_output_owned b1" for tj j xfer direct owner pts ms
    using submit_settled [OF _ _ that, of c1 tj j xfer direct owner pts ms] e(2)
    unfolding settled_def output_inv_def by fastforce
  moreover have "plane_read b2 0 n = Some (take n v)" if "crystalhd_v4l2_output_source (Some b1) = (Inr (v, n), Some b2)" for v n b2
    using source_readable(1) [OF _ that] e(2) by (simp add: output_inv_def)
  ultimately show ?thesis using e unfolding output_inv_def
    by (intro exI [of _ rcs] exI [of _ c1] exI [of _ b1]) auto
qed

definition demo_vb :: vb2_view where
  "demo_vb = \<lparr>vb_queue = Some \<lparr>vq_dev = 5, vq_dma_sg = True, vq_to_device = True\<rparr>, vb_mmap = True, vb_num_planes = 1,
     vb_payload = 6, vb_plane_size = 8,
     vb_sgt = Some \<lparr>sgt_sgl = [(0x2000, 4), (0x8000, 4)], sgt_nents = 2, sgt_orig_nents = 2\<rparr>,
     vb_vaddr = Some [0, 0, 1, 0x65, 0x88, 0x84, 0, 0]\<rparr>"

definition demo_output :: crystalhd_v4l2_output_buffer where
  "demo_output = \<lparr>vo_tx = \<lparr>tb_sgl = replicate BC_LINK_MAX_SGLS (0, 0), tb_dma_nents = 0, tb_bytes = 0, tb_tail_addr = 0,
       tb_tail_size = 0, tb_has_cookie = True\<rparr>,
     vo_dev = 5, vo_source = None, vo_wire_sg = Some (replicate BC_LINK_MAX_SGLS (0, 0)), vo_vaddr = None,
     vo_header = Some (replicate 20 0), vo_header_dma = 0x10000, vo_refs = 1, vo_payload = 0, vo_cpu_synced = False,
     vo_prepared = False, vo_failed = False, vo_skip_finish = False, vo_device_owned = False\<rparr>"

definition demo_ready :: crystalhd_v4l2_output_buffer where
  "demo_ready = snd (crystalhd_v4l2_output_prepare demo_vb demo_output)"

lemma demo_output_init:
  "crystalhd_v4l2_output_init True (Some (replicate 20 0, 0x10000)) (Some 5) demo_output = (rc_ok, demo_output)"
  "coh_wf (Some (replicate 20 0, 0x10000))"
proof -
  show "crystalhd_v4l2_output_init True (Some (replicate 20 0, 0x10000)) (Some 5) demo_output = (rc_ok, demo_output)"
    by (simp add: crystalhd_v4l2_output_init_def demo_output_def Let_def)
  have "(0x10000 :: u64) AND 3 = 0" "unat (0x10000 :: u64) = 0x10000" by simp_all
  then show "coh_wf (Some (replicate 20 0, 0x10000))" by (simp add: coh_wf_def)
qed

lemma demo_prepare:
  "crystalhd_v4l2_output_prepare demo_vb demo_output = (rc_ok, demo_ready)"
  "demo_ready = demo_output\<lparr>vo_source := vb_sgt demo_vb, vo_vaddr := vb_vaddr demo_vb, vo_payload := 6, vo_prepared := True,
     vo_device_owned := True\<rparr>"
proof -
  have s: "prepare_scan 2 [(0x2000, 4), (0x8000, 4)] 0 = Some 8" by code_simp
  show "crystalhd_v4l2_output_prepare demo_vb demo_output = (rc_ok, demo_ready)"
    "demo_ready = demo_output\<lparr>vo_source := vb_sgt demo_vb, vo_vaddr := vb_vaddr demo_vb, vo_payload := 6, vo_prepared := True,
       vo_device_owned := True\<rparr>"
    using s by (simp_all add: demo_ready_def crystalhd_v4l2_output_prepare_def demo_vb_def demo_output_def
        crystalhd_v4l2_output_owned_def Let_def)
qed

lemma demo_vb_wf: "vb2_wf demo_vb"
  by (simp add: vb2_wf_def demo_vb_def)

lemma demo_ready_wf: "output_wf demo_ready"
  using prepare_wf [OF init_wf(1) [OF demo_output_init] demo_vb_wf] by (simp add: demo_ready_def)

theorem output_lease_protocol_witness:
  "\<exists>rcs c1 b1 rc c2 b2 p. run_ops output_exec [Out_Prepare demo_vb] (Some demo_ctx, demo_output) = Some (rcs, c1, b1) \<and>
    crystalhd_v4l2_output_submit (\<lambda>m. ucast m) 100 (\<lambda>_ _. BC_STS_SUCCESS) (\<lambda>_. (BC_STS_TIMEOUT, 2)) c1 (Some 7) b1 9 50 =
      Some (rc, c2, b2, p) \<and>
    (if crystalhd_v4l2_output_owned b2 then rc \<noteq> rc_ok \<and> vo_failed b2 else \<not> vo_device_owned b2 \<and> vo_skip_finish b2)"
proof -
  have wf: "\<forall>op\<in>set [Out_Prepare demo_vb]. output_op_wf op" by (simp add: demo_vb_wf)
  have e: "run_ops output_exec [Out_Prepare demo_vb] (Some demo_ctx, demo_output) = Some ([rc_ok], Some demo_ctx, demo_ready)"
    by (simp add: demo_prepare(1))
  have r: "vo_prepared demo_ready" "\<not> crystalhd_v4l2_output_owned demo_ready"
    by (simp_all add: demo_prepare(2) demo_output_def crystalhd_v4l2_output_owned_def)
  from output_lease_protocol [OF demo_output_init demo_ctx_wf wf] e r show ?thesis by (auto simp del: run_ops.simps)
qed

theorem output_packet_exact_witness:
  "\<exists>b'. crystalhd_output_packet demo_ready 0x1FFFFFFFF = Some (rc_ok, b') \<and>
    crystalhd_tx_buffer_preflight (Some (vo_tx b')) 1024 = BC_STS_SUCCESS \<and>
    (\<forall>bus. vo_header b' = Some (map bus (span 0x10000 20)) \<and>
       map bus (span 0x2000 4 @ span 0x8000 2) = [0, 0, 1, 0x65, 0x88, 0x84] \<longrightarrow>
       parse_pes (map bus (tx_bus (vo_tx b'))) = Some (Some 0x1FFFFFFFF, [0, 0, 1, 0x65, 0x88, 0x84]))"
proof -
  have r: "vo_prepared demo_ready" "\<not> crystalhd_v4l2_output_owned demo_ready" "vo_payload demo_ready \<le> CHD_OUTPUT_DIRECT_LIMIT"
    "drop_bit 33 (0x1FFFFFFFF :: u64) = 0"
    "vo_source demo_ready = Some \<lparr>sgt_sgl = [(0x2000, 4), (0x8000, 4)], sgt_nents = 2, sgt_orig_nents = 2\<rparr>"
    "vo_vaddr demo_ready = Some [0, 0, 1, 0x65, 0x88, 0x84, 0, 0]"
    by (simp_all add: demo_prepare(2) demo_output_def demo_vb_def crystalhd_v4l2_output_owned_def)
  have m: "(6 :: u32) AND NOT 3 = 4" "min 4 (4 :: u32) = 4" by code_simp+
  have pe: "payload_entries demo_ready = [(0x2000, 4)]"
    using m by (simp add: payload_entries_def demo_prepare(2) demo_output_def demo_vb_def)
  have f: "packet_fits demo_ready" by (simp add: packet_fits_def pe)
  have x: "take (unat (vo_payload demo_ready)) (sg_bytes (take (unat (2::u32)) [(0x2000, 4), (0x8000, 4)])) = span 0x2000 4 @ span 0x8000 2"
    "vo_header_dma demo_ready = 0x10000"
    by (simp_all add: demo_prepare(2) demo_output_def sg_bytes_def span_take)
  have y: "take (unat (vo_payload demo_ready)) [0, 0, 1, 0x65, 0x88, 0x84, 0, 0 :: u8] = [0, 0, 1, 0x65, 0x88, 0x84]"
    by (simp add: demo_prepare(2) demo_output_def)
  show ?thesis using output_packet_exact [OF demo_ready_wf r] f unfolding sg_table.simps x y by auto
qed

end
