(* ===== verification/Fw_Cmd.thy ===== *)
theory Fw_Cmd
  imports Chd_Prelude
begin

text \<open>
  The firmware mailbox transaction protocol (\<^verbatim>\<open>driver/linux/crystalhd_hw.c\<close>, the
  \<^verbatim>\<open>crystalhd_hw_fw_cmd_*\<close> functions) and its use by the Flea command path
  (\<^verbatim>\<open>crystalhd_flea_do_fw_cmd\<close> in \<^verbatim>\<open>driver/linux/crystalhd_fleafuncs.c\<close>). The two mutexes hold the
  thread that owns them; every section under the adapter spinlock is one transformation; the
  mailbox interrupt may be taken between any two of them. An operation that would block on a
  mutex is \<^const>\<open>None\<close>. Whether \<^verbatim>\<open>mutex_lock_interruptible\<close> is interrupted, and what the device
  accesses report, are arguments.
\<close>

section \<open>State\<close>

type_synonym thread = nat

record fw_state =
  fw_trans_mutex :: "thread option"
  fw_mutex :: "thread option"
  fw_trans_active :: bool
  fw_pending :: bool
  fw_active :: bool
  fw_poisoned :: bool
  fw_evt_sts :: bool
  fw_cmd_cnt :: u32
  fw_dma_fault :: bool
  fw_present :: bool
  fw_wakes :: nat

section \<open>Operations\<close>

definition crystalhd_hw_fw_cmd_enter ::
  "thread \<Rightarrow> bool \<Rightarrow> fw_state \<Rightarrow> (bc_status \<times> fw_state) option" where
  "crystalhd_hw_fw_cmd_enter t interrupted s =
    (if interrupted then Some (BC_STS_IO_USER_ABORT, s)
     else if fw_trans_mutex s \<noteq> None then None
     else
       let s1 = s\<lparr>fw_trans_mutex := Some t\<rparr>;
           (sts, s2) =
             (if fw_dma_fault s1 \<or> \<not> fw_present s1 then (BC_STS_IO_ERROR, s1)
              else if fw_poisoned s1 \<or> fw_pending s1 then (BC_STS_BUSY, s1)
              else (BC_STS_SUCCESS, s1\<lparr>fw_trans_active := True\<rparr>))
       in Some (sts, if sts \<noteq> BC_STS_SUCCESS then s2\<lparr>fw_trans_mutex := None\<rparr> else s2))"

definition crystalhd_hw_fw_cmd_recovery_enter ::
  "thread \<Rightarrow> bool \<Rightarrow> fw_state \<Rightarrow> (bc_status \<times> fw_state) option" where
  "crystalhd_hw_fw_cmd_recovery_enter t interrupted s =
    (if interrupted then Some (BC_STS_IO_USER_ABORT, s)
     else if fw_trans_mutex s \<noteq> None then None
     else
       let s1 = s\<lparr>fw_trans_mutex := Some t\<rparr>;
           (sts, s2) =
             (if fw_dma_fault s1 \<or> \<not> fw_present s1 then (BC_STS_IO_ERROR, s1)
              else if fw_pending s1 then (BC_STS_BUSY, s1)
              else (BC_STS_SUCCESS, s1\<lparr>fw_trans_active := True\<rparr>))
       in Some (sts, if sts \<noteq> BC_STS_SUCCESS then s2\<lparr>fw_trans_mutex := None\<rparr> else s2))"

text \<open>\<^verbatim>\<open>crystalhd_flea_fw_transaction_done\<close> concerns the power state machine only.\<close>

definition crystalhd_hw_fw_cmd_leave :: "fw_state \<Rightarrow> fw_state" where
  "crystalhd_hw_fw_cmd_leave s = s\<lparr>fw_trans_active := False, fw_trans_mutex := None\<rparr>"

definition crystalhd_hw_fw_cmd_begin ::
  "thread \<Rightarrow> bool \<Rightarrow> fw_state \<Rightarrow> (bc_status \<times> fw_state) option" where
  "crystalhd_hw_fw_cmd_begin t interrupted s =
    (if interrupted then Some (BC_STS_IO_USER_ABORT, s)
     else if fw_mutex s \<noteq> None then None
     else
       let s1 = s\<lparr>fw_mutex := Some t\<rparr>;
           (sts, s2) =
             (if fw_poisoned s1 \<or> fw_pending s1 then (BC_STS_BUSY, s1)
              else (BC_STS_SUCCESS,
                    s1\<lparr>fw_evt_sts := False, fw_pending := True, fw_active := True,
                       fw_cmd_cnt := fw_cmd_cnt s1 + 1\<rparr>))
       in Some (sts, if sts \<noteq> BC_STS_SUCCESS then s2\<lparr>fw_mutex := None\<rparr> else s2))"

text \<open>
  The wait ends with \<open>rc\<close>: 0 when the event was seen, \<^verbatim>\<open>-EBUSY\<close> after 20 s, and (never, with
  signals masked) \<^verbatim>\<open>-EINTR\<close>; then the state is judged under the lock.
\<close>

definition crystalhd_hw_fw_cmd_wait :: "rc \<Rightarrow> fw_state \<Rightarrow> bc_status \<times> fw_state" where
  "crystalhd_hw_fw_cmd_wait rc s =
    (if fw_evt_sts s then (BC_STS_SUCCESS, s)
     else
       let s1 = (if fw_pending s then s\<lparr>fw_pending := False, fw_poisoned := True\<rparr> else s)
       in (if rc = Some EBUSY then BC_STS_TIMEOUT
           else if rc = Some EINTR then BC_STS_IO_USER_ABORT
           else BC_STS_IO_ERROR, s1))"

definition crystalhd_hw_fw_cmd_abort_unposted_locked :: "fw_state \<Rightarrow> fw_state" where
  "crystalhd_hw_fw_cmd_abort_unposted_locked s =
    (let s1 = (if fw_pending s
               then let s' = s\<lparr>fw_pending := False\<rparr>
                    in if fw_cmd_cnt s' \<noteq> 0 then s'\<lparr>fw_cmd_cnt := fw_cmd_cnt s' - 1\<rparr> else s'
               else s)
     in s1\<lparr>fw_evt_sts := False, fw_poisoned := True\<rparr>)"

definition crystalhd_hw_fw_cmd_end :: "fw_state \<Rightarrow> fw_state" where
  "crystalhd_hw_fw_cmd_end s = s\<lparr>fw_active := False, fw_mutex := None\<rparr>"

definition crystalhd_hw_fw_cmd_complete :: "fw_state \<Rightarrow> fw_state" where
  "crystalhd_hw_fw_cmd_complete s =
    (let (s1, wake) =
       (if fw_pending s
        then let s' = s\<lparr>fw_pending := False, fw_evt_sts := True\<rparr>
             in (if fw_cmd_cnt s' \<noteq> 0 then s'\<lparr>fw_cmd_cnt := fw_cmd_cnt s' - 1\<rparr> else s', True)
        else if fw_poisoned s
        then (if fw_cmd_cnt s \<noteq> 0 then (s\<lparr>fw_cmd_cnt := fw_cmd_cnt s - 1\<rparr>, True) else (s, False))
        else (s, False))
     in if wake then s1\<lparr>fw_wakes := fw_wakes s1 + 1\<rparr> else s1)"

definition crystalhd_hw_fw_cmd_reset_locked :: "fw_state \<Rightarrow> fw_state option" where
  "crystalhd_hw_fw_cmd_reset_locked s =
    (if fw_mutex s \<noteq> None then None
     else Some (s\<lparr>fw_pending := False, fw_active := False, fw_poisoned := False,
                  fw_evt_sts := False, fw_cmd_cnt := 0\<rparr>))"

definition crystalhd_hw_fw_cmd_reset :: "fw_state \<Rightarrow> fw_state option" where
  "crystalhd_hw_fw_cmd_reset s =
    (if fw_trans_mutex s \<noteq> None then None else crystalhd_hw_fw_cmd_reset_locked s)"

section \<open>The Flea command path\<close>

text \<open>
  \<open>flea_do_post\<close> is the part between \<open>begin\<close> and the mailbox write: \<open>powered\<close> tells whether the
  power state is active after the attempt to raise it, \<open>dram\<close> what writing the command and reading
  it return_pc reported. The result says whether the mailbox was written.
\<close>

definition flea_do_post :: "bool \<Rightarrow> bc_status \<Rightarrow> fw_state \<Rightarrow> bool \<times> fw_state" where
  "flea_do_post powered dram s =
    (if \<not> powered then (False, crystalhd_hw_fw_cmd_abort_unposted_locked s)
     else if dram \<noteq> BC_STS_SUCCESS then (False, crystalhd_hw_fw_cmd_abort_unposted_locked s)
     else (True, s))"

text \<open>
  \<open>flea_do_reply\<close> is the part after a successful wait: \<open>dram\<close> is the outcome of reading the reply,
  \<open>reply2\<close> its status word, \<open>bad_channel\<close> that an open reply names a channel the decoder does not have, which
  post-processing answers by poisoning the mailbox, \<open>post\<close> what it reports otherwise.
\<close>

definition flea_do_reply ::
  "bc_status \<Rightarrow> u32 \<Rightarrow> bool \<Rightarrow> bc_status \<Rightarrow> fw_state \<Rightarrow> bc_status \<times> fw_state" where
  "flea_do_reply dram reply2 bad_channel post s =
    (if dram \<noteq> BC_STS_SUCCESS then (BC_STS_IO_ERROR, s\<lparr>fw_poisoned := True\<rparr>)
     else if reply2 \<noteq> 0 then (BC_STS_FW_CMD_ERR, s)
     else if bad_channel then (BC_STS_IO_ERROR, s\<lparr>fw_poisoned := True\<rparr>)
     else (post, s))"

section \<open>Threads\<close>

text \<open>
  Where a thread is: outside, inside a transaction, inside a recovery transaction, or in the
  command path (begun, posted, done waiting with a status); the flag says whether a transaction is
  open around it, since low-level callers may bypass it.
\<close>

datatype fw_pc =
    Outside
  | In_Trans
  | In_Recovery
  | Begun bool
  | Posted bool
  | Waited bool bc_status
  | Finished bool bc_status

definition holds_trans :: "fw_pc \<Rightarrow> bool" where
  "holds_trans p = (case p of Outside \<Rightarrow> False | In_Trans \<Rightarrow> True | In_Recovery \<Rightarrow> True
    | Begun b \<Rightarrow> b | Posted b \<Rightarrow> b | Waited b _ \<Rightarrow> b | Finished b _ \<Rightarrow> b)"

definition holds_cmd :: "fw_pc \<Rightarrow> bool" where
  "holds_cmd p = (case p of Outside \<Rightarrow> False | In_Trans \<Rightarrow> False | In_Recovery \<Rightarrow> False | _ \<Rightarrow> True)"

definition return_pc :: "bool \<Rightarrow> fw_pc" where
  "return_pc b = (if b then In_Trans else Outside)"

type_synonym fw_config = "fw_state \<times> (thread \<Rightarrow> fw_pc)"

text \<open>
  One step of the system. \<open>Irq\<close> is the mailbox interrupt, possible at any time, also with no
  command outstanding. Faults and removal of the device may be published at any time.
\<close>

datatype fw_label =
    L_Enter thread bc_status
  | L_Recovery thread bc_status
  | L_Leave thread
  | L_Begin thread bc_status
  | L_Post thread bool
  | L_Wait thread bc_status
  | L_Reply thread bc_status
  | L_End thread
  | L_Reset
  | L_Irq
  | L_Fault

inductive fw_step :: "fw_config \<Rightarrow> fw_label \<Rightarrow> fw_config \<Rightarrow> bool" where
  enter: "pcs t = Outside \<Longrightarrow> crystalhd_hw_fw_cmd_enter t i s = Some (sts, s') \<Longrightarrow>
    fw_step (s, pcs) (L_Enter t sts) (s', if sts = BC_STS_SUCCESS then pcs(t := In_Trans) else pcs)"
| recovery: "pcs t = Outside \<Longrightarrow> crystalhd_hw_fw_cmd_recovery_enter t i s = Some (sts, s') \<Longrightarrow>
    fw_step (s, pcs) (L_Recovery t sts)
      (s', if sts = BC_STS_SUCCESS then pcs(t := In_Recovery) else pcs)"
| leave: "pcs t = In_Trans \<or> pcs t = In_Recovery \<Longrightarrow>
    fw_step (s, pcs) (L_Leave t) (crystalhd_hw_fw_cmd_leave s, pcs(t := Outside))"
| start: "pcs t = return_pc b \<Longrightarrow> crystalhd_hw_fw_cmd_begin t i s = Some (sts, s') \<Longrightarrow>
    fw_step (s, pcs) (L_Begin t sts) (s', if sts = BC_STS_SUCCESS then pcs(t := Begun b) else pcs)"
| post: "pcs t = Begun b \<Longrightarrow> flea_do_post powered dram s = (ok, s') \<Longrightarrow>
    fw_step (s, pcs) (L_Post t ok)
      (s', pcs(t := (if ok then Posted b else Finished b BC_STS_IO_ERROR)))"
| wait: "pcs t = Posted b \<Longrightarrow> (rc = rc_ok \<Longrightarrow> fw_evt_sts s) \<Longrightarrow>
    crystalhd_hw_fw_cmd_wait rc s = (sts, s') \<Longrightarrow>
    fw_step (s, pcs) (L_Wait t sts)
      (s', pcs(t := (if sts = BC_STS_SUCCESS then Waited b sts else Finished b sts)))"
| reply: "pcs t = Waited b w \<Longrightarrow> flea_do_reply dram reply2 bad_channel post s = (sts, s') \<Longrightarrow>
    fw_step (s, pcs) (L_Reply t sts) (s', pcs(t := Finished b sts))"
| finish: "pcs t = Finished b sts \<Longrightarrow>
    fw_step (s, pcs) (L_End t) (crystalhd_hw_fw_cmd_end s, pcs(t := return_pc b))"
| reset_locked: "pcs t = In_Recovery \<Longrightarrow> crystalhd_hw_fw_cmd_reset_locked s = Some s' \<Longrightarrow>
    fw_step (s, pcs) L_Reset (s', pcs)"
| reset: "crystalhd_hw_fw_cmd_reset s = Some s' \<Longrightarrow> fw_step (s, pcs) L_Reset (s', pcs)"
| irq: "fw_step (s, pcs) L_Irq (crystalhd_hw_fw_cmd_complete s, pcs)"
| fault: "fw_step (s, pcs) L_Fault (s\<lparr>fw_dma_fault := fw_dma_fault s \<or> f, fw_present := fw_present s \<and> p\<rparr>, pcs)"

inductive fw_run :: "fw_config \<Rightarrow> fw_label list \<Rightarrow> fw_config \<Rightarrow> bool" where
  fw_nil: "fw_run c [] c"
| fw_cons: "fw_step c l c' \<Longrightarrow> fw_run c' ls c'' \<Longrightarrow> fw_run c (l # ls) c''"

definition fw_init :: fw_config where
  "fw_init = (\<lparr>fw_trans_mutex = None, fw_mutex = None, fw_trans_active = False, fw_pending = False,
     fw_active = False, fw_poisoned = False, fw_evt_sts = False, fw_cmd_cnt = 0,
     fw_dma_fault = False, fw_present = True, fw_wakes = 0\<rparr>, \<lambda>_. Outside)"

inductive_cases fw_run_nilE: "fw_run c [] c'"
inductive_cases fw_run_consE: "fw_run c (l # ls) c'"

section \<open>Invariant\<close>

text \<open>Who holds which mutex agrees with where the threads are.\<close>

definition pc_inv :: "(thread \<Rightarrow> fw_pc) \<Rightarrow> thread option \<Rightarrow> thread option \<Rightarrow> bool" where
  "pc_inv pcs tm cm \<longleftrightarrow>
     (\<forall>t. holds_trans (pcs t) \<longleftrightarrow> tm = Some t) \<and> (\<forall>t. holds_cmd (pcs t) \<longleftrightarrow> cm = Some t)"

text \<open>The mailbox flags and the outstanding-command count.\<close>

definition mail_inv :: "fw_state \<Rightarrow> bool" where
  "mail_inv s \<longleftrightarrow>
     (fw_trans_active s \<longleftrightarrow> fw_trans_mutex s \<noteq> None) \<and> (fw_active s \<longleftrightarrow> fw_mutex s \<noteq> None) \<and>
     (fw_pending s \<longrightarrow> fw_cmd_cnt s = 1 \<and> \<not> fw_poisoned s \<and> \<not> fw_evt_sts s \<and> fw_mutex s \<noteq> None) \<and>
     (fw_cmd_cnt s = 0 \<or> fw_cmd_cnt s = 1 \<and> (fw_pending s \<or> fw_poisoned s))"

definition stage_inv :: "fw_state \<Rightarrow> fw_pc \<Rightarrow> bool" where
  "stage_inv s p = (case p of
      Begun _ \<Rightarrow> fw_pending s \<or> fw_evt_sts s
    | Posted _ \<Rightarrow> fw_pending s \<or> fw_evt_sts s
    | Waited _ _ \<Rightarrow> fw_evt_sts s \<and> \<not> fw_pending s
    | Finished _ _ \<Rightarrow> \<not> fw_pending s
    | _ \<Rightarrow> True)"

definition fw_inv :: "fw_config \<Rightarrow> bool" where
  "fw_inv c = (case c of (s, pcs) \<Rightarrow>
     pc_inv pcs (fw_trans_mutex s) (fw_mutex s) \<and> mail_inv s \<and> (\<forall>t. stage_inv s (pcs t)))"

lemmas fw_op_defs =
  crystalhd_hw_fw_cmd_enter_def crystalhd_hw_fw_cmd_recovery_enter_def crystalhd_hw_fw_cmd_leave_def
  crystalhd_hw_fw_cmd_begin_def crystalhd_hw_fw_cmd_wait_def crystalhd_hw_fw_cmd_abort_unposted_locked_def
  crystalhd_hw_fw_cmd_end_def crystalhd_hw_fw_cmd_complete_def crystalhd_hw_fw_cmd_reset_locked_def
  crystalhd_hw_fw_cmd_reset_def flea_do_post_def flea_do_reply_def

lemma holds_simps [simp]:
  "holds_trans Outside = False" "holds_trans In_Trans" "holds_trans In_Recovery"
  "holds_trans (Begun b) = b" "holds_trans (Posted b) = b" "holds_trans (Waited b w) = b"
  "holds_trans (Finished b w) = b" "holds_trans (return_pc b) = b"
  "holds_cmd Outside = False" "holds_cmd In_Trans = False" "holds_cmd In_Recovery = False"
  "holds_cmd (Begun b)" "holds_cmd (Posted b)" "holds_cmd (Waited b w)"
  "holds_cmd (Finished b w)" "holds_cmd (return_pc b) = False"
  by (simp_all add: holds_trans_def holds_cmd_def return_pc_def)

lemma return_pc_neq [simp]:
  "return_pc b \<noteq> Begun c" "return_pc b \<noteq> Posted c" "return_pc b \<noteq> Waited c w"
  by (simp_all add: return_pc_def)

lemma stage_simps [simp]:
  "stage_inv s Outside" "stage_inv s In_Trans" "stage_inv s In_Recovery" "stage_inv s (return_pc b)"
  "stage_inv s (Finished b w) \<longleftrightarrow> \<not> fw_pending s"
  "stage_inv s (Begun b) \<longleftrightarrow> fw_pending s \<or> fw_evt_sts s"
  "stage_inv s (Posted b) \<longleftrightarrow> fw_pending s \<or> fw_evt_sts s"
  "stage_inv s (Waited b w) \<longleftrightarrow> fw_evt_sts s \<and> \<not> fw_pending s"
  by (simp_all add: stage_inv_def return_pc_def)

lemma stage_inv_free: "\<not> holds_cmd p \<Longrightarrow> stage_inv s p"
  by (cases p) simp_all

lemma stage_inv_cong:
  "stage_inv s p \<Longrightarrow> fw_pending s' = fw_pending s \<Longrightarrow> fw_evt_sts s' = fw_evt_sts s \<Longrightarrow> stage_inv s' p"
  by (cases p) simp_all

lemma pc_inv_upd:
  assumes "pc_inv pcs tm cm" "holds_trans p \<longleftrightarrow> tm' = Some t" "holds_cmd p \<longleftrightarrow> cm' = Some t"
    "\<And>u. u \<noteq> t \<Longrightarrow> (tm' = Some u) = (tm = Some u)" "\<And>u. u \<noteq> t \<Longrightarrow> (cm' = Some u) = (cm = Some u)"
  shows "pc_inv (pcs(t := p)) tm' cm'"
  using assms by (simp add: pc_inv_def)

lemma pc_invD: "pc_inv pcs tm cm \<Longrightarrow> holds_trans (pcs t) = (tm = Some t) \<and> holds_cmd (pcs t) = (cm = Some t)"
  by (simp add: pc_inv_def)

text \<open>Changing one thread's position and the state at the same time.\<close>

lemma fw_inv_upd:
  assumes "fw_inv (s, pcs)" "mail_inv s'" "stage_inv s' p"
    and "holds_trans p \<longleftrightarrow> fw_trans_mutex s' = Some t" "holds_cmd p \<longleftrightarrow> fw_mutex s' = Some t"
    and "\<And>u. u \<noteq> t \<Longrightarrow> (fw_trans_mutex s' = Some u) = (fw_trans_mutex s = Some u)"
    and "\<And>u. u \<noteq> t \<Longrightarrow> (fw_mutex s' = Some u) = (fw_mutex s = Some u)"
    and "(\<exists>u. u \<noteq> t \<and> fw_mutex s = Some u) \<longrightarrow> fw_pending s' = fw_pending s \<and> fw_evt_sts s' = fw_evt_sts s"
  shows "fw_inv (s', pcs(t := p))"
proof -
  have inv: "pc_inv pcs (fw_trans_mutex s) (fw_mutex s)" "\<And>u. stage_inv s (pcs u)"
    using assms(1) by (simp_all add: fw_inv_def)
  have "stage_inv s' (pcs u)" if "u \<noteq> t" for u
    using pc_invD [OF inv(1), of u] inv(2) [of u] assms(8) that
    by (cases "holds_cmd (pcs u)") (auto intro: stage_inv_free stage_inv_cong)
  with assms pc_inv_upd [OF inv(1) assms(4-7)] show ?thesis by (simp add: fw_inv_def)
qed

lemma fw_inv_same_pcs:
  assumes "fw_inv (s, pcs)" "mail_inv s'" "fw_trans_mutex s' = fw_trans_mutex s" "fw_mutex s' = fw_mutex s"
    "\<And>p. stage_inv s p \<Longrightarrow> holds_cmd p \<Longrightarrow> fw_mutex s \<noteq> None \<Longrightarrow> stage_inv s' p"
  shows "fw_inv (s', pcs)"
proof -
  have inv: "pc_inv pcs (fw_trans_mutex s) (fw_mutex s)" "\<And>u. stage_inv s (pcs u)"
    using assms(1) by (simp_all add: fw_inv_def)
  have "stage_inv s' (pcs u)" for u
    using pc_invD [OF inv(1), of u] inv(2) [of u] assms(5) [of "pcs u"]
    by (cases "holds_cmd (pcs u)") (auto intro: stage_inv_free)
  with assms inv(1) show ?thesis by (simp add: fw_inv_def)
qed

lemma fw_invD:
  assumes "fw_inv (s, pcs)"
  shows "mail_inv s" "holds_trans (pcs t) = (fw_trans_mutex s = Some t)"
    "holds_cmd (pcs t) = (fw_mutex s = Some t)" "stage_inv s (pcs t)"
  using assms pc_invD by (auto simp: fw_inv_def)

lemma fw_step_inv: "fw_step c l c' \<Longrightarrow> fw_inv c \<Longrightarrow> fw_inv c'"
proof (induction rule: fw_step.induct)
  case (enter pcs t i s sts s')
  note D = fw_invD [OF enter(3)]
  show ?case
  proof (cases "sts = BC_STS_SUCCESS")
    case True
    then have "s' = s\<lparr>fw_trans_mutex := Some t, fw_trans_active := True\<rparr>" "fw_trans_mutex s = None"
      using enter(2) by (auto simp: crystalhd_hw_fw_cmd_enter_def Let_def split: if_splits)
    then show ?thesis using True D(1) D(2,3) [of t] enter(1)
      by (auto intro!: fw_inv_upd [OF enter(3)] simp: mail_inv_def)
  next
    case False
    then have "s' = s" using enter(2)
      by (auto simp: crystalhd_hw_fw_cmd_enter_def Let_def split: if_splits)
    then show ?thesis using False enter(3) by simp
  qed
next
  case (recovery pcs t i s sts s')
  note D = fw_invD [OF recovery(3)]
  show ?case
  proof (cases "sts = BC_STS_SUCCESS")
    case True
    then have "s' = s\<lparr>fw_trans_mutex := Some t, fw_trans_active := True\<rparr>" "fw_trans_mutex s = None"
      using recovery(2) by (auto simp: crystalhd_hw_fw_cmd_recovery_enter_def Let_def split: if_splits)
    then show ?thesis using True D(1) D(2,3) [of t] recovery(1)
      by (auto intro!: fw_inv_upd [OF recovery(3)] simp: mail_inv_def)
  next
    case False
    then have "s' = s" using recovery(2)
      by (auto simp: crystalhd_hw_fw_cmd_recovery_enter_def Let_def split: if_splits)
    then show ?thesis using False recovery(3) by simp
  qed
next
  case (leave pcs t s)
  note D = fw_invD [OF leave(2)]
  show ?case using D(1) D(2,3) [of t] leave(1)
    by (intro fw_inv_upd [OF leave(2)]) (auto simp: crystalhd_hw_fw_cmd_leave_def mail_inv_def)
next
  case (start pcs t b i s sts s')
  note D = fw_invD [OF start(3)]
  show ?case
  proof (cases "sts = BC_STS_SUCCESS")
    case True
    then have "s' = s\<lparr>fw_mutex := Some t, fw_evt_sts := False, fw_pending := True, fw_active := True,
        fw_cmd_cnt := fw_cmd_cnt s + 1\<rparr>" "fw_mutex s = None" "\<not> fw_poisoned s" "\<not> fw_pending s"
      using start(2) by (auto simp: crystalhd_hw_fw_cmd_begin_def Let_def split: if_splits)
    then show ?thesis using True D(1) D(2,3) [of t] start(1)
      by (auto intro!: fw_inv_upd [OF start(3)] simp: mail_inv_def)
  next
    case False
    then have "s' = s" using start(2)
      by (auto simp: crystalhd_hw_fw_cmd_begin_def Let_def split: if_splits)
    then show ?thesis using False start(3) by simp
  qed
next
  case (post pcs t b powered dram s ok s')
  note D = fw_invD [OF post(3)]
  show ?case
  proof (cases ok)
    case True
    then have "s' = s" using post(2) by (auto simp: flea_do_post_def split: if_splits)
    then show ?thesis using True D(1) D(2,3,4) [of t] post(1)
      by (auto intro!: fw_inv_upd [OF post(3)])
  next
    case False
    then have "s' = crystalhd_hw_fw_cmd_abort_unposted_locked s"
      using post(2) by (auto simp: flea_do_post_def split: if_splits)
    then show ?thesis using False D(1) D(2,3) [of t] post(1)
      by (auto intro!: fw_inv_upd [OF post(3)]
          simp: mail_inv_def crystalhd_hw_fw_cmd_abort_unposted_locked_def Let_def)
  qed
next
  case (wait pcs t b rc s sts s')
  note D = fw_invD [OF wait(4)]
  show ?case using D(1) D(2,3,4) [of t] wait(1,3)
    by (auto intro!: fw_inv_upd [OF wait(4)] simp: mail_inv_def crystalhd_hw_fw_cmd_wait_def Let_def
        split: if_splits)
next
  case (reply pcs t b w dram reply2 bad_channel post s sts s')
  note D = fw_invD [OF reply(3)]
  show ?case using D(1) D(2,3,4) [of t] reply(1,2)
    by (auto intro!: fw_inv_upd [OF reply(3)] simp: mail_inv_def flea_do_reply_def split: if_splits)
next
  case (finish pcs t b sts s)
  note D = fw_invD [OF finish(2)]
  show ?case using D(1) D(2,3,4) [of t] finish(1)
    by (auto intro!: fw_inv_upd [OF finish(2)] simp: mail_inv_def crystalhd_hw_fw_cmd_end_def)
next
  case (reset_locked pcs t s s')
  show ?case using fw_invD(1) [OF reset_locked(3)] reset_locked(2)
    by (auto intro!: fw_inv_same_pcs [OF reset_locked(3)]
        simp: mail_inv_def crystalhd_hw_fw_cmd_reset_locked_def split: if_splits)
next
  case (reset s s' pcs)
  show ?case using fw_invD(1) [OF reset(2)] reset(1)
    by (auto intro!: fw_inv_same_pcs [OF reset(2)] simp: mail_inv_def
        crystalhd_hw_fw_cmd_reset_locked_def crystalhd_hw_fw_cmd_reset_def split: if_splits)
next
  case (irq s pcs)
  have "stage_inv (crystalhd_hw_fw_cmd_complete s) p" if "stage_inv s p" for p
    using that by (cases p) (auto simp: crystalhd_hw_fw_cmd_complete_def Let_def)
  then show ?case using fw_invD(1) [OF irq]
    by (intro fw_inv_same_pcs [OF irq])
      (auto simp: mail_inv_def crystalhd_hw_fw_cmd_complete_def Let_def)
next
  case (fault s pcs f p)
  have "stage_inv (s\<lparr>fw_dma_fault := x, fw_present := y\<rparr>) q = stage_inv s q" for x y q
    by (cases q) auto
  then show ?case using fw_invD(1) [OF fault]
    by (intro fw_inv_same_pcs [OF fault]) (auto simp: mail_inv_def)
qed


lemma fw_run_inv: "fw_run c ls c' \<Longrightarrow> fw_inv c \<Longrightarrow> fw_inv c'"
  by (induction rule: fw_run.induct) (auto intro: fw_step_inv)

lemma fw_inv_init: "fw_inv fw_init"
  by (simp add: fw_inv_def fw_init_def pc_inv_def mail_inv_def)


section \<open>Properties\<close>

text \<open>
  C6: Under every interleaving of threads, mailbox interrupts (also spurious ones), faults and
  resets, at most one thread is in the command path and at most one in a transaction, each flag
  agrees with the mutex it mirrors, a pending command is counted exactly once, and the count that
  gates power management never exceeds one and is non-zero only while a command is pending or a
  timed-out one is still owed an interrupt.
\<close>

theorem fw_protocol_invariant:
  assumes "fw_run fw_init ls (s, pcs)"
  shows "(\<forall>t u. holds_cmd (pcs t) \<and> holds_cmd (pcs u) \<longrightarrow> t = u) \<and>
    (\<forall>t u. holds_trans (pcs t) \<and> holds_trans (pcs u) \<longrightarrow> t = u) \<and>
    (fw_active s \<longleftrightarrow> (\<exists>t. holds_cmd (pcs t))) \<and> (fw_trans_active s \<longleftrightarrow> (\<exists>t. holds_trans (pcs t))) \<and>
    fw_cmd_cnt s \<le> 1 \<and> (fw_pending s \<longrightarrow> fw_cmd_cnt s = 1 \<and> \<not> fw_poisoned s) \<and>
    (fw_cmd_cnt s \<noteq> 0 \<longrightarrow> fw_pending s \<or> fw_poisoned s)"
proof -
  have inv: "fw_inv (s, pcs)" using fw_run_inv [OF assms fw_inv_init] .
  note D = fw_invD [OF inv]
  have "fw_cmd_cnt s \<le> 1" using D(1) by (auto simp: mail_inv_def)
  moreover have "fw_pending s \<longrightarrow> fw_cmd_cnt s = 1 \<and> \<not> fw_poisoned s"
    "fw_cmd_cnt s \<noteq> 0 \<longrightarrow> fw_pending s \<or> fw_poisoned s"
    "fw_active s \<longleftrightarrow> fw_mutex s \<noteq> None" "fw_trans_active s \<longleftrightarrow> fw_trans_mutex s \<noteq> None"
    using D(1) unfolding mail_inv_def by blast+
  ultimately show ?thesis using D(2,3) by auto
qed

theorem fw_protocol_invariant_witness:
  "\<exists>ls s pcs. fw_run fw_init ls (s, pcs) \<and> pcs 7 = Begun True \<and> fw_cmd_cnt s \<le> 1 \<and> fw_pending s"
proof -
  let ?s0 = "fst fw_init" and ?p0 = "snd fw_init"
  let ?s1 = "?s0\<lparr>fw_trans_mutex := Some 7, fw_trans_active := True\<rparr>" and ?p1 = "?p0(7 := In_Trans)"
  let ?s2 = "?s1\<lparr>fw_mutex := Some 7, fw_evt_sts := False, fw_pending := True, fw_active := True, fw_cmd_cnt := 1\<rparr>"
  have "fw_step (?s0, ?p0) (L_Enter 7 BC_STS_SUCCESS) (?s1, ?p1)"
    using fw_step.enter [of ?p0 7 False ?s0 BC_STS_SUCCESS ?s1]
    by (simp add: fw_init_def crystalhd_hw_fw_cmd_enter_def)
  moreover have "fw_step (?s1, ?p1) (L_Begin 7 BC_STS_SUCCESS) (?s2, ?p1(7 := Begun True))"
    using fw_step.start [of ?p1 7 True False ?s1 BC_STS_SUCCESS ?s2]
    by (simp add: fw_init_def crystalhd_hw_fw_cmd_begin_def return_pc_def)
  ultimately have run: "fw_run fw_init [L_Enter 7 BC_STS_SUCCESS, L_Begin 7 BC_STS_SUCCESS]
      (?s2, ?p1(7 := Begun True))"
    by (auto intro: fw_run.intros)
  from fw_protocol_invariant [OF run] run show ?thesis
    by (intro exI [of _ "[L_Enter 7 BC_STS_SUCCESS, L_Begin 7 BC_STS_SUCCESS]"] exI [of _ ?s2]
        exI [of _ "?p1(7 := Begun True)"]) simp
qed



text \<open>
  C27: What a wait tells its caller is true of the mailbox. In every reachable state, a thread whose
  posted command's wait succeeds leaves no command pending; one whose wait fails leaves the mailbox
  quarantined with its command still counted, and the late interrupt that follows retires the count
  and wakes the waiters but does not lift the quarantine.
\<close>

theorem fw_wait_outcome:
  assumes "fw_run fw_init ls (s, pcs)" "pcs t = Posted b" "crystalhd_hw_fw_cmd_wait rc s = (sts, s')"
  shows "if sts = BC_STS_SUCCESS then \<not> fw_pending s' \<and> s' = s
    else fw_poisoned s' \<and> \<not> fw_pending s' \<and> fw_cmd_cnt s' = 1 \<and>
      fw_cmd_cnt (crystalhd_hw_fw_cmd_complete s') = 0 \<and>
      fw_wakes (crystalhd_hw_fw_cmd_complete s') = fw_wakes s' + 1 \<and>
      fw_poisoned (crystalhd_hw_fw_cmd_complete s')"
proof -
  have inv: "fw_inv (s, pcs)" using fw_run_inv [OF assms(1) fw_inv_init] .
  show ?thesis using fw_invD(1) [OF inv] fw_invD(4) [OF inv, of t] assms(2,3)
    by (auto simp: crystalhd_hw_fw_cmd_wait_def crystalhd_hw_fw_cmd_complete_def mail_inv_def Let_def
        split: if_splits)
qed

theorem fw_wait_outcome_witness:
  "\<exists>ls s pcs s'. fw_run fw_init ls (s, pcs) \<and> pcs 7 = Posted False \<and>
     crystalhd_hw_fw_cmd_wait (Some EBUSY) s = (BC_STS_TIMEOUT, s') \<and> fw_poisoned s' \<and>
     fw_cmd_cnt (crystalhd_hw_fw_cmd_complete s') = 0"
proof -
  let ?s0 = "fst fw_init" and ?p0 = "snd fw_init"
  let ?s1 = "?s0\<lparr>fw_mutex := Some 7, fw_evt_sts := False, fw_pending := True, fw_active := True, fw_cmd_cnt := 1\<rparr>"
  let ?p2 = "(?p0(7 := Begun False))(7 := Posted False)"
  let ?ls = "[L_Begin 7 BC_STS_SUCCESS, L_Post 7 True]"
  have "fw_step (?s0, ?p0) (L_Begin 7 BC_STS_SUCCESS) (?s1, ?p0(7 := Begun False))"
    using fw_step.start [of ?p0 7 False False ?s0 BC_STS_SUCCESS ?s1]
    by (simp add: fw_init_def crystalhd_hw_fw_cmd_begin_def return_pc_def)
  moreover have "fw_step (?s1, ?p0(7 := Begun False)) (L_Post 7 True) (?s1, ?p2)"
    using fw_step.post [of "?p0(7 := Begun False)" 7 False True BC_STS_SUCCESS ?s1 True ?s1]
    by (simp add: flea_do_post_def)
  ultimately have run: "fw_run fw_init ?ls (?s1, ?p2)"
    by (auto intro: fw_run.intros)
  have p: "?p2 7 = Posted False" by simp
  have w: "crystalhd_hw_fw_cmd_wait (Some EBUSY) ?s1 =
      (BC_STS_TIMEOUT, ?s1\<lparr>fw_pending := False, fw_poisoned := True\<rparr>)"
    by (simp add: crystalhd_hw_fw_cmd_wait_def)
  have "fw_poisoned (?s1\<lparr>fw_pending := False, fw_poisoned := True\<rparr>)"
    "fw_cmd_cnt (crystalhd_hw_fw_cmd_complete (?s1\<lparr>fw_pending := False, fw_poisoned := True\<rparr>)) = 0"
    using fw_wait_outcome [OF run p w] by simp_all
  with run p w show ?thesis by blast
qed

end
