(* ===== verification/Decoder_Channel.thy ===== *)
theory Decoder_Channel
  imports Fw_Cmd H264_Stream
begin

text \<open>
  Firmware loading, firmware commands and the decoder channel (\<^verbatim>\<open>driver/linux/crystalhd_cmds.c\<close>):
  download and bootstrap with rollback, command execution with its pause handling, and the channel's
  open, start, stop and close. The local phase of the decoder is what the driver believes of the
  firmware; an outcome it cannot be sure of sends it to recovery. What the firmware answers and what
  happens to the device meanwhile are arguments; the commands given to the device are logged in
  \<open>dc_log\<close>. The user lock is held throughout, so every function is one transformation; it is
  \<^const>\<open>None\<close> where it would block on the transaction mutex.
\<close>

section \<open>Data\<close>

abbreviation (input) BC_LINK_INVALID :: u32 where "BC_LINK_INVALID \<equiv> 0"
abbreviation (input) BC_LINK_SUSPEND :: u32 where "BC_LINK_SUSPEND \<equiv> 0x10"
abbreviation (input) BC_LINK_PAUSED :: u32 where "BC_LINK_PAUSED \<equiv> 0x20"
abbreviation (input) BC_LINK_RESUME :: u32 where "BC_LINK_RESUME \<equiv> 0x40"
abbreviation (input) BC_HW_RUNNING :: u32 where "BC_HW_RUNNING \<equiv> 0"
abbreviation (input) BC_PCI_DEVID_LINK :: u16 where "BC_PCI_DEVID_LINK \<equiv> 0x1612"
abbreviation (input) BC_MAX_FW_CMD_BUFF_SZ :: nat where "BC_MAX_FW_CMD_BUFF_SZ \<equiv> 64"
abbreviation (input) CRYSTALHD_MAX_FIRMWARE_SIZE :: nat where "CRYSTALHD_MAX_FIRMWARE_SIZE \<equiv> 4194304"
abbreviation (input) CRYSTALHD_FLEA_MIN_FIRMWARE_SIZE :: nat where "CRYSTALHD_FLEA_MIN_FIRMWARE_SIZE \<equiv> 24"
abbreviation (input) CRYSTALHD_LINK_MIN_FIRMWARE_SIZE :: nat where "CRYSTALHD_LINK_MIN_FIRMWARE_SIZE \<equiv> 40"
abbreviation (input) CRYSTALHD_FLEA_COLOR_DRIVER_MASK :: u32 where "CRYSTALHD_FLEA_COLOR_DRIVER_MASK \<equiv> 0x7c"
abbreviation (input) CRYSTALHD_FLEA_COLOR_YUY2 :: u32 where "CRYSTALHD_FLEA_COLOR_YUY2 \<equiv> 2"

abbreviation (input) eCMD_C011_INIT :: u32 where "eCMD_C011_INIT \<equiv> 0x73763001"
abbreviation (input) eCMD_C011_DEC_CHAN_OPEN :: u32 where "eCMD_C011_DEC_CHAN_OPEN \<equiv> 0x73763100"
abbreviation (input) eCMD_C011_DEC_CHAN_CLOSE :: u32 where "eCMD_C011_DEC_CHAN_CLOSE \<equiv> 0x73763101"
abbreviation (input) eCMD_C011_DEC_CHAN_ACTIVATE :: u32 where "eCMD_C011_DEC_CHAN_ACTIVATE \<equiv> 0x73763102"
abbreviation (input) eCMD_C011_DEC_CHAN_FLUSH :: u32 where "eCMD_C011_DEC_CHAN_FLUSH \<equiv> 0x73763104"
abbreviation (input) eCMD_C011_DEC_CHAN_INPUT_PARAMS :: u32 where "eCMD_C011_DEC_CHAN_INPUT_PARAMS \<equiv> 0x73763108"
abbreviation (input) eCMD_C011_DEC_CHAN_START_VIDEO :: u32 where "eCMD_C011_DEC_CHAN_START_VIDEO \<equiv> 0x7376311A"
abbreviation (input) eCMD_C011_DEC_CHAN_STOP_VIDEO :: u32 where "eCMD_C011_DEC_CHAN_STOP_VIDEO \<equiv> 0x7376311B"
abbreviation (input) eCMD_C011_DEC_CHAN_PAUSE :: u32 where "eCMD_C011_DEC_CHAN_PAUSE \<equiv> 0x7376311D"

text \<open>What the device was given: a firmware image, or a command; with the status.\<close>

datatype fw_event = Fw_Load bc_status | Fw_Command "u32 list" bc_status

text \<open>
  The command context and what else the functions touch: \<open>dc_ops\<close> tells whether the hardware's function
  table is filled, \<open>dc_paused\<close> is the last argument of \<^verbatim>\<open>pfnIssuePause\<close>, \<open>dc_color\<close> the colour register.
\<close>

record decoder_ctx =
  dc_cmd :: crystalhd_cmd
  dc_ops :: bool
  dc_pwr_state_change :: u32
  dc_cin_wait_exit :: u32
  dc_generation :: u64
  dc_fw :: fw_state
  dc_paused :: "bool option"
  dc_color :: u32
  dc_log :: "fw_event list"

text \<open>What happened to the device during an operation of it.\<close>

record fw_world =
  wo_present :: bool
  wo_dma_fault :: bool
  wo_generation :: u64
  wo_mail :: fw_state

text \<open>
  The answers during one command: an interrupted wait for the transaction mutex or the fetch semaphore,
  the status of a pause or resume of the capture, status and reply of the command.
\<close>

record fw_answer =
  fa_interrupted :: bool
  fa_fetch_interrupted :: bool
  fa_pause :: "bool \<Rightarrow> bc_status"
  fa_sts :: bc_status
  fa_rsp :: "u32 list"
  fa_world :: fw_world

text \<open>The answers during a firmware load: the image and its address, and the download.\<close>

record load_answer =
  la_request :: "errno + u64 \<times> u8 list"
  la_present :: bool
  la_interrupted :: bool
  la_sts :: bc_status
  la_world :: fw_world

definition set_cmd :: "(crystalhd_cmd \<Rightarrow> crystalhd_cmd) \<Rightarrow> decoder_ctx \<Rightarrow> decoder_ctx" where
  "set_cmd f c = c\<lparr>dc_cmd := f (dc_cmd c)\<rparr>"

definition set_state :: "(u32 \<Rightarrow> u32) \<Rightarrow> decoder_ctx \<Rightarrow> decoder_ctx" where
  "set_state f c = set_cmd (\<lambda>m. m\<lparr>cmd_state := f (cmd_state m)\<rparr>) c"

definition has_device :: "decoder_ctx \<Rightarrow> bool" where
  "has_device c \<longleftrightarrow> Option.bind (cmd_adp (dc_cmd c)) adp_pdev_device \<noteq> None \<and> cmd_hw_ctx (dc_cmd c) \<noteq> None"

definition device_id :: "decoder_ctx \<Rightarrow> u16 option" where
  "device_id c = Option.bind (cmd_adp (dc_cmd c)) adp_pdev_device"

definition present :: "decoder_ctx \<Rightarrow> bool" where
  "present c \<longleftrightarrow> (case cmd_adp (dc_cmd c) of None \<Rightarrow> False | Some a \<Rightarrow> adp_present a)"

definition dma_fault :: "decoder_ctx \<Rightarrow> bool" where
  "dma_fault c \<longleftrightarrow> (case cmd_hw_ctx (dc_cmd c) of None \<Rightarrow> False | Some h \<Rightarrow> hwf_dma_fault h)"

definition set_present :: "bool \<Rightarrow> decoder_ctx \<Rightarrow> decoder_ctx" where
  "set_present p = set_cmd (\<lambda>m. m\<lparr>cmd_adp := map_option (\<lambda>a. a\<lparr>adp_present := p\<rparr>) (cmd_adp m)\<rparr>)"

definition after :: "fw_world \<Rightarrow> decoder_ctx \<Rightarrow> decoder_ctx" where
  "after w c = (set_present (wo_present w)
     (set_cmd (\<lambda>m. m\<lparr>cmd_hw_ctx := map_option (\<lambda>h. h\<lparr>hwf_dma_fault := wo_dma_fault w\<rparr>) (cmd_hw_ctx m)\<rparr>) c))
     \<lparr>dc_generation := wo_generation w, dc_fw := wo_mail w\<rparr>"

text \<open>The mailbox as its functions see it.\<close>

definition fw_view :: "decoder_ctx \<Rightarrow> fw_state" where
  "fw_view c = (dc_fw c)\<lparr>fw_dma_fault := dma_fault c, fw_present := present c\<rparr>"

section \<open>Commands\<close>

text \<open>A command buffer: cleared, then the named words set.\<close>

definition fw_words :: "(nat \<times> u32) list \<Rightarrow> u32 list" where
  "fw_words ws = foldl (\<lambda>w (i, v). w[i := v]) (replicate BC_MAX_FW_CMD_BUFF_SZ 0) ws"

definition fw_init_cmd :: "u32 \<Rightarrow> bool \<Rightarrow> u32 list" where
  "fw_init_cmd seq link = fw_words ([(0, eCMD_C011_INIT), (1, seq), (2, 64), (3, 200000000), (4, 38400), (5, 1 OR 2),
     (6, 1), (8, 2), (9, 1)] @ (if link then [(13, 1)] else []))"

definition fw_open_cmd :: "u32 \<Rightarrow> u32 \<Rightarrow> u32 list" where
  "fw_open_cmd seq video_algorithm = fw_words [(0, eCMD_C011_DEC_CHAN_OPEN), (1, seq), (4, 1), (9, video_algorithm)]"

definition fw_input_params_cmd :: "u32 \<Rightarrow> u32 \<Rightarrow> u32 list" where
  "fw_input_params_cmd seq channel_id =
     fw_words [(0, eCMD_C011_DEC_CHAN_INPUT_PARAMS), (1, seq), (2, channel_id), (3, 1)]"

definition fw_activate_cmd :: "u32 \<Rightarrow> u32 \<Rightarrow> u32 list" where
  "fw_activate_cmd seq channel_id = fw_words [(0, eCMD_C011_DEC_CHAN_ACTIVATE), (1, seq), (2, channel_id)]"

definition fw_start_video_cmd :: "u32 \<Rightarrow> u32 \<Rightarrow> u32 \<Rightarrow> u32 list" where
  "fw_start_video_cmd seq channel_id video_algorithm =
     fw_words [(0, eCMD_C011_DEC_CHAN_START_VIDEO), (1, seq), (2, channel_id), (8, video_algorithm), (18, 1), (20, 1), (32, 1)]"

definition fw_stop_close_cmd :: "u32 \<Rightarrow> u32 \<Rightarrow> u32 \<Rightarrow> u32 list" where
  "fw_stop_close_cmd command seq channel_id = fw_words [(0, command), (1, seq), (2, channel_id), (3, 1), (4, 0)]"

section \<open>Executing a command\<close>

definition crystalhd_session_require_owner :: "decoder_ctx option \<Rightarrow> nat option \<Rightarrow> bc_status" where
  "crystalhd_session_require_owner ctx owner =
    (case ctx of None \<Rightarrow> BC_STS_INV_ARG
     | Some c \<Rightarrow>
       if cmd_adp (dc_cmd c) = None \<or> owner = None then BC_STS_INV_ARG
       else if cmd_session_owner (dc_cmd c) = None then BC_STS_ERR_USAGE
       else if cmd_session_owner (dc_cmd c) \<noteq> owner then BC_STS_ERR_USAGE
       else BC_STS_SUCCESS)"

definition issue_pause :: "fw_answer \<Rightarrow> bool \<Rightarrow> decoder_ctx \<Rightarrow> bc_status \<times> decoder_ctx" where
  "issue_pause a on c = (fa_pause a on, c\<lparr>dc_paused := Some on\<rparr>)"

definition do_firmware_cmd :: "fw_answer \<Rightarrow> u32 list \<Rightarrow> decoder_ctx \<Rightarrow> bc_status \<times> decoder_ctx" where
  "do_firmware_cmd a w c = (fa_sts a, (after (fa_world a) c)\<lparr>dc_log := dc_log c @ [Fw_Command w (fa_sts a)]\<rparr>)"

text \<open>The local resume before a resume command: status, whether to roll back, context.\<close>

definition fw_resume_prepare :: "fw_answer \<Rightarrow> decoder_ctx \<Rightarrow> bc_status \<times> bool \<times> decoder_ctx" where
  "fw_resume_prepare a c =
    (let was_paused = has_flag (cmd_state (dc_cmd c)) BC_LINK_PAUSED
     in if fa_fetch_interrupted a then (BC_STS_IO_USER_ABORT, False, c)
        else
          let (sts, c1) = issue_pause a False c;
              sts = (if sts = BC_STS_NO_DATA then BC_STS_SUCCESS else sts)
          in if sts = BC_STS_SUCCESS then (sts, was_paused, set_state (\<lambda>s. s AND NOT BC_LINK_PAUSED) c1)
             else if was_paused
             then (sts, False, snd (issue_pause a True (set_state (\<lambda>s. s OR BC_LINK_PAUSED) c1)))
             else (sts, False, set_state (\<lambda>s. s AND NOT BC_LINK_PAUSED) c1))"

text \<open>Between the entry and the end of the transaction; \<open>generation\<close> was read before.\<close>

definition fw_exec_body ::
  "fw_answer \<Rightarrow> u64 \<Rightarrow> nat option \<Rightarrow> u32 list \<Rightarrow> decoder_ctx \<Rightarrow> bc_status \<times> u32 list \<times> decoder_ctx" where
  "fw_exec_body a generation owner cmd c =
    (let no_rsp = replicate BC_MAX_FW_CMD_BUFF_SZ 0
     in if \<not> has_flag (cmd_state (dc_cmd c)) BC_LINK_INIT then (BC_STS_ERR_USAGE, no_rsp, c)
        else
          let init_recovery_locked = (cmd ! 0 = eCMD_C011_INIT \<and> cmd_state (dc_cmd c) = BC_LINK_RESUME OR BC_LINK_INIT);
              (sts, resume_prepared, c1) =
                (if cmd ! 0 = eCMD_C011_DEC_CHAN_PAUSE
                 then if cmd ! 3 = 0 then fw_resume_prepare a c else (BC_STS_SUCCESS, False, c)
                 else if cmd ! 0 = eCMD_C011_DEC_CHAN_FLUSH \<and> cmd ! 3 \<noteq> 0
                 then (BC_STS_SUCCESS, False, c\<lparr>dc_cin_wait_exit := 1\<rparr>)
                 else (BC_STS_SUCCESS, False, c))
          in if sts \<noteq> BC_STS_SUCCESS then (sts, no_rsp, c1)
             else
               let (sts, c2) = do_firmware_cmd a cmd c1
               in if sts \<noteq> BC_STS_SUCCESS
                  then (sts, fa_rsp a,
                        if resume_prepared then snd (issue_pause a True (set_state (\<lambda>s. s OR BC_LINK_PAUSED) c2)) else c2)
                  else if init_recovery_locked
                  then if cmd_state (dc_cmd c2) \<noteq> BC_LINK_RESUME OR BC_LINK_INIT \<or> \<not> present c2 \<or>
                          dc_generation c2 \<noteq> generation \<or> cmd_session_owner (dc_cmd c2) \<noteq> owner
                       then (BC_STS_IO_ERROR, fa_rsp a, c2)
                       else (BC_STS_SUCCESS, fa_rsp a, set_state (\<lambda>_. BC_LINK_INIT) c2)
                  else if cmd ! 0 = eCMD_C011_DEC_CHAN_PAUSE \<and> cmd ! 3 \<noteq> 0
                  then let (sts, c3) = issue_pause a True (set_state (\<lambda>s. s OR BC_LINK_PAUSED) c2)
                       in (sts, fa_rsp a, c3)
                  else (BC_STS_SUCCESS, fa_rsp a, c2))"

text \<open>Result: status, reply and context.\<close>

definition crystalhd_fw_exec_locked ::
  "thread \<Rightarrow> fw_answer \<Rightarrow> decoder_ctx option \<Rightarrow> nat option \<Rightarrow> u32 list option
    \<Rightarrow> (bc_status \<times> u32 list \<times> decoder_ctx option) option" where
  "crystalhd_fw_exec_locked t a ctx owner fw_cmd =
    (let no_rsp = replicate BC_MAX_FW_CMD_BUFF_SZ 0
     in case (ctx, fw_cmd) of
       (Some c, Some cmd) \<Rightarrow>
         if \<not> has_device c \<or> \<not> dc_ops c \<or> owner = None then Some (BC_STS_INV_ARG, no_rsp, ctx)
         else
           let sts = crystalhd_session_require_owner ctx owner
           in if sts \<noteq> BC_STS_SUCCESS then Some (sts, no_rsp, ctx)
              else do {
                (sts, f) \<leftarrow> crystalhd_hw_fw_cmd_enter t (fa_interrupted a) (fw_view c);
                (if sts \<noteq> BC_STS_SUCCESS then Some (sts, no_rsp, Some (c\<lparr>dc_fw := f\<rparr>))
                 else
                   let (sts, rsp, c1) = fw_exec_body a (dc_generation c) owner cmd (c\<lparr>dc_fw := f\<rparr>)
                   in Some (sts, rsp, Some (c1\<lparr>dc_fw := crystalhd_hw_fw_cmd_leave (dc_fw c1)\<rparr>))) }
     | _ \<Rightarrow> Some (BC_STS_INV_ARG, no_rsp, ctx))"

section \<open>Loading the firmware\<close>

definition crystalhd_valid_firmware_image :: "(u64 \<times> u8 list) option \<Rightarrow> nat \<Rightarrow> nat \<Rightarrow> bool" where
  "crystalhd_valid_firmware_image img sz minimum \<longleftrightarrow>
    (case img of None \<Rightarrow> False
     | Some (addr, bytes) \<Rightarrow> addr AND 3 = 0 \<and> sz \<ge> minimum \<and> sz \<le> CRYSTALHD_MAX_FIRMWARE_SIZE \<and> sz mod 4 = 0)"

definition crystalhd_decoder_tracking_reset :: "decoder_ctx \<Rightarrow> decoder_ctx" where
  "crystalhd_decoder_tracking_reset = set_cmd (\<lambda>m. m\<lparr>cmd_decoder_phase := CRYSTALHD_DECODER_COLD,
     cmd_decoder_codec := CRYSTALHD_DECODER_CODEC_INVALID, cmd_fw_sequence := 0, cmd_decoder_channel_id := 0\<rparr>)"

definition stream_release :: "decoder_ctx \<Rightarrow> decoder_ctx" where
  "stream_release = set_cmd (\<lambda>m. case fst (crystalhd_stream_release (Some m)) of None \<Rightarrow> m | Some m' \<Rightarrow> m')"

definition load_admitted :: "decoder_ctx \<Rightarrow> bool" where
  "load_admitted c \<longleftrightarrow> cmd_state (dc_cmd c) = BC_LINK_INVALID \<or> cmd_state (dc_cmd c) = BC_LINK_RESUME \<or>
     cmd_state (dc_cmd c) = BC_LINK_INIT \<and> cmd_decoder_phase (dc_cmd c) = CRYSTALHD_DECODER_RECOVERY_REQUIRED"

definition min_firmware_size :: "decoder_ctx \<Rightarrow> nat option" where
  "min_firmware_size c =
    (if device_id c = Some BC_PCI_DEVID_FLEA then Some CRYSTALHD_FLEA_MIN_FIRMWARE_SIZE
     else if device_id c = Some BC_PCI_DEVID_LINK then Some CRYSTALHD_LINK_MIN_FIRMWARE_SIZE
     else None)"

definition crystalhd_fw_download_locked ::
  "thread \<Rightarrow> load_answer \<Rightarrow> decoder_ctx option \<Rightarrow> nat option \<Rightarrow> (u64 \<times> u8 list) option \<Rightarrow> nat
    \<Rightarrow> (bc_status \<times> decoder_ctx option) option" where
  "crystalhd_fw_download_locked t a ctx owner img sz =
    (case ctx of None \<Rightarrow> Some (BC_STS_INV_ARG, ctx)
     | Some c \<Rightarrow>
       if \<not> has_device c \<or> \<not> dc_ops c \<or> owner = None \<or> img = None \<or> sz = 0 then Some (BC_STS_INV_ARG, ctx)
       else
         let sts = crystalhd_session_require_owner ctx owner
         in if sts \<noteq> BC_STS_SUCCESS then Some (sts, ctx)
            else (case min_firmware_size c of None \<Rightarrow> Some (BC_STS_INV_ARG, ctx)
              | Some minimum \<Rightarrow>
                if sz > CRYSTALHD_MAX_FIRMWARE_SIZE \<or> \<not> crystalhd_valid_firmware_image img sz minimum
                then Some (BC_STS_INV_ARG, ctx)
                else do {
                  (sts, f) \<leftarrow> crystalhd_hw_fw_cmd_recovery_enter t (la_interrupted a) (fw_view c);
                  let c1 = c\<lparr>dc_fw := f\<rparr>;
                  (if sts \<noteq> BC_STS_SUCCESS then Some (sts, Some c1)
                   else if \<not> load_admitted c1
                   then Some (BC_STS_ERR_USAGE, Some (c1\<lparr>dc_fw := crystalhd_hw_fw_cmd_leave (dc_fw c1)\<rparr>))
                   else do {
                     let c2 = (after (la_world a) c1)\<lparr>dc_log := dc_log c1 @ [Fw_Load (la_sts a)]\<rparr>;
                     c3 \<leftarrow> (if la_sts a \<noteq> BC_STS_SUCCESS then Some c2
                            else do {
                              let c3 = crystalhd_decoder_tracking_reset (stream_release (set_state (\<lambda>s. s OR BC_LINK_INIT) c2));
                              f \<leftarrow> crystalhd_hw_fw_cmd_reset_locked (dc_fw c3);
                              Some (c3\<lparr>dc_fw := f\<rparr>) });
                     let c4 = c3\<lparr>dc_pwr_state_change := BC_HW_RUNNING\<rparr>;
                     Some (la_sts a, Some (c4\<lparr>dc_fw := crystalhd_hw_fw_cmd_leave (dc_fw c4)\<rparr>)) }) }))"

definition crystalhd_request_firmware_locked ::
  "thread \<Rightarrow> load_answer \<Rightarrow> decoder_ctx option \<Rightarrow> nat option \<Rightarrow> (rc \<times> decoder_ctx option) option" where
  "crystalhd_request_firmware_locked t a ctx owner =
    (case ctx of None \<Rightarrow> Some (Some EINVAL, ctx)
     | Some c \<Rightarrow>
       if owner = None then Some (Some EINVAL, ctx)
       else if \<not> has_device c \<or> \<not> dc_ops c then Some (Some ENODEV, ctx)
       else if \<not> present c then Some (Some ENODEV, ctx)
       else if cmd_session_owner (dc_cmd c) = None then Some (Some EINVAL, ctx)
       else if cmd_session_owner (dc_cmd c) \<noteq> owner then Some (Some EBUSY, ctx)
       else if has_flag (cmd_state (dc_cmd c)) BC_LINK_SUSPEND then Some (Some EAGAIN, ctx)
       else if \<not> load_admitted c then Some (Some EBUSY, ctx)
       else if device_id c \<noteq> Some BC_PCI_DEVID_FLEA \<and> device_id c \<noteq> Some BC_PCI_DEVID_LINK then Some (Some ENODEV, ctx)
       else (case la_request a of Inl e \<Rightarrow> Some (Some e, ctx)
         | Inr (addr, data) \<Rightarrow>
           let c1 = set_present (la_present a) c
           in if \<not> present c1 then Some (Some ENODEV, Some c1)
              else do {
                (sts, ctx2) \<leftarrow> crystalhd_fw_download_locked t a (Some c1) owner (Some (addr, data)) (length data);
                Some (crystalhd_status_to_errno sts, ctx2) }))"

text \<open>The driver no longer knows the state of the channel.\<close>

definition require_recovery :: "decoder_ctx \<Rightarrow> decoder_ctx" where
  "require_recovery = set_cmd (\<lambda>m. m\<lparr>cmd_decoder_phase := CRYSTALHD_DECODER_RECOVERY_REQUIRED,
     cmd_decoder_codec := CRYSTALHD_DECODER_CODEC_INVALID, cmd_decoder_channel_id := 0\<rparr>)"

definition next_sequence :: "decoder_ctx \<Rightarrow> u32 \<times> decoder_ctx" where
  "next_sequence c = (let seq = cmd_fw_sequence (dc_cmd c) + 1 in (seq, set_cmd (\<lambda>m. m\<lparr>cmd_fw_sequence := seq\<rparr>) c))"

definition bootstrap_rollback :: "decoder_ctx \<Rightarrow> bool \<Rightarrow> rc \<Rightarrow> decoder_ctx \<Rightarrow> (rc \<times> decoder_ctx option) option" where
  "bootstrap_rollback c0 firmware_loaded rc c =
    (let c1 = (set_state (\<lambda>_. cmd_state (dc_cmd c0)) c)\<lparr>dc_pwr_state_change := dc_pwr_state_change c0\<rparr>
     in Some (rc, Some (if firmware_loaded then require_recovery c1 else c1)))"

definition crystalhd_fw_bootstrap_locked ::
  "thread \<Rightarrow> load_answer \<Rightarrow> fw_answer \<Rightarrow> decoder_ctx option \<Rightarrow> nat option \<Rightarrow> (rc \<times> decoder_ctx option) option" where
  "crystalhd_fw_bootstrap_locked t la a ctx owner =
    (case ctx of None \<Rightarrow> Some (Some EINVAL, ctx)
     | Some c0 \<Rightarrow>
       if owner = None then Some (Some EINVAL, ctx)
       else if \<not> has_device c0 then Some (Some ENODEV, ctx)
       else do {
         (rc, ctx1) \<leftarrow> crystalhd_request_firmware_locked t la ctx owner;
         c1 \<leftarrow> ctx1;
         (if rc \<noteq> rc_ok then bootstrap_rollback c0 False rc c1
          else if \<not> present c1 then bootstrap_rollback c0 True (Some ENODEV) c1
          else do {
            let (seq, c2) = next_sequence c1;
            (sts, rsp, ctx3) \<leftarrow> crystalhd_fw_exec_locked t a (Some c2) owner
                                 (Some (fw_init_cmd seq (device_id c2 = Some BC_PCI_DEVID_LINK)));
            c3 \<leftarrow> ctx3;
            let rc = crystalhd_status_to_errno sts;
            (if rc \<noteq> rc_ok then bootstrap_rollback c0 True rc c3
             else if \<not> present c3 then bootstrap_rollback c0 True (Some ENODEV) c3
             else Some (rc_ok, Some ((set_cmd (\<lambda>m. m\<lparr>cmd_state := BC_LINK_INIT,
                 cmd_decoder_phase := CRYSTALHD_DECODER_BOOTSTRAPPED,
                 cmd_decoder_codec := CRYSTALHD_DECODER_CODEC_INVALID,
                 cmd_decoder_channel_id := 0\<rparr>) c3)\<lparr>dc_pwr_state_change := BC_HW_RUNNING\<rparr>))) }) })"

section \<open>The channel\<close>

text \<open>The tests every channel operation makes first.\<close>

definition channel_guard :: "decoder_ctx \<Rightarrow> nat option \<Rightarrow> rc" where
  "channel_guard c owner =
    (if \<not> has_device c \<or> \<not> dc_ops c then Some ENODEV
     else if \<not> present c then Some ENODEV
     else if cmd_session_owner (dc_cmd c) = None then Some EINVAL
     else if cmd_session_owner (dc_cmd c) \<noteq> owner then Some EBUSY
     else if device_id c \<noteq> Some BC_PCI_DEVID_FLEA then Some EOPNOTSUPP
     else rc_ok)"

text \<open>\<open>kz\<close> and \<open>coh\<close> answer the allocation of the stage, \<open>a1\<close> and \<open>a2\<close> the two commands.\<close>

definition crystalhd_decoder_channel_open_locked ::
  "thread \<Rightarrow> bool \<Rightarrow> (u8 list \<times> u64) option \<Rightarrow> fw_answer \<Rightarrow> fw_answer \<Rightarrow> decoder_ctx option \<Rightarrow> nat option
    \<Rightarrow> crystalhd_decoder_codec option \<Rightarrow> (rc \<times> decoder_ctx option) option" where
  "crystalhd_decoder_channel_open_locked t kz coh a1 a2 ctx owner config =
    (case (ctx, config) of
       (Some c, Some codec) \<Rightarrow>
         if owner = None then Some (Some EINVAL, ctx)
         else if channel_guard c owner \<noteq> rc_ok then Some (channel_guard c owner, ctx)
         else if cmd_state (dc_cmd c) \<noteq> BC_LINK_INIT \<or>
                 cmd_decoder_phase (dc_cmd c) \<noteq> CRYSTALHD_DECODER_BOOTSTRAPPED \<or> cmd_fw_sequence (dc_cmd c) = 0
         then Some (Some EBUSY, ctx)
         else if codec \<noteq> CRYSTALHD_DECODER_CODEC_H264 then Some (Some EINVAL, ctx)
         else do {
           let (rc, m1) = crystalhd_stream_prepare kz coh (Some (dc_cmd c));
           m1 \<leftarrow> m1;
           let c1 = c\<lparr>dc_cmd := m1\<rparr>;
           (if rc \<noteq> rc_ok then Some (rc, Some c1)
            else do {
              let (seq, c2) = next_sequence c1;
              (sts, rsp, ctx3) \<leftarrow> crystalhd_fw_exec_locked t a1 (Some c2) owner (Some (fw_open_cmd seq 0));
              c3 \<leftarrow> ctx3;
              let rc = crystalhd_status_to_errno sts;
              (if rc \<noteq> rc_ok
               then Some (rc, Some (stream_release
                      (if sts \<noteq> BC_STS_FW_CMD_ERR then require_recovery c3
                       else set_cmd (\<lambda>m. m\<lparr>cmd_decoder_codec := CRYSTALHD_DECODER_CODEC_INVALID,
                                           cmd_decoder_channel_id := 0\<rparr>) c3)))
               else if \<not> present c3 then Some (Some ENODEV, Some (stream_release (require_recovery c3)))
               else if rsp ! 3 \<noteq> 0 then Some (Some EIO, Some (stream_release (require_recovery c3)))
               else do {
                 let (seq, c4) = next_sequence c3;
                 (sts, rsp2, ctx5) \<leftarrow> crystalhd_fw_exec_locked t a2 (Some c4) owner (Some (fw_input_params_cmd seq (rsp ! 3)));
                 c5 \<leftarrow> ctx5;
                 let rc = crystalhd_status_to_errno sts;
                 (if rc \<noteq> rc_ok \<or> \<not> present c5
                  then Some (if rc \<noteq> rc_ok then rc else Some ENODEV, Some (stream_release (require_recovery c5)))
                  else Some (rc_ok, Some (set_cmd (\<lambda>m. m\<lparr>cmd_decoder_channel_id := rsp ! 3, cmd_decoder_codec := codec,
                         cmd_decoder_phase := CRYSTALHD_DECODER_CHANNEL_CONFIGURED\<rparr>) c5))) }) }) }
     | _ \<Rightarrow> Some (Some EINVAL, ctx))"

definition crystalhd_decoder_channel_start_locked ::
  "thread \<Rightarrow> fw_answer \<Rightarrow> fw_answer \<Rightarrow> decoder_ctx option \<Rightarrow> nat option \<Rightarrow> (rc \<times> decoder_ctx option) option" where
  "crystalhd_decoder_channel_start_locked t a1 a2 ctx owner =
    (case ctx of None \<Rightarrow> Some (Some EINVAL, ctx)
     | Some c \<Rightarrow>
       if owner = None then Some (Some EINVAL, ctx)
       else if channel_guard c owner \<noteq> rc_ok then Some (channel_guard c owner, ctx)
       else if cmd_state (dc_cmd c) \<noteq> BC_LINK_INIT \<or>
               cmd_decoder_phase (dc_cmd c) \<noteq> CRYSTALHD_DECODER_CHANNEL_CONFIGURED \<or>
               cmd_fw_sequence (dc_cmd c) = 0 \<or> cmd_decoder_channel_id (dc_cmd c) \<noteq> 0
       then Some (Some EBUSY, ctx)
       else if cmd_decoder_codec (dc_cmd c) \<noteq> CRYSTALHD_DECODER_CODEC_H264 then Some (Some EINVAL, ctx)
       else if dma_fault c \<or> \<not> present c then Some (Some ENODEV, ctx)
       else do {
         let c1 = c\<lparr>dc_color := (dc_color c AND CRYSTALHD_FLEA_COLOR_DRIVER_MASK) OR CRYSTALHD_FLEA_COLOR_YUY2\<rparr>;
         let (seq, c2) = next_sequence c1;
         (sts, rsp, ctx3) \<leftarrow> crystalhd_fw_exec_locked t a1 (Some c2) owner
                              (Some (fw_activate_cmd seq (cmd_decoder_channel_id (dc_cmd c2))));
         c3 \<leftarrow> ctx3;
         let rc = crystalhd_status_to_errno sts;
         (if \<not> present c3 then Some (Some ENODEV, Some (require_recovery c3))
          else if rc \<noteq> rc_ok then Some (rc, Some (if sts \<noteq> BC_STS_FW_CMD_ERR then require_recovery c3 else c3))
          else do {
            let (seq, c4) = next_sequence c3;
            (sts, rsp, ctx5) \<leftarrow> crystalhd_fw_exec_locked t a2 (Some c4) owner
                                 (Some (fw_start_video_cmd seq (cmd_decoder_channel_id (dc_cmd c4)) 0));
            c5 \<leftarrow> ctx5;
            let rc = crystalhd_status_to_errno sts;
            (if rc \<noteq> rc_ok \<or> \<not> present c5
             then Some (if rc \<noteq> rc_ok then rc else Some ENODEV, Some (require_recovery c5))
             else Some (rc_ok, Some (set_cmd (\<lambda>m. m\<lparr>cmd_decoder_phase := CRYSTALHD_DECODER_CHANNEL_STARTED\<rparr>) c5))) }) })"

definition crystalhd_decoder_release_cmd_locked ::
  "thread \<Rightarrow> fw_answer \<Rightarrow> decoder_ctx \<Rightarrow> nat option \<Rightarrow> u32 \<Rightarrow> (rc \<times> decoder_ctx) option" where
  "crystalhd_decoder_release_cmd_locked t a c owner command = do {
     let (seq, c1) = next_sequence c;
     (sts, rsp, ctx2) \<leftarrow> crystalhd_fw_exec_locked t a (Some c1) owner
                          (Some (fw_stop_close_cmd command seq (cmd_decoder_channel_id (dc_cmd c1))));
     c2 \<leftarrow> ctx2;
     let rc = crystalhd_status_to_errno sts;
     Some (if \<not> present c2 then (Some ENODEV, require_recovery c2)
           else (rc, if rc \<noteq> rc_ok \<and> sts \<noteq> BC_STS_FW_CMD_ERR then require_recovery c2 else c2)) }"

definition crystalhd_decoder_channel_stop_locked ::
  "thread \<Rightarrow> fw_answer \<Rightarrow> decoder_ctx option \<Rightarrow> nat option \<Rightarrow> (rc \<times> decoder_ctx option) option" where
  "crystalhd_decoder_channel_stop_locked t a ctx owner =
    (let allowed_state = BC_LINK_INIT OR BC_LINK_CAP_EN OR BC_LINK_FMT_CHG
     in case ctx of None \<Rightarrow> Some (Some EINVAL, ctx)
     | Some c \<Rightarrow>
       if owner = None then Some (Some EINVAL, ctx)
       else if channel_guard c owner \<noteq> rc_ok then Some (channel_guard c owner, ctx)
       else if \<not> has_flag (cmd_state (dc_cmd c)) BC_LINK_INIT \<or> has_flag (cmd_state (dc_cmd c)) (NOT allowed_state) \<or>
               cmd_decoder_phase (dc_cmd c) \<noteq> CRYSTALHD_DECODER_CHANNEL_STARTED \<or>
               cmd_fw_sequence (dc_cmd c) = 0 \<or> cmd_decoder_channel_id (dc_cmd c) \<noteq> 0
       then Some (Some EBUSY, ctx)
       else if cmd_decoder_codec (dc_cmd c) \<noteq> CRYSTALHD_DECODER_CODEC_H264 then Some (Some EINVAL, ctx)
       else do {
         (rc, c1) \<leftarrow> crystalhd_decoder_release_cmd_locked t a c owner eCMD_C011_DEC_CHAN_STOP_VIDEO;
         Some (rc, Some (if rc = rc_ok
                         then set_cmd (\<lambda>m. m\<lparr>cmd_decoder_phase := CRYSTALHD_DECODER_CHANNEL_CONFIGURED\<rparr>) c1
                         else c1)) })"

definition crystalhd_decoder_channel_close_locked ::
  "thread \<Rightarrow> fw_answer \<Rightarrow> decoder_ctx option \<Rightarrow> nat option \<Rightarrow> (rc \<times> decoder_ctx option) option" where
  "crystalhd_decoder_channel_close_locked t a ctx owner =
    (case ctx of None \<Rightarrow> Some (Some EINVAL, ctx)
     | Some c \<Rightarrow>
       if owner = None then Some (Some EINVAL, ctx)
       else if channel_guard c owner \<noteq> rc_ok then Some (channel_guard c owner, ctx)
       else if cmd_state (dc_cmd c) \<noteq> BC_LINK_INIT \<or>
               cmd_decoder_phase (dc_cmd c) \<noteq> CRYSTALHD_DECODER_CHANNEL_CONFIGURED \<or>
               cmd_fw_sequence (dc_cmd c) = 0 \<or> cmd_decoder_channel_id (dc_cmd c) \<noteq> 0
       then Some (Some EBUSY, ctx)
       else if cmd_decoder_codec (dc_cmd c) \<noteq> CRYSTALHD_DECODER_CODEC_H264 then Some (Some EINVAL, ctx)
       else do {
         (rc, c1) \<leftarrow> crystalhd_decoder_release_cmd_locked t a c owner eCMD_C011_DEC_CHAN_CLOSE;
         Some (rc, Some (if rc \<noteq> rc_ok then c1
                         else stream_release (set_cmd (\<lambda>m. m\<lparr>cmd_decoder_phase := CRYSTALHD_DECODER_BOOTSTRAPPED,
                                cmd_decoder_codec := CRYSTALHD_DECODER_CODEC_INVALID, cmd_decoder_channel_id := 0\<rparr>) c1))) })"

section \<open>What executing a command does\<close>

lemma set_cmd_simps [simp]:
  "dc_cmd (set_cmd f c) = f (dc_cmd c)" "dc_ops (set_cmd f c) = dc_ops c" "dc_fw (set_cmd f c) = dc_fw c"
  "dc_log (set_cmd f c) = dc_log c" "dc_generation (set_cmd f c) = dc_generation c" "dc_paused (set_cmd f c) = dc_paused c"
  "dc_pwr_state_change (set_cmd f c) = dc_pwr_state_change c" "dc_color (set_cmd f c) = dc_color c"
  by (simp_all add: set_cmd_def)

lemma set_state_simps [simp]:
  "dc_cmd (set_state f c) = (dc_cmd c)\<lparr>cmd_state := f (cmd_state (dc_cmd c))\<rparr>" "dc_ops (set_state f c) = dc_ops c"
  "dc_fw (set_state f c) = dc_fw c" "dc_log (set_state f c) = dc_log c" "dc_generation (set_state f c) = dc_generation c"
  "dc_paused (set_state f c) = dc_paused c" "dc_pwr_state_change (set_state f c) = dc_pwr_state_change c"
  by (simp_all add: set_state_def)

text \<open>The fields of the channel a command leaves alone.\<close>

definition keeps :: "decoder_ctx \<Rightarrow> decoder_ctx \<Rightarrow> bool" where
  "keeps c c' \<longleftrightarrow> cmd_decoder_phase (dc_cmd c') = cmd_decoder_phase (dc_cmd c) \<and>
    cmd_decoder_codec (dc_cmd c') = cmd_decoder_codec (dc_cmd c) \<and> cmd_fw_sequence (dc_cmd c') = cmd_fw_sequence (dc_cmd c) \<and>
    cmd_decoder_channel_id (dc_cmd c') = cmd_decoder_channel_id (dc_cmd c) \<and> cmd_stream (dc_cmd c') = cmd_stream (dc_cmd c) \<and>
    cmd_session_owner (dc_cmd c') = cmd_session_owner (dc_cmd c) \<and> device_id c' = device_id c \<and>
    has_device c' = has_device c \<and> dc_ops c' = dc_ops c"

lemma keeps_trans: "keeps a b \<Longrightarrow> keeps b c \<Longrightarrow> keeps a c"
  by (simp add: keeps_def)

lemma keeps_refl [simp]: "keeps c c"
  by (simp add: keeps_def)

lemma keeps_fields [simp]:
  "keeps c (c'\<lparr>dc_fw := f\<rparr>) = keeps c c'" "keeps c (c'\<lparr>dc_log := l\<rparr>) = keeps c c'"
  "keeps c (c'\<lparr>dc_paused := p\<rparr>) = keeps c c'" "keeps c (c'\<lparr>dc_cin_wait_exit := n\<rparr>) = keeps c c'"
  "keeps c (set_state g c') = keeps c c'"
  by (simp_all add: keeps_def device_id_def has_device_def)

lemma keeps_left: "keeps (c\<lparr>dc_fw := f\<rparr>) c' = keeps c c'"
proof -
  have "device_id (c\<lparr>dc_fw := f\<rparr>) = device_id c" "has_device (c\<lparr>dc_fw := f\<rparr>) = has_device c"
    by (simp_all add: device_id_def has_device_def)
  then show ?thesis by (simp add: keeps_def)
qed

lemma keeps_after [simp]: "keeps c (after w c') = keeps c c'"
  by (simp add: keeps_def after_def set_present_def device_id_def has_device_def map_option_case
      split: option.split)

lemma after_simps [simp]:
  "cmd_state (dc_cmd (after w c)) = cmd_state (dc_cmd c)" "dc_log (after w c) = dc_log c" "dc_fw (after w c) = wo_mail w"
  "dc_paused (after w c) = dc_paused c" "dc_generation (after w c) = wo_generation w"
  by (simp_all add: after_def set_present_def)

lemma leave_simps [simp]:
  "fw_trans_mutex (crystalhd_hw_fw_cmd_leave f) = None" "fw_mutex (crystalhd_hw_fw_cmd_leave f) = fw_mutex f"
  by (simp_all add: crystalhd_hw_fw_cmd_leave_def)

text \<open>No one holds the mailbox; a command returns with its mutex released.\<close>

definition mail_free :: "decoder_ctx \<Rightarrow> bool" where
  "mail_free c \<longleftrightarrow> fw_trans_mutex (dc_fw c) = None \<and> fw_mutex (dc_fw c) = None"

definition world_ok :: "fw_world \<Rightarrow> bool" where
  "world_ok w \<longleftrightarrow> fw_mutex (wo_mail w) = None"

lemma enter_run:
  assumes "mail_free c"
  obtains sts f where "crystalhd_hw_fw_cmd_enter t i (fw_view c) = Some (sts, f)" "fw_mutex f = None"
    "sts = BC_STS_SUCCESS \<or> sts = BC_STS_IO_USER_ABORT \<and> i \<or> sts = BC_STS_IO_ERROR \<and> (dma_fault c \<or> \<not> present c) \<or>
       sts = BC_STS_BUSY \<and> (fw_poisoned (dc_fw c) \<or> fw_pending (dc_fw c))"
    "sts \<noteq> BC_STS_SUCCESS \<Longrightarrow> fw_trans_mutex f = None"
    "\<not> i \<Longrightarrow> \<not> dma_fault c \<Longrightarrow> present c \<Longrightarrow> \<not> fw_poisoned (dc_fw c) \<Longrightarrow> \<not> fw_pending (dc_fw c) \<Longrightarrow> sts = BC_STS_SUCCESS"
proof -
  have fr: "fw_trans_mutex (fw_view c) = None" "fw_mutex (fw_view c) = None" "fw_dma_fault (fw_view c) = dma_fault c"
    "fw_present (fw_view c) = present c" "fw_poisoned (fw_view c) = fw_poisoned (dc_fw c)" "fw_pending (fw_view c) = fw_pending (dc_fw c)"
    using assms by (simp_all add: mail_free_def fw_view_def)
  define st where "st = (if i then BC_STS_IO_USER_ABORT else if dma_fault c \<or> \<not> present c then BC_STS_IO_ERROR
    else if fw_poisoned (dc_fw c) \<or> fw_pending (dc_fw c) then BC_STS_BUSY else BC_STS_SUCCESS)"
  define g where "g = (if st = BC_STS_SUCCESS then (fw_view c)\<lparr>fw_trans_mutex := Some t, fw_trans_active := True\<rparr>
    else if i then fw_view c else (fw_view c)\<lparr>fw_trans_mutex := None\<rparr>)"
  have "crystalhd_hw_fw_cmd_enter t i (fw_view c) = Some (st, g)"
    using fr by (simp add: crystalhd_hw_fw_cmd_enter_def st_def g_def)
  then show ?thesis by (rule that) (use fr in \<open>auto simp: st_def g_def\<close>)
qed

lemma body_cases:
  assumes w: "w ! 0 \<noteq> eCMD_C011_DEC_CHAN_PAUSE"
  obtains (idle) "fw_exec_body a g owner w c = (BC_STS_ERR_USAGE, replicate BC_MAX_FW_CMD_BUFF_SZ 0, c)"
      "\<not> has_flag (cmd_state (dc_cmd c)) BC_LINK_INIT"
  | (posted) sts c' where "fw_exec_body a g owner w c = (sts, fa_rsp a, c')" "keeps c c'" "dc_fw c' = wo_mail (fa_world a)"
      "has_flag (cmd_state (dc_cmd c)) BC_LINK_INIT" "has_flag (cmd_state (dc_cmd c')) BC_LINK_INIT"
      "dc_log c' = dc_log c @ [Fw_Command w (fa_sts a)]" "present c' = present (after (fa_world a) c)"
      "dma_fault c' = dma_fault (after (fa_world a) c)" "dc_paused c' = dc_paused c"
      "w ! 0 \<noteq> eCMD_C011_INIT \<Longrightarrow> sts = fa_sts a \<and> cmd_state (dc_cmd c') = cmd_state (dc_cmd c)"
      "sts = fa_sts a \<or> sts = BC_STS_IO_ERROR"
proof (cases "has_flag (cmd_state (dc_cmd c)) BC_LINK_INIT")
  case False
  then show ?thesis using idle by (simp add: fw_exec_body_def)
next
  case True
  have i: "has_flag (1 :: u32) 1" by (simp add: has_flag_def)
  define c1 where "c1 = (if w ! 0 = eCMD_C011_DEC_CHAN_FLUSH \<and> w ! 3 \<noteq> 0 then c\<lparr>dc_cin_wait_exit := 1\<rparr> else c)"
  define c2 where "c2 = snd (do_firmware_cmd a w c1)"
  have c2: "keeps c c2" "dc_fw c2 = wo_mail (fa_world a)" "cmd_state (dc_cmd c2) = cmd_state (dc_cmd c)"
    "dc_log c2 = dc_log c @ [Fw_Command w (fa_sts a)]" "present c2 = present (after (fa_world a) c)"
    "dma_fault c2 = dma_fault (after (fa_world a) c)" "dc_paused c2 = dc_paused c"
    by (simp_all add: c2_def c1_def do_firmware_cmd_def present_def dma_fault_def) (simp_all add: after_def set_present_def)
  have eq: "fw_exec_body a g owner w c =
    (if fa_sts a \<noteq> BC_STS_SUCCESS then (fa_sts a, fa_rsp a, c2)
     else if w ! 0 = eCMD_C011_INIT \<and> cmd_state (dc_cmd c) = BC_LINK_RESUME OR BC_LINK_INIT
     then if cmd_state (dc_cmd c2) \<noteq> BC_LINK_RESUME OR BC_LINK_INIT \<or> \<not> present c2 \<or> dc_generation c2 \<noteq> g \<or>
             cmd_session_owner (dc_cmd c2) \<noteq> owner
          then (BC_STS_IO_ERROR, fa_rsp a, c2) else (BC_STS_SUCCESS, fa_rsp a, set_state (\<lambda>_. BC_LINK_INIT) c2)
     else (BC_STS_SUCCESS, fa_rsp a, c2))"
    using True w unfolding fw_exec_body_def c2_def c1_def Let_def do_firmware_cmd_def by simp
  have p: "present (set_state f c2) = present c2" "dma_fault (set_state f c2) = dma_fault c2" for f
    by (simp_all add: present_def dma_fault_def)
  show ?thesis
  proof (cases "fa_sts a = BC_STS_SUCCESS \<and> w ! 0 = eCMD_C011_INIT \<and> cmd_state (dc_cmd c) = BC_LINK_RESUME OR BC_LINK_INIT \<and>
      \<not> (cmd_state (dc_cmd c2) \<noteq> BC_LINK_RESUME OR BC_LINK_INIT \<or> \<not> present c2 \<or> dc_generation c2 \<noteq> g \<or>
             cmd_session_owner (dc_cmd c2) \<noteq> owner)")
    case C: True
    show ?thesis
      by (rule posted [of BC_STS_SUCCESS "set_state (\<lambda>_. BC_LINK_INIT) c2"]) (use C True c2 p i eq in auto)
  next
    case C: False
    define sts where "sts = fst (fw_exec_body a g owner w c)"
    have "fw_exec_body a g owner w c = (sts, fa_rsp a, c2)"
      using C unfolding sts_def eq by (auto split: if_splits)
    moreover have "w ! 0 \<noteq> eCMD_C011_INIT \<Longrightarrow> sts = fa_sts a" "sts = fa_sts a \<or> sts = BC_STS_IO_ERROR"
      using C unfolding sts_def eq by (auto split: if_splits)
    ultimately show ?thesis using posted [of sts c2] c2 True by auto
  qed
qed

lemma exec_cases:
  assumes "mail_free c" "world_ok (fa_world a)" and w: "w ! 0 \<noteq> eCMD_C011_DEC_CHAN_PAUSE"
  obtains (refused) sts f where "crystalhd_fw_exec_locked t a (Some c) owner (Some w) = Some (sts, replicate BC_MAX_FW_CMD_BUFF_SZ 0, Some (c\<lparr>dc_fw := f\<rparr>))"
      "sts \<noteq> BC_STS_SUCCESS" "sts \<noteq> BC_STS_FW_CMD_ERR" "fw_trans_mutex f = None" "fw_mutex f = None"
  | (posted) sts c' where "crystalhd_fw_exec_locked t a (Some c) owner (Some w) = Some (sts, fa_rsp a, Some c')"
      "keeps c c'" "mail_free c'" "has_flag (cmd_state (dc_cmd c')) BC_LINK_INIT"
      "dc_log c' = dc_log c @ [Fw_Command w (fa_sts a)]" "present c' = present (after (fa_world a) c)"
      "dma_fault c' = dma_fault (after (fa_world a) c)" "dc_paused c' = dc_paused c"
      "w ! 0 \<noteq> eCMD_C011_INIT \<Longrightarrow> sts = fa_sts a \<and> cmd_state (dc_cmd c') = cmd_state (dc_cmd c)"
      "sts = fa_sts a \<or> sts = BC_STS_IO_ERROR" "dc_fw c' = crystalhd_hw_fw_cmd_leave (wo_mail (fa_world a))"
proof -
  let ?z = "replicate BC_MAX_FW_CMD_BUFF_SZ 0 :: u32 list"
  obtain sts f where e: "crystalhd_hw_fw_cmd_enter t (fa_interrupted a) (fw_view c) = Some (sts, f)" "fw_mutex f = None"
    "sts = BC_STS_SUCCESS \<or> sts = BC_STS_IO_USER_ABORT \<and> fa_interrupted a \<or> sts = BC_STS_IO_ERROR \<and> (dma_fault c \<or> \<not> present c) \<or>
       sts = BC_STS_BUSY \<and> (fw_poisoned (dc_fw c) \<or> fw_pending (dc_fw c))"
    "sts \<noteq> BC_STS_SUCCESS \<Longrightarrow> fw_trans_mutex f = None"
    using enter_run [OF assms(1)] by metis
  have X: "crystalhd_fw_exec_locked t a (Some c) owner (Some w) =
    (if \<not> has_device c \<or> \<not> dc_ops c \<or> owner = None then Some (BC_STS_INV_ARG, ?z, Some c)
     else if crystalhd_session_require_owner (Some c) owner \<noteq> BC_STS_SUCCESS
     then Some (crystalhd_session_require_owner (Some c) owner, ?z, Some c)
     else if sts \<noteq> BC_STS_SUCCESS then Some (sts, ?z, Some (c\<lparr>dc_fw := f\<rparr>))
     else case fw_exec_body a (dc_generation c) owner w (c\<lparr>dc_fw := f\<rparr>) of (sts, rsp, c1) \<Rightarrow>
       Some (sts, rsp, Some (c1\<lparr>dc_fw := crystalhd_hw_fw_cmd_leave (dc_fw c1)\<rparr>)))"
    unfolding crystalhd_fw_exec_locked_def Let_def using e(1) by simp
  have ro: "crystalhd_session_require_owner (Some c) owner \<noteq> BC_STS_FW_CMD_ERR"
    by (simp add: crystalhd_session_require_owner_def)
  have fr: "fw_trans_mutex (dc_fw c) = None" "fw_mutex (dc_fw c) = None" using assms(1) by (simp_all add: mail_free_def)
  have self: "c\<lparr>dc_fw := dc_fw c\<rparr> = c" by simp
  consider (bad) "\<not> has_device c \<or> \<not> dc_ops c \<or> owner = None"
    | (owner) "\<not> (\<not> has_device c \<or> \<not> dc_ops c \<or> owner = None)" "crystalhd_session_require_owner (Some c) owner \<noteq> BC_STS_SUCCESS"
    | (enter) "\<not> (\<not> has_device c \<or> \<not> dc_ops c \<or> owner = None)" "crystalhd_session_require_owner (Some c) owner = BC_STS_SUCCESS" "sts \<noteq> BC_STS_SUCCESS"
    | (run) "\<not> (\<not> has_device c \<or> \<not> dc_ops c \<or> owner = None)" "crystalhd_session_require_owner (Some c) owner = BC_STS_SUCCESS" "sts = BC_STS_SUCCESS"
    by blast
  then show ?thesis
  proof cases
    case bad
    show ?thesis by (rule refused [of BC_STS_INV_ARG "dc_fw c"]) (use bad X fr self in auto)
  next
    case owner
    show ?thesis by (rule refused [of "crystalhd_session_require_owner (Some c) owner" "dc_fw c"]) (use owner X fr self ro in auto)
  next
    case enter
    show ?thesis by (rule refused [of sts f]) (use enter X e in auto)
  next
    case run
    let ?c = "c\<lparr>dc_fw := f\<rparr>"
    have pc: "present (c\<lparr>dc_fw := g\<rparr>) = present c" "dma_fault (c\<lparr>dc_fw := g\<rparr>) = dma_fault c" for c g by (simp_all add: present_def dma_fault_def)
    have af: "present (after w ?c) = present (after w c)" "dma_fault (after w ?c) = dma_fault (after w c)" for w
      by (simp_all add: present_def dma_fault_def after_def set_present_def)
    show ?thesis
    proof (cases rule: body_cases [OF w, of a "dc_generation c" owner ?c, case_names idle posted])
      case idle
      show ?thesis by (rule refused [of BC_STS_ERR_USAGE "crystalhd_hw_fw_cmd_leave f"]) (use run X e idle in auto)
    next
      case (posted s c')
      have k: "keeps c c'" using posted(2) by (simp add: keeps_left)
      show ?thesis
        by (rule that(2) [of s "c'\<lparr>dc_fw := crystalhd_hw_fw_cmd_leave (dc_fw c')\<rparr>"])
          (use run X posted k assms(2) in \<open>auto simp: mail_free_def world_ok_def pc af\<close>)
    qed
  qed
qed

section \<open>The firmware as the log describes it\<close>

text \<open>
  What a log entitles the driver to believe. The firmware follows the sequence of loads and commands it
  acknowledged; a command it rejected did nothing, nor did one that is not about the channel; after any
  other failure, or a command out of order, nothing is known until the next load.
\<close>

text \<open>The commands only the driver itself gives.\<close>

definition own_commands :: "u32 set" where
  "own_commands = {eCMD_C011_INIT, eCMD_C011_DEC_CHAN_OPEN, eCMD_C011_DEC_CHAN_INPUT_PARAMS, eCMD_C011_DEC_CHAN_ACTIVATE,
     eCMD_C011_DEC_CHAN_START_VIDEO, eCMD_C011_DEC_CHAN_STOP_VIDEO, eCMD_C011_DEC_CHAN_CLOSE}"

datatype dev_view = Dev_Unknown | Dev_Loaded | Dev_Ready | Dev_Opened | Dev_Configured | Dev_Active | Dev_Started

definition dev_command :: "dev_view \<Rightarrow> u32 \<Rightarrow> dev_view" where
  "dev_command v cmd =
    (if cmd = eCMD_C011_INIT then if v = Dev_Loaded then Dev_Ready else Dev_Unknown
     else if cmd = eCMD_C011_DEC_CHAN_OPEN then if v = Dev_Ready then Dev_Opened else Dev_Unknown
     else if cmd = eCMD_C011_DEC_CHAN_INPUT_PARAMS then if v = Dev_Opened then Dev_Configured else Dev_Unknown
     else if cmd = eCMD_C011_DEC_CHAN_ACTIVATE then if v = Dev_Configured then Dev_Active else Dev_Unknown
     else if cmd = eCMD_C011_DEC_CHAN_START_VIDEO then if v = Dev_Active then Dev_Started else Dev_Unknown
     else if cmd = eCMD_C011_DEC_CHAN_STOP_VIDEO then if v = Dev_Started then Dev_Configured else Dev_Unknown
     else if cmd = eCMD_C011_DEC_CHAN_CLOSE then if v = Dev_Configured then Dev_Ready else Dev_Unknown
     else v)"

fun dev_step :: "dev_view \<Rightarrow> fw_event \<Rightarrow> dev_view" where
  "dev_step v (Fw_Load sts) = (if sts = BC_STS_SUCCESS then Dev_Loaded else Dev_Unknown)"
| "dev_step v (Fw_Command w sts) =
    (if sts = BC_STS_FW_CMD_ERR \<or> w ! 0 \<notin> own_commands then v else if sts = BC_STS_SUCCESS then dev_command v (w ! 0) else Dev_Unknown)"

definition dev_of :: "fw_event list \<Rightarrow> dev_view" where
  "dev_of log = foldl dev_step Dev_Unknown log"

lemma dev_of_snoc [simp]: "dev_of (log @ [e]) = dev_step (dev_of log) e"
  by (simp add: dev_of_def)

fun phase_view :: "crystalhd_decoder_phase \<Rightarrow> dev_view option" where
  "phase_view CRYSTALHD_DECODER_BOOTSTRAPPED = Some Dev_Ready"
| "phase_view CRYSTALHD_DECODER_CHANNEL_CONFIGURED = Some Dev_Configured"
| "phase_view CRYSTALHD_DECODER_CHANNEL_STARTED = Some Dev_Started"
| "phase_view _ = None"

definition has_channel :: "crystalhd_decoder_phase \<Rightarrow> bool" where
  "has_channel p \<longleftrightarrow> p = CRYSTALHD_DECODER_CHANNEL_CONFIGURED \<or> p = CRYSTALHD_DECODER_CHANNEL_STARTED"

definition chan_inv :: "decoder_ctx \<Rightarrow> bool" where
  "chan_inv c \<longleftrightarrow> mail_free c \<and>
    (\<forall>v. phase_view (cmd_decoder_phase (dc_cmd c)) = Some v \<longrightarrow>
       dev_of (dc_log c) = v \<and> has_flag (cmd_state (dc_cmd c)) BC_LINK_INIT) \<and>
    (has_channel (cmd_decoder_phase (dc_cmd c)) \<longrightarrow>
       cmd_decoder_codec (dc_cmd c) = CRYSTALHD_DECODER_CODEC_H264 \<and> cmd_decoder_channel_id (dc_cmd c) = 0 \<and>
       cmd_stream (dc_cmd c) \<noteq> None)"

text \<open>A call on the channel, with the answers; \<open>Ch_Exec\<close> is a command of the user.\<close>

datatype chan_op =
    Ch_Bootstrap load_answer fw_answer
  | Ch_Open bool "(u8 list \<times> u64) option" fw_answer fw_answer
  | Ch_Start fw_answer fw_answer
  | Ch_Stop fw_answer
  | Ch_Close fw_answer
  | Ch_Exec fw_answer "u32 list"

fun chan_op_ok :: "chan_op \<Rightarrow> bool" where
  "chan_op_ok (Ch_Bootstrap la a) \<longleftrightarrow> world_ok (la_world la) \<and> world_ok (fa_world a)"
| "chan_op_ok (Ch_Open kz coh a1 a2) \<longleftrightarrow> world_ok (fa_world a1) \<and> world_ok (fa_world a2)"
| "chan_op_ok (Ch_Start a1 a2) \<longleftrightarrow> world_ok (fa_world a1) \<and> world_ok (fa_world a2)"
| "chan_op_ok (Ch_Stop a) \<longleftrightarrow> world_ok (fa_world a)"
| "chan_op_ok (Ch_Close a) \<longleftrightarrow> world_ok (fa_world a)"
| "chan_op_ok (Ch_Exec a w) \<longleftrightarrow> world_ok (fa_world a) \<and> w ! 0 \<notin> own_commands"

fun chan_exec :: "thread \<Rightarrow> nat option \<Rightarrow> chan_op \<Rightarrow> decoder_ctx option \<Rightarrow> (rc \<times> decoder_ctx option) option" where
  "chan_exec t owner (Ch_Bootstrap la a) c = crystalhd_fw_bootstrap_locked t la a c owner"
| "chan_exec t owner (Ch_Open kz coh a1 a2) c =
     crystalhd_decoder_channel_open_locked t kz coh a1 a2 c owner (Some CRYSTALHD_DECODER_CODEC_H264)"
| "chan_exec t owner (Ch_Start a1 a2) c = crystalhd_decoder_channel_start_locked t a1 a2 c owner"
| "chan_exec t owner (Ch_Stop a) c = crystalhd_decoder_channel_stop_locked t a c owner"
| "chan_exec t owner (Ch_Close a) c = crystalhd_decoder_channel_close_locked t a c owner"
| "chan_exec t owner (Ch_Exec a w) c = map_option (\<lambda>(sts, rsp, c'). (crystalhd_status_to_errno sts, c'))
     (crystalhd_fw_exec_locked t a c owner (Some w))"

section \<open>Preservation\<close>

lemma mail_free_simps [simp]:
  "mail_free (set_cmd f c) = mail_free c" "mail_free (set_state g c) = mail_free c"
  "mail_free (c\<lparr>dc_pwr_state_change := n\<rparr>) = mail_free c" "mail_free (c\<lparr>dc_color := n\<rparr>) = mail_free c"
  by (simp_all add: mail_free_def)

lemma next_sequence_simps:
  assumes "next_sequence c = (seq, c')"
  shows "seq = cmd_fw_sequence (dc_cmd c) + 1" "c' = set_cmd (\<lambda>m. m\<lparr>cmd_fw_sequence := seq\<rparr>) c"
  using assms by (auto simp: next_sequence_def Let_def)

lemma recovery_simps [simp]:
  "mail_free (require_recovery c) = mail_free c" "cmd_decoder_phase (dc_cmd (require_recovery c)) = CRYSTALHD_DECODER_RECOVERY_REQUIRED"
  "cmd_state (dc_cmd (require_recovery c)) = cmd_state (dc_cmd c)" "dc_log (require_recovery c) = dc_log c"
  by (simp_all add: require_recovery_def)

lemma stream_release_simps [simp]:
  "mail_free (stream_release c) = mail_free c" "dc_log (stream_release c) = dc_log c"
  "cmd_decoder_phase (dc_cmd (stream_release c)) = cmd_decoder_phase (dc_cmd c)"
  "cmd_state (dc_cmd (stream_release c)) = cmd_state (dc_cmd c)"
  "cmd_decoder_codec (dc_cmd (stream_release c)) = cmd_decoder_codec (dc_cmd c)"
  "cmd_decoder_channel_id (dc_cmd (stream_release c)) = cmd_decoder_channel_id (dc_cmd c)"
  "dc_fw (stream_release c) = dc_fw c" "dc_pwr_state_change (stream_release c) = dc_pwr_state_change c"
  by (auto simp: stream_release_def crystalhd_stream_release_def split: option.split)

lemma recovery_inv: "mail_free c \<Longrightarrow> cmd_decoder_phase (dc_cmd c) = CRYSTALHD_DECODER_RECOVERY_REQUIRED \<Longrightarrow> chan_inv c"
  by (simp add: chan_inv_def has_channel_def)

lemma first_word [simp]:
  "fw_init_cmd seq l ! 0 = eCMD_C011_INIT" "fw_open_cmd seq alg ! 0 = eCMD_C011_DEC_CHAN_OPEN"
  "fw_input_params_cmd seq ch ! 0 = eCMD_C011_DEC_CHAN_INPUT_PARAMS" "fw_activate_cmd seq ch ! 0 = eCMD_C011_DEC_CHAN_ACTIVATE"
  "fw_start_video_cmd seq ch alg ! 0 = eCMD_C011_DEC_CHAN_START_VIDEO" "fw_stop_close_cmd cmd seq ch ! 0 = cmd"
  by (simp_all add: fw_init_cmd_def fw_open_cmd_def fw_input_params_cmd_def fw_activate_cmd_def fw_start_video_cmd_def
      fw_stop_close_cmd_def fw_words_def)

text \<open>One command of the channel's own: what the driver and the log say afterwards.\<close>

lemma own_exec:
  assumes free: "mail_free c" "world_ok (fa_world a)" and w: "w ! 0 \<noteq> eCMD_C011_DEC_CHAN_PAUSE" "w ! 0 \<noteq> eCMD_C011_INIT"
  obtains sts rsp c' where "crystalhd_fw_exec_locked t a (Some c) owner (Some w) = Some (sts, rsp, Some c')"
    "mail_free c'" "keeps c c'" "cmd_state (dc_cmd c') = cmd_state (dc_cmd c)"
    "sts = BC_STS_SUCCESS \<Longrightarrow> dev_of (dc_log c') = dev_command (dev_of (dc_log c)) (w ! 0) \<and> rsp = fa_rsp a"
    "sts = BC_STS_FW_CMD_ERR \<Longrightarrow> dev_of (dc_log c') = dev_of (dc_log c)"
proof (cases rule: exec_cases [OF free w(1), of t owner, case_names refused posted])
  case (refused sts f)
  show ?thesis by (rule that [OF refused(1)]) (use refused in \<open>auto simp: mail_free_def\<close>)
next
  case (posted sts c')
  then show ?thesis using w by (intro that [OF posted(1)]) (auto simp: dev_command_def own_commands_def)
qed

lemma stream_prepare_cases:
  obtains rc s where "crystalhd_stream_prepare kz coh (Some m) = (rc, Some (m\<lparr>cmd_stream := s\<rparr>))"
    "rc = rc_ok \<longrightarrow> s \<noteq> None" "cmd_stream m \<noteq> None \<longrightarrow> s = cmd_stream m"
proof -
  obtain rc m' where e: "crystalhd_stream_prepare kz coh (Some m) = (rc, m')" by (cases "crystalhd_stream_prepare kz coh (Some m)")
  then have "\<exists>s. m' = Some (m\<lparr>cmd_stream := s\<rparr>) \<and> (rc = rc_ok \<longrightarrow> s \<noteq> None) \<and> (cmd_stream m \<noteq> None \<longrightarrow> s = cmd_stream m)"
    unfolding crystalhd_stream_prepare_def
    by (cases "cmd_stream m") (auto split: if_splits option.splits intro!: exI [of _ "cmd_stream (the m')"])
  then show ?thesis using e that by auto
qed

lemma inv_refused: "chan_inv c \<Longrightarrow> chan_inv (c\<lparr>dc_fw := f\<rparr>)" if "fw_trans_mutex f = None" "fw_mutex f = None"
  using that by (simp add: chan_inv_def mail_free_def)

lemma dev_command_simps [simp]:
  "dev_command Dev_Loaded eCMD_C011_INIT = Dev_Ready" "dev_command Dev_Ready eCMD_C011_DEC_CHAN_OPEN = Dev_Opened"
  "dev_command Dev_Opened eCMD_C011_DEC_CHAN_INPUT_PARAMS = Dev_Configured"
  "dev_command Dev_Configured eCMD_C011_DEC_CHAN_ACTIVATE = Dev_Active"
  "dev_command Dev_Active eCMD_C011_DEC_CHAN_START_VIDEO = Dev_Started"
  "dev_command Dev_Started eCMD_C011_DEC_CHAN_STOP_VIDEO = Dev_Configured"
  "dev_command Dev_Configured eCMD_C011_DEC_CHAN_CLOSE = Dev_Ready"
  by (simp_all add: dev_command_def)

lemma open_inv:
  assumes inv: "chan_inv c" and ok: "world_ok (fa_world a1)" "world_ok (fa_world a2)"
  shows "\<exists>rc c'. crystalhd_decoder_channel_open_locked t kz coh a1 a2 (Some c) owner (Some CRYSTALHD_DECODER_CODEC_H264) =
    Some (rc, Some c') \<and> chan_inv c'"
proof (cases "owner = None \<or> channel_guard c owner \<noteq> rc_ok \<or> cmd_state (dc_cmd c) \<noteq> BC_LINK_INIT \<or>
    cmd_decoder_phase (dc_cmd c) \<noteq> CRYSTALHD_DECODER_BOOTSTRAPPED \<or> cmd_fw_sequence (dc_cmd c) = 0")
  case True
  then show ?thesis using inv by (auto simp: crystalhd_decoder_channel_open_locked_def)
next
  case False
  then have g: "owner \<noteq> None" "channel_guard c owner = rc_ok" "cmd_state (dc_cmd c) = BC_LINK_INIT"
    "cmd_decoder_phase (dc_cmd c) = CRYSTALHD_DECODER_BOOTSTRAPPED" "cmd_fw_sequence (dc_cmd c) \<noteq> 0" by auto
  have I: "mail_free c" "dev_of (dc_log c) = Dev_Ready" using inv g(4) by (auto simp: chan_inv_def)
  have fl: "has_flag (1::u32) 1" by (simp add: has_flag_def)
  obtain rc s where sp: "crystalhd_stream_prepare kz coh (Some (dc_cmd c)) = (rc, Some ((dc_cmd c)\<lparr>cmd_stream := s\<rparr>))"
    "rc = rc_ok \<longrightarrow> s \<noteq> None" by (rule stream_prepare_cases)
  define c1 where "c1 = c\<lparr>dc_cmd := (dc_cmd c)\<lparr>cmd_stream := s\<rparr>\<rparr>"
  define c2 where "c2 = set_cmd (\<lambda>m. m\<lparr>cmd_fw_sequence := cmd_fw_sequence (dc_cmd c1) + 1\<rparr>) c1"
  have n1: "next_sequence c1 = (cmd_fw_sequence (dc_cmd c1) + 1, c2)" by (simp add: next_sequence_def c2_def Let_def)
  have c2: "mail_free c2" "dc_log c2 = dc_log c" "cmd_decoder_phase (dc_cmd c2) = CRYSTALHD_DECODER_BOOTSTRAPPED"
    "cmd_state (dc_cmd c2) = BC_LINK_INIT" "cmd_stream (dc_cmd c2) = s"
    using I g by (simp_all add: c2_def c1_def mail_free_def)
  let ?w = "fw_open_cmd (cmd_fw_sequence (dc_cmd c1) + 1) 0"
  obtain sts rsp c3 where e: "crystalhd_fw_exec_locked t a1 (Some c2) owner (Some ?w) = Some (sts, rsp, Some c3)"
    "mail_free c3" "keeps c2 c3" "cmd_state (dc_cmd c3) = cmd_state (dc_cmd c2)"
    "sts = BC_STS_SUCCESS \<Longrightarrow> dev_of (dc_log c3) = dev_command (dev_of (dc_log c2)) (?w ! 0) \<and> rsp = fa_rsp a1"
    "sts = BC_STS_FW_CMD_ERR \<Longrightarrow> dev_of (dc_log c3) = dev_of (dc_log c2)"
    by (rule own_exec [OF c2(1) ok(1), of ?w t owner]) auto
  define c4 where "c4 = set_cmd (\<lambda>m. m\<lparr>cmd_fw_sequence := cmd_fw_sequence (dc_cmd c3) + 1\<rparr>) c3"
  have n3: "next_sequence c3 = (cmd_fw_sequence (dc_cmd c3) + 1, c4)" by (simp add: next_sequence_def c4_def Let_def)
  have c4: "mail_free c4" using e(2) by (simp add: c4_def)
  let ?w2 = "fw_input_params_cmd (cmd_fw_sequence (dc_cmd c3) + 1) (rsp ! 3)"
  obtain sts2 rsp2 c5 where f: "crystalhd_fw_exec_locked t a2 (Some c4) owner (Some ?w2) = Some (sts2, rsp2, Some c5)"
    "mail_free c5" "keeps c4 c5" "cmd_state (dc_cmd c5) = cmd_state (dc_cmd c4)"
    "sts2 = BC_STS_SUCCESS \<Longrightarrow> dev_of (dc_log c5) = dev_command (dev_of (dc_log c4)) (?w2 ! 0) \<and> rsp2 = fa_rsp a2"
    by (rule own_exec [OF c4 ok(2), of ?w2 t owner]) auto
  define r where "r = crystalhd_decoder_channel_open_locked t kz coh a1 a2 (Some c) owner (Some CRYSTALHD_DECODER_CODEC_H264)"
  have R: "r = (if rc \<noteq> rc_ok then Some (rc, Some c1)
      else if sts \<noteq> BC_STS_SUCCESS then Some (crystalhd_status_to_errno sts, Some (stream_release
                      (if sts \<noteq> BC_STS_FW_CMD_ERR then require_recovery c3
                       else set_cmd (\<lambda>m. m\<lparr>cmd_decoder_codec := CRYSTALHD_DECODER_CODEC_INVALID,
                                           cmd_decoder_channel_id := 0\<rparr>) c3)))
      else if \<not> present c3 then Some (Some ENODEV, Some (stream_release (require_recovery c3)))
      else if rsp ! 3 \<noteq> 0 then Some (Some EIO, Some (stream_release (require_recovery c3)))
      else if sts2 \<noteq> BC_STS_SUCCESS \<or> \<not> present c5
           then Some (if sts2 \<noteq> BC_STS_SUCCESS then crystalhd_status_to_errno sts2 else Some ENODEV, Some (stream_release (require_recovery c5)))
           else Some (rc_ok, Some (set_cmd (\<lambda>m. m\<lparr>cmd_decoder_channel_id := rsp ! 3, cmd_decoder_codec := CRYSTALHD_DECODER_CODEC_H264,
                         cmd_decoder_phase := CRYSTALHD_DECODER_CHANNEL_CONFIGURED\<rparr>) c5)))"
    unfolding r_def crystalhd_decoder_channel_open_locked_def prod.case option.case if_not_P [OF g(1)]
    using g(2-5) sp(1) n1 e(1) n3 f(1)
    by (cases "rc = rc_ok"; cases "sts = BC_STS_SUCCESS"; cases "rsp ! 3 = 0") (simp_all add: c1_def [symmetric] Let_def)
  have inv1: "chan_inv c1" using inv g(4) by (simp add: chan_inv_def c1_def mail_free_def has_channel_def)
  have rej: "chan_inv (stream_release (set_cmd (\<lambda>m. m\<lparr>cmd_decoder_codec := CRYSTALHD_DECODER_CODEC_INVALID, cmd_decoder_channel_id := 0\<rparr>) c3))"
    if "sts = BC_STS_FW_CMD_ERR"
    using e(2,3,4) e(6) [OF that] c2 I fl by (simp add: chan_inv_def has_channel_def keeps_def)
  have fin: "chan_inv (set_cmd (\<lambda>m. m\<lparr>cmd_decoder_channel_id := rsp ! 3, cmd_decoder_codec := CRYSTALHD_DECODER_CODEC_H264,
                         cmd_decoder_phase := CRYSTALHD_DECODER_CHANNEL_CONFIGURED\<rparr>) c5)"
    if "rc = rc_ok" "sts = BC_STS_SUCCESS" "rsp ! 3 = 0" "sts2 = BC_STS_SUCCESS"
  proof -
    have "dev_of (dc_log c5) = Dev_Configured" using e(5) [OF that(2)] f(5) [OF that(4)] c2 I by (simp add: c4_def)
    moreover have "cmd_stream (dc_cmd c5) = s" using f(3) e(3) c2 by (simp add: keeps_def c4_def)
    moreover have "cmd_state (dc_cmd c5) = BC_LINK_INIT" using f(4) e(4) c2 by (simp add: c4_def)
    ultimately show ?thesis using f(2) sp(2) that fl by (simp add: chan_inv_def)
  qed
  have rec: "chan_inv (stream_release (require_recovery c3))" "chan_inv (stream_release (require_recovery c5))"
    using e(2) f(2) by (auto intro!: recovery_inv)
  show ?thesis unfolding r_def [symmetric] R using inv1 rej fin rec by auto
qed


lemma start_inv:
  assumes inv: "chan_inv c" and ok: "world_ok (fa_world a1)" "world_ok (fa_world a2)"
  shows "\<exists>rc c'. crystalhd_decoder_channel_start_locked t a1 a2 (Some c) owner = Some (rc, Some c') \<and> chan_inv c'"
proof (cases "owner = None \<or> channel_guard c owner \<noteq> rc_ok \<or> cmd_state (dc_cmd c) \<noteq> BC_LINK_INIT \<or>
    cmd_decoder_phase (dc_cmd c) \<noteq> CRYSTALHD_DECODER_CHANNEL_CONFIGURED \<or> cmd_fw_sequence (dc_cmd c) = 0 \<or>
    cmd_decoder_channel_id (dc_cmd c) \<noteq> 0 \<or> cmd_decoder_codec (dc_cmd c) \<noteq> CRYSTALHD_DECODER_CODEC_H264 \<or> dma_fault c \<or> \<not> present c")
  case True
  then show ?thesis using inv by (auto simp: crystalhd_decoder_channel_start_locked_def)
next
  case False
  then have g: "owner \<noteq> None" "channel_guard c owner = rc_ok" "cmd_state (dc_cmd c) = BC_LINK_INIT"
    "cmd_decoder_phase (dc_cmd c) = CRYSTALHD_DECODER_CHANNEL_CONFIGURED" "cmd_fw_sequence (dc_cmd c) \<noteq> 0"
    "cmd_decoder_channel_id (dc_cmd c) = 0" "cmd_decoder_codec (dc_cmd c) = CRYSTALHD_DECODER_CODEC_H264" "\<not> dma_fault c" "present c" by auto
  have I: "mail_free c" "dev_of (dc_log c) = Dev_Configured" "cmd_stream (dc_cmd c) \<noteq> None"
    using inv g(4) by (auto simp: chan_inv_def has_channel_def)
  have fl: "has_flag (1::u32) 1" by (simp add: has_flag_def)
  define c1 where "c1 = c\<lparr>dc_color := (dc_color c AND CRYSTALHD_FLEA_COLOR_DRIVER_MASK) OR CRYSTALHD_FLEA_COLOR_YUY2\<rparr>"
  define c2 where "c2 = set_cmd (\<lambda>m. m\<lparr>cmd_fw_sequence := cmd_fw_sequence (dc_cmd c1) + 1\<rparr>) c1"
  have n1: "next_sequence c1 = (cmd_fw_sequence (dc_cmd c1) + 1, c2)" by (simp add: next_sequence_def c2_def Let_def)
  have c2: "mail_free c2" "dc_log c2 = dc_log c" "cmd_decoder_phase (dc_cmd c2) = CRYSTALHD_DECODER_CHANNEL_CONFIGURED"
    "cmd_state (dc_cmd c2) = BC_LINK_INIT" "cmd_stream (dc_cmd c2) = cmd_stream (dc_cmd c)"
    "cmd_decoder_channel_id (dc_cmd c2) = 0" "cmd_decoder_codec (dc_cmd c2) = CRYSTALHD_DECODER_CODEC_H264"
    using I g by (simp_all add: c2_def c1_def mail_free_def)
  let ?w = "fw_activate_cmd (cmd_fw_sequence (dc_cmd c1) + 1) (cmd_decoder_channel_id (dc_cmd c2))"
  obtain sts rsp c3 where e: "crystalhd_fw_exec_locked t a1 (Some c2) owner (Some ?w) = Some (sts, rsp, Some c3)"
    "mail_free c3" "keeps c2 c3" "cmd_state (dc_cmd c3) = cmd_state (dc_cmd c2)"
    "sts = BC_STS_SUCCESS \<Longrightarrow> dev_of (dc_log c3) = dev_command (dev_of (dc_log c2)) (?w ! 0) \<and> rsp = fa_rsp a1"
    "sts = BC_STS_FW_CMD_ERR \<Longrightarrow> dev_of (dc_log c3) = dev_of (dc_log c2)"
    by (rule own_exec [OF c2(1) ok(1), of ?w t owner]) auto
  define c4 where "c4 = set_cmd (\<lambda>m. m\<lparr>cmd_fw_sequence := cmd_fw_sequence (dc_cmd c3) + 1\<rparr>) c3"
  have n3: "next_sequence c3 = (cmd_fw_sequence (dc_cmd c3) + 1, c4)" by (simp add: next_sequence_def c4_def Let_def)
  have c4: "mail_free c4" using e(2) by (simp add: c4_def)
  let ?w2 = "fw_start_video_cmd (cmd_fw_sequence (dc_cmd c3) + 1) (cmd_decoder_channel_id (dc_cmd c4)) 0"
  obtain sts2 rsp2 c5 where f: "crystalhd_fw_exec_locked t a2 (Some c4) owner (Some ?w2) = Some (sts2, rsp2, Some c5)"
    "mail_free c5" "keeps c4 c5" "cmd_state (dc_cmd c5) = cmd_state (dc_cmd c4)"
    "sts2 = BC_STS_SUCCESS \<Longrightarrow> dev_of (dc_log c5) = dev_command (dev_of (dc_log c4)) (?w2 ! 0) \<and> rsp2 = fa_rsp a2"
    by (rule own_exec [OF c4 ok(2), of ?w2 t owner]) auto
  define r where "r = crystalhd_decoder_channel_start_locked t a1 a2 (Some c) owner"
  have R: "r = (if \<not> present c3 then Some (Some ENODEV, Some (require_recovery c3))
      else if sts \<noteq> BC_STS_SUCCESS
      then Some (crystalhd_status_to_errno sts, Some (if sts \<noteq> BC_STS_FW_CMD_ERR then require_recovery c3 else c3))
      else if sts2 \<noteq> BC_STS_SUCCESS \<or> \<not> present c5
           then Some (if sts2 \<noteq> BC_STS_SUCCESS then crystalhd_status_to_errno sts2 else Some ENODEV, Some (require_recovery c5))
           else Some (rc_ok, Some (set_cmd (\<lambda>m. m\<lparr>cmd_decoder_phase := CRYSTALHD_DECODER_CHANNEL_STARTED\<rparr>) c5)))"
    unfolding r_def crystalhd_decoder_channel_start_locked_def option.case if_not_P [OF g(1)]
    using g(2-9) n1 e(1) n3 f(1)
    by (cases "sts = BC_STS_SUCCESS"; cases "present c3") (simp_all add: c1_def [symmetric] Let_def)
  have rej: "chan_inv c3" if "sts = BC_STS_FW_CMD_ERR"
    using e(2,3,4) e(6) [OF that] c2 I fl by (simp add: chan_inv_def has_channel_def keeps_def)
  have fin: "chan_inv (set_cmd (\<lambda>m. m\<lparr>cmd_decoder_phase := CRYSTALHD_DECODER_CHANNEL_STARTED\<rparr>) c5)"
    if "sts = BC_STS_SUCCESS" "sts2 = BC_STS_SUCCESS"
  proof -
    have "dev_of (dc_log c5) = Dev_Started" using e(5) [OF that(1)] f(5) [OF that(2)] c2 I by (simp add: c4_def)
    moreover have "cmd_stream (dc_cmd c5) = cmd_stream (dc_cmd c)" "cmd_decoder_codec (dc_cmd c5) = CRYSTALHD_DECODER_CODEC_H264"
      "cmd_decoder_channel_id (dc_cmd c5) = 0" "cmd_state (dc_cmd c5) = BC_LINK_INIT"
      using f(3,4) e(3,4) c2 by (simp_all add: keeps_def c4_def)
    ultimately show ?thesis using f(2) I fl by (simp add: chan_inv_def)
  qed
  have rec: "chan_inv (require_recovery c3)" "chan_inv (require_recovery c5)"
    using e(2) f(2) by (auto intro!: recovery_inv)
  show ?thesis unfolding r_def [symmetric] R using rej fin rec by auto
qed

text \<open>STOP and CLOSE: done, rejected with nothing changed, or recovery.\<close>

lemma release_cmd_run:
  assumes free: "mail_free c" "world_ok (fa_world a)" and cmd: "command \<noteq> eCMD_C011_DEC_CHAN_PAUSE" "command \<noteq> eCMD_C011_INIT"
  obtains rc c' where "crystalhd_decoder_release_cmd_locked t a c owner command = Some (rc, c')" "mail_free c'"
    "rc = rc_ok \<Longrightarrow> dev_of (dc_log c') = dev_command (dev_of (dc_log c)) command"
    "cmd_decoder_phase (dc_cmd c') = CRYSTALHD_DECODER_RECOVERY_REQUIRED \<or>
     cmd_decoder_phase (dc_cmd c') = cmd_decoder_phase (dc_cmd c) \<and> cmd_decoder_codec (dc_cmd c') = cmd_decoder_codec (dc_cmd c) \<and>
     cmd_decoder_channel_id (dc_cmd c') = cmd_decoder_channel_id (dc_cmd c) \<and> cmd_stream (dc_cmd c') = cmd_stream (dc_cmd c) \<and>
     cmd_state (dc_cmd c') = cmd_state (dc_cmd c) \<and> (rc \<noteq> rc_ok \<longrightarrow> dev_of (dc_log c') = dev_of (dc_log c))"
    "rc = rc_ok \<Longrightarrow> cmd_decoder_phase (dc_cmd c') = cmd_decoder_phase (dc_cmd c)"
proof -
  define c1 where "c1 = set_cmd (\<lambda>m. m\<lparr>cmd_fw_sequence := cmd_fw_sequence (dc_cmd c) + 1\<rparr>) c"
  have n1: "next_sequence c = (cmd_fw_sequence (dc_cmd c) + 1, c1)" by (simp add: next_sequence_def c1_def Let_def)
  have c1: "mail_free c1" using free by (simp add: c1_def)
  let ?w = "fw_stop_close_cmd command (cmd_fw_sequence (dc_cmd c) + 1) (cmd_decoder_channel_id (dc_cmd c1))"
  obtain sts rsp c2 where e: "crystalhd_fw_exec_locked t a (Some c1) owner (Some ?w) = Some (sts, rsp, Some c2)"
    "mail_free c2" "keeps c1 c2" "cmd_state (dc_cmd c2) = cmd_state (dc_cmd c1)"
    "sts = BC_STS_SUCCESS \<Longrightarrow> dev_of (dc_log c2) = dev_command (dev_of (dc_log c1)) (?w ! 0) \<and> rsp = fa_rsp a"
    "sts = BC_STS_FW_CMD_ERR \<Longrightarrow> dev_of (dc_log c2) = dev_of (dc_log c1)"
    by (rule own_exec [OF c1 free(2), of ?w t owner]) (use cmd in auto)
  define res where "res = (if \<not> present c2 then (Some ENODEV, require_recovery c2)
     else (crystalhd_status_to_errno sts, if sts \<noteq> BC_STS_SUCCESS \<and> sts \<noteq> BC_STS_FW_CMD_ERR then require_recovery c2 else c2))"
  have "crystalhd_decoder_release_cmd_locked t a c owner command = Some (fst res, snd res)"
    by (simp add: crystalhd_decoder_release_cmd_locked_def n1 e(1) res_def Let_def)
  then show ?thesis
    by (rule that) (use e in \<open>auto simp: res_def keeps_def c1_def split: if_splits\<close>)
qed

lemma stop_inv:
  assumes inv: "chan_inv c" and ok: "world_ok (fa_world a)"
  shows "\<exists>rc c'. crystalhd_decoder_channel_stop_locked t a (Some c) owner = Some (rc, Some c') \<and> chan_inv c'"
proof -
  have free: "mail_free c" using inv by (simp add: chan_inv_def)
  obtain rc c' where r: "crystalhd_decoder_release_cmd_locked t a c owner eCMD_C011_DEC_CHAN_STOP_VIDEO = Some (rc, c')" "mail_free c'"
    "rc = rc_ok \<Longrightarrow> dev_of (dc_log c') = dev_command (dev_of (dc_log c)) eCMD_C011_DEC_CHAN_STOP_VIDEO"
    "cmd_decoder_phase (dc_cmd c') = CRYSTALHD_DECODER_RECOVERY_REQUIRED \<or>
     cmd_decoder_phase (dc_cmd c') = cmd_decoder_phase (dc_cmd c) \<and> cmd_decoder_codec (dc_cmd c') = cmd_decoder_codec (dc_cmd c) \<and>
     cmd_decoder_channel_id (dc_cmd c') = cmd_decoder_channel_id (dc_cmd c) \<and> cmd_stream (dc_cmd c') = cmd_stream (dc_cmd c) \<and>
     cmd_state (dc_cmd c') = cmd_state (dc_cmd c) \<and> (rc \<noteq> rc_ok \<longrightarrow> dev_of (dc_log c') = dev_of (dc_log c))"
    "rc = rc_ok \<Longrightarrow> cmd_decoder_phase (dc_cmd c') = cmd_decoder_phase (dc_cmd c)"
    by (rule release_cmd_run [OF free ok, of eCMD_C011_DEC_CHAN_STOP_VIDEO t owner]) auto
  have "chan_inv (if rc = rc_ok then set_cmd (\<lambda>m. m\<lparr>cmd_decoder_phase := CRYSTALHD_DECODER_CHANNEL_CONFIGURED\<rparr>) c' else c')"
    if p: "cmd_decoder_phase (dc_cmd c) = CRYSTALHD_DECODER_CHANNEL_STARTED"
  proof (cases "cmd_decoder_phase (dc_cmd c') = CRYSTALHD_DECODER_RECOVERY_REQUIRED")
    case True
    then show ?thesis using r(2,5) p by (auto intro: recovery_inv)
  next
    case False
    then show ?thesis using r inv p by (auto simp: chan_inv_def has_channel_def)
  qed
  then show ?thesis
    unfolding crystalhd_decoder_channel_stop_locked_def Let_def option.case r(1) using inv by auto
qed

lemma close_inv:
  assumes inv: "chan_inv c" and ok: "world_ok (fa_world a)"
  shows "\<exists>rc c'. crystalhd_decoder_channel_close_locked t a (Some c) owner = Some (rc, Some c') \<and> chan_inv c'"
proof -
  have free: "mail_free c" using inv by (simp add: chan_inv_def)
  obtain rc c' where r: "crystalhd_decoder_release_cmd_locked t a c owner eCMD_C011_DEC_CHAN_CLOSE = Some (rc, c')" "mail_free c'"
    "rc = rc_ok \<Longrightarrow> dev_of (dc_log c') = dev_command (dev_of (dc_log c)) eCMD_C011_DEC_CHAN_CLOSE"
    "cmd_decoder_phase (dc_cmd c') = CRYSTALHD_DECODER_RECOVERY_REQUIRED \<or>
     cmd_decoder_phase (dc_cmd c') = cmd_decoder_phase (dc_cmd c) \<and> cmd_decoder_codec (dc_cmd c') = cmd_decoder_codec (dc_cmd c) \<and>
     cmd_decoder_channel_id (dc_cmd c') = cmd_decoder_channel_id (dc_cmd c) \<and> cmd_stream (dc_cmd c') = cmd_stream (dc_cmd c) \<and>
     cmd_state (dc_cmd c') = cmd_state (dc_cmd c) \<and> (rc \<noteq> rc_ok \<longrightarrow> dev_of (dc_log c') = dev_of (dc_log c))"
    "rc = rc_ok \<Longrightarrow> cmd_decoder_phase (dc_cmd c') = cmd_decoder_phase (dc_cmd c)"
    by (rule release_cmd_run [OF free ok, of eCMD_C011_DEC_CHAN_CLOSE t owner]) auto
  have "chan_inv (if rc \<noteq> rc_ok then c' else stream_release (set_cmd (\<lambda>m. m\<lparr>cmd_decoder_phase := CRYSTALHD_DECODER_BOOTSTRAPPED,
      cmd_decoder_codec := CRYSTALHD_DECODER_CODEC_INVALID, cmd_decoder_channel_id := 0\<rparr>) c'))"
    if p: "cmd_decoder_phase (dc_cmd c) = CRYSTALHD_DECODER_CHANNEL_CONFIGURED"
  proof (cases "cmd_decoder_phase (dc_cmd c') = CRYSTALHD_DECODER_RECOVERY_REQUIRED")
    case True
    then show ?thesis using r(2,5) p by (auto intro: recovery_inv)
  next
    case False
    then show ?thesis using r inv p by (auto simp: chan_inv_def has_channel_def)
  qed
  then show ?thesis
    unfolding crystalhd_decoder_channel_close_locked_def option.case r(1) using inv by auto
qed

lemma tracking_reset_simps [simp]:
  "mail_free (crystalhd_decoder_tracking_reset c) = mail_free c" "dc_log (crystalhd_decoder_tracking_reset c) = dc_log c"
  "cmd_decoder_phase (dc_cmd (crystalhd_decoder_tracking_reset c)) = CRYSTALHD_DECODER_COLD"
  "cmd_state (dc_cmd (crystalhd_decoder_tracking_reset c)) = cmd_state (dc_cmd c)"
  "dc_fw (crystalhd_decoder_tracking_reset c) = dc_fw c"
  by (simp_all add: crystalhd_decoder_tracking_reset_def)

text \<open>What a firmware load leaves: the old context but for the mailbox, or a cold decoder with fresh firmware.\<close>

definition load_outcome :: "bool \<Rightarrow> decoder_ctx \<Rightarrow> decoder_ctx \<Rightarrow> bool" where
  "load_outcome ok c c' \<longleftrightarrow> mail_free c' \<and>
    (if ok then cmd_decoder_phase (dc_cmd c') = CRYSTALHD_DECODER_COLD \<and> dev_of (dc_log c') = Dev_Loaded \<and>
       has_flag (cmd_state (dc_cmd c')) BC_LINK_INIT
     else chan_inv c' \<and> cmd_state (dc_cmd c') = cmd_state (dc_cmd c) \<and> cmd_decoder_phase (dc_cmd c') = cmd_decoder_phase (dc_cmd c))"

lemma after_phase: "cmd_decoder_phase (dc_cmd (after w c)) = cmd_decoder_phase (dc_cmd c)"
  by (simp add: after_def set_present_def)

lemma load_admitted_phase:
  assumes "chan_inv c" "load_admitted c"
  shows "phase_view (cmd_decoder_phase (dc_cmd c)) = None"
proof -
  have "\<not> has_flag (0::u32) 1" "\<not> has_flag (0x40::u32) 1" by (simp_all add: has_flag_def)
  then show ?thesis using assms unfolding load_admitted_def chan_inv_def
    by (cases "cmd_decoder_phase (dc_cmd c)") auto
qed

lemma no_view_inv: "mail_free c \<Longrightarrow> phase_view (cmd_decoder_phase (dc_cmd c)) = None \<Longrightarrow> chan_inv c"
  by (cases "cmd_decoder_phase (dc_cmd c)") (auto simp: chan_inv_def has_channel_def)

lemma recovery_enter_run:
  assumes "mail_free c"
  obtains sts f where "crystalhd_hw_fw_cmd_recovery_enter t i (fw_view c) = Some (sts, f)" "fw_mutex f = None"
    "sts \<noteq> BC_STS_SUCCESS \<Longrightarrow> fw_trans_mutex f = None"
proof -
  have fr: "fw_trans_mutex (fw_view c) = None" "fw_mutex (fw_view c) = None" using assms by (simp_all add: mail_free_def fw_view_def)
  define st where "st = (if i then BC_STS_IO_USER_ABORT else if fw_dma_fault (fw_view c) \<or> \<not> fw_present (fw_view c) then BC_STS_IO_ERROR
    else if fw_pending (fw_view c) then BC_STS_BUSY else BC_STS_SUCCESS)"
  define g where "g = (if st = BC_STS_SUCCESS then (fw_view c)\<lparr>fw_trans_mutex := Some t, fw_trans_active := True\<rparr>
    else if i then fw_view c else (fw_view c)\<lparr>fw_trans_mutex := None\<rparr>)"
  have "crystalhd_hw_fw_cmd_recovery_enter t i (fw_view c) = Some (st, g)"
    using fr by (simp add: crystalhd_hw_fw_cmd_recovery_enter_def st_def g_def)
  then show ?thesis by (rule that) (use fr in \<open>auto simp: st_def g_def\<close>)
qed

lemma download_run:
  assumes inv: "chan_inv c" and ok: "world_ok (la_world a)"
  shows "\<exists>sts c'. crystalhd_fw_download_locked t a (Some c) owner img sz = Some (sts, Some c') \<and>
    load_outcome (sts = BC_STS_SUCCESS) c c'"
proof -
  have free: "mail_free c" using inv by (simp add: chan_inv_def)
  have same: "load_outcome False c c" using inv free by (simp add: load_outcome_def)
  obtain sts f where r: "crystalhd_hw_fw_cmd_recovery_enter t (la_interrupted a) (fw_view c) = Some (sts, f)" "fw_mutex f = None"
    "sts \<noteq> BC_STS_SUCCESS \<Longrightarrow> fw_trans_mutex f = None" using recovery_enter_run [OF free] by metis
  have refused: "load_outcome False c (c\<lparr>dc_fw := g\<rparr>)" if "fw_trans_mutex g = None" "fw_mutex g = None" for g
    using inv_refused [OF that inv] that by (simp add: load_outcome_def mail_free_def)
  show ?thesis
  proof (cases "\<not> has_device c \<or> \<not> dc_ops c \<or> owner = None \<or> img = None \<or> sz = 0 \<or>
      crystalhd_session_require_owner (Some c) owner \<noteq> BC_STS_SUCCESS \<or> min_firmware_size c = None \<or>
      sz > CRYSTALHD_MAX_FIRMWARE_SIZE \<or> \<not> crystalhd_valid_firmware_image img sz (the (min_firmware_size c))")
    case True
    then show ?thesis using same by (auto simp: crystalhd_fw_download_locked_def Let_def split: option.split)
  next
    case G: False
    then obtain minimum where mn: "min_firmware_size c = Some minimum" by auto
    have g1: "\<not> (\<not> has_device c \<or> \<not> dc_ops c \<or> owner = None \<or> img = None \<or> sz = 0)"
      and g2: "\<not> crystalhd_session_require_owner (Some c) owner \<noteq> BC_STS_SUCCESS"
      and g3: "\<not> (sz > CRYSTALHD_MAX_FIRMWARE_SIZE \<or> \<not> crystalhd_valid_firmware_image img sz minimum)"
      using G mn by auto
    have D: "crystalhd_fw_download_locked t a (Some c) owner img sz = do {
                  let c1 = c\<lparr>dc_fw := f\<rparr>;
                  (if sts \<noteq> BC_STS_SUCCESS then Some (sts, Some c1)
                   else if \<not> load_admitted c1
                   then Some (BC_STS_ERR_USAGE, Some (c1\<lparr>dc_fw := crystalhd_hw_fw_cmd_leave (dc_fw c1)\<rparr>))
                   else do {
                     let c2 = (after (la_world a) c1)\<lparr>dc_log := dc_log c1 @ [Fw_Load (la_sts a)]\<rparr>;
                     c3 \<leftarrow> (if la_sts a \<noteq> BC_STS_SUCCESS then Some c2
                            else do {
                              let c3 = crystalhd_decoder_tracking_reset (stream_release (set_state (\<lambda>s. s OR BC_LINK_INIT) c2));
                              f \<leftarrow> crystalhd_hw_fw_cmd_reset_locked (dc_fw c3);
                              Some (c3\<lparr>dc_fw := f\<rparr>) });
                     let c4 = c3\<lparr>dc_pwr_state_change := BC_HW_RUNNING\<rparr>;
                     Some (la_sts a, Some (c4\<lparr>dc_fw := crystalhd_hw_fw_cmd_leave (dc_fw c4)\<rparr>)) }) }"
      unfolding crystalhd_fw_download_locked_def option.case Let_def mn r(1) if_not_P [OF g1] if_not_P [OF g2] if_not_P [OF g3] by simp
    have adm: "load_admitted (c\<lparr>dc_fw := f\<rparr>) = load_admitted c" by (simp add: load_admitted_def)
    consider (enter) "sts \<noteq> BC_STS_SUCCESS" | (state) "sts = BC_STS_SUCCESS" "\<not> load_admitted c"
      | (failed) "sts = BC_STS_SUCCESS" "load_admitted c" "la_sts a \<noteq> BC_STS_SUCCESS"
      | (loaded) "sts = BC_STS_SUCCESS" "load_admitted c" "la_sts a = BC_STS_SUCCESS" by blast
    then show ?thesis
    proof cases
      case enter
      then show ?thesis using refused r(2,3) unfolding D Let_def by simp
    next
      case state
      then show ?thesis using refused [of "crystalhd_hw_fw_cmd_leave f"] r(2) adm unfolding D Let_def by simp
    next
      case failed
      define c2 where "c2 = (after (la_world a) (c\<lparr>dc_fw := f\<rparr>))\<lparr>dc_log := dc_log c @ [Fw_Load (la_sts a)]\<rparr>"
      define c' where "c' = c2\<lparr>dc_pwr_state_change := BC_HW_RUNNING, dc_fw := crystalhd_hw_fw_cmd_leave (dc_fw c2)\<rparr>"
      have ph: "cmd_decoder_phase (dc_cmd c') = cmd_decoder_phase (dc_cmd c)" "cmd_state (dc_cmd c') = cmd_state (dc_cmd c)"
        by (simp_all add: c'_def c2_def after_phase)
      have "mail_free c'" using ok by (simp add: c'_def c2_def mail_free_def world_ok_def)
      then have "load_outcome False c c'"
        using no_view_inv [of c'] load_admitted_phase [OF inv failed(2)] ph by (simp add: load_outcome_def)
      moreover have "crystalhd_fw_download_locked t a (Some c) owner img sz = Some (la_sts a, Some c')"
        using failed adm unfolding D Let_def by (simp add: c'_def c2_def)
      ultimately show ?thesis using failed(3) by simp
    next
      case loaded
      define c2 where "c2 = (after (la_world a) (c\<lparr>dc_fw := f\<rparr>))\<lparr>dc_log := dc_log c @ [Fw_Load BC_STS_SUCCESS]\<rparr>"
      define c3 where "c3 = crystalhd_decoder_tracking_reset (stream_release (set_state (\<lambda>s. s OR BC_LINK_INIT) c2))"
      obtain g where g: "crystalhd_hw_fw_cmd_reset_locked (dc_fw c3) = Some g" "fw_mutex g = None"
        using ok by (auto simp: crystalhd_hw_fw_cmd_reset_locked_def c3_def c2_def world_ok_def)
      define c' where "c' = c3\<lparr>dc_pwr_state_change := BC_HW_RUNNING, dc_fw := crystalhd_hw_fw_cmd_leave g\<rparr>"
      have "load_outcome True c c'"
        using g(2) by (simp add: load_outcome_def c'_def mail_free_def) (simp add: c3_def c2_def has_flag_or has_flag_def)
      moreover have "crystalhd_fw_download_locked t a (Some c) owner img sz = Some (BC_STS_SUCCESS, Some c')"
        using loaded adm g(1) unfolding D Let_def by (simp add: c'_def c3_def c2_def)
      ultimately show ?thesis by simp
    qed
  qed
qed


lemma load_outcome_present: "load_outcome ok (set_present p c) c' = load_outcome ok c c'"
  by (simp add: load_outcome_def set_present_def)

lemma present_inv: "chan_inv (set_present p c) = chan_inv c"
  by (simp add: chan_inv_def set_present_def mail_free_def)

lemma request_run:
  assumes inv: "chan_inv c" and ok: "world_ok (la_world a)"
  shows "\<exists>rc c'. crystalhd_request_firmware_locked t a (Some c) owner = Some (rc, Some c') \<and> load_outcome (rc = rc_ok) c c'"
proof -
  have same: "load_outcome False c c" "load_outcome False c (set_present p c)" for p
    using inv present_inv [of p c] by (auto simp: load_outcome_def chan_inv_def set_present_def)
  have main: "\<exists>rc c'. (if \<not> present (set_present (la_present a) c) then Some (Some ENODEV, Some (set_present (la_present a) c))
      else do { (sts, ctx2) \<leftarrow> crystalhd_fw_download_locked t a (Some (set_present (la_present a) c)) owner (Some (addr, data)) (length data);
                Some (crystalhd_status_to_errno sts, ctx2) }) = Some (rc, Some c') \<and> load_outcome (rc = rc_ok) c c'" for addr data
  proof -
    obtain sts c' where "crystalhd_fw_download_locked t a (Some (set_present (la_present a) c)) owner (Some (addr, data)) (length data) = Some (sts, Some c')"
      "load_outcome (sts = BC_STS_SUCCESS) c c'"
      using download_run [of "set_present (la_present a) c" a t owner "Some (addr, data)" "length data"] inv ok
      unfolding present_inv load_outcome_present by blast
    then show ?thesis using same by (cases "present (set_present (la_present a) c)") auto
  qed
  show ?thesis
  proof (cases "owner = None \<or> \<not> has_device c \<or> \<not> dc_ops c \<or> \<not> present c \<or> cmd_session_owner (dc_cmd c) = None \<or>
      cmd_session_owner (dc_cmd c) \<noteq> owner \<or> has_flag (cmd_state (dc_cmd c)) BC_LINK_SUSPEND \<or> \<not> load_admitted c \<or>
      (device_id c \<noteq> Some BC_PCI_DEVID_FLEA \<and> device_id c \<noteq> Some BC_PCI_DEVID_LINK)")
    case True
    then show ?thesis using same(1) unfolding crystalhd_request_firmware_locked_def option.case by (elim disjE) auto
  next
    case False
    then have "crystalhd_request_firmware_locked t a (Some c) owner = (case la_request a of Inl e \<Rightarrow> Some (Some e, Some c)
         | Inr (addr, data) \<Rightarrow>
           let c1 = set_present (la_present a) c
           in if \<not> present c1 then Some (Some ENODEV, Some c1)
              else do {
                (sts, ctx2) \<leftarrow> crystalhd_fw_download_locked t a (Some c1) owner (Some (addr, data)) (length data);
                Some (crystalhd_status_to_errno sts, ctx2) })"
      unfolding crystalhd_request_firmware_locked_def option.case by auto
    then show ?thesis using same(1) main unfolding Let_def by (cases "la_request a") (auto split: prod.split)
  qed
qed

lemma recovery_pwr [simp]: "dc_pwr_state_change (require_recovery c) = dc_pwr_state_change c"
  by (simp add: require_recovery_def)

lemma bootstrap_inv:
  assumes inv: "chan_inv c" and ok: "world_ok (la_world la)" "world_ok (fa_world a)"
  shows "\<exists>rc c'. crystalhd_fw_bootstrap_locked t la a (Some c) owner = Some (rc, Some c') \<and> chan_inv c' \<and>
    (rc \<noteq> rc_ok \<longrightarrow> cmd_state (dc_cmd c') = cmd_state (dc_cmd c) \<and> dc_pwr_state_change c' = dc_pwr_state_change c \<and>
       (cmd_decoder_phase (dc_cmd c') = CRYSTALHD_DECODER_RECOVERY_REQUIRED \<or> cmd_decoder_phase (dc_cmd c') = cmd_decoder_phase (dc_cmd c))) \<and>
    (rc = rc_ok \<longrightarrow> cmd_decoder_phase (dc_cmd c') = CRYSTALHD_DECODER_BOOTSTRAPPED)"
proof (cases "owner = None \<or> \<not> has_device c")
  case True
  then show ?thesis using inv by (auto simp: crystalhd_fw_bootstrap_locked_def)
next
  case False
  then have g: "owner \<noteq> None" "\<not> \<not> has_device c" by auto
  obtain rc c1 where q: "crystalhd_request_firmware_locked t la (Some c) owner = Some (rc, Some c1)" "load_outcome (rc = rc_ok) c c1"
    using request_run [OF inv ok(1)] by blast
  define c2 where "c2 = set_cmd (\<lambda>m. m\<lparr>cmd_fw_sequence := cmd_fw_sequence (dc_cmd c1) + 1\<rparr>) c1"
  have n1: "next_sequence c1 = (cmd_fw_sequence (dc_cmd c1) + 1, c2)" by (simp add: next_sequence_def c2_def Let_def)
  have c2: "mail_free c2" using q(2) by (simp add: c2_def load_outcome_def)
  let ?w = "fw_init_cmd (cmd_fw_sequence (dc_cmd c1) + 1) (device_id c2 = Some BC_PCI_DEVID_LINK)"
  have w: "?w ! 0 \<noteq> eCMD_C011_DEC_CHAN_PAUSE" by simp
  obtain sts rsp c3 where e: "crystalhd_fw_exec_locked t a (Some c2) owner (Some ?w) = Some (sts, rsp, Some c3)"
    "mail_free c3" "sts = BC_STS_SUCCESS \<Longrightarrow> dev_of (dc_log c3) = dev_command (dev_of (dc_log c1)) eCMD_C011_INIT"
  proof (cases rule: exec_cases [OF c2 ok(2) w, of t owner, case_names refused posted])
    case (refused sts f)
    then show ?thesis by (intro that [OF refused(1)]) (auto simp: mail_free_def)
  next
    case (posted sts c')
    then show ?thesis by (intro that [OF posted(1)]) (auto simp: own_commands_def c2_def)
  qed
  let ?fin = "(set_cmd (\<lambda>m. m\<lparr>cmd_state := BC_LINK_INIT, cmd_decoder_phase := CRYSTALHD_DECODER_BOOTSTRAPPED,
                 cmd_decoder_codec := CRYSTALHD_DECODER_CODEC_INVALID, cmd_decoder_channel_id := 0\<rparr>) c3)\<lparr>dc_pwr_state_change := BC_HW_RUNNING\<rparr>"
  have R: "crystalhd_fw_bootstrap_locked t la a (Some c) owner =
    (if rc \<noteq> rc_ok then bootstrap_rollback c False rc c1
     else if \<not> present c1 then bootstrap_rollback c True (Some ENODEV) c1
     else if sts \<noteq> BC_STS_SUCCESS then bootstrap_rollback c True (crystalhd_status_to_errno sts) c3
     else if \<not> present c3 then bootstrap_rollback c True (Some ENODEV) c3
     else Some (rc_ok, Some ?fin))"
    unfolding crystalhd_fw_bootstrap_locked_def option.case if_not_P [OF g(1)] if_not_P [OF g(2)] using q(1) n1 e(1)
    by (simp add: Let_def)
  have bk: "\<exists>c'. bootstrap_rollback c True r d = Some (r, Some c') \<and> chan_inv c' \<and> cmd_state (dc_cmd c') = cmd_state (dc_cmd c) \<and>
      dc_pwr_state_change c' = dc_pwr_state_change c \<and> cmd_decoder_phase (dc_cmd c') = CRYSTALHD_DECODER_RECOVERY_REQUIRED"
    if "mail_free d" for r d
    using that by (auto simp: bootstrap_rollback_def Let_def intro!: recovery_inv)
  have keep: "\<exists>c'. bootstrap_rollback c False rc c1 = Some (rc, Some c') \<and> chan_inv c' \<and> cmd_state (dc_cmd c') = cmd_state (dc_cmd c) \<and>
      dc_pwr_state_change c' = dc_pwr_state_change c \<and> cmd_decoder_phase (dc_cmd c') = cmd_decoder_phase (dc_cmd c)"
    if "rc \<noteq> rc_ok"
  proof -
    have "chan_inv c1" "cmd_state (dc_cmd c1) = cmd_state (dc_cmd c)" "cmd_decoder_phase (dc_cmd c1) = cmd_decoder_phase (dc_cmd c)" using q(2) that by (simp_all add: load_outcome_def)
    then show ?thesis by (simp add: bootstrap_rollback_def Let_def chan_inv_def)
  qed
  have fl: "has_flag (1::u32) 1" by (simp add: has_flag_def)
  have fin: "chan_inv ?fin" if "rc = rc_ok" "sts = BC_STS_SUCCESS"
    using e(2) e(3) [OF that(2)] q(2) that fl by (simp add: chan_inv_def load_outcome_def has_channel_def)
  have f1: "mail_free c1" using q(2) by (simp add: load_outcome_def)
  show ?thesis
  proof (cases "rc = rc_ok")
    case False
    then show ?thesis unfolding R using keep by auto
  next
    case True
    note B = bk [OF f1, of "Some ENODEV"] bk [OF e(2), of "Some ENODEV"] bk [OF e(2), of "crystalhd_status_to_errno sts"]
    have se: "sts \<noteq> BC_STS_SUCCESS \<Longrightarrow> \<exists>y. crystalhd_status_to_errno sts = Some y"
      by (metis not_None_eq status_to_errno_ok_iff)
    show ?thesis unfolding R using True B fin se by (cases "present c1"; cases "sts = BC_STS_SUCCESS"; cases "present c3") auto
  qed
qed

section \<open>Pausing\<close>

lemma pause_bits_raw:
  "has_flag (s AND NOT BC_LINK_PAUSED) BC_LINK_INIT = has_flag s BC_LINK_INIT"
  "has_flag (s OR BC_LINK_PAUSED) BC_LINK_INIT = has_flag s BC_LINK_INIT"
  "\<not> has_flag (s AND NOT BC_LINK_PAUSED) BC_LINK_PAUSED" "has_flag (s OR BC_LINK_PAUSED) BC_LINK_PAUSED" for s :: u32
proof -
  have z: "(0x20 :: u32) AND 1 = 0" "NOT 0x20 AND (1 :: u32) = 1" "NOT 0x20 AND (0x20 :: u32) = 0" by code_simp+
  show "has_flag (s AND NOT BC_LINK_PAUSED) BC_LINK_INIT = has_flag s BC_LINK_INIT"
    unfolding has_flag_def and.assoc z ..
  show "has_flag (s OR BC_LINK_PAUSED) BC_LINK_INIT = has_flag s BC_LINK_INIT"
    unfolding has_flag_or by (simp add: has_flag_def z)
  show "\<not> has_flag (s AND NOT BC_LINK_PAUSED) BC_LINK_PAUSED" unfolding has_flag_def and.assoc z by simp
  show "has_flag (s OR BC_LINK_PAUSED) BC_LINK_PAUSED" by simp
qed

lemmas pause_bits [simp] = pause_bits_raw pause_bits_raw [simplified]

definition paused :: "decoder_ctx \<Rightarrow> bool" where
  "paused c \<longleftrightarrow> has_flag (cmd_state (dc_cmd c)) BC_LINK_PAUSED"

text \<open>The flag agrees with what the capture engine was last told.\<close>

definition pause_sync :: "decoder_ctx \<Rightarrow> bool" where
  "pause_sync c \<longleftrightarrow> (\<forall>p. dc_paused c = Some p \<longrightarrow> p = paused c)"

text \<open>The transaction touched nothing of the channel; \<open>w\<close> was given to the firmware or not.\<close>

definition user_effect :: "fw_answer \<Rightarrow> u32 list \<Rightarrow> decoder_ctx \<Rightarrow> decoder_ctx \<Rightarrow> bool" where
  "user_effect a w c c' \<longleftrightarrow> keeps c c' \<and> (dc_fw c' = dc_fw c \<or> dc_fw c' = wo_mail (fa_world a)) \<and>
    (dc_log c' = dc_log c \<or> dc_log c' = dc_log c @ [Fw_Command w (fa_sts a)]) \<and>
    has_flag (cmd_state (dc_cmd c')) BC_LINK_INIT = has_flag (cmd_state (dc_cmd c)) BC_LINK_INIT"

lemma resume_prepare_effect:
  assumes "fw_resume_prepare a c = (sts, rp, c')"
  shows "user_effect a w c c'" "dc_log c' = dc_log c"
  using assms by (auto simp: fw_resume_prepare_def issue_pause_def user_effect_def Let_def split: if_splits)

lemma resume_prepare_sync:
  assumes "fw_resume_prepare a c = (sts, rp, c')" "pause_sync c"
  shows "pause_sync c'" "if sts = BC_STS_SUCCESS then \<not> paused c' \<and> rp = paused c else paused c' = paused c"
  using assms by (auto simp: fw_resume_prepare_def issue_pause_def pause_sync_def paused_def Let_def split: if_splits)

lemma do_cmd_effect:
  assumes "do_firmware_cmd a w c = (sts, c')"
  shows "keeps c c'" "dc_fw c' = wo_mail (fa_world a)" "dc_log c' = dc_log c @ [Fw_Command w (fa_sts a)]"
    "cmd_state (dc_cmd c') = cmd_state (dc_cmd c)" "dc_paused c' = dc_paused c" "sts = fa_sts a"
  using assms by (auto simp: do_firmware_cmd_def)

text \<open>A pause or resume command in a transaction.\<close>

lemma pause_cases:
  assumes w: "w ! 0 = eCMD_C011_DEC_CHAN_PAUSE" and b: "fw_exec_body a g owner w c = (sts, rsp, c')"
  obtains (idle) "\<not> has_flag (cmd_state (dc_cmd c)) BC_LINK_INIT" "c' = c" "sts = BC_STS_ERR_USAGE"
  | (unprepared) s1 rp where "w ! 3 = 0" "fw_resume_prepare a c = (s1, rp, c')" "s1 \<noteq> BC_STS_SUCCESS" "sts = s1"
  | (resume) rp c1 c2 where "w ! 3 = 0" "fw_resume_prepare a c = (BC_STS_SUCCESS, rp, c1)" "do_firmware_cmd a w c1 = (sts, c2)"
      "c' = (if sts \<noteq> BC_STS_SUCCESS \<and> rp then (set_state (\<lambda>s. s OR BC_LINK_PAUSED) c2)\<lparr>dc_paused := Some True\<rparr> else c2)"
  | (pause) s2 c2 where "w ! 3 \<noteq> 0" "do_firmware_cmd a w c = (s2, c2)" "sts = (if s2 \<noteq> BC_STS_SUCCESS then s2 else fa_pause a True)"
      "c' = (if s2 \<noteq> BC_STS_SUCCESS then c2 else (set_state (\<lambda>s. s OR BC_LINK_PAUSED) c2)\<lparr>dc_paused := Some True\<rparr>)"
proof -
  consider "\<not> has_flag (cmd_state (dc_cmd c)) BC_LINK_INIT" | "has_flag (cmd_state (dc_cmd c)) BC_LINK_INIT" "w ! 3 = 0"
    | "has_flag (cmd_state (dc_cmd c)) BC_LINK_INIT" "w ! 3 \<noteq> 0" by blast
  then show ?thesis
  proof cases
    case 1
    then have "(sts, rsp, c') = (BC_STS_ERR_USAGE, replicate BC_MAX_FW_CMD_BUFF_SZ 0, c)"
      unfolding b [symmetric] by (simp add: fw_exec_body_def)
    then show ?thesis using 1 by (intro idle) simp_all
  next
    case 2
    obtain s1 rp c1 where p: "fw_resume_prepare a c = (s1, rp, c1)" by (cases "fw_resume_prepare a c")
    obtain s2 c2 where d: "do_firmware_cmd a w c1 = (s2, c2)" by (cases "do_firmware_cmd a w c1")
    have E: "(sts, rsp, c') = (if s1 \<noteq> BC_STS_SUCCESS then (s1, replicate BC_MAX_FW_CMD_BUFF_SZ 0, c1)
        else if s2 \<noteq> BC_STS_SUCCESS then (s2, fa_rsp a, if rp then snd (issue_pause a True (set_state (\<lambda>s. s OR BC_LINK_PAUSED) c2)) else c2)
        else (BC_STS_SUCCESS, fa_rsp a, c2))"
      unfolding b [symmetric] fw_exec_body_def Let_def using 2 w p d by simp
    show ?thesis
    proof (cases "s1 = BC_STS_SUCCESS")
      case False
      then show ?thesis using E 2 p by (intro unprepared [of s1 rp]) simp_all
    next
      case True
      then show ?thesis using E 2 p d by (intro resume [of rp c1 c2]) (simp_all add: issue_pause_def split: if_splits)
    qed
  next
    case 3
    obtain s2 c2 where d: "do_firmware_cmd a w c = (s2, c2)" by (cases "do_firmware_cmd a w c")
    have E: "(sts, rsp, c') = (if s2 \<noteq> BC_STS_SUCCESS then (s2, fa_rsp a, c2)
        else (fa_pause a True, fa_rsp a, (set_state (\<lambda>s. s OR BC_LINK_PAUSED) c2)\<lparr>dc_paused := Some True\<rparr>))"
      unfolding b [symmetric] fw_exec_body_def Let_def using 3 w d by (simp add: issue_pause_def)
    then show ?thesis using 3 d by (intro pause [of s2 c2]) (simp_all split: if_splits)
  qed
qed

lemma pause_effect:
  assumes "w ! 0 = eCMD_C011_DEC_CHAN_PAUSE" "fw_exec_body a g owner w c = (sts, rsp, c')"
  shows "user_effect a w c c'"
proof (cases rule: pause_cases [OF assms, case_names idle unprepared resume pause])
  case idle
  then show ?thesis by (simp add: user_effect_def)
next
  case (unprepared s1 rp)
  then show ?thesis using resume_prepare_effect(1) by blast
next
  case (resume rp c1 c2)
  have "user_effect a w c c2"
    using resume_prepare_effect(1) [OF resume(2), of w] resume_prepare_effect(2) [OF resume(2)] do_cmd_effect [OF resume(3)] keeps_trans
    by (auto simp: user_effect_def)
  then show ?thesis using resume(4) by (simp add: user_effect_def)
next
  case (pause s2 c2)
  then show ?thesis using do_cmd_effect [OF pause(2)] by (simp add: user_effect_def)
qed

lemma pause_outcome:
  assumes "w ! 0 = eCMD_C011_DEC_CHAN_PAUSE" "fw_exec_body a g owner w c = (sts, rsp, c')" and sync: "pause_sync c"
  shows "pause_sync c' \<and> (if sts = BC_STS_SUCCESS then paused c' = (w ! 3 \<noteq> 0) else paused c \<longrightarrow> paused c')"
proof (cases rule: pause_cases [OF assms(1,2), case_names idle unprepared resume pause])
  case idle
  then show ?thesis using sync by simp
next
  case (unprepared s1 rp)
  then show ?thesis using resume_prepare_sync [OF unprepared(2) sync] by simp
next
  case (resume rp c1 c2)
  note P = resume_prepare_sync [OF resume(2) sync, simplified] and D = do_cmd_effect [OF resume(3)]
  have "\<not> paused c2" "pause_sync c2" using P D by (simp_all add: paused_def pause_sync_def)
  then show ?thesis using resume P by (auto simp: paused_def pause_sync_def)
next
  case (pause s2 c2)
  then show ?thesis using do_cmd_effect [OF pause(2)] sync by (auto simp: paused_def pause_sync_def)
qed

text \<open>Any command of the user.\<close>

lemma user_exec:
  assumes inv: "chan_inv c" and ok: "world_ok (fa_world a)" and w: "w ! 0 \<notin> own_commands"
  shows "\<exists>sts rsp c'. crystalhd_fw_exec_locked t a (Some c) owner (Some w) = Some (sts, rsp, Some c') \<and> chan_inv c'"
proof -
  have free: "mail_free c" using inv by (simp add: chan_inv_def)
  have eff: "chan_inv c'" if "keeps c c'" "mail_free c'" "dc_log c' = dc_log c \<or> dc_log c' = dc_log c @ [Fw_Command w (fa_sts a)]"
    "has_flag (cmd_state (dc_cmd c)) BC_LINK_INIT \<longrightarrow> has_flag (cmd_state (dc_cmd c')) BC_LINK_INIT" for c'
  proof -
    have "dev_of (dc_log c') = dev_of (dc_log c)" using that(3) w by auto
    then show ?thesis using inv that(1,2,4) by (auto simp: chan_inv_def keeps_def)
  qed
  show ?thesis
  proof (cases "w ! 0 = eCMD_C011_DEC_CHAN_PAUSE")
    case False
    show ?thesis
    proof (cases rule: exec_cases [OF free ok False, of t owner, case_names refused posted])
      case (refused sts f)
      then show ?thesis using inv_refused [OF _ _ inv] by auto
    next
      case (posted sts c')
      then show ?thesis using eff [of c'] by auto
    qed
  next
    case True
    obtain sts f where e: "crystalhd_hw_fw_cmd_enter t (fa_interrupted a) (fw_view c) = Some (sts, f)" "fw_mutex f = None"
      "sts \<noteq> BC_STS_SUCCESS \<Longrightarrow> fw_trans_mutex f = None" using enter_run [OF free] by metis
    let ?c = "c\<lparr>dc_fw := f\<rparr>" and ?z = "replicate BC_MAX_FW_CMD_BUFF_SZ 0 :: u32 list"
    obtain s r c1 where b: "fw_exec_body a (dc_generation c) owner w ?c = (s, r, c1)"
      by (cases "fw_exec_body a (dc_generation c) owner w ?c")
    have u: "user_effect a w ?c c1" by (rule pause_effect [OF True b])
    then have "chan_inv (c1\<lparr>dc_fw := crystalhd_hw_fw_cmd_leave (dc_fw c1)\<rparr>)"
      using e(2) ok by (intro eff) (auto simp: user_effect_def keeps_left mail_free_def world_ok_def)
    moreover have "sts \<noteq> BC_STS_SUCCESS \<longrightarrow> chan_inv (c\<lparr>dc_fw := f\<rparr>)" using inv_refused [OF _ _ inv] e by auto
    moreover have "crystalhd_fw_exec_locked t a (Some c) owner (Some w) =
      (if \<not> has_device c \<or> \<not> dc_ops c \<or> owner = None then Some (BC_STS_INV_ARG, ?z, Some c)
       else if crystalhd_session_require_owner (Some c) owner \<noteq> BC_STS_SUCCESS
       then Some (crystalhd_session_require_owner (Some c) owner, ?z, Some c)
       else if sts \<noteq> BC_STS_SUCCESS then Some (sts, ?z, Some ?c)
       else Some (s, r, Some (c1\<lparr>dc_fw := crystalhd_hw_fw_cmd_leave (dc_fw c1)\<rparr>)))"
      unfolding crystalhd_fw_exec_locked_def Let_def using e(1) b by simp
    ultimately show ?thesis using inv by simp
  qed
qed

definition chan_step :: "thread \<Rightarrow> nat option \<times> chan_op \<Rightarrow> decoder_ctx \<Rightarrow> (rc \<times> decoder_ctx) option" where
  "chan_step t = (\<lambda>(owner, op) c. do { (rc, ctx) \<leftarrow> chan_exec t owner op (Some c); c' \<leftarrow> ctx; Some (rc, c') })"

lemma chan_step_inv:
  assumes "chan_inv c" "chan_op_ok (snd op)"
  shows "\<exists>rc c'. chan_step t op c = Some (rc, c') \<and> chan_inv c'"
proof -
  obtain owner o' where op: "op = (owner, o')" by (cases op)
  have "\<exists>rc c'. chan_exec t owner o' (Some c) = Some (rc, Some c') \<and> chan_inv c'"
  proof (cases o')
    case (Ch_Bootstrap la a)
    then show ?thesis using bootstrap_inv [of c la a t owner] assms op by fastforce
  next
    case (Ch_Open kz coh a1 a2)
    then show ?thesis using open_inv assms op by simp
  next
    case (Ch_Start a1 a2)
    then show ?thesis using start_inv assms op by simp
  next
    case (Ch_Stop a)
    then show ?thesis using stop_inv assms op by simp
  next
    case (Ch_Close a)
    then show ?thesis using close_inv assms op by simp
  next
    case (Ch_Exec a w)
    then show ?thesis using user_exec [of c a w t owner] assms op by auto
  qed
  then show ?thesis by (auto simp: chan_step_def op)
qed

interpretation channel: call_history "chan_step t" "\<lambda>op. chan_op_ok (snd op)" chan_inv for t
  using chan_step_inv by unfold_locales blast

section \<open>A willing firmware\<close>

text \<open>A context that may talk to an idle mailbox, and answers without a failure.\<close>

definition chan_ready :: "decoder_ctx \<Rightarrow> nat option \<Rightarrow> bool" where
  "chan_ready c owner \<longleftrightarrow> channel_guard c owner = rc_ok \<and> cmd_state (dc_cmd c) = BC_LINK_INIT \<and> mail_free c \<and>
    \<not> fw_poisoned (dc_fw c) \<and> \<not> fw_pending (dc_fw c) \<and> \<not> dma_fault c"

definition fw_willing :: "fw_answer \<Rightarrow> bool" where
  "fw_willing a \<longleftrightarrow> \<not> fa_interrupted a \<and> fa_sts a = BC_STS_SUCCESS \<and> wo_present (fa_world a) \<and> \<not> wo_dma_fault (fa_world a) \<and>
    world_ok (fa_world a) \<and> \<not> fw_poisoned (wo_mail (fa_world a)) \<and> \<not> fw_pending (wo_mail (fa_world a))"

lemma after_flags: "present (after w c) = (wo_present w \<and> cmd_adp (dc_cmd c) \<noteq> None)"
  "dma_fault (after w c) = (wo_dma_fault w \<and> cmd_hw_ctx (dc_cmd c) \<noteq> None)"
  by (auto simp: present_def dma_fault_def after_def set_present_def split: option.split)

lemma exec_willing:
  assumes r: "chan_ready c owner" and o: "owner \<noteq> None" and a: "fw_willing a"
    and w: "w ! 0 \<noteq> eCMD_C011_DEC_CHAN_PAUSE" "w ! 0 \<noteq> eCMD_C011_INIT"
  obtains c' where "crystalhd_fw_exec_locked t a (Some c) owner (Some w) = Some (BC_STS_SUCCESS, fa_rsp a, Some c')"
    "chan_ready c' owner" "keeps c c'" "dc_log c' = dc_log c @ [Fw_Command w BC_STS_SUCCESS]" "present c'"
proof -
  have R: "has_device c" "dc_ops c" "present c" "cmd_session_owner (dc_cmd c) = owner" "cmd_state (dc_cmd c) = BC_LINK_INIT" "mail_free c"
    "\<not> dma_fault c" "\<not> fw_poisoned (dc_fw c)" "\<not> fw_pending (dc_fw c)" "device_id c = Some BC_PCI_DEVID_FLEA"
    using r by (auto simp: chan_ready_def channel_guard_def split: if_splits)
  have adp: "cmd_adp (dc_cmd c) \<noteq> None" using R(3) by (auto simp: present_def split: option.splits)
  have ok: "world_ok (fa_world a)" using a by (simp add: fw_willing_def)
  show ?thesis
  proof (cases rule: exec_cases [OF R(6) ok w(1), of t owner, case_names refused posted])
    case (refused sts f)
    obtain f' where e: "crystalhd_hw_fw_cmd_enter t (fa_interrupted a) (fw_view c) = Some (BC_STS_SUCCESS, f')"
      using enter_run [OF R(6), of t "fa_interrupted a"] a R by (metis fw_willing_def)
    have "crystalhd_session_require_owner (Some c) owner = BC_STS_SUCCESS"
      using adp o R(4) by (simp add: crystalhd_session_require_owner_def)
    then have "fst (fw_exec_body a (dc_generation c) owner w (c\<lparr>dc_fw := f'\<rparr>)) = sts"
      using refused(1) R(1,2) o e unfolding crystalhd_fw_exec_locked_def Let_def
      by (auto split: prod.splits)
    then have "sts = fa_sts a"
    proof (cases rule: body_cases [OF w(1), of a "dc_generation c" owner "c\<lparr>dc_fw := f'\<rparr>", case_names idle posted])
      case idle
      then show ?thesis using R(5) by (simp add: has_flag_def)
    qed (use w in auto)
    then show ?thesis using refused(2) a by (simp add: fw_willing_def)
  next
    case (posted sts c')
    have s: "sts = BC_STS_SUCCESS" "cmd_state (dc_cmd c') = BC_LINK_INIT" using posted(9) w a R(5) by (simp_all add: fw_willing_def)
    have pr: "present c'" "\<not> dma_fault c'" using posted(6,7) a adp by (simp_all add: after_flags fw_willing_def)
    have "\<not> fw_poisoned (dc_fw c')" "\<not> fw_pending (dc_fw c')"
      using posted(11) a by (simp_all add: crystalhd_hw_fw_cmd_leave_def fw_willing_def)
    then have "chan_ready c' owner" using posted(2,3) s pr R o by (simp add: chan_ready_def channel_guard_def keeps_def)
    then show ?thesis using that posted s pr a by (simp add: fw_willing_def)
  qed
qed


lemma ready_set_cmd:
  assumes "\<And>m. cmd_adp (f m) = cmd_adp m" "\<And>m. cmd_hw_ctx (f m) = cmd_hw_ctx m" "\<And>m. cmd_session_owner (f m) = cmd_session_owner m"
    "\<And>m. cmd_state (f m) = cmd_state m"
  shows "chan_ready (set_cmd f c) owner = chan_ready c owner"
  using assms
  by (simp add: chan_ready_def channel_guard_def has_device_def device_id_def present_def dma_fault_def)

lemma ready_color: "chan_ready (c\<lparr>dc_color := x\<rparr>) owner = chan_ready c owner"
  by (simp add: chan_ready_def channel_guard_def has_device_def device_id_def present_def dma_fault_def)

text \<open>Two commands in a row, each with the next sequence number.\<close>

lemma exec_next_willing:
  assumes r: "chan_ready c owner" and o: "owner \<noteq> None" and a: "fw_willing a"
    and w: "\<And>seq. w seq ! 0 \<noteq> eCMD_C011_DEC_CHAN_PAUSE" "\<And>seq. w seq ! 0 \<noteq> eCMD_C011_INIT" and n: "cmd_fw_sequence (dc_cmd c) + 1 = n"
  obtains c1 c' where "next_sequence c = (n, c1)" "keeps (set_cmd (\<lambda>m. m\<lparr>cmd_fw_sequence := n\<rparr>) c) c'"
    "c1 = set_cmd (\<lambda>m. m\<lparr>cmd_fw_sequence := n\<rparr>) c"
    "crystalhd_fw_exec_locked t a (Some c1) owner (Some (w n)) = Some (BC_STS_SUCCESS, fa_rsp a, Some c')"
    "chan_ready c' owner" "dc_log c' = dc_log c @ [Fw_Command (w n) BC_STS_SUCCESS]" "present c'"
proof -
  let ?c1 = "set_cmd (\<lambda>m. m\<lparr>cmd_fw_sequence := n\<rparr>) c"
  have "chan_ready ?c1 owner" using r by (simp add: ready_set_cmd)
  from exec_willing [OF this o a w(1) [of n] w(2) [of n], of t] obtain c' where
    "crystalhd_fw_exec_locked t a (Some ?c1) owner (Some (w n)) = Some (BC_STS_SUCCESS, fa_rsp a, Some c')"
    "chan_ready c' owner" "keeps ?c1 c'" "dc_log c' = dc_log ?c1 @ [Fw_Command (w n) BC_STS_SUCCESS]" "present c'" by blast
  then show ?thesis using n by (intro that [of ?c1 c']) (simp_all add: next_sequence_def Let_def)
qed

section \<open>Properties\<close>

text \<open>
  C4: What the driver believes of the firmware is what the firmware acknowledged. From a cold decoder,
  whatever sequence of bootstrap, open, start, stop, close and user commands follows, by whichever
  owner, and whatever the firmware answers or happens to the device, every call returns, and the local
  phase is bootstrapped, configured or started only if the commands given to the firmware and its
  answers since the last load leave the channel exactly so. A configured or started channel has its
  codec, channel 0 and a stage for its input.
\<close>

theorem channel_phase_sound:
  assumes "cmd_decoder_phase (dc_cmd c) = CRYSTALHD_DECODER_COLD" "mail_free c" "\<forall>op\<in>set ops. chan_op_ok (snd op)"
  shows "\<exists>rcs c'. run_ops (chan_step t) ops c = Some (rcs, c') \<and> length rcs = length ops \<and>
    (\<forall>v. phase_view (cmd_decoder_phase (dc_cmd c')) = Some v \<longrightarrow> dev_of (dc_log c') = v) \<and>
    (has_channel (cmd_decoder_phase (dc_cmd c')) \<longrightarrow>
       cmd_decoder_codec (dc_cmd c') = CRYSTALHD_DECODER_CODEC_H264 \<and> cmd_decoder_channel_id (dc_cmd c') = 0 \<and>
       cmd_stream (dc_cmd c') \<noteq> None)"
proof -
  have "chan_inv c" using assms(1,2) by (simp add: chan_inv_def has_channel_def)
  from channel.run_total [OF this assms(3)] show ?thesis unfolding chan_inv_def by blast
qed

text \<open>
  C31: A failed bootstrap leaves no trace but the need to load again. Link state and power state are as
  before, the decoder is in recovery or in the phase it had, and if firmware could be loaded before it
  can be loaded again.
\<close>

theorem bootstrap_rollback_restores:
  assumes "chan_inv c" "world_ok (la_world la)" "world_ok (fa_world a)"
  shows "\<exists>rc c'. crystalhd_fw_bootstrap_locked t la a (Some c) owner = Some (rc, Some c') \<and>
    (if rc = rc_ok then cmd_decoder_phase (dc_cmd c') = CRYSTALHD_DECODER_BOOTSTRAPPED
     else cmd_state (dc_cmd c') = cmd_state (dc_cmd c) \<and> dc_pwr_state_change c' = dc_pwr_state_change c \<and>
       (cmd_decoder_phase (dc_cmd c') = CRYSTALHD_DECODER_RECOVERY_REQUIRED \<or> cmd_decoder_phase (dc_cmd c') = cmd_decoder_phase (dc_cmd c)) \<and>
       (load_admitted c \<longrightarrow> load_admitted c'))"
proof -
  obtain rc c' where b: "crystalhd_fw_bootstrap_locked t la a (Some c) owner = Some (rc, Some c')"
    "rc \<noteq> rc_ok \<longrightarrow> cmd_state (dc_cmd c') = cmd_state (dc_cmd c) \<and> dc_pwr_state_change c' = dc_pwr_state_change c \<and>
       (cmd_decoder_phase (dc_cmd c') = CRYSTALHD_DECODER_RECOVERY_REQUIRED \<or> cmd_decoder_phase (dc_cmd c') = cmd_decoder_phase (dc_cmd c))"
    "rc = rc_ok \<longrightarrow> cmd_decoder_phase (dc_cmd c') = CRYSTALHD_DECODER_BOOTSTRAPPED"
    using bootstrap_inv [OF assms] by blast
  have "rc \<noteq> rc_ok \<longrightarrow> load_admitted c \<longrightarrow> load_admitted c'" using b(2) by (auto simp: load_admitted_def)
  then show ?thesis using b by (intro exI [of _ rc] exI [of _ c']) simp
qed

text \<open>
  C34: Pause and resume fail closed. When the pause flag agrees with what the capture engine was last told,
  it does so after any pause or resume command; a command reported successful leaves exactly the
  state it asked for, and one that failed, in the local step or in the firmware, never leaves a
  paused capture running.
\<close>

theorem pause_fails_closed:
  assumes "crystalhd_fw_exec_locked t a (Some c) owner (Some w) = Some (sts, rsp, Some c')"
    and w: "w ! 0 = eCMD_C011_DEC_CHAN_PAUSE" and sync: "pause_sync c"
  shows "pause_sync c' \<and> (if sts = BC_STS_SUCCESS then paused c' = (w ! 3 \<noteq> 0) else paused c \<longrightarrow> paused c')"
proof -
  have fw: "pause_sync (d\<lparr>dc_fw := f\<rparr>) = pause_sync d" "paused (d\<lparr>dc_fw := f\<rparr>) = paused d" for d f
    by (simp_all add: pause_sync_def paused_def)
  show ?thesis
  proof (cases "\<not> has_device c \<or> \<not> dc_ops c \<or> owner = None \<or> crystalhd_session_require_owner (Some c) owner \<noteq> BC_STS_SUCCESS")
    case True
    then have "c' = c \<and> sts \<noteq> BC_STS_SUCCESS"
      using assms(1) unfolding crystalhd_fw_exec_locked_def Let_def by (auto split: if_splits)
    then show ?thesis using sync by simp
  next
    case False
    then have E: "do { (sts, f) \<leftarrow> crystalhd_hw_fw_cmd_enter t (fa_interrupted a) (fw_view c);
        (if sts \<noteq> BC_STS_SUCCESS then Some (sts, replicate BC_MAX_FW_CMD_BUFF_SZ 0, Some (c\<lparr>dc_fw := f\<rparr>))
         else let (sts, rsp, c1) = fw_exec_body a (dc_generation c) owner w (c\<lparr>dc_fw := f\<rparr>)
              in Some (sts, rsp, Some (c1\<lparr>dc_fw := crystalhd_hw_fw_cmd_leave (dc_fw c1)\<rparr>))) } = Some (sts, rsp, Some c')"
      using assms(1) unfolding crystalhd_fw_exec_locked_def Let_def by (auto split: if_splits)
    then obtain s f where en: "crystalhd_hw_fw_cmd_enter t (fa_interrupted a) (fw_view c) = Some (s, f)" by (auto simp: bind_eq_Some_conv)
    show ?thesis
    proof (cases "s = BC_STS_SUCCESS")
      case S: False
      then have "sts = s" "c' = c\<lparr>dc_fw := f\<rparr>" using E en by simp_all
      then show ?thesis using S sync by (simp add: fw)
    next
      case True
      obtain s1 r1 c1 where b: "fw_exec_body a (dc_generation c) owner w (c\<lparr>dc_fw := f\<rparr>) = (s1, r1, c1)"
        by (cases "fw_exec_body a (dc_generation c) owner w (c\<lparr>dc_fw := f\<rparr>)")
      then have "s1 = sts" "c' = c1\<lparr>dc_fw := crystalhd_hw_fw_cmd_leave (dc_fw c1)\<rparr>" using E en True by simp_all
      then show ?thesis using pause_outcome [OF w b] sync by (simp add: fw)
    qed
  qed
qed

lemma open_willing:
  assumes r: "chan_ready c owner" "owner \<noteq> None"
    and p: "cmd_decoder_phase (dc_cmd c) = CRYSTALHD_DECODER_BOOTSTRAPPED" "cmd_stream (dc_cmd c) = None"
    and s: "cmd_fw_sequence (dc_cmd c) = n" "n \<noteq> 0" and a: "fw_willing a1" "fw_willing a2" "fa_rsp a1 ! 3 = 0"
  obtains c1 st where "crystalhd_decoder_channel_open_locked t True (Some coh) a1 a2 (Some c) owner (Some CRYSTALHD_DECODER_CODEC_H264) = Some (rc_ok, Some c1)"
    "chan_ready c1 owner" "present c1" "cmd_fw_sequence (dc_cmd c1) = n + 2" "cmd_decoder_phase (dc_cmd c1) = CRYSTALHD_DECODER_CHANNEL_CONFIGURED"
    "cmd_decoder_channel_id (dc_cmd c1) = 0" "cmd_decoder_codec (dc_cmd c1) = CRYSTALHD_DECODER_CODEC_H264"
    "cmd_stream (dc_cmd c1) = Some st" "\<not> st_failed st" "\<not> st_eos_submitted st"
    "dc_log c1 = dc_log c @ [Fw_Command (fw_open_cmd (n + 1) 0) BC_STS_SUCCESS, Fw_Command (fw_input_params_cmd (n + 2) 0) BC_STS_SUCCESS]"
proof -
  have g: "channel_guard c owner = rc_ok" "cmd_state (dc_cmd c) = BC_LINK_INIT" "\<not> cmd_fw_sequence (dc_cmd c) = 0"
    using r(1) s by (simp_all add: chan_ready_def)
  define st where "st = \<lparr>st_cpu = fst coh, st_dma = snd coh, st_buffer = \<lparr>tb_sgl = [(0, 0)], tb_dma_nents = 1, tb_bytes = 0, tb_tail_addr = 0,
      tb_tail_size = 0, tb_has_cookie = True\<rparr>, st_refs = 1, st_failed = False, st_eos_submitted = False\<rparr>"
  define d0 where "d0 = c\<lparr>dc_cmd := (dc_cmd c)\<lparr>cmd_stream := Some st\<rparr>\<rparr>"
  have hd: "has_device c" using g(1) by (auto simp: channel_guard_def split: if_splits)
  have sp: "crystalhd_stream_prepare True (Some coh) (Some (dc_cmd c)) = (rc_ok, Some ((dc_cmd c)\<lparr>cmd_stream := Some st\<rparr>))"
    using hd p(2) by (cases coh; cases "cmd_adp (dc_cmd c)") (auto simp: crystalhd_stream_prepare_def st_def has_device_def)
  have "d0 = set_cmd (\<lambda>m. m\<lparr>cmd_stream := Some st\<rparr>) c" by (simp add: d0_def set_cmd_def)
  then have d0: "chan_ready d0 owner" "cmd_fw_sequence (dc_cmd d0) + 1 = n + 1" "dc_log d0 = dc_log c"
    using r(1) s(1) by (simp_all add: ready_set_cmd)
  obtain d1 d2 where A: "next_sequence d0 = (n + 1, d1)" "keeps (set_cmd (\<lambda>m. m\<lparr>cmd_fw_sequence := n + 1\<rparr>) d0) d2"
    "d1 = set_cmd (\<lambda>m. m\<lparr>cmd_fw_sequence := n + 1\<rparr>) d0"
    "crystalhd_fw_exec_locked t a1 (Some d1) owner (Some (fw_open_cmd (n + 1) 0)) = Some (BC_STS_SUCCESS, fa_rsp a1, Some d2)"
    "chan_ready d2 owner" "dc_log d2 = dc_log d0 @ [Fw_Command (fw_open_cmd (n + 1) 0) BC_STS_SUCCESS]" "present d2"
    by (rule exec_next_willing [OF d0(1) r(2) a(1) _ _ d0(2), where w = "\<lambda>s. fw_open_cmd s 0" and t = t]) auto
  have n2: "cmd_fw_sequence (dc_cmd d2) + 1 = n + 2" using A(2) by (simp add: keeps_def)
  obtain d3 d4 where B: "next_sequence d2 = (n + 2, d3)" "keeps (set_cmd (\<lambda>m. m\<lparr>cmd_fw_sequence := n + 2\<rparr>) d2) d4"
    "d3 = set_cmd (\<lambda>m. m\<lparr>cmd_fw_sequence := n + 2\<rparr>) d2"
    "crystalhd_fw_exec_locked t a2 (Some d3) owner (Some (fw_input_params_cmd (n + 2) 0)) = Some (BC_STS_SUCCESS, fa_rsp a2, Some d4)"
    "chan_ready d4 owner" "dc_log d4 = dc_log d2 @ [Fw_Command (fw_input_params_cmd (n + 2) 0) BC_STS_SUCCESS]" "present d4"
    by (rule exec_next_willing [OF A(5) r(2) a(2) _ _ n2, where w = "\<lambda>s. fw_input_params_cmd s 0" and t = t]) auto
  define c1 where "c1 = set_cmd (\<lambda>m. m\<lparr>cmd_decoder_channel_id := 0, cmd_decoder_codec := CRYSTALHD_DECODER_CODEC_H264,
      cmd_decoder_phase := CRYSTALHD_DECODER_CHANNEL_CONFIGURED\<rparr>) d4"
  have op: "crystalhd_decoder_channel_open_locked t True (Some coh) a1 a2 (Some c) owner (Some CRYSTALHD_DECODER_CODEC_H264) = Some (rc_ok, Some c1)"
    unfolding crystalhd_decoder_channel_open_locked_def prod.case option.case if_not_P [OF r(2)] sp Let_def
    using g p(1) A(1,4,7) B(1,4,7) a(3) by (simp add: d0_def [symmetric] c1_def)
  show ?thesis
    by (rule that [OF op, of st]) (use A(2,6) B(2,5,6,7) d0(3) in \<open>simp_all add: keeps_def c1_def d0_def st_def ready_set_cmd present_def\<close>)
qed

lemma start_willing:
  assumes r: "chan_ready c owner" "owner \<noteq> None" "present c"
    and p: "cmd_decoder_phase (dc_cmd c) = CRYSTALHD_DECODER_CHANNEL_CONFIGURED" "cmd_decoder_channel_id (dc_cmd c) = 0"
      "cmd_decoder_codec (dc_cmd c) = CRYSTALHD_DECODER_CODEC_H264"
    and s: "cmd_fw_sequence (dc_cmd c) = n" "n \<noteq> 0" and a: "fw_willing a3" "fw_willing a4"
  obtains c2 where "crystalhd_decoder_channel_start_locked t a3 a4 (Some c) owner = Some (rc_ok, Some c2)"
    "chan_ready c2 owner" "cmd_stream (dc_cmd c2) = cmd_stream (dc_cmd c)" "cmd_decoder_phase (dc_cmd c2) = CRYSTALHD_DECODER_CHANNEL_STARTED"
    "cmd_decoder_codec (dc_cmd c2) = CRYSTALHD_DECODER_CODEC_H264" "cmd_decoder_channel_id (dc_cmd c2) = 0" "cmd_fw_sequence (dc_cmd c2) = n + 2"
    "dc_log c2 = dc_log c @ [Fw_Command (fw_activate_cmd (n + 1) 0) BC_STS_SUCCESS, Fw_Command (fw_start_video_cmd (n + 2) 0 0) BC_STS_SUCCESS]"
proof -
  define e0 where "e0 = c\<lparr>dc_color := (dc_color c AND CRYSTALHD_FLEA_COLOR_DRIVER_MASK) OR CRYSTALHD_FLEA_COLOR_YUY2\<rparr>"
  have e0: "chan_ready e0 owner" using r(1) by (simp add: e0_def ready_color)
  have n3: "cmd_fw_sequence (dc_cmd e0) + 1 = n + 1" using s by (simp add: e0_def)
  obtain e1 e2 where C: "next_sequence e0 = (n + 1, e1)" "keeps (set_cmd (\<lambda>m. m\<lparr>cmd_fw_sequence := n + 1\<rparr>) e0) e2"
    "e1 = set_cmd (\<lambda>m. m\<lparr>cmd_fw_sequence := n + 1\<rparr>) e0"
    "crystalhd_fw_exec_locked t a3 (Some e1) owner (Some (fw_activate_cmd (n + 1) 0)) = Some (BC_STS_SUCCESS, fa_rsp a3, Some e2)"
    "chan_ready e2 owner" "dc_log e2 = dc_log e0 @ [Fw_Command (fw_activate_cmd (n + 1) 0) BC_STS_SUCCESS]" "present e2"
    by (rule exec_next_willing [OF e0 r(2) a(1) _ _ n3, where w = "\<lambda>s. fw_activate_cmd s 0" and t = t]) auto
  have n4: "cmd_fw_sequence (dc_cmd e2) + 1 = n + 2" using C(2) by (simp add: keeps_def)
  obtain e3 e4 where D: "next_sequence e2 = (n + 2, e3)" "keeps (set_cmd (\<lambda>m. m\<lparr>cmd_fw_sequence := n + 2\<rparr>) e2) e4"
    "e3 = set_cmd (\<lambda>m. m\<lparr>cmd_fw_sequence := n + 2\<rparr>) e2"
    "crystalhd_fw_exec_locked t a4 (Some e3) owner (Some (fw_start_video_cmd (n + 2) 0 0)) = Some (BC_STS_SUCCESS, fa_rsp a4, Some e4)"
    "chan_ready e4 owner" "dc_log e4 = dc_log e2 @ [Fw_Command (fw_start_video_cmd (n + 2) 0 0) BC_STS_SUCCESS]" "present e4"
    by (rule exec_next_willing [OF C(5) r(2) a(2) _ _ n4, where w = "\<lambda>s. fw_start_video_cmd s 0 0" and t = t]) auto
  define c2 where "c2 = set_cmd (\<lambda>m. m\<lparr>cmd_decoder_phase := CRYSTALHD_DECODER_CHANNEL_STARTED\<rparr>) e4"
  have k: "cmd_decoder_channel_id (dc_cmd e1) = 0" "cmd_decoder_channel_id (dc_cmd e3) = 0" "\<not> dma_fault c"
    using C(2,3) D(3) r(1) p by (auto simp: keeps_def e0_def chan_ready_def)
  have g: "channel_guard c owner = rc_ok" "cmd_state (dc_cmd c) = BC_LINK_INIT" using r(1) by (simp_all add: chan_ready_def)
  have st: "crystalhd_decoder_channel_start_locked t a3 a4 (Some c) owner = Some (rc_ok, Some c2)"
    unfolding crystalhd_decoder_channel_start_locked_def option.case if_not_P [OF r(2)] Let_def
    using g k r(3) p s C(1,4,7) D(1,4,7) by (simp add: e0_def [symmetric] c2_def)
  show ?thesis
    by (rule that [OF st]) (use C(2,6) D(2,5,6) p in \<open>simp_all add: keeps_def c2_def e0_def ready_set_cmd\<close>)
qed

text \<open>
  C24: Opening and starting makes the decoder accept input. On a bootstrapped BCM70015 with an idle
  mailbox and no stage left over, when the stage can be allocated and the firmware answers every command
  with success and channel 0, open and start succeed, the commands are OPEN, INPUT\_PARAMS, ACTIVATE and
  START\_VIDEO with consecutive sequence numbers, and the context then admits H.264 input.
\<close>

theorem open_start_admits_input:
  assumes r: "chan_ready c owner" "owner \<noteq> None"
    and p: "cmd_decoder_phase (dc_cmd c) = CRYSTALHD_DECODER_BOOTSTRAPPED" "cmd_stream (dc_cmd c) = None"
    and s: "cmd_fw_sequence (dc_cmd c) = n" "n \<noteq> 0" "unat n + 4 < 2 ^ 32"
    and a: "fw_willing a1" "fw_willing a2" "fw_willing a3" "fw_willing a4" "fa_rsp a1 ! 3 = 0"
  shows "\<exists>c1 c2. crystalhd_decoder_channel_open_locked t True (Some coh) a1 a2 (Some c) owner (Some CRYSTALHD_DECODER_CODEC_H264) =
      Some (rc_ok, Some c1) \<and>
    crystalhd_decoder_channel_start_locked t a3 a4 (Some c1) owner = Some (rc_ok, Some c2) \<and>
    crystalhd_decoder_validate_h264_locked (Some (dc_cmd c2)) owner = rc_ok \<and>
    dc_log c2 = dc_log c @ [Fw_Command (fw_open_cmd (n + 1) 0) BC_STS_SUCCESS, Fw_Command (fw_input_params_cmd (n + 2) 0) BC_STS_SUCCESS,
      Fw_Command (fw_activate_cmd (n + 3) 0) BC_STS_SUCCESS, Fw_Command (fw_start_video_cmd (n + 4) 0 0) BC_STS_SUCCESS]"
proof -
  have nz: "n + k \<noteq> 0" if "k = 2 \<or> k = 4" for k
  proof -
    have "unat (n + k) = unat n + unat k" using s(3) that by (auto simp: unat_word_ariths)
    then show ?thesis using that by auto
  qed
  obtain c1 st where o: "crystalhd_decoder_channel_open_locked t True (Some coh) a1 a2 (Some c) owner (Some CRYSTALHD_DECODER_CODEC_H264) = Some (rc_ok, Some c1)"
    and c1: "chan_ready c1 owner" "present c1" "cmd_fw_sequence (dc_cmd c1) = n + 2" "cmd_decoder_phase (dc_cmd c1) = CRYSTALHD_DECODER_CHANNEL_CONFIGURED"
    "cmd_decoder_channel_id (dc_cmd c1) = 0" "cmd_decoder_codec (dc_cmd c1) = CRYSTALHD_DECODER_CODEC_H264" "cmd_stream (dc_cmd c1) = Some st"
    and st: "\<not> st_failed st" "\<not> st_eos_submitted st"
    and l1: "dc_log c1 = dc_log c @ [Fw_Command (fw_open_cmd (n + 1) 0) BC_STS_SUCCESS, Fw_Command (fw_input_params_cmd (n + 2) 0) BC_STS_SUCCESS]"
    by (rule open_willing [OF r p s(1,2) a(1,2,5), of t coh])
  obtain c2 where t: "crystalhd_decoder_channel_start_locked t a3 a4 (Some c1) owner = Some (rc_ok, Some c2)"
    and c2: "chan_ready c2 owner" "cmd_stream (dc_cmd c2) = cmd_stream (dc_cmd c1)" "cmd_decoder_phase (dc_cmd c2) = CRYSTALHD_DECODER_CHANNEL_STARTED"
    "cmd_decoder_codec (dc_cmd c2) = CRYSTALHD_DECODER_CODEC_H264" "cmd_decoder_channel_id (dc_cmd c2) = 0" "cmd_fw_sequence (dc_cmd c2) = n + 2 + 2"
    "dc_log c2 = dc_log c1 @ [Fw_Command (fw_activate_cmd (n + 2 + 1) 0) BC_STS_SUCCESS, Fw_Command (fw_start_video_cmd (n + 2 + 2) 0 0) BC_STS_SUCCESS]"
    by (rule start_willing [OF c1(1) r(2) c1(2,4,5,6,3) nz [of 2] a(3,4), of t]) simp
  have z: "(1 :: u32) AND NOT (1 OR 2 OR 4) = 0" by code_simp
  have "crystalhd_decoder_validate_h264_locked (Some (dc_cmd c2)) owner = rc_ok"
    using c2(1-6) c1(7) r(2) nz [of 4] z st
    by (auto simp: crystalhd_decoder_validate_h264_locked_def Let_def chan_ready_def channel_guard_def has_device_def device_id_def
        present_def dma_fault_def add.commute [of 4] split: if_splits option.splits)
  then show ?thesis using o t l1 c2(7) by (simp add: add.assoc)
qed


section \<open>Witnesses\<close>

definition demo_mail :: fw_state where
  "demo_mail = \<lparr>fw_trans_mutex = None, fw_mutex = None, fw_trans_active = False, fw_pending = False, fw_active = False,
     fw_poisoned = False, fw_evt_sts = False, fw_cmd_cnt = 0, fw_dma_fault = False, fw_present = True, fw_wakes = 0\<rparr>"

definition demo_answer :: "bc_status \<Rightarrow> fw_answer" where
  "demo_answer sts = \<lparr>fa_interrupted = False, fa_fetch_interrupted = False, fa_pause = (\<lambda>_. BC_STS_SUCCESS), fa_sts = sts,
     fa_rsp = replicate 64 0,
     fa_world = \<lparr>wo_present = True, wo_dma_fault = False, wo_generation = 1, wo_mail = demo_mail\<rparr>\<rparr>"

definition demo_load :: load_answer where
  "demo_load = \<lparr>la_request = Inr (0x1000, replicate 24 0), la_present = True, la_interrupted = False, la_sts = BC_STS_SUCCESS,
     la_world = \<lparr>wo_present = True, wo_dma_fault = False, wo_generation = 1, wo_mail = demo_mail\<rparr>\<rparr>"

definition demo_cold :: decoder_ctx where
  "demo_cold = \<lparr>dc_cmd = \<lparr>cmd_state = 0,
       cmd_adp = Some \<lparr>adp_pdev_device = Some 0x1615, adp_present = True, adp_dma_terminal_quiesced = False\<rparr>,
       cmd_session_owner = Some 7, cmd_decoder_phase = CRYSTALHD_DECODER_COLD,
       cmd_decoder_codec = CRYSTALHD_DECODER_CODEC_INVALID, cmd_fw_sequence = 0, cmd_decoder_channel_id = 0,
       cmd_stream = None, cmd_hw_ctx = Some \<lparr>hwf_dma_fault = False\<rparr>\<rparr>,
     dc_ops = True, dc_pwr_state_change = 0, dc_cin_wait_exit = 0, dc_generation = 1, dc_fw = demo_mail, dc_paused = None,
     dc_color = 0, dc_log = []\<rparr>"

definition demo_boot :: decoder_ctx where
  "demo_boot = demo_cold\<lparr>dc_cmd := (dc_cmd demo_cold)\<lparr>cmd_state := 1, cmd_decoder_phase := CRYSTALHD_DECODER_BOOTSTRAPPED,
     cmd_fw_sequence := 1\<rparr>\<rparr>"

lemmas demo_chan_defs = demo_mail_def demo_answer_def demo_load_def demo_cold_def demo_boot_def

theorem channel_phase_sound_witness:
  "\<exists>rcs c'. run_ops (chan_step 3) [(Some 7, Ch_Bootstrap demo_load (demo_answer BC_STS_SUCCESS)),
       (Some 7, Ch_Open True (Some (replicate 0xfff8 0, 0x10000)) (demo_answer BC_STS_SUCCESS) (demo_answer BC_STS_TIMEOUT))] demo_cold =
     Some (rcs, c') \<and> length rcs = 2 \<and>
    (\<forall>v. phase_view (cmd_decoder_phase (dc_cmd c')) = Some v \<longrightarrow> dev_of (dc_log c') = v)"
proof -
  have c: "cmd_decoder_phase (dc_cmd demo_cold) = CRYSTALHD_DECODER_COLD" "mail_free demo_cold"
    by (simp_all add: demo_chan_defs mail_free_def)
  have o: "\<forall>op\<in>set [(Some 7, Ch_Bootstrap demo_load (demo_answer BC_STS_SUCCESS)),
       (Some (7::nat), Ch_Open True (Some (replicate 0xfff8 0, 0x10000)) (demo_answer BC_STS_SUCCESS) (demo_answer BC_STS_TIMEOUT))]. chan_op_ok (snd op)"
    by (simp add: demo_chan_defs world_ok_def)
  from channel_phase_sound [OF c o, of 3] show ?thesis by (auto simp del: run_ops.simps)
qed

theorem bootstrap_rollback_restores_witness:
  "\<exists>rc c'. crystalhd_fw_bootstrap_locked 3 demo_load (demo_answer BC_STS_TIMEOUT) (Some demo_cold) (Some 7) = Some (rc, Some c') \<and>
    (rc \<noteq> rc_ok \<longrightarrow> cmd_state (dc_cmd c') = 0 \<and> load_admitted c')"
proof -
  have c: "chan_inv demo_cold" "world_ok (la_world demo_load)" "world_ok (fa_world (demo_answer BC_STS_TIMEOUT))"
    by (simp_all add: chan_inv_def mail_free_def has_channel_def world_ok_def demo_chan_defs)
  have s: "cmd_state (dc_cmd demo_cold) = 0" "load_admitted demo_cold" by (simp_all add: demo_chan_defs load_admitted_def)
  from bootstrap_rollback_restores [OF c, of 3 "Some 7"] s show ?thesis by auto
qed

theorem pause_fails_closed_witness:
  "\<exists>sts rsp c'. crystalhd_fw_exec_locked 3 (demo_answer BC_STS_TIMEOUT)
      (Some (set_state (\<lambda>_. BC_LINK_INIT OR BC_LINK_PAUSED) demo_boot)) (Some 7) (Some (fw_words [(0, eCMD_C011_DEC_CHAN_PAUSE)])) =
      Some (sts, rsp, Some c') \<and> sts = BC_STS_TIMEOUT \<and> paused c'"
proof -
  let ?c = "set_state (\<lambda>_. BC_LINK_INIT OR BC_LINK_PAUSED) demo_boot" and ?w = "fw_words [(0, eCMD_C011_DEC_CHAN_PAUSE)]"
  have w: "?w ! 0 = eCMD_C011_DEC_CHAN_PAUSE" by (simp add: fw_words_def)
  have p: "pause_sync ?c" "paused ?c" by (simp_all add: pause_sync_def paused_def demo_chan_defs has_flag_def)
  have "do { (sts, rsp, c) \<leftarrow> crystalhd_fw_exec_locked 3 (demo_answer BC_STS_TIMEOUT) (Some ?c) (Some 7) (Some ?w); d \<leftarrow> c; Some sts } = Some BC_STS_TIMEOUT"
    by code_simp
  then obtain rsp c' where x: "crystalhd_fw_exec_locked 3 (demo_answer BC_STS_TIMEOUT) (Some ?c) (Some 7) (Some ?w) = Some (BC_STS_TIMEOUT, rsp, Some c')"
    by (auto simp: bind_eq_Some_conv)
  from pause_fails_closed [OF x w p(1)] p(2) x show ?thesis by auto
qed

theorem open_start_admits_input_witness:
  "\<exists>c1 c2. crystalhd_decoder_channel_open_locked 3 True (Some (replicate 0xfff8 0, 0x10000)) (demo_answer BC_STS_SUCCESS)
      (demo_answer BC_STS_SUCCESS) (Some demo_boot) (Some 7) (Some CRYSTALHD_DECODER_CODEC_H264) = Some (rc_ok, Some c1) \<and>
    crystalhd_decoder_channel_start_locked 3 (demo_answer BC_STS_SUCCESS) (demo_answer BC_STS_SUCCESS) (Some c1) (Some 7) = Some (rc_ok, Some c2) \<and>
    crystalhd_decoder_validate_h264_locked (Some (dc_cmd c2)) (Some 7) = rc_ok"
proof -
  have r: "chan_ready demo_boot (Some 7)" "Some (7::nat) \<noteq> None" "cmd_decoder_phase (dc_cmd demo_boot) = CRYSTALHD_DECODER_BOOTSTRAPPED"
    "cmd_stream (dc_cmd demo_boot) = None" "cmd_fw_sequence (dc_cmd demo_boot) = 1" "(1::u32) \<noteq> 0" "unat (1::u32) + 4 < 2 ^ 32"
    by (simp_all add: chan_ready_def channel_guard_def has_device_def device_id_def present_def dma_fault_def mail_free_def demo_chan_defs)
  have w: "fw_willing (demo_answer BC_STS_SUCCESS)" by (simp add: fw_willing_def world_ok_def demo_chan_defs)
  have z: "fa_rsp (demo_answer BC_STS_SUCCESS) ! 3 = 0" by (simp add: demo_chan_defs)
  from open_start_admits_input [OF r w w w w z, of 3 "(replicate 0xfff8 0, 0x10000)"] show ?thesis by blast
qed

end
