(* ===== verification/V4l2_Decoder.thy ===== *)
theory V4l2_Decoder
  imports V4l2_Output H264_Range Decoder_Channel
begin

text \<open>
  The V4L2 decoder session (\<^verbatim>\<open>driver/linux/crystalhd_v4l2_decoder.c\<close>): its phase, its epoch and the
  ledger that correlates access units with decoded pictures. Every access unit gets a token that
  travels through the decoder as its time stamp; a decoded picture brings the token back and is
  given the application's time stamp of its row. Calls are serialised by the frontend, which may
  release its lock between reserving a token and reporting the outcome of the transfer. Pointers
  through which a call returns a value are results here.
\<close>

section \<open>Data\<close>

abbreviation (input) CRYSTALHD_V4L2_TIMESTAMPS :: nat where "CRYSTALHD_V4L2_TIMESTAMPS \<equiv> 256"
abbreviation (input) CRYSTALHD_PICTURE_FLAG_EOS :: u32 where "CRYSTALHD_PICTURE_FLAG_EOS \<equiv> 0x4"
abbreviation (input) CRYSTALHD_PICTURE_FLAG_DECODE_ERROR :: u32 where "CRYSTALHD_PICTURE_FLAG_DECODE_ERROR \<equiv> 0x800"

datatype crystalhd_v4l2_decoder_phase =
  CHD_V4L2_OFF | CHD_V4L2_RUNNING | CHD_V4L2_DRAINING | CHD_V4L2_DRAINED | CHD_V4L2_STOPPED | CHD_V4L2_FAILED

record timestamp_row =
  tr_timestamp :: u64
  tr_token :: u32
  tr_input_range :: chd_h264_range_snapshot

record crystalhd_v4l2_decoder =
  vd_phase :: crystalhd_v4l2_decoder_phase
  vd_epoch :: u64
  vd_next_token :: u32
  vd_count :: u32
  vd_input_parameters :: chd_h264_range_state
  vd_timestamps :: "timestamp_row list"

record crystalhd_rx_metadata =
  md_firmware_timestamp :: u64
  md_picture_number :: u32
  md_picture_flags :: u32
  md_picture_width :: u32
  md_picture_height :: u32
  md_row_width :: u32
  md_pib_line :: u32
  md_first_pixel_word :: u32
  md_valid :: bool
  md_eos_trailer :: bool

definition row_zero :: timestamp_row where
  "row_zero = \<lparr>tr_timestamp = 0, tr_token = 0, tr_input_range = snapshot_zero\<rparr>"

section \<open>Life cycle\<close>

definition crystalhd_v4l2_decoder_init :: crystalhd_v4l2_decoder where
  "crystalhd_v4l2_decoder_init = \<lparr>vd_phase = CHD_V4L2_OFF, vd_epoch = 1, vd_next_token = 1, vd_count = 0,
     vd_input_parameters = range_state_zero, vd_timestamps = replicate CRYSTALHD_V4L2_TIMESTAMPS row_zero\<rparr>"

definition crystalhd_v4l2_decoder_reset :: "crystalhd_v4l2_decoder \<Rightarrow> crystalhd_v4l2_decoder" where
  "crystalhd_v4l2_decoder_reset d =
    (let d1 = d\<lparr>vd_timestamps := replicate CRYSTALHD_V4L2_TIMESTAMPS row_zero, vd_input_parameters := range_state_zero, vd_count := 0\<rparr>
     in if vd_epoch d1 = - 1 then d1\<lparr>vd_phase := CHD_V4L2_FAILED\<rparr>
        else d1\<lparr>vd_epoch := vd_epoch d1 + 1, vd_phase := CHD_V4L2_OFF\<rparr>)"

text \<open>
  \<open>la\<close> and \<open>a0\<close> answer the bootstrap, \<open>kz\<close>, \<open>coh\<close>, \<open>a1\<close> and \<open>a2\<close> the opening of the channel, \<open>a3\<close> and \<open>a4\<close> its start.
\<close>

definition crystalhd_v4l2_decoder_open_locked ::
  "thread \<Rightarrow> load_answer \<Rightarrow> fw_answer \<Rightarrow> bool \<Rightarrow> (u8 list \<times> u64) option \<Rightarrow> fw_answer \<Rightarrow> fw_answer \<Rightarrow> fw_answer \<Rightarrow> fw_answer
    \<Rightarrow> crystalhd_v4l2_decoder option \<Rightarrow> decoder_ctx option \<Rightarrow> nat option
    \<Rightarrow> (rc \<times> crystalhd_v4l2_decoder option \<times> decoder_ctx option) option" where
  "crystalhd_v4l2_decoder_open_locked t la a0 kz coh a1 a2 a3 a4 d cmd owner =
    (case (d, cmd) of
       (Some d, Some c) \<Rightarrow>
         let failed = d\<lparr>vd_phase := CHD_V4L2_FAILED\<rparr>
         in if owner = None then Some (Some EINVAL, Some d, cmd)
            else if vd_phase d \<noteq> CHD_V4L2_OFF then Some (Some EBUSY, Some d, cmd)
            else do {
              (rc, cmd0) \<leftarrow> (if cmd_decoder_phase (dc_cmd c) \<noteq> CRYSTALHD_DECODER_BOOTSTRAPPED
                             then crystalhd_fw_bootstrap_locked t la a0 cmd owner else Some (rc_ok, cmd));
              (if rc \<noteq> rc_ok then Some (rc, Some failed, cmd0)
               else do {
                 (rc, cmd1) \<leftarrow> crystalhd_decoder_channel_open_locked t kz coh a1 a2 cmd0 owner (Some CRYSTALHD_DECODER_CODEC_H264);
                 (if rc \<noteq> rc_ok then Some (rc, Some failed, cmd1)
                  else do {
                    (rc, cmd2) \<leftarrow> crystalhd_decoder_channel_start_locked t a3 a4 cmd1 owner;
                    Some (if rc \<noteq> rc_ok then (rc, Some failed, cmd2)
                          else (rc_ok, Some (d\<lparr>vd_phase := CHD_V4L2_RUNNING\<rparr>), cmd2)) }) }) }
     | _ \<Rightarrow> Some (Some EINVAL, d, cmd))"

definition crystalhd_v4l2_decoder_stop_locked ::
  "thread \<Rightarrow> fw_answer \<Rightarrow> crystalhd_v4l2_decoder option \<Rightarrow> decoder_ctx option \<Rightarrow> nat option
    \<Rightarrow> (rc \<times> crystalhd_v4l2_decoder option \<times> decoder_ctx option) option" where
  "crystalhd_v4l2_decoder_stop_locked t a d cmd owner =
    (case (d, cmd) of
       (Some d, Some c) \<Rightarrow>
         if owner = None then Some (Some EINVAL, Some d, cmd)
         else if cmd_decoder_phase (dc_cmd c) \<noteq> CRYSTALHD_DECODER_CHANNEL_STARTED then Some (Some EBUSY, Some d, cmd)
         else do {
           (rc, cmd1) \<leftarrow> crystalhd_decoder_channel_stop_locked t a cmd owner;
           Some (rc, Some (d\<lparr>vd_phase := (if rc \<noteq> rc_ok then CHD_V4L2_FAILED else CHD_V4L2_STOPPED)\<rparr>), cmd1) }
     | _ \<Rightarrow> Some (Some EINVAL, d, cmd))"

definition crystalhd_v4l2_decoder_close_locked ::
  "thread \<Rightarrow> fw_answer \<Rightarrow> crystalhd_v4l2_decoder option \<Rightarrow> decoder_ctx option \<Rightarrow> nat option
    \<Rightarrow> (rc \<times> crystalhd_v4l2_decoder option \<times> decoder_ctx option) option" where
  "crystalhd_v4l2_decoder_close_locked t a d cmd owner =
    (case (d, cmd) of
       (Some d, Some c) \<Rightarrow>
         if owner = None then Some (Some EINVAL, Some d, cmd)
         else if cmd_decoder_phase (dc_cmd c) \<noteq> CRYSTALHD_DECODER_CHANNEL_CONFIGURED then Some (Some EBUSY, Some d, cmd)
         else do {
           (rc, cmd1) \<leftarrow> crystalhd_decoder_channel_close_locked t a cmd owner;
           Some (rc, Some (if rc \<noteq> rc_ok then d\<lparr>vd_phase := CHD_V4L2_FAILED\<rparr> else crystalhd_v4l2_decoder_reset d), cmd1) }
     | _ \<Rightarrow> Some (Some EINVAL, d, cmd))"

section \<open>Admission\<close>

text \<open>The first row whose token satisfies \<open>P\<close>.\<close>

fun find_row :: "(u32 \<Rightarrow> bool) \<Rightarrow> timestamp_row list \<Rightarrow> nat \<Rightarrow> nat option" where
  "find_row P [] i = None"
| "find_row P (r # rs) i = (if P (tr_token r) then Some i else find_row P rs (i + 1))"

text \<open>
  Result: error, or the value of the time stamp field for the access unit; the session and the OUTPUT
  buffer. The access unit is the buffer's, if there is one, and \<open>data\<close> otherwise.
\<close>

definition crystalhd_v4l2_reserve_input ::
  "crystalhd_v4l2_decoder option \<Rightarrow> bool \<Rightarrow> nat option \<Rightarrow> crystalhd_v4l2_output_buffer option \<Rightarrow> u8 list option \<Rightarrow> u64
    \<Rightarrow> ((errno + u64) \<times> crystalhd_v4l2_decoder option \<times> crystalhd_v4l2_output_buffer option) option" where
  "crystalhd_v4l2_reserve_input decoder has_cmd owner buffer data timestamp =
    (case decoder of None \<Rightarrow> Some (Inl EINVAL, decoder, buffer)
     | Some d \<Rightarrow>
       if \<not> has_cmd \<or> owner = None then Some (Inl EINVAL, decoder, buffer)
       else if vd_phase d \<noteq> CHD_V4L2_RUNNING then Some (Inl EPIPE, decoder, buffer)
       else if vd_count d = word_of_nat CRYSTALHD_V4L2_TIMESTAMPS then Some (Inl EAGAIN, decoder, buffer)
       else if vd_next_token d = 0xffffffff then Some (Inl EOVERFLOW, decoder, buffer)
       else (case find_row (\<lambda>k. k = 0) (vd_timestamps d) 0 of None \<Rightarrow> Some (Inl EIO, decoder, buffer)
         | Some i \<Rightarrow>
           let (src, buffer1) =
             (case buffer of None \<Rightarrow> (Inr data, buffer)
              | Some b \<Rightarrow> (case crystalhd_v4l2_output_source buffer of
                    (Inl e, b') \<Rightarrow> (Inl e, b')
                  | (Inr (v, n), b') \<Rightarrow> (Inr (Some (take n v)), b')))
           in case src of Inl e \<Rightarrow> Some (Inl e, decoder, buffer1)
            | Inr data \<Rightarrow>
              let token = vd_next_token d; d1 = d\<lparr>vd_next_token := vd_next_token d + 1\<rparr>
              in do {
                (params, input_range) \<leftarrow>
                  (if (case data of None \<Rightarrow> False | Some bs \<Rightarrow> bs \<noteq> [] \<and> length bs \<le> CHD_H264_RANGE_MAX_AU)
                   then chd_h264_observe_range (vd_input_parameters d1) data
                   else Some (chd_h264_range_forget (vd_input_parameters d1), snapshot_zero));
                rows \<leftarrow> cell_upd (vd_timestamps d1) i
                         (\<lambda>r. \<lparr>tr_timestamp = timestamp, tr_token = token, tr_input_range = input_range\<rparr>);
                Some (Inr (push_bit 1 (ucast token)),
                  Some (d1\<lparr>vd_timestamps := rows, vd_input_parameters := params, vd_count := vd_count d1 + 1\<rparr>), buffer1) }))"

definition crystalhd_v4l2_decoder_reserve where
  "crystalhd_v4l2_decoder_reserve d has_cmd owner timestamp =
    crystalhd_v4l2_reserve_input d has_cmd owner None None timestamp"

definition crystalhd_v4l2_decoder_reserve_au where
  "crystalhd_v4l2_decoder_reserve_au d has_cmd owner data timestamp =
    (if data = None \<or> data = Some [] then Some (Inl EINVAL, d, None)
     else crystalhd_v4l2_reserve_input d has_cmd owner None data timestamp)"

definition crystalhd_v4l2_decoder_reserve_mapped where
  "crystalhd_v4l2_decoder_reserve_mapped d has_cmd owner buffer timestamp =
    (if buffer = None then Some (Inl EINVAL, d, None)
     else crystalhd_v4l2_reserve_input d has_cmd owner buffer None timestamp)"

definition crystalhd_v4l2_decoder_submitted ::
  "crystalhd_v4l2_decoder option \<Rightarrow> rc \<Rightarrow> rc \<times> crystalhd_v4l2_decoder option" where
  "crystalhd_v4l2_decoder_submitted decoder rc =
    (case decoder of None \<Rightarrow> (Some EINVAL, None)
     | Some d \<Rightarrow> (rc, Some (if rc \<noteq> rc_ok then d\<lparr>vd_phase := CHD_V4L2_FAILED\<rparr> else d)))"

definition put_cmd :: "decoder_ctx option \<Rightarrow> crystalhd_cmd option \<Rightarrow> decoder_ctx option" where
  "put_cmd ctx m = (case (ctx, m) of (Some c, Some m') \<Rightarrow> Some (c\<lparr>dc_cmd := m'\<rparr>) | _ \<Rightarrow> ctx)"

definition crystalhd_v4l2_decoder_submit ::
  "(u32 \<Rightarrow> u64) \<Rightarrow> u64 \<Rightarrow> (nat \<Rightarrow> u64 \<Rightarrow> bc_status) \<Rightarrow> crystalhd_v4l2_decoder option \<Rightarrow> decoder_ctx option \<Rightarrow> nat option
    \<Rightarrow> u8 list option \<Rightarrow> u64 \<Rightarrow> u32
    \<Rightarrow> (rc \<times> crystalhd_v4l2_decoder option \<times> decoder_ctx option \<times> crystalhd_stream list) option" where
  "crystalhd_v4l2_decoder_submit msecs_to_jiffies jiffies xfer d cmd owner data timestamp timeout_ms =
    (if data = None \<or> data = Some [] then Some (Some EINVAL, d, cmd, [])
     else do {
       (r, d1, b) \<leftarrow> crystalhd_v4l2_decoder_reserve_au d (cmd \<noteq> None) owner data timestamp;
       (case r of Inl e \<Rightarrow> Some (Some e, d1, cmd, [])
        | Inr pts \<Rightarrow> do {
            (rc, m, sent) \<leftarrow> crystalhd_decoder_submit_h264 msecs_to_jiffies jiffies xfer (map_option dc_cmd cmd) owner
                              data (length (the data)) True pts timeout_ms;
            let (rc, d2) = crystalhd_v4l2_decoder_submitted d1 rc;
            Some (rc, d2, put_cmd cmd m, sent) }) })"

definition crystalhd_v4l2_decoder_submit_mapped ::
  "(u32 \<Rightarrow> u64) \<Rightarrow> u64 \<Rightarrow> (nat \<Rightarrow> u64 \<Rightarrow> bc_status) \<Rightarrow> (u64 \<Rightarrow> bc_status \<times> u32)
    \<Rightarrow> crystalhd_v4l2_decoder option \<Rightarrow> decoder_ctx option \<Rightarrow> nat option
    \<Rightarrow> crystalhd_v4l2_output_buffer option \<Rightarrow> u64 \<Rightarrow> u32
    \<Rightarrow> (rc \<times> crystalhd_v4l2_decoder option \<times> decoder_ctx option \<times> crystalhd_v4l2_output_buffer option \<times> presented option) option" where
  "crystalhd_v4l2_decoder_submit_mapped msecs_to_jiffies jiffies xfer direct d cmd owner buffer timestamp timeout_ms =
    (if buffer = None then Some (Some EINVAL, d, cmd, buffer, None)
     else do {
       (r, d1, b) \<leftarrow> crystalhd_v4l2_decoder_reserve_mapped d (cmd \<noteq> None) owner buffer timestamp;
       (case r of Inl e \<Rightarrow> Some (Some e, d1, cmd, b, None)
        | Inr pts \<Rightarrow> do {
            b1 \<leftarrow> b;
            (rc, m, b2, p) \<leftarrow> crystalhd_v4l2_output_submit msecs_to_jiffies jiffies xfer direct (map_option dc_cmd cmd) owner b1 pts timeout_ms;
            let (rc, d2) = crystalhd_v4l2_decoder_submitted d1 rc;
            Some (rc, d2, put_cmd cmd m, Some b2, p) }) })"

section \<open>Draining\<close>

definition crystalhd_v4l2_decoder_begin_drain ::
  "crystalhd_v4l2_decoder option \<Rightarrow> rc \<times> crystalhd_v4l2_decoder option" where
  "crystalhd_v4l2_decoder_begin_drain decoder =
    (case decoder of None \<Rightarrow> (Some EINVAL, None)
     | Some d \<Rightarrow> if vd_phase d \<noteq> CHD_V4L2_RUNNING then (Some EPIPE, decoder)
                else (rc_ok, Some (d\<lparr>vd_phase := CHD_V4L2_DRAINING\<rparr>)))"

definition crystalhd_v4l2_decoder_drain ::
  "(u32 \<Rightarrow> u64) \<Rightarrow> u64 \<Rightarrow> (nat \<Rightarrow> u64 \<Rightarrow> bc_status) \<Rightarrow> crystalhd_v4l2_decoder option \<Rightarrow> decoder_ctx option \<Rightarrow> nat option \<Rightarrow> u32
    \<Rightarrow> (rc \<times> crystalhd_v4l2_decoder option \<times> decoder_ctx option \<times> crystalhd_stream list) option" where
  "crystalhd_v4l2_decoder_drain msecs_to_jiffies jiffies xfer d cmd owner timeout_ms =
    (if cmd = None \<or> owner = None then Some (Some EINVAL, d, cmd, [])
     else
       let (rc, d1) = crystalhd_v4l2_decoder_begin_drain d
       in if rc \<noteq> rc_ok then Some (rc, d1, cmd, [])
          else do {
            (rc, m, sent) \<leftarrow> crystalhd_decoder_submit_h264_eos msecs_to_jiffies jiffies xfer (map_option dc_cmd cmd) owner timeout_ms;
            let (rc, d2) = crystalhd_v4l2_decoder_submitted d1 rc;
            Some (rc, d2, put_cmd cmd m, sent) })"

definition crystalhd_v4l2_decoder_drained :: "crystalhd_v4l2_decoder option \<Rightarrow> bool" where
  "crystalhd_v4l2_decoder_drained decoder = (case decoder of None \<Rightarrow> False | Some d \<Rightarrow> vd_phase d = CHD_V4L2_DRAINED)"

section \<open>Completion\<close>

definition crystalhd_v4l2_decoder_peek_range ::
  "crystalhd_v4l2_decoder option \<Rightarrow> u64 \<Rightarrow> u64 \<Rightarrow> errno + chd_h264_range_snapshot" where
  "crystalhd_v4l2_decoder_peek_range decoder epoch firmware_timestamp =
    (case decoder of None \<Rightarrow> Inl EINVAL
     | Some d \<Rightarrow>
       if epoch \<noteq> vd_epoch d then Inl ESTALE
       else if vd_phase d \<noteq> CHD_V4L2_RUNNING \<and> vd_phase d \<noteq> CHD_V4L2_DRAINING then Inl EPIPE
       else if firmware_timestamp = 0 \<or> firmware_timestamp \<ge> 0xffffffff then Inl ESTALE
       else (case find_row (\<lambda>k. ucast k = firmware_timestamp) (vd_timestamps d) 0 of None \<Rightarrow> Inl ESTALE
         | Some i \<Rightarrow> Inr (tr_input_range (vd_timestamps d ! i))))"

text \<open>The outcomes: an error; a picture, or a failed picture (\<^verbatim>\<open>-EILSEQ\<close>), with its time stamp and observation; drained.\<close>

datatype complete_result =
  Complete_Error errno | Complete_Picture u64 chd_h264_range_snapshot | Complete_Failed u64 chd_h264_range_snapshot | Complete_Drained

definition crystalhd_v4l2_decoder_complete_observed ::
  "crystalhd_v4l2_decoder option \<Rightarrow> crystalhd_rx_metadata option \<Rightarrow> u64
    \<Rightarrow> (complete_result \<times> crystalhd_v4l2_decoder option) option" where
  "crystalhd_v4l2_decoder_complete_observed decoder metadata epoch =
    (case (decoder, metadata) of
       (Some d, Some m) \<Rightarrow>
         let decode_error = has_flag (md_picture_flags m) CRYSTALHD_PICTURE_FLAG_DECODE_ERROR;
             eos = has_flag (md_picture_flags m) CRYSTALHD_PICTURE_FLAG_EOS
         in if epoch \<noteq> vd_epoch d then Some (Complete_Error ESTALE, decoder)
            else if vd_phase d \<noteq> CHD_V4L2_RUNNING \<and> vd_phase d \<noteq> CHD_V4L2_DRAINING then Some (Complete_Error EPIPE, decoder)
            else if \<not> md_valid m then Some (Complete_Error ENODATA, decoder)
            else if decode_error \<and> (md_eos_trailer m \<or> eos) then Some (Complete_Error EPROTO, decoder)
            else if md_eos_trailer m
            then if vd_phase d \<noteq> CHD_V4L2_DRAINING \<or> md_pib_line m \<noteq> 0 \<or> md_picture_number m \<noteq> 0xffffffff \<or> \<not> eos
                 then Some (Complete_Error ENODATA, decoder)
                 else if vd_count d \<noteq> 0 then Some (Complete_Error EPROTO, decoder)
                 else Some (Complete_Drained, Some (d\<lparr>vd_phase := CHD_V4L2_DRAINED\<rparr>))
            else if md_firmware_timestamp m = 0 \<or> md_firmware_timestamp m \<ge> 0xffffffff then Some (Complete_Error ESTALE, decoder)
            else (case find_row (\<lambda>k. ucast k = md_firmware_timestamp m) (vd_timestamps d) 0 of
                None \<Rightarrow> Some (Complete_Error ESTALE, decoder)
              | Some i \<Rightarrow> do {
                  rows \<leftarrow> cell_upd (vd_timestamps d) i (\<lambda>r. r\<lparr>tr_input_range := snapshot_zero, tr_token := 0\<rparr>);
                  let r = vd_timestamps d ! i;
                  Some (if decode_error then Complete_Failed (tr_timestamp r) (tr_input_range r)
                        else Complete_Picture (tr_timestamp r) (tr_input_range r),
                        Some (d\<lparr>vd_timestamps := rows, vd_count := vd_count d - 1\<rparr>)) })
     | _ \<Rightarrow> Some (Complete_Error EINVAL, decoder))"

definition crystalhd_v4l2_decoder_complete where
  "crystalhd_v4l2_decoder_complete decoder metadata epoch =
    map_option (\<lambda>(r, d). (case r of Complete_Picture ts _ \<Rightarrow> Complete_Picture ts snapshot_zero
        | Complete_Failed ts _ \<Rightarrow> Complete_Failed ts snapshot_zero | _ \<Rightarrow> r, d))
      (crystalhd_v4l2_decoder_complete_observed decoder metadata epoch)"

section \<open>The ledger\<close>

text \<open>
  The live rows, what they promise (token as the device reports it, time stamp), and the invariant of
  the session: tokens are distinct, older than the next one, and counted.
\<close>

definition live :: "timestamp_row list \<Rightarrow> nat set" where
  "live rows = {i. i < length rows \<and> tr_token (rows ! i) \<noteq> 0}"

definition row_entry :: "timestamp_row \<Rightarrow> u64 \<times> u64" where
  "row_entry r = (ucast (tr_token r), tr_timestamp r)"

definition ledger :: "crystalhd_v4l2_decoder \<Rightarrow> (u64 \<times> u64) set" where
  "ledger d = (\<lambda>i. row_entry (vd_timestamps d ! i)) ` live (vd_timestamps d)"

definition decoder_wf :: "crystalhd_v4l2_decoder \<Rightarrow> bool" where
  "decoder_wf d \<longleftrightarrow> length (vd_timestamps d) = CRYSTALHD_V4L2_TIMESTAMPS \<and> range_wf (vd_input_parameters d) \<and>
    inj_on (\<lambda>i. tr_token (vd_timestamps d ! i)) (live (vd_timestamps d)) \<and>
    (\<forall>i\<in>live (vd_timestamps d). tr_token (vd_timestamps d ! i) < vd_next_token d) \<and>
    unat (vd_count d) = card (live (vd_timestamps d)) \<and> vd_next_token d \<noteq> 0"

lemma decoder_wf_phase [simp]: "decoder_wf (d\<lparr>vd_phase := p\<rparr>) = decoder_wf d" "ledger (d\<lparr>vd_phase := p\<rparr>) = ledger d"
  by (simp_all add: decoder_wf_def ledger_def)

lemma live_finite [simp]: "finite (live rows)"
  by (simp add: live_def)

lemma live_subset: "live rows \<subseteq> {..<length rows}"
  by (auto simp: live_def)

lemma live_set:
  assumes "i < length rows"
  shows "live (rows[i := r]) = (if tr_token r = 0 then live rows - {i} else insert i (live rows))"
  using assms by (auto simp: live_def nth_list_update)

lemma find_row_Some:
  "find_row P rs n = Some i \<Longrightarrow> n \<le> i \<and> i - n < length rs \<and> P (tr_token (rs ! (i - n)))"
proof (induction rs arbitrary: n)
  case (Cons r rs)
  show ?case
  proof (cases "P (tr_token r)")
    case False
    then have "n + 1 \<le> i" "i - (n + 1) < length rs" "P (tr_token (rs ! (i - (n + 1))))" using Cons.IH [of "n + 1"] Cons.prems by simp_all
    moreover from this(1) have "i - n = Suc (i - (n + 1))" by simp
    ultimately show ?thesis by simp
  qed (use Cons.prems in simp)
qed simp

lemma find_row_None: "find_row P rs n = None \<longleftrightarrow> (\<forall>r\<in>set rs. \<not> P (tr_token r))"
  by (induction rs arbitrary: n) auto

lemma find_row_hit:
  assumes "find_row P rs 0 = Some i"
  shows "i < length rs" "P (tr_token (rs ! i))"
  using find_row_Some [OF assms] by simp_all

lemma count_full:
  assumes "decoder_wf d" "vd_count d \<noteq> word_of_nat CRYSTALHD_V4L2_TIMESTAMPS"
  obtains i where "find_row (\<lambda>k. k = 0) (vd_timestamps d) 0 = Some i" "i < length (vd_timestamps d)" "i \<notin> live (vd_timestamps d)"
    "unat (vd_count d) < CRYSTALHD_V4L2_TIMESTAMPS"
proof (cases "find_row (\<lambda>k. k = 0) (vd_timestamps d) 0")
  case None
  then have "live (vd_timestamps d) = {..<length (vd_timestamps d)}" by (auto simp: live_def find_row_None)
  then have "unat (vd_count d) = 256" using assms(1) by (simp add: decoder_wf_def)
  then have "vd_count d = word_of_nat 256" by (simp add: word_unat_eq_iff)
  then show ?thesis using assms(2) by simp
next
  case (Some i)
  from find_row_hit [OF this] have i: "i < length (vd_timestamps d)" "i \<notin> live (vd_timestamps d)" by (auto simp: live_def)
  then have "live (vd_timestamps d) \<subset> {..<length (vd_timestamps d)}" using live_subset [of "vd_timestamps d"] by auto
  from psubset_card_mono [OF _ this] show ?thesis using Some i assms(1) that by (simp add: decoder_wf_def)
qed

lemma ledger_token:
  assumes "decoder_wf d" "(k, ts) \<in> ledger d"
  shows "0 < k" "k < ucast (vd_next_token d)"
proof -
  obtain i where i: "i \<in> live (vd_timestamps d)" "k = ucast (tr_token (vd_timestamps d ! i))"
    using assms(2) by (auto simp: ledger_def row_entry_def)
  have "tr_token (vd_timestamps d ! i) \<noteq> 0" "tr_token (vd_timestamps d ! i) < vd_next_token d"
    using assms(1) i(1) by (auto simp: decoder_wf_def live_def)
  then show "0 < k" "k < ucast (vd_next_token d)" by (simp_all add: i(2) word_less_nat_alt unat_gt_0)
qed

lemma ucast_u32_u64_eq [simp]: "(ucast x :: u64) = ucast y \<longleftrightarrow> x = y" for x y :: u32
  by (metis unat_ucast_u32_u64 word_unat_eq_iff)

text \<open>Booking a fresh token in a free row, and clearing a live one.\<close>

lemma book_row:
  fixes ts :: u64 and rg :: chd_h264_range_snapshot
  assumes wf: "decoder_wf d" and i: "i < length (vd_timestamps d)" "i \<notin> live (vd_timestamps d)"
    and n: "vd_next_token d \<noteq> 0xffffffff" and c: "unat (vd_count d) < CRYSTALHD_V4L2_TIMESTAMPS" and p: "range_wf p"
  defines "d' \<equiv> d\<lparr>vd_next_token := vd_next_token d + 1,
      vd_timestamps := (vd_timestamps d)[i := \<lparr>tr_timestamp = ts, tr_token = vd_next_token d, tr_input_range = rg\<rparr>],
      vd_input_parameters := p, vd_count := vd_count d + 1\<rparr>"
  shows "decoder_wf d'" "ledger d' = insert (ucast (vd_next_token d), ts) (ledger d)"
proof -
  let ?r = "\<lparr>tr_timestamp = ts, tr_token = vd_next_token d, tr_input_range = rg\<rparr>"
  have W: "length (vd_timestamps d) = CRYSTALHD_V4L2_TIMESTAMPS" "inj_on (\<lambda>i. tr_token (vd_timestamps d ! i)) (live (vd_timestamps d))"
    "\<And>j. j \<in> live (vd_timestamps d) \<Longrightarrow> tr_token (vd_timestamps d ! j) < vd_next_token d"
    "unat (vd_count d) = card (live (vd_timestamps d))" "vd_next_token d \<noteq> 0"
    using wf by (auto simp: decoder_wf_def)
  have lv: "live ((vd_timestamps d)[i := ?r]) = insert i (live (vd_timestamps d))" using W(5) i(1) by (simp add: live_set)
  have "(0xffffffff :: u32) = - 1" by simp
  then have nx: "vd_next_token d \<noteq> - 1" using n by metis
  then have lt: "vd_next_token d < vd_next_token d + 1" "vd_next_token d + 1 \<noteq> 0"
    using word_le_plus_one [of "vd_next_token d"] word_plus_one_nz by (auto simp: order.strict_iff_order)
  have inj: "inj_on (\<lambda>j. tr_token ((vd_timestamps d)[i := ?r] ! j)) (insert i (live (vd_timestamps d)))"
  proof (rule inj_onI)
    fix a b assume ab: "a \<in> insert i (live (vd_timestamps d))" "b \<in> insert i (live (vd_timestamps d))"
      "tr_token ((vd_timestamps d)[i := ?r] ! a) = tr_token ((vd_timestamps d)[i := ?r] ! b)"
    then show "a = b" using i W(3) [of a] W(3) [of b] inj_onD [OF W(2), of a b]
      by (cases "a = i"; cases "b = i") (auto simp: nth_list_update)
  qed
  have bd: "tr_token ((vd_timestamps d)[i := ?r] ! j) < vd_next_token d + 1" if "j \<in> insert i (live (vd_timestamps d))" for j
    using that W(3) [of j] lt(1) i by (cases "j = i") auto
  have ct: "unat (vd_count d + 1) = Suc (unat (vd_count d))" using c by (simp add: unat_word_ariths)
  show "decoder_wf d'" unfolding decoder_wf_def d'_def using lv inj bd ct W(1,4) i p lt(2) by simp
  have "\<And>j. j \<in> live (vd_timestamps d) \<Longrightarrow> (vd_timestamps d)[i := ?r] ! j = vd_timestamps d ! j" using i(2) by (metis nth_list_update_neq)
  then have "(\<lambda>j. row_entry ((vd_timestamps d)[i := ?r] ! j)) ` live (vd_timestamps d) = ledger d" by (simp add: ledger_def)
  moreover have "ledger d' = (\<lambda>j. row_entry ((vd_timestamps d)[i := ?r] ! j)) ` insert i (live (vd_timestamps d))"
    unfolding ledger_def d'_def using lv by simp
  moreover have "row_entry ((vd_timestamps d)[i := ?r] ! i) = (ucast (vd_next_token d), ts)" using i(1) by (simp add: row_entry_def)
  ultimately show "ledger d' = insert (ucast (vd_next_token d), ts) (ledger d)" by simp
qed

lemma image_remove:
  assumes "\<And>j. j \<in> A - {i} \<Longrightarrow> f j \<noteq> f i" "i \<in> A"
  shows "f ` (A - {i}) = f ` A - {f i}"
  using assms by (auto simp: image_iff)

lemma clear_row:
  fixes rg :: chd_h264_range_snapshot
  assumes wf: "decoder_wf d" and i: "i \<in> live (vd_timestamps d)"
  defines "d' \<equiv> d\<lparr>vd_timestamps := (vd_timestamps d)[i := (vd_timestamps d ! i)\<lparr>tr_input_range := rg, tr_token := 0\<rparr>], vd_count := vd_count d - 1\<rparr>"
  shows "decoder_wf d'" "ledger d' = ledger d - {row_entry (vd_timestamps d ! i)}"
proof -
  let ?r = "(vd_timestamps d ! i)\<lparr>tr_input_range := rg, tr_token := 0\<rparr>"
  have W: "length (vd_timestamps d) = CRYSTALHD_V4L2_TIMESTAMPS" "inj_on (\<lambda>i. tr_token (vd_timestamps d ! i)) (live (vd_timestamps d))"
    "\<And>j. j \<in> live (vd_timestamps d) \<Longrightarrow> tr_token (vd_timestamps d ! j) < vd_next_token d"
    "unat (vd_count d) = card (live (vd_timestamps d))" "vd_next_token d \<noteq> 0" "range_wf (vd_input_parameters d)"
    using wf by (auto simp: decoder_wf_def)
  have il: "i < length (vd_timestamps d)" using i by (simp add: live_def)
  have lv: "live ((vd_timestamps d)[i := ?r]) = live (vd_timestamps d) - {i}" using il by (simp add: live_set)
  have same: "(vd_timestamps d)[i := ?r] ! j = vd_timestamps d ! j" if "j \<in> live (vd_timestamps d) - {i}" for j using that by auto
  have inj: "inj_on (\<lambda>j. tr_token ((vd_timestamps d)[i := ?r] ! j)) (live (vd_timestamps d) - {i})"
    using W(2) same by (auto simp: inj_on_def)
  have "card (live (vd_timestamps d)) \<noteq> 0" using i by auto
  then have "vd_count d \<noteq> 0" using W(4) by (auto simp: unat_eq_0)
  then have ct: "unat (vd_count d - 1) = card (live (vd_timestamps d) - {i})" using W(4) i by (simp add: unat_pred)
  show "decoder_wf d'" unfolding decoder_wf_def d'_def using lv inj same ct W by simp
  have e: "row_entry (vd_timestamps d ! j) \<noteq> row_entry (vd_timestamps d ! i)" if "j \<in> live (vd_timestamps d) - {i}" for j
    using that inj_onD [OF W(2), of j i] i by (auto simp: row_entry_def)
  have "ledger d' = (\<lambda>j. row_entry (vd_timestamps d ! j)) ` (live (vd_timestamps d) - {i})"
    unfolding ledger_def d'_def using lv same by simp
  also have "\<dots> = ledger d - {row_entry (vd_timestamps d ! i)}"
    unfolding ledger_def using e i by (intro image_remove)
  finally show "ledger d' = ledger d - {row_entry (vd_timestamps d ! i)}" .
qed

section \<open>The effect of a call\<close>

lemma live_empty [simp]: "live (replicate n row_zero) = {}"
  by (auto simp: live_def row_zero_def)

lemma wf_init: "decoder_wf crystalhd_v4l2_decoder_init" "ledger crystalhd_v4l2_decoder_init = {}"
  by (simp_all add: decoder_wf_def crystalhd_v4l2_decoder_init_def ledger_def range_wf_zero)

lemma wf_reset:
  assumes "decoder_wf d"
  shows "decoder_wf (crystalhd_v4l2_decoder_reset d)" "ledger (crystalhd_v4l2_decoder_reset d) = {}"
    "vd_next_token (crystalhd_v4l2_decoder_reset d) = vd_next_token d"
    "vd_phase (crystalhd_v4l2_decoder_reset d) = CHD_V4L2_OFF \<and> vd_epoch (crystalhd_v4l2_decoder_reset d) = vd_epoch d + 1 \<and> vd_epoch d \<noteq> - 1 \<or>
     vd_phase (crystalhd_v4l2_decoder_reset d) = CHD_V4L2_FAILED \<and> vd_epoch (crystalhd_v4l2_decoder_reset d) = vd_epoch d \<and> vd_epoch d = - 1"
  using assms by (simp_all add: decoder_wf_def crystalhd_v4l2_decoder_reset_def ledger_def range_wf_zero Let_def)

text \<open>
  The call of \<^const>\<open>crystalhd_v4l2_reserve_input\<close> on its branches: what refuses it, and what a
  granted call books.
\<close>

definition input_data :: "crystalhd_v4l2_output_buffer option \<Rightarrow> u8 list option \<Rightarrow> errno + u8 list option" where
  "input_data buffer data =
    (if buffer = None then Inr data
     else case fst (crystalhd_v4l2_output_source buffer) of Inl e \<Rightarrow> Inl e | Inr (v, n) \<Rightarrow> Inr (Some (take n v)))"

definition reserve_refusal ::
  "crystalhd_v4l2_decoder \<Rightarrow> bool \<Rightarrow> nat option \<Rightarrow> crystalhd_v4l2_output_buffer option \<Rightarrow> rc" where
  "reserve_refusal d has_cmd owner buffer =
    (if \<not> has_cmd \<or> owner = None then Some EINVAL
     else if vd_phase d \<noteq> CHD_V4L2_RUNNING then Some EPIPE
     else if card (ledger d) = CRYSTALHD_V4L2_TIMESTAMPS then Some EAGAIN
     else if vd_next_token d = 0xffffffff then Some EOVERFLOW
     else case input_data buffer None of Inl e \<Rightarrow> Some e | Inr _ \<Rightarrow> rc_ok)"

lemma card_ledger:
  assumes "decoder_wf d"
  shows "card (ledger d) = unat (vd_count d)"
proof -
  have "inj_on (\<lambda>i. row_entry (vd_timestamps d ! i)) (live (vd_timestamps d))"
    using assms by (auto simp: decoder_wf_def inj_on_def row_entry_def)
  then show ?thesis using assms by (simp add: ledger_def card_image decoder_wf_def)
qed

lemma count_256: "vd_count d = word_of_nat CRYSTALHD_V4L2_TIMESTAMPS \<longleftrightarrow> unat (vd_count d) = CRYSTALHD_V4L2_TIMESTAMPS"
  by (simp add: word_unat_eq_iff)

lemma observe_input:
  assumes "range_wf p"
  obtains p' rg where "(if (case data of None \<Rightarrow> False | Some bs \<Rightarrow> bs \<noteq> [] \<and> length bs \<le> CHD_H264_RANGE_MAX_AU)
      then chd_h264_observe_range p data else Some (chd_h264_range_forget p, snapshot_zero)) = Some (p', rg)" "range_wf p'"
    "rs_associated rg \<longrightarrow> bound_to p' rg"
proof (cases "case data of None \<Rightarrow> False | Some bs \<Rightarrow> bs \<noteq> [] \<and> length bs \<le> CHD_H264_RANGE_MAX_AU")
  case True
  obtain p' rg where "chd_h264_observe_range p data = Some (p', rg)" "range_wf p'" "rs_associated rg \<longrightarrow> bound_to p' rg"
    using observe_total [OF assms, of data] by auto
  then show ?thesis using that True by simp
next
  case False
  then show ?thesis using that [of "chd_h264_range_forget p" snapshot_zero] assms by (simp add: snapshot_zero_def)
qed

lemma reserve_effect:
  assumes wf: "decoder_wf d"
  obtains (refused) e b' where "reserve_refusal d has_cmd owner buffer = Some e"
      "crystalhd_v4l2_reserve_input (Some d) has_cmd owner buffer data ts = Some (Inl e, Some d, b')"
  | (booked) d' b' i p' rg where "reserve_refusal d has_cmd owner buffer = rc_ok"
      "crystalhd_v4l2_reserve_input (Some d) has_cmd owner buffer data ts = Some (Inr (push_bit 1 (ucast (vd_next_token d))), Some d', b')"
      "d' = d\<lparr>vd_next_token := vd_next_token d + 1,
        vd_timestamps := (vd_timestamps d)[i := \<lparr>tr_timestamp = ts, tr_token = vd_next_token d, tr_input_range = rg\<rparr>],
        vd_input_parameters := p', vd_count := vd_count d + 1\<rparr>"
      "i < length (vd_timestamps d)" "b' = None \<longleftrightarrow> buffer = None" "decoder_wf d'" "ledger d' = insert (ucast (vd_next_token d), ts) (ledger d)"
      "vd_phase d = CHD_V4L2_RUNNING" "vd_next_token d \<noteq> 0xffffffff"
proof (cases "\<not> has_cmd \<or> owner = None \<or> vd_phase d \<noteq> CHD_V4L2_RUNNING \<or> vd_count d = word_of_nat CRYSTALHD_V4L2_TIMESTAMPS \<or> vd_next_token d = 0xffffffff")
  case True
  then have "\<exists>e. reserve_refusal d has_cmd owner buffer = Some e \<and> crystalhd_v4l2_reserve_input (Some d) has_cmd owner buffer data ts = Some (Inl e, Some d, buffer)"
    unfolding count_256 crystalhd_v4l2_reserve_input_def reserve_refusal_def card_ledger [OF wf] by auto
  then show ?thesis using refused by blast
next
  case False
  then have g: "\<not> (\<not> has_cmd \<or> owner = None)" "\<not> vd_phase d \<noteq> CHD_V4L2_RUNNING" "vd_count d \<noteq> word_of_nat CRYSTALHD_V4L2_TIMESTAMPS" "vd_next_token d \<noteq> 0xffffffff" by auto
  obtain i where i: "find_row (\<lambda>k. k = 0) (vd_timestamps d) 0 = Some i" "i < length (vd_timestamps d)" "i \<notin> live (vd_timestamps d)"
    "unat (vd_count d) < CRYSTALHD_V4L2_TIMESTAMPS" using count_full [OF wf g(3)] by metis
  have q: "reserve_refusal d has_cmd owner buffer = (case input_data buffer None of Inl e \<Rightarrow> Some e | Inr _ \<Rightarrow> rc_ok)"
    using g i(4) by (auto simp: reserve_refusal_def card_ledger [OF wf])
  define b' where "b' = (if buffer = None then None else snd (crystalhd_v4l2_output_source buffer))"
  have src: "(case buffer of None \<Rightarrow> (Inr data, buffer)
              | Some b \<Rightarrow> (case crystalhd_v4l2_output_source buffer of
                    (Inl e, b') \<Rightarrow> (Inl e, b')
                  | (Inr (v, n), b') \<Rightarrow> (Inr (Some (take n v)), b'))) = (input_data buffer data, b')"
    unfolding input_data_def b'_def
    by (cases buffer; cases "crystalhd_v4l2_output_source buffer"; cases "fst (crystalhd_v4l2_output_source buffer)") auto
  have b': "b' = None \<longleftrightarrow> buffer = None"
    unfolding b'_def by (cases buffer) (auto simp: crystalhd_v4l2_output_source_def split: option.split)
  note R = crystalhd_v4l2_reserve_input_def option.case if_not_P [OF g(1)] if_not_P [OF g(2)] if_not_P [OF g(3)] if_not_P [OF g(4)] i(1) src Let_def prod.case
  show ?thesis
  proof (cases "input_data buffer data")
    case (Inl e)
    then have "input_data buffer None = Inl e" by (auto simp: input_data_def split: if_splits sum.splits)
    then have q1: "reserve_refusal d has_cmd owner buffer = Some e" using q by simp
    show ?thesis by (rule refused [OF q1, of b']) (unfold R Inl, simp)
  next
    case (Inr data')
    then have "\<exists>x. input_data buffer None = Inr x" by (auto simp: input_data_def split: if_splits sum.splits)
    then have q1: "reserve_refusal d has_cmd owner buffer = rc_ok" using q by auto
    have rw: "range_wf (vd_input_parameters d)" using wf by (simp add: decoder_wf_def)
    obtain p' rg where p: "(if (case data' of None \<Rightarrow> False | Some bs \<Rightarrow> bs \<noteq> [] \<and> length bs \<le> CHD_H264_RANGE_MAX_AU)
      then chd_h264_observe_range (vd_input_parameters d) data' else Some (chd_h264_range_forget (vd_input_parameters d), snapshot_zero)) = Some (p', rg)" "range_wf p'"
      by (rule observe_input [OF rw, of data'])
    define d' where "d' = d\<lparr>vd_next_token := vd_next_token d + 1,
        vd_timestamps := (vd_timestamps d)[i := \<lparr>tr_timestamp = ts, tr_token = vd_next_token d, tr_input_range = rg\<rparr>],
        vd_input_parameters := p', vd_count := vd_count d + 1\<rparr>"
    have params: "vd_input_parameters (d\<lparr>vd_next_token := n\<rparr>) = vd_input_parameters d" for n by simp
    have ex: "crystalhd_v4l2_reserve_input (Some d) has_cmd owner buffer data ts = Some (Inr (push_bit 1 (ucast (vd_next_token d))), Some d', b')"
      unfolding R Inr sum.case params p(1) using i(2) by (simp add: d'_def)
    have ph: "vd_phase d = CHD_V4L2_RUNNING" using g(2) by simp
    show ?thesis
      by (rule booked [OF q1 ex d'_def i(2) b' book_row [OF wf i(2,3) g(4) i(4) p(2), of ts rg, folded d'_def] ph g(4)])
  qed
qed

text \<open>A completion: refused with nothing changed, the drain, or the entry of its token.\<close>

lemma complete_effect:
  assumes wf: "decoder_wf d"
  obtains (refused) e where "crystalhd_v4l2_decoder_complete_observed (Some d) m epoch = Some (Complete_Error e, Some d)"
  | (drained) "crystalhd_v4l2_decoder_complete_observed (Some d) m epoch = Some (Complete_Drained, Some (d\<lparr>vd_phase := CHD_V4L2_DRAINED\<rparr>))"
      "epoch = vd_epoch d" "vd_phase d = CHD_V4L2_DRAINING" "ledger d = {}"
  | (returned) md i d' where "m = Some md" "epoch = vd_epoch d" "vd_phase d = CHD_V4L2_RUNNING \<or> vd_phase d = CHD_V4L2_DRAINING"
      "i \<in> live (vd_timestamps d)" "row_entry (vd_timestamps d ! i) = (md_firmware_timestamp md, tr_timestamp (vd_timestamps d ! i))"
      "crystalhd_v4l2_decoder_complete_observed (Some d) m epoch =
        Some ((if has_flag (md_picture_flags md) CRYSTALHD_PICTURE_FLAG_DECODE_ERROR then Complete_Failed else Complete_Picture)
                (tr_timestamp (vd_timestamps d ! i)) (tr_input_range (vd_timestamps d ! i)), Some d')"
      "decoder_wf d'" "ledger d' = ledger d - {row_entry (vd_timestamps d ! i)}"
      "vd_phase d' = vd_phase d" "vd_epoch d' = vd_epoch d" "vd_next_token d' = vd_next_token d"
proof (cases m)
  case None
  then show ?thesis using refused [of EINVAL] by (simp add: crystalhd_v4l2_decoder_complete_observed_def)
next
  case (Some md)
  let ?f = "find_row (\<lambda>k. ucast k = md_firmware_timestamp md) (vd_timestamps d) 0"
  define bad where "bad \<longleftrightarrow> epoch \<noteq> vd_epoch d \<or> (vd_phase d \<noteq> CHD_V4L2_RUNNING \<and> vd_phase d \<noteq> CHD_V4L2_DRAINING) \<or> \<not> md_valid md \<or>
      has_flag (md_picture_flags md) CRYSTALHD_PICTURE_FLAG_DECODE_ERROR \<and> (md_eos_trailer md \<or> has_flag (md_picture_flags md) CRYSTALHD_PICTURE_FLAG_EOS)"
  have cnt: "vd_count d = 0 \<longleftrightarrow> ledger d = {}"
  proof -
    have "vd_count d = 0 \<longleftrightarrow> card (ledger d) = 0" using card_ledger [OF wf] by (simp add: unat_eq_0)
    then show ?thesis by (simp add: ledger_def)
  qed
  show ?thesis
  proof (cases "bad \<or> md_eos_trailer md \<or> md_firmware_timestamp md = 0 \<or> md_firmware_timestamp md \<ge> 0xffffffff \<or> ?f = None")
    case True
    then have "(\<exists>e. crystalhd_v4l2_decoder_complete_observed (Some d) m epoch = Some (Complete_Error e, Some d)) \<or>
      crystalhd_v4l2_decoder_complete_observed (Some d) m epoch = Some (Complete_Drained, Some (d\<lparr>vd_phase := CHD_V4L2_DRAINED\<rparr>)) \<and>
      epoch = vd_epoch d \<and> vd_phase d = CHD_V4L2_DRAINING \<and> ledger d = {}"
      using cnt unfolding crystalhd_v4l2_decoder_complete_observed_def Some prod.case option.case Let_def bad_def by (auto split: option.split)
    then show ?thesis using refused drained by blast
  next
    case False
    then obtain i where f: "?f = Some i" by blast
    from find_row_hit [OF f] have i: "i < length (vd_timestamps d)" "ucast (tr_token (vd_timestamps d ! i)) = md_firmware_timestamp md" by simp_all
    then have lv: "i \<in> live (vd_timestamps d)" using False by (auto simp: live_def)
    define d' where "d' = d\<lparr>vd_timestamps := (vd_timestamps d)[i := (vd_timestamps d ! i)\<lparr>tr_input_range := snapshot_zero, tr_token := 0\<rparr>], vd_count := vd_count d - 1\<rparr>"
    have "crystalhd_v4l2_decoder_complete_observed (Some d) m epoch =
        Some ((if has_flag (md_picture_flags md) CRYSTALHD_PICTURE_FLAG_DECODE_ERROR then Complete_Failed else Complete_Picture)
                (tr_timestamp (vd_timestamps d ! i)) (tr_input_range (vd_timestamps d ! i)), Some d')"
      using False f i(1) unfolding crystalhd_v4l2_decoder_complete_observed_def Some prod.case option.case Let_def bad_def by (auto simp: d'_def)
    then show ?thesis using returned [of md i d'] Some False i(2) lv clear_row [OF wf lv, of snapshot_zero, folded d'_def]
      by (simp add: bad_def row_entry_def d'_def)
  qed
qed

section \<open>Sessions\<close>

text \<open>
  A history of the session: the calls of the video node, and \<open>Se_World\<close>, by which the rest of the
  driver leaves another well-formed context. The device reports the time stamp of an access unit
  shifted right by one, so that the token of an \<open>Issued\<close> event is the one a completion brings back.
\<close>

datatype sess_op =
    Se_Open "nat option" load_answer fw_answer bool "(u8 list \<times> u64) option" fw_answer fw_answer fw_answer fw_answer
  | Se_Stop "nat option" fw_answer
  | Se_Close "nat option" fw_answer
  | Se_Reset
  | Se_Reserve "nat option" "crystalhd_v4l2_output_buffer option" "u8 list option" u64
  | Se_Submitted rc
  | Se_Begin_Drain
  | Se_Complete "crystalhd_rx_metadata option" u64
  | Se_World decoder_ctx

datatype sess_event = Issued u64 u64 u64 | Returned u64 u64 u64 | Drained u64

type_synonym sess_state = "crystalhd_v4l2_decoder \<times> decoder_ctx \<times> sess_event list"

fun sess_op_ok :: "sess_op \<Rightarrow> bool" where
  "sess_op_ok (Se_Open _ la a0 _ _ a1 a2 a3 a4) \<longleftrightarrow>
     world_ok (la_world la) \<and> (\<forall>a\<in>{a0, a1, a2, a3, a4}. world_ok (fa_world a))"
| "sess_op_ok (Se_Stop _ a) \<longleftrightarrow> world_ok (fa_world a)"
| "sess_op_ok (Se_Close _ a) \<longleftrightarrow> world_ok (fa_world a)"
| "sess_op_ok (Se_World c) \<longleftrightarrow> chan_inv c"
| "sess_op_ok _ \<longleftrightarrow> True"

fun reserve_events :: "u64 \<Rightarrow> u64 \<Rightarrow> errno + u64 \<Rightarrow> sess_event list" where
  "reserve_events epoch ts (Inr pts) = [Issued epoch (drop_bit 1 pts) ts]"
| "reserve_events epoch ts (Inl e) = []"

fun complete_events :: "u64 \<Rightarrow> u64 \<Rightarrow> complete_result \<Rightarrow> sess_event list" where
  "complete_events epoch k (Complete_Picture ts _) = [Returned epoch k ts]"
| "complete_events epoch k (Complete_Failed ts _) = [Returned epoch k ts]"
| "complete_events epoch k Complete_Drained = [Drained epoch]"
| "complete_events epoch k (Complete_Error e) = []"

fun sess_step :: "thread \<Rightarrow> sess_op \<Rightarrow> sess_state \<Rightarrow> (sess_event list \<times> sess_state) option" where
  "sess_step t (Se_Open owner la a0 kz coh a1 a2 a3 a4) (d, c, evs) = do {
     (rc, dd, cc) \<leftarrow> crystalhd_v4l2_decoder_open_locked t la a0 kz coh a1 a2 a3 a4 (Some d) (Some c) owner;
     d' \<leftarrow> dd; c' \<leftarrow> cc; Some ([], d', c', evs) }"
| "sess_step t (Se_Stop owner a) (d, c, evs) = do {
     (rc, dd, cc) \<leftarrow> crystalhd_v4l2_decoder_stop_locked t a (Some d) (Some c) owner;
     d' \<leftarrow> dd; c' \<leftarrow> cc; Some ([], d', c', evs) }"
| "sess_step t (Se_Close owner a) (d, c, evs) = do {
     (rc, dd, cc) \<leftarrow> crystalhd_v4l2_decoder_close_locked t a (Some d) (Some c) owner;
     d' \<leftarrow> dd; c' \<leftarrow> cc; Some ([], d', c', evs) }"
| "sess_step t Se_Reset (d, c, evs) = Some ([], crystalhd_v4l2_decoder_reset d, c, evs)"
| "sess_step t (Se_Reserve owner buffer data ts) (d, c, evs) = do {
     (r, dd, b) \<leftarrow> crystalhd_v4l2_reserve_input (Some d) True owner buffer data ts;
     d' \<leftarrow> dd; let ev = reserve_events (vd_epoch d) ts r; Some (ev, d', c, evs @ ev) }"
| "sess_step t (Se_Submitted rc) (d, c, evs) = do {
     d' \<leftarrow> snd (crystalhd_v4l2_decoder_submitted (Some d) rc); Some ([], d', c, evs) }"
| "sess_step t Se_Begin_Drain (d, c, evs) = do {
     d' \<leftarrow> snd (crystalhd_v4l2_decoder_begin_drain (Some d)); Some ([], d', c, evs) }"
| "sess_step t (Se_Complete m epoch) (d, c, evs) = do {
     (r, dd) \<leftarrow> crystalhd_v4l2_decoder_complete_observed (Some d) m epoch;
     d' \<leftarrow> dd; let ev = complete_events epoch (case m of None \<Rightarrow> 0 | Some md \<Rightarrow> md_firmware_timestamp md) r;
     Some (ev, d', c, evs @ ev) }"
| "sess_step t (Se_World c') (d, c, evs) = Some ([], d, c', evs)"

text \<open>
  What a log of events must be: no token is issued twice, a completion follows the issue of its token in
  the same epoch and carries the time stamp of that issue, no token completes twice, and an epoch is
  reported drained only when every token issued in it has completed.
\<close>

inductive log_ok :: "sess_event list \<Rightarrow> bool" where
  log_empty: "log_ok []"
| log_issue: "log_ok evs \<Longrightarrow> 0 < k \<Longrightarrow> k < 0xffffffff \<Longrightarrow> \<forall>e ts'. Issued e k ts' \<notin> set evs \<Longrightarrow> log_ok (evs @ [Issued epoch k ts])"
| log_return: "log_ok evs \<Longrightarrow> Issued epoch k ts \<in> set evs \<Longrightarrow> \<forall>e ts'. Returned e k ts' \<notin> set evs \<Longrightarrow> log_ok (evs @ [Returned epoch k ts])"
| log_drain: "log_ok evs \<Longrightarrow> \<forall>k ts. Issued epoch k ts \<in> set evs \<longrightarrow> Returned epoch k ts \<in> set evs \<Longrightarrow> log_ok (evs @ [Drained epoch])"

inductive_simps log_ok_snoc [simp]: "log_ok (evs @ [e])"

definition pending_of :: "u64 \<Rightarrow> sess_event list \<Rightarrow> (u64 \<times> u64) set" where
  "pending_of epoch evs = {(k, ts). Issued epoch k ts \<in> set evs \<and> Returned epoch k ts \<notin> set evs}"

fun event_epoch :: "sess_event \<Rightarrow> u64" where
  "event_epoch (Issued e k ts) = e" | "event_epoch (Returned e k ts) = e" | "event_epoch (Drained e) = e"

definition open_phase :: "crystalhd_v4l2_decoder_phase \<Rightarrow> bool" where
  "open_phase p \<longleftrightarrow> p = CHD_V4L2_OFF \<or> p = CHD_V4L2_RUNNING \<or> p = CHD_V4L2_DRAINING"

definition log_inv :: "crystalhd_v4l2_decoder \<Rightarrow> sess_event list \<Rightarrow> bool" where
  "log_inv d evs \<longleftrightarrow> decoder_wf d \<and> log_ok evs \<and> (\<forall>e\<in>set evs. event_epoch e \<le> vd_epoch d) \<and>
    (\<forall>e k ts. Issued e k ts \<in> set evs \<longrightarrow> k < ucast (vd_next_token d)) \<and>
    (open_phase (vd_phase d) \<longrightarrow> ledger d = pending_of (vd_epoch d) evs)"

fun sess_inv :: "sess_state \<Rightarrow> bool" where
  "sess_inv (d, c, evs) \<longleftrightarrow> chan_inv c \<and> log_inv d evs"

lemma log_ok_returned: "log_ok evs \<Longrightarrow> Returned e k ts \<in> set evs \<Longrightarrow> Issued e k ts \<in> set evs"
  by (induction rule: log_ok.induct) auto

lemma log_ok_issued_once: "log_ok evs \<Longrightarrow> Issued e k ts \<in> set evs \<Longrightarrow> Issued e' k ts' \<in> set evs \<Longrightarrow> e = e' \<and> ts = ts'"
  by (induction rule: log_ok.induct) auto

lemma log_inv_phase:
  assumes "log_inv d evs" "open_phase p \<Longrightarrow> open_phase (vd_phase d)"
  shows "log_inv (d\<lparr>vd_phase := p\<rparr>) evs"
  using assms by (auto simp: log_inv_def)

lemma log_inv_reset:
  assumes "log_inv d evs"
  shows "log_inv (crystalhd_v4l2_decoder_reset d) evs"
proof -
  let ?d = "crystalhd_v4l2_decoder_reset d"
  have wf: "decoder_wf d" using assms by (simp add: log_inv_def)
  note r = wf_reset [OF wf]
  show ?thesis
  proof (cases "vd_epoch d = - 1")
    case True
    then have "vd_epoch ?d = vd_epoch d" "\<not> open_phase (vd_phase ?d)" using r(4) by (auto simp: open_phase_def)
    then show ?thesis using assms r(1,3) by (simp add: log_inv_def)
  next
    case False
    then have e: "vd_epoch ?d = vd_epoch d + 1" "vd_epoch d < vd_epoch d + 1"
      using r(4) word_le_plus_one [of "vd_epoch d"] by (auto simp: order.strict_iff_order)
    then have lt: "\<forall>x\<in>set evs. event_epoch x < vd_epoch ?d" using assms by (auto simp: log_inv_def)
    then have "pending_of (vd_epoch ?d) evs = {}" by (fastforce simp: pending_of_def)
    then show ?thesis using assms r(1,2,3) lt by (auto simp: log_inv_def)
  qed
qed

lemma log_inv_issue:
  assumes inv: "log_inv d evs" and wf: "decoder_wf d'" "ledger d' = insert (ucast (vd_next_token d), ts) (ledger d)"
    and same: "vd_phase d' = vd_phase d" "vd_epoch d' = vd_epoch d" "vd_next_token d' = vd_next_token d + 1"
    and n: "vd_phase d = CHD_V4L2_RUNNING" "vd_next_token d \<noteq> 0xffffffff"
  shows "log_inv d' (evs @ [Issued (vd_epoch d) (ucast (vd_next_token d)) ts])"
proof -
  let ?k = "ucast (vd_next_token d) :: u64"
  have I: "log_ok evs" "\<And>e k ts. Issued e k ts \<in> set evs \<Longrightarrow> k < ?k" "ledger d = pending_of (vd_epoch d) evs" "vd_next_token d \<noteq> 0"
    using inv n(1) unfolding log_inv_def open_phase_def decoder_wf_def by blast+
  have m: "unat (vd_next_token d) < 0xffffffff"
    using n(2) unat_u32_less [of "vd_next_token d"] by (auto simp: word_unat_eq_iff)
  then have k: "0 < ?k" "?k < 0xffffffff" "?k < ucast (vd_next_token d + 1)"
    using I(4) by (simp_all add: word_less_nat_alt unat_gt_0 unat_word_ariths)
  have fresh: "\<forall>e ts'. Issued e ?k ts' \<notin> set evs" using I(2) by blast
  then have ret: "\<forall>e ts'. Returned e ?k ts' \<notin> set evs" using log_ok_returned [OF I(1)] by blast
  have "log_ok (evs @ [Issued (vd_epoch d) ?k ts])" using I(1) k fresh by simp
  moreover have "pending_of (vd_epoch d) (evs @ [Issued (vd_epoch d) ?k ts]) = insert (?k, ts) (pending_of (vd_epoch d) evs)"
    using ret by (auto simp: pending_of_def)
  moreover have "\<forall>e k' ts'. Issued e k' ts' \<in> set (evs @ [Issued (vd_epoch d) ?k ts]) \<longrightarrow> k' < ucast (vd_next_token d')"
    using I(2) k(3) same(3) by (fastforce dest: less_trans)
  ultimately show ?thesis using inv wf same I(3) by (auto simp: log_inv_def)
qed

lemma log_inv_return:
  assumes inv: "log_inv d evs" and wf: "decoder_wf d'" "ledger d' = ledger d - {(k, ts)}" "(k, ts) \<in> ledger d"
    and same: "vd_phase d' = vd_phase d" "vd_epoch d' = vd_epoch d" "vd_next_token d' = vd_next_token d"
    and n: "open_phase (vd_phase d)"
  shows "log_inv d' (evs @ [Returned (vd_epoch d) k ts])"
proof -
  have I: "log_ok evs" "ledger d = pending_of (vd_epoch d) evs" using inv n by (auto simp: log_inv_def)
  have k: "Issued (vd_epoch d) k ts \<in> set evs" "Returned (vd_epoch d) k ts \<notin> set evs" using wf(3) I(2) by (auto simp: pending_of_def)
  have "Returned e k ts' \<notin> set evs" for e ts'
    using k log_ok_returned [OF I(1)] log_ok_issued_once [OF I(1) k(1)] by metis
  then have "log_ok (evs @ [Returned (vd_epoch d) k ts])" using I(1) k by simp
  moreover have "pending_of (vd_epoch d) (evs @ [Returned (vd_epoch d) k ts]) = pending_of (vd_epoch d) evs - {(k, ts)}"
    by (auto simp: pending_of_def)
  ultimately show ?thesis using inv wf(1,2) same I(2) by (auto simp: log_inv_def)
qed

lemma log_inv_drain:
  assumes inv: "log_inv d evs" and e: "ledger d = {}" "vd_phase d = CHD_V4L2_DRAINING"
  shows "log_inv (d\<lparr>vd_phase := CHD_V4L2_DRAINED\<rparr>) (evs @ [Drained (vd_epoch d)])"
proof -
  have "pending_of (vd_epoch d) evs = {}" "log_ok evs" using inv e by (auto simp: log_inv_def open_phase_def)
  then have "log_ok (evs @ [Drained (vd_epoch d)])" by (auto simp: pending_of_def)
  then show ?thesis using inv by (auto simp: log_inv_def open_phase_def)
qed

text \<open>The life-cycle calls change only the phase, or reset the session.\<close>

lemma open_effect:
  assumes inv: "chan_inv c" and ok: "sess_op_ok (Se_Open owner la a0 kz coh a1 a2 a3 a4)"
  obtains rc d' c' where "crystalhd_v4l2_decoder_open_locked t la a0 kz coh a1 a2 a3 a4 (Some d) (Some c) owner = Some (rc, Some d', Some c')"
    "chan_inv c'" "d' = d \<or> vd_phase d = CHD_V4L2_OFF \<and> (\<exists>p. (p = CHD_V4L2_RUNNING \<or> p = CHD_V4L2_FAILED) \<and> d' = d\<lparr>vd_phase := p\<rparr>)"
proof (cases "owner = None \<or> vd_phase d \<noteq> CHD_V4L2_OFF")
  case True
  then have "\<exists>rc. crystalhd_v4l2_decoder_open_locked t la a0 kz coh a1 a2 a3 a4 (Some d) (Some c) owner = Some (rc, Some d, Some c)"
    by (auto simp: crystalhd_v4l2_decoder_open_locked_def Let_def)
  then show ?thesis using that inv by blast
next
  case False
  then have g: "owner \<noteq> None" "\<not> vd_phase d \<noteq> CHD_V4L2_OFF" by auto
  have w: "world_ok (la_world la)" "world_ok (fa_world a0)" "world_ok (fa_world a1)" "world_ok (fa_world a2)" "world_ok (fa_world a3)" "world_ok (fa_world a4)"
    using ok by simp_all
  obtain r0 c0 where b: "(if cmd_decoder_phase (dc_cmd c) \<noteq> CRYSTALHD_DECODER_BOOTSTRAPPED
                             then crystalhd_fw_bootstrap_locked t la a0 (Some c) owner else Some (rc_ok, Some c)) = Some (r0, Some c0)" "chan_inv c0"
    using bootstrap_inv [OF inv w(1,2), of t owner] inv by (cases "cmd_decoder_phase (dc_cmd c) = CRYSTALHD_DECODER_BOOTSTRAPPED") auto
  obtain r1 c1 where o: "crystalhd_decoder_channel_open_locked t kz coh a1 a2 (Some c0) owner (Some CRYSTALHD_DECODER_CODEC_H264) = Some (r1, Some c1)" "chan_inv c1"
    using open_inv [OF b(2) w(3,4)] by blast
  obtain r2 c2 where st: "crystalhd_decoder_channel_start_locked t a3 a4 (Some c1) owner = Some (r2, Some c2)" "chan_inv c2"
    using start_inv [OF o(2) w(5,6)] by blast
  let ?fail = "d\<lparr>vd_phase := CHD_V4L2_FAILED\<rparr>"
  have "crystalhd_v4l2_decoder_open_locked t la a0 kz coh a1 a2 a3 a4 (Some d) (Some c) owner =
     Some (if r0 \<noteq> rc_ok then (r0, Some ?fail, Some c0) else if r1 \<noteq> rc_ok then (r1, Some ?fail, Some c1)
       else if r2 \<noteq> rc_ok then (r2, Some ?fail, Some c2) else (rc_ok, Some (d\<lparr>vd_phase := CHD_V4L2_RUNNING\<rparr>), Some c2))"
    unfolding crystalhd_v4l2_decoder_open_locked_def Let_def prod.case option.case if_not_P [OF g(1)] if_not_P [OF g(2)] b(1)
    using o(1) st(1) by auto
  then have "\<exists>rc d' c'. crystalhd_v4l2_decoder_open_locked t la a0 kz coh a1 a2 a3 a4 (Some d) (Some c) owner = Some (rc, Some d', Some c') \<and> chan_inv c' \<and>
    (\<exists>p. (p = CHD_V4L2_RUNNING \<or> p = CHD_V4L2_FAILED) \<and> d' = d\<lparr>vd_phase := p\<rparr>)"
    using b(2) o(2) st(2) by (cases "r0 = rc_ok"; cases "r1 = rc_ok"; cases "r2 = rc_ok") auto
  then show ?thesis using that g(2) by blast
qed

lemma stop_effect:
  assumes inv: "chan_inv c" and ok: "world_ok (fa_world a)"
  obtains rc d' c' where "crystalhd_v4l2_decoder_stop_locked t a (Some d) (Some c) owner = Some (rc, Some d', Some c')" "chan_inv c'"
    "d' = d \<or> d' = d\<lparr>vd_phase := CHD_V4L2_STOPPED\<rparr> \<or> d' = d\<lparr>vd_phase := CHD_V4L2_FAILED\<rparr>"
proof (cases "owner = None \<or> cmd_decoder_phase (dc_cmd c) \<noteq> CRYSTALHD_DECODER_CHANNEL_STARTED")
  case True
  then have "\<exists>rc. crystalhd_v4l2_decoder_stop_locked t a (Some d) (Some c) owner = Some (rc, Some d, Some c)"
    by (auto simp: crystalhd_v4l2_decoder_stop_locked_def)
  then show ?thesis using that inv by blast
next
  case False
  obtain r c' where "crystalhd_decoder_channel_stop_locked t a (Some c) owner = Some (r, Some c')" "chan_inv c'" using stop_inv [OF inv ok] by blast
  then show ?thesis using that [of r "d\<lparr>vd_phase := (if r \<noteq> rc_ok then CHD_V4L2_FAILED else CHD_V4L2_STOPPED)\<rparr>" c'] False
    by (cases r) (auto simp: crystalhd_v4l2_decoder_stop_locked_def)
qed

lemma close_effect:
  assumes inv: "chan_inv c" and ok: "world_ok (fa_world a)"
  obtains rc d' c' where "crystalhd_v4l2_decoder_close_locked t a (Some d) (Some c) owner = Some (rc, Some d', Some c')" "chan_inv c'"
    "d' = d \<or> d' = d\<lparr>vd_phase := CHD_V4L2_FAILED\<rparr> \<or> d' = crystalhd_v4l2_decoder_reset d"
proof (cases "owner = None \<or> cmd_decoder_phase (dc_cmd c) \<noteq> CRYSTALHD_DECODER_CHANNEL_CONFIGURED")
  case True
  then have "\<exists>rc. crystalhd_v4l2_decoder_close_locked t a (Some d) (Some c) owner = Some (rc, Some d, Some c)"
    by (auto simp: crystalhd_v4l2_decoder_close_locked_def)
  then show ?thesis using that inv by blast
next
  case False
  obtain r c' where "crystalhd_decoder_channel_close_locked t a (Some c) owner = Some (r, Some c')" "chan_inv c'" using close_inv [OF inv ok] by blast
  then show ?thesis using that [of r "if r \<noteq> rc_ok then d\<lparr>vd_phase := CHD_V4L2_FAILED\<rparr> else crystalhd_v4l2_decoder_reset d" c'] False
    by (auto simp: crystalhd_v4l2_decoder_close_locked_def)
qed

lemma drop_push_u32:
  fixes k :: u32
  assumes "m \<le> 32"
  shows "drop_bit m (push_bit m (ucast k :: u64)) = ucast k"
proof (rule bit_word_eqI)
  fix n assume "n < LENGTH(64)"
  then show "bit (drop_bit m (push_bit m (ucast k :: u64))) n = bit (ucast k :: u64) n"
    using bit_imp_le_length [of k n] assms by (auto simp: bit_simps)
qed

lemmas drop_token_raw = drop_push_u32 [of 1, OF one_le_numeral]
lemmas drop_token [simp] = drop_token_raw drop_token_raw [simplified]

lemma sess_step_inv:
  assumes "sess_inv s" "sess_op_ok op"
  shows "\<exists>ev s'. sess_step t op s = Some (ev, s') \<and> sess_inv s'"
proof -
  obtain d c evs where s: "s = (d, c, evs)" by (cases s)
  then have inv: "chan_inv c" "log_inv d evs" "decoder_wf d" using assms(1) by (simp_all add: log_inv_def)
  have fl: "log_inv (d\<lparr>vd_phase := CHD_V4L2_FAILED\<rparr>) evs" "log_inv (d\<lparr>vd_phase := CHD_V4L2_STOPPED\<rparr>) evs"
    by (rule log_inv_phase [OF inv(2)]; simp add: open_phase_def)+
  show ?thesis
  proof (cases op)
    case (Se_Open owner la a0 kz coh a1 a2 a3 a4)
    obtain rc d' c' where e: "crystalhd_v4l2_decoder_open_locked t la a0 kz coh a1 a2 a3 a4 (Some d) (Some c) owner = Some (rc, Some d', Some c')"
      "chan_inv c'" "d' = d \<or> vd_phase d = CHD_V4L2_OFF \<and> (\<exists>p. (p = CHD_V4L2_RUNNING \<or> p = CHD_V4L2_FAILED) \<and> d' = d\<lparr>vd_phase := p\<rparr>)"
      using assms(2) unfolding Se_Open by (rule open_effect [OF inv(1)])
    have "vd_phase d = CHD_V4L2_OFF \<Longrightarrow> log_inv (d\<lparr>vd_phase := CHD_V4L2_RUNNING\<rparr>) evs"
      by (rule log_inv_phase [OF inv(2)]) (simp add: open_phase_def)
    then have "log_inv d' evs" using e(3) inv(2) fl by auto
    then show ?thesis using e(1,2) by (simp add: s Se_Open)
  next
    case (Se_Stop owner a)
    then have "world_ok (fa_world a)" using assms(2) by simp
    from stop_effect [OF inv(1) this, of t d owner] show ?thesis
      using fl inv(2) by (fastforce simp: s Se_Stop)
  next
    case (Se_Close owner a)
    then have "world_ok (fa_world a)" using assms(2) by simp
    from close_effect [OF inv(1) this, of t d owner] show ?thesis
      using fl inv(2) log_inv_reset [OF inv(2)] by (fastforce simp: s Se_Close)
  next
    case Se_Reset
    then show ?thesis using inv(1) log_inv_reset [OF inv(2)] by (simp add: s)
  next
    case (Se_Reserve owner buffer data ts)
    show ?thesis
    proof (cases rule: reserve_effect [OF inv(3), of True owner buffer data ts, case_names refused booked])
      case (refused e b')
      then show ?thesis using inv by (simp add: s Se_Reserve)
    next
      case (booked d' b' i p' rg)
      have "vd_phase d' = vd_phase d" "vd_epoch d' = vd_epoch d" "vd_next_token d' = vd_next_token d + 1" by (simp_all add: booked(3))
      from log_inv_issue [OF inv(2) booked(6,7) this booked(8,9)]
      show ?thesis using inv(1) booked(2) by (simp add: s Se_Reserve Let_def)
    qed
  next
    case (Se_Submitted rc)
    then show ?thesis using inv fl by (simp add: s crystalhd_v4l2_decoder_submitted_def)
  next
    case Se_Begin_Drain
    have "log_inv (d\<lparr>vd_phase := CHD_V4L2_DRAINING\<rparr>) evs" if "vd_phase d = CHD_V4L2_RUNNING"
      by (rule log_inv_phase [OF inv(2)]) (simp add: open_phase_def that)
    then show ?thesis using inv by (simp add: s Se_Begin_Drain crystalhd_v4l2_decoder_begin_drain_def)
  next
    case (Se_Complete m epoch)
    show ?thesis
    proof (cases rule: complete_effect [OF inv(3), of m epoch, case_names refused drained returned])
      case (refused e)
      then show ?thesis using inv by (simp add: s Se_Complete Let_def)
    next
      case drained
      then show ?thesis using inv(1) log_inv_drain [OF inv(2) drained(4,3)] by (simp add: s Se_Complete Let_def)
    next
      case (returned md i d')
      have "(md_firmware_timestamp md, tr_timestamp (vd_timestamps d ! i)) \<in> ledger d"
        unfolding returned(5) [symmetric] ledger_def using returned(4) by simp
      from log_inv_return [OF inv(2) returned(7) _ this returned(9-11)] returned(3,5,8)
      have "log_inv d' (evs @ [Returned epoch (md_firmware_timestamp md) (tr_timestamp (vd_timestamps d ! i))])"
        by (auto simp: open_phase_def returned(2))
      then show ?thesis using inv(1) returned(6) by (simp add: s Se_Complete returned(1) Let_def)
    qed
  next
    case (Se_World c')
    then show ?thesis using inv assms(2) by (simp add: s)
  qed
qed

interpretation session: call_history "sess_step t" sess_op_ok sess_inv for t
  using sess_step_inv by unfold_locales blast

text \<open>The log of a history is what its calls report.\<close>

lemma sess_step_log:
  assumes "sess_step t op (d, c, evs) = Some (ev, d', c', evs')"
  shows "evs' = evs @ ev"
  using assms by (cases op) (auto simp: Let_def bind_eq_Some_conv)

lemma run_log:
  assumes "run_ops (sess_step t) ops (d, c, evs) = Some (rs, d', c', evs')"
  shows "evs' = evs @ concat rs"
  using assms
proof (induction ops arbitrary: d c evs rs)
  case (Cons op ops)
  from Cons.prems obtain ev d1 c1 evs1 rs1 where s: "sess_step t op (d, c, evs) = Some (ev, d1, c1, evs1)"
    "run_ops (sess_step t) ops (d1, c1, evs1) = Some (rs1, d', c', evs')" "rs = ev # rs1"
    by (auto simp: bind_eq_Some_conv)
  show ?case using Cons.IH [OF s(2)] sess_step_log [OF s(1)] s(3) by simp
qed simp

text \<open>A failed session.\<close>

fun sess_releases :: "sess_op \<Rightarrow> bool" where
  "sess_releases (Se_Stop _ _) = True" | "sess_releases (Se_Close _ _) = True" | "sess_releases Se_Reset = True"
| "sess_releases _ = False"

fun failed_at :: "crystalhd_v4l2_decoder \<Rightarrow> sess_event list \<Rightarrow> sess_state \<Rightarrow> bool" where
  "failed_at d0 evs0 (d, c, evs) \<longleftrightarrow> chan_inv c \<and> d = d0 \<and> evs = evs0 \<and> decoder_wf d0 \<and> vd_phase d0 = CHD_V4L2_FAILED"

lemma failed_step:
  assumes "failed_at d0 evs0 s" "sess_op_ok op \<and> \<not> sess_releases op"
  shows "\<exists>ev s'. sess_step t op s = Some (ev, s') \<and> failed_at d0 evs0 s'"
proof -
  obtain c where s: "s = (d0, c, evs0)" "chan_inv c" "decoder_wf d0" "vd_phase d0 = CHD_V4L2_FAILED" using assms(1) by (cases s) auto
  show ?thesis
  proof (cases op)
    case (Se_Open owner la a0 kz coh a1 a2 a3 a4)
    have "sess_op_ok (Se_Open owner la a0 kz coh a1 a2 a3 a4)" using assms(2) Se_Open by blast
    from open_effect [OF s(2) this, of t d0] obtain rc d' c' where
      e: "crystalhd_v4l2_decoder_open_locked t la a0 kz coh a1 a2 a3 a4 (Some d0) (Some c) owner = Some (rc, Some d', Some c')" "chan_inv c'" "d' = d0"
      using s(4) by auto
    then show ?thesis using s by (simp add: Se_Open)
  next
    case (Se_Reserve owner buffer data ts)
    show ?thesis
      by (cases rule: reserve_effect [OF s(3), of True owner buffer data ts, case_names refused booked])
        (use s in \<open>simp_all add: Se_Reserve Let_def\<close>)
  next
    case (Se_Complete m epoch)
    show ?thesis
      by (cases rule: complete_effect [OF s(3), of m epoch, case_names refused drained returned])
        (use s in \<open>auto simp: Se_Complete Let_def\<close>)
  qed (use s assms(2) in \<open>auto simp: crystalhd_v4l2_decoder_submitted_def crystalhd_v4l2_decoder_begin_drain_def\<close>)
qed

interpretation failed_session: call_history "sess_step t" "\<lambda>op. sess_op_ok op \<and> \<not> sess_releases op" "failed_at d0 evs0" for t d0 evs0
  using failed_step by unfold_locales blast

text \<open>The picture of a pending token.\<close>

definition picture_md :: "crystalhd_rx_metadata \<Rightarrow> bool" where
  "picture_md m \<longleftrightarrow> md_valid m \<and> \<not> md_eos_trailer m \<and> \<not> has_flag (md_picture_flags m) CRYSTALHD_PICTURE_FLAG_DECODE_ERROR"

definition trailer_md :: "crystalhd_rx_metadata \<Rightarrow> bool" where
  "trailer_md m \<longleftrightarrow> md_valid m \<and> md_eos_trailer m \<and> \<not> has_flag (md_picture_flags m) CRYSTALHD_PICTURE_FLAG_DECODE_ERROR \<and>
    has_flag (md_picture_flags m) CRYSTALHD_PICTURE_FLAG_EOS \<and> md_pib_line m = 0 \<and> md_picture_number m = 0xffffffff"

lemma ucast_u32_bound: "(ucast k :: u64) \<le> 0xffffffff" for k :: u32
  using unat_u32_less [of k] by (simp add: word_le_nat_alt)

lemma ledger_functional:
  assumes "decoder_wf d" "(k, ts) \<in> ledger d" "(k, ts') \<in> ledger d"
  shows "ts = ts'"
proof -
  obtain i j where ij: "i \<in> live (vd_timestamps d)" "(k, ts) = row_entry (vd_timestamps d ! i)"
    "j \<in> live (vd_timestamps d)" "(k, ts') = row_entry (vd_timestamps d ! j)" using assms(2,3) by (auto simp: ledger_def)
  then have "tr_token (vd_timestamps d ! i) = tr_token (vd_timestamps d ! j)" by (auto simp: row_entry_def)
  then have "i = j" using assms(1) ij(1,3) by (auto simp: decoder_wf_def inj_on_def)
  then show ?thesis using ij by (simp add: row_entry_def)
qed

lemma complete_pending:
  assumes wf: "decoder_wf d" "(k, ts) \<in> ledger d" and ph: "vd_phase d = CHD_V4L2_RUNNING \<or> vd_phase d = CHD_V4L2_DRAINING"
    and m: "picture_md m" "md_firmware_timestamp m = k"
  obtains rg d' where "crystalhd_v4l2_decoder_complete_observed (Some d) (Some m) (vd_epoch d) = Some (Complete_Picture ts rg, Some d')"
    "decoder_wf d'" "ledger d' = ledger d - {(k, ts)}" "vd_phase d' = vd_phase d" "vd_epoch d' = vd_epoch d"
proof (cases rule: complete_effect [OF wf(1), of "Some m" "vd_epoch d", case_names refused drained returned])
  case (returned md i d')
  have e: "row_entry (vd_timestamps d ! i) \<in> ledger d" using returned(4) by (simp add: ledger_def)
  obtain j where j: "j \<in> live (vd_timestamps d)" "row_entry (vd_timestamps d ! j) = (k, ts)" using wf(2) by (auto simp: ledger_def)
  then have "tr_token (vd_timestamps d ! i) = tr_token (vd_timestamps d ! j)" using returned(1,5) m(2) by (auto simp: row_entry_def)
  then have "i = j" using wf(1) returned(4) j(1) by (auto simp: decoder_wf_def inj_on_def)
  then have "row_entry (vd_timestamps d ! i) = (k, ts)" "tr_timestamp (vd_timestamps d ! i) = ts" using j(2) by (simp_all add: row_entry_def)
  then show ?thesis using that [of "tr_input_range (vd_timestamps d ! i)" d'] returned m(1) by (simp add: picture_md_def)
next
  case (refused e)
  obtain j where j: "j < length (vd_timestamps d)" "ucast (tr_token (vd_timestamps d ! j)) = k" using wf(2) by (auto simp: ledger_def live_def row_entry_def)
  have "k < 0xffffffff" using ledger_token(2) [OF wf] ucast_u32_bound [of "vd_next_token d"] by (rule less_le_trans)
  then have k: "\<not> (k = 0 \<or> k \<ge> 0xffffffff)" using ledger_token(1) [OF wf] by (auto simp: not_le)
  have f: "find_row (\<lambda>x. ucast x = k) (vd_timestamps d) 0 \<noteq> None" using j by (auto simp: find_row_None)
  then obtain i where i: "find_row (\<lambda>x. ucast x = k) (vd_timestamps d) 0 = Some i" by blast
  show ?thesis using refused ph m k i find_row_hit(1) [OF i]
    unfolding crystalhd_v4l2_decoder_complete_observed_def prod.case option.case Let_def m(2) if_not_P [OF k]
    by (auto simp: picture_md_def)
qed (use wf(2) in simp)

definition complete_step :: "u64 \<Rightarrow> crystalhd_rx_metadata \<Rightarrow> crystalhd_v4l2_decoder \<Rightarrow> (complete_result \<times> crystalhd_v4l2_decoder) option" where
  "complete_step epoch m d = do { (r, dd) \<leftarrow> crystalhd_v4l2_decoder_complete_observed (Some d) (Some m) epoch; d' \<leftarrow> dd; Some (r, d') }"

lemma drain_run:
  assumes "decoder_wf d" "vd_phase d = CHD_V4L2_DRAINING" "\<forall>m\<in>set ms. picture_md m" "trailer_md tm"
    "distinct (map md_firmware_timestamp ms)" "set (map md_firmware_timestamp ms) = fst ` ledger d"
  shows "\<exists>rs d'. run_ops (complete_step (vd_epoch d)) (ms @ [tm]) d = Some (rs @ [Complete_Drained], d') \<and> vd_phase d' = CHD_V4L2_DRAINED \<and>
    list_all2 (\<lambda>m r. \<exists>ts rg. r = Complete_Picture ts rg \<and> (md_firmware_timestamp m, ts) \<in> ledger d) ms rs"
  using assms
proof (induction ms arbitrary: d)
  case Nil
  then have "ledger d = {}" by simp
  then have z: "vd_count d = 0" using card_ledger [OF Nil.prems(1)] by (simp add: unat_eq_0 [symmetric])
  then have "complete_step (vd_epoch d) tm d = Some (Complete_Drained, d\<lparr>vd_phase := CHD_V4L2_DRAINED\<rparr>)"
    using Nil.prems(2,4) by (simp add: complete_step_def crystalhd_v4l2_decoder_complete_observed_def trailer_md_def Let_def)
  then show ?case by (intro exI [of _ "[]"]) simp
next
  case (Cons m ms)
  have "md_firmware_timestamp m \<in> fst ` ledger d" using Cons.prems(6) by auto
  then obtain ts where k: "(md_firmware_timestamp m, ts) \<in> ledger d" by force
  have "vd_phase d = CHD_V4L2_RUNNING \<or> vd_phase d = CHD_V4L2_DRAINING" "picture_md m" using Cons.prems(2,3) by simp_all
  from complete_pending [OF Cons.prems(1) k this refl] obtain rg d1 where
    c: "crystalhd_v4l2_decoder_complete_observed (Some d) (Some m) (vd_epoch d) = Some (Complete_Picture ts rg, Some d1)"
    "decoder_wf d1" "ledger d1 = ledger d - {(md_firmware_timestamp m, ts)}" "vd_phase d1 = vd_phase d" "vd_epoch d1 = vd_epoch d" by metis
  have "k \<noteq> md_firmware_timestamp m" if "(k, ts') \<in> ledger d1" for k ts'
    using that c(3) k ledger_functional [OF Cons.prems(1)] by auto
  then have "fst ` ledger d1 = fst ` ledger d - {md_firmware_timestamp m}" unfolding c(3) by (force simp: image_iff)
  moreover have "set (map md_firmware_timestamp ms) = set (map md_firmware_timestamp (m # ms)) - {md_firmware_timestamp m}"
    using Cons.prems(5) by simp
  ultimately have "set (map md_firmware_timestamp ms) = fst ` ledger d1" unfolding Cons.prems(6) by simp
  then obtain rs d' where r: "run_ops (complete_step (vd_epoch d)) (ms @ [tm]) d1 = Some (rs @ [Complete_Drained], d')" "vd_phase d' = CHD_V4L2_DRAINED"
    "list_all2 (\<lambda>m r. \<exists>ts rg. r = Complete_Picture ts rg \<and> (md_firmware_timestamp m, ts) \<in> ledger d1) ms rs"
    using Cons.IH [of d1] Cons.prems(2-5) c(2,4,5) by auto
  from r(3) have "list_all2 (\<lambda>m r. \<exists>ts rg. r = Complete_Picture ts rg \<and> (md_firmware_timestamp m, ts) \<in> ledger d) ms rs"
    by (rule list_all2_mono) (use c(3) in auto)
  moreover have "complete_step (vd_epoch d) m d = Some (Complete_Picture ts rg, d1)" using c(1) by (simp add: complete_step_def)
  ultimately show ?case using r(1,2) k by (intro exI [of _ "Complete_Picture ts rg # rs"] exI [of _ d']) auto
qed

lemma submit_effect:
  assumes wf: "decoder_wf d" "ctx_wf (Some (dc_cmd c))" and au: "au \<noteq> []"
  obtains (refused) e where "reserve_refusal d True owner None = Some e"
      "crystalhd_v4l2_decoder_submit tj j xfer (Some d) (Some c) owner (Some au) ts ms = Some (Some e, Some d, Some c, [])"
  | (sent) rc d' m sent where "reserve_refusal d True owner None = rc_ok" "decoder_wf d'" "ledger d' = insert (ucast (vd_next_token d), ts) (ledger d)"
      "vd_phase d' = (if rc = rc_ok then CHD_V4L2_RUNNING else CHD_V4L2_FAILED)" "vd_epoch d' = vd_epoch d"
      "crystalhd_decoder_submit_h264 tj j xfer (Some (dc_cmd c)) owner (Some au) (length au) True (push_bit 1 (ucast (vd_next_token d))) ms = Some (rc, m, sent)"
      "crystalhd_v4l2_decoder_submit tj j xfer (Some d) (Some c) owner (Some au) ts ms = Some (rc, Some d', put_cmd (Some c) m, sent)"
proof (cases rule: reserve_effect [OF wf(1), of True owner None "Some au" ts, case_names no yes])
  case (no e b')
  then show ?thesis using refused [of e] au by (simp add: crystalhd_v4l2_decoder_submit_def crystalhd_v4l2_decoder_reserve_au_def)
next
  case (yes d' b' i p' rg)
  let ?pts = "push_bit 1 (ucast (vd_next_token d)) :: u64"
  obtain rc m ps where x: "crystalhd_decoder_submit_h264 tj j xfer (Some (dc_cmd c)) owner (Some au) (length au) True ?pts ms = Some (rc, m, ps)"
    using staged_ctx_wf [OF wf(2) order.refl] by blast
  define d2 where "d2 = (if rc = rc_ok then d' else d'\<lparr>vd_phase := CHD_V4L2_FAILED\<rparr>)"
  have "crystalhd_v4l2_decoder_submit tj j xfer (Some d) (Some c) owner (Some au) ts ms = Some (rc, Some d2, put_cmd (Some c) m, ps)"
    unfolding crystalhd_v4l2_decoder_submit_def crystalhd_v4l2_decoder_reserve_au_def
    using au yes(2) x by (simp add: d2_def crystalhd_v4l2_decoder_submitted_def)
  moreover have "vd_phase d' = CHD_V4L2_RUNNING" "vd_epoch d' = vd_epoch d" using yes(3,8) by simp_all
  ultimately show ?thesis using sent [of d2 rc m ps] yes(1,6,7) x by (simp add: d2_def)
qed

section \<open>Properties\<close>

text \<open>
  C7: Pictures and access units are correlated exactly once. From a fresh session, whatever sequence of
  opening, reserving, transfer outcomes, completions, draining, stopping, closing and resetting follows,
  with any answers of the firmware and any metadata, stale or forged, every call returns. In the log of
  what the calls reported no token is issued twice or with a reserved value, a completion carries the time
  stamp of the access unit its token was issued for in the same epoch, no token completes twice, and
  an epoch is reported drained only after every access unit of it completed. While the session
  accepts input or drains, its table holds exactly the tokens issued in this epoch and not completed.
\<close>

theorem session_exactly_once:
  assumes "chan_inv c" "\<forall>op\<in>set ops. sess_op_ok op"
  shows "\<exists>rs d' c' evs. run_ops (sess_step t) ops (crystalhd_v4l2_decoder_init, c, []) = Some (rs, d', c', evs) \<and> length rs = length ops \<and>
    log_ok (concat rs) \<and> decoder_wf d' \<and>
    (vd_phase d' = CHD_V4L2_RUNNING \<or> vd_phase d' = CHD_V4L2_DRAINING \<longrightarrow> ledger d' = pending_of (vd_epoch d') (concat rs))"
proof -
  have "sess_inv (crystalhd_v4l2_decoder_init, c, [])" using assms(1) wf_init by (simp add: log_inv_def log_empty pending_of_def)
  from session.run_total [OF this assms(2), of t] obtain rs d' c' evs where
    r: "run_ops (sess_step t) ops (crystalhd_v4l2_decoder_init, c, []) = Some (rs, d', c', evs)" "log_inv d' evs" "length rs = length ops" by auto
  from run_log [OF r(1)] have "evs = concat rs" by simp
  then show ?thesis using r by (auto simp: log_inv_def open_phase_def)
qed

text \<open>
  C26: Admission. A reservation is refused for exactly the reason of its first failing condition, with the
  session unchanged: no context or owner, not running, 256 access units outstanding, tokens
  exhausted, no readable input buffer. Otherwise it is granted a token never given before, and books
  exactly that token with its time stamp; a free row exists whenever the count allows it.
\<close>

theorem reserve_admission:
  assumes "decoder_wf d"
  shows "\<exists>r d' b'. crystalhd_v4l2_reserve_input (Some d) has_cmd owner buffer data ts = Some (r, Some d', b') \<and> decoder_wf d' \<and>
    (case reserve_refusal d has_cmd owner buffer of Some e \<Rightarrow> r = Inl e \<and> d' = d
     | None \<Rightarrow> r = Inr (push_bit 1 (ucast (vd_next_token d))) \<and> vd_next_token d' = vd_next_token d + 1 \<and>
         ucast (vd_next_token d) \<notin> fst ` ledger d \<and> ledger d' = insert (ucast (vd_next_token d), ts) (ledger d) \<and>
         card (ledger d') = card (ledger d) + 1)"
proof (cases rule: reserve_effect [OF assms, of has_cmd owner buffer data ts, case_names refused booked])
  case (refused e b')
  then show ?thesis using assms by auto
next
  case (booked d' b' i p' rg)
  have n: "ucast (vd_next_token d) \<notin> fst ` ledger d" using ledger_token(2) [OF assms] by fastforce
  have "finite (ledger d)" by (simp add: ledger_def)
  then have "card (ledger d') = card (ledger d) + 1" using n booked(7) by (force simp: card_insert_if)
  then show ?thesis using booked n by (intro exI [of _ "Inr (push_bit 1 (ucast (vd_next_token d)))"] exI [of _ d'] exI [of _ b']) simp
qed

text \<open>
  C21: Submit and complete are a round trip. A submitted access unit goes to the transfer with its token
  as time stamp; if the transfer succeeds, the picture that brings this token back is given the access
  unit's own time stamp and leaves the table as it was before; if the transfer fails, the session is
  failed and keeps the token.
\<close>

theorem submit_complete_round_trip:
  assumes "decoder_wf d" "ctx_wf (Some (dc_cmd c))" "au \<noteq> []" "reserve_refusal d True owner None = rc_ok"
    "picture_md m" "md_firmware_timestamp m = ucast (vd_next_token d)"
  shows "\<exists>rc d' c' sent. crystalhd_v4l2_decoder_submit tj j xfer (Some d) (Some c) owner (Some au) ts ms = Some (rc, Some d', Some c', sent) \<and>
    (\<exists>x. crystalhd_decoder_submit_h264 tj j xfer (Some (dc_cmd c)) owner (Some au) (length au) True (push_bit 1 (ucast (vd_next_token d))) ms = Some (rc, x, sent)) \<and>
    (if rc = rc_ok
     then \<exists>rg d''. crystalhd_v4l2_decoder_complete_observed (Some d') (Some m) (vd_epoch d) = Some (Complete_Picture ts rg, Some d'') \<and> ledger d'' = ledger d
     else vd_phase d' = CHD_V4L2_FAILED \<and> ledger d' = insert (ucast (vd_next_token d), ts) (ledger d))"
proof (cases rule: submit_effect [OF assms(1-3), of owner tj j xfer ts ms, case_names refused sent])
  case (refused e)
  then show ?thesis using assms(4) by simp
next
  case (sent rc d' x ps)
  have put: "put_cmd (Some c) x = Some (case x of None \<Rightarrow> c | Some y \<Rightarrow> c\<lparr>dc_cmd := y\<rparr>)" by (simp add: put_cmd_def split: option.split)
  have n: "(ucast (vd_next_token d), ts) \<notin> ledger d" using ledger_token(2) [OF assms(1)] by fastforce
  show ?thesis
  proof (cases "rc = rc_ok")
    case True
    then have p: "vd_phase d' = CHD_V4L2_RUNNING \<or> vd_phase d' = CHD_V4L2_DRAINING" "(ucast (vd_next_token d), ts) \<in> ledger d'" using sent(3,4) by simp_all
    obtain rg d'' where c: "crystalhd_v4l2_decoder_complete_observed (Some d') (Some m) (vd_epoch d) = Some (Complete_Picture ts rg, Some d'')"
      "ledger d'' = ledger d' - {(ucast (vd_next_token d), ts)}"
      using complete_pending [OF sent(2) p(2,1) assms(5,6)] sent(5) by metis
    then have "ledger d'' = ledger d" using sent(3) n by simp
    then show ?thesis using True sent(6,7) put c(1) by auto
  next
    case False
    then show ?thesis using sent(3,4,6,7) put by auto
  qed
qed

text \<open>
  C28: Draining comes to an end. When a draining session receives one picture for each outstanding token, in
  whatever order, and then the end-of-stream trailer, every picture is given the time stamp booked for
  its token, and the trailer reports the session drained.
\<close>

theorem drain_completes:
  assumes "decoder_wf d" "vd_phase d = CHD_V4L2_DRAINING" "\<forall>m\<in>set ms. picture_md m" "trailer_md tm"
    "distinct (map md_firmware_timestamp ms)" "set (map md_firmware_timestamp ms) = fst ` ledger d"
  shows "\<exists>rs d'. run_ops (complete_step (vd_epoch d)) (ms @ [tm]) d = Some (rs @ [Complete_Drained], d') \<and>
    crystalhd_v4l2_decoder_drained (Some d') \<and>
    list_all2 (\<lambda>m r. \<exists>ts rg. r = Complete_Picture ts rg \<and> (md_firmware_timestamp m, ts) \<in> ledger d) ms rs"
  using drain_run [OF assms] by (auto simp: crystalhd_v4l2_decoder_drained_def)

text \<open>
  C36: A failed session stays failed. After a failed transfer or opening, until the session is stopped, closed
  or reset, no call admits input, correlates a picture or changes the session, whatever the firmware
  reports.
\<close>

theorem failed_session_closed:
  assumes "decoder_wf d" "vd_phase d = CHD_V4L2_FAILED" "chan_inv c" "\<forall>op\<in>set ops. sess_op_ok op \<and> \<not> sess_releases op"
  shows "\<exists>rs c'. run_ops (sess_step t) ops (d, c, evs) = Some (rs, d, c', evs) \<and> (\<forall>r\<in>set rs. r = [])"
proof -
  have "failed_at d evs (d, c, evs)" using assms by simp
  from failed_session.run_total [OF this assms(4), of t] obtain rs c' where
    r: "run_ops (sess_step t) ops (d, c, evs) = Some (rs, d, c', evs)" by auto
  from run_log [OF r] show ?thesis using r by auto
qed

section \<open>Witnesses\<close>

definition demo_picture :: "u64 \<Rightarrow> crystalhd_rx_metadata" where
  "demo_picture k = \<lparr>md_firmware_timestamp = k, md_picture_number = 1, md_picture_flags = 0, md_picture_width = 1920, md_picture_height = 1080,
     md_row_width = 1920, md_pib_line = 1080, md_first_pixel_word = 0, md_valid = True, md_eos_trailer = False\<rparr>"

definition demo_trailer :: crystalhd_rx_metadata where
  "demo_trailer = (demo_picture 0)\<lparr>md_picture_number := 0xffffffff, md_picture_flags := 4, md_pib_line := 0, md_eos_trailer := True\<rparr>"

abbreviation demo_session :: "crystalhd_v4l2_decoder_phase \<Rightarrow> crystalhd_v4l2_decoder" where
  "demo_session p \<equiv> crystalhd_v4l2_decoder_init\<lparr>vd_phase := p\<rparr>"

definition demo_booked :: crystalhd_v4l2_decoder where
  "demo_booked = (demo_session CHD_V4L2_DRAINING)\<lparr>vd_next_token := vd_next_token (demo_session CHD_V4L2_DRAINING) + 1,
     vd_timestamps := (vd_timestamps (demo_session CHD_V4L2_DRAINING))[0 := \<lparr>tr_timestamp = 40, tr_token = vd_next_token (demo_session CHD_V4L2_DRAINING),
       tr_input_range = snapshot_zero\<rparr>],
     vd_input_parameters := range_state_zero, vd_count := vd_count (demo_session CHD_V4L2_DRAINING) + 1\<rparr>"

lemma demo_session_wf: "decoder_wf (demo_session p)" "ledger (demo_session p) = {}" "vd_next_token (demo_session p) = 1" "vd_epoch (demo_session p) = 1"
  using wf_init by (simp_all, simp_all add: crystalhd_v4l2_decoder_init_def)

lemma demo_booked_wf: "decoder_wf demo_booked" "ledger demo_booked = {(1, 40)}" "vd_phase demo_booked = CHD_V4L2_DRAINING"
proof -
  have l: "length (vd_timestamps (demo_session CHD_V4L2_DRAINING)) = 256" "live (vd_timestamps (demo_session CHD_V4L2_DRAINING)) = {}"
    "vd_count (demo_session CHD_V4L2_DRAINING) = 0"
    by (simp_all add: crystalhd_v4l2_decoder_init_def)
  have p: "0 < length (vd_timestamps (demo_session CHD_V4L2_DRAINING))" "0 \<notin> live (vd_timestamps (demo_session CHD_V4L2_DRAINING))"
    "vd_next_token (demo_session CHD_V4L2_DRAINING) \<noteq> 0xffffffff" "unat (vd_count (demo_session CHD_V4L2_DRAINING)) < 256"
    using l demo_session_wf(3) [of CHD_V4L2_DRAINING] by simp_all
  from book_row [OF demo_session_wf(1) p range_wf_zero, of 40 snapshot_zero, folded demo_booked_def]
  show "decoder_wf demo_booked" "ledger demo_booked = {(1, 40)}" using demo_session_wf(2,3) by simp_all
  show "vd_phase demo_booked = CHD_V4L2_DRAINING" by (simp add: demo_booked_def)
qed

lemma demo_picture_md: "picture_md (demo_picture k)" "trailer_md demo_trailer" "md_firmware_timestamp (demo_picture k) = k"
  by (simp_all add: picture_md_def trailer_md_def demo_trailer_def demo_picture_def has_flag_def)

lemma demo_cold_inv: "chan_inv demo_cold"
  by (simp add: chan_inv_def mail_free_def has_channel_def demo_chan_defs)

theorem session_exactly_once_witness:
  "\<exists>rs d' c' evs. run_ops (sess_step 3) [Se_Open (Some 7) demo_load (demo_answer BC_STS_SUCCESS) True (Some (replicate 0xfff8 0, 0x10000))
       (demo_answer BC_STS_SUCCESS) (demo_answer BC_STS_SUCCESS) (demo_answer BC_STS_SUCCESS) (demo_answer BC_STS_SUCCESS),
     Se_Reserve (Some 7) None None 40, Se_Complete (Some (demo_picture 1)) 1, Se_Complete (Some (demo_picture 1)) 1]
     (crystalhd_v4l2_decoder_init, demo_cold, []) = Some (rs, d', c', evs) \<and> length rs = 4 \<and> log_ok (concat rs)"
    (is "\<exists>rs d' c' evs. run_ops _ ?ops _ = _ \<and> _")
proof -
  have o: "\<forall>op\<in>set ?ops. sess_op_ok op" by (simp add: world_ok_def demo_chan_defs)
  from session_exactly_once [OF demo_cold_inv o, of 3] show ?thesis by (auto simp del: run_ops.simps)
qed

theorem reserve_admission_witness:
  "\<exists>d' b'. crystalhd_v4l2_reserve_input (Some (demo_session CHD_V4L2_RUNNING)) True (Some 7) None None 40 = Some (Inr (push_bit 1 1), Some d', b') \<and>
    ledger d' = {(1, 40)}"
proof -
  have "reserve_refusal (demo_session CHD_V4L2_RUNNING) True (Some 7) None = rc_ok"
    using demo_session_wf(2,3) [of CHD_V4L2_RUNNING] by (simp add: reserve_refusal_def input_data_def)
  with reserve_admission [OF demo_session_wf(1), of CHD_V4L2_RUNNING True "Some 7" None None 40] demo_session_wf(2,3) [of CHD_V4L2_RUNNING]
  show ?thesis by auto
qed

theorem submit_complete_round_trip_witness:
  "\<exists>rc d' c' sent. crystalhd_v4l2_decoder_submit (\<lambda>m. ucast m) 100 (\<lambda>_ _. BC_STS_SUCCESS) (Some (demo_session CHD_V4L2_RUNNING))
      (Some (demo_boot\<lparr>dc_cmd := demo_ctx\<rparr>)) (Some 7) (Some [0, 0, 1, 0x65]) 40 50 = Some (rc, Some d', Some c', sent) \<and>
    (rc = rc_ok \<longrightarrow> (\<exists>rg d''. crystalhd_v4l2_decoder_complete_observed (Some d') (Some (demo_picture 1)) 1 = Some (Complete_Picture 40 rg, Some d'')))"
proof -
  have w: "ctx_wf (Some (dc_cmd (demo_boot\<lparr>dc_cmd := demo_ctx\<rparr>)))" using demo_ctx_wf by simp
  have r: "reserve_refusal (demo_session CHD_V4L2_RUNNING) True (Some 7) None = rc_ok"
    using demo_session_wf(2,3) [of CHD_V4L2_RUNNING] by (simp add: reserve_refusal_def input_data_def)
  have m: "md_firmware_timestamp (demo_picture 1) = ucast (vd_next_token (demo_session CHD_V4L2_RUNNING))"
    using demo_session_wf(3) [of CHD_V4L2_RUNNING] demo_picture_md(3) by simp
  from submit_complete_round_trip [OF demo_session_wf(1) w _ r demo_picture_md(1) m, of "[0, 0, 1, 0x65]" "\<lambda>m. ucast m" 100 "\<lambda>_ _. BC_STS_SUCCESS" 40 50]
  obtain rc d' c' sent where s: "crystalhd_v4l2_decoder_submit (\<lambda>m. ucast m) 100 (\<lambda>_ _. BC_STS_SUCCESS) (Some (demo_session CHD_V4L2_RUNNING))
      (Some (demo_boot\<lparr>dc_cmd := demo_ctx\<rparr>)) (Some 7) (Some [0, 0, 1, 0x65]) 40 50 = Some (rc, Some d', Some c', sent)"
    "if rc = rc_ok then \<exists>rg d''. crystalhd_v4l2_decoder_complete_observed (Some d') (Some (demo_picture 1)) (vd_epoch (demo_session CHD_V4L2_RUNNING)) =
        Some (Complete_Picture 40 rg, Some d'') \<and> ledger d'' = ledger (demo_session CHD_V4L2_RUNNING)
     else vd_phase d' = CHD_V4L2_FAILED \<and> ledger d' = insert (ucast (vd_next_token (demo_session CHD_V4L2_RUNNING)), 40) (ledger (demo_session CHD_V4L2_RUNNING))" by blast
  show ?thesis using s(2) unfolding demo_session_wf(4)
    by (intro exI [of _ rc] exI [of _ d'] exI [of _ c'] exI [of _ sent] conjI [OF s(1)]) (auto split: if_splits)
qed

theorem drain_completes_witness:
  "\<exists>r d'. run_ops (complete_step (vd_epoch demo_booked)) [demo_picture 1, demo_trailer] demo_booked = Some ([r, Complete_Drained], d') \<and>
    crystalhd_v4l2_decoder_drained (Some d') \<and> (\<exists>rg. r = Complete_Picture 40 rg)"
proof -
  have h: "\<forall>m\<in>set [demo_picture 1]. picture_md m" "distinct (map md_firmware_timestamp [demo_picture 1])"
    "set (map md_firmware_timestamp [demo_picture 1]) = fst ` ledger demo_booked"
    using demo_picture_md demo_booked_wf(2) by simp_all
  from drain_completes [OF demo_booked_wf(1,3) h(1) demo_picture_md(2) h(2,3)] show ?thesis
    using demo_booked_wf(2) demo_picture_md(3) by (auto simp del: run_ops.simps simp: list_all2_Cons1)
qed

theorem failed_session_closed_witness:
  "\<exists>rs c'. run_ops (sess_step 3) [Se_Reserve (Some 7) None None 40, Se_Complete (Some (demo_picture 1)) 1, Se_Begin_Drain]
     (demo_session CHD_V4L2_FAILED, demo_cold, []) = Some (rs, demo_session CHD_V4L2_FAILED, c', []) \<and> (\<forall>r\<in>set rs. r = [])"
proof -
  have p: "vd_phase (demo_session CHD_V4L2_FAILED) = CHD_V4L2_FAILED" by simp
  have o: "\<forall>op\<in>set [Se_Reserve (Some 7) None None 40, Se_Complete (Some (demo_picture 1)) 1, Se_Begin_Drain]. sess_op_ok op \<and> \<not> sess_releases op" by simp
  from failed_session_closed [OF demo_session_wf(1) p demo_cold_inv o, of 3 "[]"] show ?thesis by blast
qed

end
