(* ===== verification/Session_Owner.thy ===== *)
theory Session_Owner
  imports Chd_Prelude
begin

text \<open>
  Ownership of the one decoder session (\<^verbatim>\<open>driver/linux/crystalhd_cmds.c\<close>): acquisition of the hardware
  context, pools and rings for an owner, the pin on the module that covers them, the counted reference
  on a frontend that the core keeps for as long as it may touch hardware on its behalf, and the legacy
  file handles. All calls hold the user lock exclusively, so each is one transformation of the command
  context. The hardware layer, the allocators and the link policy answer with a status each; the
  registry of retained receive buffers is the context's own.
\<close>

section \<open>Data\<close>

abbreviation (input) BC_LINK_MAX_OPENS :: nat where "BC_LINK_MAX_OPENS \<equiv> 3"
abbreviation (input) DTS_MODE_INV :: u32 where "DTS_MODE_INV \<equiv> 0xffffffff"
abbreviation (input) DTS_PLAYBACK_MODE :: u32 where "DTS_PLAYBACK_MODE \<equiv> 0"
abbreviation (input) DTS_DIAG_MODE :: u32 where "DTS_DIAG_MODE \<equiv> 1"
abbreviation (input) DTS_MONITOR_MODE :: u32 where "DTS_MONITOR_MODE \<equiv> 2"
abbreviation (input) STATE_INVALID :: u32 where "STATE_INVALID \<equiv> 0"
abbreviation (input) HW_RUNNING :: u32 where "HW_RUNNING \<equiv> 0"

text \<open>The identity of an owner: a slot of the user table, or a frontend.\<close>

datatype session_token = Tok_User nat | Tok_Frontend nat

text \<open>The callbacks of \<^verbatim>\<open>struct crystalhd_session_owner_ops\<close>, and the history of one lease.\<close>

datatype owner_call = Cb_Get session_token | Cb_Retired session_token | Cb_Put session_token

datatype lease = L_Idle | L_Held session_token | L_Retired session_token

fun lease_next :: "lease \<Rightarrow> owner_call \<Rightarrow> lease option" where
  "lease_next L_Idle (Cb_Get t) = Some (L_Held t)"
| "lease_next (L_Held t) (Cb_Retired t') = (if t' = t then Some (L_Retired t) else None)"
| "lease_next (L_Retired t) (Cb_Put t') = (if t' = t then Some L_Idle else None)"
| "lease_next _ _ = None"

fun lease_run :: "lease \<Rightarrow> owner_call list \<Rightarrow> lease option" where
  "lease_run l [] = Some l"
| "lease_run l (e # es) = do { l' \<leftarrow> lease_next l e; lease_run l' es }"

record crystalhd_user =
  us_uid :: u32
  us_in_use :: bool
  us_mode :: u32

text \<open>
  The fields of the retained registry that its cleanup uses. An entry is a null pointer, or an entry that is
  queued in hardware or not.
\<close>

record crystalhd_retained_rx_registry =
  rg_generation :: u64
  rg_stale :: bool
  rg_entries :: "bool option list"

record session_ctx =
  ss_adp :: bool
  ss_state :: u32
  ss_users :: "crystalhd_user list"
  ss_session_owner :: "session_token option"
  ss_lifetime_owner :: "session_token option"
  ss_lifetime_ops :: bool
  ss_module_pinned :: bool
  ss_retain_rx_on_suspend :: bool
  ss_retained_rx :: "crystalhd_retained_rx_registry option"
  ss_retained_serial :: u64
  ss_stream :: bool
  ss_decoder_cold :: bool
  ss_hw_ctx :: "bool option"
  ss_cin_wait_exit :: u32
  ss_pwr_state_change :: u32
  ss_rings :: bool
  ss_dio_pool :: bool
  ss_elem_pool :: bool
  ss_irq_depth :: int
  ss_cfg_users :: nat
  ss_module_refs :: int
  ss_calls :: "owner_call list"

record session_answer =
  sa_module_get :: bool
  sa_kmalloc :: bool
  sa_hw_open :: bc_status
  sa_elem_pool :: bool
  sa_dio_pool :: bool
  sa_setup_rings :: bc_status
  sa_l0s_begin :: rc
  sa_l0s_end :: rc
  sa_stop_capture :: bc_status
  sa_cancel_tx :: bc_status
  sa_hw_close :: bc_status
  sa_free_rings :: bc_status
  sa_unmap :: "nat \<Rightarrow> bc_status"

definition disable_irq :: "session_ctx \<Rightarrow> session_ctx" where
  "disable_irq c = c\<lparr>ss_irq_depth := ss_irq_depth c + 1\<rparr>"

definition enable_irq :: "session_ctx \<Rightarrow> session_ctx" where
  "enable_irq c = c\<lparr>ss_irq_depth := ss_irq_depth c - 1\<rparr>"

section \<open>Retained receive buffers\<close>

fun retained_unmap :: "(nat \<Rightarrow> bc_status) \<Rightarrow> bool option list \<Rightarrow> nat \<Rightarrow> bool \<times> bool option list" where
  "retained_unmap unmap [] i = (True, [])"
| "retained_unmap unmap (None # es) i = (let (ok, es') = retained_unmap unmap es (i + 1) in (ok, None # es'))"
| "retained_unmap unmap (Some q # es) i =
     (if unmap i \<noteq> BC_STS_SUCCESS then (False, Some q # es)
      else let (ok, es') = retained_unmap unmap es (i + 1) in (ok, None # es'))"

definition crystalhd_retained_cleanup :: "(nat \<Rightarrow> bc_status) \<Rightarrow> bool \<Rightarrow> session_ctx \<Rightarrow> bool \<times> session_ctx" where
  "crystalhd_retained_cleanup unmap destroy c =
    (case ss_retained_rx c of None \<Rightarrow> (True, c)
     | Some r \<Rightarrow>
       if Some True \<in> set (rg_entries r) then (False, c)
       else let (ok, es) = retained_unmap unmap (rg_entries r) 0; r1 = r\<lparr>rg_entries := es\<rparr>
            in if \<not> ok then (False, c\<lparr>ss_retained_rx := Some r1\<rparr>)
               else if destroy then (True, c\<lparr>ss_retained_rx := None\<rparr>)
               else if ss_retained_serial c = - 1 then (True, c\<lparr>ss_retained_rx := Some (r1\<lparr>rg_stale := True\<rparr>)\<rparr>)
               else (True, c\<lparr>ss_retained_serial := ss_retained_serial c + 1,
                             ss_retained_rx := Some (r1\<lparr>rg_stale := False, rg_generation := ss_retained_serial c + 1\<rparr>)\<rparr>))"

section \<open>Hardware context and session resources\<close>

definition crystalhd_ensure_hw_context :: "session_answer \<Rightarrow> session_ctx \<Rightarrow> bc_status \<times> session_ctx" where
  "crystalhd_ensure_hw_context a c =
    (if ss_hw_ctx c \<noteq> None then (BC_STS_SUCCESS, c)
     else let c1 = disable_irq c
          in if \<not> sa_kmalloc a then (BC_STS_ERROR, enable_irq c1)
             else let c2 = c1\<lparr>ss_hw_ctx := Some False\<rparr>;
                      c3 = (if sa_hw_open a \<noteq> BC_STS_SUCCESS then c2\<lparr>ss_hw_ctx := None\<rparr> else c2)
                  in (sa_hw_open a, enable_irq c3))"

definition crystalhd_session_setup :: "session_answer \<Rightarrow> session_ctx \<Rightarrow> bc_status \<times> session_ctx" where
  "crystalhd_session_setup a c =
    (if \<not> ss_module_pinned c then (BC_STS_NO_ACCESS, c)
     else if \<not> sa_elem_pool a then (BC_STS_ERROR, c\<lparr>ss_elem_pool := False\<rparr>)
     else let c1 = c\<lparr>ss_elem_pool := True\<rparr>
          in if \<not> sa_dio_pool a then (BC_STS_ERROR, c1\<lparr>ss_elem_pool := False\<rparr>)
             else let c2 = c1\<lparr>ss_dio_pool := True\<rparr>
                  in if sa_setup_rings a \<noteq> BC_STS_SUCCESS
                     then (sa_setup_rings a, c2\<lparr>ss_dio_pool := False, ss_elem_pool := False\<rparr>)
                     else (BC_STS_SUCCESS, c2\<lparr>ss_rings := True\<rparr>))"

definition retired_tail :: "session_answer \<Rightarrow> session_ctx \<Rightarrow> bool \<times> session_ctx" where
  "retired_tail a c =
    (let (ok, c1) = crystalhd_retained_cleanup (sa_unmap a) True c
     in if \<not> ok then (False, c1) else (True, c1\<lparr>ss_stream := False, ss_decoder_cold := True\<rparr>))"

definition crystalhd_retire_hw_context :: "session_answer \<Rightarrow> bool \<Rightarrow> session_ctx \<Rightarrow> bool \<times> session_ctx" where
  "crystalhd_retire_hw_context a retire_session_resources c =
    (case ss_hw_ctx c of None \<Rightarrow> retired_tail a c
     | Some dma_fault \<Rightarrow>
       if dma_fault then (False, c)
       else
         let c1 = (if retire_session_resources then c\<lparr>ss_cin_wait_exit := 1, ss_pwr_state_change := HW_RUNNING\<rparr> else c);
             c2 = disable_irq c1
         in if retire_session_resources \<and> (sa_stop_capture a \<noteq> BC_STS_SUCCESS \<or> sa_cancel_tx a \<noteq> BC_STS_SUCCESS) then (False, enable_irq c2)
            else if sa_hw_close a \<noteq> BC_STS_SUCCESS then (False, enable_irq c2)
            else if retire_session_resources \<and> sa_free_rings a \<noteq> BC_STS_SUCCESS then (False, enable_irq c2)
            else
              let (ok, c3) = (if retire_session_resources
                              then crystalhd_retained_cleanup (sa_unmap a) True (c2\<lparr>ss_rings := False\<rparr>) else (True, c2))
              in if \<not> ok then (False, enable_irq c3)
                 else
                   let c4 = (if retire_session_resources then c3\<lparr>ss_dio_pool := False, ss_elem_pool := False\<rparr> else c3)
                   in retired_tail a (enable_irq (c4\<lparr>ss_state := STATE_INVALID, ss_hw_ctx := None\<rparr>)))"

section \<open>The session\<close>

definition crystalhd_session_retire_owner :: "session_ctx \<Rightarrow> session_ctx" where
  "crystalhd_session_retire_owner c =
    (let owner = ss_lifetime_owner c; ops = ss_lifetime_ops c;
         c1 = c\<lparr>ss_lifetime_owner := None, ss_lifetime_ops := False\<rparr>
     in if \<not> ops then c1
        else c1\<lparr>ss_calls := ss_calls c1 @ (case owner of None \<Rightarrow> [] | Some t \<Rightarrow> [Cb_Retired t, Cb_Put t])\<rparr>)"

definition crystalhd_session_unpin :: "session_ctx \<Rightarrow> session_ctx" where
  "crystalhd_session_unpin c =
    (if \<not> ss_module_pinned c then c
     else let c1 = crystalhd_session_retire_owner c
          in c1\<lparr>ss_module_pinned := False, ss_module_refs := ss_module_refs c1 - 1\<rparr>)"

definition crystalhd_session_retire_unpublished :: "session_answer \<Rightarrow> session_ctx \<Rightarrow> bool \<times> session_ctx" where
  "crystalhd_session_retire_unpublished a c =
    (if ss_session_owner c \<noteq> None \<or> \<not> ss_module_pinned c then (False, c)
     else if sa_l0s_end a \<noteq> rc_ok then (False, c)
     else let (ok, c1) = crystalhd_retire_hw_context a True c
          in if \<not> ok then (False, c1) else (True, crystalhd_session_unpin c1))"

definition crystalhd_session_acquire_locked ::
  "session_answer \<Rightarrow> session_ctx \<Rightarrow> session_token option \<Rightarrow> bc_status \<times> session_ctx" where
  "crystalhd_session_acquire_locked a c owner =
    (case owner of None \<Rightarrow> (BC_STS_INV_ARG, c)
     | Some t \<Rightarrow>
       if \<not> ss_adp c then (BC_STS_INV_ARG, c)
       else if ss_session_owner c \<noteq> None then (BC_STS_BUSY, c)
       else if ss_state c \<noteq> STATE_INVALID then (BC_STS_ERR_USAGE, c)
       else if ss_module_pinned c \<or> ss_lifetime_owner c \<noteq> None \<or> ss_lifetime_ops c then (BC_STS_BUSY, c)
       else if \<not> sa_module_get a then (BC_STS_NO_ACCESS, c)
       else
         let c1 = c\<lparr>ss_module_refs := ss_module_refs c + 1, ss_module_pinned := True\<rparr>;
             opened_context = (ss_hw_ctx c1 = None);
             (sts, c2) = crystalhd_ensure_hw_context a c1
         in if sts \<noteq> BC_STS_SUCCESS then (sts, crystalhd_session_unpin c2)
            else
              let (sts, c3) = crystalhd_session_setup a c2
              in if sts \<noteq> BC_STS_SUCCESS
                 then let (ok, c4) = (if opened_context then crystalhd_retire_hw_context a False c3 else (True, c3))
                      in if \<not> ok then (sts, c4) else (sts, crystalhd_session_unpin c4)
                 else if sa_l0s_begin a \<noteq> rc_ok
                 then (BC_STS_IO_ERROR, snd (crystalhd_session_retire_unpublished a c3))
                 else (BC_STS_SUCCESS, c3\<lparr>ss_stream := False, ss_decoder_cold := True, ss_session_owner := owner,
                                          ss_retain_rx_on_suspend := False, ss_cin_wait_exit := 0\<rparr>))"

text \<open>\<open>ops\<close>: all three callbacks are there.\<close>

definition crystalhd_session_acquire_ref_locked ::
  "session_answer \<Rightarrow> session_ctx \<Rightarrow> session_token option \<Rightarrow> bool \<Rightarrow> bc_status \<times> session_ctx" where
  "crystalhd_session_acquire_ref_locked a c owner ops =
    (case owner of None \<Rightarrow> (BC_STS_INV_ARG, c)
     | Some t \<Rightarrow>
       if \<not> ss_adp c \<or> \<not> ops then (BC_STS_INV_ARG, c)
       else let already_pinned = ss_module_pinned c; (sts, c1) = crystalhd_session_acquire_locked a c owner
            in (sts, if \<not> already_pinned \<and> ss_module_pinned c1
                     then c1\<lparr>ss_calls := ss_calls c1 @ [Cb_Get t], ss_lifetime_owner := owner, ss_lifetime_ops := True\<rparr>
                     else c1))"

definition crystalhd_session_release_locked ::
  "session_answer \<Rightarrow> session_ctx \<Rightarrow> session_token option \<Rightarrow> bc_status \<times> session_ctx" where
  "crystalhd_session_release_locked a c owner =
    (if owner = None then (BC_STS_INV_ARG, c)
     else if ss_session_owner c \<noteq> owner
     then if ss_session_owner c = None \<and> ss_lifetime_owner c = owner \<and> ss_module_pinned c
          then let (ok, c1) = crystalhd_session_retire_unpublished a c in (if ok then BC_STS_SUCCESS else BC_STS_IO_ERROR, c1)
          else (BC_STS_ERR_USAGE, c)
     else
       let (ok, c1) = crystalhd_retire_hw_context a True c
       in if \<not> ok then (BC_STS_IO_ERROR, c1)
          else if sa_l0s_end a \<noteq> rc_ok then (BC_STS_IO_ERROR, c1)
          else (BC_STS_SUCCESS, crystalhd_session_unpin (c1\<lparr>ss_session_owner := None, ss_retain_rx_on_suspend := False\<rparr>)))"

section \<open>File handles\<close>

fun find_free_user :: "crystalhd_user list \<Rightarrow> nat \<Rightarrow> nat option" where
  "find_free_user [] i = None"
| "find_free_user (u # us) i = (if \<not> us_in_use u then Some i else find_free_user us (i + 1))"

definition bc_cproc_get_uid :: "session_ctx \<Rightarrow> nat option" where
  "bc_cproc_get_uid c = find_free_user (ss_users c) 0"

definition bc_get_userhandle_count :: "session_ctx \<Rightarrow> nat" where
  "bc_get_userhandle_count c = length (filter us_in_use (ss_users c))"

definition set_user :: "nat \<Rightarrow> (crystalhd_user \<Rightarrow> crystalhd_user) \<Rightarrow> session_ctx \<Rightarrow> session_ctx option" where
  "set_user i f c = map_option (\<lambda>us. c\<lparr>ss_users := us\<rparr>) (cell_upd (ss_users c) i f)"

definition user_at :: "session_ctx \<Rightarrow> nat \<Rightarrow> crystalhd_user option" where
  "user_at c i = (if i < length (ss_users c) then Some (ss_users c ! i) else None)"

definition playback_mode :: "crystalhd_user \<Rightarrow> bool" where
  "playback_mode u \<longleftrightarrow> us_mode u AND 0xff = DTS_DIAG_MODE \<or> us_mode u AND 0xff = DTS_PLAYBACK_MODE"

definition crystalhd_user_set_mode :: "session_answer \<Rightarrow> session_ctx \<Rightarrow> nat \<Rightarrow> u32 \<Rightarrow> (bc_status \<times> session_ctx) option" where
  "crystalhd_user_set_mode a c i mode = do {
     u \<leftarrow> user_at c i;
     (if us_mode u \<noteq> DTS_MODE_INV \<or> ss_session_owner c = Some (Tok_User i) then Some (BC_STS_ERR_USAGE, c)
      else if mode AND 0xff = DTS_MONITOR_MODE then do { c1 \<leftarrow> set_user i (us_mode_update (\<lambda>_. mode)) c; Some (BC_STS_SUCCESS, c1) }
      else if ss_state c \<noteq> STATE_INVALID then Some (BC_STS_ERR_USAGE, c)
      else if list_ex playback_mode (ss_users c) then Some (BC_STS_ERR_USAGE, c)
      else if ss_session_owner c \<noteq> None then Some (BC_STS_ERR_USAGE, c)
      else
        let (sts, c1) = crystalhd_ensure_hw_context a c
        in if sts \<noteq> BC_STS_SUCCESS then Some (sts, c1)
           else
             let (sts, c2) = crystalhd_session_acquire_locked a c1 (Some (Tok_User i))
             in if sts \<noteq> BC_STS_SUCCESS then Some (sts, c2)
                else do { c3 \<leftarrow> set_user i (us_mode_update (\<lambda>_. mode)) (c2\<lparr>ss_retain_rx_on_suspend := True\<rparr>);
                          Some (BC_STS_SUCCESS, c3) }) }"

definition crystalhd_user_open :: "session_answer \<Rightarrow> session_ctx \<Rightarrow> (bc_status \<times> nat option \<times> session_ctx) option" where
  "crystalhd_user_open a c =
    (case bc_cproc_get_uid c of None \<Rightarrow> Some (BC_STS_BUSY, None, c)
     | Some i \<Rightarrow> do {
         c1 \<leftarrow> set_user i (\<lambda>u. u\<lparr>us_mode := DTS_MODE_INV, us_in_use := False\<rparr>) c;
         let (sts, c2) = crystalhd_ensure_hw_context a c1;
         (if sts \<noteq> BC_STS_SUCCESS then Some (sts, None, c2)
          else do {
            c3 \<leftarrow> set_user i (us_in_use_update (\<lambda>_. True)) c2;
            Some (BC_STS_SUCCESS, Some i, c3\<lparr>ss_pwr_state_change := HW_RUNNING\<rparr>) }) })"

definition crystalhd_user_close :: "session_answer \<Rightarrow> session_ctx \<Rightarrow> nat \<Rightarrow> session_ctx option" where
  "crystalhd_user_close a c i = do {
     u \<leftarrow> user_at c i;
     (if \<not> us_in_use u then Some c
      else do {
        c1 \<leftarrow> set_user i (\<lambda>u. u\<lparr>us_mode := DTS_MODE_INV, us_in_use := False\<rparr>) c;
        let c2 = (if ss_session_owner c1 = Some (Tok_User i) then snd (crystalhd_session_release_locked a c1 (Some (Tok_User i)))
                  else if ss_session_owner c1 = None \<and> bc_get_userhandle_count c1 = 0
                  then if ss_module_pinned c1 then snd (crystalhd_session_retire_unpublished a c1)
                       else snd (crystalhd_retire_hw_context a True c1)
                  else c1);
        Some (c2\<lparr>ss_cfg_users := ss_cfg_users c2 - 1\<rparr>) }) }"

definition bc_cproc_release_user :: "session_answer \<Rightarrow> session_ctx \<Rightarrow> nat \<Rightarrow> (bc_status \<times> session_ctx) option" where
  "bc_cproc_release_user a c i = do {
     u \<leftarrow> user_at c i;
     (if us_mode u = DTS_MODE_INV then Some (BC_STS_ERR_USAGE, c)
      else do { c1 \<leftarrow> crystalhd_user_close a c i; Some (BC_STS_SUCCESS, c1) }) }"

text \<open>Handles opened while a frontend owns the session.\<close>

definition crystalhd_native_legacy_owned :: "session_ctx \<Rightarrow> bool" where
  "crystalhd_native_legacy_owned c \<longleftrightarrow> ss_adp c \<and> ss_session_owner c \<noteq> None \<and> ss_lifetime_ops c \<and> ss_session_owner c = ss_lifetime_owner c"

definition crystalhd_native_legacy_open :: "session_ctx \<Rightarrow> (bc_status \<times> nat option \<times> session_ctx) option" where
  "crystalhd_native_legacy_open c =
    (if \<not> crystalhd_native_legacy_owned c then Some (BC_STS_INV_ARG, None, c)
     else case bc_cproc_get_uid c of None \<Rightarrow> Some (BC_STS_BUSY, None, c)
      | Some i \<Rightarrow> do { c1 \<leftarrow> set_user i (\<lambda>u. u\<lparr>us_mode := DTS_MODE_INV, us_in_use := True\<rparr>) c; Some (BC_STS_SUCCESS, Some i, c1) })"

definition crystalhd_native_legacy_close :: "session_ctx \<Rightarrow> nat \<Rightarrow> session_ctx option" where
  "crystalhd_native_legacy_close c i = do {
     u \<leftarrow> user_at c i;
     (if \<not> crystalhd_native_legacy_owned c \<or> \<not> us_in_use u \<or> ss_session_owner c = Some (Tok_User i) then Some c
      else do {
        c1 \<leftarrow> set_user i (\<lambda>u. u\<lparr>us_mode := DTS_MODE_INV, us_in_use := False\<rparr>) c;
        Some (c1\<lparr>ss_cfg_users := ss_cfg_users c1 - 1\<rparr>) }) }"

definition crystalhd_native_legacy_notify :: "session_ctx \<Rightarrow> nat \<Rightarrow> u32 \<Rightarrow> (bc_status \<times> session_ctx) option" where
  "crystalhd_native_legacy_notify c i mode =
    (if i \<ge> BC_LINK_MAX_OPENS \<or> \<not> crystalhd_native_legacy_owned c then Some (BC_STS_INV_ARG, c)
     else do {
       u \<leftarrow> user_at c i;
       (if us_mode u \<noteq> DTS_MODE_INV \<or> ss_session_owner c = Some (Tok_User i) then Some (BC_STS_ERR_USAGE, c)
        else if mode AND 0xff \<noteq> DTS_MONITOR_MODE then Some (BC_STS_ERR_USAGE, c)
        else do { c1 \<leftarrow> set_user i (us_mode_update (\<lambda>_. mode)) c; Some (BC_STS_SUCCESS, c1) }) })"

definition crystalhd_native_legacy_release :: "session_ctx \<Rightarrow> nat \<Rightarrow> (bc_status \<times> session_ctx) option" where
  "crystalhd_native_legacy_release c i =
    (if i \<ge> BC_LINK_MAX_OPENS \<or> \<not> crystalhd_native_legacy_owned c then Some (BC_STS_INV_ARG, c)
     else do {
       u \<leftarrow> user_at c i;
       (if us_mode u = DTS_MODE_INV then Some (BC_STS_ERR_USAGE, c)
        else do { c1 \<leftarrow> crystalhd_native_legacy_close c i; Some (BC_STS_SUCCESS, c1) }) })"

section \<open>The command context\<close>

definition crystalhd_setup_cmd_context :: "session_answer \<Rightarrow> session_ctx \<Rightarrow> bc_status \<times> session_ctx" where
  "crystalhd_setup_cmd_context a c =
    (if ss_module_pinned c \<or> ss_lifetime_owner c \<noteq> None \<or> ss_lifetime_ops c \<or> ss_retained_rx c \<noteq> None then (BC_STS_BUSY, c)
     else
       let c1 = c\<lparr>ss_adp := True, ss_session_owner := None, ss_lifetime_owner := None, ss_lifetime_ops := False, ss_module_pinned := False,
             ss_retain_rx_on_suspend := False, ss_retained_rx := None, ss_retained_serial := 0, ss_decoder_cold := True,
             ss_users := map (\<lambda>i. \<lparr>us_uid = word_of_nat i, us_in_use = False, us_mode = DTS_MODE_INV\<rparr>) [0..<BC_LINK_MAX_OPENS]\<rparr>
       in if \<not> sa_kmalloc a then (BC_STS_ERROR, c1\<lparr>ss_hw_ctx := None\<rparr>)
          else
            let c2 = disable_irq (c1\<lparr>ss_hw_ctx := Some False\<rparr>);
                sts = (if sa_hw_open a = BC_STS_SUCCESS then sa_hw_close a else sa_hw_open a)
            in (sts, enable_irq (c2\<lparr>ss_hw_ctx := None\<rparr>)))"

definition crystalhd_delete_cmd_context :: "session_answer \<Rightarrow> session_ctx \<Rightarrow> bc_status \<times> session_ctx" where
  "crystalhd_delete_cmd_context a c =
    (if ss_hw_ctx c \<noteq> None \<and> sa_free_rings a \<noteq> BC_STS_SUCCESS then (sa_free_rings a, c)
     else
       let (ok, c1) = (if ss_hw_ctx c \<noteq> None then crystalhd_retained_cleanup (sa_unmap a) True (c\<lparr>ss_rings := False\<rparr>) else (True, c))
       in if \<not> ok then (BC_STS_IO_ERROR, c1)
          else
            let c2 = c1\<lparr>ss_hw_ctx := None\<rparr>; (ok, c3) = crystalhd_retained_cleanup (sa_unmap a) True c2
            in if \<not> ok then (BC_STS_IO_ERROR, c3)
               else (BC_STS_SUCCESS, crystalhd_session_unpin (c3\<lparr>ss_dio_pool := False, ss_elem_pool := False, ss_state := STATE_INVALID,
                       ss_session_owner := None, ss_retain_rx_on_suspend := False, ss_stream := False, ss_decoder_cold := True, ss_adp := False\<rparr>)))"

section \<open>The invariant of ownership\<close>

definition no_resources :: "session_ctx \<Rightarrow> bool" where
  "no_resources c \<longleftrightarrow> \<not> ss_rings c \<and> \<not> ss_dio_pool c \<and> \<not> ss_elem_pool c"

definition lease_of :: "session_ctx \<Rightarrow> lease" where
  "lease_of c = (case ss_lifetime_owner c of None \<Rightarrow> L_Idle | Some t \<Rightarrow> L_Held t)"

definition so_inv :: "int \<Rightarrow> session_ctx \<Rightarrow> bool" where
  "so_inv base c \<longleftrightarrow> ss_irq_depth c = 0 \<and> length (ss_users c) = BC_LINK_MAX_OPENS \<and>
    ss_lifetime_ops c = (ss_lifetime_owner c \<noteq> None) \<and>
    (ss_lifetime_owner c \<noteq> None \<or> ss_session_owner c \<noteq> None \<longrightarrow> ss_module_pinned c) \<and>
    (ss_lifetime_owner c \<noteq> None \<and> ss_session_owner c \<noteq> None \<longrightarrow> ss_lifetime_owner c = ss_session_owner c) \<and>
    (\<not> ss_module_pinned c \<or> ss_hw_ctx c = None \<longrightarrow> no_resources c) \<and>
    ss_module_refs c = base + of_bool (ss_module_pinned c) \<and>
    lease_run L_Idle (ss_calls c) = Some (lease_of c)"

text \<open>What the hardware and resource layer leaves alone.\<close>

definition same_owner :: "session_ctx \<Rightarrow> session_ctx \<Rightarrow> bool" where
  "same_owner c c' \<longleftrightarrow> ss_irq_depth c' = ss_irq_depth c \<and> ss_users c' = ss_users c \<and> ss_lifetime_owner c' = ss_lifetime_owner c \<and>
    ss_lifetime_ops c' = ss_lifetime_ops c \<and> ss_session_owner c' = ss_session_owner c \<and> ss_module_pinned c' = ss_module_pinned c \<and>
    ss_module_refs c' = ss_module_refs c \<and> ss_calls c' = ss_calls c \<and> ss_adp c' = ss_adp c"

lemma same_owner_refl [simp]: "same_owner c c"
  by (simp add: same_owner_def)

lemma same_owner_inv:
  assumes "so_inv base c" "same_owner c c'" "\<not> ss_module_pinned c' \<or> ss_hw_ctx c' = None \<longrightarrow> no_resources c'"
  shows "so_inv base c'"
  using assms by (simp add: so_inv_def same_owner_def lease_of_def)

lemma lease_run_append: "lease_run l (xs @ ys) = do { l' \<leftarrow> lease_run l xs; lease_run l' ys }"
  by (induction xs arbitrary: l) (auto split: option.split simp: Option.bind_assoc)

text \<open>The registry is cleaned without touching anything else, and stays clean.\<close>

lemma cleanup_frame:
  assumes "crystalhd_retained_cleanup unmap True c = (ok, c')"
  obtains r where "c' = c\<lparr>ss_retained_rx := r\<rparr>" "ok \<longrightarrow> r = None"
proof -
  have "c' = c\<lparr>ss_retained_rx := ss_retained_rx c'\<rparr> \<and> (ok \<longrightarrow> ss_retained_rx c' = None)"
    using assms by (auto simp: crystalhd_retained_cleanup_def Let_def split: option.splits if_splits prod.splits)
  then show ?thesis using that by blast
qed

lemma cleanup_none: "ss_retained_rx c = None \<Longrightarrow> crystalhd_retained_cleanup unmap True c = (True, c)"
  by (simp add: crystalhd_retained_cleanup_def)

lemma tail_frame:
  assumes "retired_tail a c = (ok, c')"
  obtains r s d where "c' = c\<lparr>ss_retained_rx := r, ss_stream := s, ss_decoder_cold := d\<rparr>" "ok \<longrightarrow> r = None"
proof -
  obtain ok1 c1 where k: "crystalhd_retained_cleanup (sa_unmap a) True c = (ok1, c1)" by (cases "crystalhd_retained_cleanup (sa_unmap a) True c")
  from cleanup_frame [OF this] obtain r where r: "c1 = c\<lparr>ss_retained_rx := r\<rparr>" "ok1 \<longrightarrow> r = None" by auto
  have "c' = c\<lparr>ss_retained_rx := r, ss_stream := (if ok1 then False else ss_stream c), ss_decoder_cold := (if ok1 then True else ss_decoder_cold c)\<rparr> \<and> ok = ok1"
    using assms k r(1) by (auto simp: retired_tail_def split: if_splits)
  then show ?thesis using that r(2) by blast
qed

definition retired :: "session_ctx \<Rightarrow> bool \<Rightarrow> bool \<Rightarrow> session_ctx \<Rightarrow> bool" where
  "retired c full ok c' \<longleftrightarrow> same_owner c c' \<and>
    (ss_hw_ctx c' = None \<longrightarrow> (full \<or> no_resources c) \<and> (ss_hw_ctx c = None \<longrightarrow> no_resources c) \<longrightarrow> no_resources c') \<and>
    (no_resources c \<longrightarrow> no_resources c') \<and> (ok \<longrightarrow> ss_hw_ctx c' = None \<and> ss_retained_rx c' = None)"

lemma retire_effect:
  assumes "crystalhd_retire_hw_context a full c = (ok, c')"
  shows "same_owner c c'" "ss_hw_ctx c' = None \<longrightarrow> (full \<or> no_resources c) \<and> (ss_hw_ctx c = None \<longrightarrow> no_resources c) \<longrightarrow> no_resources c'"
    "no_resources c \<longrightarrow> no_resources c'" "ok \<longrightarrow> ss_hw_ctx c' = None \<and> ss_retained_rx c' = None"
proof -
  have "retired c full ok c'"
  proof (cases "ss_hw_ctx c")
    case None
    with assms have "retired_tail a c = (ok, c')" by (simp add: crystalhd_retire_hw_context_def)
    then obtain r s d where "c' = c\<lparr>ss_retained_rx := r, ss_stream := s, ss_decoder_cold := d\<rparr>" "ok \<longrightarrow> r = None" by (rule tail_frame)
    then show ?thesis using None by (simp add: retired_def same_owner_def no_resources_def)
  next
    case (Some fault)
    define c2 where "c2 = disable_irq (if full then c\<lparr>ss_cin_wait_exit := 1, ss_pwr_state_change := HW_RUNNING\<rparr> else c)"
    have c2: "same_owner c (enable_irq c2)" "no_resources (enable_irq c2) = no_resources c" "ss_hw_ctx (enable_irq c2) = ss_hw_ctx c"
      "ss_irq_depth c2 = ss_irq_depth c + 1"
      by (simp_all add: c2_def disable_irq_def enable_irq_def same_owner_def no_resources_def)
    obtain ok3 c3 where k: "(if full then crystalhd_retained_cleanup (sa_unmap a) True (c2\<lparr>ss_rings := False\<rparr>) else (True, c2)) = (ok3, c3)"
      by (cases "if full then crystalhd_retained_cleanup (sa_unmap a) True (c2\<lparr>ss_rings := False\<rparr>) else (True, c2)")
    have "\<exists>r. c3 = (if full then c2\<lparr>ss_rings := False, ss_retained_rx := r\<rparr> else c2)"
    proof (cases full)
      case True
      then show ?thesis using cleanup_frame [of "sa_unmap a" "c2\<lparr>ss_rings := False\<rparr>" ok3 c3] k by auto
    qed (use k in simp)
    then obtain r where c3: "c3 = (if full then c2\<lparr>ss_rings := False, ss_retained_rx := r\<rparr> else c2)" ..
    define c4 where "c4 = enable_irq ((if full then c3\<lparr>ss_dio_pool := False, ss_elem_pool := False\<rparr> else c3)\<lparr>ss_state := STATE_INVALID, ss_hw_ctx := None\<rparr>)"
    obtain ok5 c5 where t: "retired_tail a c4 = (ok5, c5)" by (cases "retired_tail a c4")
    have R: "crystalhd_retire_hw_context a full c = (if fault then (False, c)
        else if full \<and> (sa_stop_capture a \<noteq> BC_STS_SUCCESS \<or> sa_cancel_tx a \<noteq> BC_STS_SUCCESS) then (False, enable_irq c2)
        else if sa_hw_close a \<noteq> BC_STS_SUCCESS then (False, enable_irq c2)
        else if full \<and> sa_free_rings a \<noteq> BC_STS_SUCCESS then (False, enable_irq c2)
        else if \<not> ok3 then (False, enable_irq c3) else (ok5, c5))"
      unfolding crystalhd_retire_hw_context_def Some option.case Let_def c2_def [symmetric] k prod.case c4_def [symmetric] t by simp
    have e3: "same_owner c (enable_irq c3)" "no_resources c \<longrightarrow> no_resources (enable_irq c3)" "ss_hw_ctx (enable_irq c3) = ss_hw_ctx c"
      using c2 by (auto simp: c3 same_owner_def no_resources_def enable_irq_def)
    have e4: "same_owner c c4" "no_resources c \<longrightarrow> no_resources c4" "full \<longrightarrow> no_resources c4" "ss_hw_ctx c4 = None"
      using c2 by (auto simp: c4_def c3 same_owner_def no_resources_def enable_irq_def)
    from t obtain r' s d where "c5 = c4\<lparr>ss_retained_rx := r', ss_stream := s, ss_decoder_cold := d\<rparr>" "ok5 \<longrightarrow> r' = None" by (rule tail_frame)
    then have e5: "same_owner c c5" "no_resources c5 = no_resources c4" "ss_hw_ctx c5 = None" "ok5 \<longrightarrow> ss_retained_rx c5 = None"
      using e4 by (simp_all add: same_owner_def no_resources_def)
    have P: "retired c full False c" "retired c full False (enable_irq c2)" "retired c full False (enable_irq c3)" "retired c full ok5 c5"
      using c2 e3 e4 e5 Some by (simp_all add: retired_def)
    have "(ok, c') = crystalhd_retire_hw_context a full c" using assms by simp
    then show ?thesis using P unfolding R by (simp split: if_splits)
  qed
  then show "same_owner c c'" "ss_hw_ctx c' = None \<longrightarrow> (full \<or> no_resources c) \<and> (ss_hw_ctx c = None \<longrightarrow> no_resources c) \<longrightarrow> no_resources c'"
    "no_resources c \<longrightarrow> no_resources c'" "ok \<longrightarrow> ss_hw_ctx c' = None \<and> ss_retained_rx c' = None" by (auto simp: retired_def)
qed

lemma retire_inv:
  assumes inv: "so_inv base c" and r: "crystalhd_retire_hw_context a full c = (ok, c')" and f: "full \<or> no_resources c"
  shows "so_inv base c'" "ok \<longrightarrow> no_resources c' \<and> ss_hw_ctx c' = None"
proof -
  note e = retire_effect [OF r]
  have "ss_hw_ctx c = None \<longrightarrow> no_resources c" "\<not> ss_module_pinned c \<longrightarrow> no_resources c" using inv by (auto simp: so_inv_def)
  then have "\<not> ss_module_pinned c' \<or> ss_hw_ctx c' = None \<longrightarrow> no_resources c'" using e f by (auto simp: same_owner_def)
  then show "so_inv base c'" "ok \<longrightarrow> no_resources c' \<and> ss_hw_ctx c' = None" using same_owner_inv [OF inv e(1)] e(4) by auto
qed

lemma ensure_inv:
  assumes inv: "so_inv base c" and r: "crystalhd_ensure_hw_context a c = (sts, c')"
  shows "so_inv base c'" "same_owner c c'" "no_resources c \<longrightarrow> no_resources c'" "sts = BC_STS_SUCCESS \<longleftrightarrow> ss_hw_ctx c' \<noteq> None" "ss_state c' = ss_state c"
    "ss_hw_ctx c \<noteq> None \<longrightarrow> c' = c"
proof -
  have "(same_owner c c' \<and> (no_resources c \<longrightarrow> no_resources c') \<and> (sts = BC_STS_SUCCESS \<longleftrightarrow> ss_hw_ctx c' \<noteq> None) \<and> ss_state c' = ss_state c) \<and>
      (ss_hw_ctx c \<noteq> None \<longrightarrow> c' = c)"
    using r by (auto simp: crystalhd_ensure_hw_context_def disable_irq_def enable_irq_def same_owner_def no_resources_def Let_def split: if_splits)
  moreover from this have "\<not> ss_module_pinned c' \<or> ss_hw_ctx c' = None \<longrightarrow> no_resources c'"
    using inv by (cases "ss_hw_ctx c") (auto simp: so_inv_def same_owner_def)
  ultimately show "so_inv base c'" "same_owner c c'" "no_resources c \<longrightarrow> no_resources c'" "sts = BC_STS_SUCCESS \<longleftrightarrow> ss_hw_ctx c' \<noteq> None" "ss_state c' = ss_state c"
    "ss_hw_ctx c \<noteq> None \<longrightarrow> c' = c"
    using same_owner_inv [OF inv] by auto
qed

lemma setup_inv:
  assumes inv: "so_inv base c" "ss_hw_ctx c \<noteq> None" "ss_module_pinned c" "no_resources c" and r: "crystalhd_session_setup a c = (sts, c')"
  shows "so_inv base c'" "same_owner c c'" "sts \<noteq> BC_STS_SUCCESS \<longrightarrow> no_resources c'" "ss_hw_ctx c' = ss_hw_ctx c"
proof -
  have "same_owner c c' \<and> (sts \<noteq> BC_STS_SUCCESS \<longrightarrow> no_resources c') \<and> ss_hw_ctx c' = ss_hw_ctx c"
    using r inv(4) by (auto simp: crystalhd_session_setup_def same_owner_def no_resources_def Let_def split: if_splits)
  moreover from this have "so_inv base c'" using same_owner_inv [OF inv(1)] inv(2,3) by (auto simp: same_owner_def)
  ultimately show "so_inv base c'" "same_owner c c'" "sts \<noteq> BC_STS_SUCCESS \<longrightarrow> no_resources c'" "ss_hw_ctx c' = ss_hw_ctx c" by auto
qed

lemma unpin_inv:
  assumes "so_inv base c" "ss_session_owner c = None" "no_resources c"
  shows "so_inv base (crystalhd_session_unpin c)" "\<not> ss_module_pinned (crystalhd_session_unpin c)" "ss_lifetime_owner (crystalhd_session_unpin c) = None"
    "ss_session_owner (crystalhd_session_unpin c) = None" "no_resources (crystalhd_session_unpin c)" "ss_hw_ctx (crystalhd_session_unpin c) = ss_hw_ctx c"
    "ss_calls (crystalhd_session_unpin c) = ss_calls c @ (case ss_lifetime_owner c of None \<Rightarrow> [] | Some t \<Rightarrow> [Cb_Retired t, Cb_Put t])"
  using assms
  by (cases "ss_module_pinned c"; cases "ss_lifetime_owner c";
      auto simp: so_inv_def crystalhd_session_unpin_def crystalhd_session_retire_owner_def lease_of_def lease_run_append no_resources_def Let_def)+

lemma unpublished_inv:
  assumes inv: "so_inv base c" and r: "crystalhd_session_retire_unpublished a c = (ok, c')"
  shows "so_inv base c'" "ok \<longrightarrow> ss_lifetime_owner c' = None \<and> ss_session_owner c' = None \<and> no_resources c' \<and> \<not> ss_module_pinned c' \<and> ss_hw_ctx c' = None \<and>
      ss_calls c' = ss_calls c @ (case ss_lifetime_owner c of None \<Rightarrow> [] | Some t \<Rightarrow> [Cb_Retired t, Cb_Put t])"
    "\<not> ok \<longrightarrow> same_owner c c'"
proof -
  obtain ok1 c1 where k: "crystalhd_retire_hw_context a True c = (ok1, c1)" by (cases "crystalhd_retire_hw_context a True c")
  have i1: "so_inv base c1" "ok1 \<longrightarrow> no_resources c1 \<and> ss_hw_ctx c1 = None" using retire_inv [OF inv k] by auto
  have s1: "same_owner c c1" by (rule retire_effect(1) [OF k])
  have R: "(ok, c') = (if ss_session_owner c \<noteq> None \<or> \<not> ss_module_pinned c \<or> sa_l0s_end a \<noteq> rc_ok then (False, c)
      else if \<not> ok1 then (False, c1) else (True, crystalhd_session_unpin c1))"
    using r unfolding crystalhd_session_retire_unpublished_def k Let_def prod.case by (auto split: if_splits)
  have u: "so_inv base (crystalhd_session_unpin c1) \<and> \<not> ss_module_pinned (crystalhd_session_unpin c1) \<and> ss_lifetime_owner (crystalhd_session_unpin c1) = None \<and>
      ss_session_owner (crystalhd_session_unpin c1) = None \<and> no_resources (crystalhd_session_unpin c1) \<and> ss_hw_ctx (crystalhd_session_unpin c1) = None \<and>
      ss_calls (crystalhd_session_unpin c1) = ss_calls c @ (case ss_lifetime_owner c of None \<Rightarrow> [] | Some t \<Rightarrow> [Cb_Retired t, Cb_Put t])"
    if "ok1" "ss_session_owner c = None"
    using unpin_inv [OF i1(1)] i1(2) that s1 by (simp add: same_owner_def)
  show "so_inv base c'" "ok \<longrightarrow> ss_lifetime_owner c' = None \<and> ss_session_owner c' = None \<and> no_resources c' \<and> \<not> ss_module_pinned c' \<and> ss_hw_ctx c' = None \<and>
      ss_calls c' = ss_calls c @ (case ss_lifetime_owner c of None \<Rightarrow> [] | Some t \<Rightarrow> [Cb_Retired t, Cb_Put t])"
    "\<not> ok \<longrightarrow> same_owner c c'"
    using R u i1(1) s1 inv by (simp_all split: if_splits)
qed

definition acquired :: "int \<Rightarrow> session_token \<Rightarrow> session_ctx \<Rightarrow> bc_status \<Rightarrow> session_ctx \<Rightarrow> bool" where
  "acquired base t c sts c' \<longleftrightarrow> so_inv base c' \<and> ss_calls c' = ss_calls c \<and> ss_lifetime_owner c' = ss_lifetime_owner c \<and> ss_users c' = ss_users c \<and> ss_adp c' = ss_adp c \<and>
    (if sts = BC_STS_SUCCESS then ss_session_owner c = None \<and> ss_session_owner c' = Some t \<and> ss_module_pinned c' \<and> \<not> ss_module_pinned c \<and>
       ss_rings c' \<and> ss_dio_pool c' \<and> ss_elem_pool c' \<and> ss_hw_ctx c' \<noteq> None
     else ss_session_owner c' = ss_session_owner c)"

lemma acquired_same: "so_inv base c \<Longrightarrow> sts \<noteq> BC_STS_SUCCESS \<Longrightarrow> acquired base t c sts c"
  by (simp add: acquired_def)

lemma acquire_inv:
  assumes inv: "so_inv base c" and r: "crystalhd_session_acquire_locked a c (Some t) = (sts, c')"
  shows "acquired base t c sts c'"
proof (cases "\<not> ss_adp c \<or> ss_session_owner c \<noteq> None \<or> ss_state c \<noteq> STATE_INVALID \<or> ss_module_pinned c \<or> ss_lifetime_owner c \<noteq> None \<or> ss_lifetime_ops c \<or> \<not> sa_module_get a")
  case True
  then have "c' = c \<and> sts \<noteq> BC_STS_SUCCESS" using r by (auto simp: crystalhd_session_acquire_locked_def split: if_splits)
  then show ?thesis using acquired_same [OF inv] by simp
next
  case False
  then have g: "ss_adp c" "ss_session_owner c = None" "ss_state c = STATE_INVALID" "\<not> ss_module_pinned c" "ss_lifetime_owner c = None" "\<not> ss_lifetime_ops c" "sa_module_get a" by auto
  define c1 where "c1 = c\<lparr>ss_module_refs := ss_module_refs c + 1, ss_module_pinned := True\<rparr>"
  have nr: "no_resources c1" "no_resources c" using inv g(4) by (simp_all add: so_inv_def c1_def no_resources_def)
  have i1: "so_inv base c1" using inv g nr by (simp add: so_inv_def c1_def no_resources_def lease_of_def)
  obtain s2 c2 where e: "crystalhd_ensure_hw_context a c1 = (s2, c2)" by (cases "crystalhd_ensure_hw_context a c1")
  note E = ensure_inv [OF i1 e]
  have k2: "ss_session_owner c2 = None" "ss_module_pinned c2" "ss_lifetime_owner c2 = None" "ss_calls c2 = ss_calls c" "ss_users c2 = ss_users c" "ss_adp c2 = ss_adp c" "no_resources c2"
    using E(2,3) g nr(1) by (simp_all add: same_owner_def c1_def)
  obtain s3 c3 where s: "crystalhd_session_setup a c2 = (s3, c3)" by (cases "crystalhd_session_setup a c2")
  obtain ok4 c4 where f: "(if ss_hw_ctx c1 = None then crystalhd_retire_hw_context a False c3 else (True, c3)) = (ok4, c4)"
    by (cases "if ss_hw_ctx c1 = None then crystalhd_retire_hw_context a False c3 else (True, c3)")
  obtain ok5 c5 where u: "crystalhd_session_retire_unpublished a c3 = (ok5, c5)" by (cases "crystalhd_session_retire_unpublished a c3")
  define c6 where "c6 = c3\<lparr>ss_stream := False, ss_decoder_cold := True, ss_session_owner := Some t, ss_retain_rx_on_suspend := False, ss_cin_wait_exit := 0\<rparr>"
  have R: "(sts, c') = (if s2 \<noteq> BC_STS_SUCCESS then (s2, crystalhd_session_unpin c2)
      else if s3 \<noteq> BC_STS_SUCCESS then (if \<not> ok4 then (s3, c4) else (s3, crystalhd_session_unpin c4))
      else if sa_l0s_begin a \<noteq> rc_ok then (BC_STS_IO_ERROR, c5) else (BC_STS_SUCCESS, c6))"
    using r g unfolding crystalhd_session_acquire_locked_def option.case Let_def c1_def [symmetric] e prod.case s f u snd_conv c6_def by simp
  have p2: "acquired base t c s2 (crystalhd_session_unpin c2)" if "s2 \<noteq> BC_STS_SUCCESS"
    using unpin_inv [OF E(1) k2(1) k2(7)] that k2 g
    by (simp add: acquired_def crystalhd_session_unpin_def crystalhd_session_retire_owner_def Let_def)
  have main: "acquired base t c sts c'" if h: "s2 = BC_STS_SUCCESS"
  proof -
    have hw2: "ss_hw_ctx c2 \<noteq> None" using E(4) h by simp
    note S = setup_inv [OF E(1) hw2 k2(2) k2(7) s]
    have k3: "ss_session_owner c3 = None" "ss_module_pinned c3" "ss_lifetime_owner c3 = None" "ss_calls c3 = ss_calls c" "ss_users c3 = ss_users c" "ss_adp c3 = ss_adp c"
      using S(2) k2 by (simp_all add: same_owner_def)
    have p3: "acquired base t c s3 c4" "ok4 \<Longrightarrow> acquired base t c s3 (crystalhd_session_unpin c4)" if n: "s3 \<noteq> BC_STS_SUCCESS"
    proof -
      have nr3: "no_resources c3" using S(3) n by simp
      have i4: "so_inv base c4 \<and> same_owner c3 c4 \<and> no_resources c4"
      proof (cases "ss_hw_ctx c1 = None")
        case True
        then have f': "crystalhd_retire_hw_context a False c3 = (ok4, c4)" using f by simp
        show ?thesis using retire_inv(1) [OF S(1) f' disjI2 [OF nr3]] retire_effect(1,3) [OF f'] nr3 by blast
      qed (use f S(1) nr3 in auto)
      have k4: "ss_session_owner c4 = None" using i4 k3 by (simp add: same_owner_def)
      show "acquired base t c s3 c4" using i4 k3 n g by (simp add: acquired_def same_owner_def)
      show "acquired base t c s3 (crystalhd_session_unpin c4)"
        using unpin_inv [of base c4] i4 k4 k3 n g
        by (simp add: acquired_def same_owner_def crystalhd_session_unpin_def crystalhd_session_retire_owner_def Let_def)
    qed
    note U = unpublished_inv [OF S(1) u]
    have us: "ss_users c5 = ss_users c3 \<and> ss_adp c5 = ss_adp c3"
      using u retire_effect(1) [of a True c3] unfolding crystalhd_session_retire_unpublished_def
      by (auto simp: same_owner_def crystalhd_session_unpin_def crystalhd_session_retire_owner_def Let_def split: if_splits prod.splits)
    have p5: "acquired base t c BC_STS_IO_ERROR c5"
      using U k3 us g by (cases ok5) (simp_all add: acquired_def same_owner_def)
    have p6: "acquired base t c BC_STS_SUCCESS c6" if n: "s3 = BC_STS_SUCCESS"
    proof -
      have "ss_rings c3" "ss_dio_pool c3" "ss_elem_pool c3"
        using s n k2(2) by (auto simp: crystalhd_session_setup_def Let_def split: if_splits)
      moreover have "so_inv base c6" using S(1,4) k3 hw2 by (auto simp: c6_def so_inv_def lease_of_def no_resources_def)
      ultimately show ?thesis using k3 S(4) hw2 g by (simp add: acquired_def c6_def)
    qed
    show ?thesis using R h p3 p5 p6 by (auto split: if_splits)
  qed
  show ?thesis using R p2 main by (cases "s2 = BC_STS_SUCCESS") simp_all
qed

lemma acquire_ref_inv:
  assumes inv: "so_inv base c" and r: "crystalhd_session_acquire_ref_locked a c owner ops = (sts, c')"
  shows "so_inv base c'" "ss_users c' = ss_users c" "ss_adp c' = ss_adp c"
proof -
  have "so_inv base c' \<and> ss_users c' = ss_users c \<and> ss_adp c' = ss_adp c"
  proof (cases "owner = None \<or> \<not> ss_adp c \<or> \<not> ops")
    case True
    then show ?thesis using r inv by (auto simp: crystalhd_session_acquire_ref_locked_def split: option.splits if_splits)
  next
    case False
    then obtain t where t: "owner = Some t" "ss_adp c" "ops" by auto
    obtain s1 c1 where k: "crystalhd_session_acquire_locked a c (Some t) = (s1, c1)" by (cases "crystalhd_session_acquire_locked a c (Some t)")
    from acquire_inv [OF inv this] have A: "acquired base t c s1 c1" .
    have c': "c' = (if \<not> ss_module_pinned c \<and> ss_module_pinned c1
        then c1\<lparr>ss_calls := ss_calls c1 @ [Cb_Get t], ss_lifetime_owner := Some t, ss_lifetime_ops := True\<rparr> else c1)"
      using r t k by (simp add: crystalhd_session_acquire_ref_locked_def Let_def)
    show ?thesis
    proof (cases "\<not> ss_module_pinned c \<and> ss_module_pinned c1")
      case True
      have "ss_lifetime_owner c = None" "ss_session_owner c = None" using inv True by (auto simp: so_inv_def)
      then show ?thesis using A True c'
        by (auto simp: acquired_def so_inv_def lease_of_def lease_run_append no_resources_def split: if_splits)
    next
      case False
      then have "c' = c1" unfolding c' by (rule if_not_P)
      then show ?thesis using A by (simp add: acquired_def)
    qed
  qed
  then show "so_inv base c'" "ss_users c' = ss_users c" "ss_adp c' = ss_adp c" by auto
qed

definition let_go :: "session_ctx \<Rightarrow> session_ctx \<Rightarrow> bool" where
  "let_go c c' \<longleftrightarrow> ss_session_owner c' = None \<and> ss_lifetime_owner c' = None \<and> \<not> ss_module_pinned c' \<and> no_resources c' \<and> ss_hw_ctx c' = None \<and>
    ss_calls c' = ss_calls c @ (case ss_lifetime_owner c of None \<Rightarrow> [] | Some t \<Rightarrow> [Cb_Retired t, Cb_Put t])"

lemma release_inv:
  assumes inv: "so_inv base c" and r: "crystalhd_session_release_locked a c owner = (sts, c')"
  shows "so_inv base c'" "if sts = BC_STS_SUCCESS then let_go c c' else same_owner c c'"
proof -
  obtain ok1 c1 where k: "crystalhd_retire_hw_context a True c = (ok1, c1)" by (cases "crystalhd_retire_hw_context a True c")
  obtain ok2 c2 where u: "crystalhd_session_retire_unpublished a c = (ok2, c2)" by (cases "crystalhd_session_retire_unpublished a c")
  have i1: "so_inv base c1" "ok1 \<longrightarrow> no_resources c1 \<and> ss_hw_ctx c1 = None" using retire_inv [OF inv k] by auto
  have s1: "same_owner c c1" by (rule retire_effect(1) [OF k])
  define d where "d = c1\<lparr>ss_session_owner := None, ss_retain_rx_on_suspend := False\<rparr>"
  have R: "(sts, c') = (if owner = None then (BC_STS_INV_ARG, c)
      else if ss_session_owner c \<noteq> owner
      then if ss_session_owner c = None \<and> ss_lifetime_owner c = owner \<and> ss_module_pinned c then (if ok2 then BC_STS_SUCCESS else BC_STS_IO_ERROR, c2)
           else (BC_STS_ERR_USAGE, c)
      else if \<not> ok1 then (BC_STS_IO_ERROR, c1) else if sa_l0s_end a \<noteq> rc_ok then (BC_STS_IO_ERROR, c1) else (BC_STS_SUCCESS, crystalhd_session_unpin d))"
    using r unfolding crystalhd_session_release_locked_def k u Let_def prod.case d_def by simp
  have d: "so_inv base d \<and> no_resources d \<and> ss_hw_ctx d = None \<and> ss_session_owner d = None \<and> ss_lifetime_owner d = ss_lifetime_owner c \<and> ss_calls d = ss_calls c" if "ok1"
    using i1 that s1 by (auto simp: d_def so_inv_def same_owner_def no_resources_def lease_of_def)
  have un: "so_inv base (crystalhd_session_unpin d) \<and> let_go c (crystalhd_session_unpin d)" if "ok1"
    using unpin_inv [of base d] d [OF that] by (simp add: let_go_def)
  note U = unpublished_inv [OF inv u]
  have u2: "if ok2 then let_go c c2 else same_owner c c2" using U by (simp add: let_go_def)
  have "so_inv base c' \<and> (if sts = BC_STS_SUCCESS then let_go c c' else same_owner c c')"
    using R un U(1) u2 i1(1) s1 inv by (auto split: if_splits)
  then show "so_inv base c'" "if sts = BC_STS_SUCCESS then let_go c c' else same_owner c c'" by auto
qed

section \<open>Histories\<close>

text \<open>
  A call on the context of a present device; \<open>So_Env\<close> is everything that happens to the session between
  such calls: firmware and stream state, buffers entering and leaving the registry, a fault of the
  engine. Once the context is deleted, every call but its setup is refused at the door.
\<close>

datatype session_op =
    So_Acquire_Ref session_answer "session_token option" bool
  | So_Release session_answer "session_token option"
  | So_Set_Mode session_answer nat u32
  | So_Open session_answer
  | So_Close session_answer nat
  | So_Release_User session_answer nat
  | So_Native_Open
  | So_Native_Close nat
  | So_Native_Notify nat u32
  | So_Native_Release nat
  | So_Setup session_answer
  | So_Delete session_answer
  | So_Env u32 bool bool "crystalhd_retained_rx_registry option" bool

fun session_op_ok :: "session_op \<Rightarrow> bool" where
  "session_op_ok (So_Set_Mode _ i _) \<longleftrightarrow> i < BC_LINK_MAX_OPENS"
| "session_op_ok (So_Close _ i) \<longleftrightarrow> i < BC_LINK_MAX_OPENS"
| "session_op_ok (So_Release_User _ i) \<longleftrightarrow> i < BC_LINK_MAX_OPENS"
| "session_op_ok (So_Native_Close i) \<longleftrightarrow> i < BC_LINK_MAX_OPENS"
| "session_op_ok _ \<longleftrightarrow> True"

fun session_exec :: "session_op \<Rightarrow> session_ctx \<Rightarrow> (bc_status \<times> session_ctx) option" where
  "session_exec (So_Acquire_Ref a owner ops) c = Some (crystalhd_session_acquire_ref_locked a c owner ops)"
| "session_exec (So_Release a owner) c = Some (crystalhd_session_release_locked a c owner)"
| "session_exec (So_Set_Mode a i mode) c = crystalhd_user_set_mode a c i mode"
| "session_exec (So_Open a) c = map_option (\<lambda>(sts, i, c'). (sts, c')) (crystalhd_user_open a c)"
| "session_exec (So_Close a i) c = map_option (Pair BC_STS_SUCCESS) (crystalhd_user_close a c i)"
| "session_exec (So_Release_User a i) c = bc_cproc_release_user a c i"
| "session_exec So_Native_Open c = map_option (\<lambda>(sts, i, c'). (sts, c')) (crystalhd_native_legacy_open c)"
| "session_exec (So_Native_Close i) c = map_option (Pair BC_STS_SUCCESS) (crystalhd_native_legacy_close c i)"
| "session_exec (So_Native_Notify i mode) c = crystalhd_native_legacy_notify c i mode"
| "session_exec (So_Native_Release i) c = crystalhd_native_legacy_release c i"
| "session_exec (So_Setup a) c = Some (crystalhd_setup_cmd_context a c)"
| "session_exec (So_Delete a) c = Some (crystalhd_delete_cmd_context a c)"
| "session_exec (So_Env st stream cold registry fault) c =
     Some (BC_STS_SUCCESS, c\<lparr>ss_state := st, ss_stream := stream, ss_decoder_cold := cold, ss_retained_rx := registry,
       ss_hw_ctx := map_option (\<lambda>f. f \<or> fault) (ss_hw_ctx c)\<rparr>)"

fun is_setup :: "session_op \<Rightarrow> bool" where
  "is_setup (So_Setup _) = True" | "is_setup _ = False"

definition session_step :: "session_op \<Rightarrow> session_ctx \<Rightarrow> (bc_status \<times> session_ctx) option" where
  "session_step op c = (if \<not> ss_adp c \<and> \<not> is_setup op then Some (BC_STS_IO_ERROR, c) else session_exec op c)"

lemma so_inv_users: "so_inv base (c\<lparr>ss_users := us\<rparr>) \<longleftrightarrow> so_inv base (c\<lparr>ss_users := ss_users c\<rparr>)" if "length us = length (ss_users c)"
  using that by (simp add: so_inv_def no_resources_def lease_of_def)

lemma so_inv_misc [simp]:
  "so_inv base (c\<lparr>ss_pwr_state_change := p\<rparr>) = so_inv base c" "so_inv base (c\<lparr>ss_cfg_users := n\<rparr>) = so_inv base c"
  "so_inv base (c\<lparr>ss_retain_rx_on_suspend := b\<rparr>) = so_inv base c"
  by (simp_all add: so_inv_def no_resources_def lease_of_def)

lemma set_user_inv:
  assumes "so_inv base c" "i < BC_LINK_MAX_OPENS"
  obtains c' where "set_user i f c = Some c'" "so_inv base c'" "c' = c\<lparr>ss_users := (ss_users c)[i := f (ss_users c ! i)]\<rparr>"
proof -
  have l: "length (ss_users c) = BC_LINK_MAX_OPENS" using assms(1) by (simp add: so_inv_def)
  let ?c = "c\<lparr>ss_users := (ss_users c)[i := f (ss_users c ! i)]\<rparr>"
  have "so_inv base ?c" using so_inv_users [of "(ss_users c)[i := f (ss_users c ! i)]" c base] assms(1) by simp
  then show ?thesis using that [of ?c] l assms(2) by (simp add: set_user_def)
qed

lemma find_free_user_less: "find_free_user us n = Some i \<Longrightarrow> n \<le> i \<and> i < n + length us"
  by (induction us arbitrary: n) (fastforce split: if_splits)+

lemma get_uid_less: "so_inv base c \<Longrightarrow> bc_cproc_get_uid c = Some i \<Longrightarrow> i < BC_LINK_MAX_OPENS"
  using find_free_user_less [of "ss_users c" 0 i] by (simp add: bc_cproc_get_uid_def so_inv_def)

lemma user_at_in: "so_inv base c \<Longrightarrow> i < BC_LINK_MAX_OPENS \<Longrightarrow> user_at c i = Some (ss_users c ! i)"
  by (simp add: user_at_def so_inv_def)

lemma set_mode_inv:
  assumes inv: "so_inv base c" and i: "i < BC_LINK_MAX_OPENS"
  shows "\<exists>sts c'. crystalhd_user_set_mode a c i mode = Some (sts, c') \<and> so_inv base c'"
proof -
  obtain cm where m: "set_user i (us_mode_update (\<lambda>_. mode)) c = Some cm" "so_inv base cm" by (rule set_user_inv [OF inv i])
  obtain s1 c1 where e: "crystalhd_ensure_hw_context a c = (s1, c1)" by (cases "crystalhd_ensure_hw_context a c")
  note E = ensure_inv(1) [OF inv e]
  obtain s2 c2 where q: "crystalhd_session_acquire_locked a c1 (Some (Tok_User i)) = (s2, c2)"
    by (cases "crystalhd_session_acquire_locked a c1 (Some (Tok_User i))")
  have i2: "so_inv base c2" "so_inv base (c2\<lparr>ss_retain_rx_on_suspend := True\<rparr>)" using acquire_inv [OF E q] by (simp_all add: acquired_def)
  obtain c3 where n: "set_user i (us_mode_update (\<lambda>_. mode)) (c2\<lparr>ss_retain_rx_on_suspend := True\<rparr>) = Some c3" "so_inv base c3" by (rule set_user_inv [OF i2(2) i])
  show ?thesis unfolding crystalhd_user_set_mode_def user_at_in [OF inv i] bind.simps m(1) e q Let_def prod.case n(1)
    using inv m(2) E i2(1) n(2) by auto
qed

lemma user_open_inv:
  assumes inv: "so_inv base c"
  shows "\<exists>sts i c'. crystalhd_user_open a c = Some (sts, i, c') \<and> so_inv base c'"
proof (cases "bc_cproc_get_uid c")
  case None
  then show ?thesis using inv by (simp add: crystalhd_user_open_def)
next
  case (Some i)
  note i = get_uid_less [OF inv Some]
  obtain c1 where m: "set_user i (\<lambda>u. u\<lparr>us_mode := DTS_MODE_INV, us_in_use := False\<rparr>) c = Some c1" "so_inv base c1" by (rule set_user_inv [OF inv i])
  obtain s2 c2 where e: "crystalhd_ensure_hw_context a c1 = (s2, c2)" by (cases "crystalhd_ensure_hw_context a c1")
  note E = ensure_inv(1) [OF m(2) e]
  obtain c3 where n: "set_user i (us_in_use_update (\<lambda>_. True)) c2 = Some c3" "so_inv base c3" by (rule set_user_inv [OF E i])
  show ?thesis unfolding crystalhd_user_open_def Some option.case m(1) bind.simps Let_def e prod.case n(1) using E n(2) by auto
qed

lemma user_close_inv:
  assumes inv: "so_inv base c" and i: "i < BC_LINK_MAX_OPENS"
  shows "\<exists>c'. crystalhd_user_close a c i = Some c' \<and> so_inv base c'"
proof -
  obtain c1 where m: "set_user i (\<lambda>u. u\<lparr>us_mode := DTS_MODE_INV, us_in_use := False\<rparr>) c = Some c1" "so_inv base c1" by (rule set_user_inv [OF inv i])
  have r: "so_inv base (snd (crystalhd_session_release_locked a c1 (Some (Tok_User i))))"
    by (rule release_inv(1) [OF m(2) prod.collapse [symmetric]])
  have u: "so_inv base (snd (crystalhd_session_retire_unpublished a c1))" by (rule unpublished_inv(1) [OF m(2) prod.collapse [symmetric]])
  have h: "so_inv base (snd (crystalhd_retire_hw_context a True c1))" by (rule retire_inv(1) [OF m(2) prod.collapse [symmetric]]) simp
  show ?thesis unfolding crystalhd_user_close_def user_at_in [OF inv i] bind.simps m(1) Let_def using inv m(2) r u h by simp
qed

lemma native_close_inv:
  assumes inv: "so_inv base c" and i: "i < BC_LINK_MAX_OPENS"
  shows "\<exists>c'. crystalhd_native_legacy_close c i = Some c' \<and> so_inv base c'"
proof -
  obtain c1 where m: "set_user i (\<lambda>u. u\<lparr>us_mode := DTS_MODE_INV, us_in_use := False\<rparr>) c = Some c1" "so_inv base c1" by (rule set_user_inv [OF inv i])
  show ?thesis unfolding crystalhd_native_legacy_close_def user_at_in [OF inv i] bind.simps m(1) using inv m(2) by auto
qed

lemma native_open_inv:
  assumes inv: "so_inv base c"
  shows "\<exists>sts i c'. crystalhd_native_legacy_open c = Some (sts, i, c') \<and> so_inv base c'"
proof (cases "bc_cproc_get_uid c")
  case None
  then show ?thesis using inv by (simp add: crystalhd_native_legacy_open_def)
next
  case (Some i)
  note i = get_uid_less [OF inv Some]
  obtain c1 where m: "set_user i (\<lambda>u. u\<lparr>us_mode := DTS_MODE_INV, us_in_use := True\<rparr>) c = Some c1" "so_inv base c1" by (rule set_user_inv [OF inv i])
  show ?thesis unfolding crystalhd_native_legacy_open_def Some option.case m(1) using inv m(2) by simp
qed

lemma native_notify_inv:
  assumes inv: "so_inv base c"
  shows "\<exists>sts c'. crystalhd_native_legacy_notify c i mode = Some (sts, c') \<and> so_inv base c'"
proof (cases "i < BC_LINK_MAX_OPENS")
  case False
  then show ?thesis using inv by (simp add: crystalhd_native_legacy_notify_def)
next
  case i: True
  obtain c1 where m: "set_user i (us_mode_update (\<lambda>_. mode)) c = Some c1" "so_inv base c1" by (rule set_user_inv [OF inv i])
  show ?thesis unfolding crystalhd_native_legacy_notify_def user_at_in [OF inv i] bind.simps m(1) using inv m(2) by auto
qed

lemma setup_context_inv:
  assumes inv: "so_inv base c" and r: "crystalhd_setup_cmd_context a c = (sts, c')"
  shows "so_inv base c'"
proof (cases "ss_module_pinned c \<or> ss_lifetime_owner c \<noteq> None \<or> ss_lifetime_ops c \<or> ss_retained_rx c \<noteq> None")
  case True
  then have "c' = c" using r by (auto simp: crystalhd_setup_cmd_context_def)
  then show ?thesis using inv by simp
next
  case False
  then show ?thesis using r inv
    by (auto simp: crystalhd_setup_cmd_context_def so_inv_def no_resources_def lease_of_def enable_irq_def disable_irq_def Let_def split: if_splits)
qed

lemma delete_inv:
  assumes inv: "so_inv base c" and r: "crystalhd_delete_cmd_context a c = (sts, c')"
  shows "so_inv base c'" "sts = BC_STS_SUCCESS \<longrightarrow> let_go c c'"
proof -
  obtain ok1 c1 where k: "(if ss_hw_ctx c \<noteq> None then crystalhd_retained_cleanup (sa_unmap a) True (c\<lparr>ss_rings := False\<rparr>) else (True, c)) = (ok1, c1)"
    by (cases "if ss_hw_ctx c \<noteq> None then crystalhd_retained_cleanup (sa_unmap a) True (c\<lparr>ss_rings := False\<rparr>) else (True, c)")
  obtain x where c1: "c1 = (if ss_hw_ctx c \<noteq> None then c\<lparr>ss_rings := False, ss_retained_rx := x\<rparr> else c)" "ss_hw_ctx c \<noteq> None \<and> ok1 \<longrightarrow> x = None"
  proof (cases "ss_hw_ctx c")
    case None
    then show ?thesis using that [of None] k by simp
  next
    case (Some f)
    then have "crystalhd_retained_cleanup (sa_unmap a) True (c\<lparr>ss_rings := False\<rparr>) = (ok1, c1)" using k by simp
    from cleanup_frame [OF this] obtain y where y: "c1 = c\<lparr>ss_rings := False, ss_retained_rx := y\<rparr>" "ok1 \<longrightarrow> y = None" by auto
    show ?thesis using that [of y] y Some by simp
  qed
  define c2 where "c2 = c1\<lparr>ss_hw_ctx := None\<rparr>"
  obtain ok3 c3 where k3: "crystalhd_retained_cleanup (sa_unmap a) True c2 = (ok3, c3)" by (cases "crystalhd_retained_cleanup (sa_unmap a) True c2")
  from cleanup_frame [OF this] obtain y where c3: "c3 = c2\<lparr>ss_retained_rx := y\<rparr>" by blast
  define d where "d = c3\<lparr>ss_dio_pool := False, ss_elem_pool := False, ss_state := STATE_INVALID,
       ss_session_owner := None, ss_retain_rx_on_suspend := False, ss_stream := False, ss_decoder_cold := True, ss_adp := False\<rparr>"
  have R: "(sts, c') = (if ss_hw_ctx c \<noteq> None \<and> sa_free_rings a \<noteq> BC_STS_SUCCESS then (sa_free_rings a, c)
      else if \<not> ok1 then (BC_STS_IO_ERROR, c1) else if \<not> ok3 then (BC_STS_IO_ERROR, c3) else (BC_STS_SUCCESS, crystalhd_session_unpin d))"
    using r unfolding crystalhd_delete_cmd_context_def k prod.case Let_def c2_def [symmetric] k3 d_def by simp
  have i1: "so_inv base c1" using inv by (auto simp: c1(1) so_inv_def no_resources_def lease_of_def)
  have nr: "no_resources c" if "ss_hw_ctx c = None" using inv that by (simp add: so_inv_def)
  have i3: "so_inv base c3" if "ok1" "\<not> ok3"
  proof (cases "ss_hw_ctx c")
    case None
    then show ?thesis using inv nr by (auto simp: c3 c2_def c1(1) so_inv_def no_resources_def lease_of_def)
  next
    case (Some f)
    then have "ss_retained_rx c2 = None" using c1 that(1) by (simp add: c2_def)
    then show ?thesis using cleanup_none [of c2] k3 that(2) by simp
  qed
  have d: "so_inv base d" "no_resources d" "ss_session_owner d = None" "ss_hw_ctx d = None" "ss_lifetime_owner d = ss_lifetime_owner c" "ss_calls d = ss_calls c"
    using inv nr by (auto simp: d_def c3 c2_def c1(1) so_inv_def no_resources_def lease_of_def)
  have u: "so_inv base (crystalhd_session_unpin d)" "let_go c (crystalhd_session_unpin d)"
    using unpin_inv [OF d(1,3,2)] d by (simp_all add: let_go_def)
  have "so_inv base c' \<and> (sts = BC_STS_SUCCESS \<longrightarrow> let_go c c')" using R inv i1 i3 u by (auto split: if_splits)
  then show "so_inv base c'" "sts = BC_STS_SUCCESS \<longrightarrow> let_go c c'" by auto
qed

lemma session_step_inv:
  assumes inv: "so_inv base c" and ok: "session_op_ok op"
  shows "\<exists>sts c'. session_step op c = Some (sts, c') \<and> so_inv base c'"
proof (cases "\<not> ss_adp c \<and> \<not> is_setup op")
  case True
  then show ?thesis using inv by (simp add: session_step_def)
next
  case False
  have "\<exists>sts c'. session_exec op c = Some (sts, c') \<and> so_inv base c'"
  proof (cases op)
    case (So_Acquire_Ref a owner ops)
    then show ?thesis using acquire_ref_inv(1) [OF inv prod.collapse [symmetric]] by (metis session_exec.simps(1) surjective_pairing)
  next
    case (So_Release a owner)
    then show ?thesis using release_inv(1) [OF inv prod.collapse [symmetric]] by (metis session_exec.simps(2) surjective_pairing)
  next
    case (So_Set_Mode a i mode)
    then show ?thesis using set_mode_inv [OF inv] ok by simp
  next
    case (So_Open a)
    then show ?thesis using user_open_inv [OF inv, of a] by fastforce
  next
    case (So_Close a i)
    then show ?thesis using user_close_inv [OF inv, of i a] ok by fastforce
  next
    case (So_Release_User a i)
    then have i: "i < BC_LINK_MAX_OPENS" using ok by simp
    then show ?thesis using user_close_inv [OF inv i, of a] inv user_at_in [OF inv i] by (auto simp: So_Release_User bc_cproc_release_user_def)
  next
    case So_Native_Open
    then show ?thesis using native_open_inv [OF inv] by fastforce
  next
    case (So_Native_Close i)
    then show ?thesis using native_close_inv [OF inv, of i] ok by fastforce
  next
    case (So_Native_Notify i mode)
    then show ?thesis using native_notify_inv [OF inv] by simp
  next
    case (So_Native_Release i)
    show ?thesis
    proof (cases "i < BC_LINK_MAX_OPENS")
      case i: True
      then show ?thesis using native_close_inv [OF inv i] user_at_in [OF inv i] inv by (auto simp: So_Native_Release crystalhd_native_legacy_release_def)
    qed (use inv in \<open>simp add: So_Native_Release crystalhd_native_legacy_release_def\<close>)
  next
    case (So_Setup a)
    then show ?thesis using setup_context_inv [OF inv prod.collapse [symmetric]] by (metis session_exec.simps(11) surjective_pairing)
  next
    case (So_Delete a)
    then show ?thesis using delete_inv(1) [OF inv prod.collapse [symmetric]] by (metis session_exec.simps(12) surjective_pairing)
  next
    case (So_Env st stream cold registry fault)
    then show ?thesis using inv by (auto simp: so_inv_def no_resources_def lease_of_def)
  qed
  then show ?thesis using False by (auto simp: session_step_def)
qed

interpretation ownership: call_history session_step session_op_ok "so_inv base" for base
  using session_step_inv by unfold_locales blast

lemma retire_stops:
  assumes "crystalhd_retire_hw_context a True c = (True, c')"
  shows "ss_hw_ctx c = None \<or> ss_hw_ctx c = Some False \<and> sa_stop_capture a = BC_STS_SUCCESS \<and> sa_cancel_tx a = BC_STS_SUCCESS \<and>
    sa_hw_close a = BC_STS_SUCCESS \<and> sa_free_rings a = BC_STS_SUCCESS"
  using assms unfolding crystalhd_retire_hw_context_def Let_def by (auto split: option.splits if_splits)

lemma release_stops:
  assumes "crystalhd_session_release_locked a c owner = (BC_STS_SUCCESS, c')"
  shows "sa_l0s_end a = rc_ok \<and> (ss_hw_ctx c = None \<or> ss_hw_ctx c = Some False \<and> sa_stop_capture a = BC_STS_SUCCESS \<and>
    sa_cancel_tx a = BC_STS_SUCCESS \<and> sa_hw_close a = BC_STS_SUCCESS \<and> sa_free_rings a = BC_STS_SUCCESS)"
proof -
  obtain ok1 c1 where k: "crystalhd_retire_hw_context a True c = (ok1, c1)" by (cases "crystalhd_retire_hw_context a True c")
  have "ok1 \<and> sa_l0s_end a = rc_ok"
    using assms unfolding crystalhd_session_release_locked_def crystalhd_session_retire_unpublished_def k Let_def prod.case by (auto split: if_splits)
  then show ?thesis using retire_stops [of a c c1] k by simp
qed

section \<open>Properties\<close>

text \<open>
  C14: The core keeps its promises to an owner. Over any sequence of acquisitions, releases, handle
  operations, setup and deletion of the context, with any failures of the hardware, allocators and link,
  every call returns; the callbacks an owner sees are get, retired, put, in this order and once each,
  before the next get; the core has a lease exactly while it remembers its holder; a session owner or a
  lease holds the module pinned, an owner with a lease is the holder of it; the module count is balanced;
  without the pin, or without a hardware context, no pool and no ring is left; interrupts are enabled.
\<close>

theorem session_lease_protocol:
  assumes "so_inv base c" "\<forall>op\<in>set ops. session_op_ok op"
  shows "\<exists>rs c'. run_ops session_step ops c = Some (rs, c') \<and>
    lease_run L_Idle (ss_calls c') = Some (case ss_lifetime_owner c' of None \<Rightarrow> L_Idle | Some t \<Rightarrow> L_Held t) \<and>
    (ss_session_owner c' \<noteq> None \<or> ss_lifetime_owner c' \<noteq> None \<longrightarrow> ss_module_pinned c') \<and>
    (ss_session_owner c' \<noteq> None \<and> ss_lifetime_owner c' \<noteq> None \<longrightarrow> ss_session_owner c' = ss_lifetime_owner c') \<and>
    ss_module_refs c' = base + of_bool (ss_module_pinned c') \<and>
    (\<not> ss_module_pinned c' \<or> ss_hw_ctx c' = None \<longrightarrow> \<not> ss_rings c' \<and> \<not> ss_dio_pool c' \<and> \<not> ss_elem_pool c') \<and> ss_irq_depth c' = 0"
proof -
  from ownership.run_total [OF assms] obtain rs c' where r: "run_ops session_step ops c = Some (rs, c')" and "so_inv base c'" by blast
  then show ?thesis by (intro exI [of _ rs] exI [of _ c']) (auto simp: so_inv_def lease_of_def no_resources_def)
qed

text \<open>
  C37: Release fails closed. A release that reports success found the engine without a fault and stopped,
  its transmit queue cancelled, the device closed, its rings freed and the link restored; it leaves no
  owner, no lease, no pin and no resource, and told the lease holder exactly once. A release that
  fails for any reason leaves owner, lease, pin and module count as they were, and calls nobody.
\<close>

theorem session_release_fails_closed:
  assumes "so_inv base c" "crystalhd_session_release_locked a c owner = (sts, c')"
  shows "if sts = BC_STS_SUCCESS
    then sa_l0s_end a = rc_ok \<and> (ss_hw_ctx c = None \<or> ss_hw_ctx c = Some False \<and> sa_stop_capture a = BC_STS_SUCCESS \<and>
           sa_cancel_tx a = BC_STS_SUCCESS \<and> sa_hw_close a = BC_STS_SUCCESS \<and> sa_free_rings a = BC_STS_SUCCESS) \<and>
         ss_session_owner c' = None \<and> ss_lifetime_owner c' = None \<and> \<not> ss_module_pinned c' \<and> ss_hw_ctx c' = None \<and>
         \<not> ss_rings c' \<and> \<not> ss_dio_pool c' \<and> \<not> ss_elem_pool c' \<and>
         ss_calls c' = ss_calls c @ (case ss_lifetime_owner c of None \<Rightarrow> [] | Some t \<Rightarrow> [Cb_Retired t, Cb_Put t])
    else ss_session_owner c' = ss_session_owner c \<and> ss_lifetime_owner c' = ss_lifetime_owner c \<and> ss_module_pinned c' = ss_module_pinned c \<and>
         ss_module_refs c' = ss_module_refs c \<and> ss_calls c' = ss_calls c"
  using release_inv(2) [OF assms] release_stops [of a c owner c'] assms(2)
  by (cases "sts = BC_STS_SUCCESS") (simp_all add: let_go_def no_resources_def same_owner_def)

section \<open>Witnesses\<close>

definition demo_session_answer :: "bc_status \<Rightarrow> session_answer" where
  "demo_session_answer s = \<lparr>sa_module_get = True, sa_kmalloc = True, sa_hw_open = BC_STS_SUCCESS, sa_elem_pool = True, sa_dio_pool = True,
     sa_setup_rings = BC_STS_SUCCESS, sa_l0s_begin = rc_ok, sa_l0s_end = rc_ok, sa_stop_capture = s, sa_cancel_tx = BC_STS_SUCCESS,
     sa_hw_close = BC_STS_SUCCESS, sa_free_rings = BC_STS_SUCCESS, sa_unmap = (\<lambda>_. BC_STS_SUCCESS)\<rparr>"

definition demo_fresh :: session_ctx where
  "demo_fresh = \<lparr>ss_adp = True, ss_state = 0, ss_users = map (\<lambda>i. \<lparr>us_uid = word_of_nat i, us_in_use = False, us_mode = 0xffffffff\<rparr>) [0..<3], ss_session_owner = None,
     ss_lifetime_owner = None, ss_lifetime_ops = False, ss_module_pinned = False, ss_retain_rx_on_suspend = False, ss_retained_rx = None,
     ss_retained_serial = 0, ss_stream = False, ss_decoder_cold = True, ss_hw_ctx = None, ss_cin_wait_exit = 0, ss_pwr_state_change = 0,
     ss_rings = False, ss_dio_pool = False, ss_elem_pool = False, ss_irq_depth = 0, ss_cfg_users = 0, ss_module_refs = 1, ss_calls = []\<rparr>"

definition demo_acquired :: session_ctx where
  "demo_acquired = snd (crystalhd_session_acquire_ref_locked (demo_session_answer BC_STS_SUCCESS) demo_fresh (Some (Tok_Frontend 7)) True)"

lemma demo_fresh_inv: "so_inv 1 demo_fresh"
  by (simp add: so_inv_def demo_fresh_def no_resources_def lease_of_def)

lemma demo_acquired_inv: "so_inv 1 demo_acquired"
  unfolding demo_acquired_def by (rule acquire_ref_inv(1) [OF demo_fresh_inv prod.collapse [symmetric]])

theorem session_lease_protocol_witness:
  "\<exists>rs c'. run_ops session_step [So_Acquire_Ref (demo_session_answer BC_STS_SUCCESS) (Some (Tok_Frontend 7)) True,
      So_Release (demo_session_answer BC_STS_TIMEOUT) (Some (Tok_Frontend 7)), So_Release (demo_session_answer BC_STS_SUCCESS) (Some (Tok_Frontend 7))]
      demo_fresh = Some (rs, c') \<and>
    lease_run L_Idle (ss_calls c') = Some (case ss_lifetime_owner c' of None \<Rightarrow> L_Idle | Some t \<Rightarrow> L_Held t)"
  (is "\<exists>rs c'. run_ops session_step ?ops _ = _ \<and> _")
proof -
  have o: "\<forall>op\<in>set ?ops. session_op_ok op" by simp
  from session_lease_protocol [OF demo_fresh_inv o] show ?thesis by blast
qed

theorem session_release_fails_closed_witness:
  "fst (crystalhd_session_release_locked (demo_session_answer BC_STS_SUCCESS) demo_acquired (Some (Tok_Frontend 7))) = BC_STS_SUCCESS \<and>
   ss_calls (snd (crystalhd_session_release_locked (demo_session_answer BC_STS_SUCCESS) demo_acquired (Some (Tok_Frontend 7)))) =
     [Cb_Get (Tok_Frontend 7), Cb_Retired (Tok_Frontend 7), Cb_Put (Tok_Frontend 7)]"
proof -
  have s: "fst (crystalhd_session_release_locked (demo_session_answer BC_STS_SUCCESS) demo_acquired (Some (Tok_Frontend 7))) = BC_STS_SUCCESS"
    "ss_calls demo_acquired = [Cb_Get (Tok_Frontend 7)]" "ss_lifetime_owner demo_acquired = Some (Tok_Frontend 7)"
    by code_simp+
  from session_release_fails_closed [OF demo_acquired_inv prod.collapse [symmetric], of "demo_session_answer BC_STS_SUCCESS" "Some (Tok_Frontend 7)"] s
  show ?thesis by simp
qed

end
