(* ===== verification/V4l2_Ctx.thy ===== *)
theory V4l2_Ctx
  imports Session_Owner
begin

text \<open>
  Lifetime of the V4L2 contexts (\<^verbatim>\<open>driver/linux/crystalhd_v4l2.c\<close>): the frontend's base reference, the lease
  of the session core, the registry of closing contexts and the close worker, which run concurrently
  and may each be the last to let a context go. A section under the close lock, and a section under a
  context's mutex that takes it once, is one atomic step; memory that has been freed is absent, and an
  access to it has no result.
\<close>

section \<open>Data\<close>

datatype crystalhd_v4l2_owner_state = CRYSTALHD_V4L2_OWNER_NEVER | CRYSTALHD_V4L2_OWNER_HELD | CRYSTALHD_V4L2_OWNER_RETIRED

record crystalhd_v4l2_ctx =
  cx_ref :: u32
  cx_generation :: u64
  cx_owner_state :: crystalhd_v4l2_owner_state
  cx_core_reference_held :: bool
  cx_closing :: bool
  cx_work_active :: bool
  cx_kick_pending :: bool
  cx_cleanup_committed :: bool
  cx_private :: bool

text \<open>
  The parent with its contexts. \<open>pv_pending\<close> is the registry list, \<open>pv_work\<close> the work items waiting in the
  close work queue, \<open>pv_alive\<close> is false once the parent is freed, \<open>pv_warned\<close> records any \<^verbatim>\<open>WARN_ON_ONCE\<close>
  that fired, and \<open>pv_destroyed\<close> the contexts that were released.
\<close>

record crystalhd_v4l2 =
  pv_generation :: u64
  pv_disconnected :: bool
  pv_pending :: "nat list"
  pv_ctxs :: "nat \<Rightarrow> crystalhd_v4l2_ctx option"
  pv_device_refs :: u32
  pv_module_refs :: int
  pv_alive :: bool
  pv_work :: "nat list"
  pv_warned :: bool
  pv_destroyed :: "nat list"

definition put_ctx :: "nat \<Rightarrow> crystalhd_v4l2_ctx \<Rightarrow> crystalhd_v4l2 \<Rightarrow> crystalhd_v4l2" where
  "put_ctx cid c p = p\<lparr>pv_ctxs := (pv_ctxs p)(cid \<mapsto> c)\<rparr>"

text \<open>The context and the close lock of its parent, if both still exist.\<close>

definition ctx_at :: "crystalhd_v4l2 \<Rightarrow> nat \<Rightarrow> crystalhd_v4l2_ctx option" where
  "ctx_at p cid = (if pv_alive p then pv_ctxs p cid else None)"

section \<open>References\<close>

definition crystalhd_v4l2_release :: "crystalhd_v4l2 \<Rightarrow> crystalhd_v4l2" where
  "crystalhd_v4l2_release p = p\<lparr>pv_alive := False\<rparr>"

definition v4l2_device_put :: "crystalhd_v4l2 \<Rightarrow> crystalhd_v4l2" where
  "v4l2_device_put p =
    (let (z, r) = refcount_dec_and_test (pv_device_refs p); p1 = p\<lparr>pv_device_refs := r\<rparr>
     in if z then crystalhd_v4l2_release p1 else p1)"

definition crystalhd_v4l2_parent_get :: "crystalhd_v4l2 \<Rightarrow> crystalhd_v4l2" where
  "crystalhd_v4l2_parent_get p = p\<lparr>pv_device_refs := refcount_inc (pv_device_refs p)\<rparr>"

definition crystalhd_v4l2_parent_put :: "crystalhd_v4l2 \<Rightarrow> crystalhd_v4l2" where
  "crystalhd_v4l2_parent_put p = v4l2_device_put p"

definition crystalhd_v4l2_ctx_release :: "nat \<Rightarrow> crystalhd_v4l2_ctx \<Rightarrow> crystalhd_v4l2 \<Rightarrow> crystalhd_v4l2" where
  "crystalhd_v4l2_ctx_release cid c p =
    (let warn = (\<not> cx_cleanup_committed c \<or> cx_core_reference_held c \<or> cx_work_active c \<or> cid \<in> set (pv_pending p));
         p1 = p\<lparr>pv_warned := pv_warned p \<or> warn, pv_destroyed := pv_destroyed p @ [cid], pv_ctxs := (pv_ctxs p)(cid := None)\<rparr>;
         p2 = v4l2_device_put p1
     in p2\<lparr>pv_module_refs := pv_module_refs p2 - 1\<rparr>)"

definition kref_put :: "nat \<Rightarrow> crystalhd_v4l2 \<Rightarrow> crystalhd_v4l2 option" where
  "kref_put cid p = do {
     c \<leftarrow> ctx_at p cid;
     let (z, r) = refcount_dec_and_test (cx_ref c);
     let c1 = c\<lparr>cx_ref := r\<rparr>;
     let p1 = put_ctx cid c1 p;
     Some (if z then crystalhd_v4l2_ctx_release cid c1 p1 else p1) }"

definition crystalhd_v4l2_queue_close_locked :: "nat \<Rightarrow> crystalhd_v4l2 \<Rightarrow> crystalhd_v4l2 option" where
  "crystalhd_v4l2_queue_close_locked cid p = do {
     c \<leftarrow> ctx_at p cid;
     (if \<not> cx_closing c \<or> cx_cleanup_committed c then Some p
      else let c1 = c\<lparr>cx_kick_pending := True\<rparr>
           in if cx_work_active c1 then Some (put_ctx cid c1 p)
              else let p1 = put_ctx cid (c1\<lparr>cx_work_active := True, cx_ref := refcount_inc (cx_ref c1)\<rparr>) p
                   in Some (if cid \<in> set (pv_work p1) then p1\<lparr>pv_warned := True\<rparr> else p1\<lparr>pv_work := pv_work p1 @ [cid]\<rparr>)) }"

section \<open>The owner's callbacks\<close>

definition crystalhd_v4l2_owner_get :: "nat \<Rightarrow> crystalhd_v4l2 \<Rightarrow> crystalhd_v4l2 option" where
  "crystalhd_v4l2_owner_get cid p = do {
     c \<leftarrow> ctx_at p cid;
     Some (put_ctx cid (c\<lparr>cx_ref := refcount_inc (cx_ref c), cx_core_reference_held := True, cx_owner_state := CRYSTALHD_V4L2_OWNER_HELD\<rparr>) p) }"

definition crystalhd_v4l2_owner_retired :: "nat \<Rightarrow> crystalhd_v4l2 \<Rightarrow> crystalhd_v4l2 option" where
  "crystalhd_v4l2_owner_retired cid p = do {
     c \<leftarrow> ctx_at p cid;
     crystalhd_v4l2_queue_close_locked cid (put_ctx cid (c\<lparr>cx_owner_state := CRYSTALHD_V4L2_OWNER_RETIRED\<rparr>) p) }"

definition crystalhd_v4l2_owner_put :: "nat \<Rightarrow> crystalhd_v4l2 \<Rightarrow> crystalhd_v4l2 option" where
  "crystalhd_v4l2_owner_put cid p = do {
     p1 \<leftarrow> kref_put cid p;
     c \<leftarrow> ctx_at p1 cid;
     crystalhd_v4l2_queue_close_locked cid (put_ctx cid (c\<lparr>cx_core_reference_held := False\<rparr>) p1) }"

definition crystalhd_v4l2_ctx_retired :: "crystalhd_v4l2_ctx \<Rightarrow> bool" where
  "crystalhd_v4l2_ctx_retired c \<longleftrightarrow> \<not> cx_core_reference_held c \<and>
    (cx_owner_state c = CRYSTALHD_V4L2_OWNER_NEVER \<or> cx_owner_state c = CRYSTALHD_V4L2_OWNER_RETIRED)"

section \<open>The close worker\<close>

text \<open>
  One round of the worker's loop: its admission section, which decides whether to try a release of the
  session, and the section that decides what follows. Between them the worker may call
  \<^const>\<open>crystalhd_session_release_locked\<close>, whose callbacks are steps of the core.
\<close>

definition close_worker_admit :: "nat \<Rightarrow> crystalhd_v4l2 \<Rightarrow> (bool \<times> crystalhd_v4l2) option" where
  "close_worker_admit cid p = do {
     c \<leftarrow> ctx_at p cid;
     let c1 = c\<lparr>cx_kick_pending := False\<rparr>;
     Some (\<not> crystalhd_v4l2_ctx_retired c1 \<and> \<not> pv_disconnected p, put_ctx cid c1 p) }"

datatype worker_verdict = Committed | Once_More | Leave

definition close_worker_settle :: "nat \<Rightarrow> crystalhd_v4l2 \<Rightarrow> (worker_verdict \<times> crystalhd_v4l2) option" where
  "close_worker_settle cid p = do {
     c \<leftarrow> ctx_at p cid;
     Some (if crystalhd_v4l2_ctx_retired c
           then (Committed, (put_ctx cid (c\<lparr>cx_cleanup_committed := True, cx_work_active := False, cx_kick_pending := False\<rparr>) p)
                   \<lparr>pv_pending := filter (\<lambda>x. x \<noteq> cid) (pv_pending p)\<rparr>)
           else if cx_kick_pending c then (Once_More, p)
           else (Leave, put_ctx cid (c\<lparr>cx_work_active := False\<rparr>) p)) }"

section \<open>Calls of the frontend\<close>

text \<open>\<open>mem\<close> is the memory the allocator returns; the caller passes its parent and a place for the result.\<close>

definition crystalhd_v4l2_ctx_create :: "bool \<Rightarrow> nat option \<Rightarrow> crystalhd_v4l2 \<Rightarrow> (rc \<times> crystalhd_v4l2) option" where
  "crystalhd_v4l2_ctx_create module_get mem p =
    (if \<not> module_get then Some (Some ENODEV, p)
     else
       let p0 = p\<lparr>pv_module_refs := pv_module_refs p + 1\<rparr>
       in case mem of None \<Rightarrow> Some (Some ENOMEM, p0\<lparr>pv_module_refs := pv_module_refs p0 - 1\<rparr>)
        | Some cid \<Rightarrow>
          if \<not> pv_alive p then None
          else if pv_disconnected p then Some (Some ENODEV, p0\<lparr>pv_module_refs := pv_module_refs p0 - 1\<rparr>)
          else Some (rc_ok, put_ctx cid \<lparr>cx_ref = 1, cx_generation = pv_generation p, cx_owner_state = CRYSTALHD_V4L2_OWNER_NEVER,
                 cx_core_reference_held = False, cx_closing = False, cx_work_active = False, cx_kick_pending = False,
                 cx_cleanup_committed = False, cx_private = False\<rparr> (crystalhd_v4l2_parent_get p0)))"

definition crystalhd_v4l2_ctx_bind :: "nat \<Rightarrow> crystalhd_v4l2 \<Rightarrow> crystalhd_v4l2 option" where
  "crystalhd_v4l2_ctx_bind cid p = do { c \<leftarrow> pv_ctxs p cid; Some (put_ctx cid (c\<lparr>cx_private := True\<rparr>) p) }"

definition ctx_acquire_admit :: "nat \<Rightarrow> crystalhd_v4l2 \<Rightarrow> rc option" where
  "ctx_acquire_admit cid p = do { c \<leftarrow> ctx_at p cid; Some (if cx_closing c \<or> pv_disconnected p then Some ENODEV else rc_ok) }"

text \<open>The section of the close; the base reference is dropped in a step of its own, after the mutex.\<close>

definition ctx_close_section :: "nat \<Rightarrow> crystalhd_v4l2 \<Rightarrow> (bool \<times> crystalhd_v4l2) option" where
  "ctx_close_section cid p = do {
     c \<leftarrow> ctx_at p cid;
     (if cx_closing c then Some (False, p)
      else do {
        p1 \<leftarrow> crystalhd_v4l2_queue_close_locked cid
          ((put_ctx cid (c\<lparr>cx_closing := True, cx_ref := refcount_inc (cx_ref c)\<rparr>) p)\<lparr>pv_pending := pv_pending p @ [cid]\<rparr>);
        Some (True, p1) }) }"

section \<open>Power management and removal\<close>

fun queue_all :: "nat list \<Rightarrow> crystalhd_v4l2 \<Rightarrow> crystalhd_v4l2 option" where
  "queue_all [] p = Some p"
| "queue_all (cid # ids) p = do { p1 \<leftarrow> crystalhd_v4l2_queue_close_locked cid p; queue_all ids p1 }"

definition crystalhd_v4l2_resume_ready :: "crystalhd_v4l2 \<Rightarrow> crystalhd_v4l2 option" where
  "crystalhd_v4l2_resume_ready p = (if \<not> pv_alive p then None else queue_all (pv_pending p) p)"

definition crystalhd_v4l2_unregister :: "crystalhd_v4l2 \<Rightarrow> crystalhd_v4l2 option" where
  "crystalhd_v4l2_unregister p =
    (if \<not> pv_alive p then None
     else do { p1 \<leftarrow> queue_all (pv_pending p) (p\<lparr>pv_disconnected := True\<rparr>); Some (v4l2_device_put p1) })"

text \<open>
  Registration: whether the adapter is initialised and owns the PCI device, whether it has a parent already,
  the allocation, and the outcomes of registering the V4L2 device and the video node. The result is the
  status, whether the adapter has a parent now, and the memory of the new parent if it is still allocated.
\<close>

definition parent_new :: "u64 \<Rightarrow> int \<Rightarrow> crystalhd_v4l2" where
  "parent_new generation modules = \<lparr>pv_generation = generation, pv_disconnected = False, pv_pending = [], pv_ctxs = Map.empty,
     pv_device_refs = 1, pv_module_refs = modules, pv_alive = True, pv_work = [], pv_warned = False, pv_destroyed = []\<rparr>"

definition crystalhd_v4l2_register :: "bool \<Rightarrow> bool \<Rightarrow> bool \<Rightarrow> rc \<Rightarrow> rc \<Rightarrow> u64 \<Rightarrow> int \<Rightarrow> rc \<times> bool \<times> crystalhd_v4l2 option" where
  "crystalhd_v4l2_register adp_ok has_v4l2 kz device_rc node_rc generation modules =
    (if \<not> adp_ok \<or> generation = 0 then (Some EINVAL, has_v4l2, None)
     else if has_v4l2 then (Some EBUSY, True, None)
     else if \<not> kz then (Some ENOMEM, False, None)
     else if device_rc \<noteq> rc_ok then (device_rc, False, None)
     else
       let p = parent_new generation modules
       in if node_rc \<noteq> rc_ok then (let p1 = v4l2_device_put p in (node_rc, False, if pv_alive p1 then Some p1 else None))
          else (rc_ok, True, Some p))"

section \<open>Concurrent histories\<close>

text \<open>
  The threads of a context: the frontend, which owns the base reference from creation until its close
  returns it; the close worker, which the work queue runs at most once at a time; and the session core,
  whose callbacks follow the lease protocol. The frontend holds the context's mutex while it acquires
  the session, the worker while it tries to release it.
\<close>

datatype front_pc = F_None | F_Open | F_Acquiring | F_Closing | F_Done

datatype worker_pc = W_Idle | W_Release | W_Settle | W_Again | W_Put nat

record ctx_threads =
  ct_front :: front_pc
  ct_worker :: worker_pc
  ct_lease :: lease

record ctx_sys =
  sy_parent :: crystalhd_v4l2
  sy_threads :: "nat \<Rightarrow> ctx_threads"
  sy_registered :: bool
  sy_others :: nat

text \<open>A step of one thread; \<open>Cx_Core\<close> is a callback of the core after \<open>Cx_Get\<close>.\<close>

datatype ctx_op =
    Cx_Create bool bool nat
  | Cx_Bind nat
  | Cx_Acquire nat
  | Cx_Refused nat
  | Cx_Get nat
  | Cx_Retired nat
  | Cx_Core_Put nat
  | Cx_Close nat
  | Cx_Close_Put nat
  | Cx_Start nat
  | Cx_Again nat
  | Cx_Release nat
  | Cx_Settle nat
  | Cx_Worker_Put nat
  | Cx_Resume
  | Cx_Unregister
  | Cx_Parent_Get
  | Cx_Parent_Put

definition set_thread :: "nat \<Rightarrow> (ctx_threads \<Rightarrow> ctx_threads) \<Rightarrow> ctx_sys \<Rightarrow> ctx_sys" where
  "set_thread cid f s = s\<lparr>sy_threads := (sy_threads s)(cid := f (sy_threads s cid))\<rparr>"

text \<open>The step when its thread is there, the unchanged system otherwise; no result if it touches freed memory.\<close>

definition act :: "bool \<Rightarrow> crystalhd_v4l2 option \<Rightarrow> (ctx_sys \<Rightarrow> ctx_sys) \<Rightarrow> ctx_sys \<Rightarrow> (bool \<times> ctx_sys) option" where
  "act guard r f s = (if \<not> guard then Some (False, s) else do { p \<leftarrow> r; Some (True, f (s\<lparr>sy_parent := p\<rparr>)) })"

abbreviation (input) front :: "ctx_sys \<Rightarrow> nat \<Rightarrow> front_pc" where "front s cid \<equiv> ct_front (sy_threads s cid)"
abbreviation (input) worker :: "ctx_sys \<Rightarrow> nat \<Rightarrow> worker_pc" where "worker s cid \<equiv> ct_worker (sy_threads s cid)"
abbreviation (input) lease_at :: "ctx_sys \<Rightarrow> nat \<Rightarrow> lease" where "lease_at s cid \<equiv> ct_lease (sy_threads s cid)"

abbreviation (input) CTX_MAX :: nat where "CTX_MAX \<equiv> 0x100000"

fun ctx_step :: "ctx_op \<Rightarrow> ctx_sys \<Rightarrow> (bool \<times> ctx_sys) option" where
  "ctx_step (Cx_Create m mem cid) s =
     (if front s cid \<noteq> F_None \<or> \<not> (sy_registered s \<or> 0 < sy_others s) then Some (False, s)
      else do {
        (rc, p) \<leftarrow> crystalhd_v4l2_ctx_create m (if mem then Some cid else None) (sy_parent s);
        let s1 = s\<lparr>sy_parent := p\<rparr>;
        Some (True, if rc = rc_ok then set_thread cid (ct_front_update (\<lambda>_. F_Open)) s1 else s1) })"
| "ctx_step (Cx_Bind cid) s = act (front s cid = F_Open) (crystalhd_v4l2_ctx_bind cid (sy_parent s)) (\<lambda>s. s) s"
| "ctx_step (Cx_Acquire cid) s =
     (if front s cid \<noteq> F_Open \<or> worker s cid = W_Release then Some (False, s)
      else do { rc \<leftarrow> ctx_acquire_admit cid (sy_parent s);
                Some (True, if rc = rc_ok then set_thread cid (ct_front_update (\<lambda>_. F_Acquiring)) s else s) })"
| "ctx_step (Cx_Refused cid) s =
     act (front s cid = F_Acquiring) (Some (sy_parent s)) (set_thread cid (ct_front_update (\<lambda>_. F_Open))) s"
| "ctx_step (Cx_Get cid) s =
     (case lease_next (lease_at s cid) (Cb_Get (Tok_Frontend cid)) of None \<Rightarrow> Some (False, s)
      | Some l \<Rightarrow> act (front s cid = F_Acquiring) (crystalhd_v4l2_owner_get cid (sy_parent s))
          (set_thread cid (\<lambda>t. t\<lparr>ct_front := F_Open, ct_lease := l\<rparr>)) s)"
| "ctx_step (Cx_Retired cid) s =
     (case lease_next (lease_at s cid) (Cb_Retired (Tok_Frontend cid)) of None \<Rightarrow> Some (False, s)
      | Some l \<Rightarrow> act True (crystalhd_v4l2_owner_retired cid (sy_parent s)) (set_thread cid (\<lambda>t. t\<lparr>ct_lease := l\<rparr>)) s)"
| "ctx_step (Cx_Core_Put cid) s =
     (case lease_next (lease_at s cid) (Cb_Put (Tok_Frontend cid)) of None \<Rightarrow> Some (False, s)
      | Some l \<Rightarrow> act True (crystalhd_v4l2_owner_put cid (sy_parent s)) (set_thread cid (\<lambda>t. t\<lparr>ct_lease := l\<rparr>)) s)"
| "ctx_step (Cx_Close cid) s =
     (if front s cid \<noteq> F_Open \<or> worker s cid = W_Release then Some (False, s)
      else do { (first, p) \<leftarrow> ctx_close_section cid (sy_parent s);
                let s1 = s\<lparr>sy_parent := p\<rparr>;
                Some (True, if first then set_thread cid (ct_front_update (\<lambda>_. F_Closing)) s1 else s1) })"
| "ctx_step (Cx_Close_Put cid) s =
     act (front s cid = F_Closing) (kref_put cid (sy_parent s)) (set_thread cid (ct_front_update (\<lambda>_. F_Done))) s"
| "ctx_step (Cx_Start cid) s =
     (if worker s cid \<noteq> W_Idle \<or> cid \<notin> set (pv_work (sy_parent s)) \<or> front s cid = F_Acquiring then Some (False, s)
      else act True (map_option snd (close_worker_admit cid ((sy_parent s)\<lparr>pv_work := filter (\<lambda>x. x \<noteq> cid) (pv_work (sy_parent s))\<rparr>)))
             (set_thread cid (ct_worker_update (\<lambda>_. W_Release))) s)"
| "ctx_step (Cx_Again cid) s =
     act (worker s cid = W_Again \<and> front s cid \<noteq> F_Acquiring) (map_option snd (close_worker_admit cid (sy_parent s)))
       (set_thread cid (ct_worker_update (\<lambda>_. W_Release))) s"
| "ctx_step (Cx_Release cid) s =
     act (worker s cid = W_Release) (Some (sy_parent s)) (set_thread cid (ct_worker_update (\<lambda>_. W_Settle))) s"
| "ctx_step (Cx_Settle cid) s =
     (if worker s cid \<noteq> W_Settle then Some (False, s)
      else do { (v, p) \<leftarrow> close_worker_settle cid (sy_parent s);
                Some (True, set_thread cid (ct_worker_update (\<lambda>_. case v of Committed \<Rightarrow> W_Put 2 | Once_More \<Rightarrow> W_Again | Leave \<Rightarrow> W_Put 1))
                              (s\<lparr>sy_parent := p\<rparr>)) })"
| "ctx_step (Cx_Worker_Put cid) s =
     (case worker s cid of W_Put n \<Rightarrow>
        act True (kref_put cid (sy_parent s)) (set_thread cid (ct_worker_update (\<lambda>_. if n \<le> 1 then W_Idle else W_Put (n - 1)))) s
      | _ \<Rightarrow> Some (False, s))"
| "ctx_step Cx_Resume s = act (sy_registered s) (crystalhd_v4l2_resume_ready (sy_parent s)) (\<lambda>s. s) s"
| "ctx_step Cx_Unregister s = act (sy_registered s) (crystalhd_v4l2_unregister (sy_parent s)) (\<lambda>s. s\<lparr>sy_registered := False\<rparr>) s"
| "ctx_step Cx_Parent_Get s =
     act ((sy_registered s \<or> 0 < sy_others s) \<and> sy_others s < CTX_MAX) (Some (crystalhd_v4l2_parent_get (sy_parent s))) (\<lambda>s. s\<lparr>sy_others := sy_others s + 1\<rparr>) s"
| "ctx_step Cx_Parent_Put s =
     act (0 < sy_others s) (Some (crystalhd_v4l2_parent_put (sy_parent s))) (\<lambda>s. s\<lparr>sy_others := sy_others s - 1\<rparr>) s"

fun ctx_op_ok :: "ctx_op \<Rightarrow> bool" where
  "ctx_op_ok (Cx_Create m mem cid) \<longleftrightarrow> cid < CTX_MAX"
| "ctx_op_ok _ \<longleftrightarrow> True"

section \<open>The invariant\<close>

text \<open>Who holds a context: the frontend, the core, the registry, the scheduled worker, and the puts the worker still owes.\<close>

definition refs_of :: "ctx_threads \<Rightarrow> crystalhd_v4l2_ctx \<Rightarrow> nat" where
  "refs_of t c = of_bool (ct_front t \<in> {F_Open, F_Acquiring, F_Closing}) + of_bool (cx_core_reference_held c) +
    of_bool (cx_closing c \<and> \<not> cx_cleanup_committed c) + of_bool (cx_work_active c) + (case ct_worker t of W_Put n \<Rightarrow> n | _ \<Rightarrow> 0)"

fun lease_state :: "nat \<Rightarrow> lease \<Rightarrow> crystalhd_v4l2_owner_state \<Rightarrow> bool" where
  "lease_state cid L_Idle st \<longleftrightarrow> st \<noteq> CRYSTALHD_V4L2_OWNER_HELD"
| "lease_state cid (L_Held t) st \<longleftrightarrow> t = Tok_Frontend cid \<and> st = CRYSTALHD_V4L2_OWNER_HELD"
| "lease_state cid (L_Retired t) st \<longleftrightarrow> t = Tok_Frontend cid \<and> st = CRYSTALHD_V4L2_OWNER_RETIRED"

definition lease_ok :: "nat \<Rightarrow> ctx_threads \<Rightarrow> crystalhd_v4l2_ctx \<Rightarrow> bool" where
  "lease_ok cid t c \<longleftrightarrow> cx_core_reference_held c = (ct_lease t \<noteq> L_Idle) \<and> lease_state cid (ct_lease t) (cx_owner_state c)"

definition close_ok :: "bool \<Rightarrow> ctx_threads \<Rightarrow> crystalhd_v4l2_ctx \<Rightarrow> bool" where
  "close_ok pend t c \<longleftrightarrow> ct_front t \<noteq> F_None \<and> cx_closing c = (ct_front t = F_Closing \<or> ct_front t = F_Done) \<and>
    (cx_cleanup_committed c \<longrightarrow> cx_closing c) \<and> pend = (cx_closing c \<and> \<not> cx_cleanup_committed c)"

definition work_ok :: "bool \<Rightarrow> ctx_threads \<Rightarrow> crystalhd_v4l2_ctx \<Rightarrow> bool" where
  "work_ok queued t c \<longleftrightarrow> cx_work_active c = (queued \<or> ct_worker t = W_Release \<or> ct_worker t = W_Settle \<or> ct_worker t = W_Again) \<and>
    (queued \<longrightarrow> ct_worker t = W_Idle \<or> ct_worker t = W_Put 1) \<and>
    (cx_work_active c \<longrightarrow> cx_closing c \<and> \<not> cx_cleanup_committed c) \<and>
    (\<forall>n. ct_worker t = W_Put n \<longrightarrow> cx_closing c \<and> 0 < n \<and> n \<le> (if cx_cleanup_committed c then 2 else 1))"

definition almost_ok :: "bool \<Rightarrow> bool \<Rightarrow> nat \<Rightarrow> ctx_threads \<Rightarrow> crystalhd_v4l2_ctx \<Rightarrow> bool" where
  "almost_ok pend queued cid t c \<longleftrightarrow> lease_ok cid t c \<and> close_ok pend t c \<and> work_ok queued t c \<and>
    (cx_cleanup_committed c \<longrightarrow> \<not> cx_core_reference_held c)"

text \<open>No wake-up is lost: a closing context that nobody needs has its worker scheduled.\<close>

definition shape_ok :: "bool \<Rightarrow> bool \<Rightarrow> nat \<Rightarrow> ctx_threads \<Rightarrow> crystalhd_v4l2_ctx \<Rightarrow> bool" where
  "shape_ok pend queued cid t c \<longleftrightarrow> almost_ok pend queued cid t c \<and>
    (cx_closing c \<and> \<not> cx_cleanup_committed c \<and> crystalhd_v4l2_ctx_retired c \<longrightarrow> cx_work_active c)"

lemma lease_ok_frame [simp]:
  "lease_ok cid (t\<lparr>ct_front := f\<rparr>) c = lease_ok cid t c" "lease_ok cid (t\<lparr>ct_worker := w\<rparr>) c = lease_ok cid t c"
  "lease_ok cid t (c\<lparr>cx_ref := r\<rparr>) = lease_ok cid t c" "lease_ok cid t (c\<lparr>cx_closing := b\<rparr>) = lease_ok cid t c"
  "lease_ok cid t (c\<lparr>cx_work_active := b\<rparr>) = lease_ok cid t c" "lease_ok cid t (c\<lparr>cx_kick_pending := b\<rparr>) = lease_ok cid t c"
  "lease_ok cid t (c\<lparr>cx_cleanup_committed := b\<rparr>) = lease_ok cid t c" "lease_ok cid t (c\<lparr>cx_private := b\<rparr>) = lease_ok cid t c"
  by (simp_all add: lease_ok_def)

lemma close_ok_frame [simp]:
  "close_ok pend (t\<lparr>ct_worker := w\<rparr>) c = close_ok pend t c" "close_ok pend (t\<lparr>ct_lease := l\<rparr>) c = close_ok pend t c"
  "close_ok pend t (c\<lparr>cx_ref := r\<rparr>) = close_ok pend t c" "close_ok pend t (c\<lparr>cx_work_active := b\<rparr>) = close_ok pend t c"
  "close_ok pend t (c\<lparr>cx_kick_pending := b\<rparr>) = close_ok pend t c" "close_ok pend t (c\<lparr>cx_private := b\<rparr>) = close_ok pend t c"
  "close_ok pend t (c\<lparr>cx_owner_state := o'\<rparr>) = close_ok pend t c" "close_ok pend t (c\<lparr>cx_core_reference_held := b\<rparr>) = close_ok pend t c"
  by (simp_all add: close_ok_def)

lemma work_ok_frame [simp]:
  "work_ok queued (t\<lparr>ct_front := f\<rparr>) c = work_ok queued t c" "work_ok queued (t\<lparr>ct_lease := l\<rparr>) c = work_ok queued t c"
  "work_ok queued t (c\<lparr>cx_ref := r\<rparr>) = work_ok queued t c" "work_ok queued t (c\<lparr>cx_kick_pending := b\<rparr>) = work_ok queued t c"
  "work_ok queued t (c\<lparr>cx_private := b\<rparr>) = work_ok queued t c" "work_ok queued t (c\<lparr>cx_owner_state := o'\<rparr>) = work_ok queued t c"
  "work_ok queued t (c\<lparr>cx_core_reference_held := b\<rparr>) = work_ok queued t c"
  by (simp_all add: work_ok_def)

lemma retired_frame [simp]:
  "crystalhd_v4l2_ctx_retired (c\<lparr>cx_ref := r\<rparr>) = crystalhd_v4l2_ctx_retired c" "crystalhd_v4l2_ctx_retired (c\<lparr>cx_closing := b\<rparr>) = crystalhd_v4l2_ctx_retired c"
  "crystalhd_v4l2_ctx_retired (c\<lparr>cx_work_active := b\<rparr>) = crystalhd_v4l2_ctx_retired c" "crystalhd_v4l2_ctx_retired (c\<lparr>cx_kick_pending := b\<rparr>) = crystalhd_v4l2_ctx_retired c"
  "crystalhd_v4l2_ctx_retired (c\<lparr>cx_cleanup_committed := b\<rparr>) = crystalhd_v4l2_ctx_retired c" "crystalhd_v4l2_ctx_retired (c\<lparr>cx_private := b\<rparr>) = crystalhd_v4l2_ctx_retired c"
  by (simp_all add: crystalhd_v4l2_ctx_retired_def)

lemmas shape_defs = shape_ok_def almost_ok_def lease_ok_def close_ok_def work_ok_def

definition dead_ok :: "bool \<Rightarrow> bool \<Rightarrow> ctx_threads \<Rightarrow> bool" where
  "dead_ok pend queued t \<longleftrightarrow> \<not> pend \<and> \<not> queued \<and> (ct_front t = F_None \<or> ct_front t = F_Done) \<and> ct_worker t = W_Idle \<and> ct_lease t = L_Idle"

definition slot_ok :: "ctx_sys \<Rightarrow> nat \<Rightarrow> bool" where
  "slot_ok s cid = (let p = sy_parent s; pend = cid \<in> set (pv_pending p); queued = cid \<in> set (pv_work p); t = sy_threads s cid
    in case pv_ctxs p cid of None \<Rightarrow> dead_ok pend queued t
       | Some c \<Rightarrow> shape_ok pend queued cid t c \<and> unat (cx_ref c) = refs_of t c \<and> 0 < refs_of t c \<and> cid < CTX_MAX)"

definition sys_inv :: "int \<Rightarrow> ctx_sys \<Rightarrow> bool" where
  "sys_inv base s \<longleftrightarrow> (let p = sy_parent s in (\<forall>cid. slot_ok s cid) \<and> distinct (pv_pending p) \<and> sy_others s \<le> CTX_MAX \<and>
    unat (pv_device_refs p) = of_bool (sy_registered s) + sy_others s + card (dom (pv_ctxs p)) \<and>
    pv_alive p = (pv_device_refs p \<noteq> 0) \<and> pv_module_refs p = base + int (card (dom (pv_ctxs p))) \<and> \<not> pv_warned p \<and>
    distinct (pv_destroyed p) \<and> (\<forall>cid\<in>set (pv_destroyed p). ct_front (sy_threads s cid) = F_Done \<and> pv_ctxs p cid = None))"

lemma inc_ref: "0 < unat r \<Longrightarrow> unat r < 0x7FFFFFFF \<Longrightarrow> unat (refcount_inc r) = unat r + 1"
  by (auto simp: refcount_inc_def word_le_nat_alt unat_word_ariths unat_eq_0 split: if_splits)

lemma dec_ref:
  assumes "0 < unat r" "unat r < 0x7FFFFFFF"
  shows "refcount_dec_and_test r = (unat r = 1, if unat r = 1 then 0 else r - 1)" "unat (if unat r = 1 then 0 else r - 1) = unat r - 1"
proof -
  have one: "r = 1 \<longleftrightarrow> unat r = 1" by (simp add: word_unat_eq_iff)
  have nz: "r \<noteq> 0" using assms(1) by (auto simp: unat_eq_0)
  show "refcount_dec_and_test r = (unat r = 1, if unat r = 1 then 0 else r - 1)"
    using assms one nz by (simp add: refcount_dec_and_test_def word_le_nat_alt)
  show "unat (if unat r = 1 then 0 else r - 1) = unat r - 1" using nz by (simp add: unat_pred)
qed

lemma almost_refs:
  assumes "almost_ok pend queued cid t c"
  shows "refs_of t c \<le> 6"
proof -
  have "(case ct_worker t of W_Put n \<Rightarrow> n | _ \<Rightarrow> 0) \<le> 2"
    using assms by (cases "ct_worker t") (auto simp: almost_ok_def work_ok_def split: if_splits)
  moreover have "of_bool b \<le> (1 :: nat)" for b by simp
  ultimately show ?thesis by (simp add: refs_of_def of_bool_def split: if_splits)
qed

lemma shape_refs: "shape_ok pend queued cid t c \<Longrightarrow> refs_of t c \<le> 6"
  by (auto simp: shape_ok_def intro: almost_refs)

lemma shape_ref [simp]: "shape_ok pend queued cid t (c\<lparr>cx_ref := r\<rparr>) = shape_ok pend queued cid t c"
  "refs_of t (c\<lparr>cx_ref := r\<rparr>) = refs_of t c"
  by (simp_all add: shape_ok_def almost_ok_def refs_of_def)

lemma shape_kick [simp]: "shape_ok pend queued cid t (c\<lparr>cx_kick_pending := k\<rparr>) = shape_ok pend queued cid t c"
  "refs_of t (c\<lparr>cx_kick_pending := k\<rparr>) = refs_of t c"
  by (simp_all add: shape_ok_def almost_ok_def refs_of_def)

lemma sys_finite: "sys_inv base s \<Longrightarrow> finite (dom (pv_ctxs (sy_parent s))) \<and> card (dom (pv_ctxs (sy_parent s))) \<le> CTX_MAX"
proof -
  assume inv: "sys_inv base s"
  have "dom (pv_ctxs (sy_parent s)) \<subseteq> {..<CTX_MAX}"
  proof
    fix cid assume "cid \<in> dom (pv_ctxs (sy_parent s))"
    then obtain c where "pv_ctxs (sy_parent s) cid = Some c" by auto
    moreover have "slot_ok s cid" using inv by (simp add: sys_inv_def Let_def)
    ultimately show "cid \<in> {..<CTX_MAX}" by (simp add: slot_ok_def Let_def)
  qed
  from card_mono [OF finite_lessThan this] finite_subset [OF this] show ?thesis by simp
qed

lemma sys_liveD:
  assumes "sys_inv base s" "pv_ctxs (sy_parent s) cid = Some c"
  shows "shape_ok (cid \<in> set (pv_pending (sy_parent s))) (cid \<in> set (pv_work (sy_parent s))) cid (sy_threads s cid) c"
    "unat (cx_ref c) = refs_of (sy_threads s cid) c" "0 < unat (cx_ref c)" "cid < CTX_MAX" "ctx_at (sy_parent s) cid = Some c" "pv_alive (sy_parent s)"
    "unat (cx_ref c) \<le> 6"
proof -
  have s: "slot_ok s cid" using assms(1) by (simp add: sys_inv_def Let_def)
  then show k: "shape_ok (cid \<in> set (pv_pending (sy_parent s))) (cid \<in> set (pv_work (sy_parent s))) cid (sy_threads s cid) c"
    "unat (cx_ref c) = refs_of (sy_threads s cid) c" "0 < unat (cx_ref c)" "cid < CTX_MAX"
    using assms(2) by (simp_all add: slot_ok_def Let_def)
  have "dom (pv_ctxs (sy_parent s)) \<noteq> {}" using assms(2) by auto
  then have "card (dom (pv_ctxs (sy_parent s))) \<noteq> 0" using sys_finite [OF assms(1)] by simp
  then have "unat (pv_device_refs (sy_parent s)) \<noteq> 0" using assms(1) by (simp add: sys_inv_def Let_def)
  then show a: "pv_alive (sy_parent s)" using assms(1) by (auto simp: sys_inv_def Let_def)
  then show "ctx_at (sy_parent s) cid = Some c" using assms(2) by (simp add: ctx_at_def)
  show "unat (cx_ref c) \<le> 6" using k(2) shape_refs [OF k(1)] by simp
qed

text \<open>A step that changes one live context, its threads and its places in the lists.\<close>

lemma sys_local:
  assumes inv: "sys_inv base s" and c: "pv_ctxs (sy_parent s) cid = Some c"
    and ok: "shape_ok (cid \<in> set pend) (cid \<in> set w) cid t' c'" "unat (cx_ref c') = refs_of t' c'" "0 < refs_of t' c'"
    and lists: "\<forall>x. x \<noteq> cid \<longrightarrow> (x \<in> set pend \<longleftrightarrow> x \<in> set (pv_pending (sy_parent s))) \<and> (x \<in> set w \<longleftrightarrow> x \<in> set (pv_work (sy_parent s)))" "distinct pend"
  shows "sys_inv base (s\<lparr>sy_parent := (sy_parent s)\<lparr>pv_ctxs := (pv_ctxs (sy_parent s))(cid \<mapsto> c'), pv_pending := pend, pv_work := w\<rparr>,
      sy_threads := (sy_threads s)(cid := t')\<rparr>)"
proof -
  let ?s = "s\<lparr>sy_parent := (sy_parent s)\<lparr>pv_ctxs := (pv_ctxs (sy_parent s))(cid \<mapsto> c'), pv_pending := pend, pv_work := w\<rparr>,
      sy_threads := (sy_threads s)(cid := t')\<rparr>"
  have "slot_ok ?s x" for x
  proof (cases "x = cid")
    case True
    then show ?thesis using ok sys_liveD(4) [OF inv c] by (simp add: slot_ok_def)
  next
    case False
    moreover have "slot_ok s x" using inv by (simp add: sys_inv_def Let_def)
    ultimately show ?thesis using lists(1) by (cases "pv_ctxs (sy_parent s) x") (simp_all add: slot_ok_def Let_def)
  qed
  moreover have "dom ((pv_ctxs (sy_parent s))(cid \<mapsto> c')) = dom (pv_ctxs (sy_parent s))" using c by auto
  moreover have "x \<in> set (pv_destroyed (sy_parent s)) \<Longrightarrow> x \<noteq> cid" for x using inv c by (auto simp: sys_inv_def Let_def)
  ultimately show ?thesis using inv lists(2) by (auto simp: sys_inv_def Let_def)
qed

lemma device_put:
  assumes "0 < unat (pv_device_refs p)" "unat (pv_device_refs p) < 0x7FFFFFFF"
  obtains r where "v4l2_device_put p = p\<lparr>pv_device_refs := r, pv_alive := pv_alive p \<and> r \<noteq> 0\<rparr>" "unat r = unat (pv_device_refs p) - 1"
proof -
  define r where "r = (if unat (pv_device_refs p) = 1 then 0 else pv_device_refs p - 1)"
  note d = dec_ref [OF assms, folded r_def]
  have z: "r = 0 \<longleftrightarrow> unat (pv_device_refs p) = 1" using d(2) assms(1) by (auto simp: unat_eq_0 [symmetric])
  have "v4l2_device_put p = p\<lparr>pv_device_refs := r, pv_alive := pv_alive p \<and> r \<noteq> 0\<rparr>"
    using z by (cases "pv_alive p") (simp_all add: v4l2_device_put_def d(1) crystalhd_v4l2_release_def Let_def)
  then show ?thesis using that d(2) by blast
qed

lemma sys_device:
  assumes "sys_inv base s"
  shows "unat (pv_device_refs (sy_parent s)) < 0x7FFFFFFF"
  using assms sys_finite [OF assms] by (auto simp: sys_inv_def Let_def)

text \<open>The last reference: the context goes with its references on device and module.\<close>

lemma sys_destroy:
  assumes inv: "sys_inv base s" and c: "pv_ctxs (sy_parent s) cid = Some c"
    and ok: "shape_ok (cid \<in> set (pv_pending (sy_parent s))) (cid \<in> set (pv_work (sy_parent s))) cid t' c" "refs_of t' c = 0"
  shows "sys_inv base (s\<lparr>sy_parent := crystalhd_v4l2_ctx_release cid (c\<lparr>cx_ref := r\<rparr>) (put_ctx cid (c\<lparr>cx_ref := r\<rparr>) (sy_parent s)),
      sy_threads := (sy_threads s)(cid := t')\<rparr>)"
proof -
  let ?p = "sy_parent s"
  have z: "ct_front t' = F_Done" "\<not> cx_core_reference_held c" "\<not> cx_work_active c" "cx_closing c \<longrightarrow> cx_cleanup_committed c" "ct_worker t' = W_Idle"
    using ok by (cases "ct_front t'"; cases "ct_worker t'"; simp add: refs_of_def shape_defs)+
  have k: "cx_cleanup_committed c" "cid \<notin> set (pv_pending ?p)" "cid \<notin> set (pv_work ?p)" "ct_lease t' = L_Idle"
    using ok z by (auto simp: shape_defs)
  define p1 where "p1 = ?p\<lparr>pv_warned := False, pv_destroyed := pv_destroyed ?p @ [cid], pv_ctxs := (pv_ctxs ?p)(cid := None)\<rparr>"
  have fin: "finite (dom (pv_ctxs ?p))" using sys_finite [OF inv] by simp
  have cd: "card (dom (pv_ctxs ?p)) = Suc (card (dom ((pv_ctxs ?p)(cid := None))))"
    using fin c by (metis card_Suc_Diff1 domI dom_fun_upd)
  have dv: "unat (pv_device_refs p1) = of_bool (sy_registered s) + sy_others s + card (dom (pv_ctxs ?p))" "unat (pv_device_refs p1) < 0x7FFFFFFF"
    using inv sys_device [OF inv] by (simp_all add: p1_def sys_inv_def Let_def)
  then have "0 < unat (pv_device_refs p1)" using cd by simp
  from device_put [OF this dv(2)] obtain r1 where r1: "v4l2_device_put p1 = p1\<lparr>pv_device_refs := r1, pv_alive := pv_alive p1 \<and> r1 \<noteq> 0\<rparr>"
    "unat r1 = unat (pv_device_refs p1) - 1" .
  have w: "\<not> pv_warned ?p" using inv by (simp add: sys_inv_def Let_def)
  define p3 where "p3 = ?p\<lparr>pv_warned := False, pv_destroyed := pv_destroyed ?p @ [cid], pv_ctxs := (pv_ctxs ?p)(cid := None), pv_device_refs := r1,
      pv_alive := pv_alive ?p \<and> r1 \<noteq> 0, pv_module_refs := pv_module_refs ?p - 1\<rparr>"
  have "crystalhd_v4l2_ctx_release cid (c\<lparr>cx_ref := r\<rparr>) (put_ctx cid (c\<lparr>cx_ref := r\<rparr>) ?p) =
      (v4l2_device_put p1)\<lparr>pv_module_refs := pv_module_refs (v4l2_device_put p1) - 1\<rparr>"
    using k(1,2) z w by (simp add: crystalhd_v4l2_ctx_release_def put_ctx_def Let_def p1_def)
  then have E: "crystalhd_v4l2_ctx_release cid (c\<lparr>cx_ref := r\<rparr>) (put_ctx cid (c\<lparr>cx_ref := r\<rparr>) ?p) = p3"
    unfolding r1(1) by (simp add: p1_def p3_def)
  let ?s = "s\<lparr>sy_parent := p3, sy_threads := (sy_threads s)(cid := t')\<rparr>"
  have "slot_ok ?s x" for x
  proof (cases "x = cid")
    case True
    then show ?thesis using k z by (simp add: slot_ok_def p3_def dead_ok_def)
  next
    case False
    moreover have "slot_ok s x" using inv by (simp add: sys_inv_def Let_def)
    ultimately show ?thesis by (cases "pv_ctxs (sy_parent s) x") (simp_all add: slot_ok_def p3_def Let_def)
  qed
  moreover have "cid \<notin> set (pv_destroyed ?p)" using inv c by (auto simp: sys_inv_def Let_def)
  moreover have "unat r1 = of_bool (sy_registered s) + sy_others s + card (dom (pv_ctxs p3))"
    using r1(2) dv(1) cd by (simp add: p3_def)
  moreover have "pv_alive ?p" by (rule sys_liveD(6) [OF inv c])
  ultimately have "sys_inv base ?s" using inv z(1) cd by (auto simp: sys_inv_def Let_def p3_def)
  then show ?thesis unfolding E .
qed

lemma put_ctx_eq: "put_ctx cid c p = p\<lparr>pv_ctxs := (pv_ctxs p)(cid \<mapsto> c), pv_pending := pv_pending p, pv_work := pv_work p\<rparr>"
  by (simp add: put_ctx_def)

lemma kref_put_step:
  assumes inv: "sys_inv base s" and c: "pv_ctxs (sy_parent s) cid = Some c"
    and ok: "shape_ok (cid \<in> set (pv_pending (sy_parent s))) (cid \<in> set (pv_work (sy_parent s))) cid t' c" "refs_of t' c + 1 = unat (cx_ref c)"
  shows "\<exists>p'. kref_put cid (sy_parent s) = Some p' \<and> sys_inv base (s\<lparr>sy_parent := p', sy_threads := (sy_threads s)(cid := t')\<rparr>) \<and>
    (if refs_of t' c = 0 then pv_ctxs p' cid = None else \<exists>r. p' = put_ctx cid (c\<lparr>cx_ref := r\<rparr>) (sy_parent s))"
proof -
  note L = sys_liveD [OF inv c]
  define r where "r = (if unat (cx_ref c) = 1 then 0 else cx_ref c - 1)"
  have b: "unat (cx_ref c) < 0x7FFFFFFF" using L(7) by simp
  note d = dec_ref [OF L(3) b, folded r_def]
  show ?thesis
  proof (cases "unat (cx_ref c) = 1")
    case True
    then have z: "refs_of t' c = 0" using ok(2) by simp
    have "pv_ctxs (crystalhd_v4l2_ctx_release cid (c\<lparr>cx_ref := r\<rparr>) (put_ctx cid (c\<lparr>cx_ref := r\<rparr>) (sy_parent s))) cid = None"
      by (simp add: crystalhd_v4l2_ctx_release_def v4l2_device_put_def crystalhd_v4l2_release_def Let_def split: prod.split)
    then show ?thesis using sys_destroy [OF inv c ok(1) z, of r] True z by (simp add: kref_put_def L(5) d(1) Let_def)
  next
    case False
    have p: "kref_put cid (sy_parent s) = Some (put_ctx cid (c\<lparr>cx_ref := r\<rparr>) (sy_parent s))"
      using False by (simp add: kref_put_def L(5) d(1) Let_def)
    have u: "unat (cx_ref (c\<lparr>cx_ref := r\<rparr>)) = refs_of t' (c\<lparr>cx_ref := r\<rparr>)" "0 < refs_of t' (c\<lparr>cx_ref := r\<rparr>)" "refs_of t' c \<noteq> 0"
      using d(2) ok(2) False by simp_all
    have dp: "distinct (pv_pending (sy_parent s))" using inv by (simp add: sys_inv_def Let_def)
    have "sys_inv base (s\<lparr>sy_parent := put_ctx cid (c\<lparr>cx_ref := r\<rparr>) (sy_parent s), sy_threads := (sy_threads s)(cid := t')\<rparr>)"
      unfolding put_ctx_eq by (rule sys_local [OF inv c _ u(1,2) _ dp]) (use ok(1) in simp_all)
    then show ?thesis using p u(3) by auto
  qed
qed

text \<open>Scheduling the worker.\<close>

definition wants :: "crystalhd_v4l2_ctx \<Rightarrow> bool" where
  "wants c \<longleftrightarrow> cx_closing c \<and> \<not> cx_cleanup_committed c"

definition kicked :: "crystalhd_v4l2_ctx \<Rightarrow> crystalhd_v4l2_ctx" where
  "kicked c = (if \<not> wants c then c else if cx_work_active c then c\<lparr>cx_kick_pending := True\<rparr>
     else c\<lparr>cx_kick_pending := True, cx_work_active := True, cx_ref := refcount_inc (cx_ref c)\<rparr>)"

definition enqueued :: "nat \<Rightarrow> crystalhd_v4l2_ctx \<Rightarrow> nat list \<Rightarrow> nat list" where
  "enqueued cid c w = (if wants c \<and> \<not> cx_work_active c then w @ [cid] else w)"

lemma queue_eq:
  assumes "ctx_at p cid = Some c" "cid \<in> set (pv_work p) \<Longrightarrow> cx_work_active c"
  shows "crystalhd_v4l2_queue_close_locked cid p = Some (p\<lparr>pv_ctxs := (pv_ctxs p)(cid \<mapsto> kicked c), pv_work := enqueued cid c (pv_work p)\<rparr>)"
proof -
  have c: "pv_ctxs p cid = Some c" using assms(1) by (simp add: ctx_at_def split: if_splits)
  then have t: "(pv_ctxs p)(cid \<mapsto> c) = pv_ctxs p" by auto
  show ?thesis
    using assms t unfolding crystalhd_v4l2_queue_close_locked_def
    by (auto simp: kicked_def enqueued_def wants_def put_ctx_def Let_def)
qed

lemma queue_put:
  assumes "pv_alive p" "cid \<in> set (pv_work p) \<Longrightarrow> cx_work_active c"
  shows "crystalhd_v4l2_queue_close_locked cid (p\<lparr>pv_ctxs := (pv_ctxs p)(cid \<mapsto> c), pv_pending := l\<rparr>) =
    Some (p\<lparr>pv_ctxs := (pv_ctxs p)(cid \<mapsto> kicked c), pv_pending := l, pv_work := enqueued cid c (pv_work p)\<rparr>)"
proof -
  have at: "ctx_at (p\<lparr>pv_ctxs := (pv_ctxs p)(cid \<mapsto> c), pv_pending := l\<rparr>) cid = Some c" using assms(1) by (simp add: ctx_at_def)
  show ?thesis using queue_eq [OF at] assms(2) by simp
qed

lemma kicked_ok:
  assumes a: "almost_ok pend queued cid t c" and r: "unat (cx_ref c) = refs_of t c" "0 < refs_of t c" "refs_of t c \<le> 6"
    and q: "cid \<in> set w \<longleftrightarrow> queued"
  shows "shape_ok pend (cid \<in> set (enqueued cid c w)) cid t (kicked c)" "unat (cx_ref (kicked c)) = refs_of t (kicked c)" "0 < refs_of t (kicked c)"
proof -
  have inc: "unat (refcount_inc (cx_ref c)) = unat (cx_ref c) + 1" using r by (intro inc_ref) simp_all
  have A: "lease_ok cid t c" "close_ok pend t c" "work_ok queued t c" "cx_cleanup_committed c \<longrightarrow> \<not> cx_core_reference_held c"
    using a by (simp_all add: almost_ok_def)
  show "unat (cx_ref (kicked c)) = refs_of t (kicked c)" "0 < refs_of t (kicked c)"
    using inc r by (auto simp: kicked_def refs_of_def)
  consider (idle) "\<not> wants c" | (running) "wants c" "cx_work_active c" | (start) "wants c" "\<not> cx_work_active c" by blast
  then show "shape_ok pend (cid \<in> set (enqueued cid c w)) cid t (kicked c)"
  proof cases
    case idle
    then show ?thesis using a q by (auto simp: kicked_def enqueued_def wants_def shape_ok_def)
  next
    case running
    then show ?thesis using A q by (simp add: kicked_def enqueued_def shape_ok_def almost_ok_def)
  next
    case start
    then have "work_ok True t (c\<lparr>cx_kick_pending := True, cx_work_active := True\<rparr>)" using A(3) by (cases "ct_worker t") (auto simp: work_ok_def wants_def)
    then show ?thesis using A start by (simp add: kicked_def enqueued_def shape_ok_def almost_ok_def)
  qed
qed

text \<open>A step that ends in scheduling the worker.\<close>

lemma sys_queue:
  assumes inv: "sys_inv base s" and c: "pv_ctxs (sy_parent s) cid = Some c"
    and a: "almost_ok (cid \<in> set pend) (cid \<in> set (pv_work (sy_parent s))) cid t' c'" and r: "unat (cx_ref c') = refs_of t' c'" "0 < refs_of t' c'"
    and l: "\<forall>x. x \<noteq> cid \<longrightarrow> (x \<in> set pend \<longleftrightarrow> x \<in> set (pv_pending (sy_parent s)))" "distinct pend"
  shows "\<exists>p'. crystalhd_v4l2_queue_close_locked cid ((sy_parent s)\<lparr>pv_ctxs := (pv_ctxs (sy_parent s))(cid \<mapsto> c'), pv_pending := pend\<rparr>) = Some p' \<and>
    sys_inv base (s\<lparr>sy_parent := p', sy_threads := (sy_threads s)(cid := t')\<rparr>)"
proof -
  have w: "cid \<in> set (pv_work (sy_parent s)) \<Longrightarrow> cx_work_active c'" using a by (simp add: almost_ok_def work_ok_def)
  note k = kicked_ok [OF a r almost_refs [OF a] refl]
  have "sys_inv base (s\<lparr>sy_parent := (sy_parent s)\<lparr>pv_ctxs := (pv_ctxs (sy_parent s))(cid \<mapsto> kicked c'), pv_pending := pend,
      pv_work := enqueued cid c' (pv_work (sy_parent s))\<rparr>, sy_threads := (sy_threads s)(cid := t')\<rparr>)"
    by (rule sys_local [OF inv c k _ l(2)]) (use l(1) in \<open>auto simp: enqueued_def\<close>)
  then show ?thesis using queue_put [OF sys_liveD(6) [OF inv c] w, where l = pend] by simp
qed

section \<open>Every step\<close>

lemma ex_bool [simp]: "\<exists>b::bool. b" "\<exists>b::bool. \<not> b"
  by blast+

lemma sys_live:
  assumes "sys_inv base s" "ct_front (sy_threads s cid) \<in> {F_Open, F_Acquiring, F_Closing} \<or> ct_worker (sy_threads s cid) \<noteq> W_Idle \<or>
    ct_lease (sy_threads s cid) \<noteq> L_Idle \<or> cid \<in> set (pv_work (sy_parent s)) \<or> cid \<in> set (pv_pending (sy_parent s))"
  obtains c where "pv_ctxs (sy_parent s) cid = Some c"
proof (cases "pv_ctxs (sy_parent s) cid")
  case None
  moreover have "slot_ok s cid" using assms(1) by (simp add: sys_inv_def Let_def)
  ultimately show ?thesis using assms(2) by (auto simp: slot_ok_def dead_ok_def Let_def)
qed (rule that)

lemma pending_distinct: "sys_inv base s \<Longrightarrow> distinct (pv_pending (sy_parent s))"
  by (simp add: sys_inv_def Let_def)

lemma sys_same_lists:
  assumes inv: "sys_inv base s" and c: "pv_ctxs (sy_parent s) cid = Some c"
    and ok: "shape_ok (cid \<in> set (pv_pending (sy_parent s))) (cid \<in> set (pv_work (sy_parent s))) cid t' c'" "unat (cx_ref c') = refs_of t' c'" "0 < refs_of t' c'"
  shows "sys_inv base (s\<lparr>sy_parent := put_ctx cid c' (sy_parent s), sy_threads := (sy_threads s)(cid := t')\<rparr>)"
  unfolding put_ctx_eq by (rule sys_local [OF inv c ok _ pending_distinct [OF inv]]) simp

lemma sys_threads:
  assumes inv: "sys_inv base s" and c: "pv_ctxs (sy_parent s) cid = Some c"
    and ok: "shape_ok (cid \<in> set (pv_pending (sy_parent s))) (cid \<in> set (pv_work (sy_parent s))) cid t' c" "refs_of t' c = refs_of (sy_threads s cid) c"
  shows "sys_inv base (s\<lparr>sy_threads := (sy_threads s)(cid := t')\<rparr>)"
proof -
  note L = sys_liveD [OF inv c]
  have "put_ctx cid c (sy_parent s) = sy_parent s" using c by (simp add: put_ctx_def map_upd_triv)
  then show ?thesis using sys_same_lists [OF inv c ok(1)] L(2,3) ok(2) by simp
qed

lemma step_create:
  assumes inv: "sys_inv base s" and d: "ct_front (sy_threads s cid) = F_None" "sy_registered s \<or> 0 < sy_others s" "cid < CTX_MAX"
  shows "\<exists>b s'. ctx_step (Cx_Create m mem cid) s = Some (b, s') \<and> sys_inv base s'"
proof -
  let ?p = "sy_parent s"
  have n: "pv_ctxs ?p cid = None" "dead_ok (cid \<in> set (pv_pending ?p)) (cid \<in> set (pv_work ?p)) (sy_threads s cid)"
  proof -
    have "slot_ok s cid" using inv by (simp add: sys_inv_def Let_def)
    then show "pv_ctxs ?p cid = None" using d(1) by (cases "pv_ctxs ?p cid") (simp_all add: slot_ok_def shape_defs Let_def)
    with \<open>slot_ok s cid\<close> show "dead_ok (cid \<in> set (pv_pending ?p)) (cid \<in> set (pv_work ?p)) (sy_threads s cid)" by (simp add: slot_ok_def Let_def)
  qed
  have dv: "0 < unat (pv_device_refs ?p)" using inv d(2) by (auto simp: sys_inv_def Let_def)
  then have al: "pv_alive ?p" using inv by (auto simp: sys_inv_def Let_def)
  note inc = inc_ref [OF dv sys_device [OF inv]]
  define c where "c = \<lparr>cx_ref = 1, cx_generation = pv_generation ?p, cx_owner_state = CRYSTALHD_V4L2_OWNER_NEVER,
     cx_core_reference_held = False, cx_closing = False, cx_work_active = False, cx_kick_pending = False,
     cx_cleanup_committed = False, cx_private = False\<rparr>"
  define p' where "p' = ?p\<lparr>pv_module_refs := pv_module_refs ?p + 1, pv_device_refs := refcount_inc (pv_device_refs ?p), pv_ctxs := (pv_ctxs ?p)(cid \<mapsto> c)\<rparr>"
  let ?s = "s\<lparr>sy_parent := p', sy_threads := (sy_threads s)(cid := (sy_threads s cid)\<lparr>ct_front := F_Open\<rparr>)\<rparr>"
  have "slot_ok ?s x" for x
  proof (cases "x = cid")
    case True
    then show ?thesis using n(2) d(3) by (simp add: slot_ok_def p'_def c_def shape_defs dead_ok_def refs_of_def)
  next
    case False
    moreover have "slot_ok s x" using inv by (simp add: sys_inv_def Let_def)
    ultimately show ?thesis by (cases "pv_ctxs ?p x") (simp_all add: slot_ok_def p'_def Let_def)
  qed
  moreover have "card (dom (pv_ctxs p')) = card (dom (pv_ctxs ?p)) + 1" using n(1) sys_finite [OF inv] by (simp add: p'_def domIff)
  moreover have "cid \<notin> set (pv_destroyed ?p)" using inv d(1) by (auto simp: sys_inv_def Let_def)
  moreover have "refcount_inc (pv_device_refs ?p) \<noteq> 0" using inc by (auto simp: unat_eq_0 [symmetric])
  ultimately have ok: "sys_inv base ?s" using inv inc al by (auto simp: sys_inv_def Let_def p'_def)
  have g: "\<not> (ct_front (sy_threads s cid) \<noteq> F_None \<or> \<not> (sy_registered s \<or> 0 < sy_others s))" using d by auto
  show ?thesis
  proof (cases "m \<and> mem \<and> \<not> pv_disconnected ?p")
    case True
    then have "crystalhd_v4l2_ctx_create m (if mem then Some cid else None) ?p = Some (rc_ok, p')"
      using al by (simp add: crystalhd_v4l2_ctx_create_def Let_def crystalhd_v4l2_parent_get_def put_ctx_def p'_def c_def)
    then show ?thesis using ok unfolding ctx_step.simps if_not_P [OF g] by (simp add: set_thread_def)
  next
    case False
    then have "\<exists>e. crystalhd_v4l2_ctx_create m (if mem then Some cid else None) ?p = Some (Some e, ?p)"
      using al by (auto simp: crystalhd_v4l2_ctx_create_def Let_def)
    then show ?thesis using inv unfolding ctx_step.simps if_not_P [OF g] by auto
  qed
qed

lemma step_front:
  assumes inv: "sys_inv base s" and op: "op = Cx_Bind cid \<or> op = Cx_Acquire cid \<or> op = Cx_Refused cid \<or> op = Cx_Get cid"
  shows "\<exists>b s'. ctx_step op s = Some (b, s') \<and> sys_inv base s'"
proof (cases "ct_front (sy_threads s cid) = F_Open \<or> ct_front (sy_threads s cid) = F_Acquiring")
  case False
  then show ?thesis using inv op by (auto simp: act_def split: option.split)
next
  case True
  then obtain c where c: "pv_ctxs (sy_parent s) cid = Some c" using sys_live [OF inv, of cid] by auto
  note L = sys_liveD [OF inv c]
  let ?t = "sy_threads s cid" and ?p = "sy_parent s"
  have bind: "sys_inv base (s\<lparr>sy_parent := put_ctx cid (c\<lparr>cx_private := True\<rparr>) ?p\<rparr>)"
    using sys_same_lists [OF inv c, of ?t "c\<lparr>cx_private := True\<rparr>"] L by (simp add: shape_ok_def almost_ok_def refs_of_def)
  have open_acq: "sys_inv base (s\<lparr>sy_threads := (sy_threads s)(cid := ?t\<lparr>ct_front := f\<rparr>)\<rparr>)" if "f = F_Open \<or> f = F_Acquiring" for f
    using True that L(1) by (intro sys_threads [OF inv c]) (auto simp: shape_ok_def almost_ok_def close_ok_def refs_of_def)
  have get: "sys_inv base (s\<lparr>sy_parent := put_ctx cid (c\<lparr>cx_ref := refcount_inc (cx_ref c), cx_core_reference_held := True,
        cx_owner_state := CRYSTALHD_V4L2_OWNER_HELD\<rparr>) ?p, sy_threads := (sy_threads s)(cid := ?t\<lparr>ct_front := F_Open, ct_lease := L_Held (Tok_Frontend cid)\<rparr>)\<rparr>)"
    if "ct_front ?t = F_Acquiring" "ct_lease ?t = L_Idle"
    using that L inc_ref [of "cx_ref c"]
    by (intro sys_same_lists [OF inv c]) (auto simp: shape_ok_def almost_ok_def lease_ok_def close_ok_def refs_of_def)
  from op show ?thesis
  proof (elim disjE)
    assume "op = Cx_Get cid"
    then show ?thesis using get inv L(5) by (cases "ct_lease ?t") (auto simp: act_def crystalhd_v4l2_owner_get_def set_thread_def)
  qed (use inv bind open_acq c L(5) True in \<open>auto simp: act_def crystalhd_v4l2_ctx_bind_def ctx_acquire_admit_def set_thread_def\<close>)
qed

lemma step_core:
  assumes inv: "sys_inv base s" and op: "op = Cx_Retired cid \<or> op = Cx_Core_Put cid"
  shows "\<exists>b s'. ctx_step op s = Some (b, s') \<and> sys_inv base s'"
proof (cases "ct_lease (sy_threads s cid)")
  case L_Idle
  then show ?thesis using inv op by auto
next
  case (L_Held tok)
  then obtain c where c: "pv_ctxs (sy_parent s) cid = Some c" using sys_live [OF inv, of cid] by auto
  note L = sys_liveD [OF inv c]
  let ?t = "sy_threads s cid" and ?p = "sy_parent s" and ?c = "c\<lparr>cx_owner_state := CRYSTALHD_V4L2_OWNER_RETIRED\<rparr>"
  have tok: "tok = Tok_Frontend cid" using L(1) L_Held by (simp add: shape_ok_def almost_ok_def lease_ok_def)
  have "almost_ok (cid \<in> set (pv_pending ?p)) (cid \<in> set (pv_work ?p)) cid (?t\<lparr>ct_lease := L_Retired (Tok_Frontend cid)\<rparr>) ?c"
    using L(1) L_Held by (auto simp: shape_ok_def almost_ok_def lease_ok_def)
  moreover have "refs_of (?t\<lparr>ct_lease := L_Retired (Tok_Frontend cid)\<rparr>) ?c = refs_of ?t c" by (simp add: refs_of_def)
  ultimately obtain p' where "crystalhd_v4l2_queue_close_locked cid (?p\<lparr>pv_ctxs := (pv_ctxs ?p)(cid \<mapsto> ?c), pv_pending := pv_pending ?p\<rparr>) = Some p'"
    "sys_inv base (s\<lparr>sy_parent := p', sy_threads := (sy_threads s)(cid := ?t\<lparr>ct_lease := L_Retired (Tok_Frontend cid)\<rparr>)\<rparr>)"
    using sys_queue [OF inv c _ _ _ _ pending_distinct [OF inv], of "?t\<lparr>ct_lease := L_Retired (Tok_Frontend cid)\<rparr>" ?c] L(2,3) by auto
  then show ?thesis using op L_Held tok L(5) inv by (auto simp: act_def crystalhd_v4l2_owner_retired_def put_ctx_def set_thread_def)
next
  case (L_Retired tok)
  then obtain c where c: "pv_ctxs (sy_parent s) cid = Some c" using sys_live [OF inv, of cid] by auto
  note L = sys_liveD [OF inv c]
  let ?t = "sy_threads s cid" and ?p = "sy_parent s"
  define r where "r = (if unat (cx_ref c) = 1 then 0 else cx_ref c - 1)"
  let ?c = "c\<lparr>cx_ref := r, cx_core_reference_held := False\<rparr>"
  have tok: "tok = Tok_Frontend cid" and held: "cx_core_reference_held c" using L(1) L_Retired by (simp_all add: shape_ok_def almost_ok_def lease_ok_def)
  have b: "unat (cx_ref c) < 0x7FFFFFFF" using L(7) by simp
  note d = dec_ref [OF L(3) b, folded r_def]
  have two: "2 \<le> refs_of ?t c" using L(1) held by (cases "ct_front ?t") (auto simp: shape_ok_def almost_ok_def close_ok_def refs_of_def)
  have k: "kref_put cid ?p = Some (put_ctx cid (c\<lparr>cx_ref := r\<rparr>) ?p)" using two L(2) by (simp add: kref_put_def L(5) d(1) Let_def)
  have a: "almost_ok (cid \<in> set (pv_pending ?p)) (cid \<in> set (pv_work ?p)) cid (?t\<lparr>ct_lease := L_Idle\<rparr>) ?c"
    using L(1) L_Retired by (auto simp: shape_ok_def almost_ok_def lease_ok_def)
  have "refs_of (?t\<lparr>ct_lease := L_Idle\<rparr>) ?c + 1 = refs_of ?t c" using held by (simp add: refs_of_def)
  then have e: "unat (cx_ref ?c) = refs_of (?t\<lparr>ct_lease := L_Idle\<rparr>) ?c" "0 < refs_of (?t\<lparr>ct_lease := L_Idle\<rparr>) ?c"
    using d(2) L(2) two by simp_all
  obtain p' where "crystalhd_v4l2_queue_close_locked cid (?p\<lparr>pv_ctxs := (pv_ctxs ?p)(cid \<mapsto> ?c), pv_pending := pv_pending ?p\<rparr>) = Some p'"
    "sys_inv base (s\<lparr>sy_parent := p', sy_threads := (sy_threads s)(cid := ?t\<lparr>ct_lease := L_Idle\<rparr>)\<rparr>)"
    using sys_queue [OF inv c a e _ pending_distinct [OF inv]] by auto
  then show ?thesis using op L_Retired tok k L(6) inv by (auto simp: act_def crystalhd_v4l2_owner_put_def ctx_at_def put_ctx_def set_thread_def)
qed

lemma step_close:
  assumes inv: "sys_inv base s"
  shows "\<exists>b s'. ctx_step (Cx_Close cid) s = Some (b, s') \<and> sys_inv base s'"
proof (cases "ct_front (sy_threads s cid) \<noteq> F_Open \<or> ct_worker (sy_threads s cid) = W_Release")
  case True
  then show ?thesis using inv by auto
next
  case False
  then obtain c where c: "pv_ctxs (sy_parent s) cid = Some c" using sys_live [OF inv, of cid] by auto
  note L = sys_liveD [OF inv c]
  let ?t = "sy_threads s cid" and ?p = "sy_parent s"
  let ?c = "c\<lparr>cx_closing := True, cx_ref := refcount_inc (cx_ref c)\<rparr>" and ?t' = "?t\<lparr>ct_front := F_Closing\<rparr>"
  have n: "\<not> cx_closing c" "\<not> cx_cleanup_committed c" "cid \<notin> set (pv_pending ?p)" "\<not> cx_work_active c" "ct_worker ?t = W_Idle" "cid \<notin> set (pv_work ?p)"
    using L(1) False by (cases "ct_worker ?t"; auto simp: shape_defs)+
  have inc: "unat (refcount_inc (cx_ref c)) = unat (cx_ref c) + 1" using L(3,7) by (intro inc_ref) simp_all
  have a: "almost_ok (cid \<in> set (pv_pending ?p @ [cid])) (cid \<in> set (pv_work ?p)) cid ?t' ?c"
    using L(1) n by (simp add: shape_ok_def almost_ok_def close_ok_def work_ok_def)
  have e: "unat (cx_ref ?c) = refs_of ?t' ?c" "0 < refs_of ?t' ?c" using inc L(2) n False by (simp_all add: refs_of_def)
  have l: "\<forall>x. x \<noteq> cid \<longrightarrow> (x \<in> set (pv_pending ?p @ [cid]) \<longleftrightarrow> x \<in> set (pv_pending ?p))" "distinct (pv_pending ?p @ [cid])"
    using n(3) pending_distinct [OF inv] by auto
  obtain p' where p': "crystalhd_v4l2_queue_close_locked cid (?p\<lparr>pv_ctxs := (pv_ctxs ?p)(cid \<mapsto> ?c), pv_pending := pv_pending ?p @ [cid]\<rparr>) = Some p'"
    "sys_inv base (s\<lparr>sy_parent := p', sy_threads := (sy_threads s)(cid := ?t')\<rparr>)"
    using sys_queue [OF inv c a e l] by blast
  have "ctx_close_section cid ?p = Some (True, p')" using n(1) p'(1) by (simp add: ctx_close_section_def L(5) put_ctx_def)
  then show ?thesis using False p'(2) by (simp add: set_thread_def)
qed

lemma step_close_put:
  assumes inv: "sys_inv base s"
  shows "\<exists>b s'. ctx_step (Cx_Close_Put cid) s = Some (b, s') \<and> sys_inv base s' \<and>
    (ct_front (sy_threads s cid) = F_Closing \<longrightarrow> ct_front (sy_threads s' cid) = F_Done)"
proof (cases "ct_front (sy_threads s cid) = F_Closing")
  case False
  then show ?thesis using inv by (simp add: act_def)
next
  case True
  then obtain c where c: "pv_ctxs (sy_parent s) cid = Some c" using sys_live [OF inv, of cid] by auto
  note L = sys_liveD [OF inv c]
  let ?t = "sy_threads s cid" and ?t' = "(sy_threads s cid)\<lparr>ct_front := F_Done\<rparr>"
  have "shape_ok (cid \<in> set (pv_pending (sy_parent s))) (cid \<in> set (pv_work (sy_parent s))) cid ?t' c"
    using L(1) True by (simp add: shape_ok_def almost_ok_def close_ok_def)
  moreover have "refs_of ?t' c + 1 = unat (cx_ref c)" using L(2) True by (simp add: refs_of_def)
  ultimately obtain p' where "kref_put cid (sy_parent s) = Some p'" "sys_inv base (s\<lparr>sy_parent := p', sy_threads := (sy_threads s)(cid := ?t')\<rparr>)"
    using kref_put_step [OF inv c] by blast
  then show ?thesis using True by (simp add: act_def set_thread_def)
qed

lemma step_worker_put:
  assumes inv: "sys_inv base s"
  shows "\<exists>b s'. ctx_step (Cx_Worker_Put cid) s = Some (b, s') \<and> sys_inv base s'"
proof (cases "ct_worker (sy_threads s cid)")
  case (W_Put n)
  then obtain c where c: "pv_ctxs (sy_parent s) cid = Some c" using sys_live [OF inv, of cid] by auto
  note L = sys_liveD [OF inv c]
  let ?t = "sy_threads s cid" and ?t' = "(sy_threads s cid)\<lparr>ct_worker := (if n \<le> 1 then W_Idle else W_Put (n - 1))\<rparr>"
  have w: "work_ok (cid \<in> set (pv_work (sy_parent s))) ?t c" "0 < n" using L(1) W_Put by (auto simp: shape_ok_def almost_ok_def work_ok_def)
  then have "work_ok (cid \<in> set (pv_work (sy_parent s))) ?t' c" using W_Put by (auto simp: work_ok_def split: if_splits)
  then have "shape_ok (cid \<in> set (pv_pending (sy_parent s))) (cid \<in> set (pv_work (sy_parent s))) cid ?t' c"
    using L(1) by (simp add: shape_ok_def almost_ok_def)
  moreover have "refs_of ?t' c + 1 = unat (cx_ref c)" using L(2) W_Put w(2) by (auto simp: refs_of_def)
  ultimately obtain p' where "kref_put cid (sy_parent s) = Some p'" "sys_inv base (s\<lparr>sy_parent := p', sy_threads := (sy_threads s)(cid := ?t')\<rparr>)"
    using kref_put_step [OF inv c] by blast
  then show ?thesis using W_Put by (simp add: act_def set_thread_def)
qed (use inv in simp_all)

lemma step_start:
  assumes inv: "sys_inv base s" and op: "op = Cx_Start cid \<or> op = Cx_Again cid"
  shows "\<exists>b s'. ctx_step op s = Some (b, s') \<and> sys_inv base s'"
proof -
  let ?t = "sy_threads s cid" and ?p = "sy_parent s" and ?t' = "(sy_threads s cid)\<lparr>ct_worker := W_Release\<rparr>"
  define w where "w = filter (\<lambda>x. x \<noteq> cid) (pv_work ?p)"
  have run: "sys_inv base (s\<lparr>sy_parent := ?p\<lparr>pv_work := w, pv_ctxs := (pv_ctxs ?p)(cid \<mapsto> c\<lparr>cx_kick_pending := False\<rparr>)\<rparr>, sy_threads := (sy_threads s)(cid := ?t')\<rparr>)"
    if c: "pv_ctxs ?p cid = Some c" and g: "ct_worker ?t = W_Idle \<and> cid \<in> set (pv_work ?p) \<or> ct_worker ?t = W_Again" for c
  proof -
    note L = sys_liveD [OF inv c]
    have "work_ok False ?t' c" using L(1) g by (auto simp: shape_ok_def almost_ok_def work_ok_def)
    then have s: "shape_ok (cid \<in> set (pv_pending ?p)) (cid \<in> set w) cid ?t' (c\<lparr>cx_kick_pending := False\<rparr>)"
      using L(1) by (simp add: shape_ok_def almost_ok_def w_def)
    have r: "unat (cx_ref (c\<lparr>cx_kick_pending := False\<rparr>)) = refs_of ?t' (c\<lparr>cx_kick_pending := False\<rparr>)" "0 < refs_of ?t' (c\<lparr>cx_kick_pending := False\<rparr>)"
      using L(2,3) g by (auto simp: refs_of_def)
    have "sys_inv base (s\<lparr>sy_parent := ?p\<lparr>pv_ctxs := (pv_ctxs ?p)(cid \<mapsto> c\<lparr>cx_kick_pending := False\<rparr>), pv_pending := pv_pending ?p, pv_work := w\<rparr>, sy_threads := (sy_threads s)(cid := ?t')\<rparr>)"
      by (rule sys_local [OF inv c s r _ pending_distinct [OF inv]]) (auto simp: w_def)
    moreover have "?p\<lparr>pv_work := w, pv_ctxs := f\<rparr> = ?p\<lparr>pv_ctxs := f, pv_work := w\<rparr>" for f by simp
    ultimately show ?thesis by (simp only:) simp
  qed
  from op show ?thesis
  proof
    assume op: "op = Cx_Start cid"
    show ?thesis
    proof (cases "ct_worker ?t \<noteq> W_Idle \<or> cid \<notin> set (pv_work ?p) \<or> ct_front ?t = F_Acquiring")
      case False
      then obtain c where c: "pv_ctxs ?p cid = Some c" using sys_live [OF inv, of cid] by auto
      then show ?thesis using run [OF c] False sys_liveD(6) [OF inv c] op
        by (simp add: act_def close_worker_admit_def ctx_at_def put_ctx_def set_thread_def w_def)
    qed (use op inv in auto)
  next
    assume op: "op = Cx_Again cid"
    show ?thesis
    proof (cases "ct_worker ?t = W_Again \<and> ct_front ?t \<noteq> F_Acquiring")
      case True
      then obtain c where c: "pv_ctxs ?p cid = Some c" using sys_live [OF inv, of cid] by auto
      have "cid \<notin> set (pv_work ?p)" using sys_liveD(1) [OF inv c] True by (auto simp: shape_ok_def almost_ok_def work_ok_def)
      then have "w = pv_work ?p" by (auto simp: w_def filter_id_conv)
      then show ?thesis using run [OF c] True sys_liveD(5) [OF inv c] op
        by (simp add: act_def close_worker_admit_def put_ctx_def set_thread_def)
    qed (use op inv in \<open>auto simp: act_def\<close>)
  qed
qed

lemma step_release:
  assumes inv: "sys_inv base s"
  shows "\<exists>b s'. ctx_step (Cx_Release cid) s = Some (b, s') \<and> sys_inv base s'"
proof (cases "ct_worker (sy_threads s cid) = W_Release")
  case True
  then obtain c where c: "pv_ctxs (sy_parent s) cid = Some c" using sys_live [OF inv, of cid] by auto
  have "sys_inv base (s\<lparr>sy_threads := (sy_threads s)(cid := (sy_threads s cid)\<lparr>ct_worker := W_Settle\<rparr>)\<rparr>)"
    using sys_liveD(1) [OF inv c] True
    by (intro sys_threads [OF inv c]) (auto simp: shape_ok_def almost_ok_def work_ok_def refs_of_def)
  then show ?thesis using True by (simp add: act_def set_thread_def)
qed (use inv in \<open>simp add: act_def\<close>)

lemma step_settle:
  assumes inv: "sys_inv base s"
  shows "\<exists>b s'. ctx_step (Cx_Settle cid) s = Some (b, s') \<and> sys_inv base s'"
proof (cases "ct_worker (sy_threads s cid) = W_Settle")
  case True
  then obtain c where c: "pv_ctxs (sy_parent s) cid = Some c" using sys_live [OF inv, of cid] by auto
  note L = sys_liveD [OF inv c]
  let ?t = "sy_threads s cid" and ?p = "sy_parent s"
  have A: "cx_work_active c" "cx_closing c" "\<not> cx_cleanup_committed c" "cid \<notin> set (pv_work ?p)" "lease_ok cid ?t c"
    "close_ok (cid \<in> set (pv_pending ?p)) ?t c"
    using L(1) True by (auto simp: shape_ok_def almost_ok_def work_ok_def)
  note pd = pending_distinct [OF inv]
  consider (commit) "crystalhd_v4l2_ctx_retired c" | (again) "\<not> crystalhd_v4l2_ctx_retired c" "cx_kick_pending c"
    | (leave) "\<not> crystalhd_v4l2_ctx_retired c" "\<not> cx_kick_pending c" by blast
  then show ?thesis
  proof cases
    case commit
    let ?c = "c\<lparr>cx_cleanup_committed := True, cx_work_active := False, cx_kick_pending := False\<rparr>" and ?t' = "?t\<lparr>ct_worker := W_Put 2\<rparr>"
    define l where "l = filter (\<lambda>x. x \<noteq> cid) (pv_pending ?p)"
    have s: "shape_ok (cid \<in> set l) (cid \<in> set (pv_work ?p)) cid ?t' ?c"
      using A commit by (simp add: shape_ok_def almost_ok_def close_ok_def work_ok_def l_def crystalhd_v4l2_ctx_retired_def)
    have r: "unat (cx_ref ?c) = refs_of ?t' ?c" "0 < refs_of ?t' ?c" using L(2) A True by (simp_all add: refs_of_def)
    have "sys_inv base (s\<lparr>sy_parent := ?p\<lparr>pv_ctxs := (pv_ctxs ?p)(cid \<mapsto> ?c), pv_pending := l, pv_work := pv_work ?p\<rparr>, sy_threads := (sy_threads s)(cid := ?t')\<rparr>)"
      by (rule sys_local [OF inv c s r]) (use pd in \<open>auto simp: l_def\<close>)
    then show ?thesis using True commit by (simp add: close_worker_settle_def L(5) put_ctx_def set_thread_def l_def)
  next
    case again
    have "sys_inv base (s\<lparr>sy_threads := (sy_threads s)(cid := ?t\<lparr>ct_worker := W_Again\<rparr>)\<rparr>)"
      using L(1) True by (intro sys_threads [OF inv c]) (auto simp: shape_ok_def almost_ok_def work_ok_def refs_of_def)
    then show ?thesis using True again by (simp add: close_worker_settle_def L(5) set_thread_def)
  next
    case leave
    let ?c = "c\<lparr>cx_work_active := False\<rparr>" and ?t' = "?t\<lparr>ct_worker := W_Put 1\<rparr>"
    have s: "shape_ok (cid \<in> set (pv_pending ?p)) (cid \<in> set (pv_work ?p)) cid ?t' ?c"
      using A leave L(1) by (simp add: shape_ok_def almost_ok_def work_ok_def)
    have r: "unat (cx_ref ?c) = refs_of ?t' ?c" "0 < refs_of ?t' ?c" using L(2) A True by (simp_all add: refs_of_def)
    show ?thesis using sys_same_lists [OF inv c s r] True leave by (simp add: close_worker_settle_def L(5) set_thread_def)
  qed
qed (use inv in simp)

lemma queue_live:
  assumes inv: "sys_inv base s" and pend: "cid \<in> set (pv_pending (sy_parent s))"
  obtains p' where "crystalhd_v4l2_queue_close_locked cid (sy_parent s) = Some p'" "sys_inv base (s\<lparr>sy_parent := p'\<rparr>)"
    "pv_pending p' = pv_pending (sy_parent s)"
proof -
  obtain c where c: "pv_ctxs (sy_parent s) cid = Some c" using sys_live [OF inv, of cid] pend by auto
  note L = sys_liveD [OF inv c]
  have a: "almost_ok (cid \<in> set (pv_pending (sy_parent s))) (cid \<in> set (pv_work (sy_parent s))) cid (sy_threads s cid) c"
    using L(1) by (simp add: shape_ok_def)
  have same: "(sy_parent s)\<lparr>pv_ctxs := (pv_ctxs (sy_parent s))(cid \<mapsto> c), pv_pending := pv_pending (sy_parent s)\<rparr> = sy_parent s"
    using c by (simp add: map_upd_triv)
  obtain p' where p': "crystalhd_v4l2_queue_close_locked cid (sy_parent s) = Some p'"
    "sys_inv base (s\<lparr>sy_parent := p', sy_threads := (sy_threads s)(cid := sy_threads s cid)\<rparr>)"
    using sys_queue [OF inv c a L(2) _ _ pending_distinct [OF inv]] L(2,3) unfolding same by auto
  have w: "cid \<in> set (pv_work (sy_parent s)) \<Longrightarrow> cx_work_active c" using a by (simp add: almost_ok_def work_ok_def)
  have "pv_pending p' = pv_pending (sy_parent s)" using queue_eq [OF L(5) w] p'(1) by auto
  then show ?thesis using that p' by simp
qed

lemma queue_all_inv:
  assumes "sys_inv base s" "set ids \<subseteq> set (pv_pending (sy_parent s))"
  shows "\<exists>p'. queue_all ids (sy_parent s) = Some p' \<and> sys_inv base (s\<lparr>sy_parent := p'\<rparr>)"
  using assms
proof (induction ids arbitrary: s)
  case (Cons i ids)
  then have "i \<in> set (pv_pending (sy_parent s))" by simp
  from queue_live [OF Cons.prems(1) this] obtain p1 where p1: "crystalhd_v4l2_queue_close_locked i (sy_parent s) = Some p1"
    "sys_inv base (s\<lparr>sy_parent := p1\<rparr>)" "pv_pending p1 = pv_pending (sy_parent s)" .
  have "set ids \<subseteq> set (pv_pending (sy_parent (s\<lparr>sy_parent := p1\<rparr>)))" using p1(3) Cons.prems(2) by simp
  from Cons.IH [OF p1(2) this] show ?case using p1(1) by simp
qed simp

lemma slot_frame: "slot_ok (s\<lparr>sy_parent := (sy_parent s)\<lparr>pv_device_refs := r, pv_alive := b\<rparr>, sy_registered := g, sy_others := n\<rparr>) cid = slot_ok s cid"
  by (cases "pv_ctxs (sy_parent s) cid") (simp_all add: slot_ok_def Let_def)

lemma sys_device_step:
  assumes inv: "sys_inv base s" and r: "unat r = of_bool g + n + card (dom (pv_ctxs (sy_parent s)))" and n: "n \<le> CTX_MAX"
  shows "sys_inv base (s\<lparr>sy_parent := (sy_parent s)\<lparr>pv_device_refs := r, pv_alive := (r \<noteq> 0)\<rparr>, sy_registered := g, sy_others := n\<rparr>)"
  using inv r n by (simp add: sys_inv_def slot_frame Let_def)

lemma device_put_step:
  assumes inv: "sys_inv base s" and r: "of_bool g + n + card (dom (pv_ctxs (sy_parent s))) + 1 = unat (pv_device_refs (sy_parent s))" and n: "n \<le> CTX_MAX"
  shows "sys_inv base (s\<lparr>sy_parent := v4l2_device_put (sy_parent s), sy_registered := g, sy_others := n\<rparr>)"
proof -
  have pos: "0 < unat (pv_device_refs (sy_parent s))" using r by simp
  obtain x where x: "v4l2_device_put (sy_parent s) = (sy_parent s)\<lparr>pv_device_refs := x, pv_alive := pv_alive (sy_parent s) \<and> x \<noteq> 0\<rparr>"
    "unat x = unat (pv_device_refs (sy_parent s)) - 1" using device_put [OF pos sys_device [OF inv]] by blast
  have "pv_alive (sy_parent s)" using inv pos by (auto simp: sys_inv_def Let_def)
  then have e: "v4l2_device_put (sy_parent s) = (sy_parent s)\<lparr>pv_device_refs := x, pv_alive := (x \<noteq> 0)\<rparr>" using x(1) by simp
  show ?thesis unfolding e by (rule sys_device_step [OF inv _ n]) (use x(2) r in simp)
qed

lemma step_parent:
  assumes inv: "sys_inv base s" and op: "op = Cx_Resume \<or> op = Cx_Unregister \<or> op = Cx_Parent_Get \<or> op = Cx_Parent_Put"
  shows "\<exists>b s'. ctx_step op s = Some (b, s') \<and> sys_inv base s'"
proof -
  let ?p = "sy_parent s"
  have dv: "unat (pv_device_refs ?p) = of_bool (sy_registered s) + sy_others s + card (dom (pv_ctxs ?p))" "sy_others s \<le> CTX_MAX"
    "pv_alive ?p = (pv_device_refs ?p \<noteq> 0)" using inv by (simp_all add: sys_inv_def Let_def)
  have al: "pv_alive ?p" if "sy_registered s \<or> 0 < sy_others s" using dv that by (auto simp: unat_eq_0)
  from op show ?thesis
  proof (elim disjE)
    assume op: "op = Cx_Resume"
    show ?thesis
    proof (cases "sy_registered s")
      case True
      then show ?thesis using queue_all_inv [OF inv order.refl] al op by (auto simp: act_def crystalhd_v4l2_resume_ready_def)
    qed (use op inv in \<open>simp add: act_def\<close>)
  next
    assume op: "op = Cx_Unregister"
    show ?thesis
    proof (cases "sy_registered s")
      case True
      let ?s = "s\<lparr>sy_parent := ?p\<lparr>pv_disconnected := True\<rparr>\<rparr>"
      have slots: "slot_ok ?s x = slot_ok s x" for x by (cases "pv_ctxs ?p x") (simp_all add: slot_ok_def Let_def)
      have i1: "sys_inv base ?s" using inv by (simp add: sys_inv_def slots Let_def)
      obtain p1 where p1: "queue_all (pv_pending ?p) (?p\<lparr>pv_disconnected := True\<rparr>) = Some p1" "sys_inv base (s\<lparr>sy_parent := p1\<rparr>)"
        using queue_all_inv [OF i1, of "pv_pending ?p"] by auto
      have "sys_inv base (s\<lparr>sy_parent := p1, sy_parent := v4l2_device_put (sy_parent (s\<lparr>sy_parent := p1\<rparr>)), sy_registered := False, sy_others := sy_others s\<rparr>)"
        by (rule device_put_step [OF p1(2)]) (use p1(2) True in \<open>simp_all add: sys_inv_def Let_def\<close>)
      then show ?thesis using True al p1(1) op by (simp add: act_def crystalhd_v4l2_unregister_def)
    qed (use op inv in \<open>simp add: act_def\<close>)
  next
    assume op: "op = Cx_Parent_Get"
    show ?thesis
    proof (cases "(sy_registered s \<or> 0 < sy_others s) \<and> sy_others s < CTX_MAX")
      case True
      then have pos: "0 < unat (pv_device_refs ?p)" using dv(1) by auto
      let ?r = "refcount_inc (pv_device_refs ?p)"
      have r: "unat ?r = unat (pv_device_refs ?p) + 1" by (rule inc_ref [OF pos sys_device [OF inv]])
      then have z: "?r \<noteq> 0" by (auto simp: unat_eq_0 [symmetric])
      have "unat ?r = of_bool (sy_registered s) + (sy_others s + 1) + card (dom (pv_ctxs ?p))" "sy_others s + 1 \<le> CTX_MAX" using r dv(1) True by simp_all
      from sys_device_step [OF inv this] have "sys_inv base (s\<lparr>sy_parent := ?p\<lparr>pv_device_refs := ?r, pv_alive := True\<rparr>, sy_registered := sy_registered s, sy_others := sy_others s + 1\<rparr>)"
        using z by simp
      moreover have "?p\<lparr>pv_device_refs := ?r, pv_alive := True\<rparr> = ?p\<lparr>pv_device_refs := ?r\<rparr>" using al True by simp
      ultimately show ?thesis using True op by (simp add: act_def crystalhd_v4l2_parent_get_def)
    qed (use op inv in \<open>auto simp: act_def\<close>)
  next
    assume op: "op = Cx_Parent_Put"
    show ?thesis
    proof (cases "0 < sy_others s")
      case True
      have "sys_inv base (s\<lparr>sy_parent := v4l2_device_put ?p, sy_registered := sy_registered s, sy_others := sy_others s - 1\<rparr>)"
        by (rule device_put_step [OF inv]) (use dv True in simp_all)
      then show ?thesis using True op by (simp add: act_def crystalhd_v4l2_parent_put_def)
    qed (use op inv in \<open>simp add: act_def\<close>)
  qed
qed

lemma ctx_step_inv:
  assumes inv: "sys_inv base s" and ok: "ctx_op_ok op"
  shows "\<exists>b s'. ctx_step op s = Some (b, s') \<and> sys_inv base s'"
proof (cases op)
  case (Cx_Create m mem cid)
  show ?thesis
  proof (cases "ct_front (sy_threads s cid) \<noteq> F_None \<or> \<not> (sy_registered s \<or> 0 < sy_others s)")
    case False
    then show ?thesis using step_create [OF inv, of cid m mem] ok unfolding Cx_Create by simp
  qed (use inv Cx_Create in auto)
next
  case (Cx_Bind cid)
  then show ?thesis using step_front [OF inv] by blast
next
  case (Cx_Acquire cid)
  then show ?thesis using step_front [OF inv] by blast
next
  case (Cx_Refused cid)
  then show ?thesis using step_front [OF inv] by blast
next
  case (Cx_Get cid)
  then show ?thesis using step_front [OF inv] by blast
next
  case (Cx_Retired cid)
  then show ?thesis using step_core [OF inv] by blast
next
  case (Cx_Core_Put cid)
  then show ?thesis using step_core [OF inv] by blast
next
  case (Cx_Close cid)
  then show ?thesis using step_close [OF inv] by blast
next
  case (Cx_Close_Put cid)
  then show ?thesis using step_close_put [OF inv] by blast
next
  case (Cx_Start cid)
  then show ?thesis using step_start [OF inv] by blast
next
  case (Cx_Again cid)
  then show ?thesis using step_start [OF inv] by blast
next
  case (Cx_Release cid)
  then show ?thesis using step_release [OF inv] by blast
next
  case (Cx_Settle cid)
  then show ?thesis using step_settle [OF inv] by blast
next
  case (Cx_Worker_Put cid)
  then show ?thesis using step_worker_put [OF inv] by blast
qed (use step_parent [OF inv] in blast)+

interpretation contexts: call_history ctx_step ctx_op_ok "sys_inv base" for base
  using ctx_step_inv by unfold_locales blast

section \<open>Closing comes to an end\<close>

text \<open>
  The stages of a closing context that the core has let go: before the worker commits, by what the worker
  has still to do, and after it, by the puts it still owes; the context may then be gone already.
\<close>

definition unneeded :: "int \<Rightarrow> nat \<Rightarrow> worker_pc set \<Rightarrow> ctx_sys \<Rightarrow> bool" where
  "unneeded base cid pcs s \<longleftrightarrow> sys_inv base s \<and> ct_worker (sy_threads s cid) \<in> pcs \<and>
    (\<exists>c. pv_ctxs (sy_parent s) cid = Some c \<and> cx_closing c \<and> \<not> cx_cleanup_committed c \<and> crystalhd_v4l2_ctx_retired c)"

fun owed :: "worker_pc \<Rightarrow> nat" where
  "owed (W_Put n) = n" | "owed _ = 0"

definition settled_within :: "int \<Rightarrow> nat \<Rightarrow> nat \<Rightarrow> ctx_sys \<Rightarrow> bool" where
  "settled_within base cid n s \<longleftrightarrow> sys_inv base s \<and> owed (ct_worker (sy_threads s cid)) \<le> n \<and>
    (case pv_ctxs (sy_parent s) cid of None \<Rightarrow> ct_front (sy_threads s cid) = F_Done | Some c \<Rightarrow> cx_cleanup_committed c)"

lemma settled_pc:
  assumes "settled_within base cid n s"
  shows "ct_worker (sy_threads s cid) = W_Idle \<or> (\<exists>k. ct_worker (sy_threads s cid) = W_Put k)" "cid \<notin> set (pv_work (sy_parent s))"
    "ct_front (sy_threads s cid) = F_Closing \<or> ct_front (sy_threads s cid) = F_Done"
proof -
  have inv: "sys_inv base s" using assms by (simp add: settled_within_def)
  have "slot_ok s cid" using inv by (simp add: sys_inv_def Let_def)
  then have "(ct_worker (sy_threads s cid) = W_Idle \<or> (\<exists>k. ct_worker (sy_threads s cid) = W_Put k)) \<and> cid \<notin> set (pv_work (sy_parent s)) \<and>
    (ct_front (sy_threads s cid) = F_Closing \<or> ct_front (sy_threads s cid) = F_Done)"
    using assms by (cases "pv_ctxs (sy_parent s) cid"; cases "ct_worker (sy_threads s cid)")
      (auto simp: slot_ok_def settled_within_def dead_ok_def shape_defs Let_def)
  then show "ct_worker (sy_threads s cid) = W_Idle \<or> (\<exists>k. ct_worker (sy_threads s cid) = W_Put k)" "cid \<notin> set (pv_work (sy_parent s))"
    "ct_front (sy_threads s cid) = F_Closing \<or> ct_front (sy_threads s cid) = F_Done" by auto
qed

lemma settled_stays:
  assumes "settled_within base cid n s" "op \<in> {Cx_Start cid, Cx_Again cid, Cx_Release cid, Cx_Settle cid}"
  shows "ctx_step op s = Some (False, s)"
  using settled_pc [OF assms(1)] assms(2) by (auto simp: act_def)

lemma settled_put:
  assumes b: "settled_within base cid n s"
  shows "\<exists>r s'. ctx_step (Cx_Worker_Put cid) s = Some (r, s') \<and> settled_within base cid (n - 1) s'"
proof (cases "ct_worker (sy_threads s cid)")
  case (W_Put k)
  have inv: "sys_inv base s" using b by (simp add: settled_within_def)
  obtain c where c: "pv_ctxs (sy_parent s) cid = Some c" using sys_live [OF inv, of cid] W_Put by auto
  note L = sys_liveD [OF inv c]
  let ?t' = "(sy_threads s cid)\<lparr>ct_worker := (if k \<le> 1 then W_Idle else W_Put (k - 1))\<rparr>"
  have w: "work_ok (cid \<in> set (pv_work (sy_parent s))) (sy_threads s cid) c" "0 < k" "cx_cleanup_committed c" "k \<le> n"
    using L(1) W_Put b c by (auto simp: shape_ok_def almost_ok_def work_ok_def settled_within_def)
  then have "work_ok (cid \<in> set (pv_work (sy_parent s))) ?t' c" using W_Put by (auto simp: work_ok_def split: if_splits)
  then have sh: "shape_ok (cid \<in> set (pv_pending (sy_parent s))) (cid \<in> set (pv_work (sy_parent s))) cid ?t' c"
    using L(1) by (simp add: shape_ok_def almost_ok_def)
  have "refs_of ?t' c + 1 = unat (cx_ref c)" using L(2) W_Put w(2) by (auto simp: refs_of_def)
  from kref_put_step [OF inv c sh this] obtain p' where p': "kref_put cid (sy_parent s) = Some p'"
    "sys_inv base (s\<lparr>sy_parent := p', sy_threads := (sy_threads s)(cid := ?t')\<rparr>)"
    "if refs_of ?t' c = 0 then pv_ctxs p' cid = None else \<exists>r. p' = put_ctx cid (c\<lparr>cx_ref := r\<rparr>) (sy_parent s)" by blast
  have fr: "ct_front (sy_threads s cid) = F_Done" if "refs_of ?t' c = 0"
    using that settled_pc(3) [OF b] by (auto simp: refs_of_def)
  have "settled_within base cid (n - 1) (s\<lparr>sy_parent := p', sy_threads := (sy_threads s)(cid := ?t')\<rparr>)"
    using p'(2,3) w(3,4) fr by (auto simp: settled_within_def put_ctx_def split: if_splits)
  then show ?thesis using p'(1) W_Put by (simp add: act_def set_thread_def)
qed (use b in \<open>simp_all add: settled_within_def\<close>)

lemma settled_close:
  assumes b: "settled_within base cid 0 s"
  shows "\<exists>r s'. ctx_step (Cx_Close_Put cid) s = Some (r, s') \<and> sys_inv base s' \<and> pv_ctxs (sy_parent s') cid = None"
proof (cases "pv_ctxs (sy_parent s) cid")
  case None
  then show ?thesis using b by (simp add: settled_within_def act_def)
next
  case (Some c)
  have inv: "sys_inv base s" using b by (simp add: settled_within_def)
  note L = sys_liveD [OF inv Some]
  let ?t' = "(sy_threads s cid)\<lparr>ct_front := F_Done\<rparr>"
  have w: "ct_worker (sy_threads s cid) = W_Idle" "cx_cleanup_committed c" "\<not> cx_core_reference_held c" "\<not> cx_work_active c" "cx_closing c"
    using L(1) b Some settled_pc(1) [OF b] by (auto simp: shape_defs settled_within_def)
  then have f: "ct_front (sy_threads s cid) = F_Closing" using L(2,3) settled_pc(3) [OF b] by (auto simp: refs_of_def)
  have sh: "shape_ok (cid \<in> set (pv_pending (sy_parent s))) (cid \<in> set (pv_work (sy_parent s))) cid ?t' c"
    using L(1) f by (simp add: shape_ok_def almost_ok_def close_ok_def)
  have z: "refs_of ?t' c = 0" "refs_of ?t' c + 1 = unat (cx_ref c)" using L(2) f w by (simp_all add: refs_of_def)
  from kref_put_step [OF inv Some sh z(2)] z(1) show ?thesis using f by (auto simp: act_def set_thread_def)
qed

lemma unneeded_put:
  assumes u: "unneeded base cid UNIV s"
  shows "\<exists>r s'. ctx_step (Cx_Worker_Put cid) s = Some (r, s') \<and> unneeded base cid {W_Idle, W_Release, W_Settle, W_Again} s'"
proof (cases "ct_worker (sy_threads s cid)")
  case (W_Put k)
  have inv: "sys_inv base s" using u by (simp add: unneeded_def)
  obtain c where c: "pv_ctxs (sy_parent s) cid = Some c" "cx_closing c" "\<not> cx_cleanup_committed c" "crystalhd_v4l2_ctx_retired c"
    using u by (auto simp: unneeded_def)
  note L = sys_liveD [OF inv c(1)]
  let ?t' = "(sy_threads s cid)\<lparr>ct_worker := W_Idle\<rparr>"
  have w: "work_ok (cid \<in> set (pv_work (sy_parent s))) (sy_threads s cid) c" "k = 1" "cx_work_active c"
    using L(1) W_Put c by (auto simp: shape_ok_def almost_ok_def work_ok_def)
  then have "work_ok (cid \<in> set (pv_work (sy_parent s))) ?t' c" using W_Put by (auto simp: work_ok_def)
  then have sh: "shape_ok (cid \<in> set (pv_pending (sy_parent s))) (cid \<in> set (pv_work (sy_parent s))) cid ?t' c"
    using L(1) by (simp add: shape_ok_def almost_ok_def)
  have r: "refs_of ?t' c + 1 = unat (cx_ref c)" "refs_of ?t' c \<noteq> 0" using L(2) W_Put w c by (auto simp: refs_of_def)
  from kref_put_step [OF inv c(1) sh r(1)] r(2) obtain p' x where p': "kref_put cid (sy_parent s) = Some p'"
    "sys_inv base (s\<lparr>sy_parent := p', sy_threads := (sy_threads s)(cid := ?t')\<rparr>)" "p' = put_ctx cid (c\<lparr>cx_ref := x\<rparr>) (sy_parent s)" by auto
  have "unneeded base cid {W_Idle, W_Release, W_Settle, W_Again} (s\<lparr>sy_parent := p', sy_threads := (sy_threads s)(cid := ?t')\<rparr>)"
    using p'(2) c unfolding p'(3) by (simp add: unneeded_def put_ctx_def)
  then show ?thesis using p'(1) W_Put w(2) by (simp add: act_def set_thread_def)
qed (use u in \<open>simp_all add: unneeded_def\<close>)

lemma unneeded_start:
  assumes u: "unneeded base cid {W_Idle, W_Release, W_Settle, W_Again} s"
  shows "\<exists>r s'. ctx_step (Cx_Start cid) s = Some (r, s') \<and> unneeded base cid {W_Release, W_Settle, W_Again} s'"
proof (cases "ct_worker (sy_threads s cid) = W_Idle")
  case False
  then show ?thesis using u by (auto simp: unneeded_def)
next
  case True
  have inv: "sys_inv base s" using u by (simp add: unneeded_def)
  obtain c where c: "pv_ctxs (sy_parent s) cid = Some c" "cx_closing c" "\<not> cx_cleanup_committed c" "crystalhd_v4l2_ctx_retired c"
    using u by (auto simp: unneeded_def)
  note L = sys_liveD [OF inv c(1)]
  have g: "cid \<in> set (pv_work (sy_parent s))" "ct_front (sy_threads s cid) \<noteq> F_Acquiring" using L(1) c True by (auto simp: shape_defs)
  from step_start [OF inv, of "Cx_Start cid" cid] obtain b s' where s': "ctx_step (Cx_Start cid) s = Some (b, s')" "sys_inv base s'" by blast
  have "sy_threads s' cid = (sy_threads s cid)\<lparr>ct_worker := W_Release\<rparr> \<and> pv_ctxs (sy_parent s') cid = Some (c\<lparr>cx_kick_pending := False\<rparr>)"
    using s'(1) True g c(1) L(6) by (auto simp: act_def close_worker_admit_def ctx_at_def put_ctx_def set_thread_def)
  then show ?thesis using s' c by (auto simp: unneeded_def)
qed

lemma unneeded_again:
  assumes u: "unneeded base cid {W_Release, W_Settle, W_Again} s"
  shows "\<exists>r s'. ctx_step (Cx_Again cid) s = Some (r, s') \<and> unneeded base cid {W_Release, W_Settle} s'"
proof (cases "ct_worker (sy_threads s cid) = W_Again")
  case False
  then show ?thesis using u by (auto simp: unneeded_def act_def)
next
  case True
  have inv: "sys_inv base s" using u by (simp add: unneeded_def)
  obtain c where c: "pv_ctxs (sy_parent s) cid = Some c" "cx_closing c" "\<not> cx_cleanup_committed c" "crystalhd_v4l2_ctx_retired c"
    using u by (auto simp: unneeded_def)
  note L = sys_liveD [OF inv c(1)]
  have g: "ct_front (sy_threads s cid) \<noteq> F_Acquiring" using L(1) c by (auto simp: shape_defs)
  from step_start [OF inv, of "Cx_Again cid" cid] obtain b s' where s': "ctx_step (Cx_Again cid) s = Some (b, s')" "sys_inv base s'" by blast
  have "sy_threads s' cid = (sy_threads s cid)\<lparr>ct_worker := W_Release\<rparr> \<and> pv_ctxs (sy_parent s') cid = Some (c\<lparr>cx_kick_pending := False\<rparr>)"
    using s'(1) True g L(5) by (auto simp: act_def close_worker_admit_def put_ctx_def set_thread_def)
  then show ?thesis using s' c by (auto simp: unneeded_def)
qed

lemma unneeded_release:
  assumes u: "unneeded base cid {W_Release, W_Settle} s"
  shows "\<exists>r s'. ctx_step (Cx_Release cid) s = Some (r, s') \<and> unneeded base cid {W_Settle} s'"
proof -
  have inv: "sys_inv base s" using u by (simp add: unneeded_def)
  obtain b s' where s': "ctx_step (Cx_Release cid) s = Some (b, s')" "sys_inv base s'" using step_release [OF inv] by blast
  then show ?thesis using u by (auto simp: unneeded_def act_def set_thread_def split: if_splits)
qed

lemma unneeded_settle:
  assumes u: "unneeded base cid {W_Settle} s"
  shows "\<exists>r s'. ctx_step (Cx_Settle cid) s = Some (r, s') \<and> settled_within base cid 2 s'"
proof -
  have inv: "sys_inv base s" using u by (simp add: unneeded_def)
  obtain c where c: "pv_ctxs (sy_parent s) cid = Some c" "crystalhd_v4l2_ctx_retired c" using u by (auto simp: unneeded_def)
  obtain b s' where s': "ctx_step (Cx_Settle cid) s = Some (b, s')" "sys_inv base s'" using step_settle [OF inv] by blast
  then show ?thesis using u c sys_liveD(5) [OF inv c(1)]
    by (auto simp: unneeded_def settled_within_def close_worker_settle_def put_ctx_def set_thread_def)
qed

text \<open>A round of the worker with the puts it may owe before and after, and the frontend's last put.\<close>

definition close_schedule :: "nat \<Rightarrow> ctx_op list" where
  "close_schedule cid = [Cx_Worker_Put cid, Cx_Worker_Put cid, Cx_Start cid, Cx_Again cid, Cx_Release cid, Cx_Settle cid,
     Cx_Worker_Put cid, Cx_Worker_Put cid, Cx_Close_Put cid]"

lemma run_step: "step op s = Some (r, s1) \<Longrightarrow> \<exists>rs s2. run_ops step ops s1 = Some (rs, s2) \<and> P s2 \<Longrightarrow> \<exists>rs s2. run_ops step (op # ops) s = Some (rs, s2) \<and> P s2"
  by auto

lemma settled_mono: "settled_within base cid n s \<Longrightarrow> n \<le> m \<Longrightarrow> settled_within base cid m s"
  by (auto simp: settled_within_def)

lemma schedule_run:
  assumes "unneeded base cid UNIV s \<or> settled_within base cid 2 s"
  shows "\<exists>rs s'. run_ops ctx_step (close_schedule cid) s = Some (rs, s') \<and> pv_ctxs (sy_parent s') cid = None"
proof -
  let ?pcs = "{W_Idle, W_Release, W_Settle, W_Again}"
  obtain r1 s1 where s1: "ctx_step (Cx_Worker_Put cid) s = Some (r1, s1)" "unneeded base cid ?pcs s1 \<or> settled_within base cid 1 s1"
    using assms unneeded_put [of base cid s] settled_put [of base cid 2 s] by auto
  then have "unneeded base cid UNIV s1 \<or> settled_within base cid 1 s1" by (auto simp: unneeded_def)
  then obtain r2 s2 where s2: "ctx_step (Cx_Worker_Put cid) s1 = Some (r2, s2)" "unneeded base cid ?pcs s2 \<or> settled_within base cid 0 s2"
    using unneeded_put [of base cid s1] settled_put [of base cid 1 s1] by auto
  obtain r3 s3 where s3: "ctx_step (Cx_Start cid) s2 = Some (r3, s3)" "unneeded base cid {W_Release, W_Settle, W_Again} s3 \<or> settled_within base cid 0 s3"
    using s2(2) unneeded_start settled_stays by blast
  obtain r4 s4 where s4: "ctx_step (Cx_Again cid) s3 = Some (r4, s4)" "unneeded base cid {W_Release, W_Settle} s4 \<or> settled_within base cid 0 s4"
    using s3(2) unneeded_again settled_stays by blast
  obtain r5 s5 where s5: "ctx_step (Cx_Release cid) s4 = Some (r5, s5)" "unneeded base cid {W_Settle} s5 \<or> settled_within base cid 0 s5"
    using s4(2) unneeded_release settled_stays by blast
  obtain r6 s6 where s6: "ctx_step (Cx_Settle cid) s5 = Some (r6, s6)" "settled_within base cid 2 s6"
    using s5(2) unneeded_settle settled_stays settled_mono [of base cid 0 _ 2] by blast
  obtain r7 s7 where s7: "ctx_step (Cx_Worker_Put cid) s6 = Some (r7, s7)" "settled_within base cid 1 s7"
    using settled_put [OF s6(2)] by auto
  obtain r8 s8 where s8: "ctx_step (Cx_Worker_Put cid) s7 = Some (r8, s8)" "settled_within base cid 0 s8"
    using settled_put [OF s7(2)] by auto
  obtain r9 s9 where s9: "ctx_step (Cx_Close_Put cid) s8 = Some (r9, s9)" "pv_ctxs (sy_parent s9) cid = None"
    using settled_close [OF s8(2)] by blast
  show ?thesis unfolding close_schedule_def
    by (rule run_step [where step = ctx_step, OF s1(1)], rule run_step [where step = ctx_step, OF s2(1)], rule run_step [where step = ctx_step, OF s3(1)],
        rule run_step [where step = ctx_step, OF s4(1)], rule run_step [where step = ctx_step, OF s5(1)], rule run_step [where step = ctx_step, OF s6(1)],
        rule run_step [where step = ctx_step, OF s7(1)], rule run_step [where step = ctx_step, OF s8(1)], rule run_step [where step = ctx_step, OF s9(1)])
      (simp add: s9(2))
qed

definition start_sys :: "u64 \<Rightarrow> int \<Rightarrow> ctx_sys" where
  "start_sys generation modules = \<lparr>sy_parent = parent_new generation modules,
     sy_threads = (\<lambda>_. \<lparr>ct_front = F_None, ct_worker = W_Idle, ct_lease = L_Idle\<rparr>), sy_registered = True, sy_others = 0\<rparr>"

lemma ctx_start_inv: "sys_inv base (start_sys g base)"
  by (simp add: sys_inv_def start_sys_def parent_new_def slot_ok_def dead_ok_def Let_def)

lemma start_registered: "generation \<noteq> 0 \<Longrightarrow> crystalhd_v4l2_register True False True rc_ok rc_ok generation base = (rc_ok, True, Some (sy_parent (start_sys generation base)))"
  by (simp add: crystalhd_v4l2_register_def start_sys_def Let_def)

lemma register_failure_frees: "crystalhd_v4l2_register a h k d n generation base = (rc, b, m) \<Longrightarrow> rc \<noteq> rc_ok \<Longrightarrow> m = None"
  by (auto simp: crystalhd_v4l2_register_def parent_new_def v4l2_device_put_def crystalhd_v4l2_release_def refcount_dec_and_test_def Let_def split: if_splits)

section \<open>Properties\<close>

text \<open>
  C9: Lifetime of contexts. Take any interleaving of frontends creating, acquiring and closing contexts, the
  session core's callbacks in the order of its leases, the close workers, power management and the removal
  of the device. No step touches a freed context or a freed parent. A context's count is the number of its
  holders: frontend, core, registry, scheduled worker, owed puts; it is destroyed at most once, only with
  its frontend done, its lease back and its worker finished, and no warning fires. The parent lives exactly
  while the adapter, the node or a context holds it, and the module count is balanced.
\<close>

theorem context_lifetime:
  assumes "\<forall>op\<in>set ops. ctx_op_ok op"
  shows "\<exists>rs s. run_ops ctx_step ops (start_sys g base) = Some (rs, s) \<and> length rs = length ops \<and>
    (\<forall>cid c. pv_ctxs (sy_parent s) cid = Some c \<longrightarrow> unat (cx_ref c) = refs_of (sy_threads s cid) c \<and> 0 < refs_of (sy_threads s cid) c \<and> pv_alive (sy_parent s)) \<and>
    distinct (pv_destroyed (sy_parent s)) \<and> \<not> pv_warned (sy_parent s) \<and>
    (\<forall>cid\<in>set (pv_destroyed (sy_parent s)). pv_ctxs (sy_parent s) cid = None \<and>
       sy_threads s cid = \<lparr>ct_front = F_Done, ct_worker = W_Idle, ct_lease = L_Idle\<rparr>) \<and>
    (pv_alive (sy_parent s) \<longleftrightarrow> sy_registered s \<or> 0 < sy_others s \<or> (\<exists>cid. pv_ctxs (sy_parent s) cid \<noteq> None)) \<and>
    pv_module_refs (sy_parent s) = base + int (card (dom (pv_ctxs (sy_parent s))))"
proof -
  from contexts.run_total [OF ctx_start_inv assms] obtain rs s where r: "run_ops ctx_step ops (start_sys g base) = Some (rs, s)"
    and inv: "sys_inv base s" and l: "length rs = length ops" by blast
  have live: "unat (cx_ref c) = refs_of (sy_threads s cid) c \<and> 0 < refs_of (sy_threads s cid) c \<and> pv_alive (sy_parent s)"
    if "pv_ctxs (sy_parent s) cid = Some c" for cid c using sys_liveD [OF inv that] by simp
  have dead: "pv_ctxs (sy_parent s) cid = None \<and> sy_threads s cid = \<lparr>ct_front = F_Done, ct_worker = W_Idle, ct_lease = L_Idle\<rparr>"
    if "cid \<in> set (pv_destroyed (sy_parent s))" for cid
  proof -
    have "slot_ok s cid" "ct_front (sy_threads s cid) = F_Done" "pv_ctxs (sy_parent s) cid = None" using inv that by (simp_all add: sys_inv_def Let_def)
    then show ?thesis by (cases "sy_threads s cid") (simp add: slot_ok_def dead_ok_def Let_def)
  qed
  have "card (dom (pv_ctxs (sy_parent s))) = 0 \<longleftrightarrow> (\<forall>cid. pv_ctxs (sy_parent s) cid = None)" using sys_finite [OF inv] by auto
  moreover have "unat (pv_device_refs (sy_parent s)) = of_bool (sy_registered s) + sy_others s + card (dom (pv_ctxs (sy_parent s)))"
    using inv by (simp add: sys_inv_def Let_def)
  moreover have "pv_alive (sy_parent s) \<longleftrightarrow> pv_device_refs (sy_parent s) \<noteq> 0" using inv by (auto simp: sys_inv_def Let_def)
  then have "pv_alive (sy_parent s) \<longleftrightarrow> unat (pv_device_refs (sy_parent s)) \<noteq> 0" by (simp only: unat_eq_0)
  ultimately have "pv_alive (sy_parent s) \<longleftrightarrow> sy_registered s \<or> 0 < sy_others s \<or> (\<exists>cid. pv_ctxs (sy_parent s) cid \<noteq> None)" by auto
  moreover have "distinct (pv_destroyed (sy_parent s))" "\<not> pv_warned (sy_parent s)"
    "pv_module_refs (sy_parent s) = base + int (card (dom (pv_ctxs (sy_parent s))))" using inv by (simp_all add: sys_inv_def Let_def)
  ultimately show ?thesis using r l live dead by blast
qed

text \<open>
  C29: A close is never lost. In every reachable state in which a context is closing and the core has let go of
  it, whatever happened before, and whatever its worker is doing, the worker has been scheduled for it: one
  round of the worker, with the puts it and the frontend still owe, frees the context.
\<close>

theorem close_completes:
  assumes "run_ops ctx_step ops (start_sys g base) = Some (rs, s)" "\<forall>op\<in>set ops. ctx_op_ok op"
    "pv_ctxs (sy_parent s) cid = Some c" "cx_closing c" "crystalhd_v4l2_ctx_retired c"
  shows "\<exists>rs' s'. run_ops ctx_step (close_schedule cid) s = Some (rs', s') \<and> pv_ctxs (sy_parent s') cid = None"
proof (rule schedule_run)
  have inv: "sys_inv base s" using contexts.run_total [OF ctx_start_inv assms(2), of g base] assms(1) by auto
  show "unneeded base cid UNIV s \<or> settled_within base cid 2 s"
  proof (cases "cx_cleanup_committed c")
    case True
    have "owed (ct_worker (sy_threads s cid)) \<le> 2"
      using sys_liveD(1) [OF inv assms(3)] True by (cases "ct_worker (sy_threads s cid)") (auto simp: shape_ok_def almost_ok_def work_ok_def)
    then show ?thesis using inv assms(3) True by (simp add: settled_within_def)
  qed (use inv assms in \<open>simp add: unneeded_def\<close>)
qed

section \<open>Witnesses\<close>

lemmas ctx_eval = start_sys_def parent_new_def crystalhd_v4l2_ctx_create_def crystalhd_v4l2_parent_get_def put_ctx_def set_thread_def act_def
  ctx_at_def ctx_close_section_def crystalhd_v4l2_queue_close_locked_def refcount_inc_def Let_def

theorem context_lifetime_witness:
  "\<exists>rs s. run_ops ctx_step [Cx_Create True True 1, Cx_Acquire 1, Cx_Get 1, Cx_Close 1, Cx_Start 1, Cx_Retired 1, Cx_Close_Put 1, Cx_Release 1,
      Cx_Core_Put 1, Cx_Unregister, Cx_Settle 1, Cx_Worker_Put 1, Cx_Worker_Put 1] (start_sys 5 1) = Some (rs, s) \<and> \<not> pv_warned (sy_parent s)"
  (is "\<exists>rs s. run_ops ctx_step ?ops _ = _ \<and> _")
proof -
  have o: "\<forall>op\<in>set ?ops. ctx_op_ok op" by simp
  from context_lifetime [OF o, of 5 1] show ?thesis by blast
qed

theorem close_completes_witness:
  "\<exists>rs s rs' s'. run_ops ctx_step [Cx_Create True True 1, Cx_Close 1] (start_sys 5 1) = Some (rs, s) \<and>
    pv_ctxs (sy_parent s) 1 \<noteq> None \<and> run_ops ctx_step (close_schedule 1) s = Some (rs', s') \<and> pv_ctxs (sy_parent s') 1 = None"
proof -
  have o: "\<forall>op\<in>set [Cx_Create True True 1, Cx_Close 1]. ctx_op_ok op" by simp
  have "\<exists>rs s c. run_ops ctx_step [Cx_Create True True 1, Cx_Close 1] (start_sys 5 1) = Some (rs, s) \<and> pv_ctxs (sy_parent s) 1 = Some c \<and>
      cx_closing c \<and> crystalhd_v4l2_ctx_retired c"
    by (simp add: ctx_eval crystalhd_v4l2_ctx_retired_def)
  then obtain rs s c where s: "run_ops ctx_step [Cx_Create True True 1, Cx_Close 1] (start_sys 5 1) = Some (rs, s)" "pv_ctxs (sy_parent s) 1 = Some c"
    "cx_closing c" "crystalhd_v4l2_ctx_retired c" by blast
  from close_completes [OF s(1) o s(2-4)] show ?thesis using s(1,2) by blast
qed

end
