(* ===== verification/L0s_Link.thy ===== *)
theory L0s_Link
  imports Chd_Prelude
begin

text \<open>
  The opt-in L0s workaround (\<^verbatim>\<open>driver/linux/crystalhd_l0s.h\<close> and its callers in
  \<^verbatim>\<open>driver/linux/crystalhd_lnx.c\<close>): a playback session switches off the L0s bit in the link control
  registers of the decoder and of the root port above it, and gives both back as the platform had them.
  Configuration accesses may fail, be lost, or change the register and still report an error.
\<close>

section \<open>Configuration space\<close>

text \<open>
  Each access is answered by the PCI core: its return code (0, a positive \<^verbatim>\<open>PCIBIOS\<close> code or a negative
  error number), whether a write reached the register, whether a read finds the device gone (all ones), and
  the word read from a register the model does not follow.
\<close>

datatype pci_rc = Pcibios_Successful | Pcibios_Error | Pci_Errno errno

record pci_answer =
  pa_rc :: pci_rc
  pa_applies :: bool
  pa_gone :: bool
  pa_word :: u16

datatype pci_dev = Endpoint | Parent

record pci_config =
  pc_endpoint :: u16
  pc_parent :: u16
  pc_command :: u16
  pc_is_pcie :: bool
  pc_parent_refs :: nat
  pc_answers :: "pci_answer list"

abbreviation (input) PCI_EXP_LNKCTL_ASPM_L0S :: u16 where "PCI_EXP_LNKCTL_ASPM_L0S \<equiv> 1"
abbreviation (input) PCI_COMMAND_MASTER :: u16 where "PCI_COMMAND_MASTER \<equiv> 4"
abbreviation (input) PCI_EXP_DEVSTA_TRPND :: u16 where "PCI_EXP_DEVSTA_TRPND \<equiv> 0x20"

definition pci_ask :: "pci_config \<Rightarrow> pci_answer \<times> pci_config" where
  "pci_ask w = (case pc_answers w of
     [] \<Rightarrow> (\<lparr>pa_rc = Pcibios_Successful, pa_applies = True, pa_gone = False, pa_word = 0\<rparr>, w)
   | a # as \<Rightarrow> (a, w\<lparr>pc_answers := as\<rparr>))"

fun lnkctl :: "pci_dev \<Rightarrow> pci_config \<Rightarrow> u16" where
  "lnkctl Endpoint w = pc_endpoint w"
| "lnkctl Parent w = pc_parent w"

fun set_lnkctl :: "pci_dev \<Rightarrow> u16 \<Rightarrow> pci_config \<Rightarrow> pci_config" where
  "set_lnkctl Endpoint v w = w\<lparr>pc_endpoint := v\<rparr>"
| "set_lnkctl Parent v w = w\<lparr>pc_parent := v\<rparr>"

definition pcie_capability_read_word :: "pci_dev \<Rightarrow> pci_config \<Rightarrow> pci_rc \<times> u16 \<times> pci_config" where
  "pcie_capability_read_word dev w =
    (let (a, w1) = pci_ask w in (pa_rc a, if pa_rc a \<noteq> Pcibios_Successful then 0 else if pa_gone a then 0xFFFF else lnkctl dev w1, w1))"

definition pcie_capability_clear_and_set_word :: "pci_dev \<Rightarrow> u16 \<Rightarrow> u16 \<Rightarrow> pci_config \<Rightarrow> pci_rc \<times> pci_config" where
  "pcie_capability_clear_and_set_word dev clr bits w =
    (let (a, w1) = pci_ask w in (pa_rc a, if pa_applies a then set_lnkctl dev ((lnkctl dev w1 AND NOT clr) OR bits) w1 else w1))"

definition pci_disable_link_state :: "pci_config \<Rightarrow> pci_rc \<times> pci_config" where
  "pci_disable_link_state w =
    (let (a, w1) = pci_ask w
     in (pa_rc a, if pa_applies a then w1\<lparr>pc_endpoint := pc_endpoint w1 AND NOT PCI_EXP_LNKCTL_ASPM_L0S,
                                       pc_parent := pc_parent w1 AND NOT PCI_EXP_LNKCTL_ASPM_L0S\<rparr> else w1))"

definition pci_set_command_master :: "bool \<Rightarrow> pci_config \<Rightarrow> pci_config" where
  "pci_set_command_master on w =
    (let (a, w1) = pci_ask w
     in if pa_applies a then w1\<lparr>pc_command := (if on then pc_command w1 OR PCI_COMMAND_MASTER else pc_command w1 AND NOT PCI_COMMAND_MASTER)\<rparr> else w1)"

definition pci_read_command :: "pci_config \<Rightarrow> pci_rc \<times> u16 \<times> pci_config" where
  "pci_read_command w = (let (a, w1) = pci_ask w in (pa_rc a, if pa_gone a then 0xFFFF else pc_command w1, w1))"

section \<open>The link state machine\<close>

record crystalhd_l0s_state =
  ls_parent :: bool
  ls_endpoint_l0s :: u16
  ls_parent_l0s :: u16
  ls_saved :: bool
  ls_raw_active :: bool
  ls_core_owned :: bool
  ls_session_mode :: bool
  ls_session_active :: bool

text \<open>\<open>rc < 0 ? rc : -EIO\<close> for a return code that is not 0.\<close>

fun pci_rc_errno :: "pci_rc \<Rightarrow> rc" where
  "pci_rc_errno Pcibios_Successful = rc_ok"
| "pci_rc_errno Pcibios_Error = Some EIO"
| "pci_rc_errno (Pci_Errno e) = Some e"

definition crystalhd_l0s_read :: "pci_dev \<Rightarrow> pci_config \<Rightarrow> rc \<times> u16 \<times> pci_config" where
  "crystalhd_l0s_read dev w =
    (let (rc, v, w1) = pcie_capability_read_word dev w
     in (if rc \<noteq> Pcibios_Successful then pci_rc_errno rc else if v = 0xFFFF then Some ENODEV else rc_ok, v, w1))"

definition crystalhd_l0s_write :: "pci_dev \<Rightarrow> u16 \<Rightarrow> pci_config \<Rightarrow> rc \<times> pci_config" where
  "crystalhd_l0s_write dev b w =
    (let (rc, w1) = pcie_capability_clear_and_set_word dev PCI_EXP_LNKCTL_ASPM_L0S b w
     in if rc \<noteq> Pcibios_Successful then (pci_rc_errno rc, w1)
        else let (rc2, v, w2) = crystalhd_l0s_read dev w1
             in if rc2 \<noteq> rc_ok then (rc2, w2)
                else (if v AND PCI_EXP_LNKCTL_ASPM_L0S = b then rc_ok else Some EIO, w2))"

definition crystalhd_l0s_restore :: "crystalhd_l0s_state \<Rightarrow> pci_config \<Rightarrow> rc \<times> crystalhd_l0s_state \<times> pci_config" where
  "crystalhd_l0s_restore st w =
    (if \<not> ls_raw_active st \<or> ls_core_owned st then (rc_ok, st, w)
     else if \<not> ls_saved st \<or> \<not> ls_parent st then (Some EINVAL, st, w)
     else let (rc1, w1) = crystalhd_l0s_write Parent (ls_parent_l0s st) w;
              (rc2, w2) = crystalhd_l0s_write Endpoint (ls_endpoint_l0s st) w1;
              rc = (if rc1 = rc_ok then rc2 else rc1)
          in (rc, if rc = rc_ok then st\<lparr>ls_raw_active := False\<rparr> else st, w2))"

definition crystalhd_l0s_apply_raw :: "crystalhd_l0s_state \<Rightarrow> u16 \<Rightarrow> u16 \<Rightarrow> pci_config \<Rightarrow> rc \<times> crystalhd_l0s_state \<times> pci_config" where
  "crystalhd_l0s_apply_raw st endpoint parent w =
    (let st1 = (if \<not> ls_saved st then st\<lparr>ls_endpoint_l0s := endpoint AND PCI_EXP_LNKCTL_ASPM_L0S,
                                       ls_parent_l0s := parent AND PCI_EXP_LNKCTL_ASPM_L0S, ls_saved := True\<rparr> else st);
         st2 = st1\<lparr>ls_raw_active := True\<rparr>;
         (rc1, w1) = crystalhd_l0s_write Endpoint 0 w;
         (rc, w2) = (if rc1 = rc_ok then crystalhd_l0s_write Parent 0 w1 else (rc1, w1))
     in if rc \<noteq> rc_ok
        then let (rollback, st3, w3) = crystalhd_l0s_restore st2 w2 in (if rollback \<noteq> rc_ok then rollback else rc, st3, w3)
        else (rc_ok, st2, w2))"

text \<open>\<open>aspm\<close> is \<^verbatim>\<open>CONFIG_PCIEASPM\<close>.\<close>

definition crystalhd_l0s_apply :: "bool \<Rightarrow> crystalhd_l0s_state \<Rightarrow> pci_config \<Rightarrow> rc \<times> crystalhd_l0s_state \<times> pci_config" where
  "crystalhd_l0s_apply aspm st w =
    (if \<not> ls_parent st then (rc_ok, st, w)
     else if ls_session_mode st \<and> \<not> ls_session_active st then (rc_ok, st, w)
     else
       let (rc1, endpoint, w1) = crystalhd_l0s_read Endpoint w
       in if rc1 \<noteq> rc_ok then (rc1, st, w1)
       else
         let (rc2, parent, w2) = crystalhd_l0s_read Parent w1
         in if rc2 \<noteq> rc_ok then (rc2, st, w2)
         else if ls_session_mode st \<or> \<not> aspm then crystalhd_l0s_apply_raw st endpoint parent w2
         else
           let (rc3, w3) = pci_disable_link_state w2
           in if rc3 = Pcibios_Successful
              then let st1 = st\<lparr>ls_core_owned := True\<rparr>;
                       (rc4, endpoint1, w4) = crystalhd_l0s_read Endpoint w3
                   in if rc4 \<noteq> rc_ok then (rc4, st1, w4)
                      else let (rc5, parent1, w5) = crystalhd_l0s_read Parent w4
                           in if rc5 \<noteq> rc_ok then (rc5, st1, w5)
                              else (if has_flag (endpoint1 OR parent1) PCI_EXP_LNKCTL_ASPM_L0S then Some EIO else rc_ok, st1, w5)
              else if rc3 \<noteq> Pci_Errno EPERM \<or> ls_core_owned st then (pci_rc_errno rc3, st, w3)
              else crystalhd_l0s_apply_raw st endpoint parent w3)"

section \<open>Attaching to a dedicated link\<close>

datatype pcie_type = PCI_EXP_TYPE_ENDPOINT | PCI_EXP_TYPE_ROOT_PORT | Other_Port

text \<open>
  The topology around the device, which is number 0 among the children of its bus; the bus may have no
  bridge above it, and the bridge may lead to another bus.
\<close>

record pci_topology =
  tp_vendor :: u16
  tp_device :: u16
  tp_is_pcie :: bool
  tp_type :: pcie_type
  tp_multifunction :: bool
  tp_devfn :: u8
  tp_bus :: bool
  tp_self :: "(bool \<times> pcie_type \<times> bool) option"
  tp_children :: "nat list"

record crystalhd_l0s_bus_check =
  bc_found :: bool
  bc_shared :: bool

definition crystalhd_l0s_check_child :: "nat \<Rightarrow> crystalhd_l0s_bus_check \<Rightarrow> bool \<times> crystalhd_l0s_bus_check" where
  "crystalhd_l0s_check_child dev check = (if dev \<noteq> 0 then (True, check\<lparr>bc_shared := True\<rparr>) else (False, check\<lparr>bc_found := True\<rparr>))"

fun pci_walk_bus :: "nat list \<Rightarrow> crystalhd_l0s_bus_check \<Rightarrow> crystalhd_l0s_bus_check" where
  "pci_walk_bus [] check = check"
| "pci_walk_bus (dev # devs) check =
    (let (stop, check1) = crystalhd_l0s_check_child dev check in if stop then check1 else pci_walk_bus devs check1)"

definition crystalhd_l0s_attach :: "pci_topology \<Rightarrow> bool \<Rightarrow> crystalhd_l0s_state \<Rightarrow> pci_config \<Rightarrow> rc \<times> crystalhd_l0s_state \<times> pci_config" where
  "crystalhd_l0s_attach tp requested st w =
    (if \<not> requested then (rc_ok, st, w)
     else if ls_parent st then (Some EBUSY, st, w)
     else if tp_vendor tp \<noteq> 0x14E4 \<or> tp_device tp \<noteq> 0x1615 \<or> \<not> tp_is_pcie tp \<or> tp_type tp \<noteq> PCI_EXP_TYPE_ENDPOINT \<or>
             tp_multifunction tp \<or> tp_devfn tp AND 7 \<noteq> 0 \<or> \<not> tp_bus tp then (Some EOPNOTSUPP, st, w)
     else case tp_self tp of None \<Rightarrow> (Some EOPNOTSUPP, st, w)
      | Some (pcie, ty, same_bus) \<Rightarrow>
        if \<not> pcie \<or> ty \<noteq> PCI_EXP_TYPE_ROOT_PORT \<or> \<not> same_bus then (Some EOPNOTSUPP, st, w)
        else let check = pci_walk_bus (tp_children tp) \<lparr>bc_found = False, bc_shared = False\<rparr>
             in if \<not> bc_found check \<or> bc_shared check then (Some EOPNOTSUPP, st, w)
                else (rc_ok, st\<lparr>ls_parent := True\<rparr>, w\<lparr>pc_parent_refs := pc_parent_refs w + 1\<rparr>))"

definition crystalhd_l0s_init :: "bool \<Rightarrow> pci_topology \<Rightarrow> bool \<Rightarrow> crystalhd_l0s_state \<Rightarrow> pci_config \<Rightarrow> rc \<times> crystalhd_l0s_state \<times> pci_config" where
  "crystalhd_l0s_init aspm tp requested st w =
    (let (rc, st1, w1) = crystalhd_l0s_attach tp requested st w
     in if rc \<noteq> rc_ok \<or> \<not> requested then (rc, st1, w1) else crystalhd_l0s_apply aspm st1 w1)"

definition crystalhd_l0s_session_init :: "pci_topology \<Rightarrow> bool \<Rightarrow> crystalhd_l0s_state \<Rightarrow> pci_config \<Rightarrow> rc \<times> crystalhd_l0s_state \<times> pci_config" where
  "crystalhd_l0s_session_init tp requested st w =
    (let (rc, st1, w1) = crystalhd_l0s_attach tp requested st w
     in if rc \<noteq> rc_ok \<or> \<not> requested then (rc, st1, w1) else (rc_ok, st1\<lparr>ls_session_mode := True\<rparr>, w1))"

section \<open>Sessions\<close>

definition forget_baseline :: "crystalhd_l0s_state \<Rightarrow> crystalhd_l0s_state" where
  "forget_baseline st = st\<lparr>ls_saved := False, ls_endpoint_l0s := 0, ls_parent_l0s := 0\<rparr>"

definition crystalhd_l0s_session_start :: "bool \<Rightarrow> crystalhd_l0s_state \<Rightarrow> pci_config \<Rightarrow> rc \<times> crystalhd_l0s_state \<times> pci_config" where
  "crystalhd_l0s_session_start aspm st w =
    (if \<not> ls_session_mode st then (rc_ok, st, w)
     else if ls_session_active st \<or> ls_saved st \<or> ls_raw_active st \<or> ls_core_owned st then (Some EBUSY, st, w)
     else let (rc, st1, w1) = crystalhd_l0s_apply aspm (st\<lparr>ls_session_active := True\<rparr>) w
          in (rc, if rc \<noteq> rc_ok \<and> \<not> ls_raw_active st1 then forget_baseline (st1\<lparr>ls_session_active := False\<rparr>) else st1, w1))"

definition crystalhd_l0s_session_stop :: "crystalhd_l0s_state \<Rightarrow> pci_config \<Rightarrow> rc \<times> crystalhd_l0s_state \<times> pci_config" where
  "crystalhd_l0s_session_stop st w =
    (if \<not> ls_session_mode st \<or> \<not> ls_session_active st then (rc_ok, st, w)
     else let (rc, st1, w1) = crystalhd_l0s_restore st w
          in if rc \<noteq> rc_ok then (rc, st1, w1) else (rc_ok, forget_baseline (st1\<lparr>ls_session_active := False\<rparr>), w1))"

definition crystalhd_l0s_session_suspend :: "crystalhd_l0s_state \<Rightarrow> pci_config \<Rightarrow> rc \<times> crystalhd_l0s_state \<times> pci_config" where
  "crystalhd_l0s_session_suspend st w =
    (if \<not> ls_session_mode st \<or> \<not> ls_session_active st then (rc_ok, st, w)
     else let (rc, st1, w1) = crystalhd_l0s_restore st w
          in if rc \<noteq> rc_ok then (rc, st1, w1) else (rc_ok, forget_baseline st1, w1))"

definition crystalhd_l0s_release :: "crystalhd_l0s_state \<Rightarrow> pci_config \<Rightarrow> rc \<times> crystalhd_l0s_state \<times> pci_config" where
  "crystalhd_l0s_release st w =
    (let (rc, st1, w1) = (if ls_session_mode st then crystalhd_l0s_session_stop st w else crystalhd_l0s_restore st w);
         (st2, w2) = (if ls_parent st1 then (st1\<lparr>ls_parent := False\<rparr>, w1\<lparr>pc_parent_refs := pc_parent_refs w1 - 1\<rparr>) else (st1, w1))
     in (rc, if rc = rc_ok then st2\<lparr>ls_session_mode := False, ls_core_owned := False\<rparr> else st2, w2))"

section \<open>The driver's callers\<close>

definition chd_restore_l0s :: "crystalhd_l0s_state \<Rightarrow> pci_config \<Rightarrow> rc \<times> crystalhd_l0s_state \<times> pci_config" where
  "chd_restore_l0s st w = (if ls_session_mode st then crystalhd_l0s_session_suspend st w else crystalhd_l0s_restore st w)"

definition chd_release_l0s :: "crystalhd_l0s_state \<Rightarrow> pci_config \<Rightarrow> crystalhd_l0s_state \<times> pci_config" where
  "chd_release_l0s st w = snd (crystalhd_l0s_release st w)"

definition chd_dec_clear_master_and_drain :: "pci_config \<Rightarrow> bool \<times> pci_config" where
  "chd_dec_clear_master_and_drain w =
    (let w1 = pci_set_command_master False w;
         (rc, command, w2) = pci_read_command w1
     in if rc \<noteq> Pcibios_Successful \<or> has_flag command PCI_COMMAND_MASTER then (False, w2)
        else if \<not> pc_is_pcie w2 then (False, w2)
        else let (pending, w3) = pci_ask w2
             in if \<not> pa_applies pending then (False, w3)
                else let (devsta, w4) = pci_ask w3
                     in (pa_rc devsta = Pcibios_Successful \<and> \<not> has_flag (pa_word devsta) PCI_EXP_DEVSTA_TRPND, w4))"

definition chd_dec_set_master_checked :: "pci_config \<Rightarrow> rc \<times> pci_config" where
  "chd_dec_set_master_checked w =
    (let (rc, command, w1) = pci_read_command (pci_set_command_master True w)
     in (if rc \<noteq> Pcibios_Successful \<or> command = 0xFFFF \<or> \<not> has_flag command PCI_COMMAND_MASTER then Some EIO else rc_ok, w1))"

text \<open>\<open>session_off\<close> and \<open>force_off\<close> are the module parameters.\<close>

definition crystalhd_session_l0s_begin ::
  "bool \<Rightarrow> bool \<Rightarrow> bool \<Rightarrow> crystalhd_l0s_state \<Rightarrow> pci_config \<Rightarrow> rc \<times> crystalhd_l0s_state \<times> pci_config" where
  "crystalhd_session_l0s_begin aspm session_off force_off st w =
    (if \<not> session_off \<or> force_off then (rc_ok, st, w)
     else if \<not> ls_session_mode st then (Some EOPNOTSUPP, st, w)
     else
       let (drained, w1) = chd_dec_clear_master_and_drain w
       in if \<not> drained then (Some EIO, st, w1)
       else
         let (rc, st1, w2) = crystalhd_l0s_session_start aspm st w1
         in if rc \<noteq> rc_ok then (rc, st1, w2)
         else
           let (rc2, w3) = chd_dec_set_master_checked w2
           in if rc2 = rc_ok then (rc_ok, st1, w3)
           else
             let (drained2, w4) = chd_dec_clear_master_and_drain w3
             in if \<not> drained2 then (Some EIO, st1, w4)
                else let (rollback, st2, w5) = crystalhd_l0s_session_stop st1 w4
                     in (if rollback \<noteq> rc_ok then rollback else rc2, st2, w5))"

definition crystalhd_session_l0s_end :: "bool \<Rightarrow> bool \<Rightarrow> crystalhd_l0s_state \<Rightarrow> pci_config \<Rightarrow> rc \<times> crystalhd_l0s_state \<times> pci_config" where
  "crystalhd_session_l0s_end session_off force_off st w =
    (if \<not> session_off \<or> force_off then (rc_ok, st, w)
     else if \<not> ls_session_mode st then (rc_ok, st, w)
     else
       let (drained, w1) = chd_dec_clear_master_and_drain w
       in if \<not> drained then (Some EIO, st, w1)
          else if \<not> ls_session_active st then (rc_ok, st, w1)
          else crystalhd_l0s_session_stop st w1)"

text \<open>
  The link part of the power management callbacks, with what the rest of the callback answers. The last
  result says whether the device is still present. On a failed resume the link is restored when terminal
  cancellation could prove the DMA stopped.
\<close>

definition suspend_link :: "crystalhd_l0s_state \<Rightarrow> pci_config \<Rightarrow> rc \<times> crystalhd_l0s_state \<times> pci_config \<times> bool" where
  "suspend_link st w =
    (let (drained, w1) = chd_dec_clear_master_and_drain w
     in if \<not> drained then (Some EIO, st, w1, False)
        else let (rc, st1, w2) = chd_restore_l0s st w1 in (rc, st1, w2, rc = rc_ok))"

definition resume_link :: "bool \<Rightarrow> rc \<Rightarrow> rc \<Rightarrow> bool \<Rightarrow> bool \<Rightarrow> bool \<Rightarrow> crystalhd_l0s_state \<Rightarrow> pci_config \<Rightarrow> rc \<times> crystalhd_l0s_state \<times> pci_config \<times> bool" where
  "resume_link aspm enable_device enable_int master resumed closed st w =
    (let w1 = pci_set_command_master False w;
         fail = (\<lambda>rc st w. let (_, st1, w1) = (if closed then chd_restore_l0s st w else (rc_ok, st, w)) in (rc, st1, w1, False))
     in if enable_device \<noteq> rc_ok
        then let (_, st1, w2) = chd_restore_l0s st w1 in (enable_device, st1, w2, False)
        else
          let (rc, st1, w2) = crystalhd_l0s_apply aspm st w1
          in if rc \<noteq> rc_ok then fail rc st1 w2
          else if enable_int \<noteq> rc_ok then fail enable_int st1 w2
          else
            let (rc3, w3) = (if master then chd_dec_set_master_checked w2 else (rc_ok, w2))
            in if rc3 \<noteq> rc_ok then fail rc3 st1 w3
               else if \<not> resumed then fail (Some ENODEV) st1 w3
               else (rc_ok, st1, w3, True))"

section \<open>Histories\<close>

text \<open>
  \<open>lx_platform_endpoint\<close> and \<open>lx_platform_parent\<close> are the link control words the platform has chosen. It
  may choose others at any time the driver has no override in place.
\<close>

record l0s_sys =
  lx_state :: crystalhd_l0s_state
  lx_pci :: pci_config
  lx_present :: bool
  lx_platform_endpoint :: u16
  lx_platform_parent :: u16

datatype l0s_op =
    L0s_Begin "pci_answer list"
  | L0s_End "pci_answer list"
  | L0s_Suspend "pci_answer list"
  | L0s_Resume rc rc bool bool bool "pci_answer list"
  | L0s_Release "pci_answer list"
  | L0s_Platform u16 u16

definition with_answers :: "pci_answer list \<Rightarrow> l0s_sys \<Rightarrow> pci_config" where
  "with_answers as x = (lx_pci x)\<lparr>pc_answers := as\<rparr>"

fun l0s_step :: "bool \<Rightarrow> bool \<Rightarrow> l0s_op \<Rightarrow> l0s_sys \<Rightarrow> (rc \<times> l0s_sys) option" where
  "l0s_step aspm off (L0s_Begin as) x =
    (if \<not> lx_present x then Some (Some ENODEV, x)
     else let (rc, st, w) = crystalhd_session_l0s_begin aspm off False (lx_state x) (with_answers as x)
          in Some (rc, x\<lparr>lx_state := st, lx_pci := w\<rparr>))"
| "l0s_step aspm off (L0s_End as) x =
    (let (rc, st, w) = crystalhd_session_l0s_end off False (lx_state x) (with_answers as x)
     in Some (rc, x\<lparr>lx_state := st, lx_pci := w\<rparr>))"
| "l0s_step aspm off (L0s_Suspend as) x =
    (if \<not> lx_present x then Some (Some ENODEV, x)
     else let (rc, st, w, present) = suspend_link (lx_state x) (with_answers as x)
          in Some (rc, x\<lparr>lx_state := st, lx_pci := w, lx_present := present\<rparr>))"
| "l0s_step aspm off (L0s_Resume enable_device enable_int master resumed closed as) x =
    (if \<not> lx_present x then Some (Some ENODEV, x)
     else let (rc, st, w, present) = resume_link aspm enable_device enable_int master resumed closed (lx_state x) (with_answers as x)
          in Some (rc, x\<lparr>lx_state := st, lx_pci := w, lx_present := present\<rparr>))"
| "l0s_step aspm off (L0s_Release as) x =
    (let (rc, st, w) = crystalhd_l0s_release (lx_state x) (with_answers as x)
     in Some (rc, x\<lparr>lx_state := st, lx_pci := w, lx_present := False\<rparr>))"
| "l0s_step aspm off (L0s_Platform e p) x =
    (if ls_raw_active (lx_state x) then Some (Some EBUSY, x)
     else Some (rc_ok, x\<lparr>lx_pci := (lx_pci x)\<lparr>pc_endpoint := e, pc_parent := p\<rparr>, lx_platform_endpoint := e, lx_platform_parent := p\<rparr>))"

section \<open>Accesses\<close>

text \<open>What an access to one link register leaves alone.\<close>

definition same_other :: "pci_config \<Rightarrow> pci_config \<Rightarrow> bool" where
  "same_other w w1 \<longleftrightarrow> pc_command w1 = pc_command w \<and> pc_is_pcie w1 = pc_is_pcie w \<and> pc_parent_refs w1 = pc_parent_refs w"

definition same_links :: "pci_config \<Rightarrow> pci_config \<Rightarrow> bool" where
  "same_links w w1 \<longleftrightarrow> pc_endpoint w1 = pc_endpoint w \<and> pc_parent w1 = pc_parent w \<and> pc_parent_refs w1 = pc_parent_refs w"

lemma ask_same: "pci_ask w = (a, w1) \<Longrightarrow> same_other w w1 \<and> same_links w w1"
  by (auto simp: pci_ask_def same_other_def same_links_def split: list.splits)

lemma same_other_trans: "same_other w w1 \<Longrightarrow> same_other w1 w2 \<Longrightarrow> same_other w w2"
  by (simp add: same_other_def)

lemma same_links_trans: "same_links w w1 \<Longrightarrow> same_links w1 w2 \<Longrightarrow> same_links w w2"
  by (simp add: same_links_def)

lemma lnkctl_same: "same_links w w1 \<Longrightarrow> lnkctl d w1 = lnkctl d w"
  by (cases d) (simp_all add: same_links_def)

lemma read_spec:
  assumes "crystalhd_l0s_read d w = (rc, v, w1)"
  shows "same_other w w1" "same_links w w1" "rc = rc_ok \<Longrightarrow> v = lnkctl d w"
proof -
  obtain a w2 where a: "pci_ask w = (a, w2)" by fastforce
  have r: "rc = (if pa_rc a \<noteq> Pcibios_Successful then pci_rc_errno (pa_rc a) else if pa_gone a \<or> lnkctl d w2 = 0xFFFF then Some ENODEV else rc_ok)"
    "w1 = w2" "v = (if pa_rc a \<noteq> Pcibios_Successful then 0 else if pa_gone a then 0xFFFF else lnkctl d w2)"
    using assms by (auto simp: crystalhd_l0s_read_def pcie_capability_read_word_def a)
  show "same_other w w1" "same_links w w1" using ask_same [OF a] r(2) by simp_all
  have "pa_rc a \<noteq> Pcibios_Successful \<Longrightarrow> pci_rc_errno (pa_rc a) \<noteq> rc_ok" by (cases "pa_rc a") simp_all
  then show "v = lnkctl d w" if "rc = rc_ok" using that r ask_same [OF a] lnkctl_same [of w w2 d] by (simp split: if_splits)
qed

lemma write_spec:
  assumes "crystalhd_l0s_write d b w = (rc, w1)" "b AND 1 = b"
  shows "same_other w w1" "d' \<noteq> d \<Longrightarrow> lnkctl d' w1 = lnkctl d' w" "lnkctl d w1 AND NOT 1 = lnkctl d w AND NOT 1"
    "rc = rc_ok \<Longrightarrow> lnkctl d w1 AND 1 = b"
proof -
  obtain r2 w2 where c: "pcie_capability_clear_and_set_word d 1 b w = (r2, w2)" by fastforce
  obtain a w0 where a: "pci_ask w = (a, w0)" by fastforce
  obtain r3 v w3 where r: "crystalhd_l0s_read d w2 = (r3, v, w3)" by (cases "crystalhd_l0s_read d w2") auto
  have w2: "w2 = (if pa_applies a then set_lnkctl d ((lnkctl d w0 AND NOT 1) OR b) w0 else w0)" "r2 = pa_rc a"
    using c by (auto simp: pcie_capability_clear_and_set_word_def a)
  have s2: "same_other w w2" using ask_same [OF a] w2(1) by (cases d) (auto simp: same_other_def)
  have o2: "lnkctl d' w2 = lnkctl d' w" if "d' \<noteq> d" for d'
    using ask_same [OF a] w2(1) that by (cases d; cases d') (auto simp: same_links_def)
  have "b AND NOT 1 = 0" using assms(2) by (metis and.assoc bit.conj_cancel_right and_zero_eq)
  then have m2: "lnkctl d w2 AND NOT 1 = lnkctl d w AND NOT 1"
    using ask_same [OF a] w2(1) by (cases d) (auto simp: same_links_def bit.conj_disj_distrib2 and.assoc)
  have nz: "pci_rc_errno r2 \<noteq> rc_ok" if "r2 \<noteq> Pcibios_Successful" using that by (cases r2) simp_all
  have w1: "w1 = (if r2 \<noteq> Pcibios_Successful then w2 else w3)"
    "rc = rc_ok \<longleftrightarrow> r2 = Pcibios_Successful \<and> r3 = rc_ok \<and> v AND 1 = b"
    using assms(1) nz by (auto simp: crystalhd_l0s_write_def c r split: if_splits)
  have l1: "same_links w2 w1" "same_other w2 w1" using w1(1) read_spec(1,2) [OF r] by (auto simp: same_links_def same_other_def)
  show "same_other w w1" using s2 l1(2) by (rule same_other_trans)
  show "lnkctl d' w1 = lnkctl d' w" if "d' \<noteq> d" using o2 [OF that] lnkctl_same [OF l1(1)] by simp
  show "lnkctl d w1 AND NOT 1 = lnkctl d w AND NOT 1" using m2 lnkctl_same [OF l1(1)] by simp
  show "lnkctl d w1 AND 1 = b" if "rc = rc_ok" using that w1 read_spec(3) [OF r] lnkctl_same [OF l1(1)] by simp
qed

lemma word_parts: "x AND NOT 1 = y AND NOT 1 \<Longrightarrow> x AND 1 = y AND 1 \<Longrightarrow> x = y" for x y :: u16
proof -
  have "z = (z AND NOT 1) OR (z AND 1)" for z :: u16 by (simp flip: bit.conj_disj_distrib)
  then show "x AND NOT 1 = y AND NOT 1 \<Longrightarrow> x AND 1 = y AND 1 \<Longrightarrow> x = y" by metis
qed

section \<open>The override and the platform's policy\<close>

text \<open>
  With the driver's override in place the saved bits are the platform's and only the L0s bits may differ;
  without it both registers are the platform's.
\<close>

definition link_inv :: "u16 \<Rightarrow> u16 \<Rightarrow> crystalhd_l0s_state \<Rightarrow> pci_config \<Rightarrow> bool" where
  "link_inv pe pp st w \<longleftrightarrow>
    pc_endpoint w AND NOT 1 = pe AND NOT 1 \<and> pc_parent w AND NOT 1 = pp AND NOT 1 \<and>
    (\<not> ls_raw_active st \<longrightarrow> pc_endpoint w = pe \<and> pc_parent w = pp) \<and>
    (ls_raw_active st \<longrightarrow> ls_saved st \<and> ls_session_mode st \<and> ls_session_active st \<and>
       ls_endpoint_l0s st = pe AND 1 \<and> ls_parent_l0s st = pp AND 1) \<and>
    \<not> ls_core_owned st \<and> (ls_parent st \<longrightarrow> ls_session_mode st) \<and> pc_parent_refs w = of_bool (ls_parent st)"

lemma link_inv_frame: "link_inv pe pp st w \<Longrightarrow> same_links w w1 \<Longrightarrow> link_inv pe pp st w1"
  by (simp add: link_inv_def same_links_def)

lemma restore_all:
  assumes "link_inv pe pp st w" "crystalhd_l0s_restore st w = (rc, st1, w1)"
  shows "link_inv pe pp st1 w1 \<and> same_other w w1 \<and> (rc = rc_ok \<longleftrightarrow> \<not> ls_raw_active st1) \<and> st1 = st\<lparr>ls_raw_active := ls_raw_active st1\<rparr>"
proof (cases "ls_raw_active st \<and> ls_parent st")
  case False
  then show ?thesis
    using assms by (auto simp: crystalhd_l0s_restore_def link_inv_def same_other_def split: if_splits)
next
  case True
  obtain r2 w2 where p: "crystalhd_l0s_write Parent (ls_parent_l0s st) w = (r2, w2)" by fastforce
  obtain r3 w3 where e: "crystalhd_l0s_write Endpoint (ls_endpoint_l0s st) w2 = (r3, w3)" by fastforce
  have st: "ls_saved st" "\<not> ls_core_owned st" "ls_endpoint_l0s st = pe AND 1" "ls_parent_l0s st = pp AND 1" using assms(1) True by (simp_all add: link_inv_def)
  have bits: "ls_parent_l0s st AND 1 = ls_parent_l0s st" "ls_endpoint_l0s st AND 1 = ls_endpoint_l0s st" using st by (simp_all add: and.assoc)
  note P = write_spec [OF p bits(1)] and E = write_spec [OF e bits(2)]
  have eq: "rc = (if r2 = rc_ok then r3 else r2)" "w1 = w3" "st1 = (if rc = rc_ok then st\<lparr>ls_raw_active := False\<rparr> else st)"
    using assms(2) True st(1,2) by (auto simp: crystalhd_l0s_restore_def p e Let_def)
  have same: "same_other w w3" using P(1) E(1) by (rule same_other_trans)
  have mask: "pc_endpoint w3 AND NOT 1 = pe AND NOT 1" "pc_parent w3 AND NOT 1 = pp AND NOT 1"
    using P(3) E(3) P(2) [of Endpoint] E(2) [of Parent] assms(1) by (simp_all add: link_inv_def)
  have back_e: "pc_endpoint w3 = pe" and back_p: "pc_parent w3 = pp" if "rc = rc_ok"
  proof -
    have "r2 = rc_ok" "r3 = rc_ok" using that eq(1) by (auto split: if_splits)
    then have "pc_endpoint w3 AND 1 = pe AND 1" "pc_parent w3 AND 1 = pp AND 1"
      using E(4) P(4) E(2) [of Parent] st by simp_all
    then show "pc_endpoint w3 = pe" "pc_parent w3 = pp" using mask word_parts by blast+
  qed
  show ?thesis
  proof (cases "rc = rc_ok")
    case True
    then have "st1 = st\<lparr>ls_raw_active := False\<rparr>" using eq(3) by simp
    then show ?thesis using True assms(1) eq(2) mask same back_e back_p by (simp add: link_inv_def same_other_def)
  next
    case False
    then have "st1 = st" using eq(3) by auto
    then show ?thesis using False assms(1) eq(2) mask same \<open>ls_raw_active st \<and> ls_parent st\<close> by (simp add: link_inv_def same_other_def)
  qed
qed

lemma restore_spec:
  assumes "link_inv pe pp st w" "crystalhd_l0s_restore st w = (rc, st1, w1)"
  shows "link_inv pe pp st1 w1" "same_other w w1" "rc = rc_ok \<longleftrightarrow> \<not> ls_raw_active st1" "st1 = st\<lparr>ls_raw_active := ls_raw_active st1\<rparr>"
  using restore_all [OF assms] by blast+

lemma apply_raw_spec:
  assumes "link_inv pe pp st w" "ls_session_mode st" "ls_session_active st" "ls_parent st" "ls_saved st = ls_raw_active st"
    "crystalhd_l0s_apply_raw st (pc_endpoint w) (pc_parent w) w = (rc, st1, w1)"
  shows "link_inv pe pp st1 w1" "same_other w w1" "ls_session_mode st1 \<and> ls_session_active st1"
    "rc = rc_ok \<Longrightarrow> ls_raw_active st1 \<and> pc_endpoint w1 AND 1 = 0 \<and> pc_parent w1 AND 1 = 0"
proof -
  define st2 where "st2 = (if \<not> ls_saved st then st\<lparr>ls_endpoint_l0s := pc_endpoint w AND 1, ls_parent_l0s := pc_parent w AND 1, ls_saved := True\<rparr> else st)\<lparr>ls_raw_active := True\<rparr>"
  obtain r2 w2 where e: "crystalhd_l0s_write Endpoint 0 w = (r2, w2)" by fastforce
  obtain r3 w3 where p: "(if r2 = rc_ok then crystalhd_l0s_write Parent 0 w2 else (r2, w2)) = (r3, w3)" by fastforce
  have E: "same_other w w2" "pc_parent w2 = pc_parent w" "pc_endpoint w2 AND NOT 1 = pc_endpoint w AND NOT 1" "r2 = rc_ok \<Longrightarrow> pc_endpoint w2 AND 1 = 0"
    using write_spec [OF e] write_spec(2) [OF e, of Parent] by simp_all
  have P: "same_other w2 w3 \<and> pc_endpoint w3 = pc_endpoint w2 \<and> pc_parent w3 AND NOT 1 = pc_parent w2 AND NOT 1 \<and> (r3 = rc_ok \<longrightarrow> r2 = rc_ok \<and> pc_parent w3 AND 1 = 0)"
  proof (cases "r2 = rc_ok")
    case True
    then have "crystalhd_l0s_write Parent 0 w2 = (r3, w3)" using p by simp
    then show ?thesis using write_spec [of Parent 0 w2 r3 w3] write_spec(2) [of Parent 0 w2 r3 w3 Endpoint] True by simp
  qed (use p in \<open>auto simp: same_other_def\<close>)
  have i2: "link_inv pe pp st2 w3" using assms(1-5) E P by (auto simp: link_inv_def st2_def same_other_def)
  obtain r4 st4 w4 where r: "crystalhd_l0s_restore st2 w3 = (r4, st4, w4)" by (cases "crystalhd_l0s_restore st2 w3") auto
  have eq: "(rc, st1, w1) = (if r3 \<noteq> rc_ok then (if r4 \<noteq> rc_ok then r4 else r3, st4, w4) else (rc_ok, st2, w3))"
    using assms(6) unfolding crystalhd_l0s_apply_raw_def Let_def e prod.case p st2_def [symmetric] r by simp
  have m2: "ls_session_mode st2" "ls_session_active st2" "ls_raw_active st2" using assms(2,3) by (simp_all add: st2_def)
  note R = restore_spec [OF i2 r]
  have s4: "ls_session_mode st4" "ls_session_active st4" using m2 R(4) by (metis crystalhd_l0s_state.select_convs crystalhd_l0s_state.surjective crystalhd_l0s_state.update_convs(5))+
  show "link_inv pe pp st1 w1" using eq i2 R(1) by (auto split: if_splits)
  show "same_other w w1" using eq E(1) P R(2) by (auto simp: same_other_def split: if_splits)
  show "ls_session_mode st1 \<and> ls_session_active st1" using eq m2 s4 by (auto split: if_splits)
  show "ls_raw_active st1 \<and> pc_endpoint w1 AND 1 = 0 \<and> pc_parent w1 AND 1 = 0" if "rc = rc_ok"
    using that eq m2 E P by (auto split: if_splits)
qed

section \<open>Session calls\<close>

definition fresh :: "crystalhd_l0s_state \<Rightarrow> bool" where
  "fresh st \<longleftrightarrow> ls_raw_active st \<or> \<not> ls_saved st"

lemma apply_spec:
  assumes "link_inv pe pp st w" "fresh st" "crystalhd_l0s_apply aspm st w = (rc, st1, w1)"
  shows "link_inv pe pp st1 w1 \<and> same_other w w1 \<and>
    (ls_session_mode st1 = ls_session_mode st \<and> ls_session_active st1 = ls_session_active st) \<and>
    (rc = rc_ok \<longrightarrow> fresh st1 \<and> (ls_parent st \<and> ls_session_active st \<longrightarrow> ls_raw_active st1 \<and> pc_endpoint w1 AND 1 = 0 \<and> pc_parent w1 AND 1 = 0))"
proof (cases "ls_parent st \<and> ls_session_active st")
  case False
  then show ?thesis using assms by (auto simp: crystalhd_l0s_apply_def link_inv_def same_other_def)
next
  case True
  then have mode: "ls_session_mode st" "ls_saved st = ls_raw_active st" using assms(1,2) by (auto simp: link_inv_def fresh_def)
  obtain r2 e w2 where e: "crystalhd_l0s_read Endpoint w = (r2, e, w2)" by (cases "crystalhd_l0s_read Endpoint w") auto
  obtain r3 p w3 where p: "crystalhd_l0s_read Parent w2 = (r3, p, w3)" by (cases "crystalhd_l0s_read Parent w2") auto
  have same: "same_other w w2" "same_links w w2" "same_other w w3" "same_links w w3"
    using read_spec(1,2) [OF e] read_spec(1,2) [OF p] by (auto simp: same_other_def same_links_def)
  have A: "crystalhd_l0s_apply aspm st w = (if r2 \<noteq> rc_ok then (r2, st, w2) else if r3 \<noteq> rc_ok then (r3, st, w3) else crystalhd_l0s_apply_raw st e p w3)"
    using True mode(1) by (simp add: crystalhd_l0s_apply_def e p)
  show ?thesis
  proof (cases "r2 = rc_ok \<and> r3 = rc_ok")
    case False
    then have "rc \<noteq> rc_ok" "st1 = st" "w1 = w2 \<or> w1 = w3" using assms(3) A by (auto split: if_splits)
    then show ?thesis using same link_inv_frame [OF assms(1)] by auto
  next
    case ok: True
    then have "e = pc_endpoint w3" "p = pc_parent w3"
      using read_spec(3) [OF e] read_spec(3) [OF p] same(2,4) by (simp_all add: same_links_def)
    then have r: "crystalhd_l0s_apply_raw st (pc_endpoint w3) (pc_parent w3) w3 = (rc, st1, w1)" using assms(3) A ok by simp
    note R = apply_raw_spec [OF link_inv_frame [OF assms(1) same(4)] mode(1) _ _ mode(2) r]
    show ?thesis using R True mode(1) same_other_trans [OF same(3)] by (auto simp: fresh_def)
  qed
qed

lemma stop_spec:
  assumes "link_inv pe pp st w" "crystalhd_l0s_session_stop st w = (rc, st1, w1)"
  shows "link_inv pe pp st1 w1 \<and> same_other w w1 \<and> (rc = rc_ok \<longrightarrow> \<not> ls_raw_active st1) \<and> (fresh st \<longrightarrow> fresh st1) \<and>
    ls_parent st1 = ls_parent st"
proof (cases "ls_session_mode st \<and> ls_session_active st")
  case False
  then show ?thesis using assms by (auto simp: crystalhd_l0s_session_stop_def link_inv_def same_other_def)
next
  case True
  obtain r2 st2 w2 where r: "crystalhd_l0s_restore st w = (r2, st2, w2)" by (cases "crystalhd_l0s_restore st w") auto
  note R = restore_spec [OF assms(1) r]
  have p: "ls_parent st2 = ls_parent st" by (subst R(4)) simp
  have eq: "rc = r2" "w1 = w2" "st1 = (if r2 = rc_ok then forget_baseline (st2\<lparr>ls_session_active := False\<rparr>) else st2)"
    using assms(2) True by (auto simp: crystalhd_l0s_session_stop_def r split: if_splits)
  show ?thesis
  proof (cases "r2 = rc_ok")
    case ok: True
    then have "\<not> ls_raw_active st2" using R(3) by simp
    then show ?thesis using ok eq R(1,2) p by (auto simp: link_inv_def forget_baseline_def fresh_def)
  next
    case False
    then have s: "st1 = st2" "ls_raw_active st2" using eq(3) R(3) by auto
    then show ?thesis using False eq(1,2) R(1,2) p by (simp add: fresh_def)
  qed
qed

lemma suspend_spec:
  assumes "link_inv pe pp st w" "chd_restore_l0s st w = (rc, st1, w1)"
  shows "link_inv pe pp st1 w1 \<and> same_other w w1 \<and> (rc = rc_ok \<longrightarrow> \<not> ls_raw_active st1) \<and> (fresh st \<longrightarrow> fresh st1)"
proof (cases "ls_session_mode st \<and> ls_session_active st")
  case False
  then show ?thesis using assms
    by (auto simp: chd_restore_l0s_def crystalhd_l0s_session_suspend_def crystalhd_l0s_restore_def link_inv_def same_other_def split: if_splits)
next
  case True
  obtain r2 st2 w2 where r: "crystalhd_l0s_restore st w = (r2, st2, w2)" by (cases "crystalhd_l0s_restore st w") auto
  note R = restore_spec [OF assms(1) r]
  have eq: "rc = r2" "w1 = w2" "st1 = (if r2 = rc_ok then forget_baseline st2 else st2)"
    using assms(2) True by (auto simp: chd_restore_l0s_def crystalhd_l0s_session_suspend_def r split: if_splits)
  show ?thesis
  proof (cases "r2 = rc_ok")
    case ok: True
    then have "\<not> ls_raw_active st2" using R(3) by simp
    then show ?thesis using ok eq R(1,2) by (auto simp: link_inv_def forget_baseline_def fresh_def)
  next
    case False
    then have s: "st1 = st2" "ls_raw_active st2" using eq(3) R(3) by auto
    then show ?thesis using False eq(1,2) R(1,2) by (simp add: fresh_def)
  qed
qed

lemma start_spec:
  assumes "link_inv pe pp st w" "fresh st" "ls_session_mode st" "crystalhd_l0s_session_start aspm st w = (rc, st1, w1)"
  shows "link_inv pe pp st1 w1 \<and> same_other w w1 \<and> fresh st1 \<and>
    (rc = rc_ok \<and> ls_parent st \<longrightarrow> ls_raw_active st1 \<and> pc_endpoint w1 AND 1 = 0 \<and> pc_parent w1 AND 1 = 0)"
proof (cases "ls_session_active st \<or> ls_saved st \<or> ls_raw_active st \<or> ls_core_owned st")
  case True
  then show ?thesis using assms by (auto simp: crystalhd_l0s_session_start_def same_other_def)
next
  case False
  let ?st = "st\<lparr>ls_session_active := True\<rparr>"
  obtain r2 st2 w2 where a: "crystalhd_l0s_apply aspm ?st w = (r2, st2, w2)" by (cases "crystalhd_l0s_apply aspm ?st w") auto
  have i: "link_inv pe pp ?st w" "fresh ?st" using assms(1,2) False by (auto simp: link_inv_def fresh_def)
  note A = apply_spec [OF i a]
  have eq: "rc = r2" "w1 = w2" "st1 = (if r2 \<noteq> rc_ok \<and> \<not> ls_raw_active st2 then forget_baseline (st2\<lparr>ls_session_active := False\<rparr>) else st2)"
    using assms(3,4) False by (auto simp: crystalhd_l0s_session_start_def a)
  show ?thesis
  proof (cases "r2 \<noteq> rc_ok \<and> \<not> ls_raw_active st2")
    case True
    then have s: "st1 = forget_baseline (st2\<lparr>ls_session_active := False\<rparr>)" using eq(3) by auto
    have "link_inv pe pp st1 w2" using A True unfolding s by (auto simp: link_inv_def forget_baseline_def)
    then show ?thesis using True A eq(1,2) s by (auto simp: forget_baseline_def fresh_def)
  next
    case False
    then have s: "st1 = st2" "rc = r2 \<and> (r2 = rc_ok \<or> ls_raw_active st2)" using eq by auto
    then show ?thesis using A eq(2) by (auto simp: fresh_def)
  qed
qed

lemma release_spec:
  assumes "link_inv pe pp st w" "crystalhd_l0s_release st w = (rc, st1, w1)"
  shows "link_inv pe pp st1 w1 \<and> \<not> ls_parent st1 \<and> (rc = rc_ok \<longrightarrow> \<not> ls_raw_active st1)"
proof -
  obtain r2 st2 w2 where s: "(if ls_session_mode st then crystalhd_l0s_session_stop st w else crystalhd_l0s_restore st w) = (r2, st2, w2)"
    by (cases "if ls_session_mode st then crystalhd_l0s_session_stop st w else crystalhd_l0s_restore st w") auto
  have R: "link_inv pe pp st2 w2 \<and> (r2 = rc_ok \<longrightarrow> \<not> ls_raw_active st2)"
    using stop_spec [OF assms(1)] restore_spec(1,3) [OF assms(1)] s by (cases "ls_session_mode st") auto
  define st3 where "st3 = (if ls_parent st2 then st2\<lparr>ls_parent := False\<rparr> else st2)"
  define w3 where "w3 = (if ls_parent st2 then w2\<lparr>pc_parent_refs := pc_parent_refs w2 - 1\<rparr> else w2)"
  have i3: "link_inv pe pp st3 w3 \<and> \<not> ls_parent st3 \<and> ls_raw_active st3 = ls_raw_active st2" using R by (auto simp: link_inv_def st3_def w3_def)
  have "(if ls_parent st2 then (st2\<lparr>ls_parent := False\<rparr>, w2\<lparr>pc_parent_refs := pc_parent_refs w2 - 1\<rparr>) else (st2, w2)) = (st3, w3)"
    by (simp add: st3_def w3_def)
  then have eq: "rc = r2" "w1 = w3" "st1 = (if r2 = rc_ok then st3\<lparr>ls_session_mode := False, ls_core_owned := False\<rparr> else st3)"
    using assms(2) unfolding crystalhd_l0s_release_def Let_def s prod.case by auto
  show ?thesis
  proof (cases "r2 = rc_ok")
    case True
    then show ?thesis using i3 R eq by (auto simp: link_inv_def)
  next
    case False
    then have "st1 = st3" using eq(3) by auto
    then show ?thesis using False i3 eq(1,2) by auto
  qed
qed

section \<open>Bus mastering\<close>

lemma command_master: "same_links w (pci_set_command_master on w)"
  by (cases "pci_ask w") (auto simp: pci_set_command_master_def same_links_def dest!: ask_same)

lemma read_command: "pci_read_command w = (rc, c, w1) \<Longrightarrow> same_links w w1 \<and> same_other w w1 \<and> (c = 0xFFFF \<or> c = pc_command w1)"
  by (cases "pci_ask w") (auto simp: pci_read_command_def dest!: ask_same split: if_splits)

lemma drain_spec:
  assumes "chd_dec_clear_master_and_drain w = (b, w1)"
  shows "same_links w w1" "b \<Longrightarrow> \<not> has_flag (pc_command w1) 4"
proof -
  define w2 where "w2 = pci_set_command_master False w"
  obtain r c w3 where r: "pci_read_command w2 = (r, c, w3)" by (cases "pci_read_command w2") auto
  obtain a w4 where a: "pci_ask w3 = (a, w4)" by fastforce
  obtain d w5 where d: "pci_ask w4 = (d, w5)" by fastforce
  have eq: "(b, w1) = (if r \<noteq> Pcibios_Successful \<or> has_flag c 4 then (False, w3) else if \<not> pc_is_pcie w3 then (False, w3)
      else if \<not> pa_applies a then (False, w4) else (pa_rc d = Pcibios_Successful \<and> \<not> has_flag (pa_word d) 0x20, w5))"
    using assms unfolding chd_dec_clear_master_and_drain_def Let_def w2_def [symmetric] r prod.case a d by simp
  have s: "same_links w w2" "same_links w2 w3" "same_links w3 w4" "same_links w4 w5" "same_other w3 w4" "same_other w4 w5"
    using command_master read_command [OF r] ask_same [OF a] ask_same [OF d] by (simp_all add: w2_def)
  show "same_links w w1" using eq s(1-4) by (auto simp: same_links_def split: if_splits)
  have "has_flag (0xFFFF :: u16) 4" by (simp add: has_flag_def)
  then show "\<not> has_flag (pc_command w1) 4" if b using eq that read_command [OF r] s(5,6) by (auto simp: same_other_def split: if_splits)
qed

lemma set_master_spec:
  assumes "chd_dec_set_master_checked w = (rc, w1)"
  shows "same_links w w1" "rc = rc_ok \<Longrightarrow> has_flag (pc_command w1) 4"
proof -
  obtain r c w2 where r: "pci_read_command (pci_set_command_master True w) = (r, c, w2)" by (cases "pci_read_command (pci_set_command_master True w)") auto
  have eq: "w1 = w2" "rc = rc_ok \<longrightarrow> c \<noteq> 0xFFFF \<and> has_flag c 4" using assms by (auto simp: chd_dec_set_master_checked_def r split: if_splits)
  show "same_links w w1" using command_master [of w True] read_command [OF r] eq(1) by (auto simp: same_links_def)
  show "has_flag (pc_command w1) 4" if "rc = rc_ok" using that eq read_command [OF r] by auto
qed

section \<open>The driver's calls\<close>

lemma begin_spec:
  assumes i: "link_inv pe pp st w" and f: "fresh st" and b: "crystalhd_session_l0s_begin aspm off False st w = (rc, st1, w1)"
  shows "link_inv pe pp st1 w1 \<and> fresh st1 \<and>
    (rc = rc_ok \<and> off \<and> ls_parent st \<longrightarrow>
       ls_raw_active st1 \<and> pc_endpoint w1 AND 1 = 0 \<and> pc_parent w1 AND 1 = 0 \<and> has_flag (pc_command w1) 4)"
proof (cases "off \<and> ls_session_mode st")
  case False
  then show ?thesis using assms by (auto simp: crystalhd_session_l0s_begin_def link_inv_def split: if_splits)
next
  case True
  obtain d w2 where d: "chd_dec_clear_master_and_drain w = (d, w2)" by fastforce
  obtain r3 st3 w3 where s: "crystalhd_l0s_session_start aspm st w2 = (r3, st3, w3)" by (cases "crystalhd_l0s_session_start aspm st w2") auto
  obtain r4 w4 where m: "chd_dec_set_master_checked w3 = (r4, w4)" by fastforce
  obtain d5 w5 where d5: "chd_dec_clear_master_and_drain w4 = (d5, w5)" by fastforce
  obtain r6 st6 w6 where p: "crystalhd_l0s_session_stop st3 w5 = (r6, st6, w6)" by (cases "crystalhd_l0s_session_stop st3 w5") auto
  have eq: "(rc, st1, w1) = (if \<not> d then (Some EIO, st, w2) else if r3 \<noteq> rc_ok then (r3, st3, w3) else if r4 = rc_ok then (rc_ok, st3, w4)
      else if \<not> d5 then (Some EIO, st3, w5) else (if r6 \<noteq> rc_ok then r6 else r4, st6, w6))"
    using b True unfolding crystalhd_session_l0s_begin_def Let_def d prod.case s m d5 p by auto
  have i2: "link_inv pe pp st w2" using link_inv_frame [OF i drain_spec(1) [OF d]] .
  note S = start_spec [OF i2 f conjunct2 [OF True] s]
  have i4: "link_inv pe pp st3 w4" using link_inv_frame [OF _ set_master_spec(1) [OF m]] S by blast
  have i5: "link_inv pe pp st3 w5" using link_inv_frame [OF i4 drain_spec(1) [OF d5]] .
  note P = stop_spec [OF i5 p]
  have inv: "link_inv pe pp st1 w1 \<and> fresh st1" using eq i2 f S i4 i5 P by (auto split: if_splits)
  moreover have "ls_raw_active st1 \<and> pc_endpoint w1 AND 1 = 0 \<and> pc_parent w1 AND 1 = 0 \<and> has_flag (pc_command w1) 4" if "rc = rc_ok" "ls_parent st"
  proof -
    have ok: "r3 = rc_ok" "r4 = rc_ok" "st1 = st3" "w1 = w4" using eq that(1) by (auto split: if_splits)
    then show ?thesis using S that(2) set_master_spec [OF m] by (simp add: same_links_def)
  qed
  ultimately show ?thesis by blast
qed

lemma end_spec:
  assumes i: "link_inv pe pp st w" and b: "crystalhd_session_l0s_end off False st w = (rc, st1, w1)"
  shows "link_inv pe pp st1 w1 \<and> (fresh st \<longrightarrow> fresh st1) \<and>
    (rc = rc_ok \<and> off \<and> ls_session_mode st \<longrightarrow> \<not> ls_raw_active st1 \<and> \<not> has_flag (pc_command w1) 4)"
proof (cases "off \<and> ls_session_mode st")
  case False
  then show ?thesis using assms by (auto simp: crystalhd_session_l0s_end_def split: if_splits)
next
  case True
  obtain d w2 where d: "chd_dec_clear_master_and_drain w = (d, w2)" by fastforce
  obtain r3 st3 w3 where s: "crystalhd_l0s_session_stop st w2 = (r3, st3, w3)" by (cases "crystalhd_l0s_session_stop st w2") auto
  have eq: "(rc, st1, w1) = (if \<not> d then (Some EIO, st, w2) else if \<not> ls_session_active st then (rc_ok, st, w2) else (r3, st3, w3))"
    using b True unfolding crystalhd_session_l0s_end_def Let_def d prod.case s by auto
  have i2: "link_inv pe pp st w2" using link_inv_frame [OF i drain_spec(1) [OF d]] .
  have q: "\<not> ls_session_active st \<longrightarrow> \<not> ls_raw_active st" using i by (auto simp: link_inv_def)
  note S = stop_spec [OF i2 s]
  have "link_inv pe pp st1 w1 \<and> (fresh st \<longrightarrow> fresh st1)" using eq i2 S by (auto split: if_splits)
  moreover have "\<not> ls_raw_active st1 \<and> \<not> has_flag (pc_command w1) 4" if "rc = rc_ok"
    using eq that q S drain_spec(2) [OF d] by (auto simp: same_other_def split: if_splits)
  ultimately show ?thesis by blast
qed

lemma suspend_link_spec:
  assumes i: "link_inv pe pp st w" and f: "fresh st" and b: "suspend_link st w = (rc, st1, w1, present)"
  shows "link_inv pe pp st1 w1 \<and> fresh st1 \<and> (rc = rc_ok \<longrightarrow> \<not> ls_raw_active st1 \<and> \<not> has_flag (pc_command w1) 4)"
proof -
  obtain d w2 where d: "chd_dec_clear_master_and_drain w = (d, w2)" by fastforce
  obtain r3 st3 w3 where s: "chd_restore_l0s st w2 = (r3, st3, w3)" by (cases "chd_restore_l0s st w2") auto
  have eq: "(rc, st1, w1, present) = (if \<not> d then (Some EIO, st, w2, False) else (r3, st3, w3, r3 = rc_ok))"
    using b unfolding suspend_link_def Let_def d prod.case s by auto
  have i2: "link_inv pe pp st w2" using link_inv_frame [OF i drain_spec(1) [OF d]] .
  show ?thesis using eq i2 f suspend_spec [OF i2 s] drain_spec(2) [OF d] by (auto simp: same_other_def split: if_splits)
qed

lemma resume_link_spec:
  assumes i: "link_inv pe pp st w" and f: "fresh st" and b: "resume_link aspm ed ei master resumed closed st w = (rc, st1, w1, present)"
  shows "link_inv pe pp st1 w1 \<and> (present \<longrightarrow> fresh st1) \<and>
    (rc = rc_ok \<and> ls_parent st \<and> ls_session_active st \<longrightarrow> ls_raw_active st1 \<and> pc_endpoint w1 AND 1 = 0 \<and> pc_parent w1 AND 1 = 0)"
proof -
  define w2 where "w2 = pci_set_command_master False w"
  obtain r0 st0 w0 where s: "chd_restore_l0s st w2 = (r0, st0, w0)" by (cases "chd_restore_l0s st w2") auto
  obtain r3 st3 w3 where a: "crystalhd_l0s_apply aspm st w2 = (r3, st3, w3)" by (cases "crystalhd_l0s_apply aspm st w2") auto
  obtain r4 w4 where m: "(if master then chd_dec_set_master_checked w3 else (rc_ok, w3)) = (r4, w4)" by fastforce
  define quit where "quit = (\<lambda>(rc::rc) st w. let (_, st1, w1) = (if closed then chd_restore_l0s st w else (rc_ok, st, w)) in (rc, st1, w1, False))"
  have i2: "link_inv pe pp st w2" unfolding w2_def using link_inv_frame [OF i command_master] .
  note A = apply_spec [OF i2 f a]
  have l4: "same_links w3 w4" using m set_master_spec(1) [of w3 r4 w4] by (auto simp: same_links_def split: if_splits)
  have i4: "link_inv pe pp st3 w4" using link_inv_frame [OF _ l4] A by blast
  have quit: "link_inv pe pp st1 w1 \<and> \<not> present \<and> rc = e" if "quit e st' w' = (rc, st1, w1, present)" "link_inv pe pp st' w'" for e st' w'
    using that suspend_spec [OF that(2)] by (cases "chd_restore_l0s st' w'") (auto simp: quit_def split: if_splits)
  have eq: "(rc, st1, w1, present) = (if ed \<noteq> rc_ok then (ed, st0, w0, False) else if r3 \<noteq> rc_ok then quit r3 st3 w3
      else if ei \<noteq> rc_ok then quit ei st3 w3 else if r4 \<noteq> rc_ok then quit r4 st3 w4
      else if \<not> resumed then quit (Some ENODEV) st3 w4 else (rc_ok, st3, w4, True))"
    using b unfolding resume_link_def Let_def w2_def [symmetric] s a prod.case m quit_def by auto
  consider "ed \<noteq> rc_ok" "(rc, st1, w1, present) = (ed, st0, w0, False)" | "ed = rc_ok" "\<exists>e. e \<noteq> rc_ok \<and> quit e st3 w3 = (rc, st1, w1, present)"
    | "\<exists>e. e \<noteq> rc_ok \<and> quit e st3 w4 = (rc, st1, w1, present)" | "r3 = rc_ok" "(rc, st1, w1, present) = (rc_ok, st3, w4, True)"
    using eq by (metis option.distinct(1))
  then show ?thesis
  proof cases
    case 1
    then show ?thesis using suspend_spec [OF i2 s] by auto
  next
    case 2
    then show ?thesis using quit A by blast
  next
    case 3
    then show ?thesis using quit i4 by blast
  next
    case 4
    then show ?thesis using A i4 l4 by (simp add: same_links_def)
  qed
qed

section \<open>Histories\<close>

definition l0s_inv :: "l0s_sys \<Rightarrow> bool" where
  "l0s_inv x \<longleftrightarrow> link_inv (lx_platform_endpoint x) (lx_platform_parent x) (lx_state x) (lx_pci x) \<and> (lx_present x \<longrightarrow> fresh (lx_state x))"

lemma answers_inv: "l0s_inv x \<Longrightarrow> link_inv (lx_platform_endpoint x) (lx_platform_parent x) (lx_state x) (with_answers as x)"
  by (simp add: l0s_inv_def with_answers_def link_inv_def)

text \<open>What a successful call has achieved.\<close>

fun l0s_promise :: "bool \<Rightarrow> l0s_op \<Rightarrow> l0s_sys \<Rightarrow> l0s_sys \<Rightarrow> bool" where
  "l0s_promise off (L0s_Begin as) x y \<longleftrightarrow> off \<and> ls_parent (lx_state x) \<longrightarrow>
     ls_raw_active (lx_state y) \<and> pc_endpoint (lx_pci y) AND 1 = 0 \<and> pc_parent (lx_pci y) AND 1 = 0 \<and> has_flag (pc_command (lx_pci y)) 4"
| "l0s_promise off (L0s_End as) x y \<longleftrightarrow> off \<and> ls_session_mode (lx_state x) \<longrightarrow>
     \<not> ls_raw_active (lx_state y) \<and> \<not> has_flag (pc_command (lx_pci y)) 4"
| "l0s_promise off (L0s_Suspend as) x y \<longleftrightarrow> \<not> ls_raw_active (lx_state y) \<and> \<not> has_flag (pc_command (lx_pci y)) 4"
| "l0s_promise off (L0s_Resume ed ei m r c as) x y \<longleftrightarrow> ls_parent (lx_state x) \<and> ls_session_active (lx_state x) \<longrightarrow>
     ls_raw_active (lx_state y) \<and> pc_endpoint (lx_pci y) AND 1 = 0 \<and> pc_parent (lx_pci y) AND 1 = 0"
| "l0s_promise off (L0s_Release as) x y \<longleftrightarrow> \<not> ls_raw_active (lx_state y) \<and> pc_parent_refs (lx_pci y) = 0"
| "l0s_promise off (L0s_Platform e p) x y \<longleftrightarrow> True"

lemma l0s_step_spec:
  assumes "l0s_inv x"
  shows "\<exists>rc y. l0s_step aspm off op x = Some (rc, y) \<and> l0s_inv y \<and> (rc = rc_ok \<longrightarrow> l0s_promise off op x y)"
proof (cases op)
  case (L0s_Begin as)
  obtain rc st w where r: "crystalhd_session_l0s_begin aspm off False (lx_state x) (with_answers as x) = (rc, st, w)"
    by (cases "crystalhd_session_l0s_begin aspm off False (lx_state x) (with_answers as x)") auto
  show ?thesis using begin_spec [OF answers_inv [OF assms] _ r] assms L0s_Begin by (cases "lx_present x") (auto simp: r l0s_inv_def)
next
  case (L0s_End as)
  obtain rc st w where r: "crystalhd_session_l0s_end off False (lx_state x) (with_answers as x) = (rc, st, w)"
    by (cases "crystalhd_session_l0s_end off False (lx_state x) (with_answers as x)") auto
  show ?thesis using end_spec [OF answers_inv [OF assms] r] assms L0s_End by (auto simp: r l0s_inv_def)
next
  case (L0s_Suspend as)
  obtain rc st w p where r: "suspend_link (lx_state x) (with_answers as x) = (rc, st, w, p)"
    by (cases "suspend_link (lx_state x) (with_answers as x)") auto
  show ?thesis using suspend_link_spec [OF answers_inv [OF assms] _ r] assms L0s_Suspend by (cases "lx_present x") (auto simp: r l0s_inv_def)
next
  case (L0s_Resume ed ei m b c as)
  obtain rc st w p where r: "resume_link aspm ed ei m b c (lx_state x) (with_answers as x) = (rc, st, w, p)"
    by (cases "resume_link aspm ed ei m b c (lx_state x) (with_answers as x)") auto
  show ?thesis using resume_link_spec [OF answers_inv [OF assms] _ r] assms L0s_Resume by (cases "lx_present x") (auto simp: r l0s_inv_def)
next
  case (L0s_Release as)
  obtain rc st w where r: "crystalhd_l0s_release (lx_state x) (with_answers as x) = (rc, st, w)"
    by (cases "crystalhd_l0s_release (lx_state x) (with_answers as x)") auto
  show ?thesis using release_spec [OF answers_inv [OF assms] r] L0s_Release by (auto simp: r l0s_inv_def link_inv_def)
next
  case (L0s_Platform e p)
  then show ?thesis using assms by (auto simp: l0s_inv_def link_inv_def)
qed

interpretation link: call_history "l0s_step aspm off" "\<lambda>_. True" l0s_inv for aspm off
  by unfold_locales (use l0s_step_spec in blast)

text \<open>The adapter after probe, with the platform's choice in the registers.\<close>

definition l0s_zero :: crystalhd_l0s_state where
  "l0s_zero = \<lparr>ls_parent = False, ls_endpoint_l0s = 0, ls_parent_l0s = 0, ls_saved = False, ls_raw_active = False,
     ls_core_owned = False, ls_session_mode = False, ls_session_active = False\<rparr>"

definition l0s_probe :: "pci_topology \<Rightarrow> bool \<Rightarrow> pci_config \<Rightarrow> rc \<times> l0s_sys" where
  "l0s_probe tp off w =
    (let (rc, st, w1) = crystalhd_l0s_session_init tp off l0s_zero w
     in (rc, \<lparr>lx_state = st, lx_pci = w1, lx_present = True, lx_platform_endpoint = pc_endpoint w, lx_platform_parent = pc_parent w\<rparr>))"

lemma walk_found: "bc_found (pci_walk_bus ds c) \<and> \<not> bc_shared (pci_walk_bus ds c) \<longrightarrow> (\<forall>d\<in>set ds. d = 0) \<and> \<not> bc_shared c"
proof (induction ds arbitrary: c)
  case (Cons d ds)
  show ?case using Cons.IH [of "c\<lparr>bc_found := True\<rparr>"] by (simp add: crystalhd_l0s_check_child_def)
qed simp

lemma probe_inv:
  assumes "pc_parent_refs w = 0" "l0s_probe tp off w = (rc_ok, x)"
  shows "l0s_inv x" "ls_parent (lx_state x) = off" "ls_session_mode (lx_state x) = off"
    "off \<longrightarrow> (\<forall>d\<in>set (tp_children tp). d = 0)"
proof -
  let ?z = "\<lparr>bc_found = False, bc_shared = False\<rparr>"
  obtain rc st w1 where a: "crystalhd_l0s_attach tp off l0s_zero w = (rc, st, w1)" by (cases "crystalhd_l0s_attach tp off l0s_zero w") auto
  have x: "rc = rc_ok" "x = \<lparr>lx_state = (if off then st\<lparr>ls_session_mode := True\<rparr> else st), lx_pci = w1, lx_present = True,
      lx_platform_endpoint = pc_endpoint w, lx_platform_parent = pc_parent w\<rparr>"
    using assms(2) by (auto simp: l0s_probe_def crystalhd_l0s_session_init_def a split: if_splits)
  have at: "off \<and> st = l0s_zero\<lparr>ls_parent := True\<rparr> \<and> w1 = w\<lparr>pc_parent_refs := 1\<rparr> \<and> bc_found (pci_walk_bus (tp_children tp) ?z) \<and> \<not> bc_shared (pci_walk_bus (tp_children tp) ?z)
      \<or> \<not> off \<and> st = l0s_zero \<and> w1 = w"
    using a x(1) assms(1) by (auto simp: crystalhd_l0s_attach_def Let_def split: if_splits option.splits prod.splits)
  show "l0s_inv x" "ls_parent (lx_state x) = off" "ls_session_mode (lx_state x) = off"
    using at assms(1) unfolding x(2) by (auto simp: l0s_inv_def link_inv_def fresh_def l0s_zero_def)
  show "off \<longrightarrow> (\<forall>d\<in>set (tp_children tp). d = 0)" using at walk_found [of "tp_children tp" ?z] by blast
qed

section \<open>Property\<close>

text \<open>
  C22: The L0s override is scoped to sessions. Take a driver that probed with session-scoped L0s control and
  any history of session begins and ends, suspends, resumes and release, in which every configuration access
  may fail, be lost or take effect with an error, and in which the platform changes its own policy whenever no
  override is in place. Without an override both link control registers hold exactly what the platform chose;
  with one only the L0s bits may differ and the saved bits are the platform's; the device is alone on the link.
  A begin that succeeds leaves L0s off at both ends with bus mastering on; an end or suspend that succeeds
  leaves no override and bus mastering off; a release that succeeds leaves no override and no reference to the port.
\<close>

theorem l0s_override_scoped:
  assumes "l0s_probe tp True w = (rc_ok, x0)" "pc_parent_refs w = 0"
  shows "\<exists>rs x. run_ops (l0s_step aspm True) ops x0 = Some (rs, x) \<and> length rs = length ops \<and>
    (\<forall>d\<in>set (tp_children tp). d = 0) \<and>
    (\<not> ls_raw_active (lx_state x) \<longrightarrow> pc_endpoint (lx_pci x) = lx_platform_endpoint x \<and> pc_parent (lx_pci x) = lx_platform_parent x) \<and>
    (ls_raw_active (lx_state x) \<longrightarrow> ls_session_active (lx_state x) \<and>
       ls_endpoint_l0s (lx_state x) = lx_platform_endpoint x AND 1 \<and> ls_parent_l0s (lx_state x) = lx_platform_parent x AND 1) \<and>
    pc_endpoint (lx_pci x) AND NOT 1 = lx_platform_endpoint x AND NOT 1 \<and> pc_parent (lx_pci x) AND NOT 1 = lx_platform_parent x AND NOT 1 \<and>
    (\<forall>op rc y. l0s_step aspm True op x = Some (rc, y) \<longrightarrow> rc = rc_ok \<longrightarrow> l0s_promise True op x y)"
proof -
  note p = probe_inv [OF assms(2,1)]
  from link.run_total [OF p(1)] obtain rs x where r: "run_ops (l0s_step aspm True) ops x0 = Some (rs, x)" and i: "l0s_inv x" and l: "length rs = length ops" by blast
  have "l0s_promise True op x y" if "l0s_step aspm True op x = Some (rc_ok, y)" for op y
    using l0s_step_spec [OF i, of aspm True op] that by auto
  then show ?thesis using r l p(4) i unfolding l0s_inv_def link_inv_def by blast
qed

text \<open>A session across a suspend, after which the platform has another policy.\<close>

definition l0s_demo_topology :: pci_topology where
  "l0s_demo_topology = \<lparr>tp_vendor = 0x14E4, tp_device = 0x1615, tp_is_pcie = True, tp_type = PCI_EXP_TYPE_ENDPOINT, tp_multifunction = False,
     tp_devfn = 0, tp_bus = True, tp_self = Some (True, PCI_EXP_TYPE_ROOT_PORT, True), tp_children = [0]\<rparr>"

definition l0s_demo_config :: pci_config where
  "l0s_demo_config = \<lparr>pc_endpoint = 0x43, pc_parent = 0x41, pc_command = 6, pc_is_pcie = True, pc_parent_refs = 0, pc_answers = []\<rparr>"

theorem l0s_override_scoped_witness:
  "\<exists>x0 rs x. l0s_probe l0s_demo_topology True l0s_demo_config = (rc_ok, x0) \<and>
     run_ops (l0s_step True True) [L0s_Begin [], L0s_Suspend [], L0s_Platform 0x42 0x41, L0s_Resume rc_ok rc_ok True True True [], L0s_End []] x0 = Some (rs, x) \<and>
     length rs = 5"
proof -
  have "fst (l0s_probe l0s_demo_topology True l0s_demo_config) = rc_ok" by code_simp
  then obtain x0 where x0: "l0s_probe l0s_demo_topology True l0s_demo_config = (rc_ok, x0)" by (metis prod.collapse)
  have "pc_parent_refs l0s_demo_config = 0" by (simp add: l0s_demo_config_def)
  from l0s_override_scoped [OF x0 this, of True "[L0s_Begin [], L0s_Suspend [], L0s_Platform 0x42 0x41, L0s_Resume rc_ok rc_ok True True True [], L0s_End []]"]
  show ?thesis using x0 by fastforce
qed

end
