(* ===== verification/Retained_Rx.thy ===== *)
theory Retained_Rx
  imports Chd_Prelude
begin

text \<open>
  Ownership of capture memory (\<^verbatim>\<open>driver/linux/crystalhd_cmds.c\<close>, with \<^verbatim>\<open>crystalhd_hw_stop_capture_locked\<close> of
  \<^verbatim>\<open>crystalhd_hw.c\<close>): pages of the application that the device writes pictures into. A legacy buffer is pinned for
  one picture. A retained buffer is registered once and then passed between the device and the application by
  fetch and repost, under a key that names its registration, generation and lease, until it is retired. The
  registry lock makes each retained call one transformation; legacy calls run beside it between their entry and
  their leave. Three lists say who has a buffer. \<open>rx_owned\<close> is what the driver holds for the device, whichever
  queue of the hardware layer it is in, and \<open>rx_pinned\<close> what is pinned; both change only where the code moves a
  packet or a page. \<open>rx_dma\<close> is the state of the hardware, the memory its engines may still write: a post adds
  to it, a completion takes away, and only engines that stopped, or a bus that is drained, empty it. A stop
  that fails leaves it as it is, whatever the code then does with its queues. Following a pointer to a freed
  entry has no result.
\<close>

section \<open>Data\<close>

record rx_registration =
  rk_registration_id :: u64
  rk_capture_generation :: u64
  rk_borrow_sequence :: u64
  rk_user_address :: u64
  rk_operation :: u32
  rk_flags :: u32
  rk_capacity :: u32
  rk_uv_offset :: u32
  rk_output_format :: u32
  rk_state :: u32
  rk_reserved :: "u32 \<times> u32"

abbreviation (input) BC_RX_LIST_CNT :: nat where "BC_RX_LIST_CNT \<equiv> 16"
abbreviation (input) BC_LINK_MAX_OPENS :: nat where "BC_LINK_MAX_OPENS \<equiv> 3"
abbreviation (input) BC_RX_REGISTER :: u32 where "BC_RX_REGISTER \<equiv> 1"
abbreviation (input) BC_RX_FETCH :: u32 where "BC_RX_FETCH \<equiv> 2"
abbreviation (input) BC_RX_REPOST :: u32 where "BC_RX_REPOST \<equiv> 3"
abbreviation (input) BC_RX_RETIRE :: u32 where "BC_RX_RETIRE \<equiv> 4"
abbreviation (input) BC_RX_QUEUED :: u32 where "BC_RX_QUEUED \<equiv> 1"
abbreviation (input) BC_RX_BORROWED :: u32 where "BC_RX_BORROWED \<equiv> 2"
abbreviation (input) BC_RX_RETIRED :: u32 where "BC_RX_RETIRED \<equiv> 3"
abbreviation (input) COMP_FLAG_FMT_CHANGE :: u32 where "COMP_FLAG_FMT_CHANGE \<equiv> 1"
abbreviation (input) COMP_FLAG_PIB_VALID :: u32 where "COMP_FLAG_PIB_VALID \<equiv> 2"
abbreviation (input) MODE420 :: u32 where "MODE420 \<equiv> 0"
abbreviation (input) LINK_INIT :: u32 where "LINK_INIT \<equiv> 1"
abbreviation (input) LINK_CAP_EN :: u32 where "LINK_CAP_EN \<equiv> 2"
abbreviation (input) LINK_FMT_CHG :: u32 where "LINK_FMT_CHG \<equiv> 4"
abbreviation (input) LINK_SUSPEND :: u32 where "LINK_SUSPEND \<equiv> 0x10"
abbreviation (input) LINK_PAUSED :: u32 where "LINK_PAUSED \<equiv> 0x20"
abbreviation (input) LINK_RESUME :: u32 where "LINK_RESUME \<equiv> 0x40"
abbreviation (input) LINK_READY :: u32 where "LINK_READY \<equiv> 7"

text \<open>\<open>en_id\<close> is the memory of the entry, which is the cookie of its buffer.\<close>

record retained_rx_entry =
  en_id :: nat
  en_key :: rx_registration
  en_capture_epoch :: u64
  en_state :: u32

record retained_rx_registry =
  rr_file_owner :: nat
  rr_file_epoch :: u64
  rr_user :: nat
  rr_generation :: u64
  rr_stale :: bool
  rr_entries :: "retained_rx_entry option list"

datatype rx_owner = Rx_Entry nat | Rx_Legacy nat

record rx_ctx =
  rx_state :: u32
  rx_session_owner :: "nat option"
  rx_serial :: u64
  rx_legacy_active :: u32
  rx_retained :: "retained_rx_registry option"
  rx_cancel_epoch :: u64
  rx_dma_fault :: bool
  rx_quiesced :: bool
  rx_owned :: "rx_owner list"
  rx_pinned :: "rx_owner list"
  rx_dma :: "rx_owner list"

text \<open>The caller of an ioctl: its file, epoch and user slot, and whether it waits.\<close>

record rx_call =
  ic_file_owner :: "nat option"
  ic_file_epoch :: u64
  ic_u_id :: nat
  ic_timeout :: u32

record rx_frame =
  fr_flags :: u32
  fr_pib :: "nat option"
  fr_yuv_buff :: u64
  fr_yuv_size :: u32
  fr_uv_offset :: u32
  fr_422_mode :: u32
  fr_y_done :: u32
  fr_uv_done :: u32

record rx_completion =
  cp_owner :: rx_owner
  cp_flags :: u32
  cp_capture_epoch :: u64
  cp_pib :: nat
  cp_y_done :: u32
  cp_uv_done :: u32

text \<open>
  Answers of the kernel and the hardware layer. A dequeue fails, and may then have given back a buffer
  of a cancelled epoch, or completes the buffer at a position of what is ready, that is held and no longer written.
\<close>

datatype dequeue_answer = Dq_Fail bc_status "nat option" | Dq_Done nat u32 u64 nat u32 u32

datatype desc_answer = Desc_Ok | Desc_Inv_Arg | Desc_Not_Impl | Desc_Insuff_Res

record rx_answer =
  ra_kzalloc :: bool
  ra_entry :: "nat option"
  ra_map :: bc_status
  ra_unmap :: "nat \<Rightarrow> bc_status"
  ra_interrupted :: bool
  ra_bad_buffer :: bool
  ra_packet :: bool
  ra_desc :: desc_answer
  ra_paused :: bool
  ra_post :: bc_status
  ra_queued :: bool
  ra_idle :: bool
  ra_dequeue :: dequeue_answer
  ra_no_queues :: bool
  ra_stop_fault :: bool
  ra_notify :: bool
  ra_start :: bc_status
  ra_close :: bool

section \<open>The hardware layer\<close>

fun find_entry :: "(retained_rx_entry \<Rightarrow> bool) \<Rightarrow> retained_rx_entry option list \<Rightarrow> nat \<Rightarrow> (nat \<times> retained_rx_entry) option" where
  "find_entry P [] i = None"
| "find_entry P (None # es) i = find_entry P es (i + 1)"
| "find_entry P (Some e # es) i = (if P e then Some (i, e) else find_entry P es (i + 1))"

definition set_entry :: "nat \<Rightarrow> retained_rx_entry option \<Rightarrow> rx_ctx \<Rightarrow> rx_ctx" where
  "set_entry i e c = c\<lparr>rx_retained := map_option (\<lambda>r. r\<lparr>rr_entries := (rr_entries r)[i := e]\<rparr>) (rx_retained c)\<rparr>"

definition set_stale :: "rx_ctx \<Rightarrow> rx_ctx" where
  "set_stale c = c\<lparr>rx_retained := map_option (\<lambda>r. r\<lparr>rr_stale := True\<rparr>) (rx_retained c)\<rparr>"

definition entries_of :: "rx_ctx \<Rightarrow> retained_rx_entry option list" where
  "entries_of c = (case rx_retained c of None \<Rightarrow> [] | Some r \<Rightarrow> rr_entries r)"

definition crystalhd_retained_detach :: "nat \<Rightarrow> rx_ctx \<Rightarrow> rx_ctx option" where
  "crystalhd_retained_detach eid c =
    (case find_entry (\<lambda>e. en_id e = eid) (entries_of c) 0 of None \<Rightarrow> None
     | Some (i, e) \<Rightarrow> Some (set_entry i (Some (e\<lparr>en_state := 0\<rparr>)) c))"

text \<open>The release of a buffer's owner: a retained entry is detached, a legacy buffer is unmapped and unpinned.\<close>

fun crystalhd_rx_buffer_release :: "rx_owner \<Rightarrow> rx_ctx \<Rightarrow> rx_ctx option" where
  "crystalhd_rx_buffer_release (Rx_Entry eid) c = crystalhd_retained_detach eid c"
| "crystalhd_rx_buffer_release (Rx_Legacy b) c =
    (if Rx_Legacy b \<in> set (rx_pinned c) then Some (c\<lparr>rx_pinned := remove1 (Rx_Legacy b) (rx_pinned c)\<rparr>) else None)"

fun release_all :: "rx_owner list \<Rightarrow> rx_ctx \<Rightarrow> rx_ctx option" where
  "release_all [] c = Some c"
| "release_all (b # bs) c = do { c1 \<leftarrow> crystalhd_rx_buffer_release b c; release_all bs c1 }"

text \<open>
  Adding a buffer: its fields are checked, a packet is taken from the pool and its descriptors are built, each of
  which may fail. The buffer is held on success and when posting reports that it was queued for a retry; the
  engines have it when it was posted with success.
\<close>

fun desc_status :: "desc_answer \<Rightarrow> bc_status" where
  "desc_status Desc_Ok = BC_STS_SUCCESS"
| "desc_status Desc_Inv_Arg = BC_STS_INV_ARG"
| "desc_status Desc_Not_Impl = BC_STS_NOT_IMPL"
| "desc_status Desc_Insuff_Res = BC_STS_INSUFF_RES"

definition crystalhd_hw_add_cap_buffer :: "rx_answer \<Rightarrow> bool \<Rightarrow> rx_owner \<Rightarrow> rx_ctx \<Rightarrow> bc_status \<times> rx_ctx" where
  "crystalhd_hw_add_cap_buffer a en_post b c =
    (if ra_bad_buffer a then (BC_STS_INV_ARG, c)
     else if rx_dma_fault c then (BC_STS_IO_ERROR, c)
     else if \<not> ra_packet a then (BC_STS_INSUFF_RES, c)
     else if desc_status (ra_desc a) \<noteq> BC_STS_SUCCESS then (desc_status (ra_desc a), c)
     else
       let posted = (en_post \<and> \<not> ra_paused a);
           sts = (if posted then ra_post a else if ra_queued a then BC_STS_SUCCESS else BC_STS_INSUFF_RES)
       in (sts, if sts = BC_STS_SUCCESS \<or> sts = BC_STS_BUSY
                then c\<lparr>rx_owned := rx_owned c @ [b], rx_dma := (if posted \<and> sts = BC_STS_SUCCESS then rx_dma c @ [b] else rx_dma c)\<rparr>
                else c))"

text \<open>\<open>ra_idle\<close> is the state of the two lists and of the packet pool; a packet with a buffer is in \<open>rx_owned\<close>.\<close>

definition crystalhd_hw_rx_idle :: "rx_answer \<Rightarrow> rx_ctx \<Rightarrow> bool" where
  "crystalhd_hw_rx_idle a c \<longleftrightarrow> \<not> rx_dma_fault c \<and> ra_idle a \<and> rx_owned c = []"

text \<open>The engines obey a stop, or report a fault and may go on writing.\<close>

definition stop_rx_dma_engines :: "rx_answer \<Rightarrow> rx_ctx \<Rightarrow> rx_ctx" where
  "stop_rx_dma_engines a c = (if ra_stop_fault a then c\<lparr>rx_dma_fault := True\<rparr> else c\<lparr>rx_dma := []\<rparr>)"

definition crystalhd_hw_stop_capture_locked :: "rx_answer \<Rightarrow> bool \<Rightarrow> rx_ctx \<Rightarrow> (bc_status \<times> rx_ctx) option" where
  "crystalhd_hw_stop_capture_locked a unmap c =
    (if rx_dma_fault c then Some (BC_STS_IO_ERROR, c)
     else if ra_no_queues a \<and> rx_owned c = [] then Some (BC_STS_SUCCESS, c)
     else
       let c1 = (if unmap then c\<lparr>rx_cancel_epoch := rx_cancel_epoch c + 1\<rparr> else c);
           c2 = stop_rx_dma_engines a c1
       in if rx_dma_fault c2 then Some (BC_STS_IO_ERROR, c2)
          else if \<not> unmap then Some (BC_STS_SUCCESS, c2)
          else do { c3 \<leftarrow> release_all (rx_owned c2) (c2\<lparr>rx_owned := []\<rparr>); Some (BC_STS_SUCCESS, c3) })"

definition crystalhd_hw_retire_rx_quiesced :: "rx_ctx \<Rightarrow> rx_ctx option" where
  "crystalhd_hw_retire_rx_quiesced c = release_all (rx_owned c) (c\<lparr>rx_cancel_epoch := rx_cancel_epoch c + 1, rx_owned := []\<rparr>)"

section \<open>Submission and completion\<close>

definition crystalhd_rx_submit :: "rx_answer \<Rightarrow> rx_owner \<Rightarrow> rx_ctx \<Rightarrow> bc_status \<times> rx_ctx" where
  "crystalhd_rx_submit a b c =
    (if ra_interrupted a then (BC_STS_IO_USER_ABORT, c)
     else let (sts, c1) = crystalhd_hw_add_cap_buffer a (rx_state c = LINK_READY) b c in (if sts = BC_STS_BUSY then BC_STS_SUCCESS else sts, c1))"

definition rx_ready :: "rx_ctx \<Rightarrow> rx_owner list" where
  "rx_ready c = filter (\<lambda>b. b \<notin> set (rx_dma c)) (rx_owned c)"

definition crystalhd_rx_dequeue_common :: "rx_answer \<Rightarrow> rx_ctx \<Rightarrow> ((bc_status + rx_completion) \<times> rx_ctx) option" where
  "crystalhd_rx_dequeue_common a c =
    (if has_flag (rx_state c) LINK_SUSPEND then Some (Inl BC_STS_PWR_MGMT, c)
     else if \<not> has_flag (rx_state c) LINK_CAP_EN then Some (Inl BC_STS_ERR_USAGE, c)
     else if ra_interrupted a then Some (Inl BC_STS_IO_USER_ABORT, c)
     else (case ra_dequeue a of
         Dq_Fail sts gone \<Rightarrow>
           (case gone of
              None \<Rightarrow> Some (Inl sts, c)
            | Some i \<Rightarrow>
                if \<not> rx_dma_fault c \<and> i < length (rx_ready c)
                then do { c1 \<leftarrow> crystalhd_rx_buffer_release (rx_ready c ! i) (c\<lparr>rx_owned := remove1 (rx_ready c ! i) (rx_owned c)\<rparr>);
                          Some (Inl sts, c1) }
                else Some (Inl sts, c))
       | Dq_Done i flags epoch pib y uv \<Rightarrow>
           if rx_dma_fault c then Some (Inl BC_STS_IO_ERROR, c)
           else if i < length (rx_ready c)
           then let b = rx_ready c ! i
                in Some (Inr \<lparr>cp_owner = b, cp_flags = flags, cp_capture_epoch = epoch, cp_pib = pib, cp_y_done = y, cp_uv_done = uv\<rparr>,
                         c\<lparr>rx_owned := remove1 b (rx_owned c)\<rparr>)
           else Some (Inl BC_STS_NO_DATA, c)))"

definition crystalhd_rx_ack_format :: "rx_answer \<Rightarrow> rx_completion \<Rightarrow> rx_ctx \<Rightarrow> (bc_status \<times> rx_ctx) option" where
  "crystalhd_rx_ack_format a result c =
    (let b = cp_owner result;
         give_up = (\<lambda>sts c. do { c1 \<leftarrow> crystalhd_rx_buffer_release b c; Some (sts, c1) })
     in if ra_interrupted a then give_up BC_STS_IO_USER_ABORT c
        else if cp_capture_epoch result \<noteq> rx_cancel_epoch c \<or> \<not> has_flag (rx_state c) LINK_CAP_EN then give_up BC_STS_IO_USER_ABORT c
        else
          let (sts, c1) = crystalhd_hw_add_cap_buffer a False b c
          in if sts \<noteq> BC_STS_SUCCESS then give_up sts c1
             else
               let c2 = c1\<lparr>rx_state := rx_state c1 OR LINK_FMT_CHG\<rparr>;
                   sts2 = (if rx_state c2 = LINK_READY then ra_start a else BC_STS_SUCCESS)
               in Some (if sts2 = BC_STS_NO_DATA then BC_STS_SUCCESS else sts2, c2))"

definition bc_cproc_check_inbuffs :: "bool \<Rightarrow> u64 \<Rightarrow> u32 \<Rightarrow> u32 \<Rightarrow> bool \<Rightarrow> bc_status" where
  "bc_cproc_check_inbuffs pin ubuff ub_sz uv_off en_422 =
    (if ubuff = 0 \<or> ub_sz = 0 then BC_STS_INV_ARG
     else if ubuff AND 3 \<noteq> 0 then BC_STS_NOT_IMPL
     else if pin then BC_STS_SUCCESS
     else if \<not> en_422 \<and> uv_off = 0 then BC_STS_INV_ARG
     else if en_422 \<and> uv_off \<noteq> 0 then BC_STS_INV_ARG
     else BC_STS_SUCCESS)"

section \<open>Legacy calls\<close>

definition crystalhd_legacy_rx_enter :: "rx_ctx \<Rightarrow> bool \<times> rx_ctx" where
  "crystalhd_legacy_rx_enter c =
    (let allowed = (rx_retained c = None \<and> rx_legacy_active c \<noteq> 0xFFFFFFFF)
     in (allowed, if allowed then c\<lparr>rx_legacy_active := rx_legacy_active c + 1\<rparr> else c))"

definition crystalhd_legacy_rx_leave :: "rx_ctx \<Rightarrow> rx_ctx" where
  "crystalhd_legacy_rx_leave c = c\<lparr>rx_legacy_active := rx_legacy_active c - 1\<rparr>"

text \<open>\<open>b\<close> is the mapping the allocator hands out, if it has one.\<close>

definition bc_cproc_add_cap_buff_legacy :: "rx_answer \<Rightarrow> nat \<Rightarrow> u64 \<Rightarrow> u32 \<Rightarrow> u32 \<Rightarrow> u32 \<Rightarrow> rx_ctx \<Rightarrow> (bc_status \<times> rx_ctx) option" where
  "bc_cproc_add_cap_buff_legacy a b ubuff ub_sz uv_off output_format c =
    (let sts = bc_cproc_check_inbuffs False ubuff ub_sz uv_off (output_format \<noteq> MODE420)
     in if sts \<noteq> BC_STS_SUCCESS then Some (sts, c)
        else if ra_map a \<noteq> BC_STS_SUCCESS then Some (ra_map a, c)
        else
          let c1 = c\<lparr>rx_pinned := rx_pinned c @ [Rx_Legacy b]\<rparr>;
              (sts, c2) = crystalhd_rx_submit a (Rx_Legacy b) c1
          in if sts \<noteq> BC_STS_SUCCESS then do { c3 \<leftarrow> crystalhd_rx_buffer_release (Rx_Legacy b) c2; Some (sts, c3) }
             else Some (BC_STS_SUCCESS, c2))"

definition bc_cproc_fetch_frame_legacy :: "rx_answer \<Rightarrow> rx_ctx \<Rightarrow> (bc_status \<times> rx_ctx) option" where
  "bc_cproc_fetch_frame_legacy a c = do {
     (r, c1) \<leftarrow> crystalhd_rx_dequeue_common a c;
     (case r of
        Inl sts \<Rightarrow> Some (sts, c1)
      | Inr result \<Rightarrow>
          if has_flag (cp_flags result) COMP_FLAG_FMT_CHANGE then crystalhd_rx_ack_format a result c1
          else (case cp_owner result of
              Rx_Entry e \<Rightarrow> do { c2 \<leftarrow> crystalhd_rx_buffer_release (cp_owner result) c1; Some (BC_STS_IO_ERROR, c2) }
            | Rx_Legacy b \<Rightarrow> do { c2 \<leftarrow> crystalhd_rx_buffer_release (cp_owner result) c1; Some (BC_STS_SUCCESS, c2) })) }"

section \<open>The registry\<close>

text \<open>The mapping of an entry goes away; the status is the unmapping's answer.\<close>

definition unmap_entry :: "bc_status \<Rightarrow> nat \<Rightarrow> rx_ctx \<Rightarrow> rx_ctx" where
  "unmap_entry sts eid c = (if sts = BC_STS_SUCCESS then c\<lparr>rx_pinned := remove1 (Rx_Entry eid) (rx_pinned c)\<rparr> else c)"

fun unmap_entries :: "(nat \<Rightarrow> bc_status) \<Rightarrow> nat \<Rightarrow> retained_rx_entry option list \<Rightarrow> rx_ctx \<Rightarrow> bool \<times> rx_ctx" where
  "unmap_entries unmap i [] c = (True, c)"
| "unmap_entries unmap i (None # es) c = unmap_entries unmap (i + 1) es c"
| "unmap_entries unmap i (Some e # es) c =
    (if unmap i \<noteq> BC_STS_SUCCESS then (False, c)
     else unmap_entries unmap (i + 1) es (set_entry i None (unmap_entry BC_STS_SUCCESS (en_id e) c)))"

definition retained_cleanup :: "rx_answer \<Rightarrow> bool \<Rightarrow> rx_ctx \<Rightarrow> bool \<times> rx_ctx" where
  "retained_cleanup a destroy c =
    (case rx_retained c of None \<Rightarrow> (True, c)
     | Some r \<Rightarrow>
       if find_entry (\<lambda>e. en_state e = BC_RX_QUEUED) (rr_entries r) 0 \<noteq> None then (False, c)
       else
         let (ok, c1) = unmap_entries (ra_unmap a) 0 (rr_entries r) c
         in if \<not> ok then (False, c1)
            else if destroy then (True, c1\<lparr>rx_retained := None\<rparr>)
            else if rx_serial c1 = - 1 then (True, c1\<lparr>rx_retained := map_option (\<lambda>r. r\<lparr>rr_stale := True\<rparr>) (rx_retained c1)\<rparr>)
            else (True, c1\<lparr>rx_serial := rx_serial c1 + 1,
                          rx_retained := map_option (\<lambda>r. r\<lparr>rr_stale := False, rr_generation := rx_serial c1 + 1\<rparr>) (rx_retained c1)\<rparr>))"

definition crystalhd_retained_no_owners :: "rx_answer \<Rightarrow> rx_ctx \<Rightarrow> bool" where
  "crystalhd_retained_no_owners a c \<longleftrightarrow> rx_legacy_active c = 0 \<and> crystalhd_hw_rx_idle a c"

definition crystalhd_retained_owner :: "rx_call \<Rightarrow> rx_ctx \<Rightarrow> bool" where
  "crystalhd_retained_owner ic c =
    (case rx_retained c of None \<Rightarrow> False
     | Some r \<Rightarrow> ic_u_id ic < BC_LINK_MAX_OPENS \<and> ic_file_owner ic \<noteq> None \<and> ic_file_epoch ic \<noteq> 0 \<and>
         ic_file_owner ic = Some (rr_file_owner r) \<and> rr_file_epoch r = ic_file_epoch ic \<and> rr_user r = ic_u_id ic \<and>
         rx_session_owner c = Some (rr_user r))"

definition ranges_overlap :: "rx_registration \<Rightarrow> rx_registration \<Rightarrow> bool" where
  "ranges_overlap k k' \<longleftrightarrow> rk_user_address k < rk_user_address k' + ucast (rk_capacity k') \<and>
     rk_user_address k' < rk_user_address k + ucast (rk_capacity k)"

fun find_slot :: "retained_rx_entry option list \<Rightarrow> nat \<Rightarrow> nat option" where
  "find_slot [] i = None"
| "find_slot (None # es) i = Some i"
| "find_slot (Some e # es) i = find_slot es (i + 1)"

text \<open>The first registration publishes the registry; it is refused while a legacy call or the device holds a buffer.\<close>

definition registry_publish :: "rx_answer \<Rightarrow> rx_call \<Rightarrow> rx_ctx \<Rightarrow> bc_status \<times> rx_ctx" where
  "registry_publish a ic c =
    (if rx_retained c \<noteq> None then (BC_STS_SUCCESS, c)
     else if rx_serial c = - 1 then (BC_STS_INSUFF_RES, c)
     else if \<not> ra_kzalloc a then (BC_STS_INSUFF_RES, c)
     else if rx_legacy_active c \<noteq> 0 \<or> \<not> crystalhd_hw_rx_idle a c then (BC_STS_BUSY, c)
     else (BC_STS_SUCCESS, c\<lparr>rx_serial := rx_serial c + 1,
             rx_retained := Some \<lparr>rr_file_owner = the (ic_file_owner ic), rr_file_epoch = ic_file_epoch ic, rr_user = ic_u_id ic,
               rr_generation = rx_serial c + 1, rr_stale = False, rr_entries = replicate BC_RX_LIST_CNT None\<rparr>\<rparr>))"

definition register_entry :: "rx_answer \<Rightarrow> nat \<Rightarrow> nat \<Rightarrow> rx_registration \<Rightarrow> retained_rx_registry \<Rightarrow> rx_ctx \<Rightarrow> bc_status \<times> rx_registration \<times> rx_ctx" where
  "register_entry a slot eid key r c =
    (let c1 = c\<lparr>rx_pinned := rx_pinned c @ [Rx_Entry eid], rx_serial := rx_serial c + 1\<rparr>;
         key1 = key\<lparr>rk_registration_id := rx_serial c1, rk_capture_generation := rr_generation r, rk_state := BC_RX_QUEUED\<rparr>;
         e = \<lparr>en_id = eid, en_key = key1, en_capture_epoch = rx_cancel_epoch c1, en_state = BC_RX_QUEUED\<rparr>;
         (sts, c2) = crystalhd_rx_submit a (Rx_Entry eid) (set_entry slot (Some e) c1)
     in if sts \<noteq> BC_STS_SUCCESS
        then let c3 = set_entry slot (Some (e\<lparr>en_state := 0\<rparr>)) c2
             in if ra_unmap a slot \<noteq> BC_STS_SUCCESS then (BC_STS_IO_ERROR, key, set_stale c3)
                else (sts, key, set_entry slot None (unmap_entry BC_STS_SUCCESS eid c3))
        else (BC_STS_SUCCESS, key1, c2))"

text \<open>On a 64-bit host every address fits an \<^verbatim>\<open>unsigned long\<close>.\<close>

definition crystalhd_retained_register :: "rx_answer \<Rightarrow> rx_call \<Rightarrow> rx_registration \<Rightarrow> rx_ctx \<Rightarrow> bc_status \<times> rx_registration option \<times> rx_ctx" where
  "crystalhd_retained_register a ic key c =
    (if rk_registration_id key \<noteq> 0 \<or> rk_capture_generation key \<noteq> 0 \<or> rk_borrow_sequence key \<noteq> 0 \<or> rk_state key \<noteq> 0 \<or>
        rk_user_address key = 0 \<or> ucast (rk_capacity key) > - 1 - rk_user_address key \<or>
        ic_file_owner ic = None \<or> ic_file_epoch ic = 0 \<or> ic_u_id ic \<ge> BC_LINK_MAX_OPENS then (BC_STS_INV_ARG, None, c)
     else if rx_session_owner c \<noteq> Some (ic_u_id ic) then (BC_STS_ERR_USAGE, None, c)
     else
       let (sts, c1) = registry_publish a ic c
       in if sts \<noteq> BC_STS_SUCCESS then (sts, None, c1)
          else (case rx_retained c1 of None \<Rightarrow> (BC_STS_ERR_USAGE, None, c1)
            | Some r \<Rightarrow>
              if \<not> crystalhd_retained_owner ic c1 \<or> rr_stale r then (BC_STS_ERR_USAGE, None, c1)
              else if rx_serial c1 = - 1 then (BC_STS_INSUFF_RES, None, c1)
              else
                let sts = bc_cproc_check_inbuffs False (rk_user_address key) (rk_capacity key) (rk_uv_offset key) (rk_output_format key \<noteq> MODE420)
                in if sts \<noteq> BC_STS_SUCCESS then (sts, None, c1)
                   else if find_entry (\<lambda>e. ranges_overlap key (en_key e)) (rr_entries r) 0 \<noteq> None then (BC_STS_INV_ARG, None, c1)
                   else (case find_slot (rr_entries r) 0 of None \<Rightarrow> (BC_STS_INSUFF_RES, None, c1)
                     | Some slot \<Rightarrow>
                       (case ra_entry a of None \<Rightarrow> (BC_STS_INSUFF_RES, None, c1)
                        | Some eid \<Rightarrow>
                          if ra_map a \<noteq> BC_STS_SUCCESS then (ra_map a, None, c1)
                          else let (sts, key1, c2) = register_entry a slot eid key r c1
                               in (sts, if sts = BC_STS_SUCCESS then Some key1 else None, c2)))))"

text \<open>A fetch hands back the completion's flags and picture information, and on success the key and the picture.\<close>

definition blank_frame :: "rx_completion \<Rightarrow> rx_frame" where
  "blank_frame result = \<lparr>fr_flags = cp_flags result, fr_pib = (if has_flag (cp_flags result) COMP_FLAG_PIB_VALID then Some (cp_pib result) else None),
     fr_yuv_buff = 0, fr_yuv_size = 0, fr_uv_offset = 0, fr_422_mode = 0, fr_y_done = 0, fr_uv_done = 0\<rparr>"

definition crystalhd_retained_fetch :: "rx_answer \<Rightarrow> rx_ctx \<Rightarrow> (bc_status \<times> rx_registration option \<times> rx_frame option \<times> rx_ctx) option" where
  "crystalhd_retained_fetch a c =
    (case rx_retained c of None \<Rightarrow> None
     | Some r \<Rightarrow>
       if rr_stale r then Some (BC_STS_IO_USER_ABORT, None, None, c)
       else if find_entry (\<lambda>e. en_state e = BC_RX_BORROWED) (rr_entries r) 0 \<noteq> None then Some (BC_STS_BUSY, None, None, c)
       else do {
         (res, c1) \<leftarrow> crystalhd_rx_dequeue_common a c;
         (case res of
            Inl sts \<Rightarrow> Some (sts, None, None, c1)
          | Inr result \<Rightarrow>
            let frame = blank_frame result;
                broken = do { c2 \<leftarrow> crystalhd_rx_buffer_release (cp_owner result) c1; Some (BC_STS_IO_ERROR, None, Some frame, set_stale c2) }
            in (case find_entry (\<lambda>e. cp_owner result = Rx_Entry (en_id e)) (entries_of c1) 0 of
               None \<Rightarrow> broken
             | Some (i, e) \<Rightarrow>
               if en_state e \<noteq> BC_RX_QUEUED \<or> cp_capture_epoch result \<noteq> en_capture_epoch e then broken
               else if has_flag (cp_flags result) COMP_FLAG_FMT_CHANGE
               then do { (sts, c2) \<leftarrow> crystalhd_rx_ack_format a result c1; Some (sts, None, Some frame, c2) }
               else if rk_borrow_sequence (en_key e) = - 1
               then Some (BC_STS_IO_ERROR, None, Some frame, set_stale (set_entry i (Some (e\<lparr>en_state := 0\<rparr>)) c1))
               else
                 let key = (en_key e)\<lparr>rk_borrow_sequence := rk_borrow_sequence (en_key e) + 1, rk_state := BC_RX_BORROWED\<rparr>
                 in Some (BC_STS_SUCCESS, Some (key\<lparr>rk_operation := BC_RX_FETCH\<rparr>),
                          Some (frame\<lparr>fr_yuv_buff := rk_user_address key, fr_yuv_size := rk_capacity key, fr_uv_offset := rk_uv_offset key,
                            fr_422_mode := rk_output_format key, fr_y_done := cp_y_done result, fr_uv_done := cp_uv_done result\<rparr>),
                          set_entry i (Some (e\<lparr>en_key := key, en_state := BC_RX_BORROWED\<rparr>)) c1))) })"

definition key_matches :: "rx_registration \<Rightarrow> retained_rx_entry \<Rightarrow> bool" where
  "key_matches key e \<longleftrightarrow> rk_capture_generation key = rk_capture_generation (en_key e) \<and>
    rk_borrow_sequence key = rk_borrow_sequence (en_key e) \<and> rk_user_address key = rk_user_address (en_key e) \<and>
    rk_capacity key = rk_capacity (en_key e) \<and> rk_uv_offset key = rk_uv_offset (en_key e) \<and>
    rk_output_format key = rk_output_format (en_key e) \<and> rk_state key = BC_RX_BORROWED \<and> en_state e = BC_RX_BORROWED"

definition crystalhd_retained_return :: "rx_answer \<Rightarrow> rx_registration \<Rightarrow> rx_ctx \<Rightarrow> (bc_status \<times> rx_registration option \<times> rx_ctx) option" where
  "crystalhd_retained_return a key c =
    (case rx_retained c of None \<Rightarrow> None
     | Some r \<Rightarrow>
       (case find_entry (\<lambda>e. rk_registration_id (en_key e) = rk_registration_id key) (rr_entries r) 0 of
          None \<Rightarrow> Some (BC_STS_INV_ARG, None, c)
        | Some (i, e) \<Rightarrow>
          if \<not> key_matches key e then Some (BC_STS_INV_ARG, None, c)
          else if rk_operation key = BC_RX_RETIRE
          then if rx_dma_fault c \<and> \<not> rx_quiesced c then Some (BC_STS_IO_ERROR, None, c)
               else if ra_unmap a i \<noteq> BC_STS_SUCCESS then Some (ra_unmap a i, None, set_stale c)
               else Some (BC_STS_SUCCESS, Some (key\<lparr>rk_state := BC_RX_RETIRED\<rparr>), set_entry i None (unmap_entry BC_STS_SUCCESS (en_id e) c))
          else if rr_stale r \<or> en_capture_epoch e \<noteq> rx_cancel_epoch c \<or> rk_capture_generation key \<noteq> rr_generation r
          then Some (BC_STS_IO_USER_ABORT, None, c)
          else
            let (sts, c1) = crystalhd_rx_submit a (Rx_Entry (en_id e)) (set_entry i (Some (e\<lparr>en_state := BC_RX_QUEUED\<rparr>)) c)
            in if sts \<noteq> BC_STS_SUCCESS then Some (sts, None, set_entry i (Some (e\<lparr>en_state := BC_RX_BORROWED\<rparr>)) c1)
               else let key1 = (en_key e)\<lparr>rk_state := BC_RX_QUEUED\<rparr>
                    in Some (BC_STS_SUCCESS, Some (key1\<lparr>rk_operation := BC_RX_REPOST\<rparr>),
                             set_entry i (Some (e\<lparr>en_key := key1, en_state := BC_RX_QUEUED\<rparr>)) c1)))"

definition crystalhd_retained_retire_all :: "rx_answer \<Rightarrow> rx_ctx \<Rightarrow> (bc_status \<times> rx_ctx) option" where
  "crystalhd_retained_retire_all a c =
    (let allowed = LINK_INIT OR LINK_CAP_EN OR LINK_FMT_CHG OR LINK_PAUSED
     in if rx_state c \<noteq> LINK_RESUME \<and> (\<not> has_flag (rx_state c) LINK_INIT \<or> has_flag (rx_state c) (NOT allowed)) then Some (BC_STS_ERR_USAGE, c)
        else if ra_interrupted a then Some (BC_STS_IO_USER_ABORT, c)
        else do {
          (sts, c1) \<leftarrow> crystalhd_hw_stop_capture_locked a True (c\<lparr>rx_state := rx_state c AND NOT (LINK_CAP_EN OR LINK_FMT_CHG)\<rparr>);
          let (sts2, c2) = (if sts = BC_STS_SUCCESS then let (ok, c2) = retained_cleanup a False c1 in (if ok then BC_STS_SUCCESS else BC_STS_IO_ERROR, c2)
                            else (sts, c1));
          Some (sts2, if sts2 \<noteq> BC_STS_SUCCESS then set_stale c2 else c2) })"

definition empty_key :: "u32 \<Rightarrow> rx_registration" where
  "empty_key op1 = \<lparr>rk_registration_id = 0, rk_capture_generation = 0, rk_borrow_sequence = 0, rk_user_address = 0, rk_operation = op1,
     rk_flags = 0, rk_capacity = 0, rk_uv_offset = 0, rk_output_format = 0, rk_state = 0, rk_reserved = (0, 0)\<rparr>"

text \<open>The ioctl: its status, the registration handed back and, for a fetch, the frame. \<open>flea\<close> is the check of context, adapter and device.\<close>

definition bc_cproc_retained_rx :: "rx_answer \<Rightarrow> bool \<Rightarrow> rx_call \<Rightarrow> rx_registration \<Rightarrow> rx_ctx \<Rightarrow> (bc_status \<times> rx_registration \<times> rx_frame option \<times> rx_ctx) option" where
  "bc_cproc_retained_rx a flea ic key c =
    (let out = empty_key (rk_operation key);
         retire_all = (rk_operation key = BC_RX_RETIRE \<and> rk_registration_id key = 0);
         out_of = (\<lambda>k. case k of None \<Rightarrow> out | Some k \<Rightarrow> k)
     in if \<not> flea then Some (BC_STS_ERR_USAGE, key, None, c)
        else if rk_flags key \<noteq> 0 \<or> rk_reserved key \<noteq> (0, 0) then Some (BC_STS_INV_ARG, out, None, c)
        else if (retire_all \<or> rk_operation key = BC_RX_FETCH) \<and> key \<noteq> empty_key (rk_operation key) then Some (BC_STS_INV_ARG, out, None, c)
        else if rk_operation key = BC_RX_REGISTER
        then let (sts, k, c1) = crystalhd_retained_register a ic key c in Some (sts, out_of k, None, c1)
        else if retire_all \<and> rx_retained c = None \<and> ic_file_owner ic \<noteq> None \<and> ic_file_epoch ic \<noteq> 0 \<and>
                ic_u_id ic < BC_LINK_MAX_OPENS \<and> rx_session_owner c = Some (ic_u_id ic)
        then Some (if crystalhd_retained_no_owners a c then (BC_STS_SUCCESS, out\<lparr>rk_state := BC_RX_RETIRED\<rparr>, None, c) else (BC_STS_BUSY, out, None, c))
        else if \<not> crystalhd_retained_owner ic c then Some (BC_STS_ERR_USAGE, out, None, c)
        else if retire_all
        then do { (sts, c1) \<leftarrow> crystalhd_retained_retire_all a c;
                  Some (sts, if sts = BC_STS_SUCCESS then out\<lparr>rk_state := BC_RX_RETIRED\<rparr> else out, None, c1) }
        else if rk_operation key = BC_RX_FETCH
        then do { (sts, k, frame, c1) \<leftarrow> crystalhd_retained_fetch a c; Some (sts, out_of k, frame, c1) }
        else if rk_operation key = BC_RX_REPOST \<or> rk_operation key = BC_RX_RETIRE
        then do { (sts, k, c1) \<leftarrow> crystalhd_retained_return a key c; Some (sts, out_of k, None, c1) }
        else Some (BC_STS_INV_ARG, out, None, c))"

section \<open>Capture control\<close>

text \<open>The thresholds are written for the hardware layer and read by it alone.\<close>

definition crystalhd_capture_start :: "rx_answer \<Rightarrow> rx_ctx \<Rightarrow> bc_status \<times> rx_ctx" where
  "crystalhd_capture_start a c =
    (if (case rx_retained c of None \<Rightarrow> False | Some r \<Rightarrow> rr_stale r) then (BC_STS_IO_USER_ABORT, c)
     else if ra_interrupted a then (BC_STS_IO_USER_ABORT, c)
     else if rx_dma_fault c then (BC_STS_IO_ERROR, c)
     else if \<not> ra_notify a then (BC_STS_IO_ERROR, c)
     else let c1 = c\<lparr>rx_state := rx_state c OR LINK_CAP_EN\<rparr>;
              sts = (if rx_state c1 = LINK_READY then ra_start a else BC_STS_SUCCESS)
          in (if sts = BC_STS_NO_DATA then BC_STS_SUCCESS else sts, c1))"

definition crystalhd_capture_flush :: "rx_answer \<Rightarrow> bool \<Rightarrow> rx_ctx \<Rightarrow> (bc_status \<times> rx_ctx) option" where
  "crystalhd_capture_flush a discard_only c =
    (if ra_interrupted a then Some (BC_STS_IO_USER_ABORT, c)
     else if \<not> has_flag (rx_state c) LINK_CAP_EN \<and> (discard_only \<or> rx_state c \<noteq> LINK_INIT) then Some (BC_STS_ERR_USAGE, c)
     else if discard_only
     then do {
       (sts, c1) \<leftarrow> crystalhd_hw_stop_capture_locked a False c;
       Some (if sts \<noteq> BC_STS_SUCCESS then sts else if \<not> ra_notify a then BC_STS_IO_ERROR
             else if ra_start a = BC_STS_NO_DATA then BC_STS_SUCCESS else ra_start a, c1) }
     else do {
       (sts, c1) \<leftarrow> crystalhd_hw_stop_capture_locked a True (c\<lparr>rx_state := rx_state c AND NOT (LINK_CAP_EN OR LINK_FMT_CHG)\<rparr>);
       if sts \<noteq> BC_STS_SUCCESS then Some (sts, set_stale c1)
       else let (ok, c2) = retained_cleanup a False c1 in Some (if ok then (BC_STS_SUCCESS, c2) else (BC_STS_IO_ERROR, set_stale c2)) })"

definition crystalhd_rx_retire_quiesced :: "rx_answer \<Rightarrow> bool \<Rightarrow> bool \<Rightarrow> rx_ctx \<Rightarrow> rx_ctx option" where
  "crystalhd_rx_retire_quiesced a suspend_only retain_rx_on_suspend c =
    (if suspend_only \<and> retain_rx_on_suspend then Some c
     else do {
       c1 \<leftarrow> crystalhd_hw_retire_rx_quiesced c;
       let (ok, c2) = retained_cleanup a False c1;
       Some (if ok then c2 else set_stale c2) })"

definition crystalhd_rx_pause_metadata_idle :: "rx_answer \<Rightarrow> bool \<Rightarrow> u64 \<Rightarrow> rx_ctx \<Rightarrow> bc_status \<times> rx_ctx" where
  "crystalhd_rx_pause_metadata_idle a flea capture_epoch c =
    (if \<not> flea then (BC_STS_NOT_IMPL, c)
     else if capture_epoch \<noteq> rx_cancel_epoch c \<or> \<not> has_flag (rx_state c) LINK_CAP_EN then (BC_STS_IO_USER_ABORT, c)
     else if rx_dma_fault c \<or> rx_cancel_epoch c = - 1 then (BC_STS_IO_ERROR, c)
     else if \<not> crystalhd_hw_rx_idle a c then (BC_STS_BUSY, c)
     else (BC_STS_SUCCESS, set_stale (c\<lparr>rx_cancel_epoch := rx_cancel_epoch c + 1, rx_state := rx_state c OR LINK_FMT_CHG\<rparr>)))"

text \<open>
  The capture half of suspend and resume, and of the end of a session. \<open>ra_close\<close> answers for the transmit engine
  and the device, which are stopped in between.
\<close>

definition suspend_capture :: "rx_answer \<Rightarrow> rx_ctx \<Rightarrow> rx_ctx option" where
  "suspend_capture a c =
    (if rx_state c = 0 \<or> has_flag (rx_state c) LINK_SUSPEND then Some c
     else do {
       (sts, c1) \<leftarrow> (if has_flag (rx_state c) LINK_CAP_EN then crystalhd_hw_stop_capture_locked a False (set_stale c) else Some (BC_STS_SUCCESS, set_stale c));
       Some (if sts \<noteq> BC_STS_SUCCESS \<or> \<not> ra_close a then c1 else c1\<lparr>rx_state := LINK_SUSPEND\<rparr>) })"

definition resume_capture :: "rx_answer \<Rightarrow> rx_ctx \<Rightarrow> rx_ctx" where
  "resume_capture a c = (if \<not> ra_close a \<or> rx_state c = 0 then c else c\<lparr>rx_state := LINK_RESUME\<rparr>)"

definition retire_capture :: "rx_answer \<Rightarrow> rx_ctx \<Rightarrow> (bool \<times> rx_ctx) option" where
  "retire_capture a c =
    (if rx_dma_fault c then Some (False, c)
     else do {
       (sts, c1) \<leftarrow> crystalhd_hw_stop_capture_locked a False c;
       if sts \<noteq> BC_STS_SUCCESS \<or> \<not> ra_close a then Some (False, c1)
       else do {
         c2 \<leftarrow> release_all (rx_owned c1) (c1\<lparr>rx_owned := []\<rparr>);
         let (ok, c3) = retained_cleanup a True c2;
         Some (ok, if ok then c3\<lparr>rx_state := 0\<rparr> else c3) } })"

text \<open>
  Turning bus mastering off and draining the bus, which may not be proved to have worked: the suspend path does
  so before it retires what is held, and so does the teardown of a device that failed.
\<close>

definition suspend_quiesced :: "rx_answer \<Rightarrow> bool \<Rightarrow> bool \<Rightarrow> bool \<Rightarrow> rx_ctx \<Rightarrow> rx_ctx option" where
  "suspend_quiesced a drained suspend_only retain_rx_on_suspend c =
    (if \<not> drained then Some c else crystalhd_rx_retire_quiesced a suspend_only retain_rx_on_suspend (c\<lparr>rx_dma := []\<rparr>))"

definition chd_dec_quiesce_terminal_dma :: "bool \<Rightarrow> rx_ctx \<Rightarrow> bool \<times> rx_ctx" where
  "chd_dec_quiesce_terminal_dma drained c =
    (if rx_quiesced c then (True, c) else if drained then (True, c\<lparr>rx_dma := [], rx_quiesced := True\<rparr>) else (False, c))"

section \<open>Histories\<close>

text \<open>
  The calls of all threads and the steps of the device. A legacy call is three steps, its entry, its work and its
  leave; its work, from the moment it takes a packet, is one transformation. \<open>Op_Fault\<close> is the engines' report
  that they could not be stopped, \<open>Op_Terminal\<close> the teardown of a failed device. \<open>Op_Release\<close> ends a session.
  \<open>Op_Link\<close> is the rest of the driver, which loads firmware, pauses and resumes: it may leave any link state.
  \<open>Op_Dma_Post\<close> gives a buffer that is held to the engines, as a capture start and the interrupt handler do unless
  a fault is on record; \<open>Op_Dma_Done\<close> is the completion of one. An allocator hands out only memory that is free.
\<close>

datatype rx_op =
    Op_Retained rx_answer bool rx_call rx_registration
  | Op_Legacy_Enter
  | Op_Legacy_Add rx_answer nat u64 u32 u32 u32
  | Op_Legacy_Fetch rx_answer
  | Op_Legacy_Leave
  | Op_Start rx_answer
  | Op_Flush rx_answer bool
  | Op_Quiesced rx_answer bool bool bool
  | Op_Pause rx_answer bool u64
  | Op_Suspend rx_answer
  | Op_Resume rx_answer
  | Op_Fault
  | Op_Terminal bool
  | Op_Acquire nat
  | Op_Release rx_answer
  | Op_Link u32
  | Op_Dma_Post rx_owner
  | Op_Dma_Done rx_owner

datatype lease_event = Fetched u64 u64 | Returned u64 u64

definition free_memory :: "rx_ctx \<Rightarrow> rx_answer \<Rightarrow> rx_answer" where
  "free_memory c a = a\<lparr>ra_entry := (case ra_entry a of None \<Rightarrow> None | Some e \<Rightarrow> if Rx_Entry e \<in> set (rx_pinned c) then None else Some e)\<rparr>"

definition lease_events :: "rx_registration \<Rightarrow> bc_status \<Rightarrow> rx_registration \<Rightarrow> lease_event list" where
  "lease_events key sts out =
    (if sts \<noteq> BC_STS_SUCCESS then []
     else if rk_operation key = BC_RX_FETCH \<and> rk_state out = BC_RX_BORROWED then [Fetched (rk_registration_id out) (rk_borrow_sequence out)]
     else if (rk_operation key = BC_RX_REPOST \<or> rk_operation key = BC_RX_RETIRE) \<and> rk_registration_id key \<noteq> 0
     then [Returned (rk_registration_id key) (rk_borrow_sequence key)] else [])"

fun rx_exec :: "rx_op \<Rightarrow> rx_ctx \<Rightarrow> (lease_event list \<times> rx_ctx) option" where
  "rx_exec (Op_Retained a flea ic key) c =
    do { (sts, out, frame, c1) \<leftarrow> bc_cproc_retained_rx (free_memory c a) flea ic key c; Some (lease_events key sts out, c1) }"
| "rx_exec Op_Legacy_Enter c = Some ([], snd (crystalhd_legacy_rx_enter c))"
| "rx_exec (Op_Legacy_Add a b ubuff sz uv fmt) c =
    (if rx_legacy_active c = 0 \<or> Rx_Legacy b \<in> set (rx_pinned c) then Some ([], c)
     else map_option (\<lambda>(sts, c1). ([], c1)) (bc_cproc_add_cap_buff_legacy a b ubuff sz uv fmt c))"
| "rx_exec (Op_Legacy_Fetch a) c =
    (if rx_legacy_active c = 0 then Some ([], c) else map_option (\<lambda>(sts, c1). ([], c1)) (bc_cproc_fetch_frame_legacy a c))"
| "rx_exec Op_Legacy_Leave c = Some ([], if rx_legacy_active c = 0 then c else crystalhd_legacy_rx_leave c)"
| "rx_exec (Op_Start a) c = Some ([], snd (crystalhd_capture_start a c))"
| "rx_exec (Op_Flush a discard) c = map_option (\<lambda>(sts, c1). ([], c1)) (crystalhd_capture_flush a discard c)"
| "rx_exec (Op_Quiesced a drained suspend_only retain) c = map_option (\<lambda>c1. ([], c1)) (suspend_quiesced a drained suspend_only retain c)"
| "rx_exec (Op_Pause a flea epoch) c = Some ([], snd (crystalhd_rx_pause_metadata_idle a flea epoch c))"
| "rx_exec (Op_Suspend a) c = map_option (\<lambda>c1. ([], c1)) (suspend_capture a c)"
| "rx_exec (Op_Resume a) c = Some ([], resume_capture a c)"
| "rx_exec Op_Fault c = Some ([], c\<lparr>rx_dma_fault := True\<rparr>)"
| "rx_exec (Op_Terminal drained) c = Some ([], snd (chd_dec_quiesce_terminal_dma drained c))"
| "rx_exec (Op_Acquire u) c = Some ([], if rx_session_owner c = None then c\<lparr>rx_session_owner := Some u\<rparr> else c)"
| "rx_exec (Op_Release a) c = map_option (\<lambda>(ok, c1). ([], if ok then c1\<lparr>rx_session_owner := None\<rparr> else c1)) (retire_capture a c)"
| "rx_exec (Op_Link s) c = Some ([], c\<lparr>rx_state := s\<rparr>)"
| "rx_exec (Op_Dma_Post b) c = Some ([], if b \<in> set (rx_ready c) \<and> \<not> rx_dma_fault c then c\<lparr>rx_dma := rx_dma c @ [b]\<rparr> else c)"
| "rx_exec (Op_Dma_Done b) c = Some ([], c\<lparr>rx_dma := filter (\<lambda>x. x \<noteq> b) (rx_dma c)\<rparr>)"

definition rx_init :: rx_ctx where
  "rx_init = \<lparr>rx_state = 0, rx_session_owner = None, rx_serial = 0, rx_legacy_active = 0, rx_retained = None, rx_cancel_epoch = 0,
     rx_dma_fault = False, rx_quiesced = False, rx_owned = [], rx_pinned = [], rx_dma = []\<rparr>"

section \<open>Invariant\<close>

text \<open>The registry as a map from slots to entries.\<close>

definition ent :: "rx_ctx \<Rightarrow> nat \<Rightarrow> retained_rx_entry option" where
  "ent c i = (if i < length (entries_of c) then entries_of c ! i else None)"

text \<open>Two entries that may not both be in the registry.\<close>

definition clash :: "retained_rx_entry \<Rightarrow> retained_rx_entry \<Rightarrow> bool" where
  "clash e e' \<longleftrightarrow> en_id e = en_id e' \<or> rk_registration_id (en_key e) = rk_registration_id (en_key e') \<or>
     (en_state e = BC_RX_BORROWED \<and> en_state e' = BC_RX_BORROWED) \<or> ranges_overlap (en_key e) (en_key e')"

definition rx_entry_ok :: "rx_ctx \<Rightarrow> retained_rx_entry \<Rightarrow> bool" where
  "rx_entry_ok c e \<longleftrightarrow> (en_state e = BC_RX_QUEUED \<longleftrightarrow> Rx_Entry (en_id e) \<in> set (rx_owned c)) \<and>
     (en_state e = 0 \<or> en_state e = BC_RX_QUEUED \<or> en_state e = BC_RX_BORROWED) \<and> Rx_Entry (en_id e) \<in> set (rx_pinned c) \<and>
     0 < rk_registration_id (en_key e) \<and> rk_registration_id (en_key e) \<le> rx_serial c \<and>
     unat (rk_user_address (en_key e)) + unat (rk_capacity (en_key e)) < 2 ^ 64"

definition table_ok :: "rx_ctx \<Rightarrow> bool" where
  "table_ok c \<longleftrightarrow> (\<forall>i e. ent c i = Some e \<longrightarrow> rx_entry_ok c e) \<and>
     (\<forall>i j e e'. ent c i = Some e \<longrightarrow> ent c j = Some e' \<longrightarrow> i \<noteq> j \<longrightarrow> \<not> clash e e')"

definition pins_ok :: "rx_ctx \<Rightarrow> bool" where
  "pins_ok c \<longleftrightarrow> distinct (rx_owned c) \<and> distinct (rx_pinned c) \<and> set (rx_owned c) \<subseteq> set (rx_pinned c) \<and> set (rx_dma c) \<subseteq> set (rx_owned c) \<and>
     (\<forall>x. Rx_Entry x \<in> set (rx_pinned c) \<longrightarrow> (\<exists>i e. ent c i = Some e \<and> en_id e = x)) \<and>
     (\<forall>b. Rx_Legacy b \<in> set (rx_pinned c) \<longrightarrow> Rx_Legacy b \<in> set (rx_owned c))"

definition mode_ok :: "rx_ctx \<Rightarrow> bool" where
  "mode_ok c \<longleftrightarrow> (\<forall>r. rx_retained c = Some r \<longrightarrow> length (rr_entries r) = BC_RX_LIST_CNT \<and> rx_legacy_active c = 0 \<and>
     (\<forall>b. Rx_Legacy b \<notin> set (rx_pinned c)))"

definition rx_ok :: "rx_ctx \<Rightarrow> bool" where
  "rx_ok c \<longleftrightarrow> table_ok c \<and> pins_ok c \<and> mode_ok c"

lemma ent_none [simp]: "rx_retained c = None \<Longrightarrow> ent c = (\<lambda>_. None)"
  by (auto simp: ent_def entries_of_def)

lemma ent_bound: "rx_ok c \<Longrightarrow> ent c i = Some e \<Longrightarrow> i < BC_RX_LIST_CNT \<and> rx_retained c \<noteq> None"
  by (auto simp: rx_ok_def mode_ok_def ent_def entries_of_def split: option.splits if_splits)

lemma ent_set_entry [simp]: "ent (set_entry i n c) = (if i < length (entries_of c) then (ent c)(i := n) else ent c)"
  by (auto simp: fun_eq_iff ent_def entries_of_def set_entry_def split: option.splits)

lemma set_entry_fields [simp]:
  "rx_owned (set_entry i n c) = rx_owned c" "rx_pinned (set_entry i n c) = rx_pinned c" "rx_serial (set_entry i n c) = rx_serial c"
  "rx_legacy_active (set_entry i n c) = rx_legacy_active c" "rx_retained (set_entry i n c) = None \<longleftrightarrow> rx_retained c = None"
  "rx_dma_fault (set_entry i n c) = rx_dma_fault c" "rx_cancel_epoch (set_entry i n c) = rx_cancel_epoch c" "rx_state (set_entry i n c) = rx_state c"
  "length (entries_of (set_entry i n c)) = length (entries_of c)" "rx_dma (set_entry i n c) = rx_dma c"
  by (simp_all add: set_entry_def entries_of_def split: option.splits)

lemma stale_fields [simp]:
  "rx_owned (set_stale c) = rx_owned c" "rx_pinned (set_stale c) = rx_pinned c" "rx_serial (set_stale c) = rx_serial c"
  "rx_legacy_active (set_stale c) = rx_legacy_active c" "ent (set_stale c) = ent c" "rx_retained (set_stale c) = None \<longleftrightarrow> rx_retained c = None"
  "entries_of (set_stale c) = entries_of c" "rx_dma (set_stale c) = rx_dma c"
  by (auto simp: set_stale_def ent_def entries_of_def fun_eq_iff split: option.splits)

text \<open>What the invariant looks at.\<close>

definition same_rx :: "rx_ctx \<Rightarrow> rx_ctx \<Rightarrow> bool" where
  "same_rx c c1 \<longleftrightarrow> entries_of c1 = entries_of c \<and> (rx_retained c1 = None \<longleftrightarrow> rx_retained c = None) \<and> rx_owned c1 = rx_owned c \<and>
     rx_pinned c1 = rx_pinned c \<and> set (rx_dma c1) \<subseteq> set (rx_dma c) \<and> rx_serial c \<le> rx_serial c1 \<and> (rx_retained c1 \<noteq> None \<longrightarrow> rx_legacy_active c1 = rx_legacy_active c)"

lemma rx_ok_same: "rx_ok c \<Longrightarrow> same_rx c c1 \<Longrightarrow> rx_ok c1"
proof -
  assume ok: "rx_ok c" and s: "same_rx c c1"
  have e: "ent c1 = ent c" using s by (simp add: same_rx_def ent_def fun_eq_iff)
  have "rx_entry_ok c x \<Longrightarrow> rx_entry_ok c1 x" for x using s by (auto simp: rx_entry_ok_def same_rx_def)
  then have t: "table_ok c1" using ok e by (simp add: rx_ok_def table_ok_def)
  have "set (rx_dma c1) \<subseteq> set (rx_owned c1)" using ok s unfolding rx_ok_def pins_ok_def same_rx_def by (metis subset_trans)
  then have "pins_ok c1" using ok e s by (simp add: rx_ok_def pins_ok_def same_rx_def)
  moreover have "mode_ok c1" using ok s by (auto simp: rx_ok_def mode_ok_def same_rx_def entries_of_def split: option.splits)
  ultimately show ?thesis using t by (simp add: rx_ok_def)
qed

lemma clash_sym: "clash e e' \<Longrightarrow> clash e' e"
  by (auto simp: clash_def ranges_overlap_def)

lemma entry_okD: "rx_ok c \<Longrightarrow> ent c i = Some e \<Longrightarrow> rx_entry_ok c e"
  by (simp add: rx_ok_def table_ok_def)

lemma entry_pinned: "rx_ok c \<Longrightarrow> ent c i = Some e \<Longrightarrow> Rx_Entry (en_id e) \<in> set (rx_pinned c)"
  using entry_okD by (simp add: rx_entry_ok_def)

lemma no_clash: "rx_ok c \<Longrightarrow> ent c i = Some e \<Longrightarrow> ent c j = Some e' \<Longrightarrow> i \<noteq> j \<Longrightarrow> \<not> clash e e'"
  by (auto simp: rx_ok_def table_ok_def)

text \<open>One slot changes, and with it what the device holds and what is pinned of its entry.\<close>

lemma slot_update:
  assumes ok: "rx_ok c" and i: "i < length (entries_of c)"
    and new: "ent c1 = (ent c)(i := n)" "length (entries_of c1) = length (entries_of c)" "rx_retained c1 = None \<longleftrightarrow> rx_retained c = None"
      "rx_serial c \<le> rx_serial c1" "rx_legacy_active c1 = rx_legacy_active c"
    and x: "\<And>e. ent c i = Some e \<Longrightarrow> en_id e = x" "ent c i = None \<Longrightarrow> Rx_Entry x \<notin> set (rx_pinned c)"
      "\<forall>b. b \<noteq> Rx_Entry x \<longrightarrow> (b \<in> set (rx_owned c1) \<longleftrightarrow> b \<in> set (rx_owned c)) \<and> (b \<in> set (rx_pinned c1) \<longleftrightarrow> b \<in> set (rx_pinned c))"
      "distinct (rx_owned c1)" "distinct (rx_pinned c1)" "set (rx_owned c1) \<subseteq> set (rx_pinned c1)"
      "set (rx_dma c1) \<subseteq> set (rx_owned c1)"
    and n: "\<And>e. n = Some e \<Longrightarrow> en_id e = x \<and> rx_entry_ok c1 e" "n = None \<Longrightarrow> Rx_Entry x \<notin> set (rx_pinned c1)"
      "\<And>e j e'. n = Some e \<Longrightarrow> j \<noteq> i \<Longrightarrow> ent c j = Some e' \<Longrightarrow> \<not> clash e e'"
  shows "rx_ok c1"
proof -
  have other: "en_id e \<noteq> x" if "ent c j = Some e" "j \<noteq> i" for j e
  proof (cases "ent c i")
    case None
    then show ?thesis using entry_pinned [OF ok that(1)] x(2) by auto
  next
    case (Some e0)
    then have "\<not> clash e0 e" using no_clash [OF ok] that by blast
    then show ?thesis using x(1) [OF Some] by (auto simp: clash_def)
  qed
  have "rx_entry_ok c1 e" if "ent c j = Some e" "j \<noteq> i" for j e
    using entry_okD [OF ok that(1)] other [OF that] x(3) new(4) by (auto simp: rx_entry_ok_def)
  then have entries: "rx_entry_ok c1 e" if "ent c1 j = Some e" for j e
    using that n(1) unfolding new(1) by (cases "j = i") auto
  have apart: "\<not> clash e e'" if "ent c1 j = Some e" "ent c1 k = Some e'" "j \<noteq> k" for j k e e'
  proof -
    have "\<not> clash e' e" if "k = i" using that n(3) \<open>j \<noteq> k\<close> \<open>ent c1 j = Some e\<close> \<open>ent c1 k = Some e'\<close> unfolding new(1) by auto
    then show ?thesis using that n(3) no_clash [OF ok] clash_sym [of e e'] unfolding new(1) by (cases "j = i"; cases "k = i") auto
  qed
  have "\<exists>j e. ent c1 j = Some e \<and> en_id e = y" if "Rx_Entry y \<in> set (rx_pinned c1)" for y
  proof (cases "y = x")
    case True
    then show ?thesis using n(1,2) that unfolding new(1) by (cases n) auto
  next
    case False
    then have "Rx_Entry y \<in> set (rx_pinned c)" using x(3) that by auto
    then obtain j e where "ent c j = Some e" "en_id e = y" using ok unfolding rx_ok_def pins_ok_def by blast
    then show ?thesis using x(1) False unfolding new(1) by (intro exI [of _ j]) auto
  qed
  moreover have "Rx_Legacy b \<in> set (rx_owned c1)" if "Rx_Legacy b \<in> set (rx_pinned c1)" for b
    using that x(3) ok by (simp add: rx_ok_def pins_ok_def)
  ultimately have "pins_ok c1" using x(4-7) by (simp add: pins_ok_def)
  moreover have "mode_ok c1" using ok new(2,3,5) x(3) by (auto simp: rx_ok_def mode_ok_def entries_of_def split: option.splits)
  ultimately show ?thesis using entries apart by (simp add: rx_ok_def table_ok_def)
qed

section \<open>Release\<close>

text \<open>Entries disappear, lose their lease or are registered anew under a later number, but no lease comes about.\<close>

definition calm :: "rx_ctx \<Rightarrow> rx_ctx \<Rightarrow> bool" where
  "calm c c1 \<longleftrightarrow> rx_serial c \<le> rx_serial c1 \<and> (\<forall>i e1. ent c1 i = Some e1 \<longrightarrow>
     rx_serial c < rk_registration_id (en_key e1) \<and> en_state e1 \<noteq> BC_RX_BORROWED \<or> (\<exists>e. ent c i = Some e \<and>
     rk_registration_id (en_key e1) = rk_registration_id (en_key e) \<and> rk_borrow_sequence (en_key e1) = rk_borrow_sequence (en_key e) \<and>
     (en_state e1 = BC_RX_BORROWED \<longrightarrow> en_state e = BC_RX_BORROWED)))"

lemma calm_refl [simp, intro]: "calm c c"
  by (simp add: calm_def)

lemma calm_trans: "calm c c1 \<Longrightarrow> calm c1 c2 \<Longrightarrow> calm c c2"
proof -
  assume a: "calm c c1" "calm c1 c2"
  have s: "rx_serial c \<le> rx_serial c1" "rx_serial c1 \<le> rx_serial c2" using a by (simp_all add: calm_def)
  have "rx_serial c < rk_registration_id (en_key e2) \<and> en_state e2 \<noteq> 2 \<or> (\<exists>e. ent c i = Some e \<and>
     rk_registration_id (en_key e2) = rk_registration_id (en_key e) \<and> rk_borrow_sequence (en_key e2) = rk_borrow_sequence (en_key e) \<and>
     (en_state e2 = 2 \<longrightarrow> en_state e = 2))" if "ent c2 i = Some e2" for i e2
  proof -
    from a(2) that consider "rx_serial c1 < rk_registration_id (en_key e2)" "en_state e2 \<noteq> 2" | e1 where "ent c1 i = Some e1"
      "rk_registration_id (en_key e2) = rk_registration_id (en_key e1)" "rk_borrow_sequence (en_key e2) = rk_borrow_sequence (en_key e1)"
      "en_state e2 = 2 \<longrightarrow> en_state e1 = 2" unfolding calm_def by blast
    then show ?thesis
    proof cases
      case 1
      then show ?thesis using s(1) by auto
    next
      case 2
      then show ?thesis using a(1) unfolding calm_def by metis
    qed
  qed
  then show "calm c c2" using s by (auto simp: calm_def)
qed

lemma calm_same: "ent c1 = ent c \<Longrightarrow> rx_serial c \<le> rx_serial c1 \<Longrightarrow> calm c c1"
  by (simp add: calm_def)

lemma ent_owned [simp]: "ent (c\<lparr>rx_dma := ds\<rparr>) = ent c" "entries_of (c\<lparr>rx_dma := ds\<rparr>) = entries_of c" "ent (c\<lparr>rx_owned := bs\<rparr>) = ent c" "ent (c\<lparr>rx_pinned := bs\<rparr>) = ent c" "entries_of (c\<lparr>rx_owned := bs\<rparr>) = entries_of c"
  "entries_of (c\<lparr>rx_pinned := bs\<rparr>) = entries_of c"
  by (auto simp: ent_def entries_of_def fun_eq_iff)

lemma owned_perm:
  assumes "rx_ok c" "set bs = set (rx_owned c)" "distinct bs"
  shows "rx_ok (c\<lparr>rx_owned := bs\<rparr>)"
proof -
  have "rx_entry_ok (c\<lparr>rx_owned := bs\<rparr>) e \<longleftrightarrow> rx_entry_ok c e" for e using assms(2) by (simp add: rx_entry_ok_def)
  then show ?thesis using assms by (auto simp: rx_ok_def table_ok_def pins_ok_def mode_ok_def)
qed

lemma dma_ok: "rx_ok c \<Longrightarrow> set ds \<subseteq> set (rx_owned c) \<Longrightarrow> rx_ok (c\<lparr>rx_dma := ds\<rparr>)"
  by (auto simp: rx_ok_def table_ok_def pins_ok_def mode_ok_def rx_entry_ok_def)

lemma find_entry_Some:
  "find_entry P es k = Some (i, e) \<Longrightarrow> k \<le> i \<and> i - k < length es \<and> es ! (i - k) = Some e \<and> P e"
proof (induction es arbitrary: k)
  case (Cons x es)
  then show ?case by (cases x) (auto simp: nth_Cons' split: if_splits dest!: Cons.IH)
qed simp

lemma find_entry_None: "find_entry P es k = None \<longleftrightarrow> (\<forall>e. Some e \<in> set es \<longrightarrow> \<not> P e)"
proof (induction es arbitrary: k)
  case (Cons x es)
  then show ?case by (cases x) auto
qed simp

lemma find_ent:
  "find_entry P (entries_of c) 0 = Some (i, e) \<Longrightarrow> ent c i = Some e \<and> P e \<and> i < length (entries_of c)"
  using find_entry_Some [of P "entries_of c" 0 i e] by (auto simp: ent_def)

lemma find_ent_None: "find_entry P (entries_of c) 0 = None \<longleftrightarrow> (\<forall>i e. ent c i = Some e \<longrightarrow> \<not> P e)"
  unfolding find_entry_None by (force simp: ent_def in_set_conv_nth split: if_splits)

lemma entry_of_pin: "rx_ok c \<Longrightarrow> Rx_Entry x \<in> set (rx_pinned c) \<Longrightarrow> \<exists>i e. ent c i = Some e \<and> en_id e = x"
  by (simp add: rx_ok_def pins_ok_def)

lemma ent_len: "ent c i = Some e \<Longrightarrow> i < length (entries_of c)"
  by (simp add: ent_def split: if_splits)

definition only_store :: "rx_ctx \<Rightarrow> rx_ctx \<Rightarrow> bool" where
  "only_store c c1 \<longleftrightarrow> c1 = c\<lparr>rx_retained := rx_retained c1, rx_pinned := rx_pinned c1\<rparr> \<and> (rx_retained c1 = None \<longleftrightarrow> rx_retained c = None)"

lemma only_store_fields:
  assumes "only_store c c1"
  shows "rx_owned c1 = rx_owned c" "rx_serial c1 = rx_serial c" "rx_legacy_active c1 = rx_legacy_active c" "rx_state c1 = rx_state c"
    "rx_cancel_epoch c1 = rx_cancel_epoch c" "rx_dma_fault c1 = rx_dma_fault c" "rx_session_owner c1 = rx_session_owner c" "rx_quiesced c1 = rx_quiesced c"
    "rx_retained c1 = None \<longleftrightarrow> rx_retained c = None" "rx_dma c1 = rx_dma c"
  using assms by (cases c; cases c1; simp add: only_store_def)+

lemma only_store_trans: "only_store c c1 \<Longrightarrow> only_store c1 c2 \<Longrightarrow> only_store c c2"
  by (cases c; cases c1; cases c2) (auto simp: only_store_def)

lemma release_one:
  assumes ok: "rx_ok (c\<lparr>rx_owned := b # bs\<rparr>)" and nd: "b \<notin> set (rx_dma c)"
  shows "\<exists>c1. crystalhd_rx_buffer_release b c = Some c1 \<and> rx_ok (c1\<lparr>rx_owned := bs\<rparr>) \<and> calm c c1 \<and> only_store c c1"
proof (cases b)
  case (Rx_Entry x)
  let ?d = "c\<lparr>rx_owned := b # bs\<rparr>"
  have dma: "set (rx_dma c) \<subseteq> set bs" using ok nd by (auto simp: rx_ok_def pins_ok_def)
  have pin: "Rx_Entry x \<in> set (rx_pinned ?d)" "distinct (b # bs)" "set (b # bs) \<subseteq> set (rx_pinned c)" "distinct (rx_pinned c)"
    using ok Rx_Entry by (simp_all add: rx_ok_def pins_ok_def)
  obtain i0 e0 where "ent c i0 = Some e0" "en_id e0 = x" using entry_of_pin [OF ok pin(1)] by auto
  then obtain i e where f: "find_entry (\<lambda>e. en_id e = x) (entries_of c) 0 = Some (i, e)"
    using find_ent_None [of "\<lambda>e. en_id e = x" c] by (cases "find_entry (\<lambda>e. en_id e = x) (entries_of c) 0") auto
  have e: "ent c i = Some e" "en_id e = x" "i < length (entries_of c)" using find_ent [OF f] by auto
  let ?c1 = "set_entry i (Some (e\<lparr>en_state := 0\<rparr>)) c"
  have r: "crystalhd_rx_buffer_release b c = Some ?c1" using Rx_Entry f by (simp add: crystalhd_retained_detach_def)
  have "rx_ok (?c1\<lparr>rx_owned := bs\<rparr>)"
  proof (rule slot_update [OF ok, where i = i and x = x and n = "Some (e\<lparr>en_state := 0\<rparr>)"])
    show "\<And>e1. Some (e\<lparr>en_state := 0\<rparr>) = Some e1 \<Longrightarrow> en_id e1 = x \<and> rx_entry_ok (?c1\<lparr>rx_owned := bs\<rparr>) e1"
      using entry_okD [OF ok, of i e] e pin(2) Rx_Entry by (auto simp: rx_entry_ok_def)
    show "\<not> clash e1 e'" if "Some (e\<lparr>en_state := 0\<rparr>) = Some e1" "j \<noteq> i" "ent ?d j = Some e'" for e1 j e'
      using no_clash [OF ok, of i e j e'] that e by (auto simp: clash_def)
  qed (use e pin dma Rx_Entry in \<open>auto simp: set_entry_fields\<close>)
  moreover have "calm c ?c1" using e by (auto simp: calm_def)
  moreover have "only_store c ?c1" by (simp add: only_store_def set_entry_def)
  ultimately show ?thesis using r by blast
next
  case (Rx_Legacy l)
  have pin: "b \<in> set (rx_pinned c)" "distinct (b # bs)" "set (b # bs) \<subseteq> set (rx_pinned c)" "distinct (rx_pinned c)"
    using ok by (simp_all add: rx_ok_def pins_ok_def)
  let ?c1 = "c\<lparr>rx_pinned := remove1 b (rx_pinned c)\<rparr>"
  have r: "crystalhd_rx_buffer_release b c = Some ?c1" using Rx_Legacy pin by simp
  have "rx_entry_ok (?c1\<lparr>rx_owned := bs\<rparr>) e \<longleftrightarrow> rx_entry_ok (c\<lparr>rx_owned := b # bs\<rparr>) e" for e
    using pin Rx_Legacy by (auto simp: rx_entry_ok_def)
  then have "table_ok (?c1\<lparr>rx_owned := bs\<rparr>)" using ok by (simp add: rx_ok_def table_ok_def)
  moreover have "pins_ok (?c1\<lparr>rx_owned := bs\<rparr>)" using ok pin nd Rx_Legacy by (auto simp: rx_ok_def pins_ok_def)
  moreover have "mode_ok (?c1\<lparr>rx_owned := bs\<rparr>)" using ok by (auto simp: rx_ok_def mode_ok_def dest: in_set_remove1 [THEN iffD1, rotated] notin_set_remove1)
  ultimately have "rx_ok (?c1\<lparr>rx_owned := bs\<rparr>)" by (simp add: rx_ok_def)
  moreover have "calm c ?c1" by (simp add: calm_def)
  moreover have "only_store c ?c1" by (simp add: only_store_def)
  ultimately show ?thesis using r by blast
qed

lemma release_list:
  "rx_ok (c\<lparr>rx_owned := bs\<rparr>) \<Longrightarrow> rx_dma c = [] \<Longrightarrow> \<exists>c1. release_all bs c = Some c1 \<and> rx_ok (c1\<lparr>rx_owned := []\<rparr>) \<and> calm c c1 \<and> only_store c c1"
proof (induction bs arbitrary: c)
  case Nil
  then show ?case by (auto simp: only_store_def)
next
  case (Cons b bs)
  obtain c1 where c1: "crystalhd_rx_buffer_release b c = Some c1" "rx_ok (c1\<lparr>rx_owned := bs\<rparr>)" "calm c c1" "only_store c c1"
    using release_one [OF Cons.prems(1)] Cons.prems(2) by auto
  obtain c2 where c2: "release_all bs c1 = Some c2" "rx_ok (c2\<lparr>rx_owned := []\<rparr>)" "calm c1 c2" "only_store c1 c2" using Cons.IH [OF c1(2)] only_store_fields(10) [OF c1(4)] Cons.prems(2) by auto
  then show ?case using c1 c2 calm_trans [OF c1(3) c2(3)] only_store_trans [OF c1(4) c2(4)] by auto
qed

section \<open>Operations of the hardware layer\<close>

lemma release_owned:
  assumes "rx_ok c" "b \<in> set (rx_owned c)" "b \<notin> set (rx_dma c)"
  shows "\<exists>c1. crystalhd_rx_buffer_release b (c\<lparr>rx_owned := remove1 b (rx_owned c)\<rparr>) = Some c1 \<and> rx_ok c1 \<and> calm c c1 \<and>
    only_store (c\<lparr>rx_owned := remove1 b (rx_owned c)\<rparr>) c1"
proof -
  let ?d = "c\<lparr>rx_owned := remove1 b (rx_owned c)\<rparr>"
  have "distinct (rx_owned c)" using assms(1) by (simp add: rx_ok_def pins_ok_def)
  then have "rx_ok (c\<lparr>rx_owned := b # remove1 b (rx_owned c)\<rparr>)" using assms by (intro owned_perm) auto
  then have "rx_ok (?d\<lparr>rx_owned := b # remove1 b (rx_owned c)\<rparr>)" by simp
  from release_one [OF this] assms(3) obtain c1 where c1: "crystalhd_rx_buffer_release b ?d = Some c1" "rx_ok (c1\<lparr>rx_owned := remove1 b (rx_owned c)\<rparr>)"
    "calm ?d c1" "only_store ?d c1" by auto
  have "c1\<lparr>rx_owned := remove1 b (rx_owned c)\<rparr> = c1" using only_store_fields(1) [OF c1(4)] by (cases c1) simp
  moreover have "calm c c1" using c1(3) by (simp add: calm_def)
  ultimately show ?thesis using c1 by auto
qed

lemma release_all_owned:
  assumes "rx_ok c" "rx_dma c = []"
  shows "\<exists>c1. release_all (rx_owned c) (c\<lparr>rx_owned := []\<rparr>) = Some c1 \<and> rx_ok c1 \<and> calm c c1 \<and> only_store (c\<lparr>rx_owned := []\<rparr>) c1"
proof -
  have "rx_ok (c\<lparr>rx_owned := [], rx_owned := rx_owned c\<rparr>)" using assms by simp
  from release_list [OF this] assms(2) obtain c1 where c1: "release_all (rx_owned c) (c\<lparr>rx_owned := []\<rparr>) = Some c1" "rx_ok (c1\<lparr>rx_owned := []\<rparr>)"
    "calm (c\<lparr>rx_owned := []\<rparr>) c1" "only_store (c\<lparr>rx_owned := []\<rparr>) c1" by auto
  have "c1\<lparr>rx_owned := []\<rparr> = c1" using only_store_fields(1) [OF c1(4)] by (cases c1) simp
  moreover have "calm c c1" using c1(3) by (simp add: calm_def)
  ultimately show ?thesis using c1 by auto
qed

lemma no_owned_no_dma: "rx_ok c \<Longrightarrow> rx_owned c = [] \<Longrightarrow> rx_dma c = []"
  by (simp add: rx_ok_def pins_ok_def)

lemma rx_stop_spec:
  assumes "rx_ok c"
  shows "\<exists>sts c1. crystalhd_hw_stop_capture_locked a unmap c = Some (sts, c1) \<and> rx_ok c1 \<and> calm c c1 \<and>
    (sts = BC_STS_SUCCESS \<and> unmap \<longrightarrow> rx_owned c1 = []) \<and> (sts = BC_STS_SUCCESS \<longrightarrow> rx_dma c1 = []) \<and> rx_legacy_active c1 = rx_legacy_active c \<and>
    (rx_retained c1 = None \<longleftrightarrow> rx_retained c = None) \<and> (\<not> rx_dma_fault c \<and> \<not> ra_stop_fault a \<longrightarrow> sts = BC_STS_SUCCESS)"
proof (cases "rx_dma_fault c \<or> ra_no_queues a \<and> rx_owned c = []")
  case True
  then show ?thesis using assms no_owned_no_dma [OF assms] by (auto simp: crystalhd_hw_stop_capture_locked_def)
next
  case False
  define c2 where "c2 = stop_rx_dma_engines a (if unmap then c\<lparr>rx_cancel_epoch := rx_cancel_epoch c + 1\<rparr> else c)"
  have s: "same_rx c c2" "rx_legacy_active c2 = rx_legacy_active c" "rx_retained c2 = rx_retained c" "rx_dma_fault c2 \<longleftrightarrow> ra_stop_fault a"
    "\<not> ra_stop_fault a \<Longrightarrow> rx_dma c2 = []"
    using False by (simp_all add: same_rx_def c2_def stop_rx_dma_engines_def entries_of_def)
  then have ok2: "rx_ok c2" "calm c c2" using rx_ok_same [OF assms] by (auto intro!: calm_same simp: same_rx_def ent_def fun_eq_iff)
  have R: "crystalhd_hw_stop_capture_locked a unmap c = (if ra_stop_fault a then Some (BC_STS_IO_ERROR, c2)
      else if \<not> unmap then Some (BC_STS_SUCCESS, c2)
      else do { c3 \<leftarrow> release_all (rx_owned c2) (c2\<lparr>rx_owned := []\<rparr>); Some (BC_STS_SUCCESS, c3) })"
    unfolding crystalhd_hw_stop_capture_locked_def Let_def c2_def [symmetric] s(4) using False by (subst if_not_P; simp)
  show ?thesis
  proof (cases "ra_stop_fault a \<or> \<not> unmap")
    case True
    then show ?thesis unfolding R using ok2 s by auto
  next
    case False
    then have d: "rx_dma c2 = []" using s(5) by simp
    from release_all_owned [OF ok2(1) d] obtain c3 where c3: "release_all (rx_owned c2) (c2\<lparr>rx_owned := []\<rparr>) = Some c3" "rx_ok c3" "calm c2 c3"
      "only_store (c2\<lparr>rx_owned := []\<rparr>) c3" by auto
    have o: "rx_owned c3 = []" "rx_dma c3 = []" "rx_legacy_active c3 = rx_legacy_active c" "rx_retained c3 = None \<longleftrightarrow> rx_retained c = None"
      using only_store_fields(1,10,3,9) [OF c3(4)] s(2,3) d by simp_all
    show ?thesis unfolding R using False c3 o calm_trans [OF ok2(2) c3(3)] by auto
  qed
qed

lemma ready_iff: "b \<in> set (rx_ready c) \<longleftrightarrow> b \<in> set (rx_owned c) \<and> b \<notin> set (rx_dma c)"
  by (auto simp: rx_ready_def)

lemma dequeue_spec:
  assumes "rx_ok c"
  shows "(\<exists>sts c1. crystalhd_rx_dequeue_common a c = Some (Inl sts, c1) \<and> rx_ok c1 \<and> calm c c1) \<or>
    (\<exists>res. crystalhd_rx_dequeue_common a c = Some (Inr res, c\<lparr>rx_owned := remove1 (cp_owner res) (rx_owned c)\<rparr>) \<and> cp_owner res \<in> set (rx_ready c))"
proof (cases "ra_dequeue a")
  case (Dq_Fail sts gone)
  show ?thesis
  proof (cases "\<exists>i. gone = Some i \<and> \<not> rx_dma_fault c \<and> i < length (rx_ready c)")
    case True
    then obtain i where i: "gone = Some i" "i < length (rx_ready c)" "\<not> rx_dma_fault c" by blast
    note m = nth_mem [OF i(2), unfolded ready_iff]
    from release_owned [OF assms m [THEN conjunct1] m [THEN conjunct2]] obtain c1 where
      "crystalhd_rx_buffer_release (rx_ready c ! i) (c\<lparr>rx_owned := remove1 (rx_ready c ! i) (rx_owned c)\<rparr>) = Some c1" "rx_ok c1" "calm c c1" by auto
    then show ?thesis using assms i Dq_Fail by (simp add: crystalhd_rx_dequeue_common_def)
  next
    case False
    then show ?thesis using assms Dq_Fail by (auto simp: crystalhd_rx_dequeue_common_def split: option.splits)
  qed
next
  case (Dq_Done i flags epoch pib y uv)
  then show ?thesis using assms by (auto simp: crystalhd_rx_dequeue_common_def Let_def)
qed

lemma add_spec:
  "crystalhd_hw_add_cap_buffer a p b c = (sts, c1) \<Longrightarrow>
    \<exists>ds. c1 = (if sts = BC_STS_SUCCESS \<or> sts = BC_STS_BUSY then c\<lparr>rx_owned := rx_owned c @ [b], rx_dma := ds\<rparr> else c) \<and>
      set ds \<subseteq> insert b (set (rx_dma c)) \<and> (\<not> p \<longrightarrow> ds = rx_dma c \<and> sts \<noteq> BC_STS_BUSY)"
  by (intro exI [of _ "if p \<and> \<not> ra_paused a \<and> sts = BC_STS_SUCCESS then rx_dma c @ [b] else rx_dma c"]; cases "ra_desc a")
     (auto simp: crystalhd_hw_add_cap_buffer_def Let_def split: if_splits)

lemma ack_spec:
  assumes ok: "rx_ok c" and r: "cp_owner res \<in> set (rx_ready c)"
  shows "\<exists>sts c1. crystalhd_rx_ack_format a res (c\<lparr>rx_owned := remove1 (cp_owner res) (rx_owned c)\<rparr>) = Some (sts, c1) \<and> rx_ok c1 \<and> calm c c1"
proof -
  let ?b = "cp_owner res" and ?d = "c\<lparr>rx_owned := remove1 (cp_owner res) (rx_owned c)\<rparr>"
  have b: "?b \<in> set (rx_owned c)" "?b \<notin> set (rx_dma c)" using r by (simp_all add: ready_iff)
  from release_owned [OF ok b] obtain c1 where c1: "crystalhd_rx_buffer_release ?b ?d = Some c1" "rx_ok c1" "calm c c1" by auto
  obtain sts c2 where a: "crystalhd_hw_add_cap_buffer a False ?b ?d = (sts, c2)" by fastforce
  from add_spec [OF a] have A: "c2 = (if sts = BC_STS_SUCCESS then ?d\<lparr>rx_owned := rx_owned ?d @ [?b]\<rparr> else ?d)" by auto
  show ?thesis
  proof (cases "sts = BC_STS_SUCCESS")
    case True
    let ?c3 = "c2\<lparr>rx_state := rx_state c2 OR 4\<rparr>"
    have "distinct (rx_owned c)" using ok by (simp add: rx_ok_def pins_ok_def)
    then have "rx_ok c2" using A True ok b owned_perm [of c "remove1 ?b (rx_owned c) @ [?b]"] by (auto simp: insert_absorb)
    then have "rx_ok ?c3" by (rule rx_ok_same) (simp add: same_rx_def entries_of_def)
    moreover have "calm c ?c3" using A True by (intro calm_same) (auto simp: ent_def entries_of_def fun_eq_iff)
    ultimately show ?thesis using c1 a True by (auto simp: crystalhd_rx_ack_format_def Let_def)
  next
    case False
    then have "c2 = ?d" using A by auto
    then show ?thesis using c1 a False by (auto simp: crystalhd_rx_ack_format_def Let_def)
  qed
qed

section \<open>Cleanup\<close>

lemma unmap_fields [simp]:
  "rx_owned (unmap_entry s x c) = rx_owned c" "rx_serial (unmap_entry s x c) = rx_serial c" "ent (unmap_entry s x c) = ent c"
  "entries_of (unmap_entry s x c) = entries_of c" "rx_retained (unmap_entry s x c) = rx_retained c" "rx_legacy_active (unmap_entry s x c) = rx_legacy_active c"
  "rx_pinned (unmap_entry BC_STS_SUCCESS x c) = remove1 (Rx_Entry x) (rx_pinned c)" "rx_dma (unmap_entry s x c) = rx_dma c"
  by (auto simp: unmap_entry_def)

lemma drop_entry:
  assumes ok: "rx_ok c" and e: "ent c i = Some e" "en_state e \<noteq> BC_RX_QUEUED"
  shows "rx_ok (set_entry i None (unmap_entry BC_STS_SUCCESS (en_id e) c))"
proof -
  have p: "distinct (rx_pinned c)" "distinct (rx_owned c)" "set (rx_owned c) \<subseteq> set (rx_pinned c)" "set (rx_dma c) \<subseteq> set (rx_owned c)" using ok by (simp_all add: rx_ok_def pins_ok_def)
  have "Rx_Entry (en_id e) \<notin> set (rx_owned c)" using entry_okD [OF ok e(1)] e(2) by (simp add: rx_entry_ok_def)
  then show ?thesis
    by (intro slot_update [OF ok ent_len [OF e(1)], where x = "en_id e" and n = None]) (use p e ent_len [OF e(1)] in auto)
qed

text \<open>What unmapping the slots from \<open>i\<close> on leaves.\<close>

definition unmapped :: "nat \<Rightarrow> bool \<Rightarrow> rx_ctx \<Rightarrow> rx_ctx \<Rightarrow> bool" where
  "unmapped i ok c c1 \<longleftrightarrow> rx_ok c1 \<and> calm c c1 \<and> rx_owned c1 = rx_owned c \<and> rx_dma c1 = rx_dma c \<and> (ok \<longrightarrow> (\<forall>j\<ge>i. ent c1 j = None)) \<and> (\<forall>j<i. ent c1 j = ent c j) \<and>
     (rx_retained c1 = None \<longleftrightarrow> rx_retained c = None) \<and> length (entries_of c1) = length (entries_of c) \<and>
     rx_legacy_active c1 = rx_legacy_active c \<and> rx_serial c1 = rx_serial c"

lemma drop_Cons: "x # es = drop i xs \<Longrightarrow> i < length xs \<and> xs ! i = x \<and> es = drop (i + 1) xs"
  by (metis Cons_nth_drop_Suc Suc_eq_plus1 drop_all le_less_linear list.distinct(1) list.inject)

lemma unmap_spec:
  assumes "rx_ok c" "\<forall>j e. ent c j = Some e \<longrightarrow> en_state e \<noteq> BC_RX_QUEUED" "es = drop i (entries_of c)" "unmap_entries f i es c = (ok, c1)"
  shows "unmapped i ok c c1"
  using assms
proof (induction f i es c rule: unmap_entries.induct)
  case (1 f i c)
  then have "ent c j = None" if "j \<ge> i" for j using that by (auto simp: ent_def)
  then show ?case using 1 by (auto simp: unmapped_def)
next
  case (2 f i es c)
  from drop_Cons [OF 2(4)] have n: "ent c i = None" "es = drop (i + 1) (entries_of c)" by (simp_all add: ent_def)
  have "unmap_entries f (i + 1) es c = (ok, c1)" using 2(5) by simp
  then have I: "unmapped (i + 1) ok c c1" by (rule 2(1) [OF 2(2,3) n(2)])
  then have "ent c1 j = None" if "ok" "j \<ge> i" for j using that n(1) by (cases "j = i") (auto simp: unmapped_def)
  then show ?case using I by (auto simp: unmapped_def)
next
  case (3 f i e es c)
  from drop_Cons [OF 3(4)] have i: "i < length (entries_of c)" "ent c i = Some e" "es = drop (i + 1) (entries_of c)" by (auto simp: ent_def)
  show ?case
  proof (cases "f i = BC_STS_SUCCESS")
    case False
    then show ?thesis using 3(2,5) i(2) by (auto simp: unmapped_def)
  next
    case True
    let ?d = "set_entry i None (unmap_entry BC_STS_SUCCESS (en_id e) c)"
    have d: "rx_ok ?d" using drop_entry [OF 3(2) i(2)] 3(3) i(2) by auto
    have m: "ent ?d = (ent c)(i := None)" using i by simp
    have es: "es = drop (i + 1) (entries_of ?d)" using i(3) by (simp add: set_entry_def entries_of_def unmap_entry_def split: option.splits)
    have u: "unmap_entries f (i + 1) es ?d = (ok, c1)" using 3(5) True by simp
    have I: "unmapped (i + 1) ok ?d c1" by (rule 3(1) [OF _ d _ es u]) (use True m 3(3) in auto)
    have "calm c ?d" using m by (auto simp: calm_def)
    then have "calm c c1" using I calm_trans unfolding unmapped_def by blast
    moreover have "ent c1 j = None" if "ok" "j \<ge> i" for j using I that m by (cases "j = i") (auto simp: unmapped_def)
    ultimately show ?thesis using I m by (auto simp: unmapped_def)
  qed
qed

lemma cleanup_spec:
  assumes ok: "rx_ok c" and r: "retained_cleanup a destroy c = (b, c1)"
  shows "rx_ok c1 \<and> calm c c1 \<and> rx_owned c1 = rx_owned c"
proof (cases "rx_retained c = None \<or> find_entry (\<lambda>e. en_state e = 1) (entries_of c) 0 \<noteq> None")
  case True
  then have "c1 = c" using r by (auto simp: retained_cleanup_def entries_of_def split: option.splits)
  then show ?thesis using ok by simp
next
  case False
  then obtain reg where reg: "rx_retained c = Some reg" by auto
  have q: "\<forall>j e. ent c j = Some e \<longrightarrow> en_state e \<noteq> 1" using False find_ent_None [of "\<lambda>e. en_state e = 1" c] by auto
  obtain d c2 where u: "unmap_entries (ra_unmap a) 0 (rr_entries reg) c = (d, c2)" by fastforce
  have U: "unmapped 0 d c c2" by (rule unmap_spec [OF ok q _ u]) (simp add: entries_of_def reg)
  have R: "(b, c1) = (if \<not> d then (False, c2) else if destroy then (True, c2\<lparr>rx_retained := None\<rparr>)
      else if rx_serial c2 = - 1 then (True, c2\<lparr>rx_retained := map_option (\<lambda>r. r\<lparr>rr_stale := True\<rparr>) (rx_retained c2)\<rparr>)
      else (True, c2\<lparr>rx_serial := rx_serial c2 + 1, rx_retained := map_option (\<lambda>r. r\<lparr>rr_stale := False, rr_generation := rx_serial c2 + 1\<rparr>) (rx_retained c2)\<rparr>))"
    using r False reg u by (simp add: retained_cleanup_def entries_of_def)
  have ok2: "rx_ok c2" "calm c c2" "rx_owned c2 = rx_owned c" using U by (simp_all add: unmapped_def)
  show ?thesis
  proof (cases "d \<and> destroy")
    case True
    then have "ent c2 = (\<lambda>_. None)" using U by (auto simp: unmapped_def)
    then have "rx_ok (c2\<lparr>rx_retained := None\<rparr>)" using ok2(1) by (simp add: rx_ok_def table_ok_def pins_ok_def mode_ok_def)
    moreover have "calm c (c2\<lparr>rx_retained := None\<rparr>)" using ok2(2) by (simp add: calm_def)
    ultimately show ?thesis using True R ok2(3) by auto
  next
    case False
    then have "same_rx c2 c1" using R word_le_plus_one [of "rx_serial c2"]
      by (auto simp: same_rx_def entries_of_def split: if_splits option.splits)
    moreover then have "calm c2 c1" by (intro calm_same) (auto simp: same_rx_def ent_def fun_eq_iff)
    ultimately show ?thesis using ok2 rx_ok_same [OF ok2(1)] calm_trans by (auto simp: same_rx_def)
  qed
qed

section \<open>Leases\<close>

fun fetched :: "lease_event list \<Rightarrow> (u64 \<times> u64) list" where
  "fetched [] = []"
| "fetched (Fetched i s # evs) = (i, s) # fetched evs"
| "fetched (Returned i s # evs) = fetched evs"

fun returned :: "lease_event list \<Rightarrow> (u64 \<times> u64) list" where
  "returned [] = []"
| "returned (Fetched i s # evs) = returned evs"
| "returned (Returned i s # evs) = (i, s) # returned evs"

lemma fetched_append [simp]: "fetched (xs @ ys) = fetched xs @ fetched ys"
  by (induction xs rule: fetched.induct) simp_all

lemma returned_append [simp]: "returned (xs @ ys) = returned xs @ returned ys"
  by (induction xs rule: returned.induct) simp_all

text \<open>A lease is given once, and returned at most once and only after it was given.\<close>

inductive lease_log :: "lease_event list \<Rightarrow> bool" where
  lease_none: "lease_log []"
| lease_given: "lease_log evs \<Longrightarrow> (i, s) \<notin> set (fetched evs) \<Longrightarrow> lease_log (evs @ [Fetched i s])"
| lease_back: "lease_log evs \<Longrightarrow> (i, s) \<in> set (fetched evs) \<Longrightarrow> (i, s) \<notin> set (returned evs) \<Longrightarrow> lease_log (evs @ [Returned i s])"

abbreviation (input) rx_lease_of :: "retained_rx_entry \<Rightarrow> u64 \<times> u64" where
  "rx_lease_of e \<equiv> (rk_registration_id (en_key e), rk_borrow_sequence (en_key e))"

definition rx_lease_ok :: "rx_ctx \<Rightarrow> lease_event list \<Rightarrow> bool" where
  "rx_lease_ok c evs \<longleftrightarrow> lease_log evs \<and> (\<forall>i s. (i, s) \<in> set (fetched evs) \<longrightarrow> i \<le> rx_serial c \<and>
       (\<forall>k e. ent c k = Some e \<longrightarrow> rk_registration_id (en_key e) = i \<longrightarrow> s \<le> rk_borrow_sequence (en_key e))) \<and>
     (\<forall>k e. ent c k = Some e \<longrightarrow> en_state e = BC_RX_BORROWED \<longrightarrow> rx_lease_of e \<in> set (fetched evs) - set (returned evs))"

lemma lease_calm:
  assumes "rx_lease_ok c evs" "calm c c1"
  shows "rx_lease_ok c1 evs"
proof -
  have s: "rx_serial c \<le> rx_serial c1" using assms(2) by (simp add: calm_def)
  have old: "\<exists>e. ent c k = Some e \<and> rx_lease_of e1 = rx_lease_of e \<and> (en_state e1 = 2 \<longrightarrow> en_state e = 2)"
    if "ent c1 k = Some e1" "rk_registration_id (en_key e1) \<le> rx_serial c \<or> en_state e1 = 2" for k e1
    using assms(2) that unfolding calm_def by fastforce
  have "i \<le> rx_serial c1 \<and> (\<forall>k e. ent c1 k = Some e \<longrightarrow> rk_registration_id (en_key e) = i \<longrightarrow> s \<le> rk_borrow_sequence (en_key e))"
    if "(i, s) \<in> set (fetched evs)" for i s
  proof -
    have i: "i \<le> rx_serial c" using that assms(1) by (auto simp: rx_lease_ok_def)
    have "s \<le> rk_borrow_sequence (en_key e)" if e: "ent c1 k = Some e" "rk_registration_id (en_key e) = i" for k e
    proof -
      obtain e0 where "ent c k = Some e0" "rx_lease_of e = rx_lease_of e0" using old [OF e(1)] e(2) i by auto
      then show ?thesis using assms(1) e(2) \<open>(i, s) \<in> set (fetched evs)\<close> unfolding rx_lease_ok_def by (metis Pair_inject)
    qed
    then show ?thesis using i s by auto
  qed
  moreover have "rx_lease_of e \<in> set (fetched evs) - set (returned evs)" if b: "ent c1 k = Some e" "en_state e = 2" for k e
  proof -
    obtain e0 where "ent c k = Some e0" "rx_lease_of e = rx_lease_of e0" "en_state e0 = 2" using old [OF b(1)] b(2) by auto
    then show ?thesis using assms(1) unfolding rx_lease_ok_def by metis
  qed
  ultimately show ?thesis using assms(1) unfolding rx_lease_ok_def by blast
qed

definition takes :: "rx_ctx \<Rightarrow> rx_ctx \<Rightarrow> u64 \<Rightarrow> u64 \<Rightarrow> bool" where
  "takes c c1 i s \<longleftrightarrow> rx_serial c1 = rx_serial c \<and> (\<exists>k e e1. ent c k = Some e \<and> ent c1 = (ent c)(k := Some e1) \<and>
     rk_registration_id (en_key e) = i \<and> rk_borrow_sequence (en_key e) \<noteq> - 1 \<and> s = rk_borrow_sequence (en_key e) + 1 \<and> rx_lease_of e1 = (i, s))"

definition gives :: "rx_ctx \<Rightarrow> rx_ctx \<Rightarrow> u64 \<Rightarrow> u64 \<Rightarrow> bool" where
  "gives c c1 i s \<longleftrightarrow> rx_serial c1 = rx_serial c \<and> (\<exists>k e n. ent c k = Some e \<and> en_state e = BC_RX_BORROWED \<and> rx_lease_of e = (i, s) \<and>
     ent c1 = (ent c)(k := n) \<and> (\<forall>e1. n = Some e1 \<longrightarrow> rx_lease_of e1 = (i, s) \<and> en_state e1 \<noteq> BC_RX_BORROWED))"

lemma regid_unique: "rx_ok c \<Longrightarrow> ent c j = Some e \<Longrightarrow> ent c k = Some e' \<Longrightarrow> rk_registration_id (en_key e) = rk_registration_id (en_key e') \<Longrightarrow> j = k"
  using no_clash [of c j e k e'] by (auto simp: clash_def)

lemma lease_takes:
  assumes "rx_lease_ok c evs" "rx_ok c" "takes c c1 i s"
  shows "rx_lease_ok c1 (evs @ [Fetched i s])"
proof -
  from assms(3) obtain k e e1 where t: "rx_serial c1 = rx_serial c" "ent c k = Some e" "ent c1 = (ent c)(k := Some e1)" "rk_registration_id (en_key e) = i"
    "rk_borrow_sequence (en_key e) \<noteq> - 1" "s = rk_borrow_sequence (en_key e) + 1" "rx_lease_of e1 = (i, s)" unfolding takes_def by blast
  have lt: "rk_borrow_sequence (en_key e) < s" using t(5,6) word_le_plus_one [of "rk_borrow_sequence (en_key e)"] by (simp add: less_le)
  have bound: "t \<le> rk_borrow_sequence (en_key e)" if "(i, t) \<in> set (fetched evs)" for t
    using assms(1) that t(2,4) unfolding rx_lease_ok_def by blast
  then have new: "(i, s) \<notin> set (fetched evs)" using lt by fastforce
  then have "lease_log (evs @ [Fetched i s])" using assms(1) by (auto simp: rx_lease_ok_def intro: lease_given)
  moreover have "i' \<le> rx_serial c1 \<and> (\<forall>k' e'. ent c1 k' = Some e' \<longrightarrow> rk_registration_id (en_key e') = i' \<longrightarrow> s' \<le> rk_borrow_sequence (en_key e'))"
    if "(i', s') \<in> set (fetched evs) \<or> (i', s') = (i, s)" for i' s'
  proof -
    have "i \<le> rx_serial c" using entry_okD [OF assms(2) t(2)] t(4) by (simp add: rx_entry_ok_def)
    then have "i' \<le> rx_serial c" using that assms(1) by (auto simp: rx_lease_ok_def)
    moreover have "s' \<le> rk_borrow_sequence (en_key e')" if e': "ent c1 k' = Some e'" "rk_registration_id (en_key e') = i'" for k' e'
    proof (cases "k' = k")
      case True
      then have "e' = e1" using e'(1) t(3) by simp
      moreover have "s' \<le> s" if "(i, s') \<in> set (fetched evs)" using bound [OF that] lt by (rule order_trans [OF _ less_imp_le])
      ultimately show ?thesis using \<open>_ \<or> _\<close> e'(2) t(7) by auto
    next
      case False
      then have o: "ent c k' = Some e'" using e'(1) t(3) by simp
      then have "i' \<noteq> i" using regid_unique [OF assms(2) o t(2)] False e'(2) t(4) by auto
      then show ?thesis using \<open>_ \<or> _\<close> o e'(2) assms(1) unfolding rx_lease_ok_def by blast
    qed
    ultimately show ?thesis using t(1) by simp
  qed
  moreover have "rx_lease_of e' \<in> set (fetched (evs @ [Fetched i s])) - set (returned (evs @ [Fetched i s]))" if e': "ent c1 k' = Some e'" "en_state e' = 2" for k' e'
  proof (cases "k' = k")
    case True
    have "set (returned evs) \<subseteq> set (fetched evs)" if "lease_log evs" for evs using that by induction auto
    then show ?thesis using True e' t(3,7) new assms(1) by (auto simp: rx_lease_ok_def)
  next
    case False
    then have "rx_lease_of e' \<in> set (fetched evs) - set (returned evs)" using assms(1) e' t(3) unfolding rx_lease_ok_def by auto
    then show ?thesis by auto
  qed
  ultimately show ?thesis unfolding rx_lease_ok_def by auto
qed

lemma lease_gives:
  assumes "rx_lease_ok c evs" "rx_ok c" "gives c c1 i s"
  shows "rx_lease_ok c1 (evs @ [Returned i s])"
proof -
  from assms(3) obtain k e n where t: "rx_serial c1 = rx_serial c" "ent c k = Some e" "en_state e = 2" "rx_lease_of e = (i, s)" "ent c1 = (ent c)(k := n)"
    "\<forall>e1. n = Some e1 \<longrightarrow> rx_lease_of e1 = (i, s) \<and> en_state e1 \<noteq> 2" unfolding gives_def by blast
  have l: "(i, s) \<in> set (fetched evs) - set (returned evs)" using assms(1) t(2-4) unfolding rx_lease_ok_def by metis
  then have "lease_log (evs @ [Returned i s])" using assms(1) by (auto simp: rx_lease_ok_def intro: lease_back)
  moreover have "i' \<le> rx_serial c1 \<and> (\<forall>k' e'. ent c1 k' = Some e' \<longrightarrow> rk_registration_id (en_key e') = i' \<longrightarrow> s' \<le> rk_borrow_sequence (en_key e'))"
    if "(i', s') \<in> set (fetched evs)" for i' s'
  proof -
    have b: "i' \<le> rx_serial c" "\<And>k' e'. ent c k' = Some e' \<Longrightarrow> rk_registration_id (en_key e') = i' \<Longrightarrow> s' \<le> rk_borrow_sequence (en_key e')"
      using that assms(1) unfolding rx_lease_ok_def by blast+
    have "s' \<le> rk_borrow_sequence (en_key e')" if "ent c1 k' = Some e'" "rk_registration_id (en_key e') = i'" for k' e'
      using b(2) [OF t(2)] b(2) that t(4-6) by (cases "k' = k") auto
    then show ?thesis using b(1) t(1) by simp
  qed
  moreover have "rx_lease_of e' \<in> set (fetched (evs @ [Returned i s])) - set (returned (evs @ [Returned i s]))" if e': "ent c1 k' = Some e'" "en_state e' = 2" for k' e'
  proof -
    have k: "k' \<noteq> k" using e' t(5,6) by auto
    then have o: "ent c k' = Some e'" using e'(1) t(5) by simp
    then have "rk_registration_id (en_key e') \<noteq> i" using regid_unique [OF assms(2) o t(2)] k t(4) by auto
    moreover have "rx_lease_of e' \<in> set (fetched evs) - set (returned evs)" using assms(1) o e'(2) unfolding rx_lease_ok_def by blast
    ultimately show ?thesis by auto
  qed
  ultimately show ?thesis unfolding rx_lease_ok_def by auto
qed

section \<open>Registration\<close>

lemma submit_spec:
  assumes "crystalhd_rx_submit a b c = (sts, c1)"
  shows "\<exists>ds. c1 = (if sts = BC_STS_SUCCESS then c\<lparr>rx_owned := rx_owned c @ [b], rx_dma := ds\<rparr> else c) \<and> set ds \<subseteq> insert b (set (rx_dma c))"
proof -
  obtain sts2 c2 where x: "crystalhd_hw_add_cap_buffer a (rx_state c = 7) b c = (sts2, c2)" by fastforce
  from add_spec [OF x] obtain ds where ds: "c2 = (if sts2 = BC_STS_SUCCESS \<or> sts2 = BC_STS_BUSY then c\<lparr>rx_owned := rx_owned c @ [b], rx_dma := ds\<rparr> else c)"
    "set ds \<subseteq> insert b (set (rx_dma c))" by blast
  have "(sts, c1) = (if ra_interrupted a then (BC_STS_IO_USER_ABORT, c) else (if sts2 = BC_STS_BUSY then BC_STS_SUCCESS else sts2, c2))"
    using assms unfolding crystalhd_rx_submit_def x Let_def prod.case by (rule sym)
  then have "c1 = (if sts = BC_STS_SUCCESS then c\<lparr>rx_owned := rx_owned c @ [b], rx_dma := ds\<rparr> else c)" unfolding ds(1) by (simp split: if_splits)
  then show ?thesis using ds(2) by blast
qed

lemma publish_spec:
  assumes ok: "rx_ok c" and r: "registry_publish a ic c = (sts, c1)"
  shows "rx_ok c1 \<and> calm c c1 \<and> (sts = BC_STS_SUCCESS \<longrightarrow> rx_retained c1 \<noteq> None) \<and> rx_pinned c1 = rx_pinned c"
proof (cases "rx_retained c = None \<and> rx_serial c \<noteq> - 1 \<and> ra_kzalloc a \<and> rx_legacy_active c = 0 \<and> crystalhd_hw_rx_idle a c")
  case False
  then show ?thesis using assms by (auto simp: registry_publish_def split: if_splits)
next
  case True
  have "b \<notin> set (rx_pinned c)" for b using ok True by (cases b) (auto simp: rx_ok_def pins_ok_def crystalhd_hw_rx_idle_def)
  then have p: "rx_pinned c = []" by (cases "rx_pinned c") auto
  have q: "rx_owned c = []" using True by (simp add: crystalhd_hw_rx_idle_def)
  then have d: "rx_dma c = []" using ok by (simp add: rx_ok_def pins_ok_def)
  have c1: "sts = BC_STS_SUCCESS" "c1 = c\<lparr>rx_serial := rx_serial c + 1, rx_retained := Some \<lparr>rr_file_owner = the (ic_file_owner ic), rr_file_epoch = ic_file_epoch ic,
      rr_user = ic_u_id ic, rr_generation = rx_serial c + 1, rr_stale = False, rr_entries = replicate 16 None\<rparr>\<rparr>"
    using r True by (auto simp: registry_publish_def)
  have e: "ent c1 = (\<lambda>_. None)" by (auto simp: c1(2) ent_def entries_of_def)
  have "rx_ok c1" using e True p d by (simp add: rx_ok_def table_ok_def pins_ok_def mode_ok_def) (simp add: c1(2) p q d True)
  moreover have "calm c c1" using e word_le_plus_one [of "rx_serial c"] True by (simp add: calm_def) (simp add: c1(2))
  ultimately show ?thesis using c1 by simp
qed

lemma word_no_wrap: "ucast (k :: u32) \<le> - 1 - (a :: u64) \<Longrightarrow> unat a + unat k < 2 ^ 64"
proof -
  assume "ucast k \<le> - 1 - a"
  then have "unat k \<le> unat (- 1 - a)" by (simp add: word_le_nat_alt)
  moreover have "unat (- 1 - a) = 2 ^ 64 - 1 - unat a" using unat_sub [OF word_n1_ge [of a]] by (simp add: unsigned_minus_1_eq_mask mask_eq_exp_minus_1)
  moreover have "unat a < 2 ^ 64" using unsigned_less [of a] by simp
  ultimately show ?thesis by simp
qed

definition register_ready :: "rx_ctx \<Rightarrow> nat \<Rightarrow> nat \<Rightarrow> rx_registration \<Rightarrow> bool" where
  "register_ready c slot eid key \<longleftrightarrow> rx_ok c \<and> slot < length (entries_of c) \<and> ent c slot = None \<and> Rx_Entry eid \<notin> set (rx_pinned c) \<and>
     rx_serial c \<noteq> - 1 \<and> unat (rk_user_address key) + unat (rk_capacity key) < 2 ^ 64 \<and>
     (\<forall>k e. ent c k = Some e \<longrightarrow> \<not> ranges_overlap key (en_key e))"

lemma fresh_entry:
  assumes r: "register_ready c slot eid key"
    and e: "en_id e = eid" "en_state e \<noteq> BC_RX_BORROWED" "rk_registration_id (en_key e) = rx_serial c + 1"
      "rk_user_address (en_key e) = rk_user_address key" "rk_capacity (en_key e) = rk_capacity key"
    and k: "ent c k = Some e'"
  shows "\<not> clash e e'"
proof -
  have ok: "rx_ok c" using r by (simp add: register_ready_def)
  note E = entry_okD [OF ok k]
  have "eid \<noteq> en_id e'" using r entry_pinned [OF ok k] by (auto simp: register_ready_def)
  moreover have "rx_serial c < rx_serial c + 1" using r word_le_plus_one [of "rx_serial c"] by (auto simp: register_ready_def less_le)
  moreover have "\<not> ranges_overlap (en_key e) (en_key e')" using r k e(4,5) by (auto simp: register_ready_def ranges_overlap_def)
  ultimately show ?thesis using E e by (auto simp: clash_def rx_entry_ok_def)
qed

lemma place_entry:
  assumes r: "register_ready c slot eid key"
    and e: "en_id e = eid" "en_state e = 0 \<or> en_state e = BC_RX_QUEUED" "rk_registration_id (en_key e) = rx_serial c + 1"
      "rk_user_address (en_key e) = rk_user_address key" "rk_capacity (en_key e) = rk_capacity key"
    and c1: "ent c1 = (ent c)(slot := Some e)" "length (entries_of c1) = length (entries_of c)" "rx_retained c1 = None \<longleftrightarrow> rx_retained c = None"
      "rx_serial c1 = rx_serial c + 1" "rx_legacy_active c1 = rx_legacy_active c" "rx_pinned c1 = rx_pinned c @ [Rx_Entry eid]"
      "rx_owned c1 = (if en_state e = BC_RX_QUEUED then rx_owned c @ [Rx_Entry eid] else rx_owned c)"
      "set (rx_dma c1) \<subseteq> set (rx_owned c1)"
  shows "rx_ok c1 \<and> calm c c1"
proof -
  have R: "rx_ok c" "slot < length (entries_of c)" "ent c slot = None" "Rx_Entry eid \<notin> set (rx_pinned c)" "rx_serial c \<noteq> - 1"
    using r by (simp_all add: register_ready_def)
  have p: "distinct (rx_pinned c)" "distinct (rx_owned c)" "set (rx_owned c) \<subseteq> set (rx_pinned c)" using R(1) by (simp_all add: rx_ok_def pins_ok_def)
  have lt: "rx_serial c < rx_serial c + 1" using R(5) word_le_plus_one [of "rx_serial c"] by (simp add: less_le)
  then have gt: "0 < rx_serial c + 1" by (rule le_less_trans [OF word_zero_le])
  have "rx_ok c1"
  proof (rule slot_update [OF R(1,2) c1(1-3), where x = eid])
    show "en_id e' = eid \<and> rx_entry_ok c1 e'" if "Some e = Some e'" for e'
      using that e r c1 p R gt by (auto simp: rx_entry_ok_def register_ready_def)
    show "\<not> clash e1 e'" if "Some e = Some e1" "j \<noteq> slot" "ent c j = Some e'" for e1 j e'
      using fresh_entry [OF r e(1) _ e(3-5) that(3)] that(1) e(2) by auto
  qed (use R p lt c1 in auto)
  moreover have "calm c c1" using c1(1,4) lt e(2,3) by (auto simp: calm_def)
  ultimately show ?thesis by blast
qed

lemma register_entry_spec:
  assumes r: "register_ready c slot eid key" and x: "register_entry a slot eid key reg c = (sts, k, c1)"
  shows "rx_ok c1 \<and> calm c c1"
proof -
  define key1 where "key1 = key\<lparr>rk_registration_id := rx_serial c + 1, rk_capture_generation := rr_generation reg, rk_state := 1\<rparr>"
  define e where "e = \<lparr>en_id = eid, en_key = key1, en_capture_epoch = rx_cancel_epoch c, en_state = 1\<rparr>"
  define c2 where "c2 = set_entry slot (Some e) (c\<lparr>rx_pinned := rx_pinned c @ [Rx_Entry eid], rx_serial := rx_serial c + 1\<rparr>)"
  obtain sts2 c3 where s: "crystalhd_rx_submit a (Rx_Entry eid) c2 = (sts2, c3)" by fastforce
  let ?z = "set_entry slot (Some (e\<lparr>en_state := 0\<rparr>)) c3"
  have c1: "c1 = (if sts2 = BC_STS_SUCCESS then c3 else if ra_unmap a slot \<noteq> BC_STS_SUCCESS then set_stale ?z
      else set_entry slot None (unmap_entry BC_STS_SUCCESS eid ?z))"
    using x s by (auto simp: register_entry_def Let_def c2_def e_def key1_def split: if_splits)
  have R: "rx_ok c" "slot < length (entries_of c)" "ent c slot = None" "Rx_Entry eid \<notin> set (rx_pinned c)" "rx_serial c \<noteq> - 1"
    using r by (simp_all add: register_ready_def)
  have le: "rx_serial c \<le> rx_serial c + 1" using R(5) by (rule word_le_plus_one)
  have fields: "entries_of (c\<lparr>rx_pinned := p, rx_serial := n\<rparr>) = entries_of c" "ent (c\<lparr>rx_pinned := p, rx_serial := n\<rparr>) = ent c" for p n
    by (simp_all add: entries_of_def ent_def fun_eq_iff)
  from submit_spec [OF s] obtain ds where S: "c3 = (if sts2 = BC_STS_SUCCESS then c2\<lparr>rx_owned := rx_owned c2 @ [Rx_Entry eid], rx_dma := ds\<rparr> else c2)"
    "set ds \<subseteq> insert (Rx_Entry eid) (set (rx_dma c2))" by blast
  have dma: "set (rx_dma c) \<subseteq> set (rx_owned c)" "rx_dma c2 = rx_dma c" using R(1) by (simp_all add: rx_ok_def pins_ok_def c2_def)
  have e: "en_id e = eid" "en_state e = 1" "rk_registration_id (en_key e) = rx_serial c + 1" "rk_user_address (en_key e) = rk_user_address key"
    "rk_capacity (en_key e) = rk_capacity key" by (simp_all add: e_def key1_def)
  consider "sts2 = BC_STS_SUCCESS" | "sts2 \<noteq> BC_STS_SUCCESS" "ra_unmap a slot \<noteq> BC_STS_SUCCESS" | "sts2 \<noteq> BC_STS_SUCCESS" "ra_unmap a slot = BC_STS_SUCCESS" by blast
  then show ?thesis
  proof cases
    case 1
    show ?thesis by (rule place_entry [OF r e(1) _ e(3-5)]) (use 1 c1 S dma R e(2) in \<open>auto simp: c2_def fields\<close>)
  next
    case 2
    let ?e = "e\<lparr>en_state := 0\<rparr>"
    show ?thesis by (rule place_entry [OF r, where e = ?e]) (use 2 c1 S dma R e in \<open>auto simp: c2_def fields\<close>)
  next
    case 3
    have m: "ent c1 = (ent c)(slot := None)" "length (entries_of c1) = length (entries_of c)" using 3 c1 S R by (auto simp: c2_def fields)
    have p: "rx_pinned c1 = rx_pinned c" "rx_owned c1 = rx_owned c" "rx_serial c1 = rx_serial c + 1"
      using 3 c1 S R(4) by (auto simp: c2_def remove1_append)
    have "rx_ok c1"
      by (rule slot_update [OF R(1,2) m, where x = eid])
         (use 3 c1 S R p le in \<open>auto simp: c2_def rx_ok_def pins_ok_def\<close>)
    moreover have "calm c c1" using m p(3) le by (auto simp: calm_def)
    ultimately show ?thesis by blast
  qed
qed

lemma find_slot_Some: "find_slot es k = Some i \<Longrightarrow> k \<le> i \<and> i - k < length es \<and> es ! (i - k) = None"
proof (induction es arbitrary: k)
  case (Cons x es)
  then show ?case by (cases x) (auto simp: nth_Cons' split: if_splits dest!: Cons.IH)
qed simp

lemma register_spec:
  assumes ok: "rx_ok c" and fr: "\<And>e. ra_entry a = Some e \<Longrightarrow> Rx_Entry e \<notin> set (rx_pinned c)"
    and x: "crystalhd_retained_register a ic key c = (sts, k, c1)"
  shows "rx_ok c1 \<and> calm c c1"
proof -
  obtain sts2 c2 where p: "registry_publish a ic c = (sts2, c2)" by fastforce
  note P = publish_spec [OF ok p]
  show ?thesis
  proof (cases "c1 = c \<or> c1 = c2")
    case True
    then show ?thesis using ok P by auto
  next
    case False
    then obtain reg slot eid where q: "sts2 = BC_STS_SUCCESS" "rx_retained c2 = Some reg" "rx_serial c2 \<noteq> - 1" "\<not> ucast (rk_capacity key) > - 1 - rk_user_address key"
      "find_entry (\<lambda>e. ranges_overlap key (en_key e)) (rr_entries reg) 0 = None" "find_slot (rr_entries reg) 0 = Some slot" "ra_entry a = Some eid"
      and c1: "c1 = snd (snd (register_entry a slot eid key reg c2))"
      using x p by (auto simp: crystalhd_retained_register_def Let_def simp del: not_None_eq split: if_splits option.splits prod.splits)
    have es: "entries_of c2 = rr_entries reg" using q(2) by (simp add: entries_of_def)
    have "register_ready c2 slot eid key"
      using P fr q find_slot_Some [OF q(6)] word_no_wrap [of "rk_capacity key" "rk_user_address key"]
        find_ent_None [of "\<lambda>e. ranges_overlap key (en_key e)" c2, unfolded es]
      by (auto simp: register_ready_def es ent_def not_less)
    from register_entry_spec [OF this, of a reg] have "rx_ok c1 \<and> calm c2 c1" unfolding c1 by (cases "register_entry a slot eid key reg c2") auto
    then show ?thesis using P calm_trans by blast
  qed
qed

section \<open>Fetch and return\<close>

text \<open>An entry keeps its memory, its number and its range while its lease changes.\<close>

definition same_place :: "retained_rx_entry \<Rightarrow> retained_rx_entry \<Rightarrow> bool" where
  "same_place e e1 \<longleftrightarrow> en_id e1 = en_id e \<and> rk_registration_id (en_key e1) = rk_registration_id (en_key e) \<and>
     rk_user_address (en_key e1) = rk_user_address (en_key e) \<and> rk_capacity (en_key e1) = rk_capacity (en_key e)"

lemma move_entry:
  assumes ok: "rx_ok c" and e: "ent c i = Some e" "same_place e e1" "en_state e1 = 0 \<or> en_state e1 = 1 \<or> en_state e1 = 2"
      "en_state e1 = 2 \<Longrightarrow> \<forall>j e'. ent c j = Some e' \<longrightarrow> j \<noteq> i \<longrightarrow> en_state e' \<noteq> 2"
    and c1: "ent c1 = (ent c)(i := Some e1)" "length (entries_of c1) = length (entries_of c)" "rx_retained c1 = None \<longleftrightarrow> rx_retained c = None"
      "rx_serial c1 = rx_serial c" "rx_legacy_active c1 = rx_legacy_active c" "rx_pinned c1 = rx_pinned c"
      "distinct (rx_owned c1)" "set (rx_owned c1) = (if en_state e1 = 1 then insert (Rx_Entry (en_id e)) (set (rx_owned c)) else set (rx_owned c) - {Rx_Entry (en_id e)})"
      "set (rx_dma c1) \<subseteq> set (rx_owned c1)"
  shows "rx_ok c1"
proof (rule slot_update [OF ok ent_len [OF e(1)] c1(1-3), where x = "en_id e"])
  note E = entry_okD [OF ok e(1)]
  have p: "distinct (rx_pinned c)" "set (rx_owned c) \<subseteq> set (rx_pinned c)" "Rx_Entry (en_id e) \<in> set (rx_pinned c)"
    using ok E by (simp_all add: rx_ok_def pins_ok_def rx_entry_ok_def)
  show "en_id e' = en_id e \<and> rx_entry_ok c1 e'" if "Some e1 = Some e'" for e'
    using that E e(2,3) c1 p by (auto simp: rx_entry_ok_def same_place_def)
  show "\<not> clash e' e''" if n: "Some e1 = Some e'" "j \<noteq> i" "ent c j = Some e''" for e' j e''
  proof -
    have "\<not> clash e e''" using no_clash [OF ok e(1) n(3)] n(2) by auto
    then show ?thesis using n e(2,4) by (auto simp: clash_def same_place_def ranges_overlap_def)
  qed
  show "distinct (rx_pinned c1)" "set (rx_owned c1) \<subseteq> set (rx_pinned c1)" using p c1 by (auto split: if_splits)
  show "\<forall>b. b \<noteq> Rx_Entry (en_id e) \<longrightarrow> (b \<in> set (rx_owned c1)) = (b \<in> set (rx_owned c)) \<and> (b \<in> set (rx_pinned c1)) = (b \<in> set (rx_pinned c))"
    using c1 by (auto split: if_splits)
qed (use c1 e in auto)

lemma stale_ok: "rx_ok c \<Longrightarrow> rx_ok (set_stale c)" "calm c c1 \<Longrightarrow> calm c (set_stale c1)"
proof -
  show "rx_ok c \<Longrightarrow> rx_ok (set_stale c)" by (erule rx_ok_same) (simp add: same_rx_def)
  show "calm c c1 \<Longrightarrow> calm c (set_stale c1)" by (simp add: calm_def)
qed

text \<open>The entry at slot \<open>i\<close> leaves the device.\<close>

lemma take_entry:
  assumes ok: "rx_ok c" and e: "ent c i = Some e" "same_place e e1" "en_state e1 = 0 \<or> en_state e1 = 2"
    and o: "\<forall>j e'. ent c j = Some e' \<longrightarrow> en_state e' \<noteq> 2" and d: "Rx_Entry (en_id e) \<notin> set (rx_dma c)"
  shows "rx_ok (set_entry i (Some e1) (c\<lparr>rx_owned := remove1 (Rx_Entry (en_id e)) (rx_owned c)\<rparr>))"
proof (rule move_entry [OF ok e(1,2)])
  have "distinct (rx_owned c)" "set (rx_dma c) \<subseteq> set (rx_owned c)" using ok by (simp_all add: rx_ok_def pins_ok_def)
  then show "distinct (rx_owned (set_entry i (Some e1) (c\<lparr>rx_owned := remove1 (Rx_Entry (en_id e)) (rx_owned c)\<rparr>)))"
    "set (rx_owned (set_entry i (Some e1) (c\<lparr>rx_owned := remove1 (Rx_Entry (en_id e)) (rx_owned c)\<rparr>))) =
      (if en_state e1 = 1 then insert (Rx_Entry (en_id e)) (set (rx_owned c)) else set (rx_owned c) - {Rx_Entry (en_id e)})"
    "set (rx_dma (set_entry i (Some e1) (c\<lparr>rx_owned := remove1 (Rx_Entry (en_id e)) (rx_owned c)\<rparr>))) \<subseteq>
      set (rx_owned (set_entry i (Some e1) (c\<lparr>rx_owned := remove1 (Rx_Entry (en_id e)) (rx_owned c)\<rparr>)))"
    using e(3) d by auto
qed (use e o ent_len [OF e(1)] in auto)

lemma takesI:
  "ent c k = Some e \<Longrightarrow> ent c1 = (ent c)(k := Some e1) \<Longrightarrow> rx_serial c1 = rx_serial c \<Longrightarrow> rk_registration_id (en_key e) = i \<Longrightarrow>
    rk_borrow_sequence (en_key e) \<noteq> - 1 \<Longrightarrow> s = rk_borrow_sequence (en_key e) + 1 \<Longrightarrow> rx_lease_of e1 = (i, s) \<Longrightarrow> takes c c1 i s"
  unfolding takes_def by blast

lemma givesI:
  "ent c k = Some e \<Longrightarrow> ent c1 = (ent c)(k := n) \<Longrightarrow> rx_serial c1 = rx_serial c \<Longrightarrow> en_state e = 2 \<Longrightarrow> rx_lease_of e = (i, s) \<Longrightarrow>
    (\<And>e1. n = Some e1 \<Longrightarrow> rx_lease_of e1 = (i, s) \<and> en_state e1 \<noteq> 2) \<Longrightarrow> gives c c1 i s"
  unfolding gives_def by blast

lemma fetch_spec:
  assumes ok: "rx_ok c" and reg: "rx_retained c = Some reg"
  shows "\<exists>sts k fr c1. crystalhd_retained_fetch a c = Some (sts, k, fr, c1) \<and> rx_ok c1 \<and>
    (k = None \<and> calm c c1 \<or> (\<exists>key. k = Some key \<and> sts = BC_STS_SUCCESS \<and> rk_state key = BC_RX_BORROWED \<and>
       takes c c1 (rk_registration_id key) (rk_borrow_sequence key)))"
proof (cases "rr_stale reg \<or> find_entry (\<lambda>e. en_state e = 2) (rr_entries reg) 0 \<noteq> None")
  case True
  then show ?thesis using ok reg by (auto simp: crystalhd_retained_fetch_def)
next
  case False
  have es: "entries_of c = rr_entries reg" using reg by (simp add: entries_of_def)
  then have nb: "\<forall>j e'. ent c j = Some e' \<longrightarrow> en_state e' \<noteq> 2" using False find_ent_None [of "\<lambda>e. en_state e = 2" c] by auto
  note F = crystalhd_retained_fetch_def [of a c] and f = False [simplified not_not de_Morgan_disj]
  from dequeue_spec [OF ok, of a] consider (fail) sts c1 where "crystalhd_rx_dequeue_common a c = Some (Inl sts, c1)" "rx_ok c1" "calm c c1"
    | (got) res where "crystalhd_rx_dequeue_common a c = Some (Inr res, c\<lparr>rx_owned := remove1 (cp_owner res) (rx_owned c)\<rparr>)" "cp_owner res \<in> set (rx_ready c)"
    by blast
  then show ?thesis
  proof cases
    case fail
    then show ?thesis using f reg by (auto simp: F)
  next
    case got
    let ?b = "cp_owner res" and ?d = "c\<lparr>rx_owned := remove1 (cp_owner res) (rx_owned c)\<rparr>"
    have b: "?b \<in> set (rx_owned c)" "?b \<notin> set (rx_dma c)" using got(2) by (simp_all add: ready_iff)
    from release_owned [OF ok b] obtain c2 where c2: "crystalhd_rx_buffer_release ?b ?d = Some c2" "rx_ok c2" "calm c c2" by auto
    from ack_spec [OF ok got(2), of a] obtain sts3 c3 where c3: "crystalhd_rx_ack_format a res ?d = Some (sts3, c3)" "rx_ok c3" "calm c c3" by auto
    show ?thesis
    proof (cases "find_entry (\<lambda>e. ?b = Rx_Entry (en_id e)) (entries_of ?d) 0")
      case None
      then show ?thesis using f reg got(1) c2 stale_ok by (auto simp: F Let_def)
    next
      case (Some p)
      obtain i e where p: "p = (i, e)" by fastforce
      from find_ent [of _ c i e] Some p have e: "ent c i = Some e" "?b = Rx_Entry (en_id e)" by auto
      let ?k = "(en_key e)\<lparr>rk_borrow_sequence := rk_borrow_sequence (en_key e) + 1, rk_state := 2\<rparr>"
      let ?e0 = "e\<lparr>en_state := 0\<rparr>" and ?e2 = "e\<lparr>en_key := ?k, en_state := 2\<rparr>"
      have t0: "rx_ok (set_entry i (Some ?e0) ?d)" and t2: "rx_ok (set_entry i (Some ?e2) ?d)"
        unfolding e(2) by (rule take_entry [OF ok e(1) _ _ nb b(2) [unfolded e(2)]]; simp add: same_place_def)+
      have "calm c (set_stale (set_entry i (Some ?e0) ?d))" using e by (auto simp: calm_def)
      moreover have "takes c (set_entry i (Some ?e2) ?d) (rk_registration_id ?k) (rk_borrow_sequence ?k)" if "rk_borrow_sequence (en_key e) \<noteq> - 1"
        by (rule takesI [OF e(1), where ?e1.0 = ?e2]) (use that ent_len [OF e(1)] in auto)
      ultimately show ?thesis using f reg got(1) Some p c2 c3 stale_ok t0 t2 by (auto simp: F Let_def)
    qed
  qed
qed

lemma return_spec:
  assumes ok: "rx_ok c" and reg: "rx_retained c = Some reg"
  shows "\<exists>sts k c1. crystalhd_retained_return a key c = Some (sts, k, c1) \<and> rx_ok c1 \<and>
    (if sts = BC_STS_SUCCESS then gives c c1 (rk_registration_id key) (rk_borrow_sequence key) else calm c c1)"
proof -
  have es: "entries_of c = rr_entries reg" using reg by (simp add: entries_of_def)
  note F = crystalhd_retained_return_def [of a key c]
  show ?thesis
  proof (cases "find_entry (\<lambda>e. rk_registration_id (en_key e) = rk_registration_id key) (rr_entries reg) 0")
    case None
    then show ?thesis using ok reg by (simp add: F)
  next
    case (Some p)
    obtain i e where p: "p = (i, e)" by fastforce
    from find_ent [of _ c i e] Some p es have e: "ent c i = Some e" "rk_registration_id (en_key e) = rk_registration_id key" "i < length (entries_of c)" by auto
    show ?thesis
    proof (cases "key_matches key e")
      case False
      then show ?thesis using ok reg Some p by (simp add: F)
    next
      case True
      then have st: "en_state e = 2" "rk_borrow_sequence key = rk_borrow_sequence (en_key e)" by (simp_all add: key_matches_def)
      let ?r = "set_entry i None (unmap_entry BC_STS_SUCCESS (en_id e) c)" and ?q = "set_entry i (Some (e\<lparr>en_state := 1\<rparr>)) c"
      obtain sts2 c2 where s: "crystalhd_rx_submit a (Rx_Entry (en_id e)) ?q = (sts2, c2)" by fastforce
      let ?k = "(en_key e)\<lparr>rk_state := 1\<rparr>"
      let ?z = "set_entry i (Some (e\<lparr>en_state := 2\<rparr>)) c2" and ?w = "set_entry i (Some (e\<lparr>en_key := ?k, en_state := 1\<rparr>)) c2"
      have o: "Rx_Entry (en_id e) \<notin> set (rx_owned c)" "distinct (rx_owned c)" using entry_okD [OF ok e(1)] st ok by (auto simp: rx_entry_ok_def rx_ok_def pins_ok_def)
      have nb: "\<forall>j e'. ent c j = Some e' \<longrightarrow> j \<noteq> i \<longrightarrow> en_state e' \<noteq> 2" using no_clash [OF ok e(1)] st(1) by (auto simp: clash_def)
      from submit_spec [OF s] obtain ds where S: "c2 = (if sts2 = BC_STS_SUCCESS then ?q\<lparr>rx_owned := rx_owned ?q @ [Rx_Entry (en_id e)], rx_dma := ds\<rparr> else ?q)"
        "set ds \<subseteq> insert (Rx_Entry (en_id e)) (set (rx_dma c))" by auto
      have dma: "set (rx_dma c) \<subseteq> set (rx_owned c)" using ok by (simp add: rx_ok_def pins_ok_def)
      have r: "rx_ok ?r" using drop_entry [OF ok e(1)] st by simp
      have g: "gives c ?r (rk_registration_id key) (rk_borrow_sequence key)" by (rule givesI [OF e(1), where n = None]) (use e st in auto)
      have z: "rx_ok ?z" "calm c ?z" if "sts2 \<noteq> BC_STS_SUCCESS"
      proof -
        show "rx_ok ?z" by (rule move_entry [OF ok e(1), of "e\<lparr>en_state := 2\<rparr>"]) (use that S dma o e nb in \<open>auto simp: same_place_def\<close>)
        show "calm c ?z" using that S e st by (auto simp: calm_def)
      qed
      have w: "rx_ok ?w" "gives c ?w (rk_registration_id key) (rk_borrow_sequence key)" if "sts2 = BC_STS_SUCCESS"
      proof -
        show "rx_ok ?w" by (rule move_entry [OF ok e(1), of "e\<lparr>en_key := ?k, en_state := 1\<rparr>"]) (use that S dma o e in \<open>auto simp: same_place_def\<close>)
        show "gives c ?w (rk_registration_id key) (rk_borrow_sequence key)"
          by (rule givesI [OF e(1), where n = "Some (e\<lparr>en_key := ?k, en_state := 1\<rparr>)"]) (use that S e st in auto)
      qed
      show ?thesis unfolding F reg option.case Some p prod.case Let_def s using True ok r g z w stale_ok by auto
    qed
  qed
qed

lemma retire_all_spec:
  assumes ok: "rx_ok c"
  shows "\<exists>sts c1. crystalhd_retained_retire_all a c = Some (sts, c1) \<and> rx_ok c1 \<and> calm c c1"
proof -
  let ?d = "c\<lparr>rx_state := rx_state c AND NOT (2 OR 4)\<rparr>"
  have d: "rx_ok ?d" "calm c ?d" using rx_ok_same [OF ok, of ?d] by (auto simp: same_rx_def entries_of_def calm_def ent_def)
  from rx_stop_spec [OF d(1), of a True] obtain sts c1 where s: "crystalhd_hw_stop_capture_locked a True ?d = Some (sts, c1)" "rx_ok c1" "calm ?d c1" by auto
  obtain b c2 where k: "retained_cleanup a False c1 = (b, c2)" by fastforce
  note K = cleanup_spec [OF s(2) k]
  have t: "calm c c1" "calm c c2" using d(2) s(3) K calm_trans by blast+
  have R: "crystalhd_retained_retire_all a c = (if rx_state c \<noteq> LINK_RESUME \<and> (\<not> has_flag (rx_state c) LINK_INIT \<or> has_flag (rx_state c) (NOT (LINK_INIT OR LINK_CAP_EN OR LINK_FMT_CHG OR LINK_PAUSED)))
      then Some (BC_STS_ERR_USAGE, c) else if ra_interrupted a then Some (BC_STS_IO_USER_ABORT, c)
      else if sts \<noteq> BC_STS_SUCCESS then Some (sts, set_stale c1) else if b then Some (BC_STS_SUCCESS, c2) else Some (BC_STS_IO_ERROR, set_stale c2))"
    unfolding crystalhd_retained_retire_all_def Let_def s(1) by (simp add: k)
  show ?thesis unfolding R using ok s(2) t K stale_ok by auto
qed

section \<open>Every call\<close>

text \<open>What a call does to the leases, given the events it reports.\<close>

definition lease_move :: "rx_ctx \<Rightarrow> lease_event list \<Rightarrow> rx_ctx \<Rightarrow> bool" where
  "lease_move c evs c1 \<longleftrightarrow> evs = [] \<and> calm c c1 \<or> (\<exists>i s. evs = [Fetched i s] \<and> takes c c1 i s) \<or> (\<exists>i s. evs = [Returned i s] \<and> gives c c1 i s)"

lemma lease_move_ok: "rx_lease_ok c evs \<Longrightarrow> rx_ok c \<Longrightarrow> lease_move c new c1 \<Longrightarrow> rx_lease_ok c1 (evs @ new)"
  using lease_calm lease_takes lease_gives by (auto simp: lease_move_def)

lemma owner_retained: "crystalhd_retained_owner ic c \<Longrightarrow> \<exists>r. rx_retained c = Some r"
  by (auto simp: crystalhd_retained_owner_def split: option.splits)

lemma retained_spec:
  assumes ok: "rx_ok c"
  shows "\<exists>sts out fr c1. bc_cproc_retained_rx (free_memory c a) flea ic key c = Some (sts, out, fr, c1) \<and> rx_ok c1 \<and> lease_move c (lease_events key sts out) c1"
proof -
  let ?a = "free_memory c a" and ?op = "rk_operation key"
  let ?all = "?op = 4 \<and> rk_registration_id key = 0"
  note D = bc_cproc_retained_rx_def [of ?a flea ic key c]
  have quiet: "lease_move c (lease_events key sts (empty_key ?op)) c" if "sts \<noteq> BC_STS_SUCCESS" for sts
    using that by (simp add: lease_move_def lease_events_def)
  consider (bad) "\<not> flea \<or> rk_flags key \<noteq> 0 \<or> rk_reserved key \<noteq> (0, 0) \<or> (?all \<or> ?op = 2) \<and> key \<noteq> empty_key ?op"
    | (reg) "flea" "rk_flags key = 0" "rk_reserved key = (0, 0)" "?op = 1"
    | (other) "flea" "rk_flags key = 0" "rk_reserved key = (0, 0)" "(?all \<or> ?op = 2) \<longrightarrow> key = empty_key ?op" "?op \<noteq> 1" by argo
  then show ?thesis
  proof cases
    case bad
    then show ?thesis unfolding D Let_def using ok by (auto simp: lease_move_def lease_events_def)
  next
    case reg
    obtain sts k c1 where r: "crystalhd_retained_register ?a ic key c = (sts, k, c1)" by (cases "crystalhd_retained_register ?a ic key c") auto
    have "rx_ok c1 \<and> calm c c1" by (rule register_spec [OF ok _ r]) (auto simp: free_memory_def split: option.splits if_splits)
    then show ?thesis unfolding D Let_def using reg r by (auto simp: lease_move_def lease_events_def)
  next
    case other
    show ?thesis
    proof (cases "crystalhd_retained_owner ic c")
      case False
      then show ?thesis unfolding D Let_def using other ok by (auto simp: lease_move_def lease_events_def empty_key_def)
    next
      case True
      then obtain r where r: "rx_retained c = Some r" using owner_retained by blast
      from retire_all_spec [OF ok, of ?a] obtain s1 c1 where 1: "crystalhd_retained_retire_all ?a c = Some (s1, c1)" "rx_ok c1" "calm c c1" by auto
      from fetch_spec [OF ok r, of ?a] obtain s2 k2 f2 c2 where 2: "crystalhd_retained_fetch ?a c = Some (s2, k2, f2, c2)" "rx_ok c2"
        "k2 = None \<and> calm c c2 \<or> (\<exists>key. k2 = Some key \<and> s2 = BC_STS_SUCCESS \<and> rk_state key = 2 \<and> takes c c2 (rk_registration_id key) (rk_borrow_sequence key))" by blast
      from return_spec [OF ok r, of ?a key] obtain s3 k3 c3 where 3: "crystalhd_retained_return ?a key c = Some (s3, k3, c3)" "rx_ok c3"
        "if s3 = BC_STS_SUCCESS then gives c c3 (rk_registration_id key) (rk_borrow_sequence key) else calm c c3" by blast
      consider "?all" | "?op = 2" | "\<not> ?all" "?op = 3 \<or> ?op = 4" | "?op \<noteq> 2" "?op \<noteq> 3" "?op \<noteq> 4" by blast
      then show ?thesis
      proof cases
        case a: 1
        then show ?thesis unfolding D Let_def using other True r 1 by (auto simp: lease_move_def lease_events_def empty_key_def)
      next
        case a: 2
        then show ?thesis unfolding D Let_def using other True r 2 by (auto simp: lease_move_def lease_events_def empty_key_def)
      next
        case a: 3
        have "rk_registration_id key \<noteq> 0" if "s3 = BC_STS_SUCCESS"
        proof -
          from 3(3) that obtain k e where "ent c k = Some e" "rk_registration_id (en_key e) = rk_registration_id key" by (auto simp: gives_def)
          then show ?thesis using entry_okD [OF ok, of k e] by (auto simp: rx_entry_ok_def)
        qed
        then show ?thesis unfolding D Let_def using a other True r 3 by (auto simp: lease_move_def lease_events_def split: if_splits)
      next
        case a: 4
        then show ?thesis unfolding D Let_def using other True r ok by (auto simp: lease_move_def lease_events_def)
      qed
    qed
  qed
qed

lemma legacy_add_spec:
  assumes ok: "rx_ok c" and w: "rx_legacy_active c \<noteq> 0" "Rx_Legacy b \<notin> set (rx_pinned c)"
  shows "\<exists>sts c1. bc_cproc_add_cap_buff_legacy a b ubuff sz uv fmt c = Some (sts, c1) \<and> rx_ok c1 \<and> calm c c1"
proof -
  let ?d = "c\<lparr>rx_pinned := rx_pinned c @ [Rx_Legacy b]\<rparr>"
  obtain sts c2 where s: "crystalhd_rx_submit a (Rx_Legacy b) ?d = (sts, c2)" by fastforce
  have d: "rx_owned ?d = rx_owned c" "rx_dma ?d = rx_dma c" by simp_all
  from submit_spec [OF s, unfolded d] obtain ds where S: "c2 = (if sts = BC_STS_SUCCESS then ?d\<lparr>rx_owned := rx_owned c @ [Rx_Legacy b], rx_dma := ds\<rparr> else ?d)"
    "set ds \<subseteq> insert (Rx_Legacy b) (set (rx_dma c))" by blast
  have none: "rx_retained c = None" using ok w(1) by (auto simp: rx_ok_def mode_ok_def)
  have "rx_ok (?d\<lparr>rx_owned := rx_owned c @ [Rx_Legacy b], rx_dma := ds\<rparr>)"
    using ok w(2) none S(2) by (auto simp: rx_ok_def table_ok_def pins_ok_def mode_ok_def)
  moreover have "calm c (?d\<lparr>rx_owned := rx_owned c @ [Rx_Legacy b], rx_dma := ds\<rparr>)" by (simp add: calm_def)
  moreover have "crystalhd_rx_buffer_release (Rx_Legacy b) ?d = Some c" using w(2) by (simp add: remove1_append)
  ultimately show ?thesis using ok S s by (auto simp: bc_cproc_add_cap_buff_legacy_def Let_def)
qed

lemma legacy_fetch_spec:
  assumes ok: "rx_ok c"
  shows "\<exists>sts c1. bc_cproc_fetch_frame_legacy a c = Some (sts, c1) \<and> rx_ok c1 \<and> calm c c1"
proof -
  from dequeue_spec [OF ok, of a] consider (fail) sts c1 where "crystalhd_rx_dequeue_common a c = Some (Inl sts, c1)" "rx_ok c1" "calm c c1"
    | (got) res where "crystalhd_rx_dequeue_common a c = Some (Inr res, c\<lparr>rx_owned := remove1 (cp_owner res) (rx_owned c)\<rparr>)" "cp_owner res \<in> set (rx_ready c)"
    by blast
  then show ?thesis
  proof cases
    case fail
    then show ?thesis by (simp add: bc_cproc_fetch_frame_legacy_def)
  next
    case got
    have b: "cp_owner res \<in> set (rx_owned c)" "cp_owner res \<notin> set (rx_dma c)" using got(2) by (simp_all add: ready_iff)
    from release_owned [OF ok b] obtain c2 where c2: "crystalhd_rx_buffer_release (cp_owner res) (c\<lparr>rx_owned := remove1 (cp_owner res) (rx_owned c)\<rparr>) = Some c2" "rx_ok c2" "calm c c2" by auto
    from ack_spec [OF ok got(2), of a] obtain sts3 c3 where "crystalhd_rx_ack_format a res (c\<lparr>rx_owned := remove1 (cp_owner res) (rx_owned c)\<rparr>) = Some (sts3, c3)" "rx_ok c3" "calm c c3" by auto
    then show ?thesis using got(1) c2 by (auto simp: bc_cproc_fetch_frame_legacy_def split: rx_owner.splits)
  qed
qed

lemma flush_spec:
  assumes ok: "rx_ok c"
  shows "\<exists>sts c1. crystalhd_capture_flush a discard c = Some (sts, c1) \<and> rx_ok c1 \<and> calm c c1"
proof -
  let ?d = "c\<lparr>rx_state := rx_state c AND NOT (2 OR 4)\<rparr>"
  have d: "rx_ok ?d" "calm c ?d" using rx_ok_same [OF ok, of ?d] by (auto simp: same_rx_def entries_of_def calm_def ent_def)
  from rx_stop_spec [OF d(1), of a True] obtain sts c1 where s: "crystalhd_hw_stop_capture_locked a True ?d = Some (sts, c1)" "rx_ok c1" "calm ?d c1" by auto
  from rx_stop_spec [OF ok, of a False] obtain sts' c' where s': "crystalhd_hw_stop_capture_locked a False c = Some (sts', c')" "rx_ok c'" "calm c c'" by auto
  obtain b c2 where k: "retained_cleanup a False c1 = (b, c2)" by fastforce
  note K = cleanup_spec [OF s(2) k]
  have t: "calm c c1" "calm c c2" using d(2) s(3) K calm_trans by blast+
  show ?thesis using ok s s' k K t stale_ok by (auto simp: crystalhd_capture_flush_def Let_def)
qed

lemma quiesced_spec:
  assumes ok: "rx_ok c"
  shows "\<exists>c1. suspend_quiesced a drained so rt c = Some c1 \<and> rx_ok c1 \<and> calm c c1"
proof -
  let ?d = "c\<lparr>rx_dma := [], rx_cancel_epoch := rx_cancel_epoch c + 1\<rparr>"
  have d: "rx_ok ?d" "calm c ?d" "rx_dma ?d = []" "rx_ok (c\<lparr>rx_dma := []\<rparr>)" "calm c (c\<lparr>rx_dma := []\<rparr>)"
    using rx_ok_same [OF ok, of ?d] dma_ok [OF ok, of "[]"] by (auto simp: same_rx_def entries_of_def calm_def ent_def)
  from release_all_owned [OF d(1,3)] obtain c1 where s: "release_all (rx_owned c) (?d\<lparr>rx_owned := []\<rparr>) = Some c1" "rx_ok c1" "calm ?d c1" by auto
  obtain b c2 where k: "retained_cleanup a False c1 = (b, c2)" by fastforce
  note K = cleanup_spec [OF s(2) k]
  have "calm c c2" using d(2) s(3) K calm_trans by blast
  then show ?thesis using ok d(4,5) s k K stale_ok
    by (auto simp: suspend_quiesced_def crystalhd_rx_retire_quiesced_def crystalhd_hw_retire_rx_quiesced_def)
qed

lemma retire_capture_spec:
  assumes ok: "rx_ok c"
  shows "\<exists>b c1. retire_capture a c = Some (b, c1) \<and> rx_ok c1 \<and> calm c c1"
proof -
  from rx_stop_spec [OF ok, of a False] obtain sts c1 where s: "crystalhd_hw_stop_capture_locked a False c = Some (sts, c1)" "rx_ok c1" "calm c c1"
    "sts = BC_STS_SUCCESS \<longrightarrow> rx_dma c1 = []" by auto
  show ?thesis
  proof (cases "sts = BC_STS_SUCCESS \<and> ra_close a")
    case False
    then show ?thesis using ok s by (auto simp: retire_capture_def)
  next
    case True
    then have d: "rx_dma c1 = []" using s(4) by simp
    from release_all_owned [OF s(2) d] obtain c2 where r: "release_all (rx_owned c1) (c1\<lparr>rx_owned := []\<rparr>) = Some c2" "rx_ok c2" "calm c1 c2" by auto
    obtain b c3 where k: "retained_cleanup a True c2 = (b, c3)" by fastforce
    note K = cleanup_spec [OF r(2) k]
    let ?e = "c3\<lparr>rx_state := 0\<rparr>"
    have e: "rx_ok ?e" "calm c3 ?e" using rx_ok_same [of c3 ?e] K by (auto simp: same_rx_def entries_of_def calm_def ent_def)
    have "calm c c3" "calm c ?e" using s(3) r(3) K e(2) calm_trans by blast+
    then show ?thesis using ok s r k K e by (auto simp: retire_capture_def)
  qed
qed

lemma same_calm: "rx_ok c \<Longrightarrow> calm c0 c \<Longrightarrow> same_rx c c1 \<Longrightarrow> rx_ok c1 \<and> calm c0 c1"
  using rx_ok_same [of c c1] calm_trans [of c0 c c1] by (auto simp: calm_def same_rx_def ent_def)

lemma suspend_capture_spec:
  assumes ok: "rx_ok c"
  shows "\<exists>c1. suspend_capture a c = Some c1 \<and> rx_ok c1 \<and> calm c c1"
proof -
  have st: "rx_ok (set_stale c)" "calm c (set_stale c)" using stale_ok ok by auto
  from rx_stop_spec [OF st(1), of a False] obtain sts c1 where s: "crystalhd_hw_stop_capture_locked a False (set_stale c) = Some (sts, c1)" "rx_ok c1" "calm (set_stale c) c1" by auto
  have c1: "calm c c1" using st(2) s(3) calm_trans by blast
  have "rx_ok (x\<lparr>rx_state := 16\<rparr>) \<and> calm c (x\<lparr>rx_state := 16\<rparr>)" if "rx_ok x" "calm c x" for x
    by (rule same_calm [OF that]) (simp add: same_rx_def entries_of_def)
  then show ?thesis using ok st s(1,2) c1 by (auto simp: suspend_capture_def)
qed

lemma rx_exec_spec:
  assumes ok: "rx_ok c"
  shows "\<exists>new c1. rx_exec op c = Some (new, c1) \<and> rx_ok c1 \<and> lease_move c new c1"
proof -
  have quiet: "\<exists>new c1. Some ([], x) = Some (new, c1) \<and> rx_ok c1 \<and> lease_move c new c1" if "same_rx c x" for x
    using rx_ok_same [OF ok that] that by (auto simp: lease_move_def calm_def same_rx_def ent_def)
  have move: "lease_move c [] x" if "calm c x" for x using that by (simp add: lease_move_def)
  show ?thesis
  proof (cases op)
    case (Op_Retained a flea ic key)
    then show ?thesis using retained_spec [OF ok, of a flea ic key] by auto
  next
    case Op_Legacy_Enter
    then show ?thesis unfolding Op_Legacy_Enter rx_exec.simps by (intro quiet) (auto simp: crystalhd_legacy_rx_enter_def Let_def same_rx_def entries_of_def)
  next
    case (Op_Legacy_Add a b ubuff sz uv fmt)
    then show ?thesis using legacy_add_spec [OF ok, of b a ubuff sz uv fmt] move ok by fastforce
  next
    case (Op_Legacy_Fetch a)
    then show ?thesis using legacy_fetch_spec [OF ok, of a] move ok by fastforce
  next
    case Op_Legacy_Leave
    have "rx_retained c = None" if "rx_legacy_active c \<noteq> 0" using ok that by (auto simp: rx_ok_def mode_ok_def)
    then show ?thesis unfolding Op_Legacy_Leave rx_exec.simps by (intro quiet) (auto simp: crystalhd_legacy_rx_leave_def same_rx_def entries_of_def)
  next
    case (Op_Start a)
    show ?thesis unfolding Op_Start rx_exec.simps by (intro quiet) (auto simp: crystalhd_capture_start_def Let_def same_rx_def set_stale_def entries_of_def split: option.splits)
  next
    case (Op_Flush a d)
    then show ?thesis using flush_spec [OF ok, of a d] move by fastforce
  next
    case (Op_Quiesced a dr so rt)
    then show ?thesis using quiesced_spec [OF ok, of a dr so rt] move by fastforce
  next
    case (Op_Pause a flea e)
    show ?thesis unfolding Op_Pause rx_exec.simps
      by (intro quiet) (auto simp: crystalhd_rx_pause_metadata_idle_def same_rx_def set_stale_def entries_of_def split: option.splits)
  next
    case (Op_Suspend a)
    then show ?thesis using suspend_capture_spec [OF ok, of a] move by fastforce
  next
    case (Op_Resume a)
    show ?thesis unfolding Op_Resume rx_exec.simps by (intro quiet) (auto simp: resume_capture_def same_rx_def entries_of_def)
  next
    case Op_Fault
    show ?thesis unfolding Op_Fault rx_exec.simps by (intro quiet) (auto simp: same_rx_def entries_of_def)
  next
    case (Op_Terminal dr)
    show ?thesis unfolding Op_Terminal rx_exec.simps by (intro quiet) (auto simp: chd_dec_quiesce_terminal_dma_def same_rx_def entries_of_def)
  next
    case (Op_Acquire u)
    show ?thesis unfolding Op_Acquire rx_exec.simps by (intro quiet) (auto simp: same_rx_def entries_of_def)
  next
    case (Op_Release a)
    from retire_capture_spec [OF ok, of a] obtain b c1 where r: "retire_capture a c = Some (b, c1)" "rx_ok c1" "calm c c1" by blast
    have "rx_ok (c1\<lparr>rx_session_owner := None\<rparr>) \<and> calm c (c1\<lparr>rx_session_owner := None\<rparr>)"
      by (rule same_calm [OF r(2,3)]) (simp add: same_rx_def entries_of_def)
    then show ?thesis using Op_Release r move by simp
  next
    case (Op_Link st)
    show ?thesis unfolding Op_Link rx_exec.simps by (intro quiet) (auto simp: same_rx_def entries_of_def)
  next
    case (Op_Dma_Post b)
    have "rx_ok (c\<lparr>rx_dma := rx_dma c @ [b]\<rparr>)" if "b \<in> set (rx_ready c)"
      using ok that by (intro dma_ok) (auto simp: ready_iff rx_ok_def pins_ok_def)
    then show ?thesis using Op_Dma_Post ok by (auto simp: lease_move_def calm_def)
  next
    case (Op_Dma_Done b)
    show ?thesis unfolding Op_Dma_Done rx_exec.simps by (intro quiet) (auto simp: same_rx_def entries_of_def)
  qed
qed

text \<open>A call with the lease events of the history so far.\<close>

definition rx_step :: "rx_op \<Rightarrow> rx_ctx \<times> lease_event list \<Rightarrow> (lease_event list \<times> rx_ctx \<times> lease_event list) option" where
  "rx_step op x = do { (new, c1) \<leftarrow> rx_exec op (fst x); Some (new, c1, snd x @ new) }"

definition rx_inv :: "rx_ctx \<times> lease_event list \<Rightarrow> bool" where
  "rx_inv x \<longleftrightarrow> rx_ok (fst x) \<and> rx_lease_ok (fst x) (snd x)"

interpretation capture: call_history rx_step "\<lambda>op. True" rx_inv
proof unfold_locales
  fix x :: "rx_ctx \<times> lease_event list" and op
  assume i: "rx_inv x"
  then obtain new c1 where s: "rx_exec op (fst x) = Some (new, c1)" "rx_ok c1" "lease_move (fst x) new c1"
    using rx_exec_spec [of "fst x" op] by (auto simp: rx_inv_def)
  have "rx_lease_ok c1 (snd x @ new)" using i s(3) lease_move_ok by (auto simp: rx_inv_def)
  then show "\<exists>r x'. rx_step op x = Some (r, x') \<and> rx_inv x'" using s by (auto simp: rx_step_def rx_inv_def)
qed

lemma rx_init_inv: "rx_inv (rx_init, [])"
  by (auto simp: rx_inv_def rx_ok_def table_ok_def pins_ok_def mode_ok_def rx_lease_ok_def rx_init_def ent_def entries_of_def intro: lease_none)

lemma rx_run_log: "run_ops rx_step ops x = Some (rs, x1) \<Longrightarrow> snd x1 = snd x @ concat rs"
  by (induction ops arbitrary: x rs) (fastforce simp: rx_step_def bind_eq_Some_conv)+

text \<open>
  C12: Capture memory keeps its owner. From an empty context every history of registrations, fetches, reposts and
  retires, legacy calls, capture starts, flushes and terminal retirements, suspends and resumes, faults and session ends,
  between posts and completions of the engines and with any answers of the allocator, the mapping layer and the
  device, has a result: no buffer is unmapped twice and no freed entry is followed. In the state it reaches, memory
  that the engines may still write, after a stop that failed too, is held by the driver, so that it is pinned and is
  neither the application's picture nor an entry at rest; what is held is pinned and held once, pinned
  memory is in the registry or held for a legacy call, an entry is queued exactly when it is held, at
  most one picture is borrowed, registered ranges do not overlap or wrap, and neither a legacy call nor a legacy
  buffer exists beside a registry. Over the whole history no lease, a registration with its borrow sequence, is handed out
  twice, and each is taken back at most once and only after it was handed out.
\<close>

theorem retained_rx_safe:
  "\<exists>rs c. run_ops rx_step ops (rx_init, []) = Some (rs, c, concat rs) \<and> length rs = length ops \<and>
     distinct (rx_owned c) \<and> distinct (rx_pinned c) \<and> set (rx_dma c) \<subseteq> set (rx_owned c) \<and> set (rx_owned c) \<subseteq> set (rx_pinned c) \<and>
     (\<forall>b. b \<in> set (rx_pinned c) \<longrightarrow> b \<in> set (rx_owned c) \<or> (\<exists>i e. ent c i = Some e \<and> b = Rx_Entry (en_id e) \<and> en_state e \<noteq> BC_RX_QUEUED)) \<and>
     (\<forall>i e. ent c i = Some e \<longrightarrow> (en_state e = BC_RX_QUEUED \<longleftrightarrow> Rx_Entry (en_id e) \<in> set (rx_owned c)) \<and>
        (en_state e \<noteq> BC_RX_QUEUED \<longrightarrow> Rx_Entry (en_id e) \<notin> set (rx_dma c)) \<and>
        Rx_Entry (en_id e) \<in> set (rx_pinned c) \<and> unat (rk_user_address (en_key e)) + unat (rk_capacity (en_key e)) < 2 ^ 64) \<and>
     (\<forall>i j e e'. ent c i = Some e \<longrightarrow> ent c j = Some e' \<longrightarrow> i \<noteq> j \<longrightarrow> en_id e \<noteq> en_id e' \<and>
        rk_registration_id (en_key e) \<noteq> rk_registration_id (en_key e') \<and> \<not> (en_state e = BC_RX_BORROWED \<and> en_state e' = BC_RX_BORROWED) \<and>
        \<not> ranges_overlap (en_key e) (en_key e')) \<and>
     (rx_retained c \<noteq> None \<longrightarrow> rx_legacy_active c = 0 \<and> (\<forall>b. Rx_Legacy b \<notin> set (rx_pinned c))) \<and> lease_log (concat rs)"
proof -
  obtain rs c evs where r: "run_ops rx_step ops (rx_init, []) = Some (rs, c, evs)" and i: "rx_inv (c, evs)" and l: "length rs = length ops"
    using capture.run_total [OF rx_init_inv, of ops] by auto
  have ok: "rx_ok c" and log: "lease_log (concat rs)" "evs = concat rs" using i rx_run_log [OF r] by (auto simp: rx_inv_def rx_lease_ok_def)
  have pins: "distinct (rx_owned c) \<and> distinct (rx_pinned c) \<and> set (rx_dma c) \<subseteq> set (rx_owned c) \<and> set (rx_owned c) \<subseteq> set (rx_pinned c)" using ok by (simp add: rx_ok_def pins_ok_def)
  have pinned: "b \<in> set (rx_owned c) \<or> (\<exists>i e. ent c i = Some e \<and> b = Rx_Entry (en_id e) \<and> en_state e \<noteq> BC_RX_QUEUED)" if "b \<in> set (rx_pinned c)" for b
  proof (cases b)
    case (Rx_Entry x)
    then obtain i e where "ent c i = Some e" "en_id e = x" using ok \<open>b \<in> _\<close> by (auto simp: rx_ok_def pins_ok_def)
    then show ?thesis using Rx_Entry entry_okD [OF ok, of i e] by (auto simp: rx_entry_ok_def)
  next
    case (Rx_Legacy x)
    then show ?thesis using ok \<open>b \<in> _\<close> by (auto simp: rx_ok_def pins_ok_def)
  qed
  have entry: "(en_state e = BC_RX_QUEUED \<longleftrightarrow> Rx_Entry (en_id e) \<in> set (rx_owned c)) \<and>
      (en_state e \<noteq> BC_RX_QUEUED \<longrightarrow> Rx_Entry (en_id e) \<notin> set (rx_dma c)) \<and> Rx_Entry (en_id e) \<in> set (rx_pinned c) \<and>
      unat (rk_user_address (en_key e)) + unat (rk_capacity (en_key e)) < 2 ^ 64" if "ent c i = Some e" for i e
    using entry_okD [OF ok that] pins by (auto simp: rx_entry_ok_def)
  have mode: "rx_retained c \<noteq> None \<longrightarrow> rx_legacy_active c = 0 \<and> (\<forall>b. Rx_Legacy b \<notin> set (rx_pinned c))" using ok by (auto simp: rx_ok_def mode_ok_def)
  show ?thesis
    using r l log pins pinned entry mode no_clash [OF ok, unfolded clash_def] by (intro exI [of _ rs] exI [of _ c]) blast
qed

text \<open>
  A session registers a buffer, the engines fill it, the application borrows the picture in it, reposts it and borrows
  again; a repost under the old lease is refused; after a flush the buffer is gone and a legacy call may enter again
  only when the session ends. In a second history the stop of the flush fails: the engines keep the buffer, and it
  stays pinned until the bus is drained and it is retired.
\<close>

definition rx_demo_answer :: rx_answer where
  "rx_demo_answer = \<lparr>ra_kzalloc = True, ra_entry = Some 5, ra_map = BC_STS_SUCCESS, ra_unmap = (\<lambda>i. BC_STS_SUCCESS), ra_interrupted = False,
     ra_bad_buffer = False, ra_packet = True, ra_desc = Desc_Ok, ra_paused = False, ra_post = BC_STS_SUCCESS, ra_queued = True, ra_idle = True,
     ra_dequeue = Dq_Done 0 0 0 9 100 50, ra_no_queues = False, ra_stop_fault = False, ra_notify = True, ra_start = BC_STS_SUCCESS, ra_close = True\<rparr>"

definition rx_demo_call :: rx_call where
  "rx_demo_call = \<lparr>ic_file_owner = Some 7, ic_file_epoch = 1, ic_u_id = 0, ic_timeout = 0\<rparr>"

definition rx_demo_key :: "u64 \<Rightarrow> u32 \<Rightarrow> rx_registration" where
  "rx_demo_key seq op1 = \<lparr>rk_registration_id = 2, rk_capture_generation = 1, rk_borrow_sequence = seq, rk_user_address = 0x10000, rk_operation = op1,
     rk_flags = 0, rk_capacity = 0x8000, rk_uv_offset = 0x4000, rk_output_format = 0, rk_state = BC_RX_BORROWED, rk_reserved = (0, 0)\<rparr>"

definition rx_demo_new :: rx_registration where
  "rx_demo_new = (rx_demo_key 0 BC_RX_REGISTER)\<lparr>rk_registration_id := 0, rk_capture_generation := 0, rk_state := 0\<rparr>"

definition rx_demo_ops :: "rx_op list" where
  "rx_demo_ops = [Op_Acquire 0, Op_Link LINK_INIT, Op_Retained rx_demo_answer True rx_demo_call rx_demo_new, Op_Start rx_demo_answer,
     Op_Dma_Post (Rx_Entry 5), Op_Dma_Done (Rx_Entry 5),
     Op_Retained rx_demo_answer True rx_demo_call (empty_key BC_RX_FETCH), Op_Retained rx_demo_answer True rx_demo_call (rx_demo_key 1 BC_RX_REPOST),
     Op_Retained rx_demo_answer True rx_demo_call (empty_key BC_RX_FETCH), Op_Retained rx_demo_answer True rx_demo_call (rx_demo_key 1 BC_RX_REPOST),
     Op_Legacy_Enter, Op_Flush rx_demo_answer False, Op_Release rx_demo_answer, Op_Legacy_Enter]"

definition rx_fault_ops :: "rx_op list" where
  "rx_fault_ops = take 5 rx_demo_ops @ [Op_Flush (rx_demo_answer\<lparr>ra_stop_fault := True\<rparr>) False, Op_Flush rx_demo_answer False,
     Op_Retained rx_demo_answer True rx_demo_call (empty_key BC_RX_RETIRE), Op_Release rx_demo_answer]"

lemma rx_demo_leases: "map_option (\<lambda>(rs, c, evs). (rs, rx_pinned c, rx_legacy_active c)) (run_ops rx_step rx_demo_ops (rx_init, [])) =
  Some ([[], [], [], [], [], [], [Fetched 2 1], [Returned 2 1], [Fetched 2 2], [], [], [], [], []], [], 1)"
  by code_simp

lemma rx_fault_state: "map_option (\<lambda>(rs, c, evs). (rx_dma c, rx_pinned c, rx_dma_fault c)) (run_ops rx_step rx_fault_ops (rx_init, [])) =
  Some ([Rx_Entry 5], [Rx_Entry 5], True)"
  "map_option (\<lambda>(rs, c, evs). (rx_dma c, rx_pinned c)) (run_ops rx_step (rx_fault_ops @ [Op_Quiesced rx_demo_answer True False False]) (rx_init, [])) =
  Some ([], [])"
  by code_simp+

theorem retained_rx_safe_witness:
  "(\<exists>rs c. run_ops rx_step rx_demo_ops (rx_init, []) = Some (rs, c, concat rs) \<and> concat rs = [Fetched 2 1, Returned 2 1, Fetched 2 2] \<and>
     lease_log (concat rs) \<and> rx_pinned c = [] \<and> rx_legacy_active c = 1) \<and>
   (\<exists>rs c. run_ops rx_step rx_fault_ops (rx_init, []) = Some (rs, c, concat rs) \<and> rx_dma_fault c \<and> rx_dma c = [Rx_Entry 5] \<and>
     set (rx_dma c) \<subseteq> set (rx_owned c) \<and> set (rx_owned c) \<subseteq> set (rx_pinned c))"
  using retained_rx_safe [of rx_demo_ops] retained_rx_safe [of rx_fault_ops] rx_demo_leases rx_fault_state(1) by auto

lemma unmap_all: "\<forall>i. f i = BC_STS_SUCCESS \<Longrightarrow> fst (unmap_entries f i es c)"
  by (induction f i es c rule: unmap_entries.induct) auto

lemma cleanup_empties:
  assumes ok: "rx_ok c" "rx_retained c \<noteq> None" "rx_owned c = []" and u: "\<forall>i. ra_unmap a i = BC_STS_SUCCESS"
  shows "\<exists>c1. retained_cleanup a False c = (True, c1) \<and> rx_retained c1 \<noteq> None \<and> ent c1 = (\<lambda>_. None)"
proof -
  obtain reg where reg: "rx_retained c = Some reg" using ok(2) by auto
  have q: "\<forall>j e. ent c j = Some e \<longrightarrow> en_state e \<noteq> 1" using entry_okD [OF ok(1)] ok(3) by (auto simp: rx_entry_ok_def)
  have none: "find_entry (\<lambda>e. en_state e = 1) (rr_entries reg) 0 = None" using q find_ent_None [of "\<lambda>e. en_state e = 1" c] reg by (simp add: entries_of_def)
  obtain c2 where m: "unmap_entries (ra_unmap a) 0 (rr_entries reg) c = (True, c2)" using unmap_all [OF u, of 0 "rr_entries reg" c] by (metis prod.collapse)
  have "unmapped 0 True c c2" by (rule unmap_spec [OF ok(1) q _ m]) (simp add: entries_of_def reg)
  then have e: "ent c2 = (\<lambda>_. None)" "rx_retained c2 \<noteq> None" using ok(2) by (auto simp: unmapped_def)
  then obtain y where y: "rx_retained c2 = Some y" by auto
  have "rr_entries y ! x = None" if "x < length (rr_entries y)" for x using fun_cong [OF e(1), of x] that y by (simp add: ent_def entries_of_def)
  then show ?thesis using reg none m y by (auto simp: retained_cleanup_def ent_def entries_of_def fun_eq_iff)
qed

lemma no_entry_unpinned: "rx_ok c \<Longrightarrow> ent c = (\<lambda>_. None) \<Longrightarrow> rx_owned c = [] \<Longrightarrow> rx_pinned c = []"
proof -
  assume "rx_ok c" "ent c = (\<lambda>_. None)" "rx_owned c = []"
  then have "b \<notin> set (rx_pinned c)" for b by (cases b) (auto simp: rx_ok_def pins_ok_def)
  then show ?thesis by (cases "rx_pinned c") auto
qed

lemma return_no_entry: "rx_retained c \<noteq> None \<Longrightarrow> ent c = (\<lambda>_. None) \<Longrightarrow> crystalhd_retained_return a key c = Some (BC_STS_INV_ARG, None, c)"
  using find_ent_None [of "\<lambda>e. rk_registration_id (en_key e) = rk_registration_id key" c] by (auto simp: crystalhd_retained_return_def entries_of_def)

text \<open>
  C32: A complete retirement gives everything back. In every state a history reaches in which a registry exists, the
  engines are well and the session is in a state that admits it, retiring with registration number zero succeeds
  when the stop and the unmappings do: the engines write nothing, the driver holds nothing, nothing is pinned, the registry is empty, and
  whatever key the application still has, returning it is refused and changes nothing.
\<close>

theorem retire_all_empties:
  assumes run: "run_ops rx_step ops (rx_init, []) = Some (rs, c, evs)" and reg: "rx_retained c \<noteq> None"
    and well: "\<not> rx_dma_fault c" "\<not> ra_stop_fault a" "\<not> ra_interrupted a" "\<forall>i. ra_unmap a i = BC_STS_SUCCESS"
    and state: "rx_state c = LINK_RESUME \<or> has_flag (rx_state c) LINK_INIT \<and> \<not> has_flag (rx_state c) (NOT (LINK_INIT OR LINK_CAP_EN OR LINK_FMT_CHG OR LINK_PAUSED))"
  shows "\<exists>c1. crystalhd_retained_retire_all a c = Some (BC_STS_SUCCESS, c1) \<and> rx_dma c1 = [] \<and> rx_owned c1 = [] \<and> rx_pinned c1 = [] \<and> (\<forall>i. ent c1 i = None) \<and>
    (\<forall>a1 key. crystalhd_retained_return a1 key c1 = Some (BC_STS_INV_ARG, None, c1))"
proof -
  let ?d = "c\<lparr>rx_state := rx_state c AND NOT (LINK_CAP_EN OR LINK_FMT_CHG)\<rparr>"
  have ok: "rx_ok c" using capture.run_total [OF rx_init_inv, of ops] run by (auto simp: rx_inv_def)
  have d: "rx_ok ?d" by (rule rx_ok_same [OF ok]) (simp add: same_rx_def entries_of_def)
  from rx_stop_spec [OF d, of a True] obtain c1 where s: "crystalhd_hw_stop_capture_locked a True ?d = Some (BC_STS_SUCCESS, c1)" "rx_ok c1" "rx_owned c1 = []" "rx_retained c1 \<noteq> None"
    using well(1,2) reg by auto
  from cleanup_empties [OF s(2,4,3) well(4)] obtain c2 where k: "retained_cleanup a False c1 = (True, c2)" "rx_retained c2 \<noteq> None" "ent c2 = (\<lambda>_. None)" by blast
  note K = cleanup_spec [OF s(2) k(1)]
  have "crystalhd_retained_retire_all a c = Some (BC_STS_SUCCESS, c2)" unfolding crystalhd_retained_retire_all_def Let_def s(1) using state well(3) k(1) by auto
  then show ?thesis using K s(3) k(2,3) no_entry_unpinned [of c2] return_no_entry [of c2] no_owned_no_dma [of c2] by auto
qed

theorem retire_all_empties_witness:
  "\<exists>rs c evs c1. run_ops rx_step (take 7 rx_demo_ops) (rx_init, []) = Some (rs, c, evs) \<and> rx_pinned c = [Rx_Entry 5] \<and>
     crystalhd_retained_retire_all rx_demo_answer c = Some (BC_STS_SUCCESS, c1) \<and> rx_pinned c1 = []"
proof -
  have "map_option (\<lambda>(rs, c, evs). (rx_pinned c, rx_retained c \<noteq> None, rx_dma_fault c, rx_state c)) (run_ops rx_step (take 7 rx_demo_ops) (rx_init, [])) =
      Some ([Rx_Entry 5], True, False, 3)" by code_simp
  then obtain rs c evs where r: "run_ops rx_step (take 7 rx_demo_ops) (rx_init, []) = Some (rs, c, evs)"
    and c: "rx_pinned c = [Rx_Entry 5]" "rx_retained c \<noteq> None" "\<not> rx_dma_fault c" "rx_state c = 3" by auto
  have "\<exists>c1. crystalhd_retained_retire_all rx_demo_answer c = Some (BC_STS_SUCCESS, c1) \<and> rx_dma c1 = [] \<and> rx_owned c1 = [] \<and> rx_pinned c1 = [] \<and> (\<forall>i. ent c1 i = None) \<and>
    (\<forall>a1 key. crystalhd_retained_return a1 key c1 = Some (BC_STS_INV_ARG, None, c1))"
    by (rule retire_all_empties [OF r c(2,3)]) (simp_all add: rx_demo_answer_def c(4) has_flag_def)
  then show ?thesis using r c(1) by blast
qed

end
