(* ===== verification/Spec2Isabelle.thy ===== *)
theory Spec2Isabelle
  imports Rx_Receipt Dioq H264_Range V4l2_Decoder V4l2_Ctx L0s_Link Retained_Rx
begin

text \<open>
  Verification of the Crystal HD decoder driver (\<^verbatim>\<open>driver/linux\<close> and the parsers of \<^verbatim>\<open>include\<close>).

  \<^bold>\<open>The program.\<close> A PCIe card decodes H.264. The driver loads its firmware and talks to it through a
  mailbox, sends access units as PES packets by DMA, and receives pictures by DMA. One session owns the
  decoder at a time: a legacy file handle or a context of the V4L2 frontend. The V4L2 frontend queues
  access units (OUTPUT buffers), correlates them with the decoded pictures and returns the buffers.

  \<^bold>\<open>Theories and sources.\<close> Each theory opens with what it models; names are those of the C code, record
  fields have a prefix per structure.

  \<^item> \<open>Chd_Prelude\<close>: machine integers, kernel and \<^verbatim>\<open>BC_STATUS\<close> results, array cells, byte
    ranges, and the locales \<open>call_history\<close> and \<open>frozen_history\<close>: a component driven by calls, whose
    invariant makes every history of calls total. The components with a history below
    interpret one of them on their own step function.
  \<^item> \<open>Rx_Receipt\<close> (\<^verbatim>\<open>crystalhd_rx_receipt.c\<close>): the lifecycle observer of received pictures. Histories of
    all its hooks and ioctls keep the store well formed and inside its array; a stale run is inert; an
    interrupt is attributed to the lists it names; reading by pages gives back the records.
  \<^item> \<open>Dioq\<close> (\<^verbatim>\<open>crystalhd_misc.c\<close>): the element pool and the linked queues on an explicit heap of pointers.
    Refinement to a list per queue: FIFO order, search by tag, release of everything on deletion, capacity.
  \<^item> \<open>Fw_Cmd\<close> (\<^verbatim>\<open>crystalhd_hw.c\<close>, \<^verbatim>\<open>crystalhd_fleafuncs.c\<close>): the mailbox transaction protocol with its two
    mutexes, its interrupt and its poison flag; protocol invariant, sticky poison, outcome of the wait.
  \<^item> \<open>Dma_Desc\<close> (\<^verbatim>\<open>crystalhd_hw.c\<close>): scatter lists to device descriptors. The chains cover exactly the bytes
    of the buffer, in order, stay in the descriptor memory, and the preflight admits exactly what fits.
  \<^item> \<open>H264_Stream\<close> (\<^verbatim>\<open>crystalhd_stream.c\<close>): staging of access units and end of stream. The packets sent
    parse back to the access unit and its time stamp; a failed transfer or an end of stream closes the input
    until the stream is released and prepared anew; end of stream stops at the first transfer that fails.
  \<^item> \<open>H264_Bits\<close>, \<open>H264_Range\<close> (\<^verbatim>\<open>crystalhd_h264_sps_range.h\<close>, \<^verbatim>\<open>crystalhd_h264_range_binding.h\<close>): the bit
    reader refines the unescaped bit string, the sequence parameter set, scaling lists included, is read as it
    was written, Annex-B streams are split into their units, and observed parameter sets stay consistent.
  \<^item> \<open>V4l2_Output\<close> (\<^verbatim>\<open>crystalhd_v4l2_output.c\<close>): the lease protocol of OUTPUT buffers over all histories, in
    which the processor never touches a plane that is the device's, and the bytes the device reads for a packet sent from the mapped plane.
  \<^item> \<open>Decoder_Channel\<close> (\<^verbatim>\<open>crystalhd_cmds.c\<close>): firmware loading with rollback, command execution with its pause
    handling, open, start, stop and close. The driver's phase is sound for the firmware it talks to.
  \<^item> \<open>V4l2_Decoder\<close> (\<^verbatim>\<open>crystalhd_v4l2_decoder.c\<close>): phase, epoch and token ledger of a V4L2 session. Every access
    unit completes at most once, with its own time stamp, and a drained session has returned all of them.
  \<^item> \<open>Session_Owner\<close> (\<^verbatim>\<open>crystalhd_cmds.c\<close>): acquisition and release of the session, the module pin, the lease
    of a frontend and the file handles. Callbacks to a frontend are get, retired, put, once each per lease.
  \<^item> \<open>V4l2_Ctx\<close> (\<^verbatim>\<open>crystalhd_v4l2.c\<close>): lifetime of the V4L2 contexts and their parent under every interleaving
    of frontend, core, close worker, resume and removal; a close is never lost. The core takes part through
    the lease protocol \<^const>\<open>lease_next\<close> that \<open>Session_Owner\<close> proves of it.
  \<^item> \<open>L0s_Link\<close> (\<^verbatim>\<open>crystalhd_l0s.h\<close>, \<^verbatim>\<open>crystalhd_lnx.c\<close>): the link power override of a session, with faults of
    every configuration access; the platform's registers come back exactly.
  \<^item> \<open>Retained_Rx\<close> (\<^verbatim>\<open>crystalhd_cmds.c\<close>, \<^verbatim>\<open>crystalhd_hw.c\<close>): who owns capture memory, the application or the
    device. Over all histories of retained and legacy calls, capture control, suspends and faults, what the
    engines may still write, after a stop that failed too, is held by the driver and pinned, leases are handed out and taken back once each, and a complete
    retirement leaves nothing behind. The cleanup of \<open>Session_Owner\<close> is this theory's, seen from the session.

  \<^bold>\<open>How the state is modelled.\<close> A function under a lock, or a section under a spinlock, is one
  transformation. Where the code runs concurrently (the mailbox, the V4L2 contexts, OUTPUT buffers, the token
  ledger) the sections are the steps of a history and the histories are arbitrary. What the kernel, the
  firmware and the device answer is an argument of the step, unrestricted unless a theorem names a hypothesis.
  Reading or writing outside an array, through a null or freed pointer, or blocking on a mutex is the
  result \<^const>\<open>None\<close>, and the theorems that a run has a result exclude it.

  \<^bold>\<open>Bounds and fuel.\<close> Loops of the code are structural recursion over the scatter list, the bytes or the
  table they walk, or over their own counter. The loops of the queues, which follow pointers and could cycle,
  are \<open>partial_function (option)\<close>, and the theorems show that they return. The only fuel is that of reading
  all pages of a receipt, where one more than the number of records is proved to be enough. Contexts are
  numbered below 1048576, since a reference count may not saturate.

  \<^bold>\<open>Not modelled.\<close> The remaining ioctl handlers of the core (\<^verbatim>\<open>bc_cproc_*\<close> for registers, memory, statistics
  and transmission); the queues and interrupt handlers of the receive engine, which \<open>Retained_Rx\<close> sees as
  the buffers the driver holds and, among them, those the engines may write; a legacy fetch is one step once it has taken its packet. The register
  programming of the two chips (\<^verbatim>\<open>crystalhd_fleafuncs.c\<close>, \<^verbatim>\<open>crystalhd_linkfuncs.c\<close>,
  \<^verbatim>\<open>crystalhd_flea_ddr.c\<close>), whose meaning is the hardware's; file operations, PCI probe and removal
  (\<^verbatim>\<open>crystalhd_lnx.c\<close>); the video node and its buffer queues (\<^verbatim>\<open>crystalhd_v4l2_node.c\<close>,
  \<^verbatim>\<open>crystalhd_v4l2_buffers.c\<close>), which are mostly calls of the V4L2 framework; the user libraries, GStreamer and
  VA-API components and the register headers.
\<close>

section \<open>The session core and the V4L2 contexts\<close>

text \<open>
  The two halves of the owner interface fit: in every reachable state, whatever callback the session
  core may make next under its lease protocol, the context is still there to take it, and afterwards both
  sides agree on the lease. The context need not hold any lock of the core for this.
\<close>

lemma core_retired_accepted:
  assumes "sys_inv base s" "lease_next (ct_lease (sy_threads s cid)) (Cb_Retired (Tok_Frontend cid)) = Some l"
  shows "\<exists>s'. ctx_step (Cx_Retired cid) s = Some (True, s') \<and> sys_inv base s' \<and> ct_lease (sy_threads s' cid) = l"
  using ctx_step_inv [OF assms(1), of "Cx_Retired cid"] assms(2) by (auto simp: act_def set_thread_def bind_eq_Some_conv)

lemma core_put_accepted:
  assumes "sys_inv base s" "lease_next (ct_lease (sy_threads s cid)) (Cb_Put (Tok_Frontend cid)) = Some l"
  shows "\<exists>s'. ctx_step (Cx_Core_Put cid) s = Some (True, s') \<and> sys_inv base s' \<and> ct_lease (sy_threads s' cid) = l"
  using ctx_step_inv [OF assms(1), of "Cx_Core_Put cid"] assms(2) by (auto simp: act_def set_thread_def bind_eq_Some_conv)

text \<open>Hence a lease that was given is always returned by the core's two remaining callbacks.\<close>

lemma core_lease_returns:
  assumes "sys_inv base s" "ct_lease (sy_threads s cid) = L_Held (Tok_Frontend cid)"
  shows "\<exists>s'. run_ops ctx_step [Cx_Retired cid, Cx_Core_Put cid] s = Some ([True, True], s') \<and> ct_lease (sy_threads s' cid) = L_Idle"
proof -
  from core_retired_accepted [OF assms(1), of cid "L_Retired (Tok_Frontend cid)"] assms(2)
  obtain s1 where s1: "ctx_step (Cx_Retired cid) s = Some (True, s1)" "sys_inv base s1" "ct_lease (sy_threads s1 cid) = L_Retired (Tok_Frontend cid)" by auto
  from core_put_accepted [OF s1(2), of cid L_Idle] s1(3)
  obtain s2 where "ctx_step (Cx_Core_Put cid) s1 = Some (True, s2)" "ct_lease (sy_threads s2 cid) = L_Idle" by auto
  then show ?thesis using s1(1) by simp
qed

section \<open>The session and the capture registry\<close>

text \<open>
  Session ownership sees of the registry only its generation, whether it is stale and which entries are queued.
  Its cleanup is the capture theory's cleanup seen that way.
\<close>

abbreviation (input) entry_view :: "retained_rx_entry option \<Rightarrow> bool option" where
  "entry_view \<equiv> map_option (\<lambda>e. en_state e = BC_RX_QUEUED)"

definition registry_view :: "retained_rx_registry \<Rightarrow> crystalhd_retained_rx_registry" where
  "registry_view r = \<lparr>rg_generation = rr_generation r, rg_stale = rr_stale r, rg_entries = map entry_view (rr_entries r)\<rparr>"

definition session_sees :: "session_ctx \<Rightarrow> rx_ctx \<Rightarrow> bool" where
  "session_sees s c \<longleftrightarrow> ss_retained_rx s = map_option registry_view (rx_retained c) \<and> ss_retained_serial s = rx_serial c"

lemma view_queued: "find_entry (\<lambda>e. en_state e = BC_RX_QUEUED) es i \<noteq> None \<longleftrightarrow> Some True \<in> set (map entry_view es)"
proof (induction es arbitrary: i)
  case (Cons e es)
  then show ?case by (cases e) auto
qed simp

lemma unmap_view:
  assumes "rx_retained c = Some r" "es = drop i (rr_entries r)" "unmap_entries f i es c = (ok, c1)"
  shows "\<exists>es1. rx_retained c1 = Some (r\<lparr>rr_entries := take i (rr_entries r) @ es1\<rparr>) \<and> rx_serial c1 = rx_serial c \<and>
    retained_unmap f (map entry_view es) i = (ok, map entry_view es1)"
  using assms
proof (induction f i es c arbitrary: r rule: unmap_entries.induct)
  case (1 f i c)
  then show ?case by auto
next
  case (2 f i es c)
  from drop_Cons [OF 2(3)] have n: "i < length (rr_entries r)" "rr_entries r ! i = None" "es = drop (i + 1) (rr_entries r)" by auto
  have "unmap_entries f (i + 1) es c = (ok, c1)" using 2(4) by simp
  from 2(1) [OF 2(2) n(3) this] obtain es1 where e: "rx_retained c1 = Some (r\<lparr>rr_entries := take (i + 1) (rr_entries r) @ es1\<rparr>)" "rx_serial c1 = rx_serial c"
    "retained_unmap f (map entry_view es) (i + 1) = (ok, map entry_view es1)" by blast
  have "take (i + 1) (rr_entries r) @ es1 = take i (rr_entries r) @ None # es1" using n by (simp add: take_Suc_conv_app_nth)
  then show ?case using e by (intro exI [of _ "None # es1"]) simp
next
  case (3 f i e es c)
  from drop_Cons [OF 3(3)] have n: "i < length (rr_entries r)" "rr_entries r ! i = Some e" "es = drop (i + 1) (rr_entries r)" by auto
  show ?case
  proof (cases "f i = BC_STS_SUCCESS")
    case False
    then have "ok = False \<and> c1 = c" using 3(4) by simp
    moreover have "take i (rr_entries r) @ Some e # es = rr_entries r" using 3(3) by (metis append_take_drop_id)
    ultimately show ?thesis using False 3(2) by (intro exI [of _ "Some e # es"]) simp
  next
    case True
    let ?d = "set_entry i None (unmap_entry BC_STS_SUCCESS (en_id e) c)" and ?r = "r\<lparr>rr_entries := (rr_entries r)[i := None]\<rparr>"
    have d: "rx_retained ?d = Some ?r" "rx_serial ?d = rx_serial c" using 3(2) by (simp_all add: set_entry_def unmap_entry_def)
    have es: "es = drop (i + 1) (rr_entries ?r)" using n(3) by simp
    have "unmap_entries f (i + 1) es ?d = (ok, c1)" using 3(4) True by simp
    from 3(1) [OF _ d(1) es this] True obtain es1 where e: "rx_retained c1 = Some (?r\<lparr>rr_entries := take (i + 1) (rr_entries ?r) @ es1\<rparr>)" "rx_serial c1 = rx_serial c"
      "retained_unmap f (map entry_view es) (i + 1) = (ok, map entry_view es1)" using d(2) by auto
    have "take (i + 1) ((rr_entries r)[i := None]) @ es1 = take i (rr_entries r) @ None # es1" using n(1) by (simp add: take_Suc_conv_app_nth)
    then show ?thesis using e True by (intro exI [of _ "None # es1"]) simp
  qed
qed

theorem cleanup_refines:
  assumes "session_sees s c"
  shows "\<exists>b s1 c1. crystalhd_retained_cleanup (ra_unmap a) destroy s = (b, s1) \<and> retained_cleanup a destroy c = (b, c1) \<and> session_sees s1 c1"
proof (cases "rx_retained c")
  case None
  then show ?thesis using assms by (intro exI [of _ True]) (simp add: session_sees_def crystalhd_retained_cleanup_def retained_cleanup_def)
next
  case (Some r)
  obtain ok c1 where u: "unmap_entries (ra_unmap a) 0 (rr_entries r) c = (ok, c1)" by fastforce
  from unmap_view [OF Some _ u] obtain es1 where v: "rx_retained c1 = Some (r\<lparr>rr_entries := es1\<rparr>)" "rx_serial c1 = rx_serial c"
    "retained_unmap (ra_unmap a) (map entry_view (rr_entries r)) 0 = (ok, map entry_view es1)" by auto
  have s: "ss_retained_rx s = Some (registry_view r)" "ss_retained_serial s = rx_serial c" using assms Some by (simp_all add: session_sees_def)
  show ?thesis
  proof (cases "find_entry (\<lambda>e. en_state e = BC_RX_QUEUED) (rr_entries r) 0 = None")
    case True
    then have "Some True \<notin> set (map entry_view (rr_entries r))" using view_queued [of "rr_entries r" 0] by blast
    then show ?thesis using Some s u v True by (intro exI [of _ ok]) (simp add: session_sees_def crystalhd_retained_cleanup_def retained_cleanup_def registry_view_def)
  next
    case False
    then have "Some True \<in> set (map entry_view (rr_entries r))" using view_queued [of "rr_entries r" 0] by blast
    then show ?thesis using Some s assms False by (intro exI [of _ False]) (simp add: crystalhd_retained_cleanup_def retained_cleanup_def registry_view_def)
  qed
qed

end
